(* ===== verification/Prelude.thy ===== *)
theory Prelude
  imports Main "HOL-Library.Word" "HOL-Library.Monad_Syntax"
begin

text \<open>
  Shared vocabulary of the development: the C integer types as words, a failed
  \<open>NVMEV_ASSERT\<close> (\<open>BUG_ON\<close>), a bad memory access or a division by zero as \<open>None\<close> of
  an option, array reads and writes with their bounds, the C arithmetic that differs from
  HOL's, and the generic lemmas about them.
\<close>

unbundle bit_operations_syntax

subsection \<open>Types\<close>

type_synonym u8 = "8 word"
type_synonym u16 = "16 word"
type_synonym u32 = "32 word"
type_synonym u64 = "64 word"

text \<open>\<open>ULL_MAX\<close> is the all-ones pattern the code writes as \<open>~(0ULL)\<close>.\<close>

abbreviation ULL_MAX :: u64 where
  "ULL_MAX \<equiv> - 1"

abbreviation UINT_MAX :: u32 where
  "UINT_MAX \<equiv> - 1"

subsection \<open>Collections of facts\<close>

named_theorems arr_simps \<open>reads and writes of arrays with their bounds\<close>
named_theorems cdefs \<open>definitions of small helpers of the code\<close>

subsection \<open>Assertions and guarded computation\<close>

definition NVMEV_ASSERT :: "bool \<Rightarrow> unit option" where
  "NVMEV_ASSERT b = (if b then Some () else None)"

lemma NVMEV_ASSERT_simps [simp]:
  "NVMEV_ASSERT True = Some ()"
  "NVMEV_ASSERT False = None"
  "NVMEV_ASSERT b = Some u \<longleftrightarrow> b"
  "NVMEV_ASSERT b = None \<longleftrightarrow> \<not> b"
  by (auto simp: NVMEV_ASSERT_def)

lemma assert_bind [simp]:
  "Option.bind (NVMEV_ASSERT b) f = (if b then f () else None)"
  by (simp add: NVMEV_ASSERT_def)

lemma bind_Some_iff:
  "Option.bind m f = Some y \<longleftrightarrow> (\<exists>x. m = Some x \<and> f x = Some y)"
  by (cases m) auto

text \<open>A loop over the elements of a list that stops at the first fault.\<close>

fun fold_opt :: "('a \<Rightarrow> 's \<Rightarrow> 's option) \<Rightarrow> 'a list \<Rightarrow> 's \<Rightarrow> 's option" where
  "fold_opt f [] s = Some s"
| "fold_opt f (x # xs) s = Option.bind (f x s) (fold_opt f xs)"

lemma fold_opt_append:
  "fold_opt f (xs @ ys) s = Option.bind (fold_opt f xs s) (fold_opt f ys)"
  by (induction xs arbitrary: s) (auto split: Option.bind_splits)

lemma fold_opt_invariant:
  assumes "fold_opt f xs s = Some s'" and "I s"
    and "\<And>x s s'. x \<in> set xs \<Longrightarrow> I s \<Longrightarrow> f x s = Some s' \<Longrightarrow> I s'"
  shows "I s'"
  using assms
proof (induction xs arbitrary: s)
  case Nil
  then show ?case by simp
next
  case (Cons x xs)
  from Cons.prems(1) obtain t where t: "f x s = Some t" and rest: "fold_opt f xs t = Some s'"
    by (auto simp: bind_Some_iff)
  have "I t" using Cons.prems(2,3) t by auto
  with rest show ?case using Cons.IH Cons.prems(3) by auto
qed

lemma fold_opt_Some:
  assumes "I s"
    and "\<And>x s. x \<in> set xs \<Longrightarrow> I s \<Longrightarrow> \<exists>s'. f x s = Some s' \<and> I s'"
  shows "\<exists>s'. fold_opt f xs s = Some s' \<and> I s'"
  using assms
proof (induction xs arbitrary: s)
  case Nil
  then show ?case by simp
next
  case (Cons x xs)
  from Cons.prems obtain t where "f x s = Some t" "I t"
    by (metis list.set_intros(1))
  with Cons.IH [of t] Cons.prems(2) show ?case by auto
qed

subsection \<open>Arrays\<close>

definition rd :: "'a list \<Rightarrow> nat \<Rightarrow> 'a option" where
  "rd xs i = (if i < length xs then Some (xs ! i) else None)"

definition wr :: "'a list \<Rightarrow> nat \<Rightarrow> 'a \<Rightarrow> 'a list option" where
  "wr xs i v = (if i < length xs then Some (xs[i := v]) else None)"

text \<open>Update of one cell by a computation that may itself fault.\<close>

definition modify :: "'a list \<Rightarrow> nat \<Rightarrow> ('a \<Rightarrow> 'a option) \<Rightarrow> 'a list option" where
  "modify xs i f = Option.bind (rd xs i) (\<lambda>x. Option.bind (f x) (wr xs i))"

lemma rd_Some [arr_simps]: "rd xs i = Some x \<longleftrightarrow> i < length xs \<and> xs ! i = x"
  by (auto simp: rd_def)

lemma rd_None [arr_simps]: "rd xs i = None \<longleftrightarrow> length xs \<le> i"
  by (auto simp: rd_def)

lemma rd_in [simp]: "i < length xs \<Longrightarrow> rd xs i = Some (xs ! i)"
  by (simp add: rd_def)

lemma wr_in [simp]: "i < length xs \<Longrightarrow> wr xs i v = Some (xs[i := v])"
  by (simp add: wr_def)

lemma wr_Some [arr_simps]: "wr xs i v = Some ys \<longleftrightarrow> i < length xs \<and> ys = xs[i := v]"
  by (auto simp: wr_def)

lemma modify_Some [arr_simps]:
  "modify xs i f = Some ys \<longleftrightarrow>
     (\<exists>y. i < length xs \<and> f (xs ! i) = Some y \<and> ys = xs[i := y])"
  by (auto simp: modify_def bind_Some_iff arr_simps)

lemma modify_in [simp]:
  "i < length xs \<Longrightarrow> f (xs ! i) = Some y \<Longrightarrow> modify xs i f = Some (xs[i := y])"
  by (simp add: modify_def)

lemma length_modify: "modify xs i f = Some ys \<Longrightarrow> length ys = length xs"
  by (auto simp: arr_simps)

subsection \<open>Arithmetic of C\<close>

text \<open>Unsigned division: a zero divisor is a fault.\<close>

definition udiv :: "'w::len word \<Rightarrow> 'w word \<Rightarrow> 'w word option" where
  "udiv a b = (if b = 0 then None else Some (a div b))"

definition umod :: "'w::len word \<Rightarrow> 'w word \<Rightarrow> 'w word option" where
  "umod a b = (if b = 0 then None else Some (a mod b))"

lemma udiv_simps [simp]:
  "b \<noteq> 0 \<Longrightarrow> udiv a b = Some (a div b)" "udiv a 0 = None"
  by (auto simp: udiv_def)

text \<open>Signed division of C truncates towards zero.\<close>

definition tdiv :: "int \<Rightarrow> int \<Rightarrow> int" where
  "tdiv a b = sgn a * sgn b * (\<bar>a\<bar> div \<bar>b\<bar>)"

definition tmod :: "int \<Rightarrow> int \<Rightarrow> int" where
  "tmod a b = a - b * tdiv a b"

lemma tdiv_nonneg: "0 \<le> a \<Longrightarrow> 0 < b \<Longrightarrow> tdiv a b = a div b"
  by (cases "a = 0") (auto simp: tdiv_def)

lemma tdiv_minus: "tdiv (- a) b = - tdiv a b"
  by (simp add: tdiv_def sgn_minus)

lemma tdiv_bound: "0 < b \<Longrightarrow> \<bar>tdiv a b\<bar> * b \<le> \<bar>a\<bar>"
proof -
  assume b: "0 < b"
  have "\<bar>tdiv a b\<bar> \<le> \<bar>a\<bar> div b"
    using b by (cases "a = 0") (auto simp: tdiv_def abs_mult pos_imp_zdiv_nonneg_iff)
  then have "\<bar>tdiv a b\<bar> * b \<le> (\<bar>a\<bar> div b) * b"
    using b by (simp add: mult_right_mono)
  also have "\<dots> \<le> \<bar>a\<bar>"
    using div_mult_mod_eq [of "\<bar>a\<bar>" b] pos_mod_sign [OF b, of "\<bar>a\<bar>"] by linarith
  finally show ?thesis .
qed

lemma tdiv_mono: "0 < b \<Longrightarrow> a \<le> a' \<Longrightarrow> tdiv a b \<le> tdiv a' b"
proof -
  assume b: "0 < b" and le: "a \<le> a'"
  show ?thesis
  proof (cases "0 \<le> a")
    case True
    with b le show ?thesis by (simp add: tdiv_nonneg zdiv_mono1)
  next
    case neg: False
    have na: "tdiv a b = - ((- a) div b)"
      using neg b tdiv_minus [of "- a" b] by (simp add: tdiv_nonneg)
    show ?thesis
    proof (cases "0 \<le> a'")
      case True
      have "0 \<le> (- a) div b" using neg b by (simp add: pos_imp_zdiv_nonneg_iff)
      moreover have "0 \<le> a' div b" using True b by (simp add: pos_imp_zdiv_nonneg_iff)
      ultimately show ?thesis using na True b by (simp add: tdiv_nonneg)
    next
      case False
      have "tdiv a' b = - ((- a') div b)"
        using False b tdiv_minus [of "- a'" b] by (simp add: tdiv_nonneg)
      moreover have "(- a') div b \<le> (- a) div b"
        using le b by (simp add: zdiv_mono1)
      ultimately show ?thesis using na by simp
    qed
  qed
qed

text \<open>\<open>DIV_ROUND_UP(n, d)\<close> of the kernel is \<open>(n + d - 1) / d\<close>.\<close>

definition div_round_up :: "nat \<Rightarrow> nat \<Rightarrow> nat" where
  "div_round_up n d = (n + d - 1) div d"

lemma div_round_up_ge: "0 < d \<Longrightarrow> n \<le> div_round_up n d * d"
proof -
  assume d: "0 < d"
  define q r where "q = (n + d - 1) div d" and "r = (n + d - 1) mod d"
  have "n + d - 1 = q * d + r" and "r < d"
    using d by (simp_all add: q_def r_def)
  then have "n \<le> q * d" by linarith
  then show ?thesis by (simp add: div_round_up_def q_def)
qed

lemma div_round_up_less: "0 < d \<Longrightarrow> div_round_up n d * d < n + d"
proof -
  assume d: "0 < d"
  have "(n + d - 1) div d * d \<le> n + d - 1" by (rule div_times_less_eq_dividend)
  then show ?thesis using d unfolding div_round_up_def by linarith
qed

subsection \<open>Words\<close>

lemma unat_less_pow: "unat (x :: 'w::len word) < 2 ^ LENGTH('w)"
  by (rule unsigned_less)

lemma unat_add_nowrap:
  "unat a + unat b < 2 ^ LENGTH('w) \<Longrightarrow> unat (a + b :: 'w::len word) = unat a + unat b"
  by (simp add: unat_word_ariths)

lemma unat_mult_nowrap:
  "unat a * unat b < 2 ^ LENGTH('w) \<Longrightarrow> unat (a * b :: 'w::len word) = unat a * unat b"
  by (simp add: unat_word_ariths)

lemma unat_sub_le: "b \<le> a \<Longrightarrow> unat (a - b :: 'w::len word) = unat a - unat b"
  by (rule unat_sub)

lemma of_nat_Suc_pred:
  "n \<noteq> 0 \<Longrightarrow> (of_nat n :: 'w::len word) - 1 = of_nat (n - 1)"
  by (cases n) auto

lemma unat_ULL_MAX: "unat ULL_MAX = 2 ^ 64 - 1"
  by (simp add: unsigned_minus_1_eq_mask mask_eq_exp_minus_1)

lemma unat_lt_max: "n \<noteq> ULL_MAX \<Longrightarrow> unat n < 2 ^ 64 - 1"
proof -
  assume "n \<noteq> ULL_MAX"
  then have "unat n \<noteq> 2 ^ 64 - 1" by (metis unat_ULL_MAX word_unat_eq_iff)
  then show ?thesis using unat_less_pow [of n] by simp
qed

lemma ULL_MAX_order [simp]: "\<not> ULL_MAX \<le> 1" "0 < ULL_MAX"
  by (simp_all add: word_le_nat_alt word_less_nat_alt unat_ULL_MAX)

lemma word_le_1_cases: "(n :: 'w::len word) \<le> 1 \<Longrightarrow> n = 0 \<or> n = 1"
  by (metis antisym_conv2 word_less_1)

lemma word_div_self: "(n :: u64) \<noteq> 0 \<Longrightarrow> n div n = 1"
  by (simp add: word_unat_eq_iff unat_div)

lemma unat_ucast_less:
  "unat (r :: 'a::len word) < 2 ^ LENGTH('b) \<Longrightarrow> unat (ucast r :: 'b::len word) = unat r"
  by (simp add: unsigned_ucast_eq take_bit_nat_eq_self)

lemma unat_ucast_up:
  "LENGTH('a) \<le> LENGTH('b) \<Longrightarrow> unat (ucast (r :: 'a::len word) :: 'b::len word) = unat r"
  by (rule unat_ucast_less) (metis unat_less_pow order_less_le_trans power_increasing one_le_numeral)

lemma unat_of_nat_small: "n < 2 ^ LENGTH('w) \<Longrightarrow> unat (of_nat n :: 'w::len word) = n"
  by (simp add: unsigned_of_nat take_bit_nat_eq_self)

end
