(* ===== verification/Channel_Model.thy ===== *)
theory Channel_Model
  imports Prelude
begin

text \<open>
  The bandwidth model of \<open>channel_model.c\<close>: a ring of \<open>NR_CREDIT_ENTRIES\<close> time slots of
  \<open>UNIT_TIME_INTERVAL\<close> nanoseconds, each with the transfer credits it has left. The slots
  \<open>head .. head + valid_len - 1\<close> of the ring may have been drawn from, every other slot is full.
  The wall clock reading is an argument.
\<close>

definition NR_CREDIT_ENTRIES :: nat where [cdefs]: "NR_CREDIT_ENTRIES = 1024 * 96"

definition UNIT_TIME_INTERVAL :: nat where [cdefs]: "UNIT_TIME_INTERVAL = 4000"

definition UNIT_XFER_SIZE :: nat where [cdefs]: "UNIT_XFER_SIZE = 128"

definition UNIT_XFER_CREDITS :: nat where [cdefs]: "UNIT_XFER_CREDITS = 1"

record channel_model =
  cm_cur_time :: u64
  cm_head :: u32
  cm_valid_len :: u32
  cm_max_credits :: u32
  cm_command_credits :: u32
  cm_xfer_lat :: u32
  cm_avail_credits :: "nat \<Rightarrow> u8"

text \<open>\<open>memset\<close> of a range of the ring; a range that leaves the array is a fault.\<close>

definition memset_credits :: "(nat \<Rightarrow> u8) \<Rightarrow> nat \<Rightarrow> u32 \<Rightarrow> nat \<Rightarrow> (nat \<Rightarrow> u8) option" where
  "memset_credits a start v len =
     (if start + len \<le> NR_CREDIT_ENTRIES
      then Some (\<lambda>i. if start \<le> i \<and> i < start + len then ucast v else a i)
      else None)"

text \<open>\<open>BANDWIDTH_TO_TX_TIME\<close> and \<open>BANDWIDTH_TO_MAX_CREDITS\<close>, in 64-bit arithmetic.\<close>

definition BANDWIDTH_TO_TX_TIME :: "u64 \<Rightarrow> u64 option" where
  "BANDWIDTH_TO_TX_TIME mb_s = udiv (of_nat UNIT_XFER_SIZE * 1000000000) (push_bit 20 mb_s)"

definition BANDWIDTH_TO_MAX_CREDITS :: "u64 \<Rightarrow> u64" where
  "BANDWIDTH_TO_MAX_CREDITS mb_s =
     push_bit 20 mb_s * of_nat UNIT_TIME_INTERVAL div 1000000000 div of_nat UNIT_XFER_SIZE
       * of_nat UNIT_XFER_CREDITS"

definition chmodel_init :: "u64 \<Rightarrow> channel_model option" where
  "chmodel_init bandwidth = do {
     let max_credits = ucast (BANDWIDTH_TO_MAX_CREDITS bandwidth);
     xfer_lat \<leftarrow> BANDWIDTH_TO_TX_TIME bandwidth;
     avail \<leftarrow> memset_credits (\<lambda>_. 0) 0 max_credits NR_CREDIT_ENTRIES;
     Some \<lparr>cm_cur_time = 0, cm_head = 0, cm_valid_len = 0, cm_max_credits = max_credits,
       cm_command_credits = 0, cm_xfer_lat = ucast xfer_lat, cm_avail_credits = avail\<rparr>
   }"

text \<open>
  The loop that draws \<open>remaining\<close> credits, slot by slot from \<open>pos\<close>, until they are paid or
  the slot before \<open>head\<close> is reached. It returns the ring, the last slot and the slots passed.
\<close>

partial_function (option) consume_credits ::
  "u32 \<Rightarrow> (nat \<Rightarrow> u8) \<Rightarrow> u32 \<Rightarrow> u32 \<Rightarrow> u32 \<Rightarrow> ((nat \<Rightarrow> u8) \<times> u32 \<times> u32) option" where
  "consume_credits head avail pos remaining delay = do {
     a \<leftarrow> (if unat pos < NR_CREDIT_ENTRIES then Some (avail (unat pos)) else None);
     let consumed = (if remaining \<le> ucast a then remaining else ucast a);
     let avail = avail(unat pos := ucast (ucast a - consumed));
     let remaining = remaining - consumed;
     if remaining \<noteq> 0
     then let next_pos = (pos + 1) mod of_nat NR_CREDIT_ENTRIES
          in if next_pos \<noteq> head then consume_credits head avail next_pos remaining (delay + 1)
             else Some (avail, pos, delay)
     else Some (avail, pos, delay)
   }"

definition chmodel_move_head :: "channel_model \<Rightarrow> u64 \<Rightarrow> channel_model option" where
  "chmodel_move_head ch cur_time = do {
     let offs = ucast (cur_time div of_nat UNIT_TIME_INTERVAL
                       - cm_cur_time ch div of_nat UNIT_TIME_INTERVAL);
     let offs = (if offs < cm_valid_len ch then offs else cm_valid_len ch);
     avail \<leftarrow>
       (if of_nat NR_CREDIT_ENTRIES \<le> cm_head ch + offs
        then do {
          a \<leftarrow> memset_credits (cm_avail_credits ch) (unat (cm_head ch)) (cm_max_credits ch)
                (unat (of_nat NR_CREDIT_ENTRIES - cm_head ch));
          memset_credits a 0 (cm_max_credits ch)
                (unat (offs - (of_nat NR_CREDIT_ENTRIES - cm_head ch)))
        }
        else memset_credits (cm_avail_credits ch) (unat (cm_head ch)) (cm_max_credits ch)
               (unat offs));
     let ch = ch\<lparr>cm_avail_credits := avail,
                  cm_head := (cm_head ch + offs) mod of_nat NR_CREDIT_ENTRIES,
                  cm_cur_time := cur_time,
                  cm_valid_len := cm_valid_len ch - offs\<rparr>;
     NVMEV_ASSERT (cm_valid_len ch \<le> of_nat NR_CREDIT_ENTRIES);
     Some ch
   }"

definition chmodel_request ::
  "channel_model \<Rightarrow> u64 \<Rightarrow> u64 \<Rightarrow> u64 \<Rightarrow> (channel_model \<times> u64) option" where
  "chmodel_request ch cur_time request_time len = do {
     let units_to_xfer =
       (ucast ((len + of_nat UNIT_XFER_SIZE - 1) div of_nat UNIT_XFER_SIZE) :: u32);
     ch \<leftarrow> chmodel_move_head ch cur_time;
     if request_time < cur_time then Some (ch, request_time)
     else do {
       let request_time_offs =
         (ucast (request_time div of_nat UNIT_TIME_INTERVAL
                 - cur_time div of_nat UNIT_TIME_INTERVAL) :: u32);
       if of_nat NR_CREDIT_ENTRIES \<le> request_time_offs then Some (ch, request_time)
       else do {
         let pos = (cm_head ch + request_time_offs) mod of_nat NR_CREDIT_ENTRIES;
         let remaining = units_to_xfer * of_nat UNIT_XFER_CREDITS + cm_command_credits ch;
         default_delay \<leftarrow> udiv remaining (cm_max_credits ch);
         (avail, pos, delay) \<leftarrow>
           consume_credits (cm_head ch) (cm_avail_credits ch) pos remaining 0;
         let valid_length =
           (if cm_head ch \<le> pos then pos - cm_head ch + 1
            else of_nat NR_CREDIT_ENTRIES - (cm_head ch - pos - 1));
         let ch = ch\<lparr>cm_avail_credits := avail,
             cm_valid_len := (if cm_valid_len ch < valid_length then valid_length
                              else cm_valid_len ch)\<rparr>;
         let delay = (if default_delay < delay then delay - default_delay else 0);
         let total_latency =
           ucast (cm_xfer_lat ch * units_to_xfer) + ucast delay * of_nat UNIT_TIME_INTERVAL;
         Some (ch, request_time + total_latency)
       }
     }
   }"

subsection \<open>The ring\<close>

definition ring :: "u32 \<Rightarrow> nat \<Rightarrow> nat" where
  "ring head i = (unat head + i) mod NR_CREDIT_ENTRIES"

text \<open>
  A well-formed model: the head is a slot, at most the whole ring is in use, a slot holds no more
  than the maximum, and every slot outside the window in use is full.
\<close>

definition cm_wf :: "channel_model \<Rightarrow> bool" where
  "cm_wf ch \<longleftrightarrow> unat (cm_head ch) < NR_CREDIT_ENTRIES \<and>
     unat (cm_valid_len ch) \<le> NR_CREDIT_ENTRIES \<and>
     cm_max_credits ch \<noteq> 0 \<and> unat (cm_max_credits ch) < 256 \<and>
     (\<forall>i < NR_CREDIT_ENTRIES. cm_avail_credits ch i \<le> ucast (cm_max_credits ch)) \<and>
     (\<forall>i < NR_CREDIT_ENTRIES. unat (cm_valid_len ch) \<le> i \<longrightarrow>
        cm_avail_credits ch (ring (cm_head ch) i) = ucast (cm_max_credits ch))"

lemma NR_pos [simp]: "0 < NR_CREDIT_ENTRIES" "NR_CREDIT_ENTRIES < 2 ^ 30"
  by (simp_all add: NR_CREDIT_ENTRIES_def)

lemma unat_NR [simp]: "unat (of_nat NR_CREDIT_ENTRIES :: u32) = NR_CREDIT_ENTRIES"
  by (simp add: NR_CREDIT_ENTRIES_def)

lemma ring_less [simp]: "ring head i < NR_CREDIT_ENTRIES"
  by (simp add: ring_def)

lemma unat_mod_NR:
  "unat (a :: u32) + unat b < 2 ^ 32 \<Longrightarrow>
   unat ((a + b) mod of_nat NR_CREDIT_ENTRIES) = (unat a + unat b) mod NR_CREDIT_ENTRIES"
  by (simp add: unat_mod_distrib unat_add_nowrap)

lemma ring_if:
  "unat head < NR_CREDIT_ENTRIES \<Longrightarrow> i < NR_CREDIT_ENTRIES \<Longrightarrow>
   ring head i = (if unat head + i < NR_CREDIT_ENTRIES then unat head + i
                  else unat head + i - NR_CREDIT_ENTRIES)"
  by (simp add: ring_def mod_if)

lemma ring_inj:
  assumes "unat head < NR_CREDIT_ENTRIES" "i < NR_CREDIT_ENTRIES" "j < NR_CREDIT_ENTRIES"
  shows "ring head i = ring head j \<longleftrightarrow> i = j"
  using assms by (auto simp: ring_if)

lemma ring_next:
  assumes "unat head < NR_CREDIT_ENTRIES" "i < NR_CREDIT_ENTRIES" "unat (pos :: u32) = ring head i"
  shows "unat ((pos + 1) mod of_nat NR_CREDIT_ENTRIES) = ring head (Suc i)"
    and "(pos + 1) mod of_nat NR_CREDIT_ENTRIES = head \<longleftrightarrow> Suc i = NR_CREDIT_ENTRIES"
proof -
  have lt: "ring head i < 2 ^ 30" using ring_less NR_pos(2) less_trans by blast
  have "unat ((pos + 1) mod of_nat NR_CREDIT_ENTRIES) = (ring head i + 1) mod NR_CREDIT_ENTRIES"
    using assms(3) lt by (subst unat_mod_NR) auto
  then show eq: "unat ((pos + 1) mod of_nat NR_CREDIT_ENTRIES) = ring head (Suc i)"
    by (simp add: ring_def mod_Suc_eq)
  have "ring head (Suc i) = unat head \<longleftrightarrow> Suc i = NR_CREDIT_ENTRIES"
  proof (cases "Suc i = NR_CREDIT_ENTRIES")
    case True
    then show ?thesis using assms(1) by (simp add: ring_def)
  next
    case False
    then have "Suc i < NR_CREDIT_ENTRIES" using assms(2) by simp
    then show ?thesis using assms(1) by (auto simp: ring_if)
  qed
  then show "(pos + 1) mod of_nat NR_CREDIT_ENTRIES = head \<longleftrightarrow> Suc i = NR_CREDIT_ENTRIES"
    using eq by (metis word_unat_eq_iff)
qed

text \<open>All the credits left in the ring.\<close>

definition credits_left :: "(nat \<Rightarrow> u8) \<Rightarrow> nat" where
  "credits_left avail = (\<Sum>i < NR_CREDIT_ENTRIES. unat (avail i))"

lemma credits_left_upd:
  assumes "p < NR_CREDIT_ENTRIES"
  shows "credits_left (avail(p := v)) + unat (avail p) = credits_left avail + unat v"
proof -
  have "credits_left f = unat (f p) + (\<Sum>i \<in> {..<NR_CREDIT_ENTRIES} - {p}. unat (f i))" for f
    unfolding credits_left_def using assms by (intro sum.remove) auto
  from this [of avail] this [of "avail(p := v)"] show ?thesis by simp
qed

text \<open>
  The drawing loop, started at the \<open>j\<close>-th slot of the window, ends at some later slot: it lowers
  only the slots it passes, counts them, and charges exactly the credits asked for unless it used
  the ring up.
\<close>

lemma consume_credits_spec:
  assumes "unat head < NR_CREDIT_ENTRIES" "j < NR_CREDIT_ENTRIES" "unat pos = ring head j"
    and "unat delay + NR_CREDIT_ENTRIES \<le> 2 ^ 31 + j"
  shows "\<exists>avail' pos' j'. consume_credits head avail pos rem delay =
      Some (avail', pos', delay + of_nat (j' - j)) \<and> j \<le> j' \<and> j' < NR_CREDIT_ENTRIES \<and>
      unat pos' = ring head j' \<and> (\<forall>i. avail' i \<le> avail i) \<and>
      (\<forall>i < NR_CREDIT_ENTRIES. i < j \<or> j' < i \<longrightarrow> avail' (ring head i) = avail (ring head i)) \<and>
      (\<forall>i. j \<le> i \<and> i < j' \<longrightarrow> avail' (ring head i) = 0) \<and>
      (Suc j' < NR_CREDIT_ENTRIES \<longrightarrow> credits_left avail' + unat rem = credits_left avail)"
  using assms(2-4)
proof (induction "NR_CREDIT_ENTRIES - j" arbitrary: j pos avail rem delay rule: less_induct)
  case less
  define a where "a = (ucast (avail (unat pos)) :: u32)"
  define c where "c = (if rem \<le> a then rem else a)"
  define av where "av = avail(unat pos := ucast (a - c))"
  have ple: "unat pos < NR_CREDIT_ENTRIES" using less.prems(2) by simp
  have c_le: "c \<le> a" by (simp add: c_def)
  have av_le: "av i \<le> avail i" for i
  proof (cases "i = unat pos")
    case True
    have "unat (a - c) \<le> unat (avail i)"
      using c_le True by (simp add: unat_sub a_def unat_ucast_up)
    moreover have "unat (avail i) < 2 ^ 8" using unat_less_pow [of "avail i"] by simp
    ultimately have "unat (ucast (a - c) :: u8) \<le> unat (avail i)"
      by (subst unat_ucast_less) auto
    then show ?thesis using True by (simp add: av_def word_le_nat_alt)
  next
    case False
    then show ?thesis by (simp add: av_def)
  qed
  have av_other: "av (ring head i) = avail (ring head i)" if "i < NR_CREDIT_ENTRIES" "i \<noteq> j" for i
    using that less.prems(1,2) assms(1) by (simp add: av_def ring_inj)
  have paid: "credits_left av + unat c = credits_left avail"
  proof -
    have u: "unat (ucast (a - c) :: u8) = unat (avail (unat pos)) - unat c"
      using c_le unat_less_pow [of "avail (unat pos)"]
      by (subst unat_ucast_less) (auto simp: unat_sub a_def unat_ucast_up)
    have "unat c \<le> unat (avail (unat pos))"
      using c_le by (simp add: word_le_nat_alt a_def unat_ucast_up)
    then show ?thesis
      using credits_left_upd [OF ple, of avail "ucast (a - c)"] u by (simp add: av_def)
  qed
  have step: "consume_credits head avail pos rem delay =
      (if rem - c \<noteq> 0
       then if (pos + 1) mod of_nat NR_CREDIT_ENTRIES \<noteq> head
            then consume_credits head av ((pos + 1) mod of_nat NR_CREDIT_ENTRIES) (rem - c) (delay + 1)
            else Some (av, pos, delay)
       else Some (av, pos, delay))"
    using ple by (subst consume_credits.simps) (simp add: Let_def a_def c_def av_def)
  show ?case
  proof (cases "rem - c \<noteq> 0 \<and> Suc j < NR_CREDIT_ENTRIES")
    case False
    then have "consume_credits head avail pos rem delay = Some (av, pos, delay)"
      using step ring_next(2) [OF assms(1) less.prems(1,2)] less.prems(1) by auto
    moreover have "Suc j < NR_CREDIT_ENTRIES \<longrightarrow> credits_left av + unat rem = credits_left avail"
      using False paid by auto
    ultimately show ?thesis using less.prems(1,2) av_le av_other
      by (intro exI [of _ av] exI [of _ pos] exI [of _ j]) auto
  next
    case True
    let ?p = "(pos + 1) mod of_nat NR_CREDIT_ENTRIES"
    have nh: "?p \<noteq> head" and np: "unat ?p = ring head (Suc j)"
      using ring_next [OF assms(1) less.prems(1,2)] True by auto
    have ud: "unat (delay + 1) = Suc (unat delay)"
      using less.prems(3) NR_pos(2) less.prems(1) by (subst unat_add_nowrap) auto
    have zero: "av (ring head j) = 0"
      using True less.prems(2) by (auto simp: av_def c_def)
    have dl: "unat (delay + 1) + NR_CREDIT_ENTRIES \<le> 2 ^ 31 + Suc j" using ud less.prems(3) by simp
    have dec: "NR_CREDIT_ENTRIES - Suc j < NR_CREDIT_ENTRIES - j" and sj: "Suc j < NR_CREDIT_ENTRIES"
      using True by auto
    obtain av' p' j' where IH:
      "consume_credits head av ?p (rem - c) (delay + 1) = Some (av', p', delay + 1 + of_nat (j' - Suc j))"
      "Suc j \<le> j'" "j' < NR_CREDIT_ENTRIES" "unat p' = ring head j'" "\<forall>i. av' i \<le> av i"
      "\<forall>i < NR_CREDIT_ENTRIES. i < Suc j \<or> j' < i \<longrightarrow> av' (ring head i) = av (ring head i)"
      "\<forall>i. Suc j \<le> i \<and> i < j' \<longrightarrow> av' (ring head i) = 0"
      "Suc j' < NR_CREDIT_ENTRIES \<longrightarrow> credits_left av' + unat (rem - c) = credits_left av"
      using less.hyps [OF dec sj np dl] by blast
    have "delay + 1 + of_nat (j' - Suc j) = delay + of_nat (j' - j)"
      using IH(2) by (simp add: Suc_diff_Suc [symmetric] of_nat_diff)
    then have eq: "consume_credits head avail pos rem delay = Some (av', p', delay + of_nat (j' - j))"
      using step True nh IH(1) by simp
    have le: "av' i \<le> avail i" for i using IH(5) av_le order_trans by blast
    have out: "av' (ring head i) = avail (ring head i)" if "i < NR_CREDIT_ENTRIES" "i < j \<or> j' < i" for i
      using IH(2,6) av_other [of i] that by auto
    have zeros: "av' (ring head i) = 0" if "j \<le> i" "i < j'" for i
      using IH(6,7) that zero less.prems(1) by (cases "i = j") auto
    have "c \<le> rem" by (auto simp: c_def)
    then have "unat (rem - c) + unat c = unat rem" by (simp add: unat_sub word_le_nat_alt)
    then have charge: "Suc j' < NR_CREDIT_ENTRIES \<longrightarrow> credits_left av' + unat rem = credits_left avail"
      using IH(8) paid by auto
    show ?thesis
      using eq IH(2,3,4) le out zeros charge by (intro exI [of _ av'] exI [of _ p'] exI [of _ j']) auto
  qed
qed

lemma memset_credits_Some:
  "memset_credits a start v len = Some a' \<longleftrightarrow>
     start + len \<le> NR_CREDIT_ENTRIES \<and>
     a' = (\<lambda>i. if start \<le> i \<and> i < start + len then ucast v else a i)"
  by (auto simp: memset_credits_def)

text \<open>Moving the head never fails on a well-formed model and refills the slots it leaves.\<close>

lemma chmodel_move_head_spec:
  assumes wf: "cm_wf ch"
  shows "\<exists>ch'. chmodel_move_head ch now = Some ch' \<and> cm_wf ch' \<and> cm_cur_time ch' = now \<and>
    cm_max_credits ch' = cm_max_credits ch \<and> cm_command_credits ch' = cm_command_credits ch \<and>
    cm_xfer_lat ch' = cm_xfer_lat ch \<and> cm_valid_len ch' \<le> cm_valid_len ch"
proof -
  let ?N = NR_CREDIT_ENTRIES
  define o0 where "o0 = (ucast (now div of_nat UNIT_TIME_INTERVAL
      - cm_cur_time ch div of_nat UNIT_TIME_INTERVAL) :: u32)"
  define off where "off = (if o0 < cm_valid_len ch then o0 else cm_valid_len ch)"
  define h where "h = unat (cm_head ch)"
  define mx where "mx = (ucast (cm_max_credits ch) :: u8)"
  define av where "av = (\<lambda>i. if i < ?N \<and> ((h \<le> i \<and> i < h + unat off) \<or> i + ?N < h + unat off)
      then mx else cm_avail_credits ch i)"
  define head' where "head' = (cm_head ch + off) mod of_nat ?N"
  have ole: "off \<le> cm_valid_len ch" by (auto simp: off_def)
  have h: "h < ?N" and vl: "unat (cm_valid_len ch) \<le> ?N" using wf by (auto simp: cm_wf_def h_def)
  have o: "unat off \<le> unat (cm_valid_len ch)" using ole by (simp add: word_le_nat_alt)
  have sum: "unat (cm_head ch + off) = h + unat off"
    using h o vl NR_pos(2) by (subst unat_add_nowrap) (auto simp: h_def)
  have cmp: "of_nat ?N \<le> cm_head ch + off \<longleftrightarrow> ?N \<le> h + unat off"
    by (simp add: word_le_nat_alt sum)
  have d1: "unat (of_nat ?N - cm_head ch) = ?N - h"
    using h by (subst unat_sub_le) (auto simp: word_le_nat_alt h_def)
  have d2: "unat (off - (of_nat ?N - cm_head ch)) = unat off - (?N - h)" if "?N \<le> h + unat off"
    using that d1 by (subst unat_sub_le) (auto simp: word_le_nat_alt)
  have head': "unat head' = ring (cm_head ch) (unat off)"
    using h o vl NR_pos(2) by (simp add: head'_def ring_def unat_mod_distrib sum h_def)
  have ring': "ring head' i = ring (cm_head ch) (unat off + i)" for i
    by (simp add: ring_def head' mod_simps add.assoc)
  have avr: "av (ring (cm_head ch) i) = (if i < unat off then mx else cm_avail_credits ch (ring (cm_head ch) i))"
    if "i < ?N" for i
    using that h o vl by (auto simp: av_def ring_if h_def)
  have vl': "unat (cm_valid_len ch - off) = unat (cm_valid_len ch) - unat off"
    using ole by (rule unat_sub)
  define ch' where "ch' = ch\<lparr>cm_avail_credits := av, cm_head := head', cm_cur_time := now,
      cm_valid_len := cm_valid_len ch - off\<rparr>"
  have "av i \<le> mx" if "i < ?N" for i using wf that by (auto simp: cm_wf_def av_def mx_def)
  moreover have "av (ring head' i) = mx" if i: "i < ?N" "unat (cm_valid_len ch) - unat off \<le> i" for i
  proof (cases "unat off + i < ?N")
    case True
    have "unat (cm_valid_len ch) \<le> unat off + i" using i(2) by simp
    then show ?thesis using wf True avr [OF True] by (simp add: ring' cm_wf_def mx_def)
  next
    case False
    define k where "k = unat off + i - ?N"
    have k: "k < unat off" "k < ?N" using False i o vl by (auto simp: k_def)
    have "ring (cm_head ch) (unat off + i) = ring (cm_head ch) k"
    proof -
      have "unat (cm_head ch) + (unat off + i) = unat (cm_head ch) + k + ?N"
        using False by (simp add: k_def)
      then show ?thesis by (simp only: ring_def mod_add_self2)
    qed
    then show ?thesis using avr [OF k(2)] k(1) ring' by simp
  qed
  moreover have "unat head' < ?N" using head' by simp
  ultimately have wf': "cm_wf ch'"
    using wf o vl vl' by (auto simp: cm_wf_def ch'_def mx_def)
  have "(if of_nat ?N \<le> cm_head ch + off
        then do {
          a \<leftarrow> memset_credits (cm_avail_credits ch) (unat (cm_head ch)) (cm_max_credits ch)
                (unat (of_nat ?N - cm_head ch));
          memset_credits a 0 (cm_max_credits ch) (unat (off - (of_nat ?N - cm_head ch)))
        }
        else memset_credits (cm_avail_credits ch) (unat (cm_head ch)) (cm_max_credits ch) (unat off))
      = Some av"
  proof (cases "?N \<le> h + unat off")
    case True
    have "av = (\<lambda>i. if 0 \<le> i \<and> i < 0 + (unat off - (?N - h)) then ucast (cm_max_credits ch)
        else if h \<le> i \<and> i < ?N then ucast (cm_max_credits ch) else cm_avail_credits ch i)"
      using True h o vl by (auto simp: av_def mx_def fun_eq_iff)
    moreover have "h + (?N - h) = ?N" using h by simp
    ultimately show ?thesis
      using True h o vl by (simp add: cmp d1 d2 memset_credits_def h_def [symmetric])
  next
    case False
    have "av = (\<lambda>i. if h \<le> i \<and> i < h + unat off then ucast (cm_max_credits ch) else cm_avail_credits ch i)"
      using False by (auto simp: av_def mx_def fun_eq_iff)
    then show ?thesis using False by (simp add: cmp memset_credits_def h_def [symmetric])
  qed
  moreover have "cm_valid_len ch - off \<le> of_nat ?N"
    using vl vl' by (simp add: word_le_nat_alt)
  ultimately have "chmodel_move_head ch now = Some ch'"
    unfolding chmodel_move_head_def Let_def o0_def [symmetric] off_def [symmetric]
    by (simp add: ch'_def head'_def)
  moreover have "cm_valid_len ch - off \<le> cm_valid_len ch"
    using vl' by (simp add: word_le_nat_alt)
  ultimately show ?thesis using wf' by (auto simp: ch'_def)
qed

subsection \<open>The request\<close>

text \<open>A request on a well-formed model returns, and the model stays well formed.\<close>

lemma chmodel_request_spec:
  assumes wf: "cm_wf ch"
  shows "\<exists>ch' slots. chmodel_request ch now req len = Some (ch',
      req + (if req < now \<or> NR_CREDIT_ENTRIES
                  \<le> unat (ucast (req div of_nat UNIT_TIME_INTERVAL - now div of_nat UNIT_TIME_INTERVAL) :: u32)
             then 0
             else ucast (cm_xfer_lat ch *
                    ucast ((len + of_nat UNIT_XFER_SIZE - 1) div of_nat UNIT_XFER_SIZE)) +
                  of_nat (slots * UNIT_TIME_INTERVAL))) \<and>
    cm_wf ch' \<and> slots < NR_CREDIT_ENTRIES"
proof -
  let ?N = NR_CREDIT_ENTRIES
  define units where "units = (ucast ((len + of_nat UNIT_XFER_SIZE - 1) div of_nat UNIT_XFER_SIZE) :: u32)"
  define ro where "ro = (ucast (req div of_nat UNIT_TIME_INTERVAL - now div of_nat UNIT_TIME_INTERVAL) :: u32)"
  obtain c where c: "chmodel_move_head ch now = Some c" and wfc: "cm_wf c"
    and same: "cm_max_credits c = cm_max_credits ch" "cm_xfer_lat c = cm_xfer_lat ch"
    using chmodel_move_head_spec [OF wf] by blast
  have le: "of_nat ?N \<le> ro \<longleftrightarrow> ?N \<le> unat ro" by (simp add: word_le_nat_alt)
  note unf = chmodel_request_def Let_def units_def [symmetric] ro_def [symmetric] c
  show ?thesis
  proof (cases "req < now \<or> ?N \<le> unat ro")
    case True
    then have "chmodel_request ch now req len = Some (c, req)"
      unfolding unf by (auto simp: le)
    then show ?thesis using True wfc unfolding ro_def
      by (intro exI [of _ c] exI [of _ 0]) auto
  next
    case False
    define pos where "pos = (cm_head c + ro) mod of_nat ?N"
    define rem where "rem = units * of_nat UNIT_XFER_CREDITS + cm_command_credits c"
    have h: "unat (cm_head c) < ?N" using wfc by (simp add: cm_wf_def)
    have pos: "unat pos = ring (cm_head c) (unat ro)"
      unfolding pos_def ring_def using h False NR_pos(2) by (intro unat_mod_NR) auto
    obtain av p j where loop:
      "consume_credits (cm_head c) (cm_avail_credits c) pos rem 0 = Some (av, p, 0 + of_nat (j - unat ro))"
      "unat ro \<le> j" "j < ?N" "unat p = ring (cm_head c) j" "\<forall>i. av i \<le> cm_avail_credits c i"
      "\<forall>i < ?N. i < unat ro \<or> j < i \<longrightarrow> av (ring (cm_head c) i) = cm_avail_credits c (ring (cm_head c) i)"
      using consume_credits_spec [OF h _ pos, of 0 "cm_avail_credits c" rem] False NR_pos(2)
      by auto
    define dd where "dd = rem div cm_max_credits c"
    define delay where "delay = (if dd < of_nat (j - unat ro) then of_nat (j - unat ro) - dd else 0)"
    define vlen where "vlen = (if cm_head c \<le> p then p - cm_head c + 1
        else of_nat ?N - (cm_head c - p - 1))"
    define c' where "c' = c\<lparr>cm_avail_credits := av,
        cm_valid_len := (if cm_valid_len c < vlen then vlen else cm_valid_len c)\<rparr>"
    have vlen: "unat vlen = Suc j"
    proof (cases "cm_head c \<le> p")
      case True
      then have d: "unat (p - cm_head c) = unat p - unat (cm_head c)" by (rule unat_sub)
      have "unat (p - cm_head c) < ?N" using d loop(4) by (simp add: less_imp_diff_less)
      then have "unat vlen = unat p - unat (cm_head c) + 1"
        using True d NR_pos(2) unfolding vlen_def by (subst if_P, simp, subst unat_add_nowrap) auto
      then show ?thesis using True h loop(3,4) by (auto simp: ring_if word_le_nat_alt split: if_splits)
    next
      case False
      then have lt: "unat p < unat (cm_head c)" by (simp add: word_le_nat_alt)
      then have d: "unat (cm_head c - p) = unat (cm_head c) - unat p"
        by (intro unat_sub) (simp add: word_le_nat_alt)
      have "1 \<le> cm_head c - p" using d lt by (simp add: word_le_nat_alt)
      then have d1: "unat (cm_head c - p - 1) = unat (cm_head c) - unat p - 1"
        using d by (simp add: unat_sub)
      have "cm_head c - p - 1 \<le> of_nat ?N" using d1 h by (simp add: word_le_nat_alt)
      then have "unat vlen = ?N - (unat (cm_head c) - unat p - 1)"
        using False d1 by (simp add: vlen_def unat_sub)
      then show ?thesis using lt h loop(3,4) by (auto simp: ring_if split: if_splits)
    qed
    have full: "av (ring (cm_head c) i) = ucast (cm_max_credits c)"
      if "i < ?N" "unat (cm_valid_len c) \<le> i" "Suc j \<le> i" for i
      using wfc loop(6) that by (auto simp: cm_wf_def)
    have "cm_wf c'"
      using wfc loop(3,5) vlen full unfolding cm_wf_def c'_def
      by (auto simp: word_less_nat_alt intro: order_trans)
    moreover have "unat delay < ?N"
    proof -
      define e where "e = (of_nat (j - unat ro) :: u32)"
      have e: "unat e < ?N"
        unfolding e_def using loop(3) NR_pos(2) by (subst unat_of_nat_small) auto
      show ?thesis
      proof (cases "dd < e")
        case True
        then have "unat (e - dd) = unat e - unat dd" by (intro unat_sub) simp
        then show ?thesis using True e unfolding delay_def e_def [symmetric] by simp
      next
        case False
        then show ?thesis unfolding delay_def e_def [symmetric] by simp
      qed
    qed
    moreover have "chmodel_request ch now req len = Some (c', req + (ucast (cm_xfer_lat ch * units) +
        of_nat (unat delay * UNIT_TIME_INTERVAL)))"
    proof -
      have "udiv rem (cm_max_credits c) = Some dd" using wfc by (simp add: cm_wf_def dd_def)
      moreover have "ucast delay = (of_nat (unat delay) :: u64)" by (simp add: word_unat_eq_iff unat_ucast_up unat_of_nat_small)
      ultimately show ?thesis
        using False loop(1) unfolding unf
        by (simp add: le pos_def [symmetric] rem_def [symmetric] delay_def [symmetric] same
            vlen_def [symmetric] c'_def)
    qed
    ultimately show ?thesis
      using False unfolding ro_def [symmetric] units_def [symmetric]
      by (intro exI [of _ c'] exI [of _ "unat delay"]) auto
  qed
qed

lemma chmodel_init_wf:
  assumes "chmodel_init bw = Some ch"
    and "(ucast (BANDWIDTH_TO_MAX_CREDITS bw) :: u32) \<noteq> 0"
    and "unat (ucast (BANDWIDTH_TO_MAX_CREDITS bw) :: u32) < 256"
  shows "cm_wf ch"
  using assms by (auto simp: chmodel_init_def memset_credits_def cm_wf_def bind_Some_iff Let_def)

end
