(* ===== verification/Ssd.thy ===== *)
theory Ssd
  imports Channel_Model
begin

text \<open>
  The NAND device of \<open>ssd.h\<close> and \<open>ssd.c\<close>: the geometry and its computation from the build
  configuration, physical addresses and their 64-bit packing, the channel / LUN / plane / block /
  page hierarchy with its accessors, the write buffer, and the timing of NAND commands.
  Sizes and latencies are natural numbers, times are 64-bit words. What the partitions of a
  device share (the PCIe model, the write buffer) and the readings of clocks and random numbers
  they draw on are one state \<open>dev\<close> that every operation returns updated.
\<close>

subsection \<open>Configuration\<close>

text \<open>The macros of \<open>ssd_config.h\<close> that \<open>ssd_init_params\<close> reads.\<close>

record ssd_config =
  LBA_SIZE :: nat
  CELL_MODE :: nat
  NAND_CHANNELS :: nat
  LUNS_PER_NAND_CH :: nat
  PLNS_PER_LUN :: nat
  FLASH_PAGE_SIZE :: nat
  ONESHOT_PAGE_SIZE :: nat
  BLKS_PER_PLN :: nat
  BLK_SIZE :: nat
  MAX_CH_XFER_SIZE :: nat
  WRITE_UNIT_SIZE :: nat
  NAND_CHANNEL_BANDWIDTH :: nat
  PCIE_BANDWIDTH :: nat
  NAND_4KB_READ_LATENCY :: "nat list"
  NAND_READ_LATENCY :: "nat list"
  NAND_PROG_LATENCY :: nat
  NAND_ERASE_LATENCY :: nat
  SLC_PORTION :: nat
  SLC_ONESHOT_PAGE_SIZE :: nat
  NAND_4KB_READ_LATENCY_SLC :: nat
  NAND_READ_LATENCY_SLC :: nat
  NAND_PROG_LATENCY_SLC :: nat
  NAND_ERASE_LATENCY_SLC :: nat
  FW_4KB_READ_LATENCY :: nat
  FW_READ_LATENCY :: nat
  FW_WBUF_LATENCY0 :: nat
  FW_WBUF_LATENCY1 :: nat
  FW_CH_XFER_LATENCY :: nat
  GLOBAL_WB_SIZE :: nat
  WRITE_EARLY_COMPLETION :: bool

definition KB :: "nat \<Rightarrow> nat" where [cdefs]: "KB k = k * 1024"

definition SLC_BLKS :: "ssd_config \<Rightarrow> nat" where
  "SLC_BLKS c = BLKS_PER_PLN c * SLC_PORTION c div 100"

text \<open>
  The values of \<open>BASE_SSD == SAMSUNG_970PRO\<close>, latencies in the order LSB, MSB, CSB.
  \<open>SLC_ONESHOT_PAGE_SIZE\<close> is \<open>KB(FLASH_PAGE_SIZE)\<close>, the flash page size scaled twice.
\<close>

definition samsung_970pro :: ssd_config where
  "samsung_970pro = \<lparr>
     LBA_SIZE = 512,
     CELL_MODE = 3,
     NAND_CHANNELS = 4,
     LUNS_PER_NAND_CH = 2,
     PLNS_PER_LUN = 1,
     FLASH_PAGE_SIZE = KB 16,
     ONESHOT_PAGE_SIZE = KB 16 * 3,
     BLKS_PER_PLN = 2048,
     BLK_SIZE = 0,
     MAX_CH_XFER_SIZE = KB 16,
     WRITE_UNIT_SIZE = 512,
     NAND_CHANNEL_BANDWIDTH = 800,
     PCIE_BANDWIDTH = 3360,
     NAND_4KB_READ_LATENCY = [35760 - 6000, 35760 + 6000, 35760],
     NAND_READ_LATENCY = [36013 - 6000, 36013 + 6000, 36013],
     NAND_PROG_LATENCY = 185000,
     NAND_ERASE_LATENCY = 0,
     SLC_PORTION = 10,
     SLC_ONESHOT_PAGE_SIZE = KB (KB 16),
     NAND_4KB_READ_LATENCY_SLC = 16254,
     NAND_READ_LATENCY_SLC = 16369,
     NAND_PROG_LATENCY_SLC = 40547,
     NAND_ERASE_LATENCY_SLC = 0,
     FW_4KB_READ_LATENCY = 21500,
     FW_READ_LATENCY = 30490,
     FW_WBUF_LATENCY0 = 4000,
     FW_WBUF_LATENCY1 = 460,
     FW_CH_XFER_LATENCY = 0,
     GLOBAL_WB_SIZE = 4 * 2 * (KB 16 * 3) * 2,
     WRITE_EARLY_COMPLETION = True\<rparr>"

subsection \<open>Parameters\<close>

record ssdparams =
  secsz :: nat
  secs_per_pg :: nat
  pgsz :: nat
  pgs_per_flashpg :: nat
  flashpgs_per_blk :: nat
  slc_flashpgs_per_blk :: nat
  pgs_per_oneshotpg :: nat
  slc_pgs_per_oneshotpg :: nat
  oneshotpgs_per_blk :: nat
  slc_oneshotpgs_per_blk :: nat
  pgs_per_blk :: nat
  slc_pgs_per_blk :: nat
  blks_per_pl :: nat
  slc_blks_per_pl :: nat
  pls_per_lun :: nat
  luns_per_ch :: nat
  nchs :: nat
  cell_mode :: nat
  write_unit_size :: nat
  write_early_completion :: bool
  pg_4kb_rd_lat :: "nat list"
  pg_rd_lat :: "nat list"
  pg_wr_lat :: nat
  blk_er_lat :: nat
  max_ch_xfer_size :: nat
  slc_pg_4kb_rd_lat :: nat
  slc_pg_rd_lat :: nat
  slc_pg_wr_lat :: nat
  slc_blk_er_lat :: nat
  fw_4kb_rd_lat :: nat
  fw_rd_lat :: nat
  fw_wbuf_lat0 :: nat
  fw_wbuf_lat1 :: nat
  fw_ch_xfer_lat :: nat
  ch_bandwidth :: nat
  pcie_bandwidth :: nat
  secs_per_blk :: nat
  slc_secs_per_blk :: nat
  secs_per_pl :: nat
  slc_secs_per_pl :: nat
  secs_per_lun :: nat
  slc_secs_per_lun :: nat
  secs_per_ch :: nat
  slc_secs_per_ch :: nat
  tt_secs :: nat
  slc_tt_secs :: nat
  tlc_tt_secs :: nat
  pgs_per_pl :: nat
  slc_pgs_per_pl :: nat
  pgs_per_lun :: nat
  slc_pgs_per_lun :: nat
  pgs_per_ch :: nat
  slc_pgs_per_ch :: nat
  tt_pgs :: nat
  slc_tt_pgs :: nat
  tlc_tt_pgs :: nat
  blks_per_lun :: nat
  blks_per_ch :: nat
  tt_blks :: nat
  secs_per_line :: nat
  slc_secs_per_line :: nat
  pgs_per_line :: nat
  slc_pgs_per_line :: nat
  blks_per_line :: nat
  tt_lines :: nat
  slc_tt_lines :: nat
  tlc_tt_lines :: nat
  pls_per_ch :: nat
  tt_pls :: nat
  tt_luns :: nat
  write_buffer_size :: nat

text \<open>
  \<open>ssd_init_params\<close> fills the caller's uninitialised structure \<open>spp\<close>. A value that does not
  fit the \<open>int\<close> it is stored in is a fault of the model. As in the code, \<open>slc_secs_per_ch\<close> is
  never written and \<open>secs_per_ch\<close> is written twice, the second time with the SLC value.
\<close>

definition c_int :: "nat \<Rightarrow> nat option" where
  "c_int n = (if n < 2 ^ 31 then Some n else None)"

definition init_geometry ::
  "ssd_config \<Rightarrow> ssdparams \<Rightarrow> nat \<Rightarrow> nat \<Rightarrow> (ssdparams \<times> nat) option" where
  "init_geometry c spp capacity nparts = do {
     let spp = spp\<lparr>secsz := LBA_SIZE c, secs_per_pg := 4096 div LBA_SIZE c\<rparr>;
     let spp = spp\<lparr>pgsz := secsz spp * secs_per_pg spp,
                   nchs := NAND_CHANNELS c, pls_per_lun := PLNS_PER_LUN c,
                   luns_per_ch := LUNS_PER_NAND_CH c, cell_mode := CELL_MODE c\<rparr>;
     NVMEV_ASSERT (nparts \<noteq> 0);
     NVMEV_ASSERT (nchs spp mod nparts = 0);
     let spp = spp\<lparr>nchs := nchs spp div nparts\<rparr>;
     let capacity = capacity div nparts;
     if 0 < BLKS_PER_PLN c
     then let spp = spp\<lparr>blks_per_pl := BLKS_PER_PLN c, slc_blks_per_pl := SLC_BLKS c\<rparr>;
              n = blks_per_pl spp * pls_per_lun spp * luns_per_ch spp * nchs spp
          in (if n = 0 then None else Some (spp, div_round_up capacity n))
     else do {
       NVMEV_ASSERT (0 < BLK_SIZE c);
       let blk_size = BLK_SIZE c;
       let n = blk_size * pls_per_lun spp * luns_per_ch spp * nchs spp;
       b \<leftarrow> (if n = 0 then None else c_int (div_round_up capacity n));
       Some (spp\<lparr>blks_per_pl := b\<rparr>, blk_size)
     }
   }"

definition init_blocks :: "ssd_config \<Rightarrow> ssdparams \<Rightarrow> nat \<Rightarrow> ssdparams option" where
  "init_blocks c spp blk_size = do {
     NVMEV_ASSERT (pgsz spp \<noteq> 0 \<and> FLASH_PAGE_SIZE c \<noteq> 0 \<and> ONESHOT_PAGE_SIZE c \<noteq> 0
                   \<and> SLC_ONESHOT_PAGE_SIZE c \<noteq> 0);
     NVMEV_ASSERT (ONESHOT_PAGE_SIZE c mod pgsz spp = 0 \<and> FLASH_PAGE_SIZE c mod pgsz spp = 0);
     NVMEV_ASSERT (ONESHOT_PAGE_SIZE c mod FLASH_PAGE_SIZE c = 0);
     n \<leftarrow> c_int (div_round_up blk_size (ONESHOT_PAGE_SIZE c));
     slc_n \<leftarrow> c_int (div_round_up blk_size (SLC_ONESHOT_PAGE_SIZE c));
     let spp = spp\<lparr>pgs_per_oneshotpg := ONESHOT_PAGE_SIZE c div pgsz spp,
                   slc_pgs_per_oneshotpg := SLC_ONESHOT_PAGE_SIZE c div pgsz spp,
                   oneshotpgs_per_blk := n,
                   slc_oneshotpgs_per_blk := slc_n,
                   pgs_per_flashpg := FLASH_PAGE_SIZE c div pgsz spp\<rparr>;
     f \<leftarrow> c_int (ONESHOT_PAGE_SIZE c div FLASH_PAGE_SIZE c * n);
     slc_f \<leftarrow> c_int (SLC_ONESHOT_PAGE_SIZE c div FLASH_PAGE_SIZE c * slc_n);
     p \<leftarrow> c_int (pgs_per_oneshotpg spp * n);
     slc_p \<leftarrow> c_int (slc_pgs_per_oneshotpg spp * slc_n);
     c_int (secs_per_pg spp * p);
     c_int (secs_per_pg spp * slc_p);
     c_int (p * blks_per_pl spp);
     c_int (slc_p * blks_per_pl spp);
     Some (spp\<lparr>flashpgs_per_blk := f, slc_flashpgs_per_blk := slc_f,
               pgs_per_blk := p, slc_pgs_per_blk := slc_p\<rparr>)
   }"

definition init_latencies :: "ssd_config \<Rightarrow> ssdparams \<Rightarrow> ssdparams" where
  "init_latencies c spp = spp\<lparr>
     write_unit_size := WRITE_UNIT_SIZE c,
     pg_4kb_rd_lat := NAND_4KB_READ_LATENCY c,
     pg_rd_lat := NAND_READ_LATENCY c,
     pg_wr_lat := NAND_PROG_LATENCY c,
     blk_er_lat := NAND_ERASE_LATENCY c,
     max_ch_xfer_size := MAX_CH_XFER_SIZE c,
     slc_pg_4kb_rd_lat := NAND_4KB_READ_LATENCY_SLC c,
     slc_pg_rd_lat := NAND_READ_LATENCY_SLC c,
     slc_pg_wr_lat := NAND_PROG_LATENCY_SLC c,
     slc_blk_er_lat := NAND_ERASE_LATENCY_SLC c,
     fw_4kb_rd_lat := FW_4KB_READ_LATENCY c,
     fw_rd_lat := FW_READ_LATENCY c,
     fw_ch_xfer_lat := FW_CH_XFER_LATENCY c,
     fw_wbuf_lat0 := FW_WBUF_LATENCY0 c,
     fw_wbuf_lat1 := FW_WBUF_LATENCY1 c,
     ch_bandwidth := NAND_CHANNEL_BANDWIDTH c,
     pcie_bandwidth := PCIE_BANDWIDTH c,
     write_buffer_size := GLOBAL_WB_SIZE c,
     write_early_completion := WRITE_EARLY_COMPLETION c\<rparr>"

definition init_totals :: "ssd_config \<Rightarrow> ssdparams \<Rightarrow> ssdparams" where
  "init_totals c spp = (
     let spp = spp\<lparr>secs_per_blk := secs_per_pg spp * pgs_per_blk spp,
                   slc_secs_per_blk := secs_per_pg spp * slc_pgs_per_blk spp\<rparr>;
         spp = spp\<lparr>secs_per_pl := secs_per_blk spp * blks_per_pl spp,
                   slc_secs_per_pl := slc_secs_per_blk spp * blks_per_pl spp\<rparr>;
         spp = spp\<lparr>secs_per_lun := secs_per_pl spp * pls_per_lun spp,
                   slc_secs_per_lun := slc_secs_per_pl spp * pls_per_lun spp\<rparr>;
         spp = spp\<lparr>secs_per_ch := secs_per_lun spp * luns_per_ch spp\<rparr>;
         spp = spp\<lparr>secs_per_ch := slc_secs_per_lun spp * luns_per_ch spp\<rparr>;
         spp = spp\<lparr>tt_secs := secs_per_ch spp * nchs spp\<rparr>;
         spp = spp\<lparr>slc_tt_secs := tt_secs spp * SLC_PORTION c div 100\<rparr>;
         spp = spp\<lparr>tlc_tt_secs := tt_secs spp - slc_tt_secs spp\<rparr>;
         spp = spp\<lparr>pgs_per_pl := pgs_per_blk spp * blks_per_pl spp,
                   slc_pgs_per_pl := slc_pgs_per_blk spp * blks_per_pl spp\<rparr>;
         spp = spp\<lparr>pgs_per_lun := pgs_per_pl spp * pls_per_lun spp,
                   slc_pgs_per_lun := slc_pgs_per_pl spp * pls_per_lun spp\<rparr>;
         spp = spp\<lparr>pgs_per_ch := pgs_per_lun spp * luns_per_ch spp,
                   slc_pgs_per_ch := slc_pgs_per_lun spp * luns_per_ch spp\<rparr>;
         spp = spp\<lparr>tt_pgs := pgs_per_ch spp * nchs spp\<rparr>;
         spp = spp\<lparr>slc_tt_pgs := tt_pgs spp * SLC_PORTION c div 100\<rparr>;
         spp = spp\<lparr>tlc_tt_pgs := tt_pgs spp - slc_tt_pgs spp\<rparr>;
         spp = spp\<lparr>blks_per_lun := blks_per_pl spp * pls_per_lun spp\<rparr>;
         spp = spp\<lparr>blks_per_ch := blks_per_lun spp * luns_per_ch spp\<rparr>;
         spp = spp\<lparr>tt_blks := blks_per_ch spp * nchs spp\<rparr>;
         spp = spp\<lparr>pls_per_ch := pls_per_lun spp * luns_per_ch spp\<rparr>;
         spp = spp\<lparr>tt_pls := pls_per_ch spp * nchs spp,
                   tt_luns := luns_per_ch spp * nchs spp\<rparr>;
         spp = spp\<lparr>blks_per_line := tt_luns spp\<rparr>;
         spp = spp\<lparr>pgs_per_line := blks_per_line spp * pgs_per_blk spp,
                   slc_pgs_per_line := blks_per_line spp * slc_pgs_per_blk spp\<rparr>;
         spp = spp\<lparr>secs_per_line := pgs_per_line spp * secs_per_pg spp,
                   slc_secs_per_line := slc_pgs_per_line spp * secs_per_pg spp,
                   tt_lines := blks_per_lun spp\<rparr>;
         spp = spp\<lparr>slc_tt_lines := tt_lines spp * SLC_PORTION c div 100\<rparr>
     in spp\<lparr>tlc_tt_lines := tt_lines spp - slc_tt_lines spp\<rparr>)"

definition ssd_init_params ::
  "ssd_config \<Rightarrow> ssdparams \<Rightarrow> nat \<Rightarrow> nat \<Rightarrow> ssdparams option" where
  "ssd_init_params c spp capacity nparts = do {
     (spp, blk_size) \<leftarrow> init_geometry c spp capacity nparts;
     spp \<leftarrow> init_blocks c spp blk_size;
     Some (init_totals c (init_latencies c spp))
   }"

end
