(* ===== verification/Nand.thy ===== *)
theory Nand
  imports Ssd
begin

text \<open>
  Physical addresses, the NAND hierarchy, the write buffer and the timing of commands
  (\<open>ssd.h\<close>, \<open>ssd.c\<close>). The arrays of channels, LUNs, planes, blocks and pages are lists; an
  accessor faults when an index leaves its array.
\<close>

subsection \<open>Physical page addresses\<close>

record ppa =
  g_pg :: u16
  g_blk :: u16
  g_pl :: u8
  g_lun :: u8
  g_ch :: u8
  g_rsv :: u8

text \<open>The 64-bit view of the union, and its \<open>blk_in_ssd\<close> view of 40 bits.\<close>

definition ppa_word :: "ppa \<Rightarrow> u64" where
  "ppa_word p = ucast (g_pg p) OR push_bit 16 (ucast (g_blk p)) OR push_bit 32 (ucast (g_pl p))
     OR push_bit 40 (ucast (g_lun p)) OR push_bit 48 (ucast (g_ch p)) OR push_bit 56 (ucast (g_rsv p))"

definition ppa_of_word :: "u64 \<Rightarrow> ppa" where
  "ppa_of_word w = \<lparr>g_pg = ucast w, g_blk = ucast (drop_bit 16 w), g_pl = ucast (drop_bit 32 w),
     g_lun = ucast (drop_bit 40 w), g_ch = ucast (drop_bit 48 w), g_rsv = ucast (drop_bit 56 w)\<rparr>"

definition blk_in_ssd :: "ppa \<Rightarrow> 40 word" where
  "blk_in_ssd p = ucast (drop_bit 16 (ppa_word p))"

definition INVALID_LPN :: u64 where "INVALID_LPN = ULL_MAX"

definition UNMAPPED_PPA :: u64 where "UNMAPPED_PPA = ULL_MAX"

subsection \<open>The hierarchy\<close>

datatype pg_status = PG_FREE | PG_INVALID | PG_VALID

datatype sec_status = SEC_FREE | SEC_INVALID | SEC_VALID

record nand_page =
  pg_sec :: "sec_status list"
  pg_nsecs :: nat
  pg_status :: pg_status

record nand_block =
  blk_pg :: "nand_page list"
  blk_npgs :: nat
  blk_ipc :: int
  blk_vpc :: int
  blk_erase_cnt :: int
  blk_wp :: nat

record nand_plane =
  pl_blk :: "nand_block list"
  pl_nblks :: nat

record nand_lun =
  lun_pl :: "nand_plane list"
  lun_npls :: nat
  next_lun_avail_time :: u64
  lun_busy :: bool
  lun_gc_endtime :: u64

record ssd_channel =
  ch_lun :: "nand_lun list"
  ch_nluns :: nat
  ch_perf_model :: channel_model

record ssd =
  sp :: ssdparams
  ssd_ch :: "ssd_channel list"

record buffer =
  buf_size :: u64
  buf_remaining :: u64

text \<open>Which buffer an operation means: the device's, or one of a zone.\<close>

datatype buf_ref = DEV_BUFFER | ZONE_BUFFER nat | ZRWA_BUFFER nat

text \<open>
  What operations share and draw on: the PCIe model and the write buffer of partition 0, the
  clock readings and random numbers still to come, and the internal operations handed to the IO
  workers (submission queue, completion time, buffer, space to release), newest last.
\<close>

record dev =
  pcie :: channel_model
  write_buffer :: buffer
  clock :: "nat \<Rightarrow> u64"
  ticks :: nat
  random :: "nat \<Rightarrow> u32"
  draws :: nat
  internal_ops :: "(u32 \<times> u64 \<times> buf_ref \<times> u64) list"

definition read_clock :: "dev \<Rightarrow> u64 \<times> dev" where
  "read_clock dv = (clock dv (ticks dv), dv\<lparr>ticks := ticks dv + 1\<rparr>)"

definition get_random_u32 :: "dev \<Rightarrow> u32 \<times> dev" where
  "get_random_u32 dv = (random dv (draws dv), dv\<lparr>draws := draws dv + 1\<rparr>)"

subsection \<open>Accessors\<close>

definition get_ch :: "ssd \<Rightarrow> ppa \<Rightarrow> ssd_channel option" where
  "get_ch ssd p = rd (ssd_ch ssd) (unat (g_ch p))"

definition get_lun :: "ssd \<Rightarrow> ppa \<Rightarrow> nand_lun option" where
  "get_lun ssd p = do { ch \<leftarrow> get_ch ssd p; rd (ch_lun ch) (unat (g_lun p)) }"

definition get_pl :: "ssd \<Rightarrow> ppa \<Rightarrow> nand_plane option" where
  "get_pl ssd p = do { lun \<leftarrow> get_lun ssd p; rd (lun_pl lun) (unat (g_pl p)) }"

definition get_blk :: "ssd \<Rightarrow> ppa \<Rightarrow> nand_block option" where
  "get_blk ssd p = do { pl \<leftarrow> get_pl ssd p; rd (pl_blk pl) (unat (g_blk p)) }"

definition get_pg :: "ssd \<Rightarrow> ppa \<Rightarrow> nand_page option" where
  "get_pg ssd p = do { blk \<leftarrow> get_blk ssd p; rd (blk_pg blk) (unat (g_pg p)) }"

definition get_cell :: "ssd \<Rightarrow> ppa \<Rightarrow> nat option" where
  "get_cell ssd p =
     (if pgs_per_flashpg (sp ssd) = 0 \<or> cell_mode (sp ssd) = 0 then None
      else Some (unat (g_pg p) div pgs_per_flashpg (sp ssd) mod cell_mode (sp ssd)))"

text \<open>Writes through the pointers that the accessors return.\<close>

definition upd_ch :: "ssd \<Rightarrow> ppa \<Rightarrow> (ssd_channel \<Rightarrow> ssd_channel option) \<Rightarrow> ssd option" where
  "upd_ch ssd p f =
     map_option (\<lambda>cs. ssd\<lparr>ssd_ch := cs\<rparr>) (modify (ssd_ch ssd) (unat (g_ch p)) f)"

definition upd_lun :: "ssd \<Rightarrow> ppa \<Rightarrow> (nand_lun \<Rightarrow> nand_lun option) \<Rightarrow> ssd option" where
  "upd_lun ssd p f = upd_ch ssd p (\<lambda>c.
     map_option (\<lambda>ls. c\<lparr>ch_lun := ls\<rparr>) (modify (ch_lun c) (unat (g_lun p)) f))"

definition upd_pl :: "ssd \<Rightarrow> ppa \<Rightarrow> (nand_plane \<Rightarrow> nand_plane option) \<Rightarrow> ssd option" where
  "upd_pl ssd p f = upd_lun ssd p (\<lambda>l.
     map_option (\<lambda>ps. l\<lparr>lun_pl := ps\<rparr>) (modify (lun_pl l) (unat (g_pl p)) f))"

definition upd_blk :: "ssd \<Rightarrow> ppa \<Rightarrow> (nand_block \<Rightarrow> nand_block option) \<Rightarrow> ssd option" where
  "upd_blk ssd p f = upd_pl ssd p (\<lambda>pl.
     map_option (\<lambda>bs. pl\<lparr>pl_blk := bs\<rparr>) (modify (pl_blk pl) (unat (g_blk p)) f))"

definition upd_pg :: "ssd \<Rightarrow> ppa \<Rightarrow> (nand_page \<Rightarrow> nand_page option) \<Rightarrow> ssd option" where
  "upd_pg ssd p f = upd_blk ssd p (\<lambda>b.
     map_option (\<lambda>ps. b\<lparr>blk_pg := ps\<rparr>) (modify (blk_pg b) (unat (g_pg p)) f))"

subsection \<open>Initialisation\<close>

definition ssd_init_nand_page :: "ssdparams \<Rightarrow> nand_page" where
  "ssd_init_nand_page spp =
     \<lparr>pg_sec = replicate (secs_per_pg spp) SEC_FREE, pg_nsecs = secs_per_pg spp, pg_status = PG_FREE\<rparr>"

definition ssd_init_nand_blk :: "ssdparams \<Rightarrow> nand_block" where
  "ssd_init_nand_blk spp =
     \<lparr>blk_pg = replicate (pgs_per_blk spp) (ssd_init_nand_page spp), blk_npgs = pgs_per_blk spp,
      blk_ipc = 0, blk_vpc = 0, blk_erase_cnt = 0, blk_wp = 0\<rparr>"

definition ssd_init_nand_plane :: "ssdparams \<Rightarrow> nand_plane" where
  "ssd_init_nand_plane spp =
     \<lparr>pl_blk = replicate (blks_per_pl spp) (ssd_init_nand_blk spp), pl_nblks = blks_per_pl spp\<rparr>"

text \<open>\<open>junk\<close> is what the allocated memory holds in a field that is not initialised.\<close>

definition ssd_init_nand_lun :: "ssdparams \<Rightarrow> u64 \<Rightarrow> nand_lun" where
  "ssd_init_nand_lun spp junk =
     \<lparr>lun_pl = replicate (pls_per_lun spp) (ssd_init_nand_plane spp), lun_npls = pls_per_lun spp,
      next_lun_avail_time = 0, lun_busy = False, lun_gc_endtime = junk\<rparr>"

definition ssd_init_ch :: "ssdparams \<Rightarrow> (nat \<Rightarrow> u64) \<Rightarrow> ssd_channel option" where
  "ssd_init_ch spp junk = do {
     m \<leftarrow> chmodel_init (of_nat (ch_bandwidth spp));
     let overhead =
       (of_nat (fw_ch_xfer_lat spp) * of_nat UNIT_XFER_SIZE div of_nat (KB 4) :: u64);
     let m = m\<lparr>cm_xfer_lat := cm_xfer_lat m + ucast overhead\<rparr>;
     Some \<lparr>ch_lun = map (\<lambda>i. ssd_init_nand_lun spp (junk i)) [0..<luns_per_ch spp],
           ch_nluns = luns_per_ch spp, ch_perf_model = m\<rparr>
   }"

definition ssd_init_pcie :: "ssdparams \<Rightarrow> channel_model option" where
  "ssd_init_pcie spp = chmodel_init (of_nat (pcie_bandwidth spp))"

definition buffer_init :: "u64 \<Rightarrow> buffer" where
  "buffer_init sz = \<lparr>buf_size = sz, buf_remaining = sz\<rparr>"

fun init_chs :: "ssdparams \<Rightarrow> (nat \<Rightarrow> nat \<Rightarrow> u64) \<Rightarrow> nat \<Rightarrow> ssd_channel list option" where
  "init_chs spp junk 0 = Some []"
| "init_chs spp junk (Suc n) = do {
     cs \<leftarrow> init_chs spp junk n;
     c \<leftarrow> ssd_init_ch spp (junk n);
     Some (cs @ [c])
   }"

text \<open>The device with its own PCIe model and write buffer.\<close>

definition ssd_init ::
  "ssdparams \<Rightarrow> (nat \<Rightarrow> nat \<Rightarrow> u64) \<Rightarrow> (ssd \<times> channel_model \<times> buffer) option" where
  "ssd_init spp junk = do {
     chs \<leftarrow> init_chs spp junk (nchs spp);
     pcie \<leftarrow> ssd_init_pcie spp;
     Some (\<lparr>sp = spp, ssd_ch = chs\<rparr>, pcie, buffer_init (of_nat (write_buffer_size spp)))
   }"

subsection \<open>The write buffer\<close>

text \<open>The operations run under the buffer's lock, one at a time.\<close>

definition buffer_allocate :: "buffer \<Rightarrow> u64 \<Rightarrow> (buffer \<times> u32) option" where
  "buffer_allocate buf sz = do {
     NVMEV_ASSERT (sz \<le> buf_size buf);
     let sz = (if buf_remaining buf < sz then 0 else sz);
     Some (buf\<lparr>buf_remaining := buf_remaining buf - sz\<rparr>, ucast sz)
   }"

definition buffer_release :: "buffer \<Rightarrow> u64 \<Rightarrow> buffer \<times> bool" where
  "buffer_release buf sz = (buf\<lparr>buf_remaining := buf_remaining buf + sz\<rparr>, True)"

definition buffer_refill :: "buffer \<Rightarrow> buffer" where
  "buffer_refill buf = buf\<lparr>buf_remaining := buf_size buf\<rparr>"

subsection \<open>Timing\<close>

text \<open>A request to a channel model reads the wall clock first.\<close>

definition ssd_advance_pcie :: "dev \<Rightarrow> u64 \<Rightarrow> u64 \<Rightarrow> (dev \<times> u64) option" where
  "ssd_advance_pcie dv request_time len = do {
     let (now, dv) = read_clock dv;
     (m, t) \<leftarrow> chmodel_request (pcie dv) now request_time len;
     Some (dv\<lparr>pcie := m\<rparr>, t)
   }"

definition ssd_advance_write_buffer ::
  "ssd \<Rightarrow> dev \<Rightarrow> u64 \<Rightarrow> u64 \<Rightarrow> (dev \<times> u64) option" where
  "ssd_advance_write_buffer ssd dv request_time len = do {
     let spp = sp ssd;
     let nsecs_latest = request_time + of_nat (fw_wbuf_lat0 spp);
     let nsecs_latest = nsecs_latest
       + of_nat (fw_wbuf_lat1 spp) * ((len + of_nat (KB 4) - 1) div of_nat (KB 4));
     ssd_advance_pcie dv nsecs_latest len
   }"

abbreviation (input) NAND_READ :: nat where "NAND_READ \<equiv> 0"
abbreviation (input) NAND_WRITE :: nat where "NAND_WRITE \<equiv> 1"
abbreviation (input) NAND_ERASE :: nat where "NAND_ERASE \<equiv> 2"
abbreviation (input) NAND_NOP :: nat where "NAND_NOP \<equiv> 3"

record nand_cmd =
  nc_cmd :: nat
  nc_xfer_size :: u64
  nc_stime :: u64
  nc_interleave_pci_dma :: bool
  nc_ppa :: ppa

definition chan_request ::
  "channel_model \<Rightarrow> dev \<Rightarrow> u64 \<Rightarrow> u64 \<Rightarrow> (channel_model \<times> dev \<times> u64) option" where
  "chan_request m dv request_time len = do {
     let (now, dv) = read_clock dv;
     (m, t) \<leftarrow> chmodel_request m now request_time len;
     Some (m, dv, t)
   }"

text \<open>
  The chunks of a read, from \<open>remaining > 0\<close> bytes; the results are the channel's and the
  command's completion times.
\<close>

partial_function (option) read_chunks ::
  "nat \<Rightarrow> bool \<Rightarrow> channel_model \<Rightarrow> dev \<Rightarrow> u64 \<Rightarrow> u64 \<Rightarrow> (channel_model \<times> dev \<times> u64 \<times> u64) option" where
  "read_chunks max_xfer interleave m dv chnl_stime remaining = do {
     let xfer_size = min remaining (of_nat max_xfer);
     (m, dv, chnl_etime) \<leftarrow> chan_request m dv chnl_stime xfer_size;
     (dv, completed_time) \<leftarrow>
       (if interleave then ssd_advance_pcie dv chnl_etime xfer_size else Some (dv, chnl_etime));
     let remaining = remaining - xfer_size;
     if remaining \<noteq> 0 then read_chunks max_xfer interleave m dv chnl_etime remaining
     else Some (m, dv, chnl_etime, completed_time)
   }"

text \<open>
  A read of no bytes uses times that were never assigned: a fault. An address equal to
  \<open>UNMAPPED_PPA\<close> and an unknown command touch nothing.
\<close>

definition ssd_advance_nand :: "ssd \<Rightarrow> dev \<Rightarrow> nand_cmd \<Rightarrow> (ssd \<times> dev \<times> u64) option" where
  "ssd_advance_nand ssd dv ncmd = do {
     let c = nc_cmd ncmd;
     let (cmd_stime, dv) = (if nc_stime ncmd = 0 then read_clock dv else (nc_stime ncmd, dv));
     let p = nc_ppa ncmd;
     if ppa_word p = UNMAPPED_PPA then Some (ssd, dv, cmd_stime)
     else do {
       let spp = sp ssd;
       lun \<leftarrow> get_lun ssd p;
       ch \<leftarrow> get_ch ssd p;
       cell \<leftarrow> get_cell ssd p;
       let start = max (next_lun_avail_time lun) cmd_stime;
       if c = NAND_READ then do {
         lat \<leftarrow> rd (if nc_xfer_size ncmd = 4096 then pg_4kb_rd_lat spp else pg_rd_lat spp) cell;
         let nand_etime = start + of_nat lat;
         NVMEV_ASSERT (nc_xfer_size ncmd \<noteq> 0);
         (m, dv, chnl_etime, completed_time) \<leftarrow>
           read_chunks (max_ch_xfer_size spp) (nc_interleave_pci_dma ncmd) (ch_perf_model ch) dv
             nand_etime (nc_xfer_size ncmd);
         ssd \<leftarrow> upd_ch ssd p (\<lambda>c. Some (c\<lparr>ch_perf_model := m\<rparr>));
         ssd \<leftarrow> upd_lun ssd p (\<lambda>l. Some (l\<lparr>next_lun_avail_time := chnl_etime\<rparr>));
         Some (ssd, dv, completed_time)
       }
       else if c = NAND_WRITE then do {
         (m, dv, chnl_etime) \<leftarrow> chan_request (ch_perf_model ch) dv start (nc_xfer_size ncmd);
         let nand_etime = chnl_etime + of_nat (pg_wr_lat spp);
         ssd \<leftarrow> upd_ch ssd p (\<lambda>c. Some (c\<lparr>ch_perf_model := m\<rparr>));
         ssd \<leftarrow> upd_lun ssd p (\<lambda>l. Some (l\<lparr>next_lun_avail_time := nand_etime\<rparr>));
         Some (ssd, dv, nand_etime)
       }
       else if c = NAND_ERASE then do {
         let nand_etime = start + of_nat (blk_er_lat spp);
         ssd \<leftarrow> upd_lun ssd p (\<lambda>l. Some (l\<lparr>next_lun_avail_time := nand_etime\<rparr>));
         Some (ssd, dv, nand_etime)
       }
       else if c = NAND_NOP then do {
         ssd \<leftarrow> upd_lun ssd p (\<lambda>l. Some (l\<lparr>next_lun_avail_time := start\<rparr>));
         Some (ssd, dv, start)
       }
       else Some (ssd, dv, 0)
     }
   }"

text \<open>The loops of \<open>ssd_next_idle_time\<close> run over the geometry's counts.\<close>

definition ssd_next_idle_time :: "ssd \<Rightarrow> dev \<Rightarrow> (dev \<times> u64) option" where
  "ssd_next_idle_time ssd dv = do {
     let spp = sp ssd;
     let (latest, dv) = read_clock dv;
     latest \<leftarrow> fold_opt (\<lambda>i latest. do {
         ch \<leftarrow> rd (ssd_ch ssd) i;
         fold_opt (\<lambda>j latest. do {
             lun \<leftarrow> rd (ch_lun ch) j;
             Some (max latest (next_lun_avail_time lun))
           }) [0..<luns_per_ch spp] latest
       }) [0..<nchs spp] latest;
     Some (dv, latest)
   }"

text \<open>\<open>schedule_internal_operation\<close> hands a buffer release to an IO worker.\<close>

definition schedule_internal_operation :: "u32 \<Rightarrow> u64 \<Rightarrow> buf_ref \<Rightarrow> u64 \<Rightarrow> dev \<Rightarrow> dev" where
  "schedule_internal_operation sqid nsecs_target buf sz dv =
     dv\<lparr>internal_ops := internal_ops dv @ [(sqid, nsecs_target, buf, sz)]\<rparr>"

end
