(* ===== verification/Zns.thy ===== *)
theory Zns
  imports Nand
begin

text \<open>
  Zoned namespaces: the zone descriptors and zone resources of \<open>zns_ftl.h\<close> and \<open>nvme_zns.h\<close>,
  the initialisation of \<open>zns_ftl.c\<close> and the zone state machine of \<open>zns_mgmt_send.c\<close>.
  An access to a descriptor past the table is a fault. The \<open>ASSERT\<close> of
  \<open>release_zone_resource\<close> compiles to nothing, so a release at zero wraps around.
\<close>

subsection \<open>Data\<close>

datatype zone_state = ZONE_STATE_EMPTY | ZONE_STATE_OPENED_IMPL | ZONE_STATE_OPENED_EXPL
  | ZONE_STATE_CLOSED | ZONE_STATE_READ_ONLY | ZONE_STATE_FULL | ZONE_STATE_OFFLINE

datatype zone_resource_type = ACTIVE_ZONE | OPEN_ZONE | ZRWA_ZONE

record zone_descriptor =
  zd_state :: zone_state
  zd_type :: nat
  zd_zrwav :: bool
  zd_zone_capacity :: u64
  zd_zslba :: u64
  zd_wp :: u64

record znsparams =
  nr_zones :: u32
  nr_active_zones :: u32
  nr_open_zones :: u32
  dies_per_zone :: u32
  zone_size :: u32
  zone_wb_size :: u32
  nr_zrwa_zones :: u32
  zrwafg_size :: u32
  zrwa_size :: u32
  zrwa_buffer_size :: u32
  lbas_per_zrwafg :: u32
  lbas_per_zrwa :: u32

record zone_resource_info =
  acquired_cnt :: u32
  total_cnt :: u32

text \<open>The byte contents of the mapped storage are \<open>zf_storage\<close>, by offset.\<close>

record zns_ftl =
  zf_ssd :: ssd
  zp :: znsparams
  res_infos :: "zone_resource_type \<Rightarrow> zone_resource_info"
  zone_descs :: "zone_descriptor list"
  zone_write_buffer :: "buffer list"
  zrwa_buffer :: "buffer list"
  zf_storage :: "nat \<Rightarrow> u8"

text \<open>The macros of \<open>ssd_config.h\<close> for a zoned device.\<close>

record zns_config =
  ZONE_SIZE :: nat
  DIES_PER_ZONE :: nat
  MAX_ZRWA_ZONES :: nat
  ZONE_WB_SIZE :: nat
  ZRWA_SIZE :: nat
  ZRWAFG_SIZE :: nat
  ZRWA_BUFFER_SIZE :: nat

definition zns_prototype :: zns_config where
  "zns_prototype = \<lparr>ZONE_SIZE = 32 * 2 ^ 20, DIES_PER_ZONE = 1, MAX_ZRWA_ZONES = 0,
     ZONE_WB_SIZE = 0, ZRWA_SIZE = 0, ZRWAFG_SIZE = 0, ZRWA_BUFFER_SIZE = 0\<rparr>"

definition wd_zn540 :: zns_config where
  "wd_zn540 = \<lparr>ZONE_SIZE = 2 * 2 ^ 30, DIES_PER_ZONE = 8 * 4, MAX_ZRWA_ZONES = 0,
     ZONE_WB_SIZE = 10 * (KB 32 * 3), ZRWA_SIZE = 0, ZRWAFG_SIZE = 0, ZRWA_BUFFER_SIZE = 0\<rparr>"

text \<open>Status codes of the zoned command set.\<close>

definition SC_SUCCESS :: u32 where [cdefs]: "SC_SUCCESS = 0"
definition SC_INVALID_FIELD :: u32 where [cdefs]: "SC_INVALID_FIELD = 2"
definition SC_ZNS_INVALID_ZONE_OPERATION :: u32 where [cdefs]: "SC_ZNS_INVALID_ZONE_OPERATION = 0x1B6"
definition SC_ZNS_ZRWA_RSRC_UNAVAIL :: u32 where [cdefs]: "SC_ZNS_ZRWA_RSRC_UNAVAIL = 0x1B7"
definition SC_ZNS_ERR_BOUNDARY :: u32 where [cdefs]: "SC_ZNS_ERR_BOUNDARY = 0x1B8"
definition SC_ZNS_ERR_FULL :: u32 where [cdefs]: "SC_ZNS_ERR_FULL = 0x1B9"
definition SC_ZNS_ERR_READ_ONLY :: u32 where [cdefs]: "SC_ZNS_ERR_READ_ONLY = 0x1BA"
definition SC_ZNS_ERR_OFFLINE :: u32 where [cdefs]: "SC_ZNS_ERR_OFFLINE = 0x1BB"
definition SC_ZNS_INVALID_WRITE :: u32 where [cdefs]: "SC_ZNS_INVALID_WRITE = 0x1BC"
definition SC_ZNS_NO_ACTIVE_ZONE :: u32 where [cdefs]: "SC_ZNS_NO_ACTIVE_ZONE = 0x1BD"
definition SC_ZNS_NO_OPEN_ZONE :: u32 where [cdefs]: "SC_ZNS_NO_OPEN_ZONE = 0x1BE"
definition SC_ZNS_INVALID_TRANSITION :: u32 where [cdefs]: "SC_ZNS_INVALID_TRANSITION = 0x1BF"

subsection \<open>Zone resources\<close>

definition is_zone_resource_avail :: "zns_ftl \<Rightarrow> zone_resource_type \<Rightarrow> bool" where
  "is_zone_resource_avail z t \<longleftrightarrow> acquired_cnt (res_infos z t) < total_cnt (res_infos z t)"

definition is_zone_resource_full :: "zns_ftl \<Rightarrow> zone_resource_type \<Rightarrow> bool" where
  "is_zone_resource_full z t \<longleftrightarrow> acquired_cnt (res_infos z t) = total_cnt (res_infos z t)"

definition upd_res :: "zone_resource_type \<Rightarrow> (u32 \<Rightarrow> u32) \<Rightarrow> zns_ftl \<Rightarrow> zns_ftl" where
  "upd_res t f z = z\<lparr>res_infos := (res_infos z)
     (t := (res_infos z t)\<lparr>acquired_cnt := f (acquired_cnt (res_infos z t))\<rparr>)\<rparr>"

definition acquire_zone_resource :: "zns_ftl \<Rightarrow> zone_resource_type \<Rightarrow> zns_ftl \<times> bool" where
  "acquire_zone_resource z t =
     (if is_zone_resource_avail z t then (upd_res t (\<lambda>n. n + 1) z, True) else (z, False))"

definition release_zone_resource :: "zns_ftl \<Rightarrow> zone_resource_type \<Rightarrow> zns_ftl" where
  "release_zone_resource z t = upd_res t (\<lambda>n. n - 1) z"

definition get_zd :: "zns_ftl \<Rightarrow> nat \<Rightarrow> zone_descriptor option" where
  "get_zd z zid = rd (zone_descs z) zid"

definition upd_zd :: "zns_ftl \<Rightarrow> nat \<Rightarrow> (zone_descriptor \<Rightarrow> zone_descriptor) \<Rightarrow> zns_ftl option" where
  "upd_zd z zid f =
     map_option (\<lambda>ds. z\<lparr>zone_descs := ds\<rparr>) (modify (zone_descs z) zid (\<lambda>d. Some (f d)))"

definition change_zone_state :: "zns_ftl \<Rightarrow> nat \<Rightarrow> zone_state \<Rightarrow> zns_ftl option" where
  "change_zone_state z zid st = upd_zd z zid (\<lambda>d. d\<lparr>zd_state := st\<rparr>)"

subsection \<open>Addresses\<close>

text \<open>
  Zone indices are 32-bit, and so is the product in \<open>zone_to_slba\<close> and \<open>zone_to_slpn\<close>: it wraps
  before it is widened.
\<close>

definition lpn_to_zone :: "zns_ftl \<Rightarrow> u64 \<Rightarrow> u32 option" where
  "lpn_to_zone z lpn = do {
     n \<leftarrow> udiv (zone_size (zp z)) (of_nat (pgsz (sp (zf_ssd z))));
     q \<leftarrow> udiv lpn (ucast n);
     Some (ucast q)
   }"

definition zone_to_slpn :: "zns_ftl \<Rightarrow> u32 \<Rightarrow> u64 option" where
  "zone_to_slpn z zid = do {
     n \<leftarrow> udiv (zone_size (zp z)) (of_nat (pgsz (sp (zf_ssd z))));
     Some (ucast (zid * n))
   }"

definition lba_to_zone :: "zns_ftl \<Rightarrow> u64 \<Rightarrow> u32 option" where
  "lba_to_zone z lba = do {
     n \<leftarrow> udiv (zone_size (zp z)) (of_nat (secsz (sp (zf_ssd z))));
     q \<leftarrow> udiv lba (ucast n);
     Some (ucast q)
   }"

definition zone_to_slba :: "zns_ftl \<Rightarrow> u32 \<Rightarrow> u64 option" where
  "zone_to_slba z zid = do {
     n \<leftarrow> udiv (zone_size (zp z)) (of_nat (secsz (sp (zf_ssd z))));
     Some (ucast (zid * n))
   }"

definition zone_to_elba :: "zns_ftl \<Rightarrow> u32 \<Rightarrow> u64 option" where
  "zone_to_elba z zid = do { s \<leftarrow> zone_to_slba z (zid + 1); Some (s - 1) }"

definition zone_to_elpn :: "zns_ftl \<Rightarrow> u32 \<Rightarrow> u64 option" where
  "zone_to_elpn z zid = do {
     e \<leftarrow> zone_to_elba z zid;
     udiv e (of_nat (secs_per_pg (sp (zf_ssd z))))
   }"

definition die_to_channel :: "zns_ftl \<Rightarrow> u32 \<Rightarrow> u32 option" where
  "die_to_channel z die = umod die (of_nat (nchs (sp (zf_ssd z))))"

definition die_to_lun :: "zns_ftl \<Rightarrow> u32 \<Rightarrow> u32 option" where
  "die_to_lun z die = udiv die (of_nat (nchs (sp (zf_ssd z))))"

definition lba_to_lpn :: "zns_ftl \<Rightarrow> u64 \<Rightarrow> u64 option" where
  "lba_to_lpn z lba = udiv lba (of_nat (secs_per_pg (sp (zf_ssd z))))"

subsection \<open>Initialisation\<close>

definition zns_init_params :: "zns_config \<Rightarrow> ssdparams \<Rightarrow> u64 \<Rightarrow> znsparams option" where
  "zns_init_params c spp capacity = do {
     nz \<leftarrow> udiv capacity (of_nat (ZONE_SIZE c));
     NVMEV_ASSERT (secsz spp \<noteq> 0);
     let zpp = \<lparr>nr_zones = ucast nz, nr_active_zones = ucast nz, nr_open_zones = ucast nz,
                dies_per_zone = of_nat (DIES_PER_ZONE c), zone_size = of_nat (ZONE_SIZE c),
                zone_wb_size = of_nat (ZONE_WB_SIZE c), nr_zrwa_zones = of_nat (MAX_ZRWA_ZONES c),
                zrwafg_size = of_nat (ZRWAFG_SIZE c), zrwa_size = of_nat (ZRWA_SIZE c),
                zrwa_buffer_size = of_nat (ZRWA_BUFFER_SIZE c),
                lbas_per_zrwafg = of_nat (ZRWAFG_SIZE c div secsz spp),
                lbas_per_zrwa = of_nat (ZRWA_SIZE c div secsz spp)\<rparr>;
     r \<leftarrow> umod capacity (ucast (zone_size zpp));
     NVMEV_ASSERT (r = 0);
     r \<leftarrow> umod (zone_size zpp) (of_nat (pgsz spp));
     NVMEV_ASSERT (r = 0);
     Some zpp
   }"

definition init_descriptor :: "znsparams \<Rightarrow> nat \<Rightarrow> zone_descriptor" where
  "init_descriptor zpp i = (
     let lbas = ucast (drop_bit 9 (zone_size zpp)) in
     \<lparr>zd_state = ZONE_STATE_EMPTY, zd_type = 2, zd_zrwav = False,
      zd_zone_capacity = lbas, zd_zslba = of_nat i * lbas, zd_wp = of_nat i * lbas\<rparr>)"

definition init_resource :: "znsparams \<Rightarrow> zone_resource_type \<Rightarrow> zone_resource_info" where
  "init_resource zpp t = \<lparr>acquired_cnt = 0, total_cnt = nr_zones zpp\<rparr>"

definition zns_init_ftl :: "znsparams \<Rightarrow> ssd \<Rightarrow> (nat \<Rightarrow> u8) \<Rightarrow> zns_ftl" where
  "zns_init_ftl zpp ssd storage = (
     let n = unat (nr_zones zpp) in
     \<lparr>zf_ssd = ssd, zp = zpp, res_infos = init_resource zpp,
      zone_descs = map (init_descriptor zpp) [0..<n],
      zone_write_buffer =
        (if zone_wb_size zpp \<noteq> 0 then replicate n (buffer_init (ucast (zone_wb_size zpp))) else []),
      zrwa_buffer =
        (if zrwa_buffer_size zpp \<noteq> 0 then replicate n (buffer_init (ucast (zrwa_buffer_size zpp)))
         else []),
      zf_storage = storage\<rparr>)"

subsection \<open>Zone management send\<close>

definition zmgmt_send_close_zone :: "zns_ftl \<Rightarrow> nat \<Rightarrow> (zns_ftl \<times> u32) option" where
  "zmgmt_send_close_zone z zid = do {
     d \<leftarrow> get_zd z zid;
     (case zd_state d of
        ZONE_STATE_OPENED_IMPL \<Rightarrow> do {
          z \<leftarrow> change_zone_state z zid ZONE_STATE_CLOSED;
          Some (release_zone_resource z OPEN_ZONE, SC_SUCCESS) }
      | ZONE_STATE_OPENED_EXPL \<Rightarrow> do {
          z \<leftarrow> change_zone_state z zid ZONE_STATE_CLOSED;
          Some (release_zone_resource z OPEN_ZONE, SC_SUCCESS) }
      | ZONE_STATE_CLOSED \<Rightarrow> Some (z, SC_SUCCESS)
      | _ \<Rightarrow> Some (z, SC_ZNS_INVALID_TRANSITION))
   }"

text \<open>What finish, reset and a completed flush give back of a closed zone's resources.\<close>

definition release_active :: "zns_ftl \<Rightarrow> bool \<Rightarrow> zns_ftl" where
  "release_active z is_zrwa_zone = (
     let z = release_zone_resource z ACTIVE_ZONE
     in if is_zrwa_zone then release_zone_resource z ZRWA_ZONE else z)"

definition zmgmt_send_finish_zone :: "zns_ftl \<Rightarrow> nat \<Rightarrow> (zns_ftl \<times> u32) option" where
  "zmgmt_send_finish_zone z zid = do {
     d \<leftarrow> get_zd z zid;
     let finish = (\<lambda>z. do {
        z \<leftarrow> change_zone_state (release_active z (zd_zrwav d)) zid ZONE_STATE_FULL;
        Some (z, SC_SUCCESS) });
     (case zd_state d of
        ZONE_STATE_OPENED_IMPL \<Rightarrow> finish (release_zone_resource z OPEN_ZONE)
      | ZONE_STATE_OPENED_EXPL \<Rightarrow> finish (release_zone_resource z OPEN_ZONE)
      | ZONE_STATE_CLOSED \<Rightarrow> finish z
      | ZONE_STATE_EMPTY \<Rightarrow> do { z \<leftarrow> change_zone_state z zid ZONE_STATE_FULL; Some (z, SC_SUCCESS) }
      | ZONE_STATE_FULL \<Rightarrow> Some (z, SC_SUCCESS)
      | _ \<Rightarrow> Some (z, SC_ZNS_INVALID_TRANSITION))
   }"

text \<open>The tail of the open transition that the cases \<open>EMPTY\<close> and \<open>CLOSED\<close> fall through to.\<close>

definition open_from_closed :: "zns_ftl \<Rightarrow> nat \<Rightarrow> (zns_ftl \<times> u32) option" where
  "open_from_closed z zid = (
     let (z, ok) = acquire_zone_resource z OPEN_ZONE
     in if \<not> ok then Some (z, SC_ZNS_NO_OPEN_ZONE)
        else do { z \<leftarrow> change_zone_state z zid ZONE_STATE_OPENED_EXPL; Some (z, SC_SUCCESS) })"

definition zmgmt_send_open_zone :: "zns_ftl \<Rightarrow> nat \<Rightarrow> bool \<Rightarrow> (zns_ftl \<times> u32) option" where
  "zmgmt_send_open_zone z zid zrwa = do {
     d \<leftarrow> get_zd z zid;
     (case zd_state d of
        ZONE_STATE_EMPTY \<Rightarrow>
          if is_zone_resource_full z ACTIVE_ZONE then Some (z, SC_ZNS_NO_ACTIVE_ZONE)
          else if is_zone_resource_full z OPEN_ZONE then Some (z, SC_ZNS_NO_OPEN_ZONE)
          else if zrwa \<and> is_zone_resource_full z ZRWA_ZONE then Some (z, SC_ZNS_ZRWA_RSRC_UNAVAIL)
          else do {
            z \<leftarrow> (if zrwa then upd_zd (fst (acquire_zone_resource z ZRWA_ZONE)) zid
                               (\<lambda>d. d\<lparr>zd_zrwav := True\<rparr>)
                  else Some z);
            open_from_closed (fst (acquire_zone_resource z ACTIVE_ZONE)) zid
          }
      | ZONE_STATE_CLOSED \<Rightarrow> open_from_closed z zid
      | ZONE_STATE_OPENED_IMPL \<Rightarrow> do {
          z \<leftarrow> change_zone_state z zid ZONE_STATE_OPENED_EXPL; Some (z, SC_SUCCESS) }
      | ZONE_STATE_OPENED_EXPL \<Rightarrow> Some (z, SC_SUCCESS)
      | _ \<Rightarrow> Some (z, SC_ZNS_INVALID_TRANSITION))
   }"

definition reset_zone :: "zns_ftl \<Rightarrow> nat \<Rightarrow> zns_ftl option" where
  "reset_zone z zid = do {
     let start = zid * unat (zone_size (zp z));
     let z = z\<lparr>zf_storage := (\<lambda>a. if start \<le> a \<and> a < start + unat (zone_size (zp z)) then 0
                                 else zf_storage z a)\<rparr>;
     z \<leftarrow> upd_zd z zid (\<lambda>d. d\<lparr>zd_wp := zd_zslba d, zd_zrwav := False\<rparr>);
     if zrwa_buffer_size (zp z) \<noteq> 0
     then map_option (\<lambda>bs. z\<lparr>zrwa_buffer := bs\<rparr>)
            (modify (zrwa_buffer z) zid (\<lambda>b. Some (buffer_refill b)))
     else Some z
   }"

definition zmgmt_send_reset_zone :: "zns_ftl \<Rightarrow> nat \<Rightarrow> (zns_ftl \<times> u32) option" where
  "zmgmt_send_reset_zone z zid = do {
     d \<leftarrow> get_zd z zid;
     let reset = (\<lambda>z. do {
        z \<leftarrow> change_zone_state z zid ZONE_STATE_EMPTY;
        z \<leftarrow> reset_zone z zid;
        Some (z, SC_SUCCESS) });
     (case zd_state d of
        ZONE_STATE_OPENED_IMPL \<Rightarrow> reset (release_active (release_zone_resource z OPEN_ZONE) (zd_zrwav d))
      | ZONE_STATE_OPENED_EXPL \<Rightarrow> reset (release_active (release_zone_resource z OPEN_ZONE) (zd_zrwav d))
      | ZONE_STATE_CLOSED \<Rightarrow> reset (release_active z (zd_zrwav d))
      | ZONE_STATE_FULL \<Rightarrow> reset z
      | ZONE_STATE_EMPTY \<Rightarrow> reset z
      | _ \<Rightarrow> Some (z, SC_ZNS_INVALID_TRANSITION))
   }"

definition zmgmt_send_offline_zone :: "zns_ftl \<Rightarrow> nat \<Rightarrow> (zns_ftl \<times> u32) option" where
  "zmgmt_send_offline_zone z zid = do {
     d \<leftarrow> get_zd z zid;
     (case zd_state d of
        ZONE_STATE_READ_ONLY \<Rightarrow> do {
          z \<leftarrow> change_zone_state z zid ZONE_STATE_OFFLINE; Some (z, SC_SUCCESS) }
      | ZONE_STATE_OFFLINE \<Rightarrow> Some (z, SC_SUCCESS)
      | _ \<Rightarrow> Some (z, SC_ZNS_INVALID_TRANSITION))
   }"

definition zmgmt_send_flush_explicit_zrwa :: "zns_ftl \<Rightarrow> u64 \<Rightarrow> (zns_ftl \<times> u32) option" where
  "zmgmt_send_flush_explicit_zrwa z slba = do {
     zid32 \<leftarrow> lba_to_zone z slba;
     let zid = unat zid32;
     d \<leftarrow> get_zd z zid;
     let wp = zd_wp d;
     zslba \<leftarrow> zone_to_slba z zid32;
     let zrwa_end = min (wp + ucast (lbas_per_zrwa (zp z)) - 1) (zslba + zd_zone_capacity d - 1);
     let nr_lbas_flush = slba - wp + 1;
     if \<not> zd_zrwav d then Some (z, SC_ZNS_INVALID_ZONE_OPERATION)
     else if \<not> (wp \<le> slba \<and> slba \<le> zrwa_end) then Some (z, SC_ZNS_INVALID_ZONE_OPERATION)
     else do {
       r \<leftarrow> umod nr_lbas_flush (ucast (lbas_per_zrwafg (zp z)));
       if r \<noteq> 0 then Some (z, SC_INVALID_FIELD)
       else if zd_state d \<in> {ZONE_STATE_OPENED_EXPL, ZONE_STATE_OPENED_IMPL, ZONE_STATE_CLOSED}
       then do {
         z \<leftarrow> upd_zd z zid (\<lambda>d. d\<lparr>zd_wp := slba + 1\<rparr>);
         if slba + 1 = zslba + zd_zone_capacity d
         then do {
           let z = (if zd_state d \<noteq> ZONE_STATE_CLOSED then release_zone_resource z OPEN_ZONE else z);
           z \<leftarrow> change_zone_state (release_active z True) zid ZONE_STATE_FULL;
           Some (z, SC_SUCCESS)
         }
         else Some (z, SC_SUCCESS)
       }
       else Some (z, SC_ZNS_INVALID_ZONE_OPERATION)
     }
   }"

text \<open>An action the switch does not know returns the uninitialised \<open>status\<close>, here \<open>junk\<close>.\<close>

definition zmgmt_send :: "u32 \<Rightarrow> zns_ftl \<Rightarrow> u64 \<Rightarrow> u32 \<Rightarrow> u32 \<Rightarrow> (zns_ftl \<times> u32) option" where
  "zmgmt_send junk z slba action opt = do {
     zid32 \<leftarrow> lba_to_zone z slba;
     let zid = unat zid32;
     if action = 1 then zmgmt_send_close_zone z zid
     else if action = 2 then zmgmt_send_finish_zone z zid
     else if action = 3 then zmgmt_send_open_zone z zid (opt \<noteq> 0)
     else if action = 4 then zmgmt_send_reset_zone z zid
     else if action = 5 then zmgmt_send_offline_zone z zid
     else if action = 0x11 then zmgmt_send_flush_explicit_zrwa z slba
     else Some (z, junk)
   }"

record zone_mgmt_send_cmd =
  zs_slba :: u64
  zs_zsa :: u32
  zs_select_all :: bool
  zs_zsaso :: u32

definition zns_zmgmt_send :: "u32 \<Rightarrow> zns_ftl \<Rightarrow> zone_mgmt_send_cmd \<Rightarrow> (zns_ftl \<times> u32) option" where
  "zns_zmgmt_send junk z cmd = do {
     lba_to_zone z (zs_slba cmd);
     if zs_select_all cmd then do {
       z \<leftarrow> fold_opt (\<lambda>zid z. do {
           slba \<leftarrow> zone_to_slba z (of_nat zid);
           (z, _) \<leftarrow> zmgmt_send junk z slba (zs_zsa cmd) (zs_zsaso cmd);
           Some z
         }) [0..<unat (nr_zones (zp z))] z;
       Some (z, SC_SUCCESS)
     }
     else zmgmt_send junk z (zs_slba cmd) (zs_zsa cmd) (zs_zsaso cmd)
   }"

subsection \<open>Zone management receive\<close>

record zone_mgmt_recv_cmd =
  zr_slba :: u64
  zr_nr_dw :: u32
  zr_zra :: u8
  zr_zra_specific_field :: u8
  zr_partial :: bool

text \<open>A zone report: the number of zones and their descriptors of 64 bytes each.\<close>

record zone_report =
  zrep_nr_zones :: u64
  zrep_zd :: "zone_descriptor list"

definition fill_zone_report :: "zns_ftl \<Rightarrow> zone_mgmt_recv_cmd \<Rightarrow> zone_report option" where
  "fill_zone_report z cmd = do {
     start32 \<leftarrow> lba_to_zone z (zr_slba cmd);
     let start_zid = (ucast start32 :: u64);
     let bytes_transfer = (ucast (zr_nr_dw cmd + 1) * 4 :: u64);
     let left = ucast (nr_zones (zp z)) - start_zid;
     let n = (if \<not> zr_partial cmd then left else bytes_transfer div 64 - 1);
     let n = (if left < n then left else n);
     NVMEV_ASSERT (unat start_zid + unat n \<le> length (zone_descs z));
     Some \<lparr>zrep_nr_zones = n, zrep_zd = take (unat n) (drop (unat start_zid) (zone_descs z))\<rparr>
   }"

definition check_zmgmt_rcv_option_supported :: "zns_ftl \<Rightarrow> zone_mgmt_recv_cmd \<Rightarrow> bool option" where
  "check_zmgmt_rcv_option_supported z cmd = do {
     zid \<leftarrow> lba_to_zone z (zr_slba cmd);
     Some (zid < nr_zones (zp z) \<and> zr_zra cmd = 0 \<and> zr_zra_specific_field cmd = 0)
   }"

text \<open>
  The report buffer has 128 bytes and 64 for each zone; the transfer copies \<open>(nr_dw + 1) * 4\<close>
  bytes of it to the host, and faults when it is shorter.
\<close>

definition zns_zmgmt_recv :: "zns_ftl \<Rightarrow> zone_mgmt_recv_cmd \<Rightarrow> (zone_report option \<times> u32) option" where
  "zns_zmgmt_recv z cmd = do {
     let len = (ucast (zr_nr_dw cmd + 1) * 4 :: u64);
     ok \<leftarrow> check_zmgmt_rcv_option_supported z cmd;
     if ok then do {
       rep \<leftarrow> fill_zone_report z cmd;
       NVMEV_ASSERT (unat len \<le> 128 + 64 * unat (nr_zones (zp z)));
       Some (Some rep, SC_SUCCESS)
     }
     else Some (None, SC_INVALID_FIELD)
   }"

end
