(* ===== verification/Zns_Io.thy ===== *)
theory Zns_Io
  imports Zns
begin

text \<open>
  Read, write and zone append of a zoned namespace (\<open>zns_read_write.c\<close>), flush and dispatch
  (\<open>zns_ftl.c\<close>). The write paths keep the code's order: buffer space is taken before the
  command is checked. A zone append stores its start address back into the command.
\<close>

subsection \<open>Commands\<close>

record zns_rw_command =
  zc_append :: bool
  zc_slba :: u64
  zc_length :: u16
  zc_control :: u16

record zns_result =
  zret_status :: u32
  zret_nsecs_target :: u64

definition RW_FUA :: u16 where [cdefs]: "RW_FUA = 0x4000"

definition nr_lbas_from_rw_cmd :: "zns_rw_command \<Rightarrow> u32" where
  "nr_lbas_from_rw_cmd cmd = ucast (zc_length cmd) + 1"

definition lba_bytes :: "u64 \<Rightarrow> u64" where "lba_bytes n = push_bit 9 n"

text \<open>An argument passed as a 32-bit number of blocks.\<close>

definition arg32 :: "u64 \<Rightarrow> u64" where "arg32 n = ucast (ucast n :: u32)"

lemma arg32_small: "unat n < 2 ^ 32 \<Longrightarrow> arg32 n = n"
  by (simp add: arg32_def word_unat_eq_iff unat_ucast_up unat_ucast_less)

lemma arg32_ucast [simp]: "arg32 (ucast (n :: u32)) = ucast n"
proof (rule arg32_small)
  show "unat (ucast n :: u64) < 2 ^ 32" using unat_less_pow [of n] by (simp add: unat_ucast_up)
qed

text \<open>Despite its name, true when the first and the last block are in the same zone.\<close>

definition check_boundary_error :: "zns_ftl \<Rightarrow> u64 \<Rightarrow> u64 \<Rightarrow> bool option" where
  "check_boundary_error z slba nr_lba = do {
     a \<leftarrow> lba_to_zone z slba;
     b \<leftarrow> lba_to_zone z (slba + arg32 nr_lba - 1);
     Some (a = b)
   }"

definition increase_write_ptr :: "zns_ftl \<Rightarrow> u32 \<Rightarrow> u64 \<Rightarrow> zns_ftl option" where
  "increase_write_ptr z zid nr_lba = do {
     d \<leftarrow> get_zd z (unat zid);
     let cur_write_ptr = zd_wp d + arg32 nr_lba;
     z \<leftarrow> upd_zd z (unat zid) (\<lambda>d. d\<lparr>zd_wp := cur_write_ptr\<rparr>);
     zslba \<leftarrow> zone_to_slba z zid;
     if cur_write_ptr = zslba + zd_zone_capacity d
     then change_zone_state (release_zone_resource (release_zone_resource z OPEN_ZONE) ACTIVE_ZONE)
            (unat zid) ZONE_STATE_FULL
     else Some z
   }"

text \<open>Zones are spread over the dies, pages of a zone over its dies by programming unit.\<close>

definition lpn_to_ppa :: "zns_ftl \<Rightarrow> u64 \<Rightarrow> ppa option" where
  "lpn_to_ppa z lpn = do {
     let spp = sp (zf_ssd z);
     zone \<leftarrow> lpn_to_zone z lpn;
     slpn \<leftarrow> zone_to_slpn z zone;
     let off = lpn - slpn;
     sdie \<leftarrow> umod (ucast zone * ucast (dies_per_zone (zp z)) :: u64) (of_nat (tt_luns spp));
     unit_no \<leftarrow> udiv off (of_nat (pgs_per_oneshotpg spp));
     die_off \<leftarrow> umod unit_no (ucast (dies_per_zone (zp z)));
     let die = (ucast (ucast (ucast sdie :: u32) + die_off) :: u32);
     channel \<leftarrow> die_to_channel z die;
     lun \<leftarrow> die_to_lun z die;
     pg \<leftarrow> umod off (of_nat (pgs_per_oneshotpg spp));
     Some \<lparr>g_pg = ucast pg, g_blk = 0, g_pl = 0, g_lun = ucast lun, g_ch = ucast channel, g_rsv = 0\<rparr>
   }"

subsection \<open>Write\<close>

text \<open>The buffer a write of the zone goes through.\<close>

definition zone_buf :: "zns_ftl \<Rightarrow> nat \<Rightarrow> buf_ref" where
  "zone_buf z zid = (if zone_wb_size (zp z) \<noteq> 0 then ZONE_BUFFER zid else DEV_BUFFER)"

definition read_buf :: "zns_ftl \<Rightarrow> dev \<Rightarrow> buf_ref \<Rightarrow> buffer option" where
  "read_buf z dv b = (case b of
      DEV_BUFFER \<Rightarrow> Some (write_buffer dv)
    | ZONE_BUFFER i \<Rightarrow> rd (zone_write_buffer z) i
    | ZRWA_BUFFER i \<Rightarrow> rd (zrwa_buffer z) i)"

definition write_buf :: "zns_ftl \<Rightarrow> dev \<Rightarrow> buf_ref \<Rightarrow> buffer \<Rightarrow> (zns_ftl \<times> dev) option" where
  "write_buf z dv b v = (case b of
      DEV_BUFFER \<Rightarrow> Some (z, dv\<lparr>write_buffer := v\<rparr>)
    | ZONE_BUFFER i \<Rightarrow> map_option (\<lambda>bs. (z\<lparr>zone_write_buffer := bs\<rparr>, dv)) (wr (zone_write_buffer z) i v)
    | ZRWA_BUFFER i \<Rightarrow> map_option (\<lambda>bs. (z\<lparr>zrwa_buffer := bs\<rparr>, dv)) (wr (zrwa_buffer z) i v))"

definition alloc_buf :: "zns_ftl \<Rightarrow> dev \<Rightarrow> buf_ref \<Rightarrow> u64 \<Rightarrow> (zns_ftl \<times> dev \<times> u32) option" where
  "alloc_buf z dv b n = do {
     v \<leftarrow> read_buf z dv b;
     (v, got) \<leftarrow> buffer_allocate v n;
     (z, dv) \<leftarrow> write_buf z dv b v;
     Some (z, dv, got)
   }"

text \<open>The zone must be open to be written: the transition, or the error status.\<close>

definition open_for_write :: "zns_ftl \<Rightarrow> nat \<Rightarrow> u64 \<Rightarrow> (zns_ftl \<times> u32) option" where
  "open_for_write z zid slba = do {
     d \<leftarrow> get_zd z zid;
     let closed = (\<lambda>z.
        let (z, ok) = acquire_zone_resource z OPEN_ZONE
        in if \<not> ok then Some (z, SC_ZNS_NO_OPEN_ZONE)
           else do { z \<leftarrow> change_zone_state z zid ZONE_STATE_OPENED_IMPL; Some (z, SC_SUCCESS) });
     (case zd_state d of
        ZONE_STATE_EMPTY \<Rightarrow>
          if slba \<noteq> zd_zslba d then Some (z, SC_ZNS_INVALID_WRITE)
          else if is_zone_resource_full z ACTIVE_ZONE then Some (z, SC_ZNS_NO_ACTIVE_ZONE)
          else if is_zone_resource_full z OPEN_ZONE then Some (z, SC_ZNS_NO_OPEN_ZONE)
          else closed (fst (acquire_zone_resource z ACTIVE_ZONE))
      | ZONE_STATE_CLOSED \<Rightarrow> closed z
      | ZONE_STATE_OPENED_IMPL \<Rightarrow> Some (z, SC_SUCCESS)
      | ZONE_STATE_OPENED_EXPL \<Rightarrow> Some (z, SC_SUCCESS)
      | ZONE_STATE_FULL \<Rightarrow> Some (z, SC_ZNS_ERR_FULL)
      | ZONE_STATE_READ_ONLY \<Rightarrow> Some (z, SC_ZNS_ERR_READ_ONLY)
      | ZONE_STATE_OFFLINE \<Rightarrow> Some (z, SC_ZNS_ERR_OFFLINE))
   }"

definition zns_write_cmd :: "ssdparams \<Rightarrow> u64 \<Rightarrow> ppa \<Rightarrow> nand_cmd" where
  "zns_write_cmd spp stime p =
     \<lparr>nc_cmd = NAND_WRITE, nc_xfer_size = of_nat (pgs_per_oneshotpg spp * pgsz spp), nc_stime = stime,
      nc_interleave_pci_dma = False, nc_ppa = p\<rparr>"

text \<open>
  The programming units of a write from \<open>lpn\<close> to \<open>elpn\<close>: a unit is programmed when its last
  page is written or the zone ends.
\<close>

partial_function (option) program_units ::
  "u32 \<Rightarrow> u64 \<Rightarrow> buf_ref \<Rightarrow> u64 \<Rightarrow> u64 \<Rightarrow> u64 \<Rightarrow> zns_ftl \<times> dev \<times> u64 \<Rightarrow> (zns_ftl \<times> dev \<times> u64) option" where
  "program_units sq_id stime b zone_elpn elpn lpn s = (
     if lpn \<le> elpn then do {
       let (z, dv, latest) = s;
       let spp = sp (zf_ssd z);
       p \<leftarrow> lpn_to_ppa z lpn;
       let pg_off = (of_nat (unat (g_pg p) mod pgs_per_oneshotpg spp) :: u64);
       let pgs = min (elpn - lpn + 1) (of_nat (pgs_per_oneshotpg spp) - pg_off);
       s \<leftarrow> (if pg_off + pgs = of_nat (pgs_per_oneshotpg spp) \<or> lpn + pgs - 1 = zone_elpn then do {
               (ssd, dv, completed) \<leftarrow> ssd_advance_nand (zf_ssd z) dv (zns_write_cmd spp stime p);
               unaligned \<leftarrow> umod (zone_size (zp z)) (of_nat (pgs_per_oneshotpg spp * pgsz spp));
               let release = (if lpn + pgs - 1 = zone_elpn \<and> 0 < unaligned then ucast unaligned
                              else of_nat (pgs_per_oneshotpg spp * pgsz spp));
               Some (z\<lparr>zf_ssd := ssd\<rparr>, schedule_internal_operation sq_id completed b release dv,
                     max completed latest)
             }
             else Some (z, dv, latest));
       program_units sq_id stime b zone_elpn elpn (lpn + pgs) s
     }
     else Some s)"

text \<open>How \<open>out:\<close> answers.\<close>

definition zns_answer :: "ssdparams \<Rightarrow> zns_rw_command \<Rightarrow> u32 \<Rightarrow> u64 \<Rightarrow> u64 \<Rightarrow> zns_result" where
  "zns_answer spp cmd status latest xfer_completed =
     \<lparr>zret_status = status,
      zret_nsecs_target =
        (if zc_control cmd AND RW_FUA \<noteq> 0 \<or> \<not> write_early_completion spp then latest
         else xfer_completed)\<rparr>"

text \<open>The checks between the allocation and the switch, as a status.\<close>

definition check_write :: "zns_ftl \<Rightarrow> nat \<Rightarrow> u64 \<Rightarrow> u64 \<Rightarrow> u32 option" where
  "check_write z zid slba nr_lba = do {
     d \<leftarrow> get_zd z zid;
     r \<leftarrow> umod (lba_bytes nr_lba) (of_nat (write_unit_size (sp (zf_ssd z))));
     if r \<noteq> 0 then Some SC_ZNS_INVALID_WRITE
     else do {
       same \<leftarrow> check_boundary_error z slba nr_lba;
       if \<not> same then Some SC_ZNS_ERR_BOUNDARY
       else if slba \<noteq> zd_wp d then Some SC_ZNS_INVALID_WRITE
       else Some SC_SUCCESS
     }
   }"

definition zns_write_seq ::
  "zns_ftl \<Rightarrow> dev \<Rightarrow> u32 \<Rightarrow> u64 \<Rightarrow> zns_rw_command \<Rightarrow> zns_result
    \<Rightarrow> (zns_ftl \<times> dev \<times> zns_rw_command \<times> zns_result \<times> bool) option" where
  "zns_write_seq z dv sq_id nsecs_start cmd ret = do {
     let spp = sp (zf_ssd z);
     let nr_lba = (ucast (nr_lbas_from_rw_cmd cmd) :: u64);
     zid32 \<leftarrow> lba_to_zone z (zc_slba cmd);
     let zid = unat zid32;
     d \<leftarrow> get_zd z zid;
     let cmd = (if zc_append cmd then cmd\<lparr>zc_slba := zd_wp d\<rparr> else cmd);
     let slba = zc_slba cmd;
     slpn \<leftarrow> lba_to_lpn z slba;
     elpn \<leftarrow> lba_to_lpn z (slba + nr_lba - 1);
     zone_elpn \<leftarrow> zone_to_elpn z zid32;
     (z, dv, got) \<leftarrow> alloc_buf z dv (zone_buf z zid) (lba_bytes nr_lba);
     if ucast got < lba_bytes nr_lba then Some (z, dv, cmd, ret, False)
     else do {
       st \<leftarrow> check_write z zid slba nr_lba;
       if st \<noteq> SC_SUCCESS then Some (z, dv, cmd, zns_answer spp cmd st nsecs_start nsecs_start, True)
       else do {
         (z, st) \<leftarrow> open_for_write z zid slba;
         if st \<noteq> SC_SUCCESS
         then Some (z, dv, cmd, zns_answer spp cmd st nsecs_start nsecs_start, True)
         else do {
           z \<leftarrow> increase_write_ptr z zid32 nr_lba;
           (dv, xfer) \<leftarrow> ssd_advance_write_buffer (zf_ssd z) dv nsecs_start (lba_bytes nr_lba);
           (z, dv, latest) \<leftarrow>
             program_units sq_id xfer (zone_buf z zid) zone_elpn elpn slpn (z, dv, xfer);
           Some (z, dv, cmd, zns_answer spp cmd SC_SUCCESS latest xfer, True)
         }
       }
     }
   }"

subsection \<open>Write with a random write area\<close>

text \<open>The check before the switch, and the blocks flushed implicitly.\<close>

definition check_write_zrwa :: "zns_ftl \<Rightarrow> nat \<Rightarrow> u64 \<Rightarrow> u64 \<Rightarrow> u32 option" where
  "check_write_zrwa z zid slba nr_lba = do {
     d \<leftarrow> get_zd z zid;
     let impl_end = zd_wp d + ucast (2 * lbas_per_zrwa (zp z)) - 1;
     r \<leftarrow> umod (lba_bytes nr_lba) (of_nat (write_unit_size (sp (zf_ssd z))));
     if r \<noteq> 0 then Some SC_ZNS_INVALID_WRITE
     else do {
       same \<leftarrow> check_boundary_error z slba nr_lba;
       if \<not> same then Some SC_ZNS_ERR_BOUNDARY
       else if slba < zd_wp d \<or> impl_end < slba + nr_lba - 1 then Some SC_ZNS_INVALID_WRITE
       else Some SC_SUCCESS
     }
   }"

definition open_for_zrwa :: "zns_ftl \<Rightarrow> dev \<Rightarrow> nat \<Rightarrow> (zns_ftl \<times> dev \<times> u32) option" where
  "open_for_zrwa z dv zid = do {
     d \<leftarrow> get_zd z zid;
     (if zd_state d = ZONE_STATE_CLOSED \<or> zd_state d = ZONE_STATE_EMPTY then
        let (z, ok) = acquire_zone_resource z OPEN_ZONE
        in if \<not> ok then Some (z, dv, SC_ZNS_NO_OPEN_ZONE)
           else do {
             (z, dv, got) \<leftarrow> alloc_buf z dv (ZRWA_BUFFER zid) (ucast (zrwa_size (zp z)));
             NVMEV_ASSERT (got \<noteq> 0);
             z \<leftarrow> change_zone_state z zid ZONE_STATE_OPENED_IMPL;
             Some (z, dv, SC_SUCCESS)
           }
      else if zd_state d = ZONE_STATE_FULL then Some (z, dv, SC_ZNS_ERR_FULL)
      else if zd_state d = ZONE_STATE_READ_ONLY then Some (z, dv, SC_ZNS_ERR_READ_ONLY)
      else if zd_state d = ZONE_STATE_OFFLINE then Some (z, dv, SC_ZNS_ERR_OFFLINE)
      else Some (z, dv, SC_SUCCESS))
   }"

definition zrwa_flush_len :: "zns_ftl \<Rightarrow> u32 \<Rightarrow> u64 \<Rightarrow> u64 \<Rightarrow> u64 option" where
  "zrwa_flush_len z zid32 prev_wp elba = do {
     let impl_start = prev_wp + ucast (lbas_per_zrwa (zp z));
     zone_end \<leftarrow> zone_to_elba z zid32;
     if impl_start \<le> elba then do {
       let fg = (ucast (lbas_per_zrwafg (zp z)) :: u64);
       q \<leftarrow> udiv (elba - impl_start + 1 + fg - 1) fg;
       Some (q * fg)
     }
     else if elba = zone_end then Some (elba - prev_wp + 1)
     else Some 0
   }"

partial_function (option) program_flushed ::
  "u32 \<Rightarrow> u64 \<Rightarrow> nat \<Rightarrow> u64 \<Rightarrow> u64 \<Rightarrow> zns_ftl \<times> dev \<times> u64 \<Rightarrow> (zns_ftl \<times> dev \<times> u64) option" where
  "program_flushed sq_id stime zid lpn remaining s = (
     if 0 < remaining then do {
       let (z, dv, latest) = s;
       let spp = sp (zf_ssd z);
       p \<leftarrow> lpn_to_ppa z lpn;
       let pg_off = (of_nat (unat (g_pg p) mod pgs_per_oneshotpg spp) :: u64);
       let pgs = min remaining (of_nat (pgs_per_oneshotpg spp) - pg_off);
       s \<leftarrow> (if pg_off + pgs = of_nat (pgs_per_oneshotpg spp) then do {
               (ssd, dv, completed) \<leftarrow> ssd_advance_nand (zf_ssd z) dv (zns_write_cmd spp stime p);
               Some (z\<lparr>zf_ssd := ssd\<rparr>,
                     schedule_internal_operation sq_id completed (ZRWA_BUFFER zid)
                       (of_nat (pgs_per_oneshotpg spp * pgsz spp)) dv,
                     max completed latest)
             }
             else Some (z, dv, latest));
       program_flushed sq_id stime zid (lpn + pgs) (remaining - pgs) s
     }
     else Some s)"

definition zns_write_zrwa ::
  "zns_ftl \<Rightarrow> dev \<Rightarrow> u32 \<Rightarrow> u64 \<Rightarrow> zns_rw_command \<Rightarrow> zns_result
    \<Rightarrow> (zns_ftl \<times> dev \<times> zns_rw_command \<times> zns_result \<times> bool) option" where
  "zns_write_zrwa z dv sq_id nsecs_start cmd ret = do {
     let spp = sp (zf_ssd z);
     let slba = zc_slba cmd;
     let nr_lba = (ucast (nr_lbas_from_rw_cmd cmd) :: u64);
     let elba = slba + nr_lba - 1;
     zid32 \<leftarrow> lba_to_zone z slba;
     let zid = unat zid32;
     d \<leftarrow> get_zd z zid;
     let prev_wp = zd_wp d;
     let answer = (\<lambda>st. zns_answer spp cmd st nsecs_start nsecs_start);
     st \<leftarrow> check_write_zrwa z zid slba nr_lba;
     if st \<noteq> SC_SUCCESS then Some (z, dv, cmd, answer st, True)
     else do {
       (z, dv, st) \<leftarrow> open_for_zrwa z dv zid;
       if st \<noteq> SC_SUCCESS then Some (z, dv, cmd, answer st, True)
       else do {
         nr_flush \<leftarrow> zrwa_flush_len z zid32 prev_wp elba;
         (z, dv, got) \<leftarrow> (if 0 < nr_flush then alloc_buf z dv (ZRWA_BUFFER zid) (lba_bytes nr_flush)
                         else Some (z, dv, 1));
         if got = 0 then Some (z, dv, cmd, ret, False)
         else do {
           z \<leftarrow> (if 0 < nr_flush then increase_write_ptr z zid32 nr_flush else Some z);
           (dv, xfer) \<leftarrow> ssd_advance_write_buffer (zf_ssd z) dv nsecs_start (lba_bytes nr_lba);
           lpn \<leftarrow> lba_to_lpn z prev_wp;
           remaining \<leftarrow> udiv nr_flush (of_nat (secs_per_pg spp));
           (z, dv, latest) \<leftarrow> program_flushed sq_id xfer zid lpn remaining (z, dv, xfer);
           Some (z, dv, cmd, zns_answer spp cmd SC_SUCCESS latest xfer, True)
         }
       }
     }
   }"

definition zns_write ::
  "zns_ftl \<Rightarrow> dev \<Rightarrow> u32 \<Rightarrow> u64 \<Rightarrow> zns_rw_command \<Rightarrow> zns_result
    \<Rightarrow> (zns_ftl \<times> dev \<times> zns_rw_command \<times> zns_result \<times> bool) option" where
  "zns_write z dv sq_id nsecs_start cmd ret = do {
     slpn \<leftarrow> lba_to_lpn z (zc_slba cmd);
     zid \<leftarrow> lpn_to_zone z slpn;
     d \<leftarrow> get_zd z (unat zid);
     if \<not> zd_zrwav d then zns_write_seq z dv sq_id nsecs_start cmd ret
     else zns_write_zrwa z dv sq_id nsecs_start cmd ret
   }"

subsection \<open>Read\<close>

partial_function (option) read_units ::
  "u64 \<Rightarrow> u64 \<Rightarrow> u64 \<Rightarrow> zns_ftl \<times> dev \<times> u64 \<Rightarrow> (zns_ftl \<times> dev \<times> u64) option" where
  "read_units stime elpn lpn s = (
     if lpn \<le> elpn then do {
       let (z, dv, latest) = s;
       let spp = sp (zf_ssd z);
       p \<leftarrow> lpn_to_ppa z lpn;
       NVMEV_ASSERT (pgs_per_flashpg spp \<noteq> 0);
       let pg_off = (of_nat (unat (g_pg p) mod pgs_per_flashpg spp) :: u64);
       let pgs = min (elpn - lpn + 1) (of_nat (pgs_per_flashpg spp) - pg_off);
       (ssd, dv, completed) \<leftarrow> ssd_advance_nand (zf_ssd z) dv
          \<lparr>nc_cmd = NAND_READ, nc_xfer_size = pgs * of_nat (pgsz spp), nc_stime = stime,
           nc_interleave_pci_dma = False, nc_ppa = p\<rparr>;
       read_units stime elpn (lpn + pgs) (z\<lparr>zf_ssd := ssd\<rparr>, dv, max completed latest)
     }
     else Some s)"

definition zns_read ::
  "zns_ftl \<Rightarrow> dev \<Rightarrow> u64 \<Rightarrow> zns_rw_command \<Rightarrow> (zns_ftl \<times> dev \<times> zns_result) option" where
  "zns_read z dv nsecs_start cmd = do {
     let spp = sp (zf_ssd z);
     let slba = zc_slba cmd;
     let nr_lba = (ucast (nr_lbas_from_rw_cmd cmd) :: u64);
     slpn \<leftarrow> lba_to_lpn z slba;
     elpn \<leftarrow> lba_to_lpn z (slba + nr_lba - 1);
     zid \<leftarrow> lpn_to_zone z slpn;
     d \<leftarrow> get_zd z (unat zid);
     same \<leftarrow> check_boundary_error z slba nr_lba;
     let status = (if zd_state d = ZONE_STATE_OFFLINE then SC_ZNS_ERR_OFFLINE
                   else if \<not> same then SC_ZNS_ERR_BOUNDARY else SC_SUCCESS);
     let stime = nsecs_start +
       of_nat (if lba_bytes nr_lba \<le> of_nat (KB 4) then fw_4kb_rd_lat spp else fw_rd_lat spp);
     (z, dv, latest) \<leftarrow> read_units stime elpn slpn (z, dv, stime);
     (dv, completed) \<leftarrow> ssd_advance_pcie dv latest (nr_lba * of_nat (secsz spp));
     Some (z, dv, \<lparr>zret_status = status, zret_nsecs_target = max completed latest\<rparr>)
   }"

definition zns_flush :: "zns_ftl \<Rightarrow> dev \<Rightarrow> (dev \<times> zns_result) option" where
  "zns_flush z dv = do {
     let (start, dv) = read_clock dv;
     (dv, idle) \<leftarrow> ssd_next_idle_time (zf_ssd z) dv;
     Some (dv, \<lparr>zret_status = SC_SUCCESS, zret_nsecs_target = max start idle\<rparr>)
   }"

end
