(* ===== verification/Zns_Inv.thy ===== *)
theory Zns_Inv
  imports Zns_Io
begin

text \<open>
  The accounting invariant of zoned namespaces: the acquired counts of the open and active
  resources are the numbers of zones in an open, respectively active, state.
\<close>

subsection \<open>Counting\<close>

lemma length_filter_update:
  assumes "i < length xs"
  shows "length (filter P (xs[i := y])) + (if P (xs ! i) then 1 else 0) =
    length (filter P xs) + (if P y then 1 else 0)"
  using assms
proof (induction xs arbitrary: i)
  case Nil
  then show ?case by simp
next
  case (Cons x xs)
  then show ?case by (cases i) auto
qed

definition is_open :: "zone_state \<Rightarrow> bool" where
  "is_open s \<longleftrightarrow> s = ZONE_STATE_OPENED_IMPL \<or> s = ZONE_STATE_OPENED_EXPL"

definition is_active :: "zone_state \<Rightarrow> bool" where
  "is_active s \<longleftrightarrow> is_open s \<or> s = ZONE_STATE_CLOSED"

definition count_zones :: "(zone_state \<Rightarrow> bool) \<Rightarrow> zns_ftl \<Rightarrow> nat" where
  "count_zones P z = length (filter (\<lambda>d. P (zd_state d)) (zone_descs z))"

text \<open>
  The geometry \<open>zns_init_params\<close> checks: pages are whole sectors, zones whole pages.
\<close>

definition zns_geo :: "ssdparams \<Rightarrow> znsparams \<Rightarrow> bool" where
  "zns_geo spp zpp \<longleftrightarrow> 0 < secsz spp \<and> 0 < secs_per_pg spp \<and>
     pgsz spp = secsz spp * secs_per_pg spp \<and> pgsz spp dvd unat (zone_size zpp) \<and> zone_size zpp \<noteq> 0"

text \<open>
  \<open>zns_inv\<close>: one descriptor per zone, the limits of every resource are the number of zones, the
  acquired counts are exact, and a zone with a random write area is not empty.
\<close>

definition zns_inv :: "zns_ftl \<Rightarrow> bool" where
  "zns_inv z \<longleftrightarrow>
     length (zone_descs z) = unat (nr_zones (zp z)) \<and>
     (\<forall>t. total_cnt (res_infos z t) = nr_zones (zp z)) \<and>
     unat (acquired_cnt (res_infos z OPEN_ZONE)) = count_zones is_open z \<and>
     unat (acquired_cnt (res_infos z ACTIVE_ZONE)) = count_zones is_active z \<and>
     (\<forall>d \<in> set (zone_descs z). zd_zrwav d \<longrightarrow> zd_state d \<noteq> ZONE_STATE_EMPTY) \<and>
     zns_geo (sp (zf_ssd z)) (zp z)"

lemma count_zones_le: "count_zones P z \<le> length (zone_descs z)"
  by (simp add: count_zones_def)

lemma count_zones_pos:
  "get_zd z i = Some d \<Longrightarrow> P (zd_state d) \<Longrightarrow> 0 < count_zones P z"
  unfolding count_zones_def get_zd_def
  by (metis (mono_tags, lifting) length_greater_0_conv filter_empty_conv nth_mem rd_Some)

text \<open>What a handler did to one zone: its descriptor, and the resources it took or gave back.\<close>

definition res_cnt :: "zone_resource_type \<Rightarrow> zns_ftl \<Rightarrow> u32" where
  "res_cnt t z = acquired_cnt (res_infos z t)"

definition zone_changed ::
  "zns_ftl \<Rightarrow> nat \<Rightarrow> zone_descriptor \<Rightarrow> int \<Rightarrow> int \<Rightarrow> zns_ftl \<Rightarrow> bool" where
  "zone_changed z i d' opened activated z' \<longleftrightarrow>
     zone_descs z' = (zone_descs z)[i := d'] \<and> zp z' = zp z \<and> sp (zf_ssd z') = sp (zf_ssd z) \<and>
     (\<forall>t. total_cnt (res_infos z' t) = total_cnt (res_infos z t)) \<and>
     res_cnt OPEN_ZONE z' = res_cnt OPEN_ZONE z + word_of_int opened \<and>
     res_cnt ACTIVE_ZONE z' = res_cnt ACTIVE_ZONE z + word_of_int activated"

definition flag :: "bool \<Rightarrow> int" where "flag b = (if b then 1 else 0)"

text \<open>A change of one zone keeps the invariant when the resources follow its state.\<close>

lemma zone_changed_inv:
  assumes inv: "zns_inv z" and d: "get_zd z i = Some d" and ch: "zone_changed z i d' o' a' z'"
    and o: "o' = flag (is_open (zd_state d')) - flag (is_open (zd_state d))"
    and a: "a' = flag (is_active (zd_state d')) - flag (is_active (zd_state d))"
    and e: "zd_zrwav d' \<Longrightarrow> zd_state d' \<noteq> ZONE_STATE_EMPTY"
  shows "zns_inv z'"
proof -
  have i: "i < length (zone_descs z)" "zone_descs z ! i = d"
    using d by (auto simp: get_zd_def arr_simps)
  have cnt: "unat (res_cnt t z + word_of_int k) = count_zones P z'"
    if k: "k = flag (P (zd_state d')) - flag (P (zd_state d))"
      and old: "unat (res_cnt t z) = count_zones P z" for t k P
  proof -
    have len: "length (filter (\<lambda>d. P (zd_state d)) (zone_descs z')) + (if P (zd_state d) then 1 else 0) =
        length (filter (\<lambda>d. P (zd_state d)) (zone_descs z)) + (if P (zd_state d') then 1 else 0)"
      using ch length_filter_update [OF i(1), of "\<lambda>d. P (zd_state d)" d'] i(2)
      by (simp add: zone_changed_def)
    have bound: "count_zones P z' < 2 ^ 32"
    proof -
      have "count_zones P z' \<le> length (zone_descs z')" by (rule count_zones_le)
      also have "\<dots> = unat (nr_zones (zp z))" using inv ch by (simp add: zns_inv_def zone_changed_def)
      also have "\<dots> < 2 ^ 32" using unat_less_pow [of "nr_zones (zp z)"] by simp
      finally show ?thesis .
    qed
    have "int (count_zones P z') = int (unat (res_cnt t z)) + k"
      using len old k by (auto simp: count_zones_def flag_def split: if_splits)
    then have "(of_int (int (count_zones P z')) :: u32) = of_int (int (unat (res_cnt t z)) + k)"
      by simp
    then have "(of_nat (count_zones P z') :: u32) = res_cnt t z + word_of_int k"
      by simp
    then show ?thesis using bound unat_of_nat_small [where 'w = 32, of "count_zones P z'"] by simp
  qed
  have "\<forall>d \<in> set (zone_descs z'). zd_zrwav d \<longrightarrow> zd_state d \<noteq> ZONE_STATE_EMPTY"
  proof -
    have "set (zone_descs z') \<subseteq> insert d' (set (zone_descs z))"
      using ch by (simp add: zone_changed_def set_update_subset_insert)
    then show ?thesis using inv e unfolding zns_inv_def by blast
  qed
  then show ?thesis
    using inv ch cnt [OF o, of OPEN_ZONE] cnt [OF a, of ACTIVE_ZONE]
    by (simp add: zns_inv_def zone_changed_def res_cnt_def)
qed

definition writable :: "zone_state \<Rightarrow> bool" where
  "writable s \<longleftrightarrow> is_active s \<or> s = ZONE_STATE_EMPTY"

text \<open>Two zoned devices with the same zones and the same counts.\<close>

definition same_zones :: "zns_ftl \<Rightarrow> zns_ftl \<Rightarrow> bool" where
  "same_zones z z' \<longleftrightarrow> zone_descs z' = zone_descs z \<and> zp z' = zp z \<and> res_infos z' = res_infos z \<and>
     sp (zf_ssd z') = sp (zf_ssd z)"

lemma same_zones_inv: "same_zones z z' \<Longrightarrow> zns_inv z \<Longrightarrow> zns_inv z'"
  by (simp add: same_zones_def zns_inv_def count_zones_def)

lemma same_zones_refl [simp]: "same_zones z z"
  by (simp add: same_zones_def)

text \<open>
  The state machine of a zone: the transitions of the zoned command set that a command of this
  device can take.
\<close>

inductive zone_trans :: "zone_state \<Rightarrow> zone_state \<Rightarrow> bool" where
  trans_open: "s \<in> {ZONE_STATE_EMPTY, ZONE_STATE_CLOSED, ZONE_STATE_OPENED_IMPL, ZONE_STATE_OPENED_EXPL}
    \<Longrightarrow> zone_trans s ZONE_STATE_OPENED_EXPL"
| trans_write: "s \<in> {ZONE_STATE_EMPTY, ZONE_STATE_CLOSED, ZONE_STATE_OPENED_IMPL}
    \<Longrightarrow> zone_trans s ZONE_STATE_OPENED_IMPL"
| trans_close: "is_open s \<Longrightarrow> zone_trans s ZONE_STATE_CLOSED"
| trans_fill: "s = ZONE_STATE_EMPTY \<or> is_active s \<Longrightarrow> zone_trans s ZONE_STATE_FULL"
| trans_reset: "s = ZONE_STATE_EMPTY \<or> s = ZONE_STATE_FULL \<or> is_active s
    \<Longrightarrow> zone_trans s ZONE_STATE_EMPTY"
| trans_offline: "zone_trans ZONE_STATE_READ_ONLY ZONE_STATE_OFFLINE"

inductive_simps zone_trans_simps [simp]:
  "zone_trans s ZONE_STATE_OPENED_EXPL" "zone_trans s ZONE_STATE_OPENED_IMPL"
  "zone_trans s ZONE_STATE_CLOSED" "zone_trans s ZONE_STATE_FULL" "zone_trans s ZONE_STATE_EMPTY"
  "zone_trans s ZONE_STATE_OFFLINE" "zone_trans s ZONE_STATE_READ_ONLY"

text \<open>
  What a command may do to a zone's descriptor: a transition of the state machine that leaves the
  write pointer, resets it to the start, or moves it to behind a block of the zone, where the zone
  is full at its end.
\<close>

definition wp_move :: "u64 option \<Rightarrow> zone_descriptor \<Rightarrow> zone_descriptor \<Rightarrow> bool" where
  "wp_move start d d' \<longleftrightarrow>
     zd_wp d' = zd_wp d \<and> (writable (zd_state d') \<longrightarrow> writable (zd_state d)) \<or>
     zd_state d' = ZONE_STATE_EMPTY \<and> zd_wp d' = zd_zslba d \<or>
     (\<exists>zs lba. start = Some zs \<and> writable (zd_state d) \<and> zd_wp d \<le> lba \<and>
        lba \<le> zs + zd_zone_capacity d - 1 \<and>
        zd_wp d' = lba + 1 \<and> (writable (zd_state d') \<longrightarrow> lba + 1 \<noteq> zs + zd_zone_capacity d))"

definition desc_move :: "zns_ftl \<Rightarrow> nat \<Rightarrow> zone_descriptor \<Rightarrow> zone_descriptor \<Rightarrow> bool" where
  "desc_move z i d d' \<longleftrightarrow> zone_trans\<^sup>=\<^sup>= (zd_state d) (zd_state d') \<and>
     zd_zslba d' = zd_zslba d \<and> zd_zone_capacity d' = zd_zone_capacity d \<and>
     wp_move (zone_to_slba z (of_nat i)) d d'"

definition zone_moves :: "zns_ftl \<Rightarrow> nat \<Rightarrow> zns_ftl \<Rightarrow> bool" where
  "zone_moves z i z' \<longleftrightarrow> same_zones z z' \<or> (\<exists>d d'. get_zd z i = Some d \<and>
     zone_changed z i d' (flag (is_open (zd_state d')) - flag (is_open (zd_state d)))
       (flag (is_active (zd_state d')) - flag (is_active (zd_state d))) z' \<and>
     (zd_zrwav d' \<longrightarrow> zd_state d' \<noteq> ZONE_STATE_EMPTY) \<and> desc_move z i d d')"

lemma zone_moves_refl [simp]: "zone_moves z i z"
  by (simp add: zone_moves_def)

lemma zone_movesI:
  assumes "get_zd z i = Some d"
    and "zone_changed z i d' (flag (is_open (zd_state d')) - flag (is_open (zd_state d)))
       (flag (is_active (zd_state d')) - flag (is_active (zd_state d))) z'"
    and "zone_trans\<^sup>=\<^sup>= (zd_state d) (zd_state d')" "zd_zrwav d' \<Longrightarrow> zd_state d' \<noteq> ZONE_STATE_EMPTY"
    and "zd_zslba d' = zd_zslba d" "zd_zone_capacity d' = zd_zone_capacity d"
    and "wp_move (zone_to_slba z (of_nat i)) d d'"
  shows "zone_moves z i z'"
  using assms unfolding zone_moves_def desc_move_def by blast

lemma zone_moves_inv: "zone_moves z i z' \<Longrightarrow> zns_inv z \<Longrightarrow> zns_inv z'"
  unfolding zone_moves_def using zone_changed_inv same_zones_inv by blast

subsection \<open>The steps the handlers are made of\<close>

lemmas zns_step_defs = zone_changed_def upd_zd_def change_zone_state_def release_zone_resource_def
  upd_res_def release_active_def get_zd_def res_cnt_def

text \<open>A resource that is in use can be given back, one that is not exhausted can be taken.\<close>

lemma acquire_not_full:
  assumes "zns_inv z" "\<not> is_zone_resource_full z t" "t = OPEN_ZONE \<or> t = ACTIVE_ZONE"
  shows "acquire_zone_resource z t = (upd_res t (\<lambda>n. n + 1) z, True)"
proof -
  have "unat (acquired_cnt (res_infos z t)) \<le> unat (nr_zones (zp z))"
    using assms(1,3) count_zones_le by (auto simp: zns_inv_def) (metis count_zones_le)+
  moreover have "total_cnt (res_infos z t) = nr_zones (zp z)" using assms(1) by (simp add: zns_inv_def)
  ultimately show ?thesis
    using assms(2)
    by (auto simp: acquire_zone_resource_def is_zone_resource_avail_def is_zone_resource_full_def
        word_less_nat_alt word_unat_eq_iff)
qed

text \<open>
  The open resource is never exhausted while some zone is not open: the limits are the number of
  zones.
\<close>

lemma not_full_of_zone:
  assumes inv: "zns_inv z" and d: "get_zd z i = Some d"
  shows "\<not> is_open (zd_state d) \<Longrightarrow> \<not> is_zone_resource_full z OPEN_ZONE"
    and "\<not> is_active (zd_state d) \<Longrightarrow> \<not> is_zone_resource_full z ACTIVE_ZONE"
proof -
  have lt: "count_zones P z < length (zone_descs z)" if "\<not> P (zd_state d)" for P
    unfolding count_zones_def using d that
    by (auto simp: get_zd_def arr_simps intro!: length_filter_less)
  show "\<not> is_open (zd_state d) \<Longrightarrow> \<not> is_zone_resource_full z OPEN_ZONE"
    and "\<not> is_active (zd_state d) \<Longrightarrow> \<not> is_zone_resource_full z ACTIVE_ZONE"
    using inv lt [of is_open] lt [of is_active]
    by (auto simp: is_zone_resource_full_def zns_inv_def)
qed

lemma upd_zd_eq:
  "get_zd z i = Some d \<Longrightarrow> upd_zd z i f = Some (z\<lparr>zone_descs := (zone_descs z)[i := f d]\<rparr>)"
  by (auto simp: upd_zd_def get_zd_def arr_simps)

lemma get_zd_simps [simp]:
  "get_zd (upd_res t f z) i = get_zd z i"
  "get_zd (z\<lparr>res_infos := r\<rparr>) i = get_zd z i"
  "get_zd (z\<lparr>zf_storage := st\<rparr>) i = get_zd z i"
  "i < length ds \<Longrightarrow> get_zd (z\<lparr>zone_descs := ds\<rparr>) i = Some (ds ! i)"
  by (auto simp: get_zd_def upd_res_def)

lemma get_zd_less: "get_zd z i = Some d \<Longrightarrow> i < length (zone_descs z)"
  by (simp add: get_zd_def arr_simps)

lemmas handler_defs = change_zone_state_def upd_zd_eq release_zone_resource_def release_active_def
  Let_def get_zd_less

lemmas move_defs = zone_changed_def res_cnt_def flag_def is_active_def is_open_def writable_def
  wp_move_def upd_res_def

lemma close_moves:
  assumes r: "zmgmt_send_close_zone z i = Some (z', st)"
  shows "zone_moves z i z'"
proof -
  from r obtain d where d: "get_zd z i = Some d"
    by (auto simp: zmgmt_send_close_zone_def bind_Some_iff)
  show ?thesis
  proof (cases "is_open (zd_state d)")
    case True
    then show ?thesis
      using r d by (intro zone_movesI [of z i d "d\<lparr>zd_state := ZONE_STATE_CLOSED\<rparr>"])
        (auto simp: zmgmt_send_close_zone_def handler_defs move_defs)
  next
    case False
    then have "z' = z" using r d
      by (auto simp: zmgmt_send_close_zone_def is_open_def split: zone_state.splits)
    then show ?thesis by simp
  qed
qed

lemma finish_moves:
  assumes r: "zmgmt_send_finish_zone z i = Some (z', st)"
  shows "zone_moves z i z'"
proof -
  from r obtain d where d: "get_zd z i = Some d"
    by (auto simp: zmgmt_send_finish_zone_def bind_Some_iff)
  show ?thesis
  proof (cases "writable (zd_state d)")
    case True
    then show ?thesis
      using r d by (intro zone_movesI [of z i d "d\<lparr>zd_state := ZONE_STATE_FULL\<rparr>"])
        (auto simp: zmgmt_send_finish_zone_def handler_defs move_defs)
  next
    case False
    then have "z' = z" using r d
      by (auto simp: zmgmt_send_finish_zone_def move_defs split: zone_state.splits)
    then show ?thesis by simp
  qed
qed

lemma offline_moves:
  assumes r: "zmgmt_send_offline_zone z i = Some (z', st)"
  shows "zone_moves z i z'"
proof -
  from r obtain d where d: "get_zd z i = Some d"
    by (auto simp: zmgmt_send_offline_zone_def bind_Some_iff)
  show ?thesis
  proof (cases "zd_state d = ZONE_STATE_READ_ONLY")
    case True
    then show ?thesis
      using r d by (intro zone_movesI [of z i d "d\<lparr>zd_state := ZONE_STATE_OFFLINE\<rparr>"])
        (auto simp: zmgmt_send_offline_zone_def handler_defs move_defs)
  next
    case False
    then have "z' = z" using r d
      by (auto simp: zmgmt_send_offline_zone_def split: zone_state.splits)
    then show ?thesis by simp
  qed
qed

lemma reset_moves:
  assumes r: "zmgmt_send_reset_zone z i = Some (z', st)"
  shows "zone_moves z i z'"
proof -
  from r obtain d where d: "get_zd z i = Some d"
    by (auto simp: zmgmt_send_reset_zone_def bind_Some_iff)
  show ?thesis
  proof (cases "writable (zd_state d) \<or> zd_state d = ZONE_STATE_FULL")
    case True
    let ?d = "d\<lparr>zd_state := ZONE_STATE_EMPTY, zd_wp := zd_zslba d, zd_zrwav := False\<rparr>"
    have "zone_changed z i ?d (flag False - flag (is_open (zd_state d)))
        (flag False - flag (is_active (zd_state d))) z'"
      using r d True
      by (cases "zd_state d")
        (auto simp: zmgmt_send_reset_zone_def reset_zone_def handler_defs move_defs bind_Some_iff
          split: if_splits)
    then show ?thesis
      using True by (intro zone_movesI [OF d, of ?d]) (auto simp: move_defs)
  next
    case False
    then have "z' = z" using r d
      by (auto simp: zmgmt_send_reset_zone_def move_defs split: zone_state.splits)
    then show ?thesis by simp
  qed
qed

text \<open>
  Opening a zone succeeds from every state but full, read-only and offline, unless no random
  write area is left.
\<close>

lemma open_spec:
  assumes inv: "zns_inv z" and d: "get_zd z i = Some d"
    and r: "zmgmt_send_open_zone z i zrwa = Some (z', st)"
  shows "if zd_state d \<in> {ZONE_STATE_FULL, ZONE_STATE_READ_ONLY, ZONE_STATE_OFFLINE}
      then z' = z \<and> st = SC_ZNS_INVALID_TRANSITION
      else if zd_state d = ZONE_STATE_EMPTY \<and> zrwa \<and> is_zone_resource_full z ZRWA_ZONE
      then z' = z \<and> st = SC_ZNS_ZRWA_RSRC_UNAVAIL
      else st = SC_SUCCESS \<and>
        zone_changed z i (d\<lparr>zd_state := ZONE_STATE_OPENED_EXPL,
            zd_zrwav := (zd_zrwav d \<or> zd_state d = ZONE_STATE_EMPTY \<and> zrwa)\<rparr>)
          (flag True - flag (is_open (zd_state d))) (flag True - flag (is_active (zd_state d))) z'"
proof (cases "zd_state d")
  case ZONE_STATE_EMPTY
  have full: "\<not> is_zone_resource_full z OPEN_ZONE" "\<not> is_zone_resource_full z ACTIVE_ZONE"
    using not_full_of_zone [OF inv d] ZONE_STATE_EMPTY by (auto simp: is_open_def is_active_def)
  note acq = acquire_not_full [OF inv full(1)] acquire_not_full [OF inv full(2)]
  have av: "acquired_cnt (res_infos z OPEN_ZONE) < total_cnt (res_infos z OPEN_ZONE)"
    and aa: "acquired_cnt (res_infos z ACTIVE_ZONE) < total_cnt (res_infos z ACTIVE_ZONE)"
    using acq by (auto simp: acquire_zone_resource_def is_zone_resource_avail_def split: if_splits)
  show ?thesis
    using r d ZONE_STATE_EMPTY full av aa get_zd_less [OF d]
    by (auto simp: zmgmt_send_open_zone_def open_from_closed_def acquire_zone_resource_def
        is_zone_resource_avail_def handler_defs upd_res_def zone_changed_def res_cnt_def flag_def
        is_open_def is_active_def split: if_splits) (cases d; simp)+
next
  case ZONE_STATE_CLOSED
  have full: "\<not> is_zone_resource_full z OPEN_ZONE"
    using not_full_of_zone [OF inv d] ZONE_STATE_CLOSED by (auto simp: is_open_def)
  note acq = acquire_not_full [OF inv full]
  show ?thesis
    using r d ZONE_STATE_CLOSED acq
    by (auto simp: zmgmt_send_open_zone_def open_from_closed_def handler_defs upd_res_def
        zone_changed_def res_cnt_def flag_def is_open_def is_active_def)
next
  case ZONE_STATE_OPENED_EXPL
  then have "(zone_descs z)[i := d\<lparr>zd_state := ZONE_STATE_OPENED_EXPL\<rparr>] = zone_descs z"
    using d by (cases d) (auto simp: get_zd_def arr_simps list_update_same_conv)
  then show ?thesis
    using r d ZONE_STATE_OPENED_EXPL
    by (auto simp: zmgmt_send_open_zone_def zone_changed_def res_cnt_def flag_def
        is_open_def is_active_def)
qed (use r d in \<open>auto simp: zmgmt_send_open_zone_def handler_defs zone_changed_def res_cnt_def flag_def
        is_open_def is_active_def\<close>)

lemma open_moves:
  assumes inv: "zns_inv z" and r: "zmgmt_send_open_zone z i zrwa = Some (z', st)"
  shows "zone_moves z i z'"
proof -
  from r obtain d where d: "get_zd z i = Some d"
    by (auto simp: zmgmt_send_open_zone_def bind_Some_iff)
  let ?d = "d\<lparr>zd_state := ZONE_STATE_OPENED_EXPL,
            zd_zrwav := (zd_zrwav d \<or> zd_state d = ZONE_STATE_EMPTY \<and> zrwa)\<rparr>"
  consider (same) "z' = z" | (ch) "writable (zd_state d)"
      "zone_changed z i ?d (flag True - flag (is_open (zd_state d))) (flag True - flag (is_active (zd_state d))) z'"
    using open_spec [OF inv d r]
    by (cases "zd_state d") (simp_all add: writable_def is_active_def is_open_def split: if_split_asm)
  then show ?thesis
  proof cases
    case same
    then show ?thesis by simp
  next
    case ch
    then show ?thesis
      by (intro zone_movesI [OF d, of ?d]) (auto simp: flag_def is_active_def is_open_def writable_def wp_move_def)
  qed
qed

lemma flush_zrwa_moves:
  assumes r: "zmgmt_send_flush_explicit_zrwa z slba = Some (z', st)"
  shows "\<exists>i. zone_moves z i z'"
proof -
  from r obtain zid32 d zslba where zid: "lba_to_zone z slba = Some zid32"
    and d: "get_zd z (unat zid32) = Some d" and zs: "zone_to_slba z zid32 = Some zslba"
    by (auto simp: zmgmt_send_flush_explicit_zrwa_def bind_Some_iff Let_def)
  let ?i = "unat zid32" and ?lim = "zslba + zd_zone_capacity d"
  let ?d = "d\<lparr>zd_wp := slba + 1\<rparr>" and ?full = "d\<lparr>zd_wp := slba + 1, zd_state := ZONE_STATE_FULL\<rparr>"
  let ?ch = "\<lambda>d'. zone_changed z ?i d' (flag (is_open (zd_state d')) - flag (is_open (zd_state d)))
       (flag (is_active (zd_state d')) - flag (is_active (zd_state d))) z'"
  define lim where "lim = min (zd_wp d + ucast (lbas_per_zrwa (zp z)) - 1) (?lim - 1)"
  have r': "(if \<not> zd_zrwav d then Some (z, SC_ZNS_INVALID_ZONE_OPERATION)
     else if \<not> (zd_wp d \<le> slba \<and> slba \<le> lim) then Some (z, SC_ZNS_INVALID_ZONE_OPERATION)
     else do {
       r \<leftarrow> umod (slba - zd_wp d + 1) (ucast (lbas_per_zrwafg (zp z)));
       if r \<noteq> 0 then Some (z, SC_INVALID_FIELD)
       else if zd_state d \<in> {ZONE_STATE_OPENED_EXPL, ZONE_STATE_OPENED_IMPL, ZONE_STATE_CLOSED}
       then do {
         z \<leftarrow> upd_zd z ?i (\<lambda>d. d\<lparr>zd_wp := slba + 1\<rparr>);
         if slba + 1 = ?lim
         then do {
           let z = (if zd_state d \<noteq> ZONE_STATE_CLOSED then release_zone_resource z OPEN_ZONE else z);
           z \<leftarrow> change_zone_state (release_active z True) ?i ZONE_STATE_FULL;
           Some (z, SC_SUCCESS)
         }
         else Some (z, SC_SUCCESS)
       }
       else Some (z, SC_ZNS_INVALID_ZONE_OPERATION)
     }) = Some (z', st)"
    using r by (simp only: zmgmt_send_flush_explicit_zrwa_def zid d zs Let_def Option.bind.simps lim_def)
  have bounds: "z' = z \<or> zd_wp d \<le> slba \<and> slba \<le> ?lim - 1 \<and> is_active (zd_state d)"
  proof (cases "zd_wp d \<le> slba \<and> slba \<le> lim \<and> is_active (zd_state d)")
    case True
    then show ?thesis by (simp add: lim_def)
  next
    case False
    then show ?thesis
      using r' by (auto simp: is_active_def is_open_def bind_Some_iff split: if_split_asm)
  qed
  have "z' = z \<or> (if slba + 1 = ?lim then ?ch ?full else ?ch ?d)"
  proof (cases "slba + 1 = ?lim")
    case True
    show ?thesis
      using r' d get_zd_less [OF d] unfolding True if_True
      by (auto simp: handler_defs upd_res_def zone_changed_def res_cnt_def flag_def
        is_active_def is_open_def bind_Some_iff split: if_split_asm)
  next
    case False
    then show ?thesis
      using r' d get_zd_less [OF d]
      by (auto simp: upd_zd_eq zone_changed_def res_cnt_def flag_def bind_Some_iff split: if_split_asm)
  qed
  with bounds consider (same) "z' = z"
    | (part) "zd_wp d \<le> slba" "slba \<le> ?lim - 1" "slba + 1 \<noteq> ?lim" "is_active (zd_state d)" "?ch ?d"
    | (full) "zd_wp d \<le> slba" "slba \<le> ?lim - 1" "is_active (zd_state d)" "?ch ?full"
    by (cases "slba + 1 = ?lim") auto
  then have "zone_moves z ?i z'"
  proof cases
    case same
    then show ?thesis by simp
  next
    case part
    then show ?thesis
      by (intro zone_movesI [OF d part(5)]) (auto simp: wp_move_def writable_def zs is_active_def is_open_def)
  next
    case full
    then show ?thesis
      by (intro zone_movesI [OF d full(4)]) (auto simp: wp_move_def writable_def zs is_active_def is_open_def)
  qed
  then show ?thesis by blast
qed

lemma zmgmt_send_moves:
  assumes "zns_inv z" "zmgmt_send junk z slba action opt = Some (z', st)"
  shows "\<exists>i. zone_moves z i z'"
proof -
  have "(\<exists>i. zmgmt_send_close_zone z i = Some (z', st)) \<or> (\<exists>i. zmgmt_send_finish_zone z i = Some (z', st)) \<or>
      (\<exists>i o'. zmgmt_send_open_zone z i o' = Some (z', st)) \<or>
      (\<exists>i. zmgmt_send_reset_zone z i = Some (z', st)) \<or>
      (\<exists>i. zmgmt_send_offline_zone z i = Some (z', st)) \<or>
      zmgmt_send_flush_explicit_zrwa z slba = Some (z', st) \<or> z' = z"
    using assms(2) unfolding zmgmt_send_def Let_def bind_Some_iff
    by (elim exE conjE) (simp split: if_split_asm; blast)
  then show ?thesis
    using assms(1)
    by (elim disjE exE)
      (rule exI, erule close_moves | rule exI, erule finish_moves | rule exI, erule (1) open_moves
        | rule exI, erule reset_moves | rule exI, erule offline_moves | erule flush_zrwa_moves
        | simp)+
qed

lemma zmgmt_send_one_inv:
  assumes "zns_inv z" "zmgmt_send junk z slba action opt = Some (z', st)"
  shows "zns_inv z'"
  using zmgmt_send_moves [OF assms] assms(1) zone_moves_inv by blast

lemma zns_zmgmt_send_keeps:
  assumes "zns_inv z" "zns_zmgmt_send junk z cmd = Some (z', st)"
  shows "zns_inv z'"
proof (cases "zs_select_all cmd")
  case True
  let ?step = "\<lambda>zid z. do {
       slba \<leftarrow> zone_to_slba z (of_nat zid);
       (z, _) \<leftarrow> zmgmt_send junk z slba (zs_zsa cmd) (zs_zsaso cmd);
       Some z }"
  have "fold_opt ?step [0..<unat (nr_zones (zp z))] z = Some z'"
    using assms(2) True by (auto simp: zns_zmgmt_send_def bind_Some_iff)
  then show ?thesis
    using assms(1) by (rule fold_opt_invariant) (auto simp: bind_Some_iff intro: zmgmt_send_one_inv)
next
  case False
  then show ?thesis
    using assms zmgmt_send_one_inv by (auto simp: zns_zmgmt_send_def bind_Some_iff)
qed

subsection \<open>The write path\<close>

lemma upd_ch_sp: "upd_ch ssd p f = Some ssd' \<Longrightarrow> sp ssd' = sp ssd"
  by (auto simp: upd_ch_def)

lemma upd_lun_sp: "upd_lun ssd p f = Some ssd' \<Longrightarrow> sp ssd' = sp ssd"
  by (auto simp: upd_lun_def dest: upd_ch_sp)

lemma ssd_advance_nand_sp: "ssd_advance_nand ssd dv c = Some (ssd', dv', t) \<Longrightarrow> sp ssd' = sp ssd"
  by (auto simp: ssd_advance_nand_def Let_def bind_Some_iff split: if_split_asm prod.splits
      dest!: upd_ch_sp upd_lun_sp)

lemma alloc_buf_same:
  "alloc_buf z dv b n = Some (z', dv', got) \<Longrightarrow> same_zones z z' \<and> zf_ssd z' = zf_ssd z"
  by (cases b) (auto simp: alloc_buf_def write_buf_def same_zones_def bind_Some_iff)

lemma program_units_same:
  assumes "program_units q t b ze e l s = Some s'"
  shows "same_zones (fst s) (fst s')"
proof (rule program_units.raw_induct
    [where P = "\<lambda>q t b ze e l s s'. same_zones (fst s) (fst s')", OF _ assms], goal_cases)
  case (1 f q t b ze e l s s')
  show ?case
    using 1(2)
    by (cases s) (auto simp: Let_def bind_Some_iff same_zones_def dest!: 1(1) ssd_advance_nand_sp
        split: if_split_asm)
qed

lemma program_flushed_same:
  assumes "program_flushed q t i l r s = Some s'"
  shows "same_zones (fst s) (fst s')"
proof (rule program_flushed.raw_induct
    [where P = "\<lambda>q t i l r s s'. same_zones (fst s) (fst s')", OF _ assms], goal_cases)
  case (1 f q t i l r s s')
  show ?case
    using 1(2)
    by (cases s) (auto simp: Let_def bind_Some_iff same_zones_def dest!: 1(1) ssd_advance_nand_sp
        split: if_split_asm)
qed

text \<open>Every result of the switch leaves the invariant; success leaves the zone open.\<close>

lemma open_for_write_spec:
  assumes inv: "zns_inv z" and d: "get_zd z i = Some d"
    and r: "open_for_write z i slba = Some (z', st)"
  shows "zns_inv z' \<and> zp z' = zp z \<and> (st \<noteq> SC_SUCCESS \<longrightarrow> z' = z) \<and>
    (st = SC_SUCCESS \<longrightarrow> writable (zd_state d) \<and>
      (\<exists>s. is_open s \<and> zone_trans\<^sup>=\<^sup>= (zd_state d) s \<and>
        zone_descs z' = (zone_descs z)[i := d\<lparr>zd_state := s\<rparr>]))"
proof -
  have keep: "(zone_descs z)[i := d\<lparr>zd_state := zd_state d\<rparr>] = zone_descs z"
    using d by (cases d) (auto simp: get_zd_def arr_simps list_update_same_conv)
  consider (err) "z' = z" "st \<noteq> SC_SUCCESS"
    | (stay) "z' = z" "is_open (zd_state d)"
    | (ch) "st = SC_SUCCESS" "writable (zd_state d)" "zd_state d \<noteq> ZONE_STATE_OPENED_EXPL"
        "zone_changed z i (d\<lparr>zd_state := ZONE_STATE_OPENED_IMPL\<rparr>)
        (flag True - flag (is_open (zd_state d))) (flag True - flag (is_active (zd_state d))) z'"
  proof (cases "zd_state d")
    case ZONE_STATE_EMPTY
    have full: "\<not> is_zone_resource_full z OPEN_ZONE" "\<not> is_zone_resource_full z ACTIVE_ZONE"
      using not_full_of_zone [OF inv d] ZONE_STATE_EMPTY by (auto simp: is_open_def is_active_def)
    note acq = acquire_not_full [OF inv full(1)] acquire_not_full [OF inv full(2)]
    have av: "acquired_cnt (res_infos z OPEN_ZONE) < total_cnt (res_infos z OPEN_ZONE)"
      and aa: "acquired_cnt (res_infos z ACTIVE_ZONE) < total_cnt (res_infos z ACTIVE_ZONE)"
      using acq by (auto simp: acquire_zone_resource_def is_zone_resource_avail_def split: if_splits)
    show ?thesis
      using that r d ZONE_STATE_EMPTY full av aa
      by (auto simp: open_for_write_def acquire_zone_resource_def is_zone_resource_avail_def
          handler_defs writable_def upd_res_def zone_changed_def res_cnt_def flag_def is_open_def is_active_def
          cdefs split: if_splits)
  next
    case ZONE_STATE_CLOSED
    have full: "\<not> is_zone_resource_full z OPEN_ZONE"
      using not_full_of_zone [OF inv d] ZONE_STATE_CLOSED by (auto simp: is_open_def)
    show ?thesis
      using that r d ZONE_STATE_CLOSED acquire_not_full [OF inv full]
      by (auto simp: open_for_write_def handler_defs  writable_def upd_res_def zone_changed_def res_cnt_def
          flag_def is_open_def is_active_def)
  qed (use that r d in \<open>auto simp: open_for_write_def is_open_def cdefs\<close>)
  then show ?thesis
  proof cases
    case stay
    then show ?thesis using inv keep by (auto simp: writable_def is_active_def intro!: exI [of _ "zd_state d"])
  next
    case ch
    then have "zns_inv z'"
      by (intro zone_changed_inv [OF inv d ch(4)]) (auto simp: flag_def is_active_def is_open_def)
    then show ?thesis using ch
      by (auto simp: zone_changed_def is_open_def writable_def is_active_def
        intro!: exI [of _ ZONE_STATE_OPENED_IMPL])
  qed (use inv in auto)
qed

lemma increase_write_ptr_spec:
  assumes d: "get_zd z (unat zid) = Some d" and op: "is_open (zd_state d)"
    and r: "increase_write_ptr z zid n = Some z'"
  shows "\<exists>zslba. zone_to_slba z zid = Some zslba \<and>
    (if zd_wp d + arg32 n = zslba + zd_zone_capacity d
     then zone_changed z (unat zid) (d\<lparr>zd_wp := zd_wp d + arg32 n, zd_state := ZONE_STATE_FULL\<rparr>)
        (flag False - flag (is_open (zd_state d))) (flag False - flag (is_active (zd_state d))) z'
     else zone_changed z (unat zid) (d\<lparr>zd_wp := zd_wp d + arg32 n\<rparr>) 0 0 z')"
proof -
  from r d obtain zslba where zs: "zone_to_slba z zid = Some zslba"
    by (auto simp: increase_write_ptr_def handler_defs bind_Some_iff zone_to_slba_def)
  then have "zone_to_slba (z\<lparr>zone_descs := ds\<rparr>) zid = Some zslba" for ds
    by (simp add: zone_to_slba_def)
  then show ?thesis
    using r d op zs get_zd_less [OF d]
    by (auto simp: increase_write_ptr_def handler_defs upd_res_def zone_changed_def
        res_cnt_def flag_def is_active_def split: if_split_asm)
qed

lemma increase_write_ptr_inv:
  assumes inv: "zns_inv z" and d: "get_zd z (unat zid) = Some d" and op: "is_open (zd_state d)"
    and r: "increase_write_ptr z zid n = Some z'"
  shows "zns_inv z'"
proof -
  let ?d = "d\<lparr>zd_wp := zd_wp d + arg32 n\<rparr>"
  consider (part) "zone_changed z (unat zid) ?d 0 0 z'"
    | (full) "zone_changed z (unat zid) (?d\<lparr>zd_state := ZONE_STATE_FULL\<rparr>)
        (flag False - flag (is_open (zd_state d))) (flag False - flag (is_active (zd_state d))) z'"
    using increase_write_ptr_spec [OF d op r] by (auto split: if_splits)
  then show ?thesis
  proof cases
    case part
    then show ?thesis using op by (intro zone_changed_inv [OF inv d part]) (auto simp: is_open_def)
  next
    case full
    then show ?thesis
      by (intro zone_changed_inv [OF inv d full]) (auto simp: flag_def is_active_def is_open_def)
  qed
qed

text \<open>
  The sequential write: an error leaves all zones as they were; a success starts at the write
  pointer, opens the zone and moves the pointer.
\<close>

lemma open_for_write_ssd: "open_for_write z i slba = Some (z', st) \<Longrightarrow> zf_ssd z' = zf_ssd z"
proof -
  assume r: "open_for_write z i slba = Some (z', st)"
  then obtain d where "get_zd z i = Some d" by (auto simp: open_for_write_def bind_Some_iff)
  then show ?thesis using r
    by (cases "zd_state d")
      (auto simp: open_for_write_def acquire_zone_resource_def handler_defs upd_res_def
        split: if_split_asm)
qed

lemma same_zones_lookup:
  "same_zones z z' \<Longrightarrow> get_zd z' i = get_zd z i"
  "same_zones z z' \<Longrightarrow> zf_ssd z' = zf_ssd z \<Longrightarrow> check_boundary_error z' a n = check_boundary_error z a n"
  "same_zones z z' \<Longrightarrow> zf_ssd z' = zf_ssd z \<Longrightarrow> lba_to_zone z' a = lba_to_zone z a"
  by (simp_all add: same_zones_def get_zd_def check_boundary_error_def lba_to_zone_def)

lemma check_write_success:
  assumes "check_write z i slba n = Some SC_SUCCESS" "get_zd z i = Some d"
  shows "slba = zd_wp d \<and> check_boundary_error z slba n = Some True"
  using assms by (auto simp: check_write_def bind_Some_iff cdefs split: if_splits)

lemma same_zones_trans: "same_zones z z1 \<Longrightarrow> same_zones z1 z2 \<Longrightarrow> same_zones z z2"
  by (simp add: same_zones_def)

lemma zns_write_seq_cases:
  assumes inv: "zns_inv z"
    and r: "zns_write_seq z dv sq t cmd ret = Some (z', dv', cmd', ret', ok)"
  obtains (error) "same_zones z z'" "ok \<longrightarrow> zret_status ret' \<noteq> SC_SUCCESS"
  | (written) zid d s z1 z2 where "lba_to_zone z (zc_slba cmd) = Some zid"
      "get_zd z (unat zid) = Some d" "writable (zd_state d)" "is_open s"
      "zone_trans\<^sup>=\<^sup>= (zd_state d) s" "zns_inv z1" "zp z1 = zp z" "zf_ssd z1 = zf_ssd z"
      "zone_descs z1 = (zone_descs z)[unat zid := d\<lparr>zd_state := s\<rparr>]"
      "cmd' = (if zc_append cmd then cmd\<lparr>zc_slba := zd_wp d\<rparr> else cmd)" "zc_slba cmd' = zd_wp d"
      "check_boundary_error z (zd_wp d) (ucast (nr_lbas_from_rw_cmd cmd)) = Some True"
      "increase_write_ptr z1 zid (ucast (nr_lbas_from_rw_cmd cmd)) = Some z2" "same_zones z2 z'"
      "ok" "zret_status ret' = SC_SUCCESS"
proof -
  let ?n = "ucast (nr_lbas_from_rw_cmd cmd) :: u64"
  from r obtain zid d slpn elpn zel za dva got where
    zid: "lba_to_zone z (zc_slba cmd) = Some zid" and d: "get_zd z (unat zid) = Some d"
    and al: "alloc_buf z dv (zone_buf z (unat zid)) (lba_bytes ?n) = Some (za, dva, got)"
    and rest: "(let cmd = (if zc_append cmd then cmd\<lparr>zc_slba := zd_wp d\<rparr> else cmd); slba = zc_slba cmd;
          spp = sp (zf_ssd z) in
       if ucast got < lba_bytes ?n then Some (za, dva, cmd, ret, False)
       else do {
         st \<leftarrow> check_write za (unat zid) slba ?n;
         if st \<noteq> SC_SUCCESS then Some (za, dva, cmd, zns_answer spp cmd st t t, True)
         else do {
           (z, st) \<leftarrow> open_for_write za (unat zid) slba;
           if st \<noteq> SC_SUCCESS
           then Some (z, dva, cmd, zns_answer spp cmd st t t, True)
           else do {
             z \<leftarrow> increase_write_ptr z zid ?n;
             (dv, xfer) \<leftarrow> ssd_advance_write_buffer (zf_ssd z) dva t (lba_bytes ?n);
             (z, dv, latest) \<leftarrow>
               program_units sq xfer (zone_buf z (unat zid)) zel elpn slpn (z, dv, xfer);
             Some (z, dv, cmd, zns_answer spp cmd SC_SUCCESS latest xfer, True)
           }
         }
       }) = Some (z', dv', cmd', ret', ok)"
    by (auto simp: zns_write_seq_def Let_def bind_Some_iff)
  define c where "c = (if zc_append cmd then cmd\<lparr>zc_slba := zd_wp d\<rparr> else cmd)"
  have same: "same_zones z za" "zf_ssd za = zf_ssd z" using alloc_buf_same [OF al] by auto
  have da: "get_zd za (unat zid) = Some d" using d same by (simp add: same_zones_lookup)
  have inva: "zns_inv za" using same_zones_inv [OF same(1) inv] .
  have ans: "zret_status (zns_answer spp c st x y) = st" for spp c st x y
    by (simp add: zns_answer_def)
  show thesis
  proof (cases "ucast got < lba_bytes ?n")
    case True
    then show ?thesis using rest error same by (simp add: Let_def)
  next
    case False
    then obtain st where st: "check_write za (unat zid) (zc_slba c) ?n = Some st"
      using rest by (auto simp: Let_def bind_Some_iff c_def [symmetric])
    show ?thesis
    proof (cases "st = SC_SUCCESS")
      case ok: False
      then show ?thesis using rest False st error same ans
        by (auto simp: Let_def c_def [symmetric])
    next
      case True
      then obtain z1 st' where op: "open_for_write za (unat zid) (zc_slba c) = Some (z1, st')"
        using rest False st by (auto simp: Let_def bind_Some_iff c_def [symmetric])
      note os = open_for_write_spec [OF inva da op]
      show ?thesis
      proof (cases "st' = SC_SUCCESS")
        case ok: False
        then show ?thesis using rest False st True op os error same ans
          by (auto simp: Let_def c_def [symmetric])
      next
        case ok: True
        from rest False st True op ok obtain z2 dvb xfer dvc lat where
          inc: "increase_write_ptr z1 zid ?n = Some z2"
          and pu: "program_units sq xfer (zone_buf z2 (unat zid)) zel elpn slpn (z2, dvb, xfer) =
            Some (z', dvc, lat)"
          and fin: "cmd' = c" "ok" "ret' = zns_answer (sp (zf_ssd z)) c SC_SUCCESS lat xfer"
          by (auto simp: Let_def bind_Some_iff c_def [symmetric])
        obtain s where s: "is_open s" "zone_descs z1 = (zone_descs za)[unat zid := d\<lparr>zd_state := s\<rparr>]"
          and tr: "zone_trans\<^sup>=\<^sup>= (zd_state d) s"
          using os ok by blast
        have cw: "zc_slba c = zd_wp d" "check_boundary_error za (zc_slba c) ?n = Some True"
          using check_write_success [OF _ da, of "zc_slba c" ?n] st True by auto
        have wr: "writable (zd_state d)" using os ok by blast
        have "same_zones z2 z'" using program_units_same [OF pu] by simp
        moreover have "zone_descs z1 = (zone_descs z)[unat zid := d\<lparr>zd_state := s\<rparr>]" "zp z1 = zp z"
          using s(2) same os by (auto simp: same_zones_def)
        moreover have "zf_ssd z1 = zf_ssd z" using open_for_write_ssd [OF op] same by simp
        moreover have "check_boundary_error z (zd_wp d) ?n = Some True"
          using cw same by (simp add: same_zones_lookup)
        ultimately show ?thesis
          using written [of zid d s z1 z2] zid d wr s(1) tr os fin cw inc ans by (simp add: c_def)
      qed
    qed
  qed
qed

lemma zns_write_seq_inv:
  assumes inv: "zns_inv z"
    and r: "zns_write_seq z dv sq t cmd ret = Some (z', dv', cmd', ret', ok)"
  shows "zns_inv z'"
proof (rule zns_write_seq_cases [OF inv r])
  assume "same_zones z z'"
  then show ?thesis using inv by (rule same_zones_inv)
next
  fix zid :: u32 and d s z1 z2
  assume d: "get_zd z (unat zid) = Some d" and s: "is_open s" and z1: "zns_inv z1"
    and ds: "zone_descs z1 = (zone_descs z)[unat zid := d\<lparr>zd_state := s\<rparr>]"
    and inc: "increase_write_ptr z1 zid (ucast (nr_lbas_from_rw_cmd cmd)) = Some z2"
    and same: "same_zones z2 z'"
  have d1: "get_zd z1 (unat zid) = Some (d\<lparr>zd_state := s\<rparr>)"
    using get_zd_less [OF d] by (simp add: get_zd_def ds)
  have "zns_inv z2" using s by (intro increase_write_ptr_inv [OF z1 d1 _ inc]) simp
  with same show ?thesis by (rule same_zones_inv)
qed

text \<open>The write through a random write area; its zone is not empty.\<close>

lemma open_for_zrwa_spec:
  assumes inv: "zns_inv z" and d: "get_zd z i = Some d" and zr: "zd_zrwav d"
    and r: "open_for_zrwa z dv i = Some (z', dv', st)"
  shows "zns_inv z' \<and> (st = SC_SUCCESS \<longrightarrow> (\<exists>d'. get_zd z' i = Some d' \<and> is_open (zd_state d')))"
proof -
  have ne: "zd_state d \<noteq> ZONE_STATE_EMPTY"
    using inv d zr by (auto simp: zns_inv_def get_zd_def arr_simps)
  show ?thesis
  proof (cases "zd_state d = ZONE_STATE_CLOSED")
    case False
    then have "z' = z \<and> (st = SC_SUCCESS \<longrightarrow> is_open (zd_state d))"
      using r d ne by (cases "zd_state d") (auto simp: open_for_zrwa_def is_open_def cdefs)
    then show ?thesis using inv d by auto
  next
    case True
    have full: "\<not> is_zone_resource_full z OPEN_ZONE"
      using not_full_of_zone [OF inv d] True by (auto simp: is_open_def)
    let ?z = "upd_res OPEN_ZONE (\<lambda>n. n + 1) z"
    obtain za dva got where
      al: "alloc_buf ?z dv (ZRWA_BUFFER i) (ucast (zrwa_size (zp ?z))) = Some (za, dva, got)"
      and st: "change_zone_state za i ZONE_STATE_OPENED_IMPL = Some z'" "st = SC_SUCCESS"
      using r d True acquire_not_full [OF inv full]
      by (auto simp: open_for_zrwa_def bind_Some_iff Let_def split: if_split_asm)
    have same: "same_zones ?z za" using alloc_buf_same [OF al] by simp
    have da: "get_zd za i = Some d" using d same by (simp add: same_zones_lookup)
    let ?d = "d\<lparr>zd_state := ZONE_STATE_OPENED_IMPL\<rparr>"
    have z': "z' = za\<lparr>zone_descs := (zone_descs za)[i := ?d]\<rparr>"
      using st(1) da by (simp add: change_zone_state_def upd_zd_eq)
    have ch: "zone_changed z i ?d 1 0 z'"
      using same unfolding z' by (auto simp: zone_changed_def same_zones_def upd_res_def res_cnt_def)
    have "zns_inv z'"
      using True by (intro zone_changed_inv [OF inv d ch]) (auto simp: flag_def is_active_def is_open_def)
    moreover have "get_zd z' i = Some ?d" using get_zd_less [OF da] by (simp add: z')
    ultimately show ?thesis by (auto simp: is_open_def)
  qed
qed

lemma zns_write_zrwa_inv:
  assumes inv: "zns_inv z" and zid: "lba_to_zone z (zc_slba cmd) = Some zid"
    and d: "get_zd z (unat zid) = Some d" and zr: "zd_zrwav d"
    and r: "zns_write_zrwa z dv sq t cmd ret = Some (z', dv', cmd', ret', ok)"
  shows "zns_inv z'"
proof -
  let ?n = "ucast (nr_lbas_from_rw_cmd cmd) :: u64"
  obtain st where st: "check_write_zrwa z (unat zid) (zc_slba cmd) ?n = Some st"
    using r zid d by (auto simp: zns_write_zrwa_def Let_def bind_Some_iff)
  show ?thesis
  proof (cases "st = SC_SUCCESS")
    case False
    then show ?thesis using r zid d st inv by (auto simp: zns_write_zrwa_def Let_def)
  next
    case True
    obtain z1 dv1 st1 where op: "open_for_zrwa z dv (unat zid) = Some (z1, dv1, st1)"
      using r zid d st True by (auto simp: zns_write_zrwa_def Let_def bind_Some_iff)
    note os = open_for_zrwa_spec [OF inv d zr op]
    show ?thesis
    proof (cases "st1 = SC_SUCCESS")
      case False
      then show ?thesis using r zid d st True op os by (auto simp: zns_write_zrwa_def Let_def)
    next
      case ok1: True
      then obtain d1 where d1: "get_zd z1 (unat zid) = Some d1" "is_open (zd_state d1)" using os by auto
      note known = r zid d st True op ok1
      obtain nf where nf: "zrwa_flush_len z1 zid (zd_wp d) (zc_slba cmd + ?n - 1) = Some nf"
        using known by (auto simp: zns_write_zrwa_def Let_def bind_Some_iff)
      obtain z2 dv2 got where
        al: "(if 0 < nf then alloc_buf z1 dv1 (ZRWA_BUFFER (unat zid)) (lba_bytes nf)
              else Some (z1, dv1, 1)) = Some (z2, dv2, got)"
        using known nf by (auto simp: zns_write_zrwa_def Let_def bind_Some_iff)
      have none: "z' = z2" if "got = 0"
        using known nf al that by (simp add: zns_write_zrwa_def Let_def)
      have rest: "\<exists>z3 dv3 xfer lpn rem lat.
           (if 0 < nf then increase_write_ptr z2 zid nf else Some z2) = Some z3 \<and>
           program_flushed sq xfer (unat zid) lpn rem (z3, dv3, xfer) = Some (z', dv', lat)"
        if "got \<noteq> 0"
        using known nf al that
        by (cases "0 < nf") (clarsimp simp: zns_write_zrwa_def Let_def bind_Some_iff; blast)+
      have same: "same_zones z1 z2"
        using al alloc_buf_same by (auto split: if_split_asm)
      have inv2: "zns_inv z2" using os same same_zones_inv by blast
      have d2: "get_zd z2 (unat zid) = Some d1" using d1(1) same by (simp add: same_zones_lookup)
      show ?thesis
      proof (cases "got = 0")
        case True
        then show ?thesis using none inv2 by simp
      next
        case False
        then obtain z3 dv3 xfer lpn rem lat where
          inc: "(if 0 < nf then increase_write_ptr z2 zid nf else Some z2) = Some z3"
          and pf: "program_flushed sq xfer (unat zid) lpn rem (z3, dv3, xfer) = Some (z', dv', lat)"
          using rest by blast
        have "zns_inv z3"
          using inc inv2 increase_write_ptr_inv [OF inv2 d2 d1(2)] by (auto split: if_split_asm)
        then show ?thesis using program_flushed_same [OF pf] same_zones_inv by simp
      qed
    qed
  qed
qed

text \<open>The zone found through pages is the zone found through blocks.\<close>

lemma lpn_zone_is_lba_zone:
  assumes geo: "zns_geo (sp (zf_ssd z)) (zp z)"
    and l: "lba_to_lpn z lba = Some lpn" and r: "lpn_to_zone z lpn = Some zid"
  shows "lba_to_zone z lba = Some zid"
proof -
  let ?spp = "sp (zf_ssd z)" and ?zs = "unat (zone_size (zp z))"
  define k where "k = ?zs div pgsz ?spp"
  have zs: "?zs = k * secs_per_pg ?spp * secsz ?spp" and zs0: "0 < ?zs"
    using geo by (auto simp: zns_geo_def k_def unat_gt_0 dvd_div_mult_self mult.commute mult.left_commute)
  have lt: "?zs < 2 ^ 32" using unat_less_pow [of "zone_size (zp z)"] by simp
  have pos: "0 < k" "0 < secs_per_pg ?spp" "0 < secsz ?spp" using zs zs0 by auto
  have le: "secs_per_pg ?spp \<le> ?zs" "secsz ?spp \<le> ?zs" "pgsz ?spp \<le> ?zs" "k * secs_per_pg ?spp \<le> ?zs"
    using zs0 zs pos geo by (auto simp: zns_geo_def dest: dvd_imp_le)
  have u32: "unat (of_nat n :: u32) = n" if "n \<le> ?zs" for n using that lt by (simp add: unat_of_nat_small)
  have nz: "(of_nat n :: u32) \<noteq> 0" if "n \<le> ?zs" "0 < n" for n
    using u32 [OF that(1)] that(2) by (metis unat_0 less_irrefl)
  have s64: "unat (of_nat (secs_per_pg ?spp) :: u64) = secs_per_pg ?spp"
    using le(1) lt by (simp add: unat_of_nat_small)
  have s64nz: "(of_nat (secs_per_pg ?spp) :: u64) \<noteq> 0"
    using s64 pos(2) by (metis unat_0 less_irrefl)
  have lpn: "unat lpn = unat lba div secs_per_pg ?spp"
    using l s64nz s64 by (auto simp: lba_to_lpn_def udiv_def unat_div)
  define m where "m = zone_size (zp z) div of_nat (pgsz ?spp)"
  define n where "n = zone_size (zp z) div of_nat (secsz ?spp)"
  have m: "unat m = k" using u32 [OF le(3)] by (simp add: m_def unat_div k_def)
  have n: "unat n = k * secs_per_pg ?spp"
    using u32 [OF le(2)] zs pos(3) by (simp add: n_def unat_div)
  have pg0: "0 < pgsz ?spp" using geo by (simp add: zns_geo_def)
  have n0: "(ucast n :: u64) \<noteq> 0" "(ucast m :: u64) \<noteq> 0"
    using n m pos by (auto simp: word_unat_eq_iff unat_ucast_up)
  have zid: "zid = ucast (lpn div ucast m)"
    using r n0 nz [OF le(3) pg0] by (auto simp: lpn_to_zone_def udiv_def m_def [symmetric] bind_Some_iff split: if_split_asm)
  have "lpn div ucast m = lba div ucast n"
    using div_mult2_eq [of "unat lba" "secs_per_pg ?spp" k]
    by (simp add: word_unat_eq_iff unat_div unat_ucast_up lpn m n mult.commute)
  then show ?thesis
    using zid n0 nz [OF le(2) pos(3)] by (simp add: lba_to_zone_def udiv_def n_def [symmetric])
qed

lemma zns_write_inv:
  assumes inv: "zns_inv z" and r: "zns_write z dv sq t cmd ret = Some (z', dv', cmd', ret', ok)"
  shows "zns_inv z'"
proof -
  from r obtain lpn zid d where l: "lba_to_lpn z (zc_slba cmd) = Some lpn"
    and zid: "lpn_to_zone z lpn = Some zid" and d: "get_zd z (unat zid) = Some d"
    and w: "(if \<not> zd_zrwav d then zns_write_seq z dv sq t cmd ret
             else zns_write_zrwa z dv sq t cmd ret) = Some (z', dv', cmd', ret', ok)"
    by (auto simp: zns_write_def bind_Some_iff)
  have "lba_to_zone z (zc_slba cmd) = Some zid"
    using lpn_zone_is_lba_zone [OF _ l zid] inv by (simp add: zns_inv_def)
  then show ?thesis
    using w zns_write_seq_inv [OF inv] zns_write_zrwa_inv [OF inv _ d] by (auto split: if_split_asm)
qed

lemma zns_read_same:
  assumes r: "zns_read z dv t cmd = Some (z', dv', ret')"
  shows "same_zones z z'"
proof -
  from r have u: "\<exists>st e l dv1 dv2 lat. read_units st e l (z, dv, dv1) = Some (z', dv2, lat)"
    by (clarsimp simp: zns_read_def Let_def bind_Some_iff) blast
  have "same_zones (fst s) (fst s')" if "read_units st e l s = Some s'" for st e l s s'
  proof (rule read_units.raw_induct
      [where P = "\<lambda>st e l s s'. same_zones (fst s) (fst s')", OF _ that], goal_cases)
    case (1 f st e l s s')
    show ?case
      using 1(2)
      by (cases s) (auto simp: Let_def bind_Some_iff same_zones_def dest!: 1(1) ssd_advance_nand_sp
        split: if_split_asm)
  qed
  then show ?thesis using u by fastforce
qed

lemma zns_read_inv:
  assumes "zns_inv z" "zns_read z dv t cmd = Some (z', dv', ret')"
  shows "zns_inv z'"
  using zns_read_same [OF assms(2)] assms(1) by (rule same_zones_inv)

subsection \<open>Reachable states\<close>

text \<open>A step of a zoned device is a command that returned.\<close>

inductive zns_step :: "zns_ftl \<Rightarrow> zns_ftl \<Rightarrow> bool" where
  step_send: "zns_zmgmt_send junk z cmd = Some (z', st) \<Longrightarrow> zns_step z z'"
| step_write: "zns_write z dv sq t wcmd ret = Some (z', dv', wcmd', ret', ok) \<Longrightarrow> zns_step z z'"
| step_read: "zns_read z dv t rcmd = Some (z', dv', ret') \<Longrightarrow> zns_step z z'"

inductive_cases zns_stepE: "zns_step z z'"

lemma zns_step_inv: "zns_step z z' \<Longrightarrow> zns_inv z \<Longrightarrow> zns_inv z'"
  by (erule zns_stepE) (auto intro: zns_zmgmt_send_keeps zns_write_inv zns_read_inv)

lemma zns_init_inv:
  assumes "zns_geo (sp ssd) zpp"
  shows "zns_inv (zns_init_ftl zpp ssd storage)"
proof -
  have "filter (\<lambda>d. P (zd_state d)) (map (init_descriptor zpp) xs) = []" if "\<not> P ZONE_STATE_EMPTY" for P xs
    using that by (induction xs) (auto simp: init_descriptor_def Let_def)
  from this [of is_open] this [of is_active]
  have "count_zones is_open (zns_init_ftl zpp ssd storage) = 0"
    and "count_zones is_active (zns_init_ftl zpp ssd storage) = 0"
    by (auto simp: count_zones_def zns_init_ftl_def is_open_def is_active_def Let_def)
  then show ?thesis
    using assms by (auto simp: zns_inv_def zns_init_ftl_def init_resource_def init_descriptor_def Let_def)
qed

lemma zns_reachable_inv:
  "zns_step\<^sup>*\<^sup>* z z' \<Longrightarrow> zns_inv z \<Longrightarrow> zns_inv z'"
  by (induction rule: rtranclp_induct) (auto intro: zns_step_inv)

subsection \<open>Sequential writes\<close>

definition lbas_per_zone :: "zns_ftl \<Rightarrow> nat" where
  "lbas_per_zone z = unat (zone_size (zp z)) div secsz (sp (zf_ssd z))"

text \<open>
  The zones tile the device, which has fewer than \<open>2^32\<close> blocks; a write pointer lies in its
  zone, before the end while the zone can be written.
\<close>

definition zd_placed :: "nat \<Rightarrow> nat \<Rightarrow> zone_descriptor \<Rightarrow> bool" where
  "zd_placed L i d \<longleftrightarrow> unat (zd_zslba d) = i * L \<and> unat (zd_zone_capacity d) = L \<and>
     i * L \<le> unat (zd_wp d) \<and> unat (zd_wp d) \<le> i * L + L \<and>
     (writable (zd_state d) \<longrightarrow> unat (zd_wp d) < i * L + L)"

definition zones_placed :: "zns_ftl \<Rightarrow> bool" where
  "zones_placed z \<longleftrightarrow> 0 < lbas_per_zone z \<and>
     unat (nr_zones (zp z)) * lbas_per_zone z + lbas_per_zone z + 2 ^ 16 < 2 ^ 32 \<and>
     (\<forall>i < length (zone_descs z). zd_placed (lbas_per_zone z) i (zone_descs z ! i))"

lemma zone_arith:
  assumes geo: "zns_geo (sp (zf_ssd z)) (zp z)" and L: "L = lbas_per_zone z"
  shows "0 < L" "L < 2 ^ 32"
    and "zone_to_slba z zid = Some s \<Longrightarrow> unat zid * L < 2 ^ 32 \<Longrightarrow> unat s = unat zid * L"
    and "lba_to_zone z a = Some q \<Longrightarrow> unat a < 2 ^ 32 \<Longrightarrow> unat q = unat a div L"
proof -
  let ?spp = "sp (zf_ssd z)" and ?zs = "unat (zone_size (zp z))"
  define n where "n = zone_size (zp z) div of_nat (secsz ?spp)"
  have zs0: "0 < ?zs" using geo by (auto simp: zns_geo_def unat_gt_0)
  have s0: "0 < secsz ?spp" and "secsz ?spp dvd ?zs"
    using geo by (auto simp: zns_geo_def intro: dvd_trans [OF dvd_triv_left])
  then have le: "secsz ?spp \<le> ?zs" using zs0 by (intro dvd_imp_le)
  have lt: "?zs < 2 ^ 32" using unat_less_pow [of "zone_size (zp z)"] by simp
  have us: "unat (of_nat (secsz ?spp) :: u32) = secsz ?spp" using le lt by (simp add: unat_of_nat_small)
  then have nz: "(of_nat (secsz ?spp) :: u32) \<noteq> 0" using s0 by (metis unat_0 less_irrefl)
  have n: "unat n = L" using us by (simp add: n_def unat_div L lbas_per_zone_def)
  show L0: "0 < L" using s0 le by (simp add: L lbas_per_zone_def div_greater_zero_iff)
  show "L < 2 ^ 32" unfolding n [symmetric] using unat_less_pow [of n] by simp
  have n0: "(ucast n :: u64) \<noteq> 0" using n L0 by (auto simp: word_unat_eq_iff unat_ucast_up)
  show "unat s = unat zid * L" if "zone_to_slba z zid = Some s" "unat zid * L < 2 ^ 32"
  proof -
    have "s = ucast (zid * n)" using that(1) nz by (simp add: zone_to_slba_def n_def)
    then show ?thesis using that(2) n by (simp add: unat_ucast_up unat_mult_nowrap)
  qed
  show "unat q = unat a div L" if "lba_to_zone z a = Some q" "unat a < 2 ^ 32"
  proof -
    have "q = ucast (a div ucast n)" using that(1) nz n0 by (simp add: lba_to_zone_def n_def)
    moreover have "unat (a div ucast n) = unat a div L" by (simp add: unat_div unat_ucast_up n)
    moreover have "unat a div L < 2 ^ 32" using that(2) by (rule le_less_trans [OF div_le_dividend])
    ultimately show ?thesis by (simp add: unat_ucast_less)
  qed
qed

text \<open>Within a placed zone: a write that passed the boundary check ends in the zone.\<close>

lemma boundary_ok:
  assumes geo: "zns_geo (sp (zf_ssd z)) (zp z)" and L: "L = lbas_per_zone z"
    and w: "i * L \<le> unat wp" "unat wp < i * L + L" and n: "0 < unat n" "unat wp + unat n < 2 ^ 32"
    and c: "check_boundary_error z wp n = Some True"
  shows "unat (wp + n) = unat wp + unat n \<and> unat wp + unat n \<le> i * L + L"
proof -
  have s: "unat (wp + n) = unat wp + unat n" using n(2) by (intro unat_add_nowrap) simp
  have "1 \<le> wp + n" using s n(1) by (simp add: word_le_nat_alt)
  then have e: "unat (wp + n - 1) = unat wp + unat n - 1" using s by (simp add: unat_sub)
  obtain a where a: "lba_to_zone z wp = Some a" "lba_to_zone z (wp + n - 1) = Some a"
    using c n(2) arg32_small [of n] by (auto simp: check_boundary_error_def bind_Some_iff)
  note za = zone_arith [OF geo L]
  have "unat wp div L = i" using w za(1) by (intro div_nat_eqI) (auto simp: algebra_simps)
  moreover have "unat a = unat wp div L" using za(4) [OF a(1)] n(2) by simp
  moreover have "unat a = (unat wp + unat n - 1) div L" using za(4) [OF a(2)] n(2) e by simp
  ultimately have "(unat wp + unat n - 1) div L = i" by simp
  then have "unat wp + unat n - 1 < (i + 1) * L"
    using za(1) by (metis Suc_eq_plus1 dividend_less_times_div mult.commute mult_Suc_right add.commute)
  then show ?thesis using s n(1) by auto
qed

lemma nr_lbas_bounds:
  "0 < unat (ucast (nr_lbas_from_rw_cmd cmd) :: u64)"
  "unat (ucast (nr_lbas_from_rw_cmd cmd) :: u64) \<le> 2 ^ 16"
proof -
  have l: "unat (zc_length cmd) < 2 ^ 16" using unat_less_pow [of "zc_length cmd"] by simp
  then have "unat (nr_lbas_from_rw_cmd cmd) = unat (zc_length cmd) + 1"
    by (simp add: nr_lbas_from_rw_cmd_def unat_add_nowrap unat_ucast_up)
  then show "0 < unat (ucast (nr_lbas_from_rw_cmd cmd) :: u64)"
    "unat (ucast (nr_lbas_from_rw_cmd cmd) :: u64) \<le> 2 ^ 16"
    using l by (simp_all add: unat_ucast_up)
qed

lemma zns_write_seq_moves:
  assumes inv: "zns_inv z" and pl: "zones_placed z"
    and r: "zns_write_seq z dv sq t cmd ret = Some (z', dv', cmd', ret', True)"
    and st: "zret_status ret' = SC_SUCCESS"
  shows "\<exists>zid d d'. lba_to_zone z (zc_slba cmd) = Some zid \<and> get_zd z (unat zid) = Some d \<and>
    zc_slba cmd' = zd_wp d \<and> zone_descs z' = (zone_descs z)[unat zid := d'] \<and>
    unat (zd_wp d') = unat (zd_wp d) + unat (nr_lbas_from_rw_cmd cmd) \<and>
    unat (zd_wp d') \<le> unat (zd_zslba d) + unat (zd_zone_capacity d) \<and>
    (if unat (zd_wp d') = unat (zd_zslba d) + unat (zd_zone_capacity d)
     then zd_state d' = ZONE_STATE_FULL else is_open (zd_state d')) \<and>
    zone_trans\<^sup>=\<^sup>= (zd_state d) (zd_state d') \<and> zp z' = zp z \<and> sp (zf_ssd z') = sp (zf_ssd z) \<and>
    zones_placed z'"
proof (rule zns_write_seq_cases [OF inv r])
  assume "True \<longrightarrow> zret_status ret' \<noteq> SC_SUCCESS"
  then show ?thesis using st by simp
next
  fix zid :: u32 and d s z1 z2
  let ?n = "ucast (nr_lbas_from_rw_cmd cmd) :: u64" and ?i = "unat zid"
  define L where "L = lbas_per_zone z"
  assume zid: "lba_to_zone z (zc_slba cmd) = Some zid" and d: "get_zd z ?i = Some d"
    and wr: "writable (zd_state d)" and s: "is_open s" and z1: "zns_inv z1"
    and tr: "zone_trans\<^sup>=\<^sup>= (zd_state d) s"
    and same1: "zp z1 = zp z" "zf_ssd z1 = zf_ssd z"
    and ds: "zone_descs z1 = (zone_descs z)[?i := d\<lparr>zd_state := s\<rparr>]"
    and sl: "zc_slba cmd' = zd_wp d" and be: "check_boundary_error z (zd_wp d) ?n = Some True"
    and inc: "increase_write_ptr z1 zid ?n = Some z2" and same2: "same_zones z2 z'"
  have geo: "zns_geo (sp (zf_ssd z)) (zp z)" using inv by (simp add: zns_inv_def)
  have i: "?i < length (zone_descs z)" "zone_descs z ! ?i = d" using d by (auto simp: get_zd_def arr_simps)
  have len: "length (zone_descs z) = unat (nr_zones (zp z))" using inv by (simp add: zns_inv_def)
  have pd: "zd_placed L ?i d" and small: "unat (nr_zones (zp z)) * L + L + 2 ^ 16 < 2 ^ 32" and L0: "0 < L"
    using pl i by (auto simp: zones_placed_def L_def)
  have iL: "?i * L + L \<le> unat (nr_zones (zp z)) * L"
    using i(1) len mult_le_mono1 [of "?i + 1" "unat (nr_zones (zp z))" L] by simp
  have w: "?i * L \<le> unat (zd_wp d)" "unat (zd_wp d) < ?i * L + L" and zc: "unat (zd_zone_capacity d) = L"
    "unat (zd_zslba d) = ?i * L"
    using pd wr by (auto simp: zd_placed_def)
  have b: "unat (zd_wp d + ?n) = unat (zd_wp d) + unat ?n" "unat (zd_wp d) + unat ?n \<le> ?i * L + L"
    using boundary_ok [OF geo L_def w nr_lbas_bounds(1) _ be] w iL small nr_lbas_bounds(2) [of cmd]
    by auto
  have un: "unat ?n = unat (nr_lbas_from_rw_cmd cmd)" by (simp add: unat_ucast_up)
  let ?d1 = "d\<lparr>zd_state := s\<rparr>"
  have d1: "get_zd z1 ?i = Some ?d1" using i(1) by (simp add: get_zd_def ds)
  obtain zs where zs: "zone_to_slba z1 zid = Some zs" and ch:
    "if zd_wp ?d1 + ?n = zs + zd_zone_capacity ?d1
     then zone_changed z1 ?i (?d1\<lparr>zd_wp := zd_wp ?d1 + ?n, zd_state := ZONE_STATE_FULL\<rparr>)
        (flag False - flag (is_open (zd_state ?d1))) (flag False - flag (is_active (zd_state ?d1))) z2
     else zone_changed z1 ?i (?d1\<lparr>zd_wp := zd_wp ?d1 + ?n\<rparr>) 0 0 z2"
    using increase_write_ptr_spec [OF d1 _ inc, unfolded arg32_ucast] s by auto
  have "zone_to_slba z zid = Some zs" using zs same1 by (simp add: zone_to_slba_def)
  then have uz: "unat zs = ?i * L" using zone_arith(3) [OF geo L_def] iL small by simp
  then have ue: "unat (zs + zd_zone_capacity d) = ?i * L + L"
    using iL small zc(1) by (subst unat_add_nowrap) auto
  have full: "zd_wp d + ?n = zs + zd_zone_capacity d \<longleftrightarrow> unat (zd_wp d) + unat ?n = ?i * L + L"
    using ue b(1) by (metis word_unat_eq_iff)
  define d' where "d' = (if zd_wp d + ?n = zs + zd_zone_capacity d
      then d\<lparr>zd_wp := zd_wp d + ?n, zd_state := ZONE_STATE_FULL\<rparr> else d\<lparr>zd_wp := zd_wp d + ?n, zd_state := s\<rparr>)"
  have sw: "d\<lparr>zd_state := s, zd_wp := x\<rparr> = d\<lparr>zd_wp := x, zd_state := s\<rparr>"
    "d\<lparr>zd_state := s, zd_wp := x, zd_state := y\<rparr> = d\<lparr>zd_wp := x, zd_state := y\<rparr>" for x y
    by (cases d; simp)+
  have ds': "zone_descs z' = (zone_descs z)[?i := d']"
    using ch same2 ds by (auto simp: zone_changed_def same_zones_def d'_def sw split: if_splits)
  have same': "zp z' = zp z" "sp (zf_ssd z') = sp (zf_ssd z)"
    using ch same2 same1 by (auto simp: zone_changed_def same_zones_def split: if_splits)
  have wp': "unat (zd_wp d') = unat (zd_wp d) + unat ?n"
  proof -
    have "zd_wp d' = zd_wp d + ?n" by (simp add: d'_def)
    then show ?thesis using b(1) by (simp only:)
  qed
  have pd': "zd_placed L ?i d'"
    using pd b full wp' s by (auto simp: zd_placed_def d'_def writable_def is_active_def is_open_def)
  have pl': "zones_placed z'"
  proof -
    have Ls: "lbas_per_zone z' = L" by (simp add: lbas_per_zone_def L_def same')
    have "zd_placed L i ((zone_descs z)[?i := d'] ! i)" if "i < length (zone_descs z)" for i
    proof (cases "i = ?i")
      case True
      then show ?thesis using pd' i(1) by simp
    next
      case False
      then have "(zone_descs z)[?i := d'] ! i = zone_descs z ! i" by simp
      then show ?thesis using pl that by (simp add: zones_placed_def L_def)
    qed
    then show ?thesis using small L0 by (simp add: zones_placed_def Ls same' ds')
  qed
  have state: "if unat (zd_wp d') = ?i * L + L then zd_state d' = ZONE_STATE_FULL else is_open (zd_state d')"
    using full s unfolding wp' by (cases "unat (zd_wp d) + unat ?n = ?i * L + L") (simp_all add: d'_def)
  have tr': "zone_trans\<^sup>=\<^sup>= (zd_state d) (zd_state d')"
    using tr wr by (auto simp: d'_def writable_def)
  show ?thesis
    using zid d sl ds' wp' b(2) state pl' zc un tr' same'
    by (intro exI [of _ zid] exI [of _ d] exI [of _ d']) simp
qed


text \<open>
  Every zone of the second device is reached from its state in the first by transitions of the
  state machine.
\<close>

definition zones_trans :: "zns_ftl \<Rightarrow> zns_ftl \<Rightarrow> bool" where
  "zones_trans z z' \<longleftrightarrow> length (zone_descs z') = length (zone_descs z) \<and>
     (\<forall>i < length (zone_descs z).
        zone_trans\<^sup>*\<^sup>* (zd_state (zone_descs z ! i)) (zd_state (zone_descs z' ! i)))"

lemma zones_trans_refl [simp]: "zones_trans z z"
  by (simp add: zones_trans_def)

lemma zones_trans_trans: "zones_trans z z1 \<Longrightarrow> zones_trans z1 z2 \<Longrightarrow> zones_trans z z2"
  unfolding zones_trans_def by (metis (no_types, lifting) rtranclp_trans)

lemma zones_trans_upd:
  assumes "get_zd z i = Some d" "zone_descs z' = (zone_descs z)[i := d']"
    and tr: "zone_trans\<^sup>=\<^sup>= (zd_state d) (zd_state d')"
  shows "zones_trans z z'"
proof -
  have d: "i < length (zone_descs z)" "zone_descs z ! i = d" using assms(1) by (auto simp: get_zd_def arr_simps)
  have "zone_trans\<^sup>*\<^sup>* (zd_state d) (zd_state d')" using tr by auto
  then show ?thesis using d assms(2) by (simp add: zones_trans_def nth_list_update)
qed

lemma desc_move_placed:
  assumes geo: "zns_geo (sp (zf_ssd z)) (zp z)" and pl: "zd_placed (lbas_per_zone z) i d"
    and small: "i * lbas_per_zone z + lbas_per_zone z < 2 ^ 32" and i: "i < 2 ^ 32"
    and mv: "desc_move z i d d'"
  shows "zd_placed (lbas_per_zone z) i d'"
proof -
  define L where "L = lbas_per_zone z"
  have L0: "0 < L" using zone_arith(1) [OF geo L_def] .
  have same: "zd_zslba d' = zd_zslba d" "zd_zone_capacity d' = zd_zone_capacity d"
    and wm: "wp_move (zone_to_slba z (of_nat i)) d d'"
    using mv by (auto simp: desc_move_def)
  have d: "unat (zd_zslba d) = i * L" "unat (zd_zone_capacity d) = L" "i * L \<le> unat (zd_wp d)"
    "unat (zd_wp d) \<le> i * L + L" "writable (zd_state d) \<Longrightarrow> unat (zd_wp d) < i * L + L"
    using pl by (auto simp: zd_placed_def L_def)
  from wm consider (keep) "zd_wp d' = zd_wp d" "writable (zd_state d') \<longrightarrow> writable (zd_state d)"
    | (reset) "zd_wp d' = zd_zslba d"
    | (wr) zs lba where "zone_to_slba z (of_nat i) = Some zs" "zd_wp d \<le> lba"
        "lba \<le> zs + zd_zone_capacity d - 1" "zd_wp d' = lba + 1"
        "writable (zd_state d') \<longrightarrow> lba + 1 \<noteq> zs + zd_zone_capacity d"
    unfolding wp_move_def by blast
  then have "i * L \<le> unat (zd_wp d') \<and> unat (zd_wp d') \<le> i * L + L \<and>
    (writable (zd_state d') \<longrightarrow> unat (zd_wp d') < i * L + L)"
  proof cases
    case keep
    then show ?thesis using d by simp
  next
    case reset
    then show ?thesis using d L0 by simp
  next
    case wr
    have zs: "unat zs = i * L"
      using zone_arith(3) [OF geo L_def wr(1)] small i by (simp add: unat_of_nat_small L_def [symmetric])
    have e: "unat (zs + zd_zone_capacity d) = i * L + L"
      using small zs d(2) by (subst unat_add_nowrap) (auto simp: L_def [symmetric])
    then have e1: "unat (zs + zd_zone_capacity d - 1) = i * L + L - 1"
      using L0 by (subst unat_sub_le) (auto simp: word_le_nat_alt)
    have lba: "unat (zd_wp d) \<le> unat lba" "unat lba \<le> i * L + L - 1"
      using wr(2,3) e1 by (auto simp: word_le_nat_alt)
    then have w': "unat (zd_wp d') = unat lba + 1"
      using small L0 unfolding wr(4) by (subst unat_add_nowrap) (auto simp: L_def [symmetric])
    have "writable (zd_state d') \<Longrightarrow> unat (zd_wp d') \<noteq> i * L + L"
      using wr(4,5) e by (metis word_unat_eq_iff)
    then show ?thesis using w' lba d(3) L0 by auto
  qed
  then show ?thesis using d(1,2) same by (simp add: zd_placed_def L_def)
qed

lemma zones_placed_upd:
  assumes pl: "zones_placed z" and same: "zp z' = zp z" "sp (zf_ssd z') = sp (zf_ssd z)"
    and ds: "zone_descs z' = (zone_descs z)[i := d']" and d': "zd_placed (lbas_per_zone z) i d'"
  shows "zones_placed z'"
proof -
  have Ls: "lbas_per_zone z' = lbas_per_zone z" by (simp add: lbas_per_zone_def same)
  have "zd_placed (lbas_per_zone z) j ((zone_descs z)[i := d'] ! j)" if j: "j < length (zone_descs z)" for j
    using pl d' j by (cases "j = i") (auto simp: zones_placed_def)
  then show ?thesis using pl by (simp add: zones_placed_def Ls same ds)
qed

lemma zone_moves_placed:
  assumes inv: "zns_inv z" and pl: "zones_placed z" and mv: "zone_moves z i z'"
  shows "zones_placed z' \<and> zones_trans z z'"
proof (cases "same_zones z z'")
  case True
  then show ?thesis
    using pl by (simp add: zones_placed_def same_zones_def lbas_per_zone_def zones_trans_def)
next
  case False
  then obtain d d' where d: "get_zd z i = Some d" and dm: "desc_move z i d d'"
    and ds: "zone_descs z' = (zone_descs z)[i := d']" "zp z' = zp z" "sp (zf_ssd z') = sp (zf_ssd z)"
    using mv by (auto simp: zone_moves_def zone_changed_def)
  have i: "i < unat (nr_zones (zp z))" "i < length (zone_descs z)" "zone_descs z ! i = d"
    using d inv by (auto simp: get_zd_def arr_simps zns_inv_def)
  have "i * lbas_per_zone z + lbas_per_zone z \<le> unat (nr_zones (zp z)) * lbas_per_zone z"
    using i(1) mult_le_mono1 [of "i + 1" "unat (nr_zones (zp z))" "lbas_per_zone z"] by simp
  then have small: "i * lbas_per_zone z + lbas_per_zone z < 2 ^ 32" using pl by (simp add: zones_placed_def)
  have i32: "i < 2 ^ 32" using i(1) unat_less_pow [of "nr_zones (zp z)"] by simp
  have "zd_placed (lbas_per_zone z) i d"
    using pl i(2,3) by (auto simp: zones_placed_def)
  then have "zd_placed (lbas_per_zone z) i d'"
    using desc_move_placed [OF _ _ small i32 dm] inv by (simp add: zns_inv_def)
  then show ?thesis
    using zones_placed_upd [OF pl ds(2,3,1)] zones_trans_upd [OF d ds(1)] dm by (simp add: desc_move_def)
qed

end
