(* ===== verification/Score.thy ===== *)
theory Score
  imports Prelude
begin

text \<open>
  The numeric part of the garbage collector's victim score (\<open>conv_ftl.c\<close>, lines 26 to 148):
  the integer square root, the age weight, the hot degree of a page and the score of a line as a
  fraction. All arithmetic is on the code's widths; \<open>None\<close> is a division by zero.
\<close>

subsection \<open>Data: \<open>struct line\<close> and \<open>struct page_meta\<close>\<close>

text \<open>
  The counters of type \<open>int\<close> are integers; the invariant of the translation layer bounds them by
  the pages of a line. The list link \<open>entry\<close> is the membership of the line's number in the free
  and full lists of \<open>line_mgmt\<close>.
\<close>

record line =
  line_id :: nat
  line_ipc :: int
  line_vpc :: int
  line_pos :: nat
  last_modified_time :: u64
  line_erase_cnt :: u32

record page_meta =
  update_cnt :: u32
  last_write_time :: u64

subsection \<open>Integer square root\<close>

text \<open>\<open>isqrt_loop n x y\<close> is the while loop of \<open>isqrt_u64\<close> from the values \<open>x\<close> and \<open>y\<close>.\<close>

function isqrt_loop :: "u64 \<Rightarrow> u64 \<Rightarrow> u64 \<Rightarrow> u64 option" where
  "isqrt_loop n x y =
     (if y < x
      then do { q \<leftarrow> udiv n y; isqrt_loop n y ((y + q) div 2) }
      else Some x)"
  by pat_completeness auto
termination
  by (relation "measure (\<lambda>(n, x, y). unat x)") (auto simp: word_less_nat_alt)

declare isqrt_loop.simps [simp del]

definition isqrt_u64 :: "u64 \<Rightarrow> u32 option" where
  "isqrt_u64 n =
     (if n \<le> 1 then Some (ucast n)
      else do { x \<leftarrow> isqrt_loop n n ((n + 1) div 2); Some (ucast x) })"

subsection \<open>Age and hot degree\<close>

definition MS_TO_NS :: "u64 \<Rightarrow> u64" where
  "MS_TO_NS x = x * 1000000"

definition SEC_TO_NS :: "u64 \<Rightarrow> u64" where
  "SEC_TO_NS x = x * 1000000000"

definition TH_VERY_HOT :: u64 where "TH_VERY_HOT = MS_TO_NS 100"

definition TH_HOT :: u64 where "TH_HOT = SEC_TO_NS 5"

definition TH_WARM :: u64 where "TH_WARM = SEC_TO_NS 60"

lemmas threshold_defs = TH_VERY_HOT_def TH_HOT_def TH_WARM_def MS_TO_NS_def SEC_TO_NS_def

definition get_age_weight :: "u64 \<Rightarrow> u64" where
  "get_age_weight age_ns =
     (if age_ns < TH_VERY_HOT then 1
      else if age_ns < TH_HOT then 5
      else if age_ns < TH_WARM then 20
      else 100)"

definition elapsed_since :: "u64 \<Rightarrow> u64 \<Rightarrow> u64" where
  "elapsed_since now past = (if past < now then now - past else 0)"

definition HD_SCALE :: u64 where "HD_SCALE = 1000"

definition calc_hot_degree :: "page_meta \<Rightarrow> u64 \<Rightarrow> u64" where
  "calc_hot_degree pm now =
     (if update_cnt pm = 0 then 0
      else (ucast (update_cnt pm) * HD_SCALE) div
           get_age_weight (elapsed_since now (last_write_time pm)))"

subsection \<open>Victim score\<close>

definition apply_alpha :: "u64 \<Rightarrow> u32 \<Rightarrow> u64 option" where
  "apply_alpha aw level =
     (if level = 0 then do { r \<leftarrow> isqrt_u64 aw; Some (ucast r) }
      else if level = 1 then Some aw
      else if level = 2 then do { r \<leftarrow> isqrt_u64 aw; Some (aw * ucast r) }
      else Some (aw * aw))"

definition apply_delta :: "u64 \<Rightarrow> u32 \<Rightarrow> u64 option" where
  "apply_delta ec1 level =
     (if level = 0 then Some 1
      else if level = 1 then do { r \<leftarrow> isqrt_u64 ec1; Some (ucast r) }
      else if level = 2 then Some ec1
      else if level = 3 then do { r \<leftarrow> isqrt_u64 ec1; Some (ec1 * ucast r) }
      else Some (ec1 * ec1))"

definition compute_victim_score :: "line \<Rightarrow> u64 \<Rightarrow> u32 \<Rightarrow> u32 \<Rightarrow> (u64 \<times> u64) option" where
  "compute_victim_score c now alpha_level delta_level = do {
     let aw = get_age_weight (elapsed_since now (last_modified_time c));
     a \<leftarrow> apply_alpha aw alpha_level;
     let num = a * word_of_int (line_ipc c);
     d \<leftarrow> apply_delta (ucast (line_erase_cnt c) + 1) delta_level;
     let den = word_of_int (line_vpc c + 1) * d;
     Some (num, if den = 0 then 1 else den)
   }"

subsection \<open>The square root is exact\<close>

lemma newton_upper:
  fixes N X :: nat
  assumes "0 < X"
  shows "N < ((X + N div X) div 2 + 1)\<^sup>2"
proof -
  define q where "q = N div X"
  define m where "m = (X + q) div 2 + 1"
  have N: "N < X * (q + 1)"
    using dividend_less_div_times [OF assms, of N] by (simp add: q_def algebra_simps)
  have m: "X + q + 1 \<le> 2 * m" by (simp add: m_def) 
  have "4 * (X * (q + 1)) \<le> (X + (q + 1))\<^sup>2"
  proof -
    have "int (4 * (X * (q + 1))) \<le> int ((X + (q + 1))\<^sup>2)"
      using zero_le_power2 [of "int X - int (q + 1)"]
      by (simp add: power2_eq_square algebra_simps)
    then show ?thesis by linarith
  qed
  also have "\<dots> \<le> (2 * m)\<^sup>2" using m by (intro power_mono) auto
  finally have "X * (q + 1) \<le> m\<^sup>2" by (simp add: power2_eq_square)
  with N show ?thesis by (simp add: m_def q_def)
qed

lemma newton_sum_le:
  fixes N X :: nat
  assumes "1 \<le> X" "X \<le> N"
  shows "X + N div X \<le> N + 1"
proof -
  have "(X - 1) * (N div X) \<ge> X - 1"
    using assms by (metis div_greater_zero_iff le_numeral_extra(4) less_le_trans
        mult.right_neutral mult_le_mono2 not_less_eq_eq One_nat_def Suc_leI zero_less_one)
  moreover have "X * (N div X) \<le> N" by simp
  moreover have "X * (N div X) = (X - 1) * (N div X) + N div X"
    using assms by (simp add: diff_mult_distrib)
  ultimately show ?thesis using assms by linarith
qed

lemma unat_newton:
  fixes x n :: u64
  assumes "1 \<le> unat x" "x \<le> n" "n \<noteq> ULL_MAX"
  shows "unat ((x + n div x) div 2) = (unat x + unat n div unat x) div 2"
proof -
  have n: "unat n < 2 ^ 64 - 1" using assms(3) by (rule unat_lt_max)
  have "unat x + unat (n div x) < 2 ^ 64"
    using newton_sum_le [of "unat x" "unat n"] assms(1,2) n
    by (simp add: unat_div word_le_nat_alt)
  then have "unat (x + n div x) = unat x + unat n div unat x"
    by (subst unat_add_nowrap) (simp_all add: unat_div)
  then show ?thesis by (simp add: unat_div)
qed

lemma isqrt_loop_spec:
  assumes "1 \<le> unat x" "x \<le> n" "n \<noteq> ULL_MAX" "y = (x + n div x) div 2"
    and "unat n < (unat x + 1)\<^sup>2"
  shows "\<exists>r. isqrt_loop n x y = Some r \<and> (unat r)\<^sup>2 \<le> unat n \<and> unat n < (unat r + 1)\<^sup>2"
  using assms
proof (induction n x y rule: isqrt_loop.induct)
  case (1 n x y)
  define X N where "X = unat x" and "N = unat n"
  have XN: "1 \<le> X" "X \<le> N" using "1.prems"(1,2) by (simp_all add: X_def N_def word_le_nat_alt)
  have Y: "unat y = (X + N div X) div 2"
    using unat_newton "1.prems"(1-4) by (simp add: X_def N_def)
  show ?case
  proof (cases "y < x")
    case True
    have "N div X \<ge> 1" using XN by (simp add: Suc_leI div_greater_zero_iff)
    then have y1: "1 \<le> unat y" using XN Y by linarith
    then have y0: "y \<noteq> 0" by auto
    have yn: "y \<le> n" using True "1.prems"(2) by simp
    have "unat n < (unat y + 1)\<^sup>2"
      using newton_upper [of X N] XN Y by (simp add: N_def)
    then obtain r where "isqrt_loop n y ((y + n div y) div 2) = Some r"
      "(unat r)\<^sup>2 \<le> unat n" "unat n < (unat r + 1)\<^sup>2"
      using "1.IH" [OF True, of "n div y"] y0 y1 yn "1.prems"(3) by auto
    with True y0 show ?thesis by (simp add: isqrt_loop.simps [of n x y])
  next
    case False
    then have "X \<le> (X + N div X) div 2" using Y by (simp add: X_def word_less_nat_alt)
    then have "X \<le> N div X" by linarith
    then have "X * X \<le> X * (N div X)" by (rule mult_le_mono2)
    also have "\<dots> \<le> N" by simp
    finally have "X\<^sup>2 \<le> N" by (simp add: power2_eq_square)
    with False "1.prems"(5) show ?thesis
      by (simp add: isqrt_loop.simps [of n x y] X_def N_def)
  qed
qed

lemma isqrt_u64_spec:
  assumes "n \<noteq> ULL_MAX"
  obtains r where "isqrt_u64 n = Some r"
    "(unat r)\<^sup>2 \<le> unat n" "unat n < (unat r + 1)\<^sup>2"
proof (cases "n \<le> 1")
  case True
  then have "n = 0 \<or> n = 1" by (rule word_le_1_cases)
  then show ?thesis
    using that [of "ucast n"] by (auto simp: isqrt_u64_def power2_eq_square)
next
  case False
  then have n1: "1 \<le> unat n" by (simp add: word_le_nat_alt)
  then have "n div n = 1" by (intro word_div_self) auto
  moreover have "unat n < (unat n + 1)\<^sup>2" by (simp add: power2_eq_square)
  ultimately obtain r where r: "isqrt_loop n n ((n + 1) div 2) = Some r"
    "(unat r)\<^sup>2 \<le> unat n" "unat n < (unat r + 1)\<^sup>2"
    using isqrt_loop_spec [of n n "(n + 1) div 2"] n1 assms by auto
  have "(unat r)\<^sup>2 < (2 ^ 32)\<^sup>2" using r(2) unat_less_pow [of n] by simp
  then have "unat r < 2 ^ 32" using power_less_imp_less_base by blast
  then have "unat (ucast r :: u32) = unat r" by (intro unat_ucast_less) simp
  then show ?thesis
    using that [of "ucast r"] False r by (simp add: isqrt_u64_def)
qed

lemma isqrt_u64_max: "isqrt_u64 ULL_MAX = None"
  by (simp add: isqrt_u64_def isqrt_loop.simps)

end
