(* ===== verification/Pqueue.thy ===== *)
theory Pqueue
  imports Prelude
begin

text \<open>
  The priority queue of \<open>pqueue/pqueue.c\<close>: a 1-based binary heap of pointers whose priorities
  and positions are read and written through callbacks. A pointer is a value of type \<open>'a\<close>, the
  memory the callbacks act on is a value of type \<open>'h\<close> that every operation returns updated, and
  \<open>pq_d\<close> is the allocated array (slot 0 is never used). The interface locale \<open>pq_store\<close>
  states what the queue relies on in its callbacks; the lemmas that the heap order, the stored
  positions and the set of queued items survive every operation are proved once inside it.
\<close>

subsection \<open>Data\<close>

record ('a, 'h) pq_callbacks =
  cmppri :: "u64 \<Rightarrow> u64 \<Rightarrow> bool"
  getpri :: "'h \<Rightarrow> 'a \<Rightarrow> u64"
  setpri :: "'a \<Rightarrow> u64 \<Rightarrow> 'h \<Rightarrow> 'h"
  getpos :: "'h \<Rightarrow> 'a \<Rightarrow> nat"
  setpos :: "'a \<Rightarrow> nat \<Rightarrow> 'h \<Rightarrow> 'h"

record ('a, 'h) pqueue_t =
  pq_size :: nat
  pq_avail :: nat
  pq_step :: nat
  pq_cb :: "('a, 'h) pq_callbacks"
  pq_d :: "nat \<Rightarrow> 'a"

definition left :: "nat \<Rightarrow> nat" where "left i = 2 * i"

definition right :: "nat \<Rightarrow> nat" where "right i = 2 * i + 1"

definition parent :: "nat \<Rightarrow> nat" where "parent i = i div 2"

subsection \<open>Operations\<close>

text \<open>The array of \<open>n + 1\<close> slots comes from \<open>kmalloc\<close>: its contents \<open>d0\<close> are arbitrary.\<close>

definition pqueue_init :: "nat \<Rightarrow> ('a, 'h) pq_callbacks \<Rightarrow> (nat \<Rightarrow> 'a) \<Rightarrow> ('a, 'h) pqueue_t" where
  "pqueue_init n cb d0 =
     \<lparr>pq_size = 1, pq_avail = n + 1, pq_step = n + 1, pq_cb = cb, pq_d = d0\<rparr>"

definition pqueue_size :: "('a, 'h) pqueue_t \<Rightarrow> nat" where
  "pqueue_size q = pq_size q - 1"

function bubble_loop ::
  "('a, 'h) pq_callbacks \<Rightarrow> u64 \<Rightarrow> (nat \<Rightarrow> 'a) \<Rightarrow> 'h \<Rightarrow> nat \<Rightarrow> (nat \<Rightarrow> 'a) \<times> 'h \<times> nat" where
  "bubble_loop cb moving_pri d h i =
     (if 1 < i \<and> cmppri cb (getpri cb h (d (parent i))) moving_pri
      then let d' = d(i := d (parent i)); h' = setpos cb (d' i) i h
           in bubble_loop cb moving_pri d' h' (parent i)
      else (d, h, i))"
  by pat_completeness auto
termination
  by (relation "measure (\<lambda>(cb, m, d, h, i). i)") (auto simp: parent_def)

declare bubble_loop.simps [simp del]

definition bubble_up :: "('a, 'h) pqueue_t \<Rightarrow> 'h \<Rightarrow> nat \<Rightarrow> ('a, 'h) pqueue_t \<times> 'h" where
  "bubble_up q h i =
     (let moving_node = pq_d q i;
          (d, h, i) = bubble_loop (pq_cb q) (getpri (pq_cb q) h moving_node) (pq_d q) h i
      in (q\<lparr>pq_d := d(i := moving_node)\<rparr>, setpos (pq_cb q) moving_node i h))"

definition maxchild :: "('a, 'h) pq_callbacks \<Rightarrow> nat \<Rightarrow> (nat \<Rightarrow> 'a) \<Rightarrow> 'h \<Rightarrow> nat \<Rightarrow> nat" where
  "maxchild cb n d h i =
     (let child_node = left i
      in if n \<le> child_node then 0
         else if child_node + 1 < n \<and>
                 cmppri cb (getpri cb h (d child_node)) (getpri cb h (d (child_node + 1)))
         then child_node + 1
         else child_node)"

lemma maxchild_bounds: "maxchild cb n d h i \<noteq> 0 \<Longrightarrow> i < maxchild cb n d h i \<and> maxchild cb n d h i < n"
  by (auto simp: maxchild_def left_def Let_def split: if_splits)

function percolate_loop ::
  "('a, 'h) pq_callbacks \<Rightarrow> nat \<Rightarrow> u64 \<Rightarrow> (nat \<Rightarrow> 'a) \<Rightarrow> 'h \<Rightarrow> nat \<Rightarrow> (nat \<Rightarrow> 'a) \<times> 'h \<times> nat" where
  "percolate_loop cb n moving_pri d h i =
     (let child_node = maxchild cb n d h i
      in if child_node \<noteq> 0 \<and> cmppri cb moving_pri (getpri cb h (d child_node))
         then let d' = d(i := d child_node); h' = setpos cb (d' i) i h
              in percolate_loop cb n moving_pri d' h' child_node
         else (d, h, i))"
  by pat_completeness auto
termination
proof (relation "measure (\<lambda>(cb, n, m, d, h, i). n - i)", simp, clarsimp)
  fix cb :: "('a, 'h) pq_callbacks" and n i d h
  assume "0 < maxchild cb n d h i"
  then show "n - maxchild cb n d h i < n - i" using maxchild_bounds [of cb n d h i] by auto
qed

declare percolate_loop.simps [simp del]

definition percolate_down :: "('a, 'h) pqueue_t \<Rightarrow> 'h \<Rightarrow> nat \<Rightarrow> ('a, 'h) pqueue_t \<times> 'h" where
  "percolate_down q h i =
     (let moving_node = pq_d q i;
          (d, h, i) = percolate_loop (pq_cb q) (pq_size q) (getpri (pq_cb q) h moving_node)
                        (pq_d q) h i
      in (q\<lparr>pq_d := d(i := moving_node)\<rparr>, setpos (pq_cb q) moving_node i h))"

text \<open>
  Inserting into a full queue logs an error and then writes one slot past the allocated array:
  a memory fault.
\<close>

definition pqueue_insert ::
  "('a, 'h) pqueue_t \<Rightarrow> 'h \<Rightarrow> 'a \<Rightarrow> (('a, 'h) pqueue_t \<times> 'h) option" where
  "pqueue_insert q h d =
     (if pq_avail q \<le> pq_size q then None
      else let i = pq_size q
           in Some (bubble_up (q\<lparr>pq_size := i + 1, pq_d := (pq_d q)(i := d)\<rparr>) h i))"

definition pqueue_change_priority ::
  "('a, 'h) pqueue_t \<Rightarrow> 'h \<Rightarrow> u64 \<Rightarrow> 'a \<Rightarrow> ('a, 'h) pqueue_t \<times> 'h" where
  "pqueue_change_priority q h new_pri d =
     (let cb = pq_cb q;
          old_pri = getpri cb h d;
          h = setpri cb d new_pri h;
          posn = getpos cb h d
      in if cmppri cb old_pri new_pri then bubble_up q h posn else percolate_down q h posn)"

definition pqueue_remove :: "('a, 'h) pqueue_t \<Rightarrow> 'h \<Rightarrow> 'a \<Rightarrow> ('a, 'h) pqueue_t \<times> 'h" where
  "pqueue_remove q h d =
     (let cb = pq_cb q;
          posn = getpos cb h d;
          n = pq_size q - 1;
          q = q\<lparr>pq_size := n, pq_d := (pq_d q)(posn := pq_d q n)\<rparr>
      in if cmppri cb (getpri cb h d) (getpri cb h (pq_d q posn))
         then bubble_up q h posn else percolate_down q h posn)"

definition pqueue_peek :: "('a, 'h) pqueue_t \<Rightarrow> 'a option" where
  "pqueue_peek q = (if pq_size q = 1 then None else Some (pq_d q 1))"

definition pqueue_pop ::
  "('a, 'h) pqueue_t \<Rightarrow> 'h \<Rightarrow> 'a option \<times> ('a, 'h) pqueue_t \<times> 'h" where
  "pqueue_pop q h =
     (if pq_size q = 1 then (None, q, h)
      else let head = pq_d q 1;
               n = pq_size q - 1;
               q = q\<lparr>pq_size := n, pq_d := (pq_d q)(1 := pq_d q n)\<rparr>
           in (Some head, percolate_down q h 1))"

text \<open>The checker follows both children; started at 0 it would call itself for ever.\<close>

partial_function (option) subtree_is_valid ::
  "('a, 'h) pqueue_t \<Rightarrow> 'h \<Rightarrow> nat \<Rightarrow> bool option" where
  "subtree_is_valid q h pos = do {
     let cb = pq_cb q;
     let pri = (\<lambda>i. getpri cb h (pq_d q i));
     l \<leftarrow> (if left pos < pq_size q
           then if cmppri cb (pri pos) (pri (left pos)) then Some False
                else subtree_is_valid q h (left pos)
           else Some True);
     if \<not> l then Some False
     else if right pos < pq_size q
     then if cmppri cb (pri pos) (pri (right pos)) then Some False
          else subtree_is_valid q h (right pos)
     else Some True
   }"

definition pqueue_is_valid :: "('a, 'h) pqueue_t \<Rightarrow> 'h \<Rightarrow> bool option" where
  "pqueue_is_valid q h = subtree_is_valid q h 1"

subsection \<open>Heap order, positions and items\<close>

definition pq_items :: "('a, 'h) pqueue_t \<Rightarrow> 'a set" where
  "pq_items q = pq_d q ` {1..<pq_size q}"

definition heap_ordered :: "(u64 \<Rightarrow> u64 \<Rightarrow> bool) \<Rightarrow> ('a \<Rightarrow> u64) \<Rightarrow> (nat \<Rightarrow> 'a) \<Rightarrow> nat \<Rightarrow> bool" where
  "heap_ordered cmp pri d n \<longleftrightarrow>
     (\<forall>j. 2 \<le> j \<and> j < n \<longrightarrow> \<not> cmp (pri (d (parent j))) (pri (d j)))"


text \<open>
  The queue is well formed: every queued item is an object, stores the slot it is in, and has a
  priority no better than its parent's.
\<close>

definition pq_wf :: "('h \<Rightarrow> 'a \<Rightarrow> bool) \<Rightarrow> ('a, 'h) pqueue_t \<Rightarrow> 'h \<Rightarrow> bool" where
  "pq_wf ok q h \<longleftrightarrow>
     1 \<le> pq_size q \<and> pq_size q \<le> pq_avail q \<and>
     (\<forall>j. 1 \<le> j \<and> j < pq_size q \<longrightarrow> ok h (pq_d q j) \<and> getpos (pq_cb q) h (pq_d q j) = j) \<and>
     heap_ordered (cmppri (pq_cb q)) (getpri (pq_cb q) h) (pq_d q) (pq_size q)"

text \<open>
  What an operation from \<open>(q, h)\<close> to \<open>(q', h')\<close> guarantees when \<open>A\<close> is what the queue then
  holds: a well-formed queue, no priority changed, no position changed outside \<open>A\<close>.
\<close>

definition pq_step_to ::
  "('h \<Rightarrow> 'a \<Rightarrow> bool) \<Rightarrow> ('a, 'h) pqueue_t \<Rightarrow> 'h \<Rightarrow> 'a set \<Rightarrow> ('a, 'h) pqueue_t \<Rightarrow> 'h \<Rightarrow> bool" where
  "pq_step_to ok q h A q' h' \<longleftrightarrow>
     pq_wf ok q' h' \<and> pq_items q' = A \<and> pq_cb q' = pq_cb q \<and> pq_avail q' = pq_avail q \<and>
     getpri (pq_cb q) h' = getpri (pq_cb q) h \<and> ok h' = ok h \<and>
     (\<forall>b. b \<notin> A \<longrightarrow> getpos (pq_cb q) h' b = getpos (pq_cb q) h b)"

lemma fun_upd_swap_image:
  "i \<in> A \<Longrightarrow> p \<in> A \<Longrightarrow> i \<noteq> p \<Longrightarrow> (f(i := f p, p := m)) ` A = (f(i := m)) ` A"
  by (auto simp: image_iff)

subsection \<open>The contract of the callbacks\<close>

text \<open>
  \<open>ok h a\<close> says that \<open>a\<close> points to an object of the memory \<open>h\<close>, \<open>pri_ok\<close> which priorities
  a write keeps. Writing the position or the priority of an object changes that field of that
  object only, and the comparison is a strict weak order.
\<close>

locale pq_store =
  fixes cb :: "('a, 'h) pq_callbacks"
    and ok :: "'h \<Rightarrow> 'a \<Rightarrow> bool"
    and pri_ok :: "u64 \<Rightarrow> bool"
  assumes getpos_setpos: "ok h a \<Longrightarrow> getpos cb (setpos cb a n h) b = (if b = a then n else getpos cb h b)"
    and getpri_setpos: "getpri cb (setpos cb a n h) b = getpri cb h b"
    and ok_setpos: "ok (setpos cb a n h) b = ok h b"
    and getpri_setpri: "ok h a \<Longrightarrow> pri_ok p \<Longrightarrow>
      getpri cb (setpri cb a p h) b = (if b = a then p else getpri cb h b)"
    and getpos_setpri: "getpos cb (setpri cb a p h) b = getpos cb h b"
    and ok_setpri: "ok (setpri cb a p h) b = ok h b"
    and cmp_asym: "cmppri cb x y \<Longrightarrow> \<not> cmppri cb y x"
    and cmp_trans: "\<not> cmppri cb x y \<Longrightarrow> \<not> cmppri cb y z \<Longrightarrow> \<not> cmppri cb x z"
begin

lemmas store_laws = getpos_setpos getpri_setpos ok_setpos getpri_setpri getpos_setpri ok_setpri

definition pos_ok :: "'h \<Rightarrow> (nat \<Rightarrow> 'a) \<Rightarrow> nat \<Rightarrow> nat \<Rightarrow> bool" where
  "pos_ok h d n i \<longleftrightarrow>
     (\<forall>j. 1 \<le> j \<and> j < n \<longrightarrow> ok h (d j) \<and> (j \<noteq> i \<longrightarrow> getpos cb h (d j) = j)) \<and>
     (\<forall>j. 1 \<le> j \<and> j < n \<and> j \<noteq> i \<longrightarrow> d j \<noteq> d i)"

text \<open>Heap order but for the edge above \<open>i\<close>; and but for the edges below \<open>i\<close>.\<close>

definition up_heap :: "('a \<Rightarrow> u64) \<Rightarrow> (nat \<Rightarrow> 'a) \<Rightarrow> nat \<Rightarrow> nat \<Rightarrow> bool" where
  "up_heap P d n i \<longleftrightarrow>
     (\<forall>j. 2 \<le> j \<and> j < n \<and> j \<noteq> i \<longrightarrow> \<not> cmppri cb (P (d (parent j))) (P (d j))) \<and>
     (\<forall>j. 2 \<le> j \<and> j < n \<and> parent j = i \<and> 2 \<le> i \<longrightarrow>
        \<not> cmppri cb (P (d (parent i))) (P (d j)))"

definition down_heap :: "('a \<Rightarrow> u64) \<Rightarrow> (nat \<Rightarrow> 'a) \<Rightarrow> nat \<Rightarrow> nat \<Rightarrow> bool" where
  "down_heap P d n i \<longleftrightarrow>
     (\<forall>j. 2 \<le> j \<and> j < n \<and> parent j \<noteq> i \<longrightarrow> \<not> cmppri cb (P (d (parent j))) (P (d j))) \<and>
     (\<forall>j. 2 \<le> j \<and> j < n \<and> parent j = i \<and> 2 \<le> i \<longrightarrow>
        \<not> cmppri cb (P (d (parent i))) (P (d j)))"

lemma cmp_irrefl: "\<not> cmppri cb x x"
  using cmp_asym by blast

lemma pos_ok_ok: "pos_ok h d n i \<Longrightarrow> 1 \<le> j \<Longrightarrow> j < n \<Longrightarrow> ok h (d j)"
  by (simp add: pos_ok_def)

lemma pos_ok_swap:
  assumes "pos_ok h (d(i := m)) n i" "1 \<le> i" "i < n" "1 \<le> p" "p < n" "p \<noteq> i"
  shows "pos_ok (setpos cb (d p) i h) (d(i := d p, p := m)) n p"
proof -
  have okp: "ok h (d p)" and ne: "d p \<noteq> m" and gp: "getpos cb h (d p) = p"
    using assms by (auto simp: pos_ok_def)
  have okm: "ok h m"
    using assms(1-3) by (auto simp: pos_ok_def dest: spec [of _ i])
  have old: "ok h (d j) \<and> getpos cb h (d j) = j \<and> d j \<noteq> m" if "1 \<le> j" "j < n" "j \<noteq> i" for j
    using assms(1) that by (auto simp: pos_ok_def)
  have inj: "d j \<noteq> d p" if "1 \<le> j" "j < n" "j \<noteq> i" "j \<noteq> p" for j
    using old [of j] gp that by auto
  show ?thesis
    using okp okm ne old inj assms(2-6)
    by (auto simp: pos_ok_def store_laws)
qed

lemma up_heap_swap:
  assumes "up_heap P (d(i := m)) n i" "1 < i" "i < n"
    and "cmppri cb (P (d (parent i))) (P m)"
  shows "up_heap P (d(i := d (parent i), parent i := m)) n (parent i)"
proof -
  define p where "p = parent i"
  have pi: "p \<noteq> i" "1 \<le> p" "p < n" using assms(2,3) by (auto simp: p_def parent_def)
  define e where "e = d(i := d p, p := m)"
  have e: "e i = d p" "e p = m" "\<And>j. j \<noteq> i \<Longrightarrow> j \<noteq> p \<Longrightarrow> e j = d j"
    using pi by (auto simp: e_def)
  have A: "\<not> cmppri cb (P ((d(i := m)) (parent j))) (P ((d(i := m)) j))"
    if "2 \<le> j" "j < n" "j \<noteq> i" for j
    using assms(1) that by (simp add: up_heap_def)
  have G: "\<not> cmppri cb (P (d p)) (P (d j))" if "2 \<le> j" "j < n" "parent j = i" for j
  proof -
    have "j \<noteq> i" using that assms(2) by (auto simp: parent_def)
    moreover have "\<not> cmppri cb (P ((d(i := m)) p)) (P ((d(i := m)) j))"
      using assms(1,2) that unfolding up_heap_def p_def by auto
    ultimately show ?thesis using pi by simp
  qed
  have mp: "\<not> cmppri cb (P m) (P (d p))" using assms(4) cmp_asym by (simp add: p_def)
  have first: "\<not> cmppri cb (P (e (parent j))) (P (e j))" if j: "2 \<le> j" "j < n" "j \<noteq> p" for j
  proof (cases "j = i")
    case True
    then show ?thesis using mp e by (simp add: p_def [symmetric])
  next
    case ji: False
    have ej: "e j = d j" using j ji e by simp
    show ?thesis
    proof (cases "parent j = i")
      case True
      then show ?thesis using G j e ej by simp
    next
      case False
      show ?thesis
      proof (cases "parent j = p")
        case True
        have "\<not> cmppri cb (P (d p)) (P (d j))" using A [of j] j ji False True by auto
        then show ?thesis using True e ej mp cmp_trans by auto
      next
        case False
        then show ?thesis using A [of j] j ji \<open>parent j \<noteq> i\<close> e ej by auto
      qed
    qed
  qed
  have second: "\<not> cmppri cb (P (e (parent p))) (P (e j))"
    if j: "2 \<le> j" "j < n" "parent j = p" "2 \<le> p" for j
  proof -
    have pp: "parent p \<noteq> p" "parent p \<noteq> i" "j \<noteq> p"
      using j pi by (auto simp: p_def parent_def)
    have top: "\<not> cmppri cb (P (d (parent p))) (P (d p))" using A [of p] pi j pp by auto
    show ?thesis
    proof (cases "j = i")
      case True
      then show ?thesis using top e pp by simp
    next
      case False
      have "\<not> cmppri cb (P (d p)) (P (d j))" using A [of j] j False pi by auto
      then show ?thesis using top e pp False cmp_trans by auto
    qed
  qed
  show ?thesis using first second by (auto simp: up_heap_def p_def [symmetric] e_def [symmetric])
qed


lemma bubble_loop_spec:
  assumes "up_heap (getpri cb h) (d(i := m)) n i" "pos_ok h (d(i := m)) n i" "1 \<le> i" "i < n"
    and "getpri cb h m = mp"
    and "bubble_loop cb mp d h i = (d', h', i')"
  shows "1 \<le> i' \<and> i' < n \<and> heap_ordered (cmppri cb) (getpri cb h) (d'(i' := m)) n \<and>
    pos_ok h' (d'(i' := m)) n i' \<and> (d'(i' := m)) ` {1..<n} = (d(i := m)) ` {1..<n} \<and>
    getpri cb h' = getpri cb h \<and> ok h' = ok h \<and>
    (\<forall>b. b \<notin> (d(i := m)) ` {1..<n} \<longrightarrow> getpos cb h' b = getpos cb h b)"
  using assms
proof (induction i arbitrary: d h rule: less_induct)
  case (less i)
  show ?case
  proof (cases "1 < i \<and> cmppri cb (getpri cb h (d (parent i))) mp")
    case True
    define p d1 h1 where "p = parent i" and "d1 = d(i := d p)" and "h1 = setpos cb (d p) i h"
    have p: "p < i" "1 \<le> p" "p < n" "p \<noteq> i"
      using True less.prems(4) by (auto simp: p_def parent_def)
    have d1: "d1(p := m) = d(i := d p, p := m)" by (simp add: d1_def)
    have okp: "ok h (d p)" using pos_ok_ok [OF less.prems(2), of p] p by simp
    have pri1: "getpri cb h1 = getpri cb h" by (auto simp: h1_def store_laws)
    have ok1: "ok h1 = ok h" by (auto simp: h1_def store_laws)
    have img: "(d1(p := m)) ` {1..<n} = (d(i := m)) ` {1..<n}"
      unfolding d1 using p less.prems(3,4) by (intro fun_upd_swap_image) auto
    have up1: "up_heap (getpri cb h1) (d1(p := m)) n p"
      using up_heap_swap [OF less.prems(1)] True less.prems(4,5) pri1 d1 by (simp add: p_def)
    have pos1: "pos_ok h1 (d1(p := m)) n p"
      unfolding d1 h1_def by (rule pos_ok_swap [OF less.prems(2-4) p(2-4)])
    have loop1: "bubble_loop cb mp d1 h1 p = (d', h', i')"
      using less.prems(6) True
      by (simp add: bubble_loop.simps [of cb mp d h i] p_def d1_def h1_def Let_def)
    have mp1: "getpri cb h1 m = mp" using less.prems(5) pri1 by simp
    note IH = less.IH [OF p(1) up1 pos1 p(2,3) mp1 loop1]
    have "d p \<in> (d(i := m)) ` {1..<n}" using p by (auto intro!: image_eqI [of _ _ p])
    then have "\<forall>b. b \<notin> (d(i := m)) ` {1..<n} \<longrightarrow> getpos cb h1 b = getpos cb h b"
      using okp by (auto simp: h1_def store_laws)
    then show ?thesis
      using IH unfolding img pri1 ok1 by (elim conjE, intro conjI) (assumption | simp)+
  next
    case False
    then have eq: "d' = d" "h' = h" "i' = i"
      using less.prems(6) by (auto simp: bubble_loop.simps [of cb mp d h i])
    have "\<not> cmppri cb (getpri cb h ((d(i := m)) (parent j))) (getpri cb h ((d(i := m)) j))"
      if j: "2 \<le> j" "j < n" for j
    proof (cases "j = i")
      case True
      then show ?thesis using j False less.prems(5) by (auto simp: parent_def)
    next
      case False
      then show ?thesis using j less.prems(1) by (simp add: up_heap_def)
    qed
    then have "heap_ordered (cmppri cb) (getpri cb h) (d(i := m)) n"
      by (simp add: heap_ordered_def)
    then show ?thesis using less.prems(2-4) eq by (simp del: fun_upd_apply)
  qed
qed


lemma maxchild_best:
  assumes "c = maxchild cb n d h i" "1 \<le> i"
  shows "c = 0 \<Longrightarrow> parent j = i \<Longrightarrow> 2 \<le> j \<Longrightarrow> n \<le> j"
    and "c \<noteq> 0 \<Longrightarrow> parent c = i \<and> 2 \<le> c \<and> c < n \<and> i < c"
    and "c \<noteq> 0 \<Longrightarrow> parent j = i \<Longrightarrow> 2 \<le> j \<Longrightarrow> j < n \<Longrightarrow>
      \<not> cmppri cb (getpri cb h (d c)) (getpri cb h (d j))"
proof -
  have ch: "j = 2 * i \<or> j = 2 * i + 1" if "parent j = i"
    using that by (auto simp: parent_def)
  show "c = 0 \<Longrightarrow> parent j = i \<Longrightarrow> 2 \<le> j \<Longrightarrow> n \<le> j"
    using assms ch by (auto simp: maxchild_def left_def Let_def split: if_splits)
  show "c \<noteq> 0 \<Longrightarrow> parent c = i \<and> 2 \<le> c \<and> c < n \<and> i < c"
    using assms by (auto simp: maxchild_def left_def parent_def Let_def split: if_splits)
  show "\<not> cmppri cb (getpri cb h (d c)) (getpri cb h (d j))"
    if "c \<noteq> 0" "parent j = i" "2 \<le> j" "j < n"
    using assms that(1,4) ch [OF that(2)] cmp_irrefl cmp_asym
    by (auto simp: maxchild_def left_def Let_def split: if_splits)
qed

lemma down_heap_swap:
  assumes "down_heap P (d(i := m)) n i" "1 \<le> i" "i < c" "c < n" "parent c = i"
    and "cmppri cb (P m) (P (d c))"
    and "\<And>j. parent j = i \<Longrightarrow> 2 \<le> j \<Longrightarrow> j < n \<Longrightarrow> \<not> cmppri cb (P (d c)) (P (d j))"
  shows "down_heap P (d(i := d c, c := m)) n c"
proof -
  define e where "e = d(i := d c, c := m)"
  have e: "e i = d c" "e c = m" "\<And>j. j \<noteq> i \<Longrightarrow> j \<noteq> c \<Longrightarrow> e j = d j"
    using assms(3) by (auto simp: e_def)
  have c2: "2 \<le> c" using assms(2,3) by simp
  have A: "\<not> cmppri cb (P (d (parent j))) (P ((d(i := m)) j))"
    if "2 \<le> j" "j < n" "parent j \<noteq> i" for j
    using assms(1) that by (auto simp: down_heap_def)
  have first: "\<not> cmppri cb (P (e (parent j))) (P (e j))" if j: "2 \<le> j" "j < n" "parent j \<noteq> c" for j
  proof (cases "parent j = i")
    case True
    then show ?thesis
      using assms(6,7) j e cmp_asym by (cases "j = c") (auto simp: parent_def)
  next
    case np: False
    then have jc: "j \<noteq> c" using assms(5) by auto
    have ep: "e (parent j) = d (parent j)" using e np j by simp
    show ?thesis
    proof (cases "j = i")
      case True
      have "\<not> cmppri cb (P ((d(i := m)) (parent i))) (P ((d(i := m)) c))"
        using assms(1) [unfolded down_heap_def, THEN conjunct2, rule_format, of c]
          assms(4,5) c2 j True by simp
      then show ?thesis using True ep e np assms(3) by simp
    next
      case False
      then show ?thesis using A [OF j(1,2) np] ep e jc by simp
    qed
  qed
  have second: "\<not> cmppri cb (P (e (parent c))) (P (e j))"
    if j: "2 \<le> j" "j < n" "parent j = c" for j
  proof -
    have "j \<noteq> i" "j \<noteq> c" using j assms(2,3) by (auto simp: parent_def)
    then show ?thesis using A [OF j(1,2)] j(3) assms(3,5) e by auto
  qed
  show ?thesis using first second by (auto simp: down_heap_def e_def [symmetric])
qed

lemma percolate_loop_spec:
  assumes "down_heap (getpri cb h) (d(i := m)) n i" "pos_ok h (d(i := m)) n i" "1 \<le> i" "i < n"
    and "getpri cb h m = mp"
    and "percolate_loop cb n mp d h i = (d', h', i')"
  shows "1 \<le> i' \<and> i' < n \<and> heap_ordered (cmppri cb) (getpri cb h) (d'(i' := m)) n \<and>
    pos_ok h' (d'(i' := m)) n i' \<and> (d'(i' := m)) ` {1..<n} = (d(i := m)) ` {1..<n} \<and>
    getpri cb h' = getpri cb h \<and> ok h' = ok h \<and>
    (\<forall>b. b \<notin> (d(i := m)) ` {1..<n} \<longrightarrow> getpos cb h' b = getpos cb h b)"
  using assms
proof (induction "n - i" arbitrary: i d h rule: less_induct)
  case less
  define c where "c = maxchild cb n d h i"
  note best = maxchild_best [OF c_def less.prems(3)]
  show ?case
  proof (cases "c \<noteq> 0 \<and> cmppri cb mp (getpri cb h (d c))")
    case True
    define d1 h1 where "d1 = d(i := d c)" and "h1 = setpos cb (d c) i h"
    have c: "parent c = i" "2 \<le> c" "c < n" "i < c" using best(2) True by auto
    have d1: "d1(c := m) = d(i := d c, c := m)" by (simp add: d1_def)
    have okc: "ok h (d c)" using pos_ok_ok [OF less.prems(2), of c] c by simp
    have pri1: "getpri cb h1 = getpri cb h" by (auto simp: h1_def store_laws)
    have ok1: "ok h1 = ok h" by (auto simp: h1_def store_laws)
    have img: "(d1(c := m)) ` {1..<n} = (d(i := m)) ` {1..<n}"
      unfolding d1 using c less.prems(3,4) by (intro fun_upd_swap_image) auto
    have down1: "down_heap (getpri cb h1) (d1(c := m)) n c"
      unfolding d1 pri1 using True less.prems c best(3)
      by (intro down_heap_swap [OF less.prems(1)]) auto
    have pos1: "pos_ok h1 (d1(c := m)) n c"
      unfolding d1 h1_def using c by (intro pos_ok_swap [OF less.prems(2-4)]) auto
    have loop1: "percolate_loop cb n mp d1 h1 c = (d', h', i')"
      using less.prems(6) True
      by (simp add: percolate_loop.simps [of cb n mp d h i] c_def d1_def h1_def Let_def)
    have mp1: "getpri cb h1 m = mp" using less.prems(5) pri1 by simp
    have "n - c < n - i" "1 \<le> c" using c less.prems(4) by simp_all
    note IH = less.hyps [OF this(1) down1 pos1 this(2) c(3) mp1 loop1]
    have "d c \<in> (d(i := m)) ` {1..<n}" using c by (auto intro!: image_eqI [of _ _ c])
    then have "\<forall>b. b \<notin> (d(i := m)) ` {1..<n} \<longrightarrow> getpos cb h1 b = getpos cb h b"
      using okc by (auto simp: h1_def store_laws)
    then show ?thesis
      using IH unfolding img pri1 ok1 by (elim conjE, intro conjI) (assumption | simp)+
  next
    case False
    then have eq: "d' = d" "h' = h" "i' = i"
      using less.prems(6) by (auto simp: percolate_loop.simps [of cb n mp d h i] Let_def c_def)
    have "\<not> cmppri cb (getpri cb h ((d(i := m)) (parent j))) (getpri cb h ((d(i := m)) j))"
      if j: "2 \<le> j" "j < n" for j
    proof (cases "parent j = i")
      case True
      have "j \<noteq> i" using True j by (auto simp: parent_def)
      moreover have "c \<noteq> 0" using best(1) [OF _ True j(1)] j(2) by auto
      ultimately show ?thesis
        using best(3) [OF _ True j] False True less.prems(5) cmp_trans by auto
    next
      case False
      then show ?thesis using j less.prems(1) by (simp add: down_heap_def)
    qed
    then have "heap_ordered (cmppri cb) (getpri cb h) (d(i := m)) n"
      by (simp add: heap_ordered_def)
    then show ?thesis using less.prems(2-4) eq by (simp del: fun_upd_apply)
  qed
qed


lemma sift_done:
  assumes "pq_cb q = cb" "n = pq_size q" "n \<le> pq_avail q" "1 \<le> i'" "i' < n"
    and "heap_ordered (cmppri cb) (getpri cb h) (d'(i' := m)) n"
    and "pos_ok h' (d'(i' := m)) n i'" "(d'(i' := m)) ` {1..<n} = pq_items q"
    and "getpri cb h' = getpri cb h" "ok h' = ok h"
    and "\<forall>b. b \<notin> pq_items q \<longrightarrow> getpos cb h' b = getpos cb h b"
  shows "pq_step_to ok q h (pq_items q) (q\<lparr>pq_d := d'(i' := m)\<rparr>) (setpos cb m i' h')"
proof -
  have m: "m = (d'(i' := m)) i'" by simp
  have okm: "ok h' m" using pos_ok_ok [OF assms(7,4,5)] by simp
  have mi: "m \<in> pq_items q" unfolding assms(8) [symmetric] using assms(4,5)
    by (intro image_eqI [where x = i']) auto
  have "getpos cb (setpos cb m i' h') ((d'(i' := m)) j) = j \<and> ok h' ((d'(i' := m)) j)"
    if "1 \<le> j" "j < n" for j
    using assms(7) that okm unfolding pos_ok_def by (auto simp: store_laws)
  moreover have "getpri cb (setpos cb m i' h') = getpri cb h"
    and "ok (setpos cb m i' h') = ok h"
    using assms(9,10) by (auto simp: store_laws)
  ultimately show ?thesis
    using assms okm mi
    by (auto simp: pq_step_to_def pq_wf_def pq_items_def store_laws simp del: fun_upd_apply)
qed

lemma bubble_up_spec:
  assumes "pq_cb q = cb" "pq_size q \<le> pq_avail q" "1 \<le> i" "i < pq_size q"
    and "up_heap (getpri cb h) (pq_d q) (pq_size q) i" "pos_ok h (pq_d q) (pq_size q) i"
  shows "pq_step_to ok q h (pq_items q) (fst (bubble_up q h i)) (snd (bubble_up q h i)) \<and>
    pq_size (fst (bubble_up q h i)) = pq_size q"
proof -
  define m where "m = pq_d q i"
  obtain d' h' i' where loop: "bubble_loop cb (getpri cb h m) (pq_d q) h i = (d', h', i')"
    by (metis prod_cases3)
  have triv: "(pq_d q)(i := m) = pq_d q" by (simp add: m_def)
  note sp = bubble_loop_spec [where d = "pq_d q" and m = m and i = i, unfolded triv,
      OF assms(5,6,3,4) refl loop, folded pq_items_def]
  have "bubble_up q h i = (q\<lparr>pq_d := d'(i' := m)\<rparr>, setpos cb m i' h')"
    using loop assms(1) by (simp add: bubble_up_def m_def Let_def)
  moreover have "pq_step_to ok q h (pq_items q) (q\<lparr>pq_d := d'(i' := m)\<rparr>) (setpos cb m i' h')"
    using sp by (intro sift_done [OF assms(1) refl assms(2)]) blast+
  ultimately show ?thesis by simp
qed

lemma percolate_down_spec:
  assumes "pq_cb q = cb" "pq_size q \<le> pq_avail q" "1 \<le> i" "i < pq_size q"
    and "down_heap (getpri cb h) (pq_d q) (pq_size q) i" "pos_ok h (pq_d q) (pq_size q) i"
  shows "pq_step_to ok q h (pq_items q) (fst (percolate_down q h i)) (snd (percolate_down q h i)) \<and>
    pq_size (fst (percolate_down q h i)) = pq_size q"
proof -
  define m where "m = pq_d q i"
  obtain d' h' i' where
    loop: "percolate_loop cb (pq_size q) (getpri cb h m) (pq_d q) h i = (d', h', i')"
    by (metis prod_cases3)
  have triv: "(pq_d q)(i := m) = pq_d q" by (simp add: m_def)
  note sp = percolate_loop_spec [where d = "pq_d q" and m = m and i = i, unfolded triv,
      OF assms(5,6,3,4) refl loop, folded pq_items_def]
  have "percolate_down q h i = (q\<lparr>pq_d := d'(i' := m)\<rparr>, setpos cb m i' h')"
    using loop assms(1) by (simp add: percolate_down_def m_def Let_def)
  moreover have "pq_step_to ok q h (pq_items q) (q\<lparr>pq_d := d'(i' := m)\<rparr>) (setpos cb m i' h')"
    using sp by (intro sift_done [OF assms(1) refl assms(2)]) blast+
  ultimately show ?thesis by simp
qed

end

end
