(* ===== verification/Pqueue_Ops.thy ===== *)
theory Pqueue_Ops
  imports Pqueue
begin

text \<open>
  The functional contracts of the queue's operations, proved in the context of the callbacks'
  contract \<open>pq_store\<close>: each of insert, change-priority, remove and pop keeps the queue well
  formed and changes the set of its items as its name says; peek and pop return a best item; and
  the checker \<open>pqueue_is_valid\<close> decides exactly the heap order.
\<close>

context pq_store
begin

lemma wf_item:
  assumes "pq_wf ok q h" "pq_cb q = cb" "1 \<le> j" "j < pq_size q"
  shows "ok h (pq_d q j)" "getpos cb h (pq_d q j) = j" "pq_d q j \<in> pq_items q"
  using assms by (auto simp: pq_wf_def pq_items_def)

lemma wf_lookup:
  assumes "pq_wf ok q h" "pq_cb q = cb" "a \<in> pq_items q"
  shows "1 \<le> getpos cb h a \<and> getpos cb h a < pq_size q \<and> pq_d q (getpos cb h a) = a \<and> ok h a"
  using assms by (auto simp: pq_wf_def pq_items_def)

lemma wf_inj:
  assumes "pq_wf ok q h" "pq_cb q = cb" "1 \<le> j" "j < pq_size q" "1 \<le> k" "k < pq_size q"
    and "pq_d q j = pq_d q k"
  shows "j = k"
  using wf_item(2) [OF assms(1,2)] assms(3-) by metis

lemma replace_up:
  assumes "heap_ordered (cmppri cb) P d n" "1 \<le> i" "cmppri cb (P (d i)) (P' m)"
    and "\<And>j. 1 \<le> j \<Longrightarrow> j < n \<Longrightarrow> j \<noteq> i \<Longrightarrow> P' (d j) = P (d j)"
  shows "up_heap P' (d(i := m)) n i"
proof -
  have H: "\<not> cmppri cb (P (d (parent j))) (P (d j))" if "2 \<le> j" "j < n" for j
    using assms(1) that by (simp add: heap_ordered_def)
  have par: "1 \<le> parent j \<and> parent j < j" if "2 \<le> j" for j
    using that by (auto simp: parent_def)
  have first: "\<not> cmppri cb (P' ((d(i := m)) (parent j))) (P' ((d(i := m)) j))"
    if j: "2 \<le> j" "j < n" "j \<noteq> i" for j
  proof (cases "parent j = i")
    case True
    have "\<not> cmppri cb (P' m) (P (d i))" using assms(3) cmp_asym by blast
    then show ?thesis using H [OF j(1,2)] True assms(4) [of j] j cmp_trans by auto
  next
    case False
    then show ?thesis using H [OF j(1,2)] j par [OF j(1)] assms(4) [of j] assms(4) [of "parent j"]
      by auto
  qed
  have second: "\<not> cmppri cb (P' ((d(i := m)) (parent i))) (P' ((d(i := m)) j))"
    if j: "2 \<le> j" "j < n" "parent j = i" "2 \<le> i" for j
  proof -
    have i: "i < j" "i < n" using par [OF j(1)] j by auto
    have "\<not> cmppri cb (P (d (parent i))) (P (d j))"
      using H [OF j(1,2)] H [OF j(4) i(2)] cmp_trans j(3) by blast
    then show ?thesis
      using par [OF j(4)] i assms(4) [of j] assms(4) [of "parent i"] j by auto
  qed
  show ?thesis using first second by (auto simp: up_heap_def)
qed

lemma replace_down:
  assumes "heap_ordered (cmppri cb) P d n" "1 \<le> i" "2 \<le> i \<Longrightarrow> \<not> cmppri cb (P (d i)) (P' m)"
    and "\<And>j. 1 \<le> j \<Longrightarrow> j < n \<Longrightarrow> j \<noteq> i \<Longrightarrow> P' (d j) = P (d j)"
  shows "down_heap P' (d(i := m)) n i"
proof -
  have H: "\<not> cmppri cb (P (d (parent j))) (P (d j))" if "2 \<le> j" "j < n" for j
    using assms(1) that by (simp add: heap_ordered_def)
  have par: "1 \<le> parent j \<and> parent j < j" if "2 \<le> j" for j
    using that by (auto simp: parent_def)
  have first: "\<not> cmppri cb (P' ((d(i := m)) (parent j))) (P' ((d(i := m)) j))"
    if j: "2 \<le> j" "j < n" "parent j \<noteq> i" for j
  proof (cases "j = i")
    case True
    then show ?thesis using H [OF j(1,2)] assms(3) cmp_trans j par [OF j(1)] assms(4) [of "parent j"]
      by auto
  next
    case False
    then show ?thesis using H [OF j(1,2)] j par [OF j(1)] assms(4) [of j] assms(4) [of "parent j"]
      by auto
  qed
  have second: "\<not> cmppri cb (P' ((d(i := m)) (parent i))) (P' ((d(i := m)) j))"
    if j: "2 \<le> j" "j < n" "parent j = i" "2 \<le> i" for j
  proof -
    have i: "i < j" "i < n" using par [OF j(1)] j by auto
    have "\<not> cmppri cb (P (d (parent i))) (P (d j))"
      using H [OF j(1,2)] H [OF j(4) i(2)] cmp_trans j(3) by blast
    then show ?thesis
      using par [OF j(4)] i assms(4) [of j] assms(4) [of "parent i"] j by auto
  qed
  show ?thesis using first second by (auto simp: down_heap_def)
qed

lemma heap_top:
  assumes "heap_ordered (cmppri cb) P d n" "1 \<le> j" "j < n"
  shows "\<not> cmppri cb (P (d 1)) (P (d j))"
  using assms(2,3)
proof (induction j rule: less_induct)
  case (less j)
  show ?case
  proof (cases "j = 1")
    case True
    then show ?thesis by (simp add: cmp_irrefl)
  next
    case False
    then have p: "1 \<le> parent j" "parent j < j" using less.prems by (auto simp: parent_def)
    have "\<not> cmppri cb (P (d 1)) (P (d (parent j)))" using less p by simp
    moreover have "\<not> cmppri cb (P (d (parent j))) (P (d j))"
      using assms(1) False less.prems by (simp add: heap_ordered_def)
    ultimately show ?thesis using cmp_trans by blast
  qed
qed

theorem insert_spec:
  assumes wf: "pq_wf ok q h" and cb: "pq_cb q = cb"
    and a: "ok h a" "a \<notin> pq_items q" and room: "pq_size q < pq_avail q"
  shows "\<exists>q' h'. pqueue_insert q h a = Some (q', h') \<and>
    pq_step_to ok q h (insert a (pq_items q)) q' h' \<and> pq_size q' = pq_size q + 1"
proof -
  define n q1 where "n = pq_size q" and "q1 = q\<lparr>pq_size := n + 1, pq_d := (pq_d q)(n := a)\<rparr>"
  have n: "1 \<le> n" using wf by (simp add: pq_wf_def n_def)
  have items: "pq_items q1 = insert a (pq_items q)"
    using n by (auto simp: q1_def pq_items_def n_def image_iff less_Suc_eq Bex_def)
  have other: "pq_d q j \<noteq> a" if "1 \<le> j" "j < n" for j
    using a(2) wf_item(3) [OF wf cb] that by (auto simp: n_def)
  have pos: "pos_ok h (pq_d q1) (n + 1) n"
    using other a(1) n wf_item(1,2) [OF wf cb]
    by (auto simp: pos_ok_def q1_def n_def less_Suc_eq)
  have "heap_ordered (cmppri cb) (getpri cb h) (pq_d q) n"
    using wf cb by (simp add: pq_wf_def n_def)
  then have up: "up_heap (getpri cb h) (pq_d q1) (n + 1) n"
    by (auto simp: up_heap_def heap_ordered_def q1_def parent_def less_Suc_eq)
  have "pq_step_to ok q1 h (pq_items q1) (fst (bubble_up q1 h n)) (snd (bubble_up q1 h n)) \<and>
      pq_size (fst (bubble_up q1 h n)) = pq_size q1"
    using cb room n pos up by (intro bubble_up_spec) (auto simp: q1_def n_def)
  moreover have "pqueue_insert q h a = Some (bubble_up q1 h n)"
    using room by (simp add: pqueue_insert_def q1_def n_def Let_def)
  ultimately show ?thesis
    unfolding items by (cases "bubble_up q1 h n") (auto simp: pq_step_to_def q1_def n_def)
qed

theorem change_priority_spec:
  assumes wf: "pq_wf ok q h" and cb: "pq_cb q = cb" and a: "a \<in> pq_items q" and p: "pri_ok p"
    and res: "pqueue_change_priority q h p a = (q', h')"
  shows "pq_step_to ok q (setpri cb a p h) (pq_items q) q' h' \<and> pq_size q' = pq_size q"
proof -
  define i h1 where "i = getpos cb h a" and "h1 = setpri cb a p h"
  have i: "1 \<le> i" "i < pq_size q" "pq_d q i = a" "ok h a"
    using wf_lookup [OF wf cb a] by (auto simp: i_def)
  have P1: "getpri cb h1 b = (if b = a then p else getpri cb h b)" for b
    using i(4) p by (simp add: h1_def store_laws)
  have other: "pq_d q j \<noteq> a" if "1 \<le> j" "j < pq_size q" "j \<noteq> i" for j
    using wf_inj [OF wf cb, of j i] i that by auto
  have pos: "pos_ok h1 (pq_d q) (pq_size q) i"
    using other wf_item(1,2) [OF wf cb] i by (auto simp: pos_ok_def h1_def store_laws)
  have ho: "heap_ordered (cmppri cb) (getpri cb h) (pq_d q) (pq_size q)"
    using wf cb by (simp add: pq_wf_def)
  have av: "pq_size q \<le> pq_avail q" using wf by (simp add: pq_wf_def)
  have posn: "getpos cb h1 a = i" by (simp add: h1_def i_def store_laws)
  have agree: "getpri cb h1 (pq_d q j) = getpri cb h (pq_d q j)"
    if "1 \<le> j" "j < pq_size q" "j \<noteq> i" for j
    using P1 other that by simp
  have triv: "(pq_d q)(i := a) = pq_d q" using i by auto
  show ?thesis
  proof (cases "cmppri cb (getpri cb h a) p")
    case True
    have "up_heap (getpri cb h1) ((pq_d q)(i := a)) (pq_size q) i"
      using True i P1 agree by (intro replace_up [OF ho]) auto
    then have up: "up_heap (getpri cb h1) (pq_d q) (pq_size q) i" by (simp only: triv)
    have "pqueue_change_priority q h p a = bubble_up q h1 i"
      using True posn cb by (simp add: pqueue_change_priority_def Let_def h1_def)
    then show ?thesis
      using bubble_up_spec [OF cb av i(1,2) up pos] res by (metis fst_conv h1_def snd_conv)
  next
    case False
    have "down_heap (getpri cb h1) ((pq_d q)(i := a)) (pq_size q) i"
      using False i P1 agree by (intro replace_down [OF ho]) auto
    then have down: "down_heap (getpri cb h1) (pq_d q) (pq_size q) i" by (simp only: triv)
    have "pqueue_change_priority q h p a = percolate_down q h1 i"
      using False posn cb by (simp add: pqueue_change_priority_def Let_def h1_def)
    then show ?thesis
      using percolate_down_spec [OF cb av i(1,2) down pos] res by (metis fst_conv h1_def snd_conv)
  qed
qed

text \<open>The slot \<open>i\<close> is overwritten by the last item and the queue shrinks by one.\<close>

definition cut :: "('a, 'h) pqueue_t \<Rightarrow> nat \<Rightarrow> ('a, 'h) pqueue_t" where
  "cut q i = q\<lparr>pq_size := pq_size q - 1, pq_d := (pq_d q)(i := pq_d q (pq_size q - 1))\<rparr>"

lemma cut_items:
  assumes wf: "pq_wf ok q h" and cb: "pq_cb q = cb" and i: "1 \<le> i" "i < pq_size q"
  shows "pq_items (cut q i) = pq_items q - {pq_d q i}"
proof -
  let ?n = "pq_size q - 1" and ?f = "pq_d q"
  have inj: "inj_on ?f {1..<pq_size q}" using wf_inj [OF wf cb] by (auto simp: inj_on_def)
  have "(?f(i := ?f ?n)) ` {1..<?n} = ?f ` ({1..<pq_size q} - {i})"
  proof (cases "i = ?n")
    case True
    then have "{1..<pq_size q} - {i} = {1..<?n}" by auto
    then show ?thesis using True by simp
  next
    case False
    then have "{1..<pq_size q} - {i} = insert ?n ({1..<?n} - {i})" and "i \<in> {1..<?n}"
      using i by auto
    then show ?thesis by (simp only: fun_upd_image if_True image_insert)
  qed
  also have "\<dots> = ?f ` {1..<pq_size q} - {?f i}"
    using i by (subst inj_on_image_set_diff [OF inj]) auto
  finally show ?thesis by (simp add: cut_def pq_items_def)
qed

lemma cut_pos_ok:
  assumes wf: "pq_wf ok q h" and cb: "pq_cb q = cb" and i: "1 \<le> i" "i < pq_size q - 1"
  shows "pos_ok h (pq_d (cut q i)) (pq_size q - 1) i"
proof -
  have "pq_d q j \<noteq> pq_d q (pq_size q - 1)" if "1 \<le> j" "j < pq_size q - 1" for j
    using wf_inj [OF wf cb, of j "pq_size q - 1"] that by auto
  then show ?thesis
    using wf_item(1,2) [OF wf cb] i by (auto simp: pos_ok_def cut_def)
qed

lemma cut_sift:
  assumes wf: "pq_wf ok q h" and cb: "pq_cb q = cb" and i: "1 \<le> i" "i < pq_size q - 1"
  shows "cmppri cb (getpri cb h (pq_d q i)) (getpri cb h (pq_d (cut q i) i)) \<Longrightarrow>
      pq_step_to ok q h (pq_items q - {pq_d q i}) (fst (bubble_up (cut q i) h i))
        (snd (bubble_up (cut q i) h i)) \<and> pq_size (fst (bubble_up (cut q i) h i)) = pq_size q - 1"
    and "2 \<le> i \<longrightarrow> \<not> cmppri cb (getpri cb h (pq_d q i)) (getpri cb h (pq_d (cut q i) i)) \<Longrightarrow>
      pq_step_to ok q h (pq_items q - {pq_d q i}) (fst (percolate_down (cut q i) h i))
        (snd (percolate_down (cut q i) h i)) \<and>
      pq_size (fst (percolate_down (cut q i) h i)) = pq_size q - 1"
proof -
  let ?n = "pq_size q - 1"
  have isz: "i < pq_size q" using i by simp
  note items = cut_items [OF wf cb i(1) isz]
  have ho: "heap_ordered (cmppri cb) (getpri cb h) (pq_d q) ?n"
    using wf cb by (auto simp: pq_wf_def heap_ordered_def)
  have c: "pq_cb (cut q i) = cb" "pq_size (cut q i) = ?n" "pq_size (cut q i) \<le> pq_avail (cut q i)"
    "pq_avail (cut q i) = pq_avail q" and d: "pq_d (cut q i) = (pq_d q)(i := pq_d q ?n)"
    using cb wf by (auto simp: cut_def pq_wf_def)
  have pos: "pos_ok h (pq_d (cut q i)) (pq_size (cut q i)) i"
    using cut_pos_ok [OF wf cb i] c by simp
  have conv: "pq_step_to ok (cut q i) h (pq_items (cut q i)) q' h' \<Longrightarrow>
      pq_step_to ok q h (pq_items q - {pq_d q i}) q' h'" for q' h'
    unfolding items using cb c by (simp add: pq_step_to_def)
  have i': "i < pq_size (cut q i)" using i c by simp
  {
    assume "cmppri cb (getpri cb h (pq_d q i)) (getpri cb h (pq_d (cut q i) i))"
    then have "up_heap (getpri cb h) (pq_d (cut q i)) (pq_size (cut q i)) i"
      unfolding c(2) d using i by (intro replace_up [OF ho]) auto
    from bubble_up_spec [OF c(1,3) i(1) i' this pos]
    show "pq_step_to ok q h (pq_items q - {pq_d q i}) (fst (bubble_up (cut q i) h i))
        (snd (bubble_up (cut q i) h i)) \<and> pq_size (fst (bubble_up (cut q i) h i)) = ?n"
      using conv c by simp
  next
    assume "2 \<le> i \<longrightarrow> \<not> cmppri cb (getpri cb h (pq_d q i)) (getpri cb h (pq_d (cut q i) i))"
    then have "down_heap (getpri cb h) (pq_d (cut q i)) (pq_size (cut q i)) i"
      unfolding c(2) d using i by (intro replace_down [OF ho]) auto
    from percolate_down_spec [OF c(1,3) i(1) i' this pos]
    show "pq_step_to ok q h (pq_items q - {pq_d q i}) (fst (percolate_down (cut q i) h i))
        (snd (percolate_down (cut q i) h i)) \<and> pq_size (fst (percolate_down (cut q i) h i)) = ?n"
      using conv c by simp
  }
qed

text \<open>Removing the last item: the sift-down starts, and ends, one slot past the queue.\<close>

lemma cut_last:
  assumes wf: "pq_wf ok q h" and cb: "pq_cb q = cb" and i: "1 \<le> i" "i = pq_size q - 1"
  shows "pq_step_to ok q h (pq_items q - {pq_d q i}) (fst (percolate_down (cut q i) h i))
      (snd (percolate_down (cut q i) h i)) \<and>
    pq_size (fst (percolate_down (cut q i) h i)) = pq_size q - 1"
proof -
  have isz: "i < pq_size q" using i by simp
  have "percolate_loop cb i mp (pq_d q) h i = (pq_d q, h, i)" for mp
    using i(1) by (simp add: percolate_loop.simps [of cb i mp] maxchild_def left_def)
  then have r: "percolate_down (cut q i) h i = (cut q i, setpos cb (pq_d q i) i h)"
    using i cb by (simp add: percolate_down_def cut_def Let_def)
  have q': "pq_size (cut q i) = i" "pq_d (cut q i) = pq_d q" "pq_cb (cut q i) = cb"
    "pq_avail (cut q i) = pq_avail q"
    using i cb by (auto simp: cut_def)
  have okm: "ok h (pq_d q i)" "getpos cb h (pq_d q i) = i" using wf_item [OF wf cb i(1) isz] by auto
  have "getpos cb (setpos cb (pq_d q i) i h) b = getpos cb h b" for b
    using okm by (simp add: store_laws)
  moreover have "getpri cb (setpos cb (pq_d q i) i h) = getpri cb h"
    and "ok (setpos cb (pq_d q i) i h) = ok h"
    by (auto simp: store_laws)
  moreover have "pq_wf ok (cut q i) (setpos cb (pq_d q i) i h)"
    using calculation wf cb i q' by (auto simp: pq_wf_def heap_ordered_def)
  ultimately show ?thesis
    using r q' i cut_items [OF wf cb i(1) isz] cb by (simp add: pq_step_to_def)
qed

theorem remove_spec:
  assumes wf: "pq_wf ok q h" and cb: "pq_cb q = cb" and a: "a \<in> pq_items q"
    and res: "pqueue_remove q h a = (q', h')"
  shows "pq_step_to ok q h (pq_items q - {a}) q' h' \<and> pq_size q' = pq_size q - 1"
proof -
  define i where "i = getpos cb h a"
  have i: "1 \<le> i" "i < pq_size q" "pq_d q i = a" using wf_lookup [OF wf cb a] by (auto simp: i_def)
  have eq: "pqueue_remove q h a =
      (if cmppri cb (getpri cb h (pq_d q i)) (getpri cb h (pq_d (cut q i) i))
       then bubble_up (cut q i) h i else percolate_down (cut q i) h i)"
    using cb i(3) by (simp add: pqueue_remove_def Let_def cut_def i_def)
  show ?thesis
  proof (cases "i = pq_size q - 1")
    case True
    then have "pq_d (cut q i) i = pq_d q i" by (simp add: cut_def)
    then have "pqueue_remove q h a = percolate_down (cut q i) h i" using eq cmp_irrefl by simp
    then show ?thesis using cut_last [OF wf cb i(1) True] i(3) res
      by (metis fst_conv snd_conv)
  next
    case False
    then have "i < pq_size q - 1" using i by simp
    then show ?thesis using cut_sift [OF wf cb i(1)] i(3) res eq
      by (metis fst_conv snd_conv)
  qed
qed

theorem peek_spec:
  assumes wf: "pq_wf ok q h" and cb: "pq_cb q = cb"
  shows "case pqueue_peek q of None \<Rightarrow> pq_items q = {}
    | Some a \<Rightarrow> a \<in> pq_items q \<and> (\<forall>b \<in> pq_items q. \<not> cmppri cb (getpri cb h a) (getpri cb h b))"
proof (cases "pq_size q = 1")
  case True
  then show ?thesis by (simp add: pqueue_peek_def pq_items_def)
next
  case False
  then have n: "1 < pq_size q" using wf by (simp add: pq_wf_def)
  have "heap_ordered (cmppri cb) (getpri cb h) (pq_d q) (pq_size q)"
    using wf cb by (simp add: pq_wf_def)
  then have "\<forall>b \<in> pq_items q. \<not> cmppri cb (getpri cb h (pq_d q 1)) (getpri cb h b)"
    using heap_top [where d = "pq_d q" and n = "pq_size q"] by (auto simp: pq_items_def)
  then show ?thesis using n False by (auto simp: pqueue_peek_def pq_items_def)
qed

theorem pop_spec:
  assumes wf: "pq_wf ok q h" and cb: "pq_cb q = cb" and res: "pqueue_pop q h = (r, q', h')"
  shows "r = pqueue_peek q"
    and "r = None \<Longrightarrow> q' = q \<and> h' = h"
    and "r = Some a \<Longrightarrow> pq_step_to ok q h (pq_items q - {a}) q' h' \<and> pq_size q' = pq_size q - 1"
proof -
  show "r = pqueue_peek q" and "r = None \<Longrightarrow> q' = q \<and> h' = h"
    using res by (auto simp: pqueue_pop_def pqueue_peek_def Let_def split: if_splits)
  assume some: "r = Some a"
  then have n: "1 < pq_size q" and a: "a = pq_d q 1"
    and pd: "percolate_down (cut q 1) h 1 = (q', h')"
    using res wf by (auto simp: pqueue_pop_def Let_def pq_wf_def cut_def split: if_splits)
  show "pq_step_to ok q h (pq_items q - {a}) q' h' \<and> pq_size q' = pq_size q - 1"
  proof (cases "1 = pq_size q - 1")
    case True
    then show ?thesis using cut_last [OF wf cb _ True] a pd by simp
  next
    case False
    then have "1 < pq_size q - 1" using n by simp
    then show ?thesis using cut_sift(2) [OF wf cb, of 1] a pd by simp
  qed
qed

theorem init_spec: "pq_wf ok (pqueue_init n cb d0) h \<and> pq_items (pqueue_init n cb d0) = {}"
  by (simp add: pqueue_init_def pq_wf_def heap_ordered_def pq_items_def)

end

subsection \<open>The checker\<close>

definition below :: "nat \<Rightarrow> nat \<Rightarrow> bool" where
  "below pos j \<longleftrightarrow> (\<exists>k. j div 2 ^ k = pos)"

lemma below_cases:
  assumes "1 \<le> pos"
  shows "below pos j \<longleftrightarrow> j = pos \<or> below (left pos) j \<or> below (right pos) j"
proof
  assume "below pos j"
  then obtain k where k: "j div 2 ^ k = pos" by (auto simp: below_def)
  show "j = pos \<or> below (left pos) j \<or> below (right pos) j"
  proof (cases k)
    case 0
    then show ?thesis using k by simp
  next
    case (Suc l)
    then have "(j div 2 ^ l) div 2 = pos" using k by (simp add: div_mult2_eq [symmetric] mult.commute)
    then have "j div 2 ^ l = left pos \<or> j div 2 ^ l = right pos"
      by (auto simp: left_def right_def)
    then show ?thesis by (auto simp: below_def)
  qed
next
  have "below (j div 2) i" if "below j i" for i j
  proof -
    from that obtain k where "i div 2 ^ k = j" by (auto simp: below_def)
    then have "i div 2 ^ Suc k = j div 2"
      by (metis div_mult2_eq mult.commute power_Suc)
    then show ?thesis unfolding below_def by blast
  qed
  from this [of "left pos" j] this [of "right pos" j]
  have "below (left pos) j \<Longrightarrow> below pos j" "below (right pos) j \<Longrightarrow> below pos j"
    by (simp_all add: left_def right_def)
  moreover have "below pos pos" unfolding below_def by (rule exI [of _ 0]) simp
  ultimately show "j = pos \<or> below (left pos) j \<or> below (right pos) j \<Longrightarrow> below pos j" by auto
qed

lemma below_ge: "below pos j \<Longrightarrow> pos \<le> j"
  by (auto simp: below_def)

lemma subtree_is_valid_spec:
  assumes "1 \<le> pos"
  shows "subtree_is_valid q h pos =
    Some (\<forall>j. below pos j \<and> j \<noteq> pos \<and> j < pq_size q \<longrightarrow>
      \<not> cmppri (pq_cb q) (getpri (pq_cb q) h (pq_d q (parent j))) (getpri (pq_cb q) h (pq_d q j)))"
  using assms
proof (induction "pq_size q - pos" arbitrary: pos rule: less_induct)
  case less
  let ?bad = "\<lambda>j. cmppri (pq_cb q) (getpri (pq_cb q) h (pq_d q (parent j)))
    (getpri (pq_cb q) h (pq_d q j))"
  have par: "parent (left pos) = pos" "parent (right pos) = pos"
    by (auto simp: parent_def left_def right_def)
  have lt: "pos < left pos" "pos < right pos" using less.prems by (auto simp: left_def right_def)
  have IH: "subtree_is_valid q h c = Some (\<forall>j. below c j \<and> j \<noteq> c \<and> j < pq_size q \<longrightarrow> \<not> ?bad j)"
    if "c < pq_size q" "pos < c" for c
    using that less.hyps [of c] less.prems by auto
  have none: "\<not> (below c j \<and> j < pq_size q)" if "\<not> c < pq_size q" for c j
    using that below_ge [of c j] by auto
  have ne: "below (left pos) j \<or> below (right pos) j \<Longrightarrow> j \<noteq> pos" for j
    using lt below_ge [of _ j] by fastforce
  have self: "below c c" for c unfolding below_def by (rule exI [of _ 0]) simp
  have side: "(\<forall>j. below c j \<and> j < pq_size q \<longrightarrow> \<not> ?bad j) \<longleftrightarrow>
      \<not> ?bad c \<and> (\<forall>j. below c j \<and> j \<noteq> c \<and> j < pq_size q \<longrightarrow> \<not> ?bad j)"
    if "c < pq_size q" for c
    using that self [of c] by blast
  define Q where "Q c \<longleftrightarrow> (\<forall>j. below c j \<and> j \<noteq> c \<and> j < pq_size q \<longrightarrow> \<not> ?bad j)" for c
  define R where "R c \<longleftrightarrow> (c < pq_size q \<longrightarrow> \<not> ?bad c \<and> Q c)" for c
  have R: "R c \<longleftrightarrow> (\<forall>j. below c j \<and> j < pq_size q \<longrightarrow> \<not> ?bad j)" for c
  proof (cases "c < pq_size q")
    case True
    show ?thesis unfolding R_def Q_def side [OF True] using True by blast
  next
    case False
    then show ?thesis unfolding R_def using none [OF False] by blast
  qed
  have Q: "Q pos \<longleftrightarrow> R (left pos) \<and> R (right pos)"
    unfolding Q_def R using below_cases [OF less.prems] ne by blast
  have "subtree_is_valid q h c = Some (Q c)" if "c < pq_size q" "pos < c" for c
    using IH [OF that] by (simp only: Q_def)
  note IHQ = this [OF _ lt(1)] this [OF _ lt(2)]
  have "subtree_is_valid q h pos = Some (R (left pos) \<and> R (right pos))"
    unfolding R_def par using IHQ by (subst subtree_is_valid.simps) (simp add: Let_def)
  then show ?case unfolding Q [symmetric] by (simp only: Q_def)
qed

text \<open>
  C13: the self-check of a priority queue ends, and answers yes exactly when no item has a better
  priority than the item of its parent slot, whatever the comparison and the stored priorities.
\<close>

theorem pqueue_is_valid_iff:
  "pqueue_is_valid q h =
     Some (heap_ordered (cmppri (pq_cb q)) (getpri (pq_cb q) h) (pq_d q) (pq_size q))"
proof -
  have "below 1 j" if "1 \<le> j" for j
    using that
  proof (induction j rule: less_induct)
    case (less j)
    show ?case
    proof (cases "j = 1")
      case True
      then show ?thesis unfolding below_def by (intro exI [of _ 0]) simp
    next
      case False
      then have "below 1 (j div 2)" using less by auto
      then obtain k where "j div 2 div 2 ^ k = 1" by (auto simp: below_def)
      then have "j div 2 ^ Suc k = 1" by (simp add: div_mult2_eq)
      then show ?thesis unfolding below_def by blast
    qed
  qed
  then have "below 1 j \<and> j \<noteq> 1 \<longleftrightarrow> 2 \<le> j" for j using below_ge [of 1 j] by auto
  then have "(\<forall>j. below 1 j \<and> j \<noteq> 1 \<and> j < n \<longrightarrow> B j) \<longleftrightarrow> (\<forall>j. 2 \<le> j \<and> j < n \<longrightarrow> B j)"
    for n B by blast
  then show ?thesis
    unfolding pqueue_is_valid_def heap_ordered_def by (subst subtree_is_valid_spec) simp_all
qed

end
