(* ===== verification/Ftl_State.thy ===== *)
theory Ftl_State
  imports Score Pqueue_Ops Nand
begin

text \<open>
  The state of one conventional FTL instance (\<open>conv_ftl.h\<close>) and its small accessors
  (\<open>conv_ftl.c\<close>, lines 97 to 251): mapping and reverse mapping tables, the callbacks of the victim
  queue, write credits. A pointer to a \<open>struct line\<close> is the line's index; the lists of free and
  full lines are lists of indices.
\<close>

subsection \<open>Data\<close>

definition GC_MODE_GREEDY :: int where [cdefs]: "GC_MODE_GREEDY = 0"
definition GC_MODE_CB :: int where [cdefs]: "GC_MODE_CB = 1"
definition GC_MODE_CAT :: int where [cdefs]: "GC_MODE_CAT = 2"
definition GC_MODE_RL :: int where [cdefs]: "GC_MODE_RL = 3"

definition USER_IO :: nat where [cdefs]: "USER_IO = 0"
definition GC_IO_HOT :: nat where [cdefs]: "GC_IO_HOT = 10"
definition GC_IO_COLD :: nat where [cdefs]: "GC_IO_COLD = 11"

text \<open>\<open>op_area_pcent\<close> is the fraction of the code in hundredths.\<close>

record convparams =
  gc_thres_lines :: u32
  gc_thres_lines_high :: u32
  enable_gc_delay :: bool
  op_area_pcent :: nat
  pba_pcent :: nat

record write_pointer =
  curline :: nat
  wp_ch :: nat
  wp_lun :: nat
  wp_pg :: nat
  wp_blk :: nat
  wp_pl :: nat

record line_mgmt =
  lines :: "line list"
  free_line_list :: "nat list"
  victim_line_pq :: "(nat, line list) pqueue_t"
  full_line_list :: "nat list"
  lm_tt_lines :: nat
  free_line_cnt :: u32
  victim_line_cnt :: u32
  full_line_cnt :: u32

record write_flow_control =
  write_credits :: u32
  credits_to_refill :: u32

definition RL_NUM_S1 :: nat where [cdefs]: "RL_NUM_S1 = 4"
definition RL_NUM_S2 :: nat where [cdefs]: "RL_NUM_S2 = 4"
definition RL_NUM_S3 :: nat where [cdefs]: "RL_NUM_S3 = 4"
definition RL_NUM_S4 :: nat where [cdefs]: "RL_NUM_S4 = 3"
definition RL_NUM_S5 :: nat where [cdefs]: "RL_NUM_S5 = 3"
definition RL_NUM_S6 :: nat where [cdefs]: "RL_NUM_S6 = 3"

definition RL_NUM_STATES :: nat where [cdefs]:
  "RL_NUM_STATES = RL_NUM_S1 * RL_NUM_S2 * RL_NUM_S3 * RL_NUM_S4 * RL_NUM_S5 * RL_NUM_S6"

definition RL_NUM_A1 :: nat where [cdefs]: "RL_NUM_A1 = 4"
definition RL_NUM_A2 :: nat where [cdefs]: "RL_NUM_A2 = 5"
definition RL_NUM_ACTIONS :: nat where [cdefs]: "RL_NUM_ACTIONS = RL_NUM_A1 * RL_NUM_A2"

definition RL_Q_SCALE :: int where [cdefs]: "RL_Q_SCALE = 1000"
definition RL_ALPHA :: int where [cdefs]: "RL_ALPHA = 100"
definition RL_GAMMA :: int where [cdefs]: "RL_GAMMA = 950"
definition RL_EPSILON_INIT :: u32 where [cdefs]: "RL_EPSILON_INIT = 300"
definition RL_EPSILON_MIN :: u32 where [cdefs]: "RL_EPSILON_MIN = 50"
definition RL_EPSILON_DECAY :: u32 where [cdefs]: "RL_EPSILON_DECAY = 999"
definition RL_LAMBDA :: int where [cdefs]: "RL_LAMBDA = 500"

text \<open>The Q table and the rewards are 64-bit signed in the code; here they are integers.\<close>

record rl_config =
  q_table :: "int list list"
  cur_state :: u32
  cur_action :: u32
  alpha_level :: u32
  delta_level :: u32
  epsilon :: u32
  prev_copied_pages :: u64
  prev_erase_max :: u32
  prev_erase_min :: u32
  window_hot :: u32
  window_total :: u32
  prev_hot_pct :: u32
  last_victim_ec :: u32
  total_episodes :: u64
  total_reward :: int

record wear_gap_stats =
  prev_range :: u32
  accum_diff :: int
  samples :: u64
  initialized :: bool

record conv_ftl =
  cf_ssd :: ssd
  cp :: convparams
  maptbl :: "ppa list"
  rmap :: "u64 list"
  wp :: write_pointer
  gc_wp_hot :: write_pointer
  gc_wp_cold :: write_pointer
  lm :: line_mgmt
  wfc :: write_flow_control
  page_meta_tbl :: "page_meta list"
  avg_hot_degree :: u64
  rl :: rl_config
  wgs :: wear_gap_stats
  gc_count :: u64
  gc_copied_pages :: u64
  host_written_pages :: u64

abbreviation spp_of :: "conv_ftl \<Rightarrow> ssdparams" where
  "spp_of ftl \<equiv> sp (cf_ssd ftl)"

text \<open>Writes through \<open>ftl->lm\<close>, \<open>lm->lines[i]\<close>, \<open>ftl->rl\<close>, \<open>ftl->wfc\<close>.\<close>

abbreviation upd_lm :: "(line_mgmt \<Rightarrow> line_mgmt) \<Rightarrow> conv_ftl \<Rightarrow> conv_ftl" where
  "upd_lm f ftl \<equiv> ftl\<lparr>lm := f (lm ftl)\<rparr>"

definition upd_line :: "nat \<Rightarrow> (line \<Rightarrow> line) \<Rightarrow> line_mgmt \<Rightarrow> line_mgmt option" where
  "upd_line i f m =
     map_option (\<lambda>ls. m\<lparr>lines := ls\<rparr>) (modify (lines m) i (\<lambda>l. Some (f l)))"

definition get_line_at :: "line_mgmt \<Rightarrow> nat \<Rightarrow> line option" where
  "get_line_at m i = rd (lines m) i"

subsection \<open>Hot pages\<close>

definition page_is_hot :: "conv_ftl \<Rightarrow> u64 \<Rightarrow> u64 \<Rightarrow> bool option" where
  "page_is_hot ftl lpn now = do {
     pm \<leftarrow> rd (page_meta_tbl ftl) (unat lpn);
     let deg = calc_hot_degree pm now;
     Some (avg_hot_degree ftl \<le> deg * 16)
   }"

subsection \<open>Small accessors\<close>

definition last_pg_in_wordline :: "conv_ftl \<Rightarrow> ppa \<Rightarrow> bool option" where
  "last_pg_in_wordline ftl p =
     (let n = pgs_per_oneshotpg (spp_of ftl)
      in if n = 0 then None else Some (unat (g_pg p) mod n = n - 1))"

definition should_gc_high :: "conv_ftl \<Rightarrow> bool" where
  "should_gc_high ftl \<longleftrightarrow> free_line_cnt (lm ftl) \<le> gc_thres_lines_high (cp ftl)"

definition get_maptbl_ent :: "conv_ftl \<Rightarrow> u64 \<Rightarrow> ppa option" where
  "get_maptbl_ent ftl lpn = rd (maptbl ftl) (unat lpn)"

definition set_maptbl_ent :: "conv_ftl \<Rightarrow> u64 \<Rightarrow> ppa \<Rightarrow> conv_ftl option" where
  "set_maptbl_ent ftl lpn p = do {
     NVMEV_ASSERT (unat lpn < tt_pgs (spp_of ftl));
     t \<leftarrow> wr (maptbl ftl) (unat lpn) p;
     Some (ftl\<lparr>maptbl := t\<rparr>)
   }"

definition ppa2pgidx :: "conv_ftl \<Rightarrow> ppa \<Rightarrow> nat option" where
  "ppa2pgidx ftl p = do {
     let spp = spp_of ftl;
     let idx = unat (g_ch p) * pgs_per_ch spp + unat (g_lun p) * pgs_per_lun spp +
               unat (g_pl p) * pgs_per_pl spp + unat (g_blk p) * pgs_per_blk spp + unat (g_pg p);
     NVMEV_ASSERT (idx < tt_pgs spp);
     Some idx
   }"

definition get_rmap_ent :: "conv_ftl \<Rightarrow> ppa \<Rightarrow> u64 option" where
  "get_rmap_ent ftl p = do { i \<leftarrow> ppa2pgidx ftl p; rd (rmap ftl) i }"

definition set_rmap_ent :: "conv_ftl \<Rightarrow> u64 \<Rightarrow> ppa \<Rightarrow> conv_ftl option" where
  "set_rmap_ent ftl lpn p = do {
     i \<leftarrow> ppa2pgidx ftl p;
     t \<leftarrow> wr (rmap ftl) i lpn;
     Some (ftl\<lparr>rmap := t\<rparr>)
   }"

subsection \<open>The callbacks of the victim queue\<close>

definition victim_line_cmp_pri :: "u64 \<Rightarrow> u64 \<Rightarrow> bool" where
  "victim_line_cmp_pri nxt cur \<longleftrightarrow> cur < nxt"

definition victim_line_get_pri :: "line list \<Rightarrow> nat \<Rightarrow> u64" where
  "victim_line_get_pri h a = word_of_int (line_vpc (h ! a))"

definition victim_line_set_pri :: "nat \<Rightarrow> u64 \<Rightarrow> line list \<Rightarrow> line list" where
  "victim_line_set_pri a pri h = h[a := (h ! a)\<lparr>line_vpc := sint (ucast pri :: u32)\<rparr>]"

definition victim_line_get_pos :: "line list \<Rightarrow> nat \<Rightarrow> nat" where
  "victim_line_get_pos h a = line_pos (h ! a)"

definition victim_line_set_pos :: "nat \<Rightarrow> nat \<Rightarrow> line list \<Rightarrow> line list" where
  "victim_line_set_pos a pos h = h[a := (h ! a)\<lparr>line_pos := pos\<rparr>]"

definition victim_cb :: "(nat, line list) pq_callbacks" where
  "victim_cb = \<lparr>cmppri = victim_line_cmp_pri, getpri = victim_line_get_pri,
     setpri = victim_line_set_pri, getpos = victim_line_get_pos, setpos = victim_line_set_pos\<rparr>"

subsection \<open>Addresses\<close>

definition valid_ppa :: "conv_ftl \<Rightarrow> ppa \<Rightarrow> bool" where
  "valid_ppa ftl p \<longleftrightarrow>
     unat (g_ch p) < nchs (spp_of ftl) \<and> unat (g_lun p) < luns_per_ch (spp_of ftl) \<and>
     unat (g_pl p) < pls_per_lun (spp_of ftl) \<and> unat (g_blk p) < blks_per_pl (spp_of ftl) \<and>
     unat (g_pg p) < pgs_per_blk (spp_of ftl)"

definition valid_lpn :: "conv_ftl \<Rightarrow> u64 \<Rightarrow> bool" where
  "valid_lpn ftl lpn \<longleftrightarrow> unat lpn < tt_pgs (spp_of ftl)"

definition mapped_ppa :: "ppa \<Rightarrow> bool" where
  "mapped_ppa p \<longleftrightarrow> ppa_word p \<noteq> UNMAPPED_PPA"

definition is_same_flash_page :: "conv_ftl \<Rightarrow> ppa \<Rightarrow> ppa \<Rightarrow> bool option" where
  "is_same_flash_page ftl p1 p2 =
     (if blk_in_ssd p1 \<noteq> blk_in_ssd p2 then Some False
      else let n = pgs_per_flashpg (spp_of ftl)
           in if n = 0 then None else Some (unat (g_pg p1) div n = unat (g_pg p2) div n))"

end
