(* ===== verification/Victim.thy ===== *)
theory Victim
  imports Ftl_State
begin

text \<open>
  Victim selection and the Q-learning agent of the garbage collector (\<open>conv_ftl.c\<close>, lines 253
  to 627): the greedy and the scored selection over the victim queue, erase statistics, the
  discretised state, the choice of an action and the update of the Q table. Queue slots
  \<open>1 .. size - 1\<close> hold line indices, so the code's tests for a null slot have no counterpart.
\<close>

subsection \<open>Selection\<close>

definition select_victim_greedy :: "conv_ftl \<Rightarrow> bool \<Rightarrow> (conv_ftl \<times> nat option) option" where
  "select_victim_greedy ftl force = (
     let m = lm ftl in
     case pqueue_peek (victim_line_pq m) of
       None \<Rightarrow> Some (ftl, None)
     | Some v \<Rightarrow> do {
         l \<leftarrow> get_line_at m v;
         if \<not> force \<and> (of_nat (pgs_per_line (spp_of ftl) div 8) :: u64) < word_of_int (line_vpc l)
         then Some (ftl, None)
         else do {
           let (_, q, ls) = pqueue_pop (victim_line_pq m) (lines m);
           m \<leftarrow> upd_line v (\<lambda>l. l\<lparr>line_pos := 0\<rparr>) (m\<lparr>victim_line_pq := q, lines := ls\<rparr>);
           Some (ftl\<lparr>lm := m\<lparr>victim_line_cnt := victim_line_cnt m - 1\<rparr>\<rparr>, Some v)
         }
       })"

text \<open>One step of the scan: \<open>i\<close> is a queue slot, the state the best line and its score.\<close>

definition scan_scored ::
  "line_mgmt \<Rightarrow> u64 \<Rightarrow> u32 \<Rightarrow> u32 \<Rightarrow> nat \<Rightarrow> nat option \<times> u64 \<times> u64 \<Rightarrow> (nat option \<times> u64 \<times> u64) option" where
  "scan_scored m now al dl i s = do {
     let (best, best_num, best_den) = s;
     let c = pq_d (victim_line_pq m) i;
     l \<leftarrow> get_line_at m c;
     (num, den) \<leftarrow> compute_victim_score l now al dl;
     Some (if best = None \<or> best_num * den < num * best_den then (Some c, num, den) else s)
   }"

definition select_victim_scored ::
  "conv_ftl \<Rightarrow> dev \<Rightarrow> u32 \<Rightarrow> u32 \<Rightarrow> (conv_ftl \<times> dev \<times> nat option) option" where
  "select_victim_scored ftl dv al dl = do {
     let m = lm ftl;
     let q = victim_line_pq m;
     let (now, dv) = read_clock dv;
     if pq_size q \<le> 1 then Some (ftl, dv, None)
     else do {
       (best, _, _) \<leftarrow> fold_opt (scan_scored m now al dl) [1..<pq_size q] (None, 0, 1);
       case best of
         None \<Rightarrow> Some (ftl, dv, None)
       | Some v \<Rightarrow> do {
           let (q, ls) = pqueue_remove q (lines m) v;
           m \<leftarrow> upd_line v (\<lambda>l. l\<lparr>line_pos := 0\<rparr>) (m\<lparr>victim_line_pq := q, lines := ls\<rparr>);
           Some (ftl\<lparr>lm := m\<lparr>victim_line_cnt := victim_line_cnt m - 1\<rparr>\<rparr>, dv, Some v)
         }
     }
   }"

definition select_victim_cb :: "conv_ftl \<Rightarrow> dev \<Rightarrow> bool \<Rightarrow> (conv_ftl \<times> dev \<times> nat option) option" where
  "select_victim_cb ftl dv force = select_victim_scored ftl dv 1 0"

definition select_victim_cat :: "conv_ftl \<Rightarrow> dev \<Rightarrow> bool \<Rightarrow> (conv_ftl \<times> dev \<times> nat option) option" where
  "select_victim_cat ftl dv force = select_victim_scored ftl dv 1 2"

subsection \<open>Erase statistics\<close>

text \<open>Maximum, minimum, sum and sum of squares of the erase counts of all lines.\<close>

definition collect_erase_stats :: "line_mgmt \<Rightarrow> (u32 \<times> u32 \<times> u64 \<times> u64) option" where
  "collect_erase_stats m = do {
     (mx, mn, s, sq) \<leftarrow> fold_opt (\<lambda>i st. do {
         let (mx, mn, s, sq) = st;
         l \<leftarrow> get_line_at m i;
         let ec = line_erase_cnt l;
         Some (if mx < ec then ec else mx, if ec < mn then ec else mn,
               s + ucast ec, sq + ucast ec * ucast ec)
       }) [0..<lm_tt_lines m] (0, UINT_MAX, 0, 0);
     Some (mx, if lm_tt_lines m = 0 then 0 else mn, s, sq)
   }"

definition update_wear_gap :: "conv_ftl \<Rightarrow> conv_ftl option" where
  "update_wear_gap ftl = do {
     let w = wgs ftl;
     (ec_max, ec_min, _, _) \<leftarrow> collect_erase_stats (lm ftl);
     let cur_range = ec_max - ec_min;
     Some (if \<not> initialized w
           then ftl\<lparr>wgs := w\<lparr>prev_range := cur_range, initialized := True\<rparr>\<rparr>
           else ftl\<lparr>wgs := w\<lparr>accum_diff := accum_diff w + (uint cur_range - uint (prev_range w)),
                            samples := samples w + 1, prev_range := cur_range\<rparr>\<rparr>)
   }"

subsection \<open>The state of the agent\<close>

record scan_state =
  greedy_best :: "nat option"
  greedy_min_vpc :: u32
  cb_best :: "nat option"
  cb_max :: u64
  cat_best :: "nat option"
  cat_max :: u64
  v_ec_max :: u32
  v_ec_min :: u32
  v_ec_sum :: u64
  v_count :: u32

definition scan_init :: scan_state where
  "scan_init = \<lparr>greedy_best = None, greedy_min_vpc = UINT_MAX, cb_best = None, cb_max = 0,
     cat_best = None, cat_max = 0, v_ec_max = 0, v_ec_min = UINT_MAX, v_ec_sum = 0, v_count = 0\<rparr>"

definition scan_rl :: "line_mgmt \<Rightarrow> u64 \<Rightarrow> nat \<Rightarrow> scan_state \<Rightarrow> scan_state option" where
  "scan_rl m now i s = do {
     let c = pq_d (victim_line_pq m) i;
     l \<leftarrow> get_line_at m c;
     let s = (if word_of_int (line_vpc l) < greedy_min_vpc s
              then s\<lparr>greedy_min_vpc := word_of_int (line_vpc l), greedy_best := Some c\<rparr> else s);
     (num, den) \<leftarrow> compute_victim_score l now 1 0;
     cb_score \<leftarrow> udiv num den;
     let s = (if cb_max s < cb_score then s\<lparr>cb_max := cb_score, cb_best := Some c\<rparr> else s);
     (num, den) \<leftarrow> compute_victim_score l now 1 2;
     cat_score \<leftarrow> udiv num den;
     let s = (if cat_max s < cat_score then s\<lparr>cat_max := cat_score, cat_best := Some c\<rparr> else s);
     let s = (if v_ec_max s < line_erase_cnt l then s\<lparr>v_ec_max := line_erase_cnt l\<rparr> else s);
     let s = (if line_erase_cnt l < v_ec_min s then s\<lparr>v_ec_min := line_erase_cnt l\<rparr> else s);
     Some (s\<lparr>v_ec_sum := v_ec_sum s + ucast (line_erase_cnt l), v_count := v_count s + 1\<rparr>)
   }"

text \<open>The gap, in percent of a line, between the valid pages of two different candidates.\<close>

definition vpc_gap :: "conv_ftl \<Rightarrow> nat option \<Rightarrow> nat option \<Rightarrow> u32 option" where
  "vpc_gap ftl lo hi = (
     case (lo, hi) of
       (Some a, Some b) \<Rightarrow>
         if a \<noteq> b then do {
           la \<leftarrow> get_line_at (lm ftl) a;
           lb \<leftarrow> get_line_at (lm ftl) b;
           if line_vpc la < line_vpc lb
           then do { g \<leftarrow> udiv (word_of_int ((line_vpc lb - line_vpc la) * 100) :: u64)
                         (of_nat (pgs_per_line (spp_of ftl)));
                     Some (ucast g) }
           else Some 0
         } else Some 0
     | _ \<Rightarrow> Some 0)"

definition bucket4 :: "u32 \<Rightarrow> u32 \<Rightarrow> u32 \<Rightarrow> u32 \<Rightarrow> nat" where
  "bucket4 x a b c = (if x < a then 0 else if x < b then 1 else if x < c then 2 else 3)"

definition hot_pct_of :: "rl_config \<Rightarrow> u32" where
  "hot_pct_of r = (if 0 < window_total r then window_hot r * 100 div window_total r else 0)"

definition rl_get_state :: "conv_ftl \<Rightarrow> dev \<Rightarrow> (dev \<times> u32) option" where
  "rl_get_state ftl dv = do {
     let m = lm ftl;
     let r = rl ftl;
     let (now, dv) = read_clock dv;
     s \<leftarrow> fold_opt (scan_rl m now) [1..<pq_size (victim_line_pq m)] scan_init;
     s1_gap \<leftarrow> vpc_gap ftl (greedy_best s) (cb_best s);
     let s1 = bucket4 s1_gap 3 8 18;
     s2_gap \<leftarrow> vpc_gap ftl (cb_best s) (cat_best s);
     let s2 = bucket4 s2_gap 3 8 18;
     let v_ec_mean =
       (if 0 < v_count s then (ucast (v_ec_sum s div ucast (v_count s)) :: u32) else 0);
     let s5 = (if last_victim_ec r \<le> v_ec_mean then 0
               else if last_victim_ec r \<le> v_ec_mean + v_ec_mean div 2 then 1 else 2 :: nat);
     wear_rel \<leftarrow>
       (if 0 < v_count s \<and> 0 < v_ec_mean
        then udiv ((v_ec_max s - v_ec_min s) * 100) (v_ec_mean + 1) else Some 0);
     let s6 = (if wear_rel < 5 then 0 else if wear_rel < 20 then 1 else 2 :: nat);
     let s3 = bucket4 (hot_pct_of r) 10 30 55;
     let diff = signed_take_bit 31 (sint (hot_pct_of r) - sint (prev_hot_pct r));
     let s4 = (if diff < - 8 then 0 else if 8 < diff then 2 else 1 :: nat);
     Some (dv, of_nat (s1 * (RL_NUM_S2 * RL_NUM_S3 * RL_NUM_S4 * RL_NUM_S5 * RL_NUM_S6) +
                       s2 * (RL_NUM_S3 * RL_NUM_S4 * RL_NUM_S5 * RL_NUM_S6) +
                       s3 * (RL_NUM_S4 * RL_NUM_S5 * RL_NUM_S6) +
                       s4 * (RL_NUM_S5 * RL_NUM_S6) +
                       s5 * RL_NUM_S6 + s6))
   }"

subsection \<open>Actions and learning\<close>

definition rl_decode_action :: "rl_config \<Rightarrow> u32 \<Rightarrow> rl_config" where
  "rl_decode_action r action =
     r\<lparr>cur_action := action, alpha_level := action div of_nat RL_NUM_A2,
       delta_level := action mod of_nat RL_NUM_A2\<rparr>"

definition q_read :: "rl_config \<Rightarrow> nat \<Rightarrow> nat \<Rightarrow> int option" where
  "q_read r s a = do { row \<leftarrow> rd (q_table r) s; rd row a }"

text \<open>The first action with the greatest Q value of a state, and that value.\<close>

definition argmax_q :: "rl_config \<Rightarrow> nat \<Rightarrow> (nat \<times> int) option" where
  "argmax_q r state = do {
     q0 \<leftarrow> q_read r state 0;
     fold_opt (\<lambda>a s. do {
         let (best_a, best_q) = s;
         v \<leftarrow> q_read r state a;
         Some (if best_q < v then (a, v) else s)
       }) [1..<RL_NUM_ACTIONS] (0, q0)
   }"

definition rl_select_action :: "rl_config \<Rightarrow> dev \<Rightarrow> u32 \<Rightarrow> (dev \<times> u32) option" where
  "rl_select_action r dv state = do {
     let (x, dv) = get_random_u32 dv;
     if x mod 1000 < epsilon r
     then let (y, dv) = get_random_u32 dv in Some (dv, y mod of_nat RL_NUM_ACTIONS)
     else do {
       (best_a, _) \<leftarrow> argmax_q r (unat state);
       Some (dv, of_nat best_a)
     }
   }"

definition q_write :: "rl_config \<Rightarrow> nat \<Rightarrow> nat \<Rightarrow> int \<Rightarrow> rl_config option" where
  "q_write r s a v =
     map_option (\<lambda>t. r\<lparr>q_table := t\<rparr>) (modify (q_table r) s (\<lambda>row. wr row a v))"

definition clamp :: "int \<Rightarrow> int" where
  "clamp x = (let x = (if 2000 < x then 2000 else x) in if x < - 2000 then - 2000 else x)"

text \<open>
  The reward of one collection: the copied pages relative to a line, and the wear term from the
  erase counts before and after, clamped. Divisions truncate; \<open>erase_mean + 1\<close> wraps.
\<close>

definition waf_penalty_of :: "u64 \<Rightarrow> u32 \<Rightarrow> int" where
  "waf_penalty_of copied ppl =
     (if 0 < ppl then tdiv (sint copied * 1000) (uint ppl) else 0)"

definition wear_penalty_of :: "u32 \<Rightarrow> u32 \<Rightarrow> u32 \<Rightarrow> int option" where
  "wear_penalty_of cur_range prev erase_mean = do {
     NVMEV_ASSERT (erase_mean + 1 \<noteq> 0);
     let wear_delta = signed_take_bit 31 (sint cur_range - sint prev);
     let delta_term = tdiv (wear_delta * 1000) (uint (erase_mean + 1));
     let level_term = tdiv (uint cur_range * 1000) (uint (erase_mean + 1));
     Some (clamp (delta_term + tdiv level_term 4))
   }"

definition rl_update_agent :: "conv_ftl \<Rightarrow> u32 \<Rightarrow> conv_ftl option" where
  "rl_update_agent ftl new_state = do {
     let r = rl ftl;
     let m = lm ftl;
     let ppl = (of_nat (pgs_per_line (spp_of ftl)) :: u32);
     let copied = gc_copied_pages ftl - prev_copied_pages r;
     let waf_penalty = waf_penalty_of copied ppl;
     (erase_max, erase_min, erase_sum, _) \<leftarrow> collect_erase_stats m;
     let erase_mean = (if 0 < lm_tt_lines m
                       then (ucast (erase_sum div of_nat (lm_tt_lines m)) :: u32) else 1);
     let cur_range = erase_max - erase_min;
     let prev = (if prev_erase_min r \<le> prev_erase_max r
                 then prev_erase_max r - prev_erase_min r else 0);
     wear_penalty \<leftarrow> wear_penalty_of cur_range prev erase_mean;
     let reward = - waf_penalty - tdiv (RL_LAMBDA * wear_penalty) RL_Q_SCALE;
     (_, max_q_next) \<leftarrow> argmax_q r (unat new_state);
     old_q \<leftarrow> q_read r (unat (cur_state r)) (unat (cur_action r));
     r \<leftarrow> q_write r (unat (cur_state r)) (unat (cur_action r))
            (old_q + tdiv (RL_ALPHA * (reward + tdiv (RL_GAMMA * max_q_next) RL_Q_SCALE - old_q))
                       RL_Q_SCALE);
     let e = epsilon r * RL_EPSILON_DECAY div 1000;
     Some (ftl\<lparr>rl := r\<lparr>epsilon := (if e < RL_EPSILON_MIN then RL_EPSILON_MIN else e),
                       total_episodes := total_episodes r + 1,
                       total_reward := total_reward r + reward,
                       prev_copied_pages := gc_copied_pages ftl,
                       prev_erase_max := erase_max,
                       prev_erase_min := erase_min\<rparr>\<rparr>)
   }"

end
