(* ===== verification/Lines.thy ===== *)
theory Lines
  imports Ftl_State
begin

text \<open>
  Lines, write pointers, initialisation and page state of the conventional FTL
  (\<open>conv_ftl.c\<close>, lines 629 to 1104).
\<close>

subsection \<open>Initialisation\<close>

definition init_line :: "nat \<Rightarrow> line" where
  "init_line i = \<lparr>line_id = i, line_ipc = 0, line_vpc = 0, line_pos = 0, last_modified_time = 0,
     line_erase_cnt = 0\<rparr>"

text \<open>\<open>d0\<close> is the uninitialised array of the victim queue.\<close>

definition init_lines :: "ssdparams \<Rightarrow> (nat \<Rightarrow> nat) \<Rightarrow> line_mgmt option" where
  "init_lines spp d0 = do {
     let n = unat (of_nat (tt_lines spp) :: u32);
     let m = \<lparr>lines = map init_line [0..<n],
              free_line_list = [0..<n],
              victim_line_pq = pqueue_init n victim_cb d0,
              full_line_list = [],
              lm_tt_lines = n,
              free_line_cnt = of_nat n,
              victim_line_cnt = 0,
              full_line_cnt = 0\<rparr>;
     NVMEV_ASSERT (unat (free_line_cnt m) = tt_lines spp);
     Some m
   }"

definition init_page_meta :: "ssdparams \<Rightarrow> page_meta list" where
  "init_page_meta spp = replicate (tt_pgs spp) \<lparr>update_cnt = 0, last_write_time = 0\<rparr>"

definition init_rl :: rl_config where
  "init_rl = \<lparr>
     q_table = replicate RL_NUM_STATES (replicate RL_NUM_ACTIONS 0),
     cur_state = 0, cur_action = 0, alpha_level = 1, delta_level = 2,
     epsilon = RL_EPSILON_INIT,
     prev_copied_pages = 0, prev_erase_max = 0, prev_erase_min = 0,
     window_hot = 0, window_total = 0, prev_hot_pct = 0,
     last_victim_ec = 0, total_episodes = 0, total_reward = 0\<rparr>"

definition init_wear_gap :: wear_gap_stats where
  "init_wear_gap = \<lparr>prev_range = 0, accum_diff = 0, samples = 0, initialized = False\<rparr>"

definition init_write_flow_control :: "ssdparams \<Rightarrow> write_flow_control" where
  "init_write_flow_control spp =
     \<lparr>write_credits = of_nat (pgs_per_line spp), credits_to_refill = of_nat (pgs_per_line spp)\<rparr>"

definition init_maptbl :: "ssdparams \<Rightarrow> ppa list" where
  "init_maptbl spp = replicate (tt_pgs spp) (ppa_of_word UNMAPPED_PPA)"

definition init_rmap :: "ssdparams \<Rightarrow> u64 list" where
  "init_rmap spp = replicate (tt_pgs spp) INVALID_LPN"

subsection \<open>Write pointers\<close>

definition check_addr :: "nat \<Rightarrow> nat \<Rightarrow> unit option" where
  "check_addr a mx = NVMEV_ASSERT (a < mx)"

text \<open>The first free line, taken off the list; \<open>None\<close> as a result is the code's \<open>NULL\<close>.\<close>

definition get_next_free_line :: "line_mgmt \<Rightarrow> line_mgmt \<times> nat option" where
  "get_next_free_line m = (
     case free_line_list m of
       [] \<Rightarrow> (m, None)
     | cur # rest \<Rightarrow>
         (m\<lparr>free_line_list := rest, free_line_cnt := free_line_cnt m - 1\<rparr>, Some cur))"

definition get_wp :: "conv_ftl \<Rightarrow> nat \<Rightarrow> write_pointer option" where
  "get_wp ftl io_type =
     (if io_type = USER_IO then Some (wp ftl)
      else if io_type = GC_IO_HOT then Some (gc_wp_hot ftl)
      else if io_type = GC_IO_COLD then Some (gc_wp_cold ftl)
      else None)"

definition set_wp :: "conv_ftl \<Rightarrow> nat \<Rightarrow> write_pointer \<Rightarrow> conv_ftl" where
  "set_wp ftl io_type w =
     (if io_type = USER_IO then ftl\<lparr>wp := w\<rparr>
      else if io_type = GC_IO_HOT then ftl\<lparr>gc_wp_hot := w\<rparr>
      else ftl\<lparr>gc_wp_cold := w\<rparr>)"

definition prepare_write_pointer :: "conv_ftl \<Rightarrow> nat \<Rightarrow> conv_ftl option" where
  "prepare_write_pointer ftl io_type = do {
     get_wp ftl io_type;
     let (m, cur) = get_next_free_line (lm ftl);
     c \<leftarrow> cur;
     l \<leftarrow> get_line_at m c;
     Some (set_wp (ftl\<lparr>lm := m\<rparr>) io_type
       \<lparr>curline = c, wp_ch = 0, wp_lun = 0, wp_pg = 0, wp_blk = line_id l, wp_pl = 0\<rparr>)
   }"

text \<open>The end of a block: the current line goes to the full list or the victim queue.\<close>

definition close_line :: "ssdparams \<Rightarrow> line_mgmt \<Rightarrow> nat \<Rightarrow> line_mgmt option" where
  "close_line spp m c = do {
     l \<leftarrow> get_line_at m c;
     if line_vpc l = int (pgs_per_line spp) then do {
       NVMEV_ASSERT (line_ipc l = 0);
       Some (m\<lparr>full_line_list := full_line_list m @ [c], full_line_cnt := full_line_cnt m + 1\<rparr>)
     }
     else do {
       NVMEV_ASSERT (0 < line_ipc l);
       (q, ls) \<leftarrow> pqueue_insert (victim_line_pq m) (lines m) c;
       Some (m\<lparr>victim_line_pq := q, lines := ls, victim_line_cnt := victim_line_cnt m + 1\<rparr>)
     }
   }"

text \<open>
  The step of a write pointer within its line: \<open>Inl\<close> the next position, or \<open>Inr\<close> at the end of
  the block.
\<close>

definition wp_step :: "ssdparams \<Rightarrow> write_pointer \<Rightarrow> (write_pointer + write_pointer) option" where
  "wp_step spp w = do {
     check_addr (wp_pg w) (pgs_per_blk spp);
     NVMEV_ASSERT (pgs_per_oneshotpg spp \<noteq> 0);
     let w = w\<lparr>wp_pg := wp_pg w + 1\<rparr>;
     if wp_pg w mod pgs_per_oneshotpg spp \<noteq> 0 then Some (Inl w)
     else do {
       let w = w\<lparr>wp_pg := wp_pg w - pgs_per_oneshotpg spp\<rparr>;
       check_addr (wp_ch w) (nchs spp);
       let w = w\<lparr>wp_ch := wp_ch w + 1\<rparr>;
       if wp_ch w \<noteq> nchs spp then Some (Inl w)
       else do {
         let w = w\<lparr>wp_ch := 0\<rparr>;
         check_addr (wp_lun w) (luns_per_ch spp);
         let w = w\<lparr>wp_lun := wp_lun w + 1\<rparr>;
         if wp_lun w \<noteq> luns_per_ch spp then Some (Inl w)
         else do {
           let w = w\<lparr>wp_lun := 0, wp_pg := wp_pg w + pgs_per_oneshotpg spp\<rparr>;
           if wp_pg w \<noteq> pgs_per_blk spp then Some (Inl w)
           else Some (Inr (w\<lparr>wp_pg := 0\<rparr>))
         }
       }
     }
   }"

definition advance_write_pointer :: "conv_ftl \<Rightarrow> nat \<Rightarrow> conv_ftl option" where
  "advance_write_pointer ftl io_type = do {
     let spp = spp_of ftl;
     w \<leftarrow> get_wp ftl io_type;
     r \<leftarrow> wp_step spp w;
     case r of
       Inl w \<Rightarrow> Some (set_wp ftl io_type w)
     | Inr w \<Rightarrow> do {
         m \<leftarrow> close_line spp (lm ftl) (curline w);
         check_addr (wp_blk w) (blks_per_pl spp);
         let (m, cur) = get_next_free_line m;
         c \<leftarrow> cur;
         l \<leftarrow> get_line_at m c;
         let w = w\<lparr>curline := c, wp_blk := line_id l\<rparr>;
         check_addr (wp_blk w) (blks_per_pl spp);
         NVMEV_ASSERT (wp_pg w = 0 \<and> wp_lun w = 0 \<and> wp_ch w = 0 \<and> wp_pl w = 0);
         Some (set_wp (ftl\<lparr>lm := m\<rparr>) io_type w)
       }
   }"

definition get_new_page :: "conv_ftl \<Rightarrow> nat \<Rightarrow> ppa option" where
  "get_new_page ftl io_type = do {
     w \<leftarrow> get_wp ftl io_type;
     let p = \<lparr>g_pg = of_nat (wp_pg w), g_blk = of_nat (wp_blk w), g_pl = of_nat (wp_pl w),
              g_lun = of_nat (wp_lun w), g_ch = of_nat (wp_ch w), g_rsv = 0\<rparr>;
     NVMEV_ASSERT (g_pl p = 0);
     Some p
   }"

subsection \<open>FTL instances\<close>

definition conv_init_ftl :: "convparams \<Rightarrow> ssd \<Rightarrow> (nat \<Rightarrow> nat) \<Rightarrow> write_pointer \<Rightarrow> conv_ftl option" where
  "conv_init_ftl cpp ssd d0 w0 = do {
     let spp = sp ssd;
     m \<leftarrow> init_lines spp d0;
     let ftl = \<lparr>cf_ssd = ssd, cp = cpp, maptbl = init_maptbl spp, rmap = init_rmap spp,
                wp = w0, gc_wp_hot = w0, gc_wp_cold = w0,
                lm = m, wfc = init_write_flow_control spp,
                page_meta_tbl = init_page_meta spp, avg_hot_degree = 16,
                rl = init_rl, wgs = init_wear_gap,
                gc_count = 0, gc_copied_pages = 0, host_written_pages = 0\<rparr>;
     ftl \<leftarrow> prepare_write_pointer ftl USER_IO;
     ftl \<leftarrow> prepare_write_pointer ftl GC_IO_HOT;
     prepare_write_pointer ftl GC_IO_COLD
   }"

text \<open>\<open>OP_AREA_PERCENT\<close> is 0.28: 28 hundredths.\<close>

definition conv_init_params :: "ssdparams \<Rightarrow> convparams" where
  "conv_init_params spp = \<lparr>gc_thres_lines = 3,
     gc_thres_lines_high = of_nat (tlc_tt_lines spp * 15 div 100), enable_gc_delay = True,
     op_area_pcent = 28, pba_pcent = 100 + 28\<rparr>"

subsection \<open>Page state\<close>

definition get_line :: "conv_ftl \<Rightarrow> ppa \<Rightarrow> line option" where
  "get_line ftl p = get_line_at (lm ftl) (unat (g_blk p))"

definition line_ipc_incr :: "line \<Rightarrow> line" where
  "line_ipc_incr l = l\<lparr>line_ipc := line_ipc l + 1\<rparr>"

text \<open>The decrement of a line's valid count, through the queue when the line is in it.\<close>

definition line_vpc_decr :: "line_mgmt \<Rightarrow> nat \<Rightarrow> line_mgmt option" where
  "line_vpc_decr m i = do {
     l \<leftarrow> get_line_at m i;
     if line_pos l \<noteq> 0 then
       let (q, ls) = pqueue_change_priority (victim_line_pq m) (lines m)
                       (word_of_int (line_vpc l - 1)) i
       in Some (m\<lparr>victim_line_pq := q, lines := ls\<rparr>)
     else upd_line i (\<lambda>l. l\<lparr>line_vpc := line_vpc l - 1\<rparr>) m
   }"

text \<open>\<open>list_del_init\<close> takes a line off the list it is on.\<close>

definition list_del_line :: "nat \<Rightarrow> line_mgmt \<Rightarrow> line_mgmt" where
  "list_del_line i m = m\<lparr>free_line_list := removeAll i (free_line_list m),
                         full_line_list := removeAll i (full_line_list m)\<rparr>"

definition full_to_victim :: "line_mgmt \<Rightarrow> nat \<Rightarrow> line_mgmt option" where
  "full_to_victim m i = do {
     let m = list_del_line i m;
     let m = m\<lparr>full_line_cnt := full_line_cnt m - 1\<rparr>;
     (q, ls) \<leftarrow> pqueue_insert (victim_line_pq m) (lines m) i;
     Some (m\<lparr>victim_line_pq := q, lines := ls, victim_line_cnt := victim_line_cnt m + 1\<rparr>)
   }"

definition mark_page_invalid :: "conv_ftl \<Rightarrow> dev \<Rightarrow> ppa \<Rightarrow> (conv_ftl \<times> dev) option" where
  "mark_page_invalid ftl dv p = do {
     let spp = spp_of ftl;
     pg \<leftarrow> get_pg (cf_ssd ftl) p;
     NVMEV_ASSERT (pg_status pg = PG_VALID);
     ssd \<leftarrow> upd_pg (cf_ssd ftl) p (\<lambda>g. Some (g\<lparr>pg_status := PG_INVALID\<rparr>));
     ssd \<leftarrow> upd_blk ssd p (\<lambda>b. Some (b\<lparr>blk_ipc := blk_ipc b + 1, blk_vpc := blk_vpc b - 1\<rparr>));
     let i = unat (g_blk p);
     l \<leftarrow> get_line_at (lm ftl) i;
     let was_full = (line_vpc l = int (pgs_per_line spp));
     m \<leftarrow> upd_line i line_ipc_incr (lm ftl);
     m \<leftarrow> line_vpc_decr m i;
     m \<leftarrow> (if was_full then full_to_victim m i else Some m);
     let (now, dv) = read_clock dv;
     m \<leftarrow> upd_line i (\<lambda>l. l\<lparr>last_modified_time := now\<rparr>) m;
     Some (ftl\<lparr>cf_ssd := ssd, lm := m\<rparr>, dv)
   }"

definition mark_page_valid :: "conv_ftl \<Rightarrow> ppa \<Rightarrow> conv_ftl option" where
  "mark_page_valid ftl p = do {
     pg \<leftarrow> get_pg (cf_ssd ftl) p;
     NVMEV_ASSERT (pg_status pg = PG_FREE);
     ssd \<leftarrow> upd_pg (cf_ssd ftl) p (\<lambda>g. Some (g\<lparr>pg_status := PG_VALID\<rparr>));
     ssd \<leftarrow> upd_blk ssd p (\<lambda>b. Some (b\<lparr>blk_vpc := blk_vpc b + 1\<rparr>));
     m \<leftarrow> upd_line (unat (g_blk p)) (\<lambda>l. l\<lparr>line_vpc := line_vpc l + 1\<rparr>) (lm ftl);
     Some (ftl\<lparr>cf_ssd := ssd, lm := m\<rparr>)
   }"

text \<open>The first \<open>n\<close> pages of a block become free; a shorter block is a bad access.\<close>

definition free_pages :: "nat \<Rightarrow> nand_page list \<Rightarrow> nand_page list option" where
  "free_pages n ps =
     (if n \<le> length ps then Some (map (\<lambda>g. g\<lparr>pg_status := PG_FREE\<rparr>) (take n ps) @ drop n ps)
      else None)"

definition mark_block_free :: "conv_ftl \<Rightarrow> ppa \<Rightarrow> conv_ftl option" where
  "mark_block_free ftl p = do {
     ssd \<leftarrow> upd_blk (cf_ssd ftl) p (\<lambda>b. do {
         ps \<leftarrow> free_pages (pgs_per_blk (spp_of ftl)) (blk_pg b);
         Some (b\<lparr>blk_pg := ps, blk_ipc := 0, blk_vpc := 0, blk_erase_cnt := blk_erase_cnt b + 1\<rparr>)
       });
     Some (ftl\<lparr>cf_ssd := ssd\<rparr>)
   }"

definition mark_line_free :: "conv_ftl \<Rightarrow> ppa \<Rightarrow> conv_ftl option" where
  "mark_line_free ftl p = do {
     let i = unat (g_blk p);
     m \<leftarrow> upd_line i (\<lambda>l. l\<lparr>line_ipc := 0, line_vpc := 0, line_erase_cnt := line_erase_cnt l + 1\<rparr>)
            (lm ftl);
     Some (ftl\<lparr>lm := m\<lparr>free_line_list := free_line_list m @ [i],
                       free_line_cnt := free_line_cnt m + 1\<rparr>\<rparr>)
   }"

end
