(* ===== verification/Gc.thy ===== *)
theory Gc
  imports Victim Lines
begin

text \<open>
  The collector of the conventional FTL (\<open>conv_ftl.c\<close>, lines 1106 to 1306). The module
  parameter \<open>gc_mode\<close> is an argument. The loops over pages, channels and LUNs are folds over
  the counters' ranges.
\<close>

subsection \<open>Copying valid pages\<close>

definition gc_nand_cmd :: "nat \<Rightarrow> u64 \<Rightarrow> ppa \<Rightarrow> nand_cmd" where
  "gc_nand_cmd c xfer p =
     \<lparr>nc_cmd = c, nc_xfer_size = xfer, nc_stime = 0, nc_interleave_pci_dma = False, nc_ppa = p\<rparr>"

definition gc_write_page :: "conv_ftl \<Rightarrow> dev \<Rightarrow> ppa \<Rightarrow> (conv_ftl \<times> dev) option" where
  "gc_write_page ftl dv old_ppa = do {
     let spp = spp_of ftl;
     lpn \<leftarrow> get_rmap_ent ftl old_ppa;
     let (now, dv) = read_clock dv;
     NVMEV_ASSERT (valid_lpn ftl lpn);
     hot \<leftarrow> page_is_hot ftl lpn now;
     let wp_type = (if hot then GC_IO_HOT else GC_IO_COLD);
     new_ppa \<leftarrow> get_new_page ftl wp_type;
     ftl \<leftarrow> set_maptbl_ent ftl lpn new_ppa;
     ftl \<leftarrow> set_rmap_ent ftl lpn new_ppa;
     ftl \<leftarrow> mark_page_valid ftl new_ppa;
     let ftl = ftl\<lparr>gc_copied_pages := gc_copied_pages ftl + 1\<rparr>;
     ftl \<leftarrow> advance_write_pointer ftl wp_type;
     if enable_gc_delay (cp ftl) then do {
       last \<leftarrow> last_pg_in_wordline ftl new_ppa;
       let gcw = (if last
                  then gc_nand_cmd NAND_WRITE (of_nat (pgsz spp * pgs_per_oneshotpg spp)) new_ppa
                  else gc_nand_cmd NAND_NOP 0 new_ppa);
       (ssd, dv, _) \<leftarrow> ssd_advance_nand (cf_ssd ftl) dv gcw;
       Some (ftl\<lparr>cf_ssd := ssd\<rparr>, dv)
     }
     else Some (ftl, dv)
   }"

definition pg_plus :: "ppa \<Rightarrow> nat \<Rightarrow> ppa" where
  "pg_plus p i = p\<lparr>g_pg := g_pg p + of_nat i\<rparr>"

text \<open>The first loop of \<open>clean_one_flashpg\<close>: the number of valid pages.\<close>

definition count_valid :: "conv_ftl \<Rightarrow> ppa \<Rightarrow> nat option" where
  "count_valid ftl p = fold_opt (\<lambda>i cnt. do {
       pg \<leftarrow> get_pg (cf_ssd ftl) (pg_plus p i);
       NVMEV_ASSERT (pg_status pg \<noteq> PG_FREE);
       Some (if pg_status pg = PG_VALID then cnt + 1 else cnt)
     }) [0..<pgs_per_flashpg (spp_of ftl)] 0"

definition copy_if_valid :: "ppa \<Rightarrow> nat \<Rightarrow> conv_ftl \<times> dev \<Rightarrow> (conv_ftl \<times> dev) option" where
  "copy_if_valid p i s = do {
     let (ftl, dv) = s;
     pg \<leftarrow> get_pg (cf_ssd ftl) (pg_plus p i);
     if pg_status pg = PG_VALID then gc_write_page ftl dv (pg_plus p i) else Some (ftl, dv)
   }"

definition clean_one_flashpg :: "conv_ftl \<Rightarrow> dev \<Rightarrow> ppa \<Rightarrow> (conv_ftl \<times> dev) option" where
  "clean_one_flashpg ftl dv p = do {
     let spp = spp_of ftl;
     cnt \<leftarrow> count_valid ftl p;
     if cnt = 0 then Some (ftl, dv)
     else do {
       (ftl, dv) \<leftarrow>
         (if enable_gc_delay (cp ftl) then do {
            (ssd, dv, _) \<leftarrow> ssd_advance_nand (cf_ssd ftl) dv
               (gc_nand_cmd NAND_READ (of_nat (pgsz spp * cnt)) p);
            Some (ftl\<lparr>cf_ssd := ssd\<rparr>, dv)
          }
          else Some (ftl, dv));
       fold_opt (copy_if_valid p) [0..<pgs_per_flashpg spp] (ftl, dv)
     }
   }"

subsection \<open>One collection\<close>

type_synonym victim_select_fn =
  "conv_ftl \<Rightarrow> dev \<Rightarrow> bool \<Rightarrow> (conv_ftl \<times> dev \<times> nat option) option"

definition greedy_fn :: victim_select_fn where
  "greedy_fn ftl dv force =
     map_option (\<lambda>(ftl, v). (ftl, dv, v)) (select_victim_greedy ftl force)"

definition choose_victim ::
  "int \<Rightarrow> conv_ftl \<Rightarrow> dev \<Rightarrow> bool \<Rightarrow> victim_select_fn \<Rightarrow> (conv_ftl \<times> dev \<times> nat option) option" where
  "choose_victim gc_mode ftl dv force select_fn =
     (if gc_mode = GC_MODE_RL then do {
        (dv, state) \<leftarrow> rl_get_state ftl dv;
        (dv, action) \<leftarrow> rl_select_action (rl ftl) dv state;
        let r = rl_decode_action ((rl ftl)\<lparr>cur_state := state\<rparr>) action;
        select_victim_scored (ftl\<lparr>rl := r\<rparr>) dv (alpha_level r) (delta_level r)
      }
      else select_fn ftl dv force)"

text \<open>One flash page of the victim line; in the last one the block is erased.\<close>

definition gc_step :: "u16 \<Rightarrow> nat \<Rightarrow> nat \<Rightarrow> nat \<Rightarrow> conv_ftl \<times> dev \<Rightarrow> (conv_ftl \<times> dev) option" where
  "gc_step blk flashpg ch lun s = do {
     let (ftl, dv) = s;
     let spp = spp_of ftl;
     let p = \<lparr>g_pg = of_nat (flashpg * pgs_per_flashpg spp), g_blk = blk, g_pl = 0,
              g_lun = of_nat lun, g_ch = of_nat ch, g_rsv = 0\<rparr>;
     get_lun (cf_ssd ftl) p;
     (ftl, dv) \<leftarrow> clean_one_flashpg ftl dv p;
     if flashpg + 1 = flashpgs_per_blk spp then do {
       ftl \<leftarrow> mark_block_free ftl p;
       (ftl, dv) \<leftarrow>
         (if enable_gc_delay (cp ftl) then do {
            (ssd, dv, _) \<leftarrow> ssd_advance_nand (cf_ssd ftl) dv (gc_nand_cmd NAND_ERASE 0 p);
            Some (ftl\<lparr>cf_ssd := ssd\<rparr>, dv)
          }
          else Some (ftl, dv));
       ssd \<leftarrow> upd_lun (cf_ssd ftl) p (\<lambda>l. Some (l\<lparr>lun_gc_endtime := next_lun_avail_time l\<rparr>));
       Some (ftl\<lparr>cf_ssd := ssd\<rparr>, dv)
     }
     else Some (ftl, dv)
   }"

definition gc_copy_line :: "u16 \<Rightarrow> conv_ftl \<times> dev \<Rightarrow> (conv_ftl \<times> dev) option" where
  "gc_copy_line blk s = (
     let spp = spp_of (fst s) in
     fold_opt (\<lambda>flashpg.
       fold_opt (\<lambda>ch.
         fold_opt (\<lambda>lun. gc_step blk flashpg ch lun) [0..<luns_per_ch spp]) [0..<nchs spp])
       [0..<flashpgs_per_blk spp] s)"

text \<open>
  The end of a collection: the line is free again, the wear gap is sampled and, in the learning
  mode, the agent is rewarded. \<open>ppa\<close> is a stack variable of which the block number is all that
  \<open>mark_line_free\<close> reads.
\<close>

definition gc_finish :: "int \<Rightarrow> u16 \<Rightarrow> conv_ftl \<times> dev \<Rightarrow> (conv_ftl \<times> dev \<times> int) option" where
  "gc_finish gc_mode blk s = do {
     ftl \<leftarrow> mark_line_free (fst s)
        \<lparr>g_pg = 0, g_blk = blk, g_pl = 0, g_lun = 0, g_ch = 0, g_rsv = 0\<rparr>;
     ftl \<leftarrow> update_wear_gap ftl;
     (ftl, dv) \<leftarrow>
       (if gc_mode = GC_MODE_RL then do {
          (dv, new_state) \<leftarrow> rl_get_state ftl (snd s);
          ftl \<leftarrow> rl_update_agent ftl new_state;
          Some (ftl, dv)
        }
        else Some (ftl, snd s));
     Some (ftl, dv, 0)
   }"

text \<open>The result is 0 after a collection, -1 when there is no victim.\<close>

definition do_gc ::
  "int \<Rightarrow> conv_ftl \<Rightarrow> dev \<Rightarrow> bool \<Rightarrow> victim_select_fn \<Rightarrow> (conv_ftl \<times> dev \<times> int) option" where
  "do_gc gc_mode ftl dv force select_fn = do {
     (ftl, dv, victim) \<leftarrow> choose_victim gc_mode ftl dv force select_fn;
     case victim of
       None \<Rightarrow> Some (ftl\<lparr>wfc := (wfc ftl)\<lparr>credits_to_refill := 0\<rparr>\<rparr>, dv, - 1)
     | Some v \<Rightarrow> do {
         l \<leftarrow> get_line_at (lm ftl) v;
         let ftl = ftl\<lparr>gc_count := gc_count ftl + 1\<rparr>;
         let blk = (of_nat (line_id l) :: u16);
         let ftl = (if gc_mode = GC_MODE_RL
                    then ftl\<lparr>rl := (rl ftl)\<lparr>last_victim_ec := line_erase_cnt l\<rparr>\<rparr> else ftl);
         let ftl = ftl\<lparr>wfc := (wfc ftl)\<lparr>credits_to_refill := word_of_int (line_ipc l)\<rparr>\<rparr>;
         s \<leftarrow> gc_copy_line blk (ftl, dv);
         gc_finish gc_mode blk s
       }
   }"

definition foreground_gc :: "int \<Rightarrow> conv_ftl \<Rightarrow> dev \<Rightarrow> (conv_ftl \<times> dev) option" where
  "foreground_gc gc_mode ftl dv =
     (if \<not> should_gc_high ftl then Some (ftl, dv)
      else do {
        (ftl, dv, _) \<leftarrow> do_gc gc_mode ftl dv True
          (if gc_mode = GC_MODE_CB then select_victim_cb
           else if gc_mode = GC_MODE_CAT then select_victim_cat
           else greedy_fn);
        Some (ftl, dv)
      })"

subsection \<open>Write credits\<close>

definition consume_write_credit :: "conv_ftl \<Rightarrow> conv_ftl" where
  "consume_write_credit ftl = ftl\<lparr>wfc := (wfc ftl)\<lparr>write_credits := write_credits (wfc ftl) - 1\<rparr>\<rparr>"

definition check_and_refill_write_credit :: "int \<Rightarrow> conv_ftl \<Rightarrow> dev \<Rightarrow> (conv_ftl \<times> dev) option" where
  "check_and_refill_write_credit gc_mode ftl dv =
     (if write_credits (wfc ftl) \<le> 0 then do {
        (ftl, dv) \<leftarrow> foreground_gc gc_mode ftl dv;
        let w = wfc ftl;
        Some (ftl\<lparr>wfc := w\<lparr>write_credits :=
            (if 0 < credits_to_refill w then write_credits w + credits_to_refill w else 1)\<rparr>\<rparr>, dv)
      }
      else Some (ftl, dv))"

end
