(* ===== verification/Conv_Ftl.thy ===== *)
theory Conv_Ftl
  imports Gc
begin

text \<open>
  The commands of a conventional namespace (\<open>conv_ftl.c\<close>): its initialisation, read, write,
  flush and the dispatcher. A namespace holds one FTL instance per partition and the device state
  they share; a command that faults is \<open>None\<close>.
\<close>

subsection \<open>Namespace\<close>

record nvmev_ns =
  ns_id :: u32
  ns_csi :: nat
  ns_nr_parts :: nat
  ns_ftls :: "conv_ftl list"
  ns_size :: u64
  ns_dev :: dev

record nvme_rw_command =
  rw_opcode :: u8
  rw_slba :: u64
  rw_length :: u16
  rw_control :: u16

record nvmev_request =
  req_cmd :: nvme_rw_command
  req_sq_id :: u32
  req_nsecs_start :: u64

record nvmev_result =
  ret_status :: u32
  ret_nsecs_target :: u64

definition SSD_PARTITIONS :: nat where [cdefs]: "SSD_PARTITIONS = 4"

definition NVME_CSI_NVM :: nat where [cdefs]: "NVME_CSI_NVM = 0"

definition NVME_SC_SUCCESS :: u32 where [cdefs]: "NVME_SC_SUCCESS = 0"
definition NVME_SC_INTERNAL :: u32 where [cdefs]: "NVME_SC_INTERNAL = 6"
definition NVME_SC_LBA_RANGE :: u32 where [cdefs]: "NVME_SC_LBA_RANGE = 128"
definition NVME_SC_DNR :: u32 where [cdefs]: "NVME_SC_DNR = 0x4000"
definition NVME_RW_FUA :: u16 where [cdefs]: "NVME_RW_FUA = 0x4000"

definition nvme_cmd_flush :: u8 where [cdefs]: "nvme_cmd_flush = 0"
definition nvme_cmd_write :: u8 where [cdefs]: "nvme_cmd_write = 1"
definition nvme_cmd_read :: u8 where [cdefs]: "nvme_cmd_read = 2"

definition LBA_TO_BYTE :: "u64 \<Rightarrow> u64" where "LBA_TO_BYTE lba = push_bit 9 lba"

text \<open>
  \<open>junk\<close>, \<open>d0\<close> and \<open>w0\<close> are the contents of freshly allocated memory. Each instance is built
  with a PCIe model and a write buffer of its own; those of instance 0 replace the others.
\<close>

fun init_ftls ::
  "ssdparams \<Rightarrow> convparams \<Rightarrow> (nat \<Rightarrow> nat \<Rightarrow> u64) \<Rightarrow> (nat \<Rightarrow> nat) \<Rightarrow> write_pointer \<Rightarrow> nat
    \<Rightarrow> (conv_ftl \<times> channel_model \<times> buffer) list option" where
  "init_ftls spp cpp junk d0 w0 0 = Some []"
| "init_ftls spp cpp junk d0 w0 (Suc n) = do {
     fs \<leftarrow> init_ftls spp cpp junk d0 w0 n;
     (ssd, pcie, wbuf) \<leftarrow> ssd_init spp junk;
     ftl \<leftarrow> conv_init_ftl cpp ssd d0 w0;
     Some (fs @ [(ftl, pcie, wbuf)])
   }"

definition conv_init_namespace ::
  "ssdparams \<Rightarrow> (nat \<Rightarrow> nat \<Rightarrow> u64) \<Rightarrow> (nat \<Rightarrow> nat) \<Rightarrow> write_pointer \<Rightarrow> (nat \<Rightarrow> u64) \<Rightarrow> (nat \<Rightarrow> u32)
    \<Rightarrow> u32 \<Rightarrow> u64 \<Rightarrow> nvmev_ns option" where
  "conv_init_namespace spp0 junk d0 w0 clk rnd nsid sz = do {
     spp \<leftarrow> ssd_init_params samsung_970pro spp0 (unat sz) SSD_PARTITIONS;
     let cpp = conv_init_params spp;
     fs \<leftarrow> init_ftls spp cpp junk d0 w0 SSD_PARTITIONS;
     (_, pcie, wbuf) \<leftarrow> rd fs 0;
     logical \<leftarrow> udiv (sz * 100) (of_nat (pba_pcent cpp));
     Some \<lparr>ns_id = nsid, ns_csi = NVME_CSI_NVM, ns_nr_parts = SSD_PARTITIONS,
           ns_ftls = map fst fs, ns_size = logical,
           ns_dev = \<lparr>pcie = pcie, write_buffer = wbuf, clock = clk, ticks = 0,
                     random = rnd, draws = 0, internal_ops = []\<rparr>\<rparr>
   }"

subsection \<open>Address range of a command\<close>

text \<open>First and last logical page; \<open>lba + nr_lba - 1\<close> is 64-bit arithmetic.\<close>

definition lpn_range :: "ssdparams \<Rightarrow> nvme_rw_command \<Rightarrow> (u64 \<times> u64) option" where
  "lpn_range spp cmd = do {
     let lba = rw_slba cmd;
     let nr_lba = (ucast (rw_length cmd) + 1 :: u64);
     start_lpn \<leftarrow> udiv lba (of_nat (secs_per_pg spp));
     end_lpn \<leftarrow> udiv (lba + nr_lba - 1) (of_nat (secs_per_pg spp));
     Some (start_lpn, end_lpn)
   }"

definition nr_bytes :: "nvme_rw_command \<Rightarrow> u64" where
  "nr_bytes cmd = LBA_TO_BYTE (ucast (rw_length cmd) + 1)"

subsection \<open>Read\<close>

definition read_cmd :: "u64 \<Rightarrow> u64 \<Rightarrow> ppa \<Rightarrow> nand_cmd" where
  "read_cmd stime xfer p = \<lparr>nc_cmd = NAND_READ, nc_xfer_size = xfer, nc_stime = stime,
     nc_interleave_pci_dma = True, nc_ppa = p\<rparr>"

text \<open>State of the inner loop: device, FTL, bytes gathered, address they start at, latest time.\<close>

type_synonym read_state = "dev \<times> conv_ftl \<times> u32 \<times> ppa \<times> u64"

definition flush_read :: "u64 \<Rightarrow> read_state \<Rightarrow> read_state option" where
  "flush_read stime s = do {
     let (dv, ftl, xfer_size, prev_ppa, latest) = s;
     if 0 < xfer_size then do {
       (ssd, dv, done) \<leftarrow> ssd_advance_nand (cf_ssd ftl) dv (read_cmd stime (ucast xfer_size) prev_ppa);
       Some (dv, ftl\<lparr>cf_ssd := ssd\<rparr>, xfer_size, prev_ppa, max done latest)
     }
     else Some s
   }"

definition read_one :: "u64 \<Rightarrow> u64 \<Rightarrow> read_state \<Rightarrow> read_state option" where
  "read_one stime local_lpn s = do {
     let (dv, ftl, xfer_size, prev_ppa, latest) = s;
     cur \<leftarrow> get_maptbl_ent ftl local_lpn;
     if \<not> mapped_ppa cur \<or> \<not> valid_ppa ftl cur then Some s
     else do {
       same \<leftarrow> (if mapped_ppa prev_ppa then is_same_flash_page ftl cur prev_ppa else Some False);
       if same then Some (dv, ftl, xfer_size + of_nat (pgsz (spp_of ftl)), prev_ppa, latest)
       else do {
         (dv, ftl, _, _, latest) \<leftarrow> flush_read stime s;
         Some (dv, ftl, of_nat (pgsz (spp_of ftl)), cur, latest)
       }
     }
   }"

text \<open>
  The page loop \<open>for (lpn = start; lpn <= end; lpn += step)\<close> in 64-bit arithmetic. Its second
  conjunct stops where the code's \<open>lpn += step\<close> would wrap around.
\<close>

function lpns_from :: "u64 \<Rightarrow> u64 \<Rightarrow> u64 \<Rightarrow> u64 list" where
  "lpns_from lpn end_lpn st =
     (if lpn \<le> end_lpn
      then lpn # (if lpn < lpn + st then lpns_from (lpn + st) end_lpn st else [])
      else [])"
  by pat_completeness auto
termination
  by (relation "measure (\<lambda>(l, e, s). 2 ^ 64 - unat l)")
    (auto simp: word_less_nat_alt intro!: diff_less_mono2 intro: less_le_trans [OF unat_less_pow])

declare lpns_from.simps [simp del]

definition read_part :: "nat \<Rightarrow> u64 \<Rightarrow> u64 \<Rightarrow> u64 \<Rightarrow> nvmev_ns \<times> u64 \<Rightarrow> (nvmev_ns \<times> u64) option" where
  "read_part nr_parts stime end_lpn start_lpn s = do {
     let (ns, latest) = s;
     let part = unat start_lpn mod nr_parts;
     ftl \<leftarrow> rd (ns_ftls ns) part;
     prev_ppa \<leftarrow> get_maptbl_ent ftl (start_lpn div of_nat nr_parts);
     r \<leftarrow> fold_opt (\<lambda>lpn. read_one stime (lpn div of_nat nr_parts))
            (lpns_from start_lpn end_lpn (of_nat nr_parts)) (ns_dev ns, ftl, 0, prev_ppa, latest);
     (dv, ftl, _, _, latest) \<leftarrow> flush_read stime r;
     Some (ns\<lparr>ns_ftls := (ns_ftls ns)[part := ftl], ns_dev := dv\<rparr>, latest)
   }"

definition conv_read :: "nvmev_ns \<Rightarrow> nvmev_request \<Rightarrow> nvmev_result \<Rightarrow> (nvmev_ns \<times> nvmev_result \<times> bool) option" where
  "conv_read ns req ret = do {
     f0 \<leftarrow> rd (ns_ftls ns) 0;
     let spp = spp_of f0;
     let cmd = req_cmd req;
     let nr_parts = ns_nr_parts ns;
     (start_lpn, end_lpn) \<leftarrow> lpn_range spp cmd;
     q \<leftarrow> udiv end_lpn (of_nat nr_parts);
     if tt_pgs spp \<le> unat q
     then Some (ns, ret\<lparr>ret_status := NVME_SC_LBA_RANGE OR NVME_SC_DNR\<rparr>, False)
     else do {
       let stime = req_nsecs_start req +
         of_nat (if nr_bytes cmd \<le> of_nat (KB 4 * nr_parts) then fw_4kb_rd_lat spp else fw_rd_lat spp);
       (ns, latest) \<leftarrow>
         fold_opt (\<lambda>lpn. read_part nr_parts stime end_lpn lpn)
           (take nr_parts (lpns_from start_lpn end_lpn 1)) (ns, req_nsecs_start req);
       Some (ns, ret\<lparr>ret_nsecs_target := latest, ret_status := NVME_SC_SUCCESS\<rparr>, True)
     }
   }"

subsection \<open>Write\<close>

definition rl_note_write :: "int \<Rightarrow> conv_ftl \<Rightarrow> dev \<Rightarrow> page_meta \<Rightarrow> (conv_ftl \<times> dev)" where
  "rl_note_write gc_mode ftl dv pm =
     (if gc_mode = GC_MODE_RL then
        let (cur_time, dv) = read_clock dv;
            repeated = (0 < update_cnt pm);
            recent = (last_write_time pm < cur_time \<and> cur_time - last_write_time pm < TH_HOT);
            r = rl ftl;
            r = (if repeated \<and> recent then r\<lparr>window_hot := window_hot r + 1\<rparr> else r);
            r = r\<lparr>window_total := window_total r + 1\<rparr>;
            r = (if pgs_per_line (spp_of ftl) \<le> unat (window_total r)
                 then r\<lparr>prev_hot_pct := window_hot r * 100 div window_total r,
                        window_hot := 0, window_total := 0\<rparr>
                 else r)
        in (ftl\<lparr>rl := r\<rparr>, dv)
      else (ftl, dv))"

text \<open>The old copy of a page that is mapped becomes invalid and loses its reverse mapping.\<close>

definition invalidate_old :: "conv_ftl \<Rightarrow> dev \<Rightarrow> u64 \<Rightarrow> (conv_ftl \<times> dev) option" where
  "invalidate_old ftl dv local_lpn = do {
     p \<leftarrow> get_maptbl_ent ftl local_lpn;
     if mapped_ppa p then do {
       (ftl, dv) \<leftarrow> mark_page_invalid ftl dv p;
       ftl \<leftarrow> set_rmap_ent ftl INVALID_LPN p;
       Some (ftl, dv)
     }
     else Some (ftl, dv)
   }"

definition map_new_page :: "conv_ftl \<Rightarrow> u64 \<Rightarrow> (conv_ftl \<times> ppa) option" where
  "map_new_page ftl local_lpn = do {
     p \<leftarrow> get_new_page ftl USER_IO;
     ftl \<leftarrow> set_maptbl_ent ftl local_lpn p;
     ftl \<leftarrow> set_rmap_ent ftl local_lpn p;
     ftl \<leftarrow> mark_page_valid ftl p;
     Some (ftl\<lparr>host_written_pages := host_written_pages ftl + 1\<rparr>, p)
   }"

definition touch_page_meta :: "int \<Rightarrow> conv_ftl \<Rightarrow> dev \<Rightarrow> u64 \<Rightarrow> (conv_ftl \<times> dev) option" where
  "touch_page_meta gc_mode ftl dv local_lpn = do {
     pm \<leftarrow> rd (page_meta_tbl ftl) (unat local_lpn);
     let (ftl, dv) = rl_note_write gc_mode ftl dv pm;
     let (now, dv) = read_clock dv;
     let pm = \<lparr>update_cnt = update_cnt pm + 1, last_write_time = now\<rparr>;
     t \<leftarrow> wr (page_meta_tbl ftl) (unat local_lpn) pm;
     let degree = calc_hot_degree pm (last_write_time pm);
     Some (ftl\<lparr>page_meta_tbl := t,
               avg_hot_degree := (avg_hot_degree ftl * 15 + degree * 16) div 16\<rparr>, dv)
   }"

text \<open>One logical page of a write to its FTL instance; the last result is the latest NAND time.\<close>

definition write_page ::
  "int \<Rightarrow> u32 \<Rightarrow> u64 \<Rightarrow> u64 \<Rightarrow> conv_ftl \<Rightarrow> dev \<Rightarrow> u64 \<Rightarrow> (conv_ftl \<times> dev \<times> u64) option" where
  "write_page gc_mode sq_id stime local_lpn ftl dv latest = do {
     let spp = spp_of ftl;
     (ftl, dv) \<leftarrow> invalidate_old ftl dv local_lpn;
     (ftl, p) \<leftarrow> map_new_page ftl local_lpn;
     (ftl, dv) \<leftarrow> touch_page_meta gc_mode ftl dv local_lpn;
     ftl \<leftarrow> advance_write_pointer ftl USER_IO;
     last \<leftarrow> last_pg_in_wordline ftl p;
     (ftl, dv, latest) \<leftarrow>
       (if last then do {
          let xfer = of_nat (pgsz spp * pgs_per_oneshotpg spp);
          (ssd, dv, done) \<leftarrow> ssd_advance_nand (cf_ssd ftl) dv
             \<lparr>nc_cmd = NAND_WRITE, nc_xfer_size = xfer, nc_stime = stime,
              nc_interleave_pci_dma = False, nc_ppa = p\<rparr>;
          Some (ftl\<lparr>cf_ssd := ssd\<rparr>, schedule_internal_operation sq_id done DEV_BUFFER xfer dv,
                max done latest)
        }
        else Some (ftl, dv, latest));
     (ftl, dv) \<leftarrow> check_and_refill_write_credit gc_mode (consume_write_credit ftl) dv;
     Some (ftl, dv, latest)
   }"

definition write_step ::
  "int \<Rightarrow> u32 \<Rightarrow> u64 \<Rightarrow> nat \<Rightarrow> u64 \<Rightarrow> nvmev_ns \<times> u64 \<Rightarrow> (nvmev_ns \<times> u64) option" where
  "write_step gc_mode sq_id stime nr_parts lpn s = do {
     let (ns, latest) = s;
     let part = unat lpn mod nr_parts;
     ftl \<leftarrow> rd (ns_ftls ns) part;
     (ftl, dv, latest) \<leftarrow>
       write_page gc_mode sq_id stime (lpn div of_nat nr_parts) ftl (ns_dev ns) latest;
     Some (ns\<lparr>ns_ftls := (ns_ftls ns)[part := ftl], ns_dev := dv\<rparr>, latest)
   }"

definition conv_write ::
  "int \<Rightarrow> nvmev_ns \<Rightarrow> nvmev_request \<Rightarrow> nvmev_result \<Rightarrow> (nvmev_ns \<times> nvmev_result \<times> bool) option" where
  "conv_write gc_mode ns req ret = do {
     f0 \<leftarrow> rd (ns_ftls ns) 0;
     let spp = spp_of f0;
     let cmd = req_cmd req;
     let nr_parts = ns_nr_parts ns;
     (start_lpn, end_lpn) \<leftarrow> lpn_range spp cmd;
     q \<leftarrow> udiv end_lpn (of_nat nr_parts);
     if tt_pgs spp \<le> unat q
     then Some (ns, ret\<lparr>ret_status := NVME_SC_LBA_RANGE OR NVME_SC_DNR\<rparr>, False)
     else do {
       (wbuf, alloc) \<leftarrow> buffer_allocate (write_buffer (ns_dev ns)) (nr_bytes cmd);
       let ns = ns\<lparr>ns_dev := (ns_dev ns)\<lparr>write_buffer := wbuf\<rparr>\<rparr>;
       if ucast alloc < nr_bytes cmd
       then Some (ns, ret\<lparr>ret_status := NVME_SC_INTERNAL OR NVME_SC_DNR\<rparr>, False)
       else do {
         (dv, nsecs_xfer) \<leftarrow>
           ssd_advance_write_buffer (cf_ssd f0) (ns_dev ns) (req_nsecs_start req) (nr_bytes cmd);
         (ns, latest) \<leftarrow>
           fold_opt (write_step gc_mode (req_sq_id req) nsecs_xfer nr_parts)
             (lpns_from start_lpn end_lpn 1) (ns\<lparr>ns_dev := dv\<rparr>, nsecs_xfer);
         let target =
           (if rw_control cmd AND NVME_RW_FUA \<noteq> 0 \<or> \<not> write_early_completion spp
            then latest else nsecs_xfer);
         Some (ns, ret\<lparr>ret_nsecs_target := target, ret_status := NVME_SC_SUCCESS\<rparr>, True)
       }
     }
   }"

subsection \<open>Flush and dispatch\<close>

text \<open>
  What a flush reports: counts of all partitions and the statistics printed from them. The
  divisions that the code guards are guarded here.
\<close>

record flush_stats =
  total_gc :: u64
  total_cp :: u64
  total_host :: u64
  ec_sum :: u64
  ec_sqsum :: u64
  ec_max :: u32
  ec_min :: u32
  total_lines :: u64
  rl_episodes :: u64
  rl_reward_sum :: int
  wg_accum :: int
  wg_samples :: u64

definition flush_line :: "line_mgmt \<Rightarrow> nat \<Rightarrow> flush_stats \<Rightarrow> flush_stats option" where
  "flush_line m j st = do {
     l \<leftarrow> get_line_at m j;
     let ec = line_erase_cnt l;
     Some (st\<lparr>ec_sum := ec_sum st + ucast ec, ec_sqsum := ec_sqsum st + ucast ec * ucast ec,
             ec_max := (if ec_max st < ec then ec else ec_max st),
             ec_min := (if ec < ec_min st then ec else ec_min st)\<rparr>)
   }"

definition flush_part ::
  "nvmev_ns \<Rightarrow> nat \<Rightarrow> dev \<times> u64 \<times> flush_stats \<Rightarrow> (dev \<times> u64 \<times> flush_stats) option" where
  "flush_part ns i s = do {
     let (dv, latest, st) = s;
     ftl \<leftarrow> rd (ns_ftls ns) i;
     (dv, idle) \<leftarrow> ssd_next_idle_time (cf_ssd ftl) dv;
     let latest = max latest idle;
     let st = st\<lparr>total_gc := total_gc st + gc_count ftl,
                 total_cp := total_cp st + gc_copied_pages ftl,
                 total_host := total_host st + host_written_pages ftl\<rparr>;
     st \<leftarrow> fold_opt (flush_line (lm ftl)) [0..<lm_tt_lines (lm ftl)] st;
     Some (dv, latest,
       st\<lparr>total_lines := total_lines st + of_nat (lm_tt_lines (lm ftl)),
          rl_episodes := rl_episodes st + total_episodes (rl ftl),
          rl_reward_sum := rl_reward_sum st + total_reward (rl ftl),
          wg_accum := wg_accum st + accum_diff (wgs ftl),
          wg_samples := wg_samples st + samples (wgs ftl)\<rparr>)
   }"

definition waf_x1000 :: "flush_stats \<Rightarrow> u64" where
  "waf_x1000 st = (if 0 < total_host st then (total_host st + total_cp st) * 1000 div total_host st
                   else 1000)"

definition copy_ratio_x1000 :: "ssdparams \<Rightarrow> flush_stats \<Rightarrow> u64" where
  "copy_ratio_x1000 spp st = (
     let erased_pgs = ec_sum st * of_nat (pgs_per_line spp)
     in if 0 < erased_pgs then total_cp st * 1000 div erased_pgs else 0)"

definition per_gc_x1000 :: "flush_stats \<Rightarrow> int" where
  "per_gc_x1000 st = (if 0 < wg_samples st then tdiv (wg_accum st * 1000) (sint (wg_samples st)) else 0)"

text \<open>Average, range, standard deviation and coefficient of variation of the erase counts.\<close>

definition wear_stats :: "flush_stats \<Rightarrow> (u64 \<times> u32 \<times> u64 \<times> u64) option" where
  "wear_stats st =
     (if 0 < total_lines st then do {
        let ec_avg = ec_sum st div total_lines st;
        let ec_range = (if ec_min st = UINT_MAX then 0 else ec_max st - ec_min st);
        let avg_sq = ec_sqsum st div total_lines st;
        let mean_sq = ec_avg * ec_avg;
        let var = (if mean_sq < avg_sq then avg_sq - mean_sq else 0);
        ec_std \<leftarrow> isqrt_u64 var;
        let cov = (if 0 < ec_avg then ucast ec_std * 1000 div ec_avg else 0);
        Some (ec_avg, ec_range, ucast ec_std, cov)
      }
      else Some (0, 0, 0, 0))"

definition conv_flush :: "nvmev_ns \<Rightarrow> nvmev_result \<Rightarrow> (nvmev_ns \<times> nvmev_result) option" where
  "conv_flush ns ret =
     (let (start, dv) = read_clock (ns_dev ns) in
      if ns_nr_parts ns = 0
      then Some (ns\<lparr>ns_dev := dv\<rparr>, ret\<lparr>ret_status := NVME_SC_SUCCESS, ret_nsecs_target := start\<rparr>)
      else do {
        rd (ns_ftls ns) 0;
        (dv, latest, st) \<leftarrow> fold_opt (flush_part ns) [0..<ns_nr_parts ns]
          (dv, start, \<lparr>total_gc = 0, total_cp = 0, total_host = 0, ec_sum = 0, ec_sqsum = 0,
             ec_max = 0, ec_min = UINT_MAX, total_lines = 0, rl_episodes = 0, rl_reward_sum = 0,
             wg_accum = 0, wg_samples = 0\<rparr>);
        wear_stats st;
        Some (ns\<lparr>ns_dev := dv\<rparr>, ret\<lparr>ret_status := NVME_SC_SUCCESS, ret_nsecs_target := latest\<rparr>)
      })"

definition conv_proc_nvme_io_cmd ::
  "int \<Rightarrow> nvmev_ns \<Rightarrow> nvmev_request \<Rightarrow> nvmev_result \<Rightarrow> (nvmev_ns \<times> nvmev_result \<times> bool) option" where
  "conv_proc_nvme_io_cmd gc_mode ns req ret = do {
     NVMEV_ASSERT (ns_csi ns = NVME_CSI_NVM);
     let opc = rw_opcode (req_cmd req);
     if opc = nvme_cmd_write then conv_write gc_mode ns req ret
     else if opc = nvme_cmd_read then conv_read ns req ret
     else if opc = nvme_cmd_flush then do {
       (ns, ret) \<leftarrow> conv_flush ns ret;
       Some (ns, ret, True)
     }
     else Some (ns, ret, True)
   }"

end
