(* ===== verification/Examples.thy ===== *)
theory Examples
  imports Conv_Ftl Zns_Inv
begin

text \<open>
  A small device on which the hypotheses of the properties are evaluated: one channel of two LUNs,
  six blocks of two 4 KB pages each, 8 KB programming units, 512-byte sectors; a zoned namespace of
  two 16 KB zones on it. \<open>tiny_spp\<close> is what \<open>ssd_init_params\<close> computes for it.
\<close>

definition zero_spp :: ssdparams where
  "zero_spp = \<lparr>secsz = 0, secs_per_pg = 0, pgsz = 0, pgs_per_flashpg = 0, flashpgs_per_blk = 0,
     slc_flashpgs_per_blk = 0, pgs_per_oneshotpg = 0, slc_pgs_per_oneshotpg = 0,
     oneshotpgs_per_blk = 0, slc_oneshotpgs_per_blk = 0, pgs_per_blk = 0, slc_pgs_per_blk = 0,
     blks_per_pl = 0, slc_blks_per_pl = 0, pls_per_lun = 0, luns_per_ch = 0, nchs = 0,
     cell_mode = 0, write_unit_size = 0, write_early_completion = False, pg_4kb_rd_lat = [],
     pg_rd_lat = [], pg_wr_lat = 0, blk_er_lat = 0, max_ch_xfer_size = 0, slc_pg_4kb_rd_lat = 0,
     slc_pg_rd_lat = 0, slc_pg_wr_lat = 0, slc_blk_er_lat = 0, fw_4kb_rd_lat = 0, fw_rd_lat = 0,
     fw_wbuf_lat0 = 0, fw_wbuf_lat1 = 0, fw_ch_xfer_lat = 0, ch_bandwidth = 0, pcie_bandwidth = 0,
     secs_per_blk = 0, slc_secs_per_blk = 0, secs_per_pl = 0, slc_secs_per_pl = 0,
     secs_per_lun = 0, slc_secs_per_lun = 0, secs_per_ch = 0, slc_secs_per_ch = 0, tt_secs = 0,
     slc_tt_secs = 0, tlc_tt_secs = 0, pgs_per_pl = 0, slc_pgs_per_pl = 0, pgs_per_lun = 0,
     slc_pgs_per_lun = 0, pgs_per_ch = 0, slc_pgs_per_ch = 0, tt_pgs = 0, slc_tt_pgs = 0,
     tlc_tt_pgs = 0, blks_per_lun = 0, blks_per_ch = 0, tt_blks = 0, secs_per_line = 0,
     slc_secs_per_line = 0, pgs_per_line = 0, slc_pgs_per_line = 0, blks_per_line = 0,
     tt_lines = 0, slc_tt_lines = 0, tlc_tt_lines = 0, pls_per_ch = 0, tt_pls = 0, tt_luns = 0,
     write_buffer_size = 0\<rparr>"

definition tiny_config :: ssd_config where
  "tiny_config = samsung_970pro\<lparr>CELL_MODE := 1, NAND_CHANNELS := 1, LUNS_PER_NAND_CH := 2,
     FLASH_PAGE_SIZE := 8192, ONESHOT_PAGE_SIZE := 8192, BLKS_PER_PLN := 6,
     NAND_4KB_READ_LATENCY := [100], NAND_READ_LATENCY := [200], SLC_ONESHOT_PAGE_SIZE := 8192,
     SLC_PORTION := 0, GLOBAL_WB_SIZE := 32768\<rparr>"

definition tiny_spp :: ssdparams where
  "tiny_spp = the (ssd_init_params tiny_config zero_spp (6 * 2 * 8192) 1)"

lemmas init_params_defs = ssd_init_params_def init_geometry_def init_blocks_def init_latencies_def
  init_totals_def c_int_def div_round_up_def SLC_BLKS_def Let_def

lemma tiny_spp: "ssd_init_params tiny_config zero_spp (6 * 2 * 8192) 1 = Some tiny_spp"
  by (simp add: tiny_spp_def init_params_defs tiny_config_def samsung_970pro_def zero_spp_def)

lemma tiny_simps [simp]:
  "secsz tiny_spp = 512" "secs_per_pg tiny_spp = 8" "pgsz tiny_spp = 4096" "nchs tiny_spp = 1"
  "luns_per_ch tiny_spp = 2" "pls_per_lun tiny_spp = 1" "blks_per_pl tiny_spp = 6"
  "pgs_per_blk tiny_spp = 2" "pgs_per_oneshotpg tiny_spp = 2" "pgs_per_flashpg tiny_spp = 2"
  "flashpgs_per_blk tiny_spp = 1" "pgs_per_ch tiny_spp = 24" "pgs_per_lun tiny_spp = 12"
  "pgs_per_pl tiny_spp = 12" "tt_pgs tiny_spp = 24" "tt_lines tiny_spp = 6" "pgs_per_line tiny_spp = 4"
  "tt_luns tiny_spp = 2" "cell_mode tiny_spp = 1" "write_unit_size tiny_spp = 512"
  "pcie_bandwidth tiny_spp = 3360" "ch_bandwidth tiny_spp = 800" "write_buffer_size tiny_spp = 32768"
  "tlc_tt_lines tiny_spp = 6" "fw_ch_xfer_lat tiny_spp = 0" "max_ch_xfer_size tiny_spp = 16384"
  "pg_4kb_rd_lat tiny_spp = [100]" "pg_rd_lat tiny_spp = [200]" "write_early_completion tiny_spp"
  by (simp_all add: tiny_spp_def init_params_defs tiny_config_def samsung_970pro_def zero_spp_def cdefs)

text \<open>The PCIe link: its model is well formed, so transfers on it return.\<close>

definition tiny_pcie :: channel_model where
  "tiny_pcie = the (chmodel_init 3360)"

lemma tiny_pcie: "chmodel_init 3360 = Some tiny_pcie" "cm_wf tiny_pcie"
proof -
  show i: "chmodel_init 3360 = Some tiny_pcie"
    by (simp add: tiny_pcie_def chmodel_init_def BANDWIDTH_TO_TX_TIME_def BANDWIDTH_TO_MAX_CREDITS_def
      memset_credits_def cdefs udiv_def)
  show "cm_wf tiny_pcie"
    by (rule chmodel_init_wf [OF i]) (simp_all add: BANDWIDTH_TO_MAX_CREDITS_def cdefs)
qed

definition tiny_dev :: dev where
  "tiny_dev = \<lparr>pcie = tiny_pcie, write_buffer = buffer_init 32768, clock = (\<lambda>n. of_nat n),
     ticks = 1, random = (\<lambda>n. 999), draws = 0, internal_ops = []\<rparr>"

definition tiny_zone_config :: zns_config where
  "tiny_zone_config = zns_prototype\<lparr>ZONE_SIZE := 16384\<rparr>"

definition tiny_zpp :: znsparams where
  "tiny_zpp = the (zns_init_params tiny_zone_config tiny_spp 32768)"

lemma tiny_zpp: "zns_init_params tiny_zone_config tiny_spp 32768 = Some tiny_zpp"
  by (simp add: tiny_zpp_def zns_init_params_def tiny_zone_config_def zns_prototype_def udiv_def umod_def Let_def)

lemma tiny_zpp_simps [simp]: "nr_zones tiny_zpp = 2" "zone_size tiny_zpp = 16384"
   "zone_wb_size tiny_zpp = 0" "zrwa_buffer_size tiny_zpp = 0" "dies_per_zone tiny_zpp = 1"
  by (simp_all add: tiny_zpp_def zns_init_params_def tiny_zone_config_def zns_prototype_def udiv_def umod_def Let_def)

definition tiny_zns :: zns_ftl where
  "tiny_zns = zns_init_ftl tiny_zpp \<lparr>sp = tiny_spp, ssd_ch = []\<rparr> (\<lambda>_. 0)"

lemma tiny_zns_eq: "zone_descs tiny_zns = [init_descriptor tiny_zpp 0, init_descriptor tiny_zpp 1]"
  "zp tiny_zns = tiny_zpp" "sp (zf_ssd tiny_zns) = tiny_spp"
  by (simp_all add: tiny_zns_def zns_init_ftl_def Let_def upt_rec)

end
