(* ===== verification/Zns_Props.thy ===== *)
theory Zns_Props
  imports Zns_Inv Examples
begin

text \<open>
  The properties of zoned namespaces: what holds of every device that the commands can reach from
  its initialisation, and what a successful command does.
\<close>

subsection \<open>Devices reached by commands\<close>

text \<open>
  Commands of a zoned device: zone management, reads, and writes while no zone has a random write
  area.
\<close>

inductive zns_seq_step :: "zns_ftl \<Rightarrow> zns_ftl \<Rightarrow> bool" where
  seq_send: "zns_zmgmt_send junk z cmd = Some (z', st) \<Longrightarrow> zns_seq_step z z'"
| seq_write: "zns_write z dv sq t wcmd ret = Some (z', dv', wcmd', ret', ok) \<Longrightarrow>
    \<forall>d \<in> set (zone_descs z). \<not> zd_zrwav d \<Longrightarrow> zns_seq_step z z'"
| seq_read: "zns_read z dv t rcmd = Some (z', dv', ret') \<Longrightarrow> zns_seq_step z z'"

inductive_cases zns_seq_stepE: "zns_seq_step z z'"












subsection \<open>A device with two zones\<close>


lemmas tiny_eval = tiny_zns_def zns_init_ftl_def init_descriptor_def init_resource_def Let_def upt_rec
  lba_to_zone_def zone_to_slba_def zone_to_elba_def zone_to_elpn_def lba_to_lpn_def lpn_to_zone_def
  zone_to_slpn_def lpn_to_ppa_def die_to_channel_def die_to_lun_def udiv_def umod_def
  get_zd_def upd_zd_def change_zone_state_def open_from_closed_def acquire_zone_resource_def
  is_zone_resource_avail_def is_zone_resource_full_def upd_res_def










subsection \<open>Properties\<close>












lemma rejected_write_dev:
  assumes r: "zns_write_seq z dv sq t cmd ret = Some (z', dv', cmd', ret', True)"
    and st: "zret_status ret' \<noteq> SC_SUCCESS"
  shows "\<exists>zid za got. alloc_buf z dv (zone_buf z zid) (lba_bytes (ucast (nr_lbas_from_rw_cmd cmd))) =
      Some (za, dv', got) \<and> lba_bytes (ucast (nr_lbas_from_rw_cmd cmd)) \<le> ucast got"
proof -
  let ?n = "ucast (nr_lbas_from_rw_cmd cmd) :: u64"
  from r obtain zid d slpn elpn zel za dva got where
    zid: "lba_to_zone z (zc_slba cmd) = Some zid" and d: "get_zd z (unat zid) = Some d"
    and al: "alloc_buf z dv (zone_buf z (unat zid)) (lba_bytes ?n) = Some (za, dva, got)"
    and rest: "(let cmd = (if zc_append cmd then cmd\<lparr>zc_slba := zd_wp d\<rparr> else cmd); slba = zc_slba cmd;
          spp = sp (zf_ssd z) in
       if ucast got < lba_bytes ?n then Some (za, dva, cmd, ret, False)
       else do {
         st \<leftarrow> check_write za (unat zid) slba ?n;
         if st \<noteq> SC_SUCCESS then Some (za, dva, cmd, zns_answer spp cmd st t t, True)
         else do {
           (z, st) \<leftarrow> open_for_write za (unat zid) slba;
           if st \<noteq> SC_SUCCESS
           then Some (z, dva, cmd, zns_answer spp cmd st t t, True)
           else do {
             z \<leftarrow> increase_write_ptr z zid ?n;
             (dv, xfer) \<leftarrow> ssd_advance_write_buffer (zf_ssd z) dva t (lba_bytes ?n);
             (z, dv, latest) \<leftarrow>
               program_units sq xfer (zone_buf z (unat zid)) zel elpn slpn (z, dv, xfer);
             Some (z, dv, cmd, zns_answer spp cmd SC_SUCCESS latest xfer, True)
           }
         }
       }) = Some (z', dv', cmd', ret', True)"
    by (auto simp: zns_write_seq_def Let_def bind_Some_iff)
  have "\<not> ucast got < lba_bytes ?n \<and> dv' = dva"
    using rest st by (auto simp: Let_def bind_Some_iff zns_answer_def split: if_split_asm)
  then show ?thesis using al by (auto simp: not_less)
qed

text \<open>
  C12: a sequential write that is rejected after the space check (unaligned, across a zone boundary,
  not at the write pointer, zone not writable) has already taken its bytes from the device's write
  buffer, and neither gives them back nor schedules a release: the space is lost.
\<close>

theorem zns_rejected_write_leaks:
  assumes r: "zns_write_seq z dv sq t cmd ret = Some (z', dv', cmd', ret', True)"
    and st: "zret_status ret' \<noteq> SC_SUCCESS" and wb: "zone_wb_size (zp z) = 0"
  shows "unat (buf_remaining (write_buffer dv')) =
      unat (buf_remaining (write_buffer dv)) - 512 * unat (nr_lbas_from_rw_cmd cmd) \<and>
    512 * unat (nr_lbas_from_rw_cmd cmd) \<le> unat (buf_remaining (write_buffer dv)) \<and>
    0 < unat (nr_lbas_from_rw_cmd cmd) \<and> internal_ops dv' = internal_ops dv"
proof -
  let ?n = "nr_lbas_from_rw_cmd cmd" and ?b = "lba_bytes (ucast (nr_lbas_from_rw_cmd cmd))"
  have n: "0 < unat ?n" "unat ?n \<le> 2 ^ 16" using nr_lbas_bounds [of cmd] by (simp_all add: unat_ucast_up)
  have b: "unat ?b = 512 * unat ?n"
    using n by (simp add: lba_bytes_def push_bit_eq_mult unat_mult_nowrap unat_ucast_up)
  obtain zid za got where al: "alloc_buf z dv (zone_buf z zid) ?b = Some (za, dv', got)" and g: "?b \<le> ucast got"
    using rejected_write_dev [OF r st] by blast
  then have dv': "internal_ops dv' = internal_ops dv"
    and ba: "buffer_allocate (write_buffer dv) ?b = Some (write_buffer dv', got)"
    using wb by (auto simp: alloc_buf_def zone_buf_def read_buf_def write_buf_def bind_Some_iff)
  have le: "?b \<le> buf_remaining (write_buffer dv)"
  proof (rule ccontr)
    assume "\<not> ?thesis"
    then have "got = 0" using ba by (simp add: buffer_allocate_def not_le split: if_split_asm)
    then show False using g b n by (simp add: word_le_nat_alt)
  qed
  then have "write_buffer dv' = (write_buffer dv)\<lparr>buf_remaining := buf_remaining (write_buffer dv) - ?b\<rparr>"
    using ba by (auto simp: buffer_allocate_def Let_def split: if_split_asm)
  then have "unat (buf_remaining (write_buffer dv')) = unat (buf_remaining (write_buffer dv)) - 512 * unat ?n"
    using le b by (simp add: unat_sub)
  then show ?thesis using le dv' n b by (simp add: word_le_nat_alt)
qed

definition tiny_bad_write :: zns_rw_command where
  "tiny_bad_write = \<lparr>zc_append = False, zc_slba = 4, zc_length = 7, zc_control = 0\<rparr>"

theorem zns_rejected_write_leaks_witness:
  "\<exists>z' dv' cmd' ret'. zns_write_seq tiny_zns tiny_dev 0 5 tiny_bad_write
       \<lparr>zret_status = 0, zret_nsecs_target = 0\<rparr> = Some (z', dv', cmd', ret', True) \<and>
     zret_status ret' = SC_ZNS_INVALID_WRITE \<and> unat (buf_remaining (write_buffer dv')) = 28672"
proof -
  obtain z' dv' cmd' ret' where r: "zns_write_seq tiny_zns tiny_dev 0 5 tiny_bad_write
       \<lparr>zret_status = 0, zret_nsecs_target = 0\<rparr> = Some (z', dv', cmd', ret', True)"
    and st: "zret_status ret' = SC_ZNS_INVALID_WRITE"
    by (simp add: zns_write_seq_def tiny_bad_write_def nr_lbas_from_rw_cmd_def tiny_eval alloc_buf_def
      tiny_zpp_def zns_init_params_def tiny_zone_config_def zns_prototype_def
      read_buf_def write_buf_def zone_buf_def tiny_dev_def buffer_init_def buffer_allocate_def lba_bytes_def
      check_write_def check_boundary_error_def arg32_def zns_answer_def cdefs)
  have ne: "zret_status ret' \<noteq> SC_SUCCESS" using st by (simp add: cdefs)
  have "zone_wb_size (zp tiny_zns) = 0" by (simp add: tiny_zns_eq)
  then show ?thesis
    using zns_rejected_write_leaks [OF r ne] r st
    by (simp add: tiny_bad_write_def nr_lbas_from_rw_cmd_def tiny_dev_def buffer_init_def)
qed

end
