(* ===== verification/Outcome.thy ===== *)
theory Outcome
  imports Prelude
begin

text \<open>
  The judgement in which the contracts of the translation layer are stated:
  \<open>returns c m Q\<close> says that the computation \<open>m\<close>, when it does not fault, ends in a state
  with \<open>Q\<close>, and that it does not fault when \<open>c\<close> holds. With \<open>c\<close> false it is partial
  correctness, with \<open>c\<close> true total correctness, and one lemma serves for both.
\<close>

definition returns :: "bool \<Rightarrow> 'a option \<Rightarrow> ('a \<Rightarrow> bool) \<Rightarrow> bool" where
  "returns c m Q \<longleftrightarrow> (case m of None \<Rightarrow> \<not> c | Some x \<Rightarrow> Q x)"

named_theorems outcome \<open>contracts of single steps\<close>

lemma returns_SomeI: "Q x \<Longrightarrow> returns c (Some x) Q"
  by (simp add: returns_def)

lemma returns_Some [simp]: "returns c (Some x) Q \<longleftrightarrow> Q x"
  by (simp add: returns_def)

lemma returns_None [simp]: "returns c None Q \<longleftrightarrow> \<not> c"
  by (simp add: returns_def)

lemma returnsD: "returns c m Q \<Longrightarrow> m = Some x \<Longrightarrow> Q x"
  by (simp add: returns_def)

lemma returns_totalD: "returns c m Q \<Longrightarrow> c \<Longrightarrow> \<exists>x. m = Some x \<and> Q x"
  by (auto simp: returns_def split: option.splits)

lemma returnsI:
  "(\<And>x. m = Some x \<Longrightarrow> Q x) \<Longrightarrow> (c \<Longrightarrow> \<exists>x. m = Some x) \<Longrightarrow> returns c m Q"
  by (auto simp: returns_def split: option.splits)

lemma returns_weaken:
  "returns c' m Q' \<Longrightarrow> (c \<Longrightarrow> c') \<Longrightarrow> (\<And>x. Q' x \<Longrightarrow> Q x) \<Longrightarrow> returns c m Q"
  by (auto simp: returns_def split: option.splits)

lemma returns_post: "returns c m Q' \<Longrightarrow> (\<And>x. Q' x \<Longrightarrow> Q x) \<Longrightarrow> returns c m Q"
  by (rule returns_weaken)

lemma returns_bind:
  assumes "returns c' m Q" and "c \<Longrightarrow> c'" and "\<And>x. m = Some x \<Longrightarrow> Q x \<Longrightarrow> returns c (f x) R"
  shows "returns c (Option.bind m f) R"
  using assms by (cases m) auto

lemma returns_assert:
  "(c \<Longrightarrow> b) \<Longrightarrow> (b \<Longrightarrow> returns c (f ()) R) \<Longrightarrow> returns c (Option.bind (NVMEV_ASSERT b) f) R"
  by auto

lemma returns_bind_Some:
  "m = Some x \<Longrightarrow> returns c (f x) R \<Longrightarrow> returns c (Option.bind m f) R"
  by simp

lemma returns_if:
  "(b \<Longrightarrow> returns c m Q) \<Longrightarrow> (\<not> b \<Longrightarrow> returns c m' Q) \<Longrightarrow> returns c (if b then m else m') Q"
  by simp

text \<open>Loops: an invariant of the state, or one indexed by the counter.\<close>

lemma returns_fold_simple:
  assumes "I s" and "\<And>x s. x \<in> set xs \<Longrightarrow> I s \<Longrightarrow> returns c (f x s) I"
  shows "returns c (fold_opt f xs s) I"
  using assms by (induction xs arbitrary: s) (auto intro: returns_bind)

lemma returns_fold_upt:
  assumes "I a s" and "a \<le> b"
    and "\<And>i s. a \<le> i \<Longrightarrow> i < b \<Longrightarrow> I i s \<Longrightarrow> returns c (f i s) (I (Suc i))"
  shows "returns c (fold_opt f [a..<b] s) (I b)"
  using assms
proof (induction "b - a" arbitrary: a s)
  case 0
  then show ?case by simp
next
  case (Suc n)
  then have "[a..<b] = a # [Suc a..<b]" by (simp add: upt_rec)
  moreover have "returns c (f a s) (I (Suc a))" using Suc by auto
  moreover have "returns c (fold_opt f [Suc a..<b] t) (I b)" if "I (Suc a) t" for t
    using Suc that by auto
  ultimately show ?case by (auto intro: returns_bind)
qed

end
