(* ===== verification/Victim_Queue.thy ===== *)
theory Victim_Queue
  imports Victim Outcome
begin

text \<open>
  The victim queue of the translation layer: the callbacks of \<open>conv_ftl.c\<close> satisfy the contract
  \<open>pq_store\<close> of the priority queue, so the queue's lemmas hold for it. The queue's operations
  write nothing but the positions of lines (and the valid count whose change was asked for), the
  greedy selection takes a line with the fewest valid pages, and the scored one a line of the
  greatest score.
\<close>

subsection \<open>The callbacks satisfy the contract\<close>

abbreviation line_ok :: "line list \<Rightarrow> nat \<Rightarrow> bool" where
  "line_ok \<equiv> \<lambda>h a. a < length h"

definition count_ok :: "u64 \<Rightarrow> bool" where
  "count_ok p \<longleftrightarrow> unat p < 2 ^ 31"

lemma victim_cb_simps [simp]:
  "cmppri victim_cb = victim_line_cmp_pri" "getpri victim_cb = victim_line_get_pri"
  "setpri victim_cb = victim_line_set_pri" "getpos victim_cb = victim_line_get_pos"
  "setpos victim_cb = victim_line_set_pos"
  by (simp_all add: victim_cb_def)

lemma sint_count: "count_ok p \<Longrightarrow> sint (ucast p :: u32) = int (unat p)"
proof -
  assume p: "count_ok p"
  then have "unat (ucast p :: u32) = unat p"
    by (intro unat_ucast_less) (simp add: count_ok_def)
  then have u: "uint (ucast p :: u32) = int (unat p)" by (metis uint_nat)
  have "int (unat p) < int (2 ^ 31)" using p unfolding count_ok_def by (simp only: of_nat_less_iff)
  then have "signed_take_bit 31 (int (unat p)) = int (unat p)"
    by (intro signed_take_bit_int_eq_self order_trans [OF _ of_nat_0_le_iff]) auto
  then show ?thesis by (simp only: sint_uint u) simp
qed

interpretation vq: pq_store victim_cb line_ok count_ok
proof
  fix h :: "line list" and a b n p
  show "a < length h \<Longrightarrow> getpos victim_cb (setpos victim_cb a n h) b = (if b = a then n else getpos victim_cb h b)"
    by (simp add: victim_line_get_pos_def victim_line_set_pos_def nth_list_update)
  show "getpri victim_cb (setpos victim_cb a n h) b = getpri victim_cb h b"
    by (cases "a < length h")
      (auto simp: victim_line_get_pri_def victim_line_set_pos_def nth_list_update list_update_beyond)
  show "line_ok (setpos victim_cb a n h) b = line_ok h b"
    by (simp add: victim_line_set_pos_def)
  show "a < length h \<Longrightarrow> count_ok p \<Longrightarrow>
      getpri victim_cb (setpri victim_cb a p h) b = (if b = a then p else getpri victim_cb h b)"
    by (auto simp: victim_line_get_pri_def victim_line_set_pri_def nth_list_update sint_count)
  show "getpos victim_cb (setpri victim_cb a p h) b = getpos victim_cb h b"
    by (cases "a < length h") 
      (auto simp: victim_line_get_pos_def victim_line_set_pri_def nth_list_update list_update_beyond)
  show "line_ok (setpri victim_cb a p h) b = line_ok h b"
    by (simp add: victim_line_set_pri_def)
qed (auto simp: victim_line_cmp_pri_def)

subsection \<open>What the queue writes\<close>

text \<open>
  An observation of the memory that no write of a position changes is not changed by the sifting
  loops, so neither by inserting, removing nor popping.
\<close>

definition pos_blind :: "('a, 'h) pq_callbacks \<Rightarrow> ('h \<Rightarrow> 'b) \<Rightarrow> bool" where
  "pos_blind cb obs \<longleftrightarrow> (\<forall>a n h. obs (setpos cb a n h) = obs h)"

lemma bubble_loop_blind:
  "pos_blind cb obs \<Longrightarrow> bubble_loop cb mp d h i = (d', h', i') \<Longrightarrow> obs h' = obs h"
proof (induction cb mp d h i rule: bubble_loop.induct)
  case (1 cb mp d h i)
  show ?case
    using 1(1) 1(2) 1(3) [unfolded bubble_loop.simps [of cb mp d h i]]
    by (auto simp: Let_def pos_blind_def simp del: fun_upd_apply split: if_splits)
qed

lemma percolate_loop_blind:
  "pos_blind cb obs \<Longrightarrow> percolate_loop cb n mp d h i = (d', h', i') \<Longrightarrow> obs h' = obs h"
proof (induction cb n mp d h i rule: percolate_loop.induct)
  case (1 cb n mp d h i)
  show ?case
    using 1(1) 1(2) 1(3) [unfolded percolate_loop.simps [of cb n mp d h i]]
    by (auto simp: Let_def pos_blind_def simp del: fun_upd_apply split: if_splits)
qed

lemma sift_blind:
  assumes "pos_blind (pq_cb q) obs"
  shows "obs (snd (bubble_up q h i)) = obs h" "obs (snd (percolate_down q h i)) = obs h"
  using assms
  by (auto simp: bubble_up_def percolate_down_def Let_def pos_blind_def split: prod.splits
      dest: bubble_loop_blind [OF assms] percolate_loop_blind [OF assms])

lemma queue_ops_blind:
  assumes "pos_blind (pq_cb q) obs"
  shows "pqueue_insert q h a = Some (q', h') \<Longrightarrow> obs h' = obs h"
    and "pqueue_remove q h a = (q', h') \<Longrightarrow> obs h' = obs h"
    and "pqueue_pop q h = (r, q', h') \<Longrightarrow> obs h' = obs h"
    and "pqueue_change_priority q h p a = (q', h') \<Longrightarrow> obs h' = obs (setpri (pq_cb q) a p h)"
  using sift_blind [of "q\<lparr>pq_size := x, pq_d := y\<rparr>" obs for x y] sift_blind [OF assms] assms
  by (fastforce simp: pqueue_insert_def pqueue_remove_def pqueue_pop_def
      pqueue_change_priority_def Let_def split: if_splits dest: arg_cong [where f = "\<lambda>r. obs (snd r)"])+

text \<open>A line without its position in the queue.\<close>

definition no_pos :: "line \<Rightarrow> line" where
  "no_pos l = l\<lparr>line_pos := 0\<rparr>"

lemma no_pos_blind: "pos_blind victim_cb (map no_pos)"
proof -
  have "map no_pos (h[a := (h ! a)\<lparr>line_pos := n\<rparr>]) = map no_pos h" for h :: "line list" and a n
    by (cases "a < length h")
      (auto simp: map_update no_pos_def list_update_beyond intro: list_update_same_conv [THEN iffD2])
  then show ?thesis by (simp add: pos_blind_def victim_line_set_pos_def)
qed

lemma no_pos_eq:
  assumes "map no_pos h' = map no_pos h" "i < length h"
  shows "line_id (h' ! i) = line_id (h ! i)" "line_ipc (h' ! i) = line_ipc (h ! i)"
    "line_vpc (h' ! i) = line_vpc (h ! i)" "last_modified_time (h' ! i) = last_modified_time (h ! i)"
    "line_erase_cnt (h' ! i) = line_erase_cnt (h ! i)"
proof -
  have "no_pos (h' ! i) = no_pos (h ! i)"
    using assms by (metis length_map nth_map)
  then have l: "(h' ! i)\<lparr>line_pos := 0\<rparr> = (h ! i)\<lparr>line_pos := 0\<rparr>" by (simp add: no_pos_def)
  show "line_id (h' ! i) = line_id (h ! i)" using arg_cong [OF l, of line_id] by simp
  show "line_ipc (h' ! i) = line_ipc (h ! i)" using arg_cong [OF l, of line_ipc] by simp
  show "line_vpc (h' ! i) = line_vpc (h ! i)" using arg_cong [OF l, of line_vpc] by simp
  show "last_modified_time (h' ! i) = last_modified_time (h ! i)"
    using arg_cong [OF l, of last_modified_time] by simp
  show "line_erase_cnt (h' ! i) = line_erase_cnt (h ! i)"
    using arg_cong [OF l, of line_erase_cnt] by simp
qed

lemma no_pos_length: "map no_pos h' = map no_pos h \<Longrightarrow> length h' = length h"
  by (metis length_map)

end
