(* ===== verification/Geometry.thy ===== *)
theory Geometry
  imports Lines Outcome
begin

text \<open>
  The geometry of a device and its addresses. \<open>geometry\<close> collects what the translation layer
  relies on in the parameters; addresses are quadruples of channel, LUN, block and page; the state
  of the NAND array is viewed as a function of addresses on which a write through a pointer of
  the code is an update at one point; page indices are a bijection and the write pointer walks
  the pages of a line in the order of \<open>pidx\<close>.
\<close>

subsection \<open>Parameters\<close>

definition geometry :: "ssdparams \<Rightarrow> bool" where
  "geometry spp \<longleftrightarrow>
     pls_per_lun spp = 1 \<and>
     0 < nchs spp \<and> nchs spp \<le> 256 \<and> 0 < luns_per_ch spp \<and> luns_per_ch spp \<le> 256 \<and>
     blks_per_pl spp \<le> 65536 \<and> 0 < pgs_per_blk spp \<and> pgs_per_blk spp \<le> 65536 \<and>
     0 < pgs_per_oneshotpg spp \<and> pgs_per_oneshotpg spp dvd pgs_per_blk spp \<and>
     0 < pgs_per_flashpg spp \<and> pgs_per_flashpg spp * flashpgs_per_blk spp = pgs_per_blk spp \<and>
     pgs_per_pl spp = pgs_per_blk spp * blks_per_pl spp \<and>
     pgs_per_lun spp = pgs_per_pl spp * pls_per_lun spp \<and>
     pgs_per_ch spp = pgs_per_lun spp * luns_per_ch spp \<and>
     tt_pgs spp = pgs_per_ch spp * nchs spp \<and>
     pgs_per_line spp = luns_per_ch spp * nchs spp * pgs_per_blk spp \<and>
     pgs_per_line spp < 2 ^ 31 \<and> tt_lines spp = blks_per_pl spp \<and>
     0 < cell_mode spp \<and> cell_mode spp \<le> length (pg_rd_lat spp) \<and>
     cell_mode spp \<le> length (pg_4kb_rd_lat spp) \<and>
     0 < max_ch_xfer_size spp \<and> max_ch_xfer_size spp < 2 ^ 64 \<and>
     0 < pgsz spp \<and> pgsz spp * pgs_per_flashpg spp < 2 ^ 64"

lemma geometryD:
  assumes "geometry spp"
  shows "pls_per_lun spp = 1" "0 < nchs spp" "nchs spp \<le> 256" "0 < luns_per_ch spp"
    "luns_per_ch spp \<le> 256" "blks_per_pl spp \<le> 65536" "0 < pgs_per_blk spp"
    "pgs_per_blk spp \<le> 65536" "0 < pgs_per_oneshotpg spp"
    "pgs_per_oneshotpg spp dvd pgs_per_blk spp" "0 < pgs_per_flashpg spp"
    "pgs_per_flashpg spp * flashpgs_per_blk spp = pgs_per_blk spp"
    "pgs_per_pl spp = pgs_per_blk spp * blks_per_pl spp"
    "pgs_per_lun spp = pgs_per_blk spp * blks_per_pl spp"
    "pgs_per_ch spp = pgs_per_blk spp * blks_per_pl spp * luns_per_ch spp"
    "tt_pgs spp = pgs_per_blk spp * blks_per_pl spp * luns_per_ch spp * nchs spp"
    "pgs_per_line spp = luns_per_ch spp * nchs spp * pgs_per_blk spp"
    "pgs_per_line spp < 2 ^ 31" "tt_lines spp = blks_per_pl spp"
    "0 < cell_mode spp" "cell_mode spp \<le> length (pg_rd_lat spp)"
    "cell_mode spp \<le> length (pg_4kb_rd_lat spp)"
    "0 < max_ch_xfer_size spp" "max_ch_xfer_size spp < 2 ^ 64"
    "0 < pgsz spp" "pgsz spp * pgs_per_flashpg spp < 2 ^ 64"
  using assms by (simp_all add: geometry_def)

subsection \<open>Addresses\<close>

type_synonym pa = "nat \<times> nat \<times> nat \<times> nat"

definition pa_of :: "ppa \<Rightarrow> pa" where
  "pa_of p = (unat (g_ch p), unat (g_lun p), unat (g_blk p), unat (g_pg p))"

definition vpa :: "ssdparams \<Rightarrow> pa \<Rightarrow> bool" where
  "vpa spp = (\<lambda>(c, l, b, g). c < nchs spp \<and> l < luns_per_ch spp \<and> b < blks_per_pl spp \<and> g < pgs_per_blk spp)"

definition ppa_of :: "pa \<Rightarrow> ppa" where
  "ppa_of = (\<lambda>(c, l, b, g). \<lparr>g_pg = of_nat g, g_blk = of_nat b, g_pl = 0, g_lun = of_nat l,
     g_ch = of_nat c, g_rsv = 0\<rparr>)"

lemma vpa_simp [simp]:
  "vpa spp (c, l, b, g) \<longleftrightarrow> c < nchs spp \<and> l < luns_per_ch spp \<and> b < blks_per_pl spp \<and> g < pgs_per_blk spp"
  by (simp add: vpa_def)

lemma pa_of_ppa_of:
  assumes "geometry spp" "vpa spp a"
  shows "pa_of (ppa_of a) = a" "g_pl (ppa_of a) = 0" "g_rsv (ppa_of a) = 0"
proof -
  obtain c l b g where a: "a = (c, l, b, g)" by (cases a)
  have "c < 256" "l < 256" "b < 65536" "g < 65536"
    using assms geometryD(3,5,6,8) [OF assms(1)] by (auto simp: a)
  then show "pa_of (ppa_of a) = a" "g_pl (ppa_of a) = 0" "g_rsv (ppa_of a) = 0"
    by (simp_all add: a pa_of_def ppa_of_def unat_of_nat_small)
qed

lemma valid_ppa_iff:
  "geometry (spp_of ftl) \<Longrightarrow> valid_ppa ftl p \<longleftrightarrow> vpa (spp_of ftl) (pa_of p) \<and> g_pl p = 0"
  by (auto simp: valid_ppa_def pa_of_def geometry_def unat_eq_0 word_less_1)

text \<open>The index of a page in the reverse map.\<close>

definition idx_of :: "ssdparams \<Rightarrow> pa \<Rightarrow> nat" where
  "idx_of spp = (\<lambda>(c, l, b, g). ((c * luns_per_ch spp + l) * blks_per_pl spp + b) * pgs_per_blk spp + g)"

lemma mixed_radix_less: "(x :: nat) < m \<Longrightarrow> y < n \<Longrightarrow> x * n + y < m * n"
proof -
  assume "x < m" "y < n"
  then have "x * n + y < x * n + n" by simp
  also have "\<dots> = (x + 1) * n" by simp
  also have "\<dots> \<le> m * n" using \<open>x < m\<close> by (intro mult_right_mono) auto
  finally show ?thesis .
qed

lemma mixed_radix_inj:
  "(x :: nat) * n + y = x' * n + y' \<Longrightarrow> y < n \<Longrightarrow> y' < n \<Longrightarrow> x = x' \<and> y = y'"
  by (metis add.commute div_mult_self1 div_less add_0 less_nat_zero_code mod_less mod_mult_self1 gr0I)

lemma idx_of_less:
  assumes "geometry spp" "vpa spp a"
  shows "idx_of spp a < tt_pgs spp"
proof -
  obtain c l b g where a: "a = (c, l, b, g)" by (cases a)
  have "((c * luns_per_ch spp + l) * blks_per_pl spp + b) * pgs_per_blk spp + g
      < nchs spp * luns_per_ch spp * blks_per_pl spp * pgs_per_blk spp"
    using assms(2) by (auto simp: a intro!: mixed_radix_less)
  then show ?thesis
    by (simp add: idx_of_def a geometryD(16) [OF assms(1)] ac_simps)
qed

lemma idx_of_inj:
  assumes "vpa spp a" "vpa spp a'" "idx_of spp a = idx_of spp a'"
  shows "a = a'"
proof -
  obtain c l b g c' l' b' g' where a: "a = (c, l, b, g)" "a' = (c', l', b', g')"
    by (cases a, cases a')
  have 1: "(c * luns_per_ch spp + l) * blks_per_pl spp + b = (c' * luns_per_ch spp + l') * blks_per_pl spp + b'
      \<and> g = g'"
    using assms by (intro mixed_radix_inj) (auto simp: a idx_of_def)
  then have 2: "c * luns_per_ch spp + l = c' * luns_per_ch spp + l' \<and> b = b'"
    using assms by (intro mixed_radix_inj) (auto simp: a)
  then have "c = c' \<and> l = l'"
    using assms by (intro mixed_radix_inj) (auto simp: a)
  then show ?thesis using 1 2 a by simp
qed

lemma ppa2pgidx_eq:
  assumes "geometry (spp_of ftl)" "vpa (spp_of ftl) (pa_of p)" "g_pl p = 0"
  shows "ppa2pgidx ftl p = Some (idx_of (spp_of ftl) (pa_of p))"
proof -
  have "unat (g_ch p) * pgs_per_ch (spp_of ftl) + unat (g_lun p) * pgs_per_lun (spp_of ftl) +
      unat (g_pl p) * pgs_per_pl (spp_of ftl) + unat (g_blk p) * pgs_per_blk (spp_of ftl) + unat (g_pg p)
      = idx_of (spp_of ftl) (pa_of p)"
    using assms(3) geometryD [OF assms(1)] by (simp add: idx_of_def pa_of_def algebra_simps)
  then show ?thesis
    using idx_of_less [OF assms(1,2)] by (simp add: ppa2pgidx_def Let_def)
qed

subsection \<open>Lines and the order of a write pointer\<close>

definition lpages :: "ssdparams \<Rightarrow> nat \<Rightarrow> pa set" where
  "lpages spp b = {..<nchs spp} \<times> {..<luns_per_ch spp} \<times> {b} \<times> {..<pgs_per_blk spp}"

lemma lpages_simp [simp]:
  "(c, l, b', g) \<in> lpages spp b \<longleftrightarrow> c < nchs spp \<and> l < luns_per_ch spp \<and> b' = b \<and> g < pgs_per_blk spp"
  by (auto simp: lpages_def)

lemma finite_lpages [simp]: "finite (lpages spp b)"
  by (simp add: lpages_def)

lemma card_lpages: "geometry spp \<Longrightarrow> card (lpages spp b) = pgs_per_line spp"
  by (simp add: lpages_def card_cartesian_product geometryD(17))

definition bpages :: "ssdparams \<Rightarrow> nat \<Rightarrow> nat \<Rightarrow> nat \<Rightarrow> pa set" where
  "bpages spp c l b = {c} \<times> {l} \<times> {b} \<times> {..<pgs_per_blk spp}"

lemma bpages_simp [simp]:
  "(c', l', b', g) \<in> bpages spp c l b \<longleftrightarrow> c' = c \<and> l' = l \<and> b' = b \<and> g < pgs_per_blk spp"
  by (auto simp: bpages_def)

lemma finite_bpages [simp]: "finite (bpages spp c l b)"
  by (simp add: bpages_def)

definition pidx :: "ssdparams \<Rightarrow> nat \<Rightarrow> nat \<Rightarrow> nat \<Rightarrow> nat" where
  "pidx spp c l g =
     ((g div pgs_per_oneshotpg spp * luns_per_ch spp + l) * nchs spp + c) * pgs_per_oneshotpg spp
       + g mod pgs_per_oneshotpg spp"

definition pidx_of :: "ssdparams \<Rightarrow> pa \<Rightarrow> nat" where
  "pidx_of spp = (\<lambda>(c, l, b, g). pidx spp c l g)"

lemma pidx_of_simp [simp]: "pidx_of spp (c, l, b, g) = pidx spp c l g"
  by (simp add: pidx_of_def)

lemma pidx_less:
  assumes "geometry spp" "c < nchs spp" "l < luns_per_ch spp" "g < pgs_per_blk spp"
  shows "pidx spp c l g < pgs_per_line spp"
proof -
  let ?o = "pgs_per_oneshotpg spp"
  obtain k where k: "pgs_per_blk spp = k * ?o"
    using geometryD(10) [OF assms(1)] by (metis dvd_div_mult_self)
  have o: "0 < ?o" by (rule geometryD(9) [OF assms(1)])
  then have "g div ?o < k" using assms(4) k by (simp add: less_mult_imp_div_less)
  then have "pidx spp c l g < k * luns_per_ch spp * nchs spp * ?o"
    unfolding pidx_def using assms(2,3) o by (intro mixed_radix_less) auto
  then show ?thesis by (simp add: geometryD(17) [OF assms(1)] k ac_simps)
qed

lemma pidx_of_less: "geometry spp \<Longrightarrow> a \<in> lpages spp b \<Longrightarrow> pidx_of spp a < pgs_per_line spp"
  by (cases a) (auto intro: pidx_less)

lemma pidx_of_inj:
  assumes "geometry spp" "a \<in> lpages spp b" "a' \<in> lpages spp b" "pidx_of spp a = pidx_of spp a'"
  shows "a = a'"
proof -
  obtain c l g c' l' g' where a: "a = (c, l, b, g)" "a' = (c', l', b, g')"
    using assms(2,3) by (cases a, cases a') auto
  let ?o = "pgs_per_oneshotpg spp"
  have o: "0 < ?o" by (rule geometryD(9) [OF assms(1)])
  have 1: "(g div ?o * luns_per_ch spp + l) * nchs spp + c = (g' div ?o * luns_per_ch spp + l') * nchs spp + c'
      \<and> g mod ?o = g' mod ?o"
    using assms(4) o by (intro mixed_radix_inj) (auto simp: a pidx_def)
  then have 2: "g div ?o * luns_per_ch spp + l = g' div ?o * luns_per_ch spp + l' \<and> c = c'"
    using assms(2,3) by (intro mixed_radix_inj) (auto simp: a)
  then have "g div ?o = g' div ?o \<and> l = l'"
    using assms(2,3) by (intro mixed_radix_inj) (auto simp: a)
  then show ?thesis using 1 2 a by (metis div_mult_mod_eq)
qed

text \<open>A write pointer inside a line, the address it stands at and its place in the order.\<close>

definition wp_idx :: "ssdparams \<Rightarrow> write_pointer \<Rightarrow> nat" where
  "wp_idx spp w = pidx spp (wp_ch w) (wp_lun w) (wp_pg w)"

definition wp_wf :: "ssdparams \<Rightarrow> write_pointer \<Rightarrow> bool" where
  "wp_wf spp w \<longleftrightarrow> wp_ch w < nchs spp \<and> wp_lun w < luns_per_ch spp \<and> wp_pg w < pgs_per_blk spp \<and>
     wp_blk w = curline w \<and> curline w < blks_per_pl spp \<and> wp_pl w = 0"

definition wp_at :: "write_pointer \<Rightarrow> pa" where
  "wp_at w = (wp_ch w, wp_lun w, curline w, wp_pg w)"

lemma wp_at_pidx [simp]: "pidx_of spp (wp_at w) = wp_idx spp w"
  by (simp add: wp_at_def wp_idx_def)

lemma wp_at_lpages: "wp_wf spp w \<Longrightarrow> wp_at w \<in> lpages spp (curline w)"
  by (simp add: wp_at_def wp_wf_def)

lemma wp_idx_less: "geometry spp \<Longrightarrow> wp_wf spp w \<Longrightarrow> wp_idx spp w < pgs_per_line spp"
  by (auto simp: wp_idx_def wp_wf_def intro: pidx_less)

text \<open>
  The step of the write pointer is the successor in this order; it leaves the line exactly when
  the order is exhausted.
\<close>

definition wp_next :: "ssdparams \<Rightarrow> write_pointer \<Rightarrow> write_pointer + write_pointer \<Rightarrow> bool" where
  "wp_next spp w r = (case r of
     Inl w' \<Rightarrow> wp_wf spp w' \<and> curline w' = curline w \<and> wp_idx spp w' = wp_idx spp w + 1
   | Inr w' \<Rightarrow> wp_idx spp w + 1 = pgs_per_line spp \<and>
       w' = w\<lparr>wp_ch := 0, wp_lun := 0, wp_pg := 0\<rparr>)"

lemma Suc_div_mod:
  assumes "0 < (n :: nat)" "Suc g mod n \<noteq> 0"
  shows "Suc g div n = g div n" "Suc g mod n = Suc (g mod n)"
  using assms by (auto simp: mod_Suc div_Suc split: if_splits)

lemma Suc_mod_0:
  assumes "0 < (n :: nat)" "Suc g mod n = 0"
  shows "g mod n = n - 1" "(Suc g - n) div n = g div n" "(Suc g - n) mod n = 0" "n \<le> Suc g"
    "Suc g = (g div n + 1) * n"
proof -
  show m: "g mod n = n - 1" using assms by (auto simp: mod_Suc split: if_splits)
  have d: "g = g div n * n + (n - 1)" using m by (metis div_mult_mod_eq)
  then show e: "Suc g = (g div n + 1) * n" using assms(1) by simp
  then show "n \<le> Suc g" by simp
  have "Suc g - n = g div n * n" using e by simp
  then show "(Suc g - n) div n = g div n" "(Suc g - n) mod n = 0" using assms(1) by simp_all
qed

lemma wp_step_next:
  assumes geo: "geometry spp" and w: "wp_wf spp w"
  shows "\<exists>r. wp_step spp w = Some r \<and> wp_next spp w r"
proof -
  let ?o = "pgs_per_oneshotpg spp" and ?L = "luns_per_ch spp" and ?C = "nchs spp" and ?g = "wp_pg w"
  note o = geometryD(9) [OF geo]
  have ranges: "wp_ch w < ?C" "wp_lun w < ?L" "?g < pgs_per_blk spp" using w by (simp_all add: wp_wf_def)
  obtain k where k: "pgs_per_blk spp = k * ?o"
    using geometryD(10) [OF geo] by (metis dvd_div_mult_self)
  show ?thesis
  proof (cases "Suc ?g mod ?o = 0")
    case False
    then have lt: "Suc ?g < pgs_per_blk spp"
      using ranges(3) k by (metis Suc_lessI mod_mult_self2_is_0)
    have "wp_step spp w = Some (Inl (w\<lparr>wp_pg := ?g + 1\<rparr>))"
      using False ranges o by (simp add: wp_step_def check_addr_def)
    then show ?thesis
      using lt w Suc_div_mod [OF o False] by (auto simp: wp_next_def wp_wf_def wp_idx_def pidx_def)
  next
    case True
    note m = Suc_mod_0 [OF o True]
    have pgb: "Suc ?g - ?o < pgs_per_blk spp" using ranges(3) o by simp
    show ?thesis
    proof (cases "Suc (wp_ch w) = ?C")
      case False
      then have "wp_step spp w = Some (Inl (w\<lparr>wp_pg := Suc ?g - ?o, wp_ch := wp_ch w + 1\<rparr>))"
        using True ranges o by (simp add: wp_step_def check_addr_def)
      moreover have "wp_idx spp (w\<lparr>wp_pg := Suc ?g - ?o, wp_ch := wp_ch w + 1\<rparr>) = wp_idx spp w + 1"
        using m o by (simp add: wp_idx_def pidx_def algebra_simps)
      ultimately show ?thesis
        using False ranges pgb w by (auto simp: wp_next_def wp_wf_def)
    next
      case ch: True
      show ?thesis
      proof (cases "Suc (wp_lun w) = ?L")
        case False
        then have "wp_step spp w = Some (Inl (w\<lparr>wp_pg := Suc ?g - ?o, wp_ch := 0, wp_lun := wp_lun w + 1\<rparr>))"
          using True ch ranges o by (simp add: wp_step_def check_addr_def)
        moreover have "wp_idx spp (w\<lparr>wp_pg := Suc ?g - ?o, wp_ch := 0, wp_lun := wp_lun w + 1\<rparr>)
            = wp_idx spp w + 1"
        proof -
          have "wp_idx spp w + 1 = (((?g div ?o * ?L + wp_lun w) * ?C + wp_ch w) + 1) * ?o"
            using m(1) o by (simp add: wp_idx_def pidx_def)
          also have "\<dots> = ((?g div ?o * ?L + wp_lun w) * ?C + Suc (wp_ch w)) * ?o" by simp
          also have "\<dots> = (?g div ?o * ?L + wp_lun w + 1) * ?C * ?o" by (simp only: ch) (simp add: algebra_simps)
          finally show ?thesis using m by (simp add: wp_idx_def pidx_def)
        qed
        ultimately show ?thesis
          using False ranges pgb w geometryD(2) [OF geo] by (auto simp: wp_next_def wp_wf_def)
      next
        case lun: True
        have idx: "wp_idx spp w + 1 = (?g div ?o + 1) * ?L * ?C * ?o"
        proof -
          have "wp_idx spp w + 1 = ((?g div ?o * ?L + wp_lun w) * ?C + Suc (wp_ch w)) * ?o"
            using m(1) o by (simp add: wp_idx_def pidx_def)
          also have "\<dots> = (?g div ?o * ?L + Suc (wp_lun w)) * ?C * ?o" by (simp only: ch) (simp add: algebra_simps)
          also have "\<dots> = (?g div ?o + 1) * ?L * ?C * ?o" by (simp only: lun) (simp add: algebra_simps)
          finally show ?thesis .
        qed
        have pgb': "Suc ?g - ?o + ?o = Suc ?g" using m(4) by simp
        show ?thesis
        proof (cases "Suc ?g = pgs_per_blk spp")
          case False
          then have "wp_step spp w = Some (Inl (w\<lparr>wp_pg := Suc ?g, wp_ch := 0, wp_lun := 0\<rparr>))"
            using True ch lun ranges o pgb' by (simp add: wp_step_def check_addr_def)
          moreover have "wp_idx spp (w\<lparr>wp_pg := Suc ?g, wp_ch := 0, wp_lun := 0\<rparr>) = wp_idx spp w + 1"
          proof -
            have "Suc ?g div ?o = ?g div ?o + 1" using m(5) o by (metis nonzero_mult_div_cancel_right not_gr0)
            then show ?thesis using idx True by (simp add: wp_idx_def pidx_def)
          qed
          ultimately show ?thesis
            using False ranges w geometryD(2,4) [OF geo] by (auto simp: wp_next_def wp_wf_def)
        next
          case last: True
          then have "wp_step spp w = Some (Inr (w\<lparr>wp_pg := 0, wp_ch := 0, wp_lun := 0\<rparr>))"
            using True ch lun ranges o pgb' by (simp add: wp_step_def check_addr_def)
          moreover have "wp_idx spp w + 1 = pgs_per_line spp"
            unfolding geometryD(17) [OF geo] last [symmetric] m(5) idx by (simp only: ac_simps)
          ultimately show ?thesis by (auto simp: wp_next_def)
        qed
      qed
    qed
  qed
qed

end
