(* ===== verification/Nand_View.thy ===== *)
theory Nand_View
  imports Geometry
begin

text \<open>
  The NAND array as a function of addresses. \<open>ssd_ok\<close> says that the nested arrays have the
  geometry's sizes and the channels' bandwidth models are well formed; on such a device \<open>pst\<close>
  is the status of every page and \<open>bcnt\<close> the valid and invalid counts of every block, a write
  through a page or block pointer is an update at one point, and a NAND command returns and
  changes neither.
\<close>

subsection \<open>Views\<close>

definition ssd_ok :: "ssd \<Rightarrow> bool" where
  "ssd_ok ssd \<longleftrightarrow> geometry (sp ssd) \<and> length (ssd_ch ssd) = nchs (sp ssd) \<and>
     (\<forall>ch \<in> set (ssd_ch ssd). cm_wf (ch_perf_model ch) \<and> length (ch_lun ch) = luns_per_ch (sp ssd) \<and>
       (\<forall>lun \<in> set (ch_lun ch). length (lun_pl lun) = 1 \<and>
         (\<forall>pl \<in> set (lun_pl lun). length (pl_blk pl) = blks_per_pl (sp ssd) \<and>
           (\<forall>blk \<in> set (pl_blk pl). length (blk_pg blk) = pgs_per_blk (sp ssd)))))"

definition blk_at :: "ssd \<Rightarrow> nat \<Rightarrow> nat \<Rightarrow> nat \<Rightarrow> nand_block" where
  "blk_at ssd c l b = pl_blk (lun_pl (ch_lun (ssd_ch ssd ! c) ! l) ! 0) ! b"

definition pst :: "ssd \<Rightarrow> pa \<Rightarrow> pg_status" where
  "pst ssd = (\<lambda>(c, l, b, g). if vpa (sp ssd) (c, l, b, g) then pg_status (blk_pg (blk_at ssd c l b) ! g)
     else PG_FREE)"

definition bcnt :: "ssd \<Rightarrow> nat \<Rightarrow> nat \<Rightarrow> nat \<Rightarrow> int \<times> int" where
  "bcnt ssd c l b = (if c < nchs (sp ssd) \<and> l < luns_per_ch (sp ssd) \<and> b < blks_per_pl (sp ssd)
     then (blk_vpc (blk_at ssd c l b), blk_ipc (blk_at ssd c l b)) else (0, 0))"

text \<open>Two devices that differ only in the times and channel models.\<close>

definition same_view :: "ssd \<Rightarrow> ssd \<Rightarrow> bool" where
  "same_view ssd ssd' \<longleftrightarrow> ssd_ok ssd' \<and> sp ssd' = sp ssd \<and> pst ssd' = pst ssd \<and> bcnt ssd' = bcnt ssd"

lemma same_view_refl: "ssd_ok ssd \<Longrightarrow> same_view ssd ssd"
  by (simp add: same_view_def)

lemma same_view_trans: "same_view a b \<Longrightarrow> same_view b c \<Longrightarrow> same_view a c"
  by (simp add: same_view_def)

lemma same_viewI:
  assumes "ssd_ok ssd'" "sp ssd' = sp ssd"
    and "\<And>c l b. c < nchs (sp ssd) \<Longrightarrow> l < luns_per_ch (sp ssd) \<Longrightarrow> b < blks_per_pl (sp ssd) \<Longrightarrow>
      blk_at ssd' c l b = blk_at ssd c l b"
  shows "same_view ssd ssd'"
proof -
  have "pst ssd' = pst ssd" "bcnt ssd' = bcnt ssd"
    using assms(2,3) by (auto simp: pst_def bcnt_def fun_eq_iff)
  then show ?thesis using assms(1,2) by (simp add: same_view_def)
qed

subsection \<open>The accessors\<close>

text \<open>An address on which every accessor stays inside its array.\<close>

abbreviation on_chip :: "ssd \<Rightarrow> ppa \<Rightarrow> bool" where
  "on_chip ssd p \<equiv> vpa (sp ssd) (pa_of p) \<and> g_pl p = 0"

lemma ssd_ok_geometry: "ssd_ok ssd \<Longrightarrow> geometry (sp ssd)"
  by (simp add: ssd_ok_def)

lemma ssd_ok_ch:
  assumes "ssd_ok ssd" "c < nchs (sp ssd)"
  shows "c < length (ssd_ch ssd)" "cm_wf (ch_perf_model (ssd_ch ssd ! c))"
    "length (ch_lun (ssd_ch ssd ! c)) = luns_per_ch (sp ssd)"
  using assms by (auto simp: ssd_ok_def)

lemma ssd_ok_lun:
  assumes "ssd_ok ssd" "c < nchs (sp ssd)" "l < luns_per_ch (sp ssd)"
  shows "length (lun_pl (ch_lun (ssd_ch ssd ! c) ! l)) = 1"
    "length (pl_blk (lun_pl (ch_lun (ssd_ch ssd ! c) ! l) ! 0)) = blks_per_pl (sp ssd)"
proof -
  have "ssd_ch ssd ! c \<in> set (ssd_ch ssd)" "ch_lun (ssd_ch ssd ! c) ! l \<in> set (ch_lun (ssd_ch ssd ! c))"
    using ssd_ok_ch [OF assms(1,2)] assms(3) by simp_all
  then have *: "length (lun_pl (ch_lun (ssd_ch ssd ! c) ! l)) = 1 \<and>
      (\<forall>pl \<in> set (lun_pl (ch_lun (ssd_ch ssd ! c) ! l)). length (pl_blk pl) = blks_per_pl (sp ssd))"
    using assms(1) unfolding ssd_ok_def by blast
  then show "length (lun_pl (ch_lun (ssd_ch ssd ! c) ! l)) = 1" by blast
  with * show "length (pl_blk (lun_pl (ch_lun (ssd_ch ssd ! c) ! l) ! 0)) = blks_per_pl (sp ssd)"
    by (simp add: nth_mem)
qed

lemma ssd_ok_blk:
  assumes "ssd_ok ssd" "c < nchs (sp ssd)" "l < luns_per_ch (sp ssd)" "b < blks_per_pl (sp ssd)"
  shows "length (blk_pg (blk_at ssd c l b)) = pgs_per_blk (sp ssd)"
proof -
  let ?pl = "lun_pl (ch_lun (ssd_ch ssd ! c) ! l) ! 0"
  have mem: "ssd_ch ssd ! c \<in> set (ssd_ch ssd)" "ch_lun (ssd_ch ssd ! c) ! l \<in> set (ch_lun (ssd_ch ssd ! c))"
    using ssd_ok_ch [OF assms(1,2)] assms(3) by simp_all
  have "?pl \<in> set (lun_pl (ch_lun (ssd_ch ssd ! c) ! l))" "pl_blk ?pl ! b \<in> set (pl_blk ?pl)"
    using ssd_ok_lun [OF assms(1,2,3)] assms(4) by simp_all
  then have "length (blk_pg (pl_blk ?pl ! b)) = pgs_per_blk (sp ssd)"
    using assms(1) mem unfolding ssd_ok_def by blast
  then show ?thesis by (simp add: blk_at_def)
qed

lemma accessors:
  assumes "ssd_ok ssd" "on_chip ssd p" "pa_of p = (c, l, b, g)"
  shows "get_ch ssd p = Some (ssd_ch ssd ! c)"
    "get_lun ssd p = Some (ch_lun (ssd_ch ssd ! c) ! l)"
    "get_pl ssd p = Some (lun_pl (ch_lun (ssd_ch ssd ! c) ! l) ! 0)"
    "get_blk ssd p = Some (blk_at ssd c l b)"
    "get_pg ssd p = Some (blk_pg (blk_at ssd c l b) ! g)"
  using assms ssd_ok_ch [OF assms(1), of c] ssd_ok_lun [OF assms(1), of c l]
    ssd_ok_blk [OF assms(1), of c l b]
  by (auto simp: get_ch_def get_lun_def get_pl_def get_blk_def get_pg_def pa_of_def blk_at_def)

lemma get_pg_status:
  assumes "ssd_ok ssd" "on_chip ssd p"
  shows "\<exists>pg. get_pg ssd p = Some pg \<and> pg_status pg = pst ssd (pa_of p)"
proof -
  obtain c l b g where a: "pa_of p = (c, l, b, g)" by (cases "pa_of p")
  then show ?thesis using accessors(5) [OF assms a] assms by (simp add: pst_def)
qed

lemma get_cell_total:
  assumes "ssd_ok ssd"
  shows "\<exists>k. get_cell ssd p = Some k \<and> k < cell_mode (sp ssd)"
  using geometryD(11,20) [OF ssd_ok_geometry [OF assms]] by (simp add: get_cell_def)

subsection \<open>Writes\<close>

lemma modify_eq:
  "i < length xs \<Longrightarrow> modify xs i f = map_option (\<lambda>y. xs[i := y]) (f (xs ! i))"
  by (cases "f (xs ! i)") (auto simp: modify_def)

text \<open>A block written through its pointer.\<close>

lemma upd_blk_spec:
  assumes ok: "ssd_ok ssd" and on: "on_chip ssd p" and a: "pa_of p = (c, l, b, g)"
    and f: "f (blk_at ssd c l b) = Some blk" "length (blk_pg blk) = pgs_per_blk (sp ssd)"
  shows "\<exists>ssd'. upd_blk ssd p f = Some ssd' \<and> ssd_ok ssd' \<and> sp ssd' = sp ssd \<and>
    (\<forall>c' l' b'. c' < nchs (sp ssd) \<and> l' < luns_per_ch (sp ssd) \<and> b' < blks_per_pl (sp ssd) \<longrightarrow>
       blk_at ssd' c' l' b' = (if c' = c \<and> l' = l \<and> b' = b then blk else blk_at ssd c' l' b'))"
proof -
  define ch lun pl where "ch = ssd_ch ssd ! c" and "lun = ch_lun ch ! l" and "pl = lun_pl lun ! 0"
  have r: "c < nchs (sp ssd)" "l < luns_per_ch (sp ssd)" "b < blks_per_pl (sp ssd)"
    using on a by auto
  note C = ssd_ok_ch [OF ok r(1)] and L = ssd_ok_lun [OF ok r(1,2)]
  define pl' where "pl' = pl\<lparr>pl_blk := (pl_blk pl)[b := blk]\<rparr>"
  define lun' where "lun' = lun\<lparr>lun_pl := (lun_pl lun)[0 := pl']\<rparr>"
  define ch' where "ch' = ch\<lparr>ch_lun := (ch_lun ch)[l := lun']\<rparr>"
  define ssd' where "ssd' = ssd\<lparr>ssd_ch := (ssd_ch ssd)[c := ch']\<rparr>"
  have idx: "unat (g_ch p) = c" "unat (g_lun p) = l" "unat (g_blk p) = b" "g_pl p = 0"
    using a on by (auto simp: pa_of_def)
  have "upd_blk ssd p f = Some ssd'"
    using C L r f(1)
    by (simp add: upd_blk_def upd_pl_def upd_lun_def upd_ch_def idx modify_eq option.map_comp comp_def
        blk_at_def ssd'_def ch'_def lun'_def pl'_def ch_def lun_def pl_def)
  moreover have "ssd_ok ssd'"
  proof -
    have mem: "ch \<in> set (ssd_ch ssd)" "lun \<in> set (ch_lun ch)" "pl \<in> set (lun_pl lun)"
      using C L r by (simp_all add: ch_def lun_def pl_def)
    have "\<forall>blk' \<in> set (pl_blk pl'). length (blk_pg blk') = pgs_per_blk (sp ssd)"
      using ok mem f(2) unfolding ssd_ok_def pl'_def by (auto dest!: set_update_subset_insert [THEN subsetD])
    moreover have "length (pl_blk pl') = blks_per_pl (sp ssd)"
      using L by (simp add: pl'_def pl_def lun_def ch_def)
    ultimately have "\<forall>pl \<in> set (lun_pl lun'). length (pl_blk pl) = blks_per_pl (sp ssd) \<and>
        (\<forall>blk \<in> set (pl_blk pl). length (blk_pg blk) = pgs_per_blk (sp ssd))"
      using ok mem unfolding ssd_ok_def lun'_def by (auto dest!: set_update_subset_insert [THEN subsetD])
    moreover have "length (lun_pl lun') = 1" using L by (simp add: lun'_def lun_def ch_def)
    ultimately have "\<forall>lun \<in> set (ch_lun ch'). length (lun_pl lun) = 1 \<and>
        (\<forall>pl \<in> set (lun_pl lun). length (pl_blk pl) = blks_per_pl (sp ssd) \<and>
        (\<forall>blk \<in> set (pl_blk pl). length (blk_pg blk) = pgs_per_blk (sp ssd)))"
      using ok mem unfolding ssd_ok_def ch'_def by (auto dest!: set_update_subset_insert [THEN subsetD])
    moreover have "cm_wf (ch_perf_model ch')" "length (ch_lun ch') = luns_per_ch (sp ssd)"
      using C by (simp_all add: ch'_def ch_def)
    ultimately show ?thesis
      using ok unfolding ssd_ok_def ssd'_def by (auto dest!: set_update_subset_insert [THEN subsetD])
  qed
  moreover have "blk_at ssd' c' l' b' = (if c' = c \<and> l' = l \<and> b' = b then blk else blk_at ssd c' l' b')"
    if "c' < nchs (sp ssd)" "l' < luns_per_ch (sp ssd)" "b' < blks_per_pl (sp ssd)" for c' l' b'
    using that C L r
    by (cases "c' = c"; cases "l' = l"; cases "b' = b")
      (simp_all add: blk_at_def ssd'_def ch'_def lun'_def pl'_def ch_def lun_def pl_def)
  ultimately show ?thesis by (auto simp: ssd'_def)
qed

lemma upd_pg_spec:
  assumes ok: "ssd_ok ssd" and on: "on_chip ssd p"
  shows "\<exists>ssd'. upd_pg ssd p (\<lambda>g. Some (g\<lparr>pg_status := s\<rparr>)) = Some ssd' \<and> ssd_ok ssd' \<and>
    sp ssd' = sp ssd \<and> pst ssd' = (pst ssd)(pa_of p := s) \<and> bcnt ssd' = bcnt ssd"
proof -
  obtain c l b g where a: "pa_of p = (c, l, b, g)" by (cases "pa_of p")
  let ?B = "blk_at ssd c l b"
  define blk where "blk = ?B\<lparr>blk_pg := (blk_pg ?B)[g := (blk_pg ?B ! g)\<lparr>pg_status := s\<rparr>]\<rparr>"
  have r: "c < nchs (sp ssd)" "l < luns_per_ch (sp ssd)" "b < blks_per_pl (sp ssd)" "g < pgs_per_blk (sp ssd)"
    using on a by auto
  note B = ssd_ok_blk [OF ok r(1,2,3)]
  have idx: "unat (g_pg p) = g" using a by (auto simp: pa_of_def)
  have f: "map_option (\<lambda>ps. ?B\<lparr>blk_pg := ps\<rparr>)
      (modify (blk_pg ?B) (unat (g_pg p)) (\<lambda>g. Some (g\<lparr>pg_status := s\<rparr>))) = Some blk"
    using B r by (simp add: modify_eq idx blk_def)
  have len: "length (blk_pg blk) = pgs_per_blk (sp ssd)" using B by (simp add: blk_def)
  obtain ssd' where ssd': "upd_pg ssd p (\<lambda>g. Some (g\<lparr>pg_status := s\<rparr>)) = Some ssd'" "ssd_ok ssd'"
      "sp ssd' = sp ssd"
      "\<And>c' l' b'. c' < nchs (sp ssd) \<Longrightarrow> l' < luns_per_ch (sp ssd) \<Longrightarrow> b' < blks_per_pl (sp ssd) \<Longrightarrow>
       blk_at ssd' c' l' b' = (if c' = c \<and> l' = l \<and> b' = b then blk else blk_at ssd c' l' b')"
    using upd_blk_spec [where f = "\<lambda>b. map_option (\<lambda>ps. b\<lparr>blk_pg := ps\<rparr>)
        (modify (blk_pg b) (unat (g_pg p)) (\<lambda>g. Some (g\<lparr>pg_status := s\<rparr>)))", OF ok on a f len]
    unfolding upd_pg_def by blast
  have "pst ssd' = (pst ssd)(pa_of p := s)"
    using ssd'(3,4) r B by (auto simp: fun_eq_iff pst_def a blk_def nth_list_update)
  moreover have "bcnt ssd' = bcnt ssd"
    using ssd'(3,4) by (auto simp: fun_eq_iff bcnt_def blk_def)
  ultimately show ?thesis using ssd'(1-3) by blast
qed

text \<open>The counts of a block.\<close>

lemma upd_cnt_spec:
  assumes ok: "ssd_ok ssd" and on: "on_chip ssd p" and a: "pa_of p = (c, l, b, g)"
    and f: "\<And>blk. \<exists>blk'. f blk = Some blk' \<and> blk_pg blk' = blk_pg blk \<and>
      (blk_vpc blk', blk_ipc blk') = h (blk_vpc blk, blk_ipc blk)"
  shows "\<exists>ssd'. upd_blk ssd p f = Some ssd' \<and> ssd_ok ssd' \<and> sp ssd' = sp ssd \<and> pst ssd' = pst ssd \<and>
    bcnt ssd' = (\<lambda>c' l' b'. if c' = c \<and> l' = l \<and> b' = b then h (bcnt ssd c l b) else bcnt ssd c' l' b')"
proof -
  have r: "c < nchs (sp ssd)" "l < luns_per_ch (sp ssd)" "b < blks_per_pl (sp ssd)" using on a by auto
  obtain blk where blk: "f (blk_at ssd c l b) = Some blk" "blk_pg blk = blk_pg (blk_at ssd c l b)"
      "(blk_vpc blk, blk_ipc blk) = h (blk_vpc (blk_at ssd c l b), blk_ipc (blk_at ssd c l b))"
    using f by blast
  have len: "length (blk_pg blk) = pgs_per_blk (sp ssd)" using ssd_ok_blk [OF ok r] blk(2) by simp
  obtain ssd' where ssd': "upd_blk ssd p f = Some ssd'" "ssd_ok ssd'" "sp ssd' = sp ssd"
      "\<And>c' l' b'. c' < nchs (sp ssd) \<Longrightarrow> l' < luns_per_ch (sp ssd) \<Longrightarrow> b' < blks_per_pl (sp ssd) \<Longrightarrow>
       blk_at ssd' c' l' b' = (if c' = c \<and> l' = l \<and> b' = b then blk else blk_at ssd c' l' b')"
    using upd_blk_spec [where f = f, OF ok on a blk(1) len] by blast
  have "pst ssd' = pst ssd" using ssd'(3,4) blk(2) by (auto simp: fun_eq_iff pst_def)
  moreover have "bcnt ssd' c' l' b' = (if c' = c \<and> l' = l \<and> b' = b then h (bcnt ssd c l b) else bcnt ssd c' l' b')"
    for c' l' b' using ssd'(3,4) blk(3) r by (auto simp: bcnt_def)
  ultimately show ?thesis using ssd'(1-3) by blast
qed

text \<open>The channel's bandwidth model and the LUN's times are outside the view.\<close>

lemma upd_ch_model_spec:
  assumes ok: "ssd_ok ssd" and on: "on_chip ssd p" and m: "cm_wf m"
  shows "\<exists>ssd'. upd_ch ssd p (\<lambda>c. Some (c\<lparr>ch_perf_model := m\<rparr>)) = Some ssd' \<and> same_view ssd ssd'"
proof -
  obtain c l b g where a: "pa_of p = (c, l, b, g)" by (cases "pa_of p")
  have r: "c < nchs (sp ssd)" using on a by auto
  note C = ssd_ok_ch [OF ok r]
  define ssd' where "ssd' = ssd\<lparr>ssd_ch := (ssd_ch ssd)[c := (ssd_ch ssd ! c)\<lparr>ch_perf_model := m\<rparr>]\<rparr>"
  have idx: "unat (g_ch p) = c" using a by (auto simp: pa_of_def)
  have "ssd_ch ssd ! c \<in> set (ssd_ch ssd)" using C by simp
  then have "ssd_ok ssd'"
    using ok m unfolding ssd_ok_def ssd'_def by (auto dest!: set_update_subset_insert [THEN subsetD])
  moreover have "blk_at ssd' c' l' b' = blk_at ssd c' l' b'" for c' l' b'
    using C by (cases "c' = c") (simp_all add: blk_at_def ssd'_def)
  moreover have "upd_ch ssd p (\<lambda>c. Some (c\<lparr>ch_perf_model := m\<rparr>)) = Some ssd'"
    using C by (simp add: upd_ch_def modify_eq idx ssd'_def)
  moreover have "sp ssd' = sp ssd" by (simp add: ssd'_def)
  ultimately show ?thesis by (auto intro: same_viewI)
qed

lemma upd_lun_time_spec:
  assumes ok: "ssd_ok ssd" and on: "on_chip ssd p" and f: "\<And>l. lun_pl (f l) = lun_pl l"
  shows "\<exists>ssd'. upd_lun ssd p (\<lambda>l. Some (f l)) = Some ssd' \<and> same_view ssd ssd'"
proof -
  obtain c l b g where a: "pa_of p = (c, l, b, g)" by (cases "pa_of p")
  have r: "c < nchs (sp ssd)" "l < luns_per_ch (sp ssd)" using on a by auto
  note C = ssd_ok_ch [OF ok r(1)]
  define ch ch' where "ch = ssd_ch ssd ! c" and "ch' = ch\<lparr>ch_lun := (ch_lun ch)[l := f (ch_lun ch ! l)]\<rparr>"
  define ssd' where "ssd' = ssd\<lparr>ssd_ch := (ssd_ch ssd)[c := ch']\<rparr>"
  have idx: "unat (g_ch p) = c" "unat (g_lun p) = l" using a by (auto simp: pa_of_def)
  have mem: "ch \<in> set (ssd_ch ssd)" "ch_lun ch ! l \<in> set (ch_lun ch)" using C r by (simp_all add: ch_def)
  have "\<forall>lun \<in> set (ch_lun ch'). length (lun_pl lun) = 1 \<and>
      (\<forall>pl \<in> set (lun_pl lun). length (pl_blk pl) = blks_per_pl (sp ssd) \<and>
      (\<forall>blk \<in> set (pl_blk pl). length (blk_pg blk) = pgs_per_blk (sp ssd)))"
    using ok mem f unfolding ssd_ok_def ch'_def by (auto dest!: set_update_subset_insert [THEN subsetD])
  moreover have "cm_wf (ch_perf_model ch')" "length (ch_lun ch') = luns_per_ch (sp ssd)"
    using C by (simp_all add: ch'_def ch_def)
  ultimately have "ssd_ok ssd'"
    using ok unfolding ssd_ok_def ssd'_def by (auto dest!: set_update_subset_insert [THEN subsetD])
  moreover have "blk_at ssd' c' l' b' = blk_at ssd c' l' b'" for c' l' b'
    using C r f by (cases "c' = c"; cases "l' = l") (simp_all add: blk_at_def ssd'_def ch'_def ch_def)
  moreover have "upd_lun ssd p (\<lambda>l. Some (f l)) = Some ssd'"
    using C r by (simp add: upd_lun_def upd_ch_def modify_eq idx ssd'_def ch'_def ch_def option.map_comp comp_def)
  moreover have "sp ssd' = sp ssd" by (simp add: ssd'_def)
  ultimately show ?thesis by (auto intro: same_viewI)
qed

end
