(* ===== verification/Nand_Timing.thy ===== *)
theory Nand_Timing
  imports Nand_View
begin

text \<open>
  NAND commands return: on a device whose arrays have the geometry's sizes and whose bandwidth
  models are well formed, \<open>ssd_advance_nand\<close> neither faults nor loops, keeps the view of the
  array and touches nothing of the shared device but the PCIe model and the readings.
\<close>

definition dev_timed :: "dev \<Rightarrow> dev \<Rightarrow> bool" where
  "dev_timed dv dv' \<longleftrightarrow> cm_wf (pcie dv') \<and> dv' = dv\<lparr>pcie := pcie dv', ticks := ticks dv', draws := draws dv'\<rparr>"

lemma dev_timed_refl: "cm_wf (pcie dv) \<Longrightarrow> dev_timed dv dv"
  by (simp add: dev_timed_def)

lemma dev_timed_trans: "dev_timed a b \<Longrightarrow> dev_timed b c \<Longrightarrow> dev_timed a c"
  by (cases a; cases b; cases c) (simp add: dev_timed_def)

lemma dev_timed_wf: "dev_timed dv dv' \<Longrightarrow> cm_wf (pcie dv')"
  by (simp add: dev_timed_def)

lemma dev_timed_fields:
  "dev_timed dv dv' \<Longrightarrow> write_buffer dv' = write_buffer dv \<and> internal_ops dv' = internal_ops dv"
  by (cases dv; cases dv') (simp add: dev_timed_def)

lemma read_clock_timed:
  "cm_wf (pcie dv) \<Longrightarrow> read_clock dv = (t, dv') \<Longrightarrow> dev_timed dv dv'"
  by (cases dv) (auto simp: read_clock_def dev_timed_def)

lemma chan_request_total:
  assumes "cm_wf m" "cm_wf (pcie dv)"
  shows "\<exists>m' dv' t. chan_request m dv req n = Some (m', dv', t) \<and> cm_wf m' \<and> dev_timed dv dv'"
proof -
  obtain now dv1 where r: "read_clock dv = (now, dv1)" by (cases "read_clock dv")
  obtain m' t where "chmodel_request m now req n = Some (m', t)" "cm_wf m'"
    using chmodel_request_spec [OF assms(1)] by blast
  then show ?thesis
    using r read_clock_timed [OF assms(2) r] by (simp add: chan_request_def)
qed

lemma ssd_advance_pcie_total:
  assumes "cm_wf (pcie dv)"
  shows "\<exists>dv' t. ssd_advance_pcie dv req n = Some (dv', t) \<and> dev_timed dv dv'"
proof -
  obtain now dv1 where r: "read_clock dv = (now, dv1)" by (cases "read_clock dv")
  have d: "dev_timed dv dv1" by (rule read_clock_timed [OF assms r])
  then have "cm_wf (pcie dv1)" by (rule dev_timed_wf)
  then obtain m' t where m: "chmodel_request (pcie dv1) now req n = Some (m', t)" "cm_wf m'"
    using chmodel_request_spec by blast
  have "dev_timed dv1 (dv1\<lparr>pcie := m'\<rparr>)" using m(2) by (cases dv1) (simp add: dev_timed_def)
  then show ?thesis
    using r m(1) dev_timed_trans [OF d] by (simp add: ssd_advance_pcie_def)
qed

text \<open>The chunks of a read: each takes a positive number of the remaining bytes.\<close>

lemma read_chunks_total:
  assumes "0 < max_xfer" "max_xfer < 2 ^ 64" "cm_wf m" "cm_wf (pcie dv)" "n \<noteq> 0"
  shows "\<exists>m' dv' t t'. read_chunks max_xfer il m dv st n = Some (m', dv', t, t') \<and>
    cm_wf m' \<and> dev_timed dv dv'"
  using assms(3-5)
proof (induction "unat n" arbitrary: m dv st n rule: less_induct)
  case less
  define x where "x = min n (of_nat max_xfer)"
  have "unat (of_nat max_xfer :: u64) = max_xfer" using assms(2) by (intro unat_of_nat_small) simp
  then have "(of_nat max_xfer :: u64) \<noteq> 0" using assms(1) by (metis unat_0 less_nat_zero_code)
  then have x: "x \<noteq> 0" "x \<le> n" using less.prems(3) by (auto simp: x_def min_def)
  obtain m1 dv1 t1 where 1: "chan_request m dv st x = Some (m1, dv1, t1)" "cm_wf m1" "dev_timed dv dv1"
    using chan_request_total [OF less.prems(1,2)] by blast
  obtain dv2 t2 where 2: "(if il then ssd_advance_pcie dv1 t1 x else Some (dv1, t1)) = Some (dv2, t2)"
      "dev_timed dv1 dv2"
    using ssd_advance_pcie_total [OF dev_timed_wf [OF 1(3)], of t1 x]
      dev_timed_refl [OF dev_timed_wf [OF 1(3)]]
    by (cases il) auto
  have d: "dev_timed dv dv2" by (rule dev_timed_trans [OF 1(3) 2(2)])
  have eq: "read_chunks max_xfer il m dv st n =
      (if n - x \<noteq> 0 then read_chunks max_xfer il m1 dv2 t1 (n - x) else Some (m1, dv2, t1, t2))"
    using 1(1) 2(1) by (simp add: read_chunks.simps [of max_xfer il m dv] x_def [symmetric] Let_def)
  show ?case
  proof (cases "n - x = 0")
    case True
    then show ?thesis using eq 1(2) d by auto
  next
    case False
    have "unat (n - x) < unat n"
      using x by (simp add: unat_sub_le) (metis unat_gt_0 word_le_nat_alt diff_less order_less_le_trans)
    then obtain m' dv' t t' where "read_chunks max_xfer il m1 dv2 t1 (n - x) = Some (m', dv', t, t')"
        "cm_wf m'" "dev_timed dv2 dv'"
      using less.hyps [OF _ 1(2) dev_timed_wf [OF 2(2)] False] by blast
    then show ?thesis using eq False dev_timed_trans [OF d] by auto
  qed
qed

lemma lun_time_update:
  assumes "same_view ssd ssd1" "on_chip ssd p"
  shows "\<exists>ssd'. upd_lun ssd1 p (\<lambda>l. Some (l\<lparr>next_lun_avail_time := t\<rparr>)) = Some ssd' \<and> same_view ssd ssd'"
proof -
  have "ssd_ok ssd1" "on_chip ssd1 p" using assms by (simp_all add: same_view_def)
  then show ?thesis
    using upd_lun_time_spec [of ssd1 p "\<lambda>l. l\<lparr>next_lun_avail_time := t\<rparr>"] same_view_trans [OF assms(1)]
    by auto
qed

lemma chan_time_update:
  assumes "ssd_ok ssd" "on_chip ssd p" "cm_wf m"
  shows "\<exists>ssd' ssd''. upd_ch ssd p (\<lambda>c. Some (c\<lparr>ch_perf_model := m\<rparr>)) = Some ssd' \<and>
    upd_lun ssd' p (\<lambda>l. Some (l\<lparr>next_lun_avail_time := t\<rparr>)) = Some ssd'' \<and> same_view ssd ssd''"
  using upd_ch_model_spec [OF assms] lun_time_update [OF _ assms(2), of _ t] by blast

theorem ssd_advance_nand_spec:
  assumes ok: "ssd_ok ssd" and on: "on_chip ssd p" and dv: "cm_wf (pcie dv)"
    and p: "nc_ppa cmd = p" and x: "nc_cmd cmd = NAND_READ \<Longrightarrow> nc_xfer_size cmd \<noteq> 0"
  shows "\<exists>ssd' dv' t. ssd_advance_nand ssd dv cmd = Some (ssd', dv', t) \<and> same_view ssd ssd' \<and> dev_timed dv dv'"
proof -
  obtain st dv1 where st: "(if nc_stime cmd = 0 then read_clock dv else (nc_stime cmd, dv)) = (st, dv1)"
    by (cases "if nc_stime cmd = 0 then read_clock dv else (nc_stime cmd, dv)")
  then have d1: "dev_timed dv dv1"
    using read_clock_timed [OF dv] dev_timed_refl [OF dv] by (auto split: if_splits)
  note dv1 = dev_timed_wf [OF d1]
  obtain c l b g where a: "pa_of p = (c, l, b, g)" by (cases "pa_of p")
  note acc = accessors [OF ok on a]
  obtain k where k: "get_cell ssd p = Some k" "k < cell_mode (sp ssd)" using get_cell_total [OF ok] by blast
  have r: "c < nchs (sp ssd)" using on a by auto
  note C = ssd_ok_ch [OF ok r]
  note G = geometryD [OF ssd_ok_geometry [OF ok]]
  define start where "start = max (next_lun_avail_time (ch_lun (ssd_ch ssd ! c) ! l)) st"
  have lat: "\<exists>lat. rd (if nc_xfer_size cmd = 4096 then pg_4kb_rd_lat (sp ssd) else pg_rd_lat (sp ssd)) k = Some lat"
    using k(2) G(21,22) by auto
  note base = acc k(1) p st start_def [symmetric]
  consider (unmapped) "ppa_word p = UNMAPPED_PPA" | (read) "nc_cmd cmd = NAND_READ" "ppa_word p \<noteq> UNMAPPED_PPA"
    | (prog) "nc_cmd cmd = NAND_WRITE" "ppa_word p \<noteq> UNMAPPED_PPA"
    | (erase) "nc_cmd cmd = NAND_ERASE" "ppa_word p \<noteq> UNMAPPED_PPA"
    | (nop) "nc_cmd cmd = NAND_NOP" "ppa_word p \<noteq> UNMAPPED_PPA"
    | (other) "nc_cmd cmd \<notin> {NAND_READ, NAND_WRITE, NAND_ERASE, NAND_NOP}" "ppa_word p \<noteq> UNMAPPED_PPA"
    by (simp only: insert_iff empty_iff) meson
  then show ?thesis
  proof cases
    case unmapped
    then show ?thesis
      using d1 same_view_refl [OF ok] by (auto simp: ssd_advance_nand_def Let_def base)
  next
    case read
    obtain lat where lat': "rd (if nc_xfer_size cmd = 4096 then pg_4kb_rd_lat (sp ssd) else pg_rd_lat (sp ssd)) k
        = Some lat" using lat by blast
    obtain m' dv2 t t' where rc: "read_chunks (max_ch_xfer_size (sp ssd)) (nc_interleave_pci_dma cmd)
        (ch_perf_model (ssd_ch ssd ! c)) dv1 (start + of_nat lat) (nc_xfer_size cmd) = Some (m', dv2, t, t')"
        "cm_wf m'" "dev_timed dv1 dv2"
      using read_chunks_total [OF G(23,24) C(2) dv1 x [OF read(1)]] by blast
    obtain s1 s2 where "upd_ch ssd p (\<lambda>c. Some (c\<lparr>ch_perf_model := m'\<rparr>)) = Some s1"
        "upd_lun s1 p (\<lambda>l. Some (l\<lparr>next_lun_avail_time := t\<rparr>)) = Some s2" "same_view ssd s2"
      using chan_time_update [OF ok on rc(2)] by blast
    then show ?thesis
      using read x rc(1) dev_timed_trans [OF d1 rc(3)]
      by (simp add: ssd_advance_nand_def Let_def base lat' split del: if_split)
  next
    case prog
    obtain m' dv2 t where rc: "chan_request (ch_perf_model (ssd_ch ssd ! c)) dv1 start (nc_xfer_size cmd)
        = Some (m', dv2, t)" "cm_wf m'" "dev_timed dv1 dv2"
      using chan_request_total [OF C(2) dv1] by blast
    obtain s1 s2 where "upd_ch ssd p (\<lambda>c. Some (c\<lparr>ch_perf_model := m'\<rparr>)) = Some s1"
        "upd_lun s1 p (\<lambda>l. Some (l\<lparr>next_lun_avail_time := t + of_nat (pg_wr_lat (sp ssd))\<rparr>)) = Some s2"
        "same_view ssd s2"
      using chan_time_update [OF ok on rc(2)] by blast
    then show ?thesis
      using prog rc(1) dev_timed_trans [OF d1 rc(3)]
      by (simp add: ssd_advance_nand_def Let_def base split del: if_split)
  next
    case erase
    then show ?thesis
      using d1 lun_time_update [OF same_view_refl [OF ok] on, of "start + of_nat (blk_er_lat (sp ssd))"]
      by (auto simp: ssd_advance_nand_def Let_def base split del: if_split)
  next
    case nop
    then show ?thesis
      using d1 lun_time_update [OF same_view_refl [OF ok] on, of start]
      by (auto simp: ssd_advance_nand_def Let_def base split del: if_split)
  next
    case other
    then show ?thesis
      using d1 same_view_refl [OF ok]
      by (simp add: ssd_advance_nand_def Let_def base split del: if_split)
  qed
qed

end
