(* ===== verification/Line_Inv.thy ===== *)
theory Line_Inv
  imports Victim_Queue Nand_Timing "HOL-Library.Multiset"
begin

text \<open>
  The invariant of the line manager: what \<open>struct line_mgmt\<close> records of every line agrees with
  the states of its pages. Every line is in exactly one place: the free list, the full list, the
  victim queue, under one of the write pointers (\<open>ws\<close>: line and number of pages written), or the
  victim of a running collection (\<open>V\<close>). Each operation on the line manager moves lines between
  these places and keeps the invariant.
\<close>

subsection \<open>Counting pages\<close>

definition npg :: "(pa \<Rightarrow> pg_status) \<Rightarrow> pg_status \<Rightarrow> pa set \<Rightarrow> nat" where
  "npg st s A = card {a \<in> A. st a = s}"

lemma npg_upd_out [simp]: "a \<notin> A \<Longrightarrow> npg (st(a := x)) s A = npg st s A"
  unfolding npg_def by (rule arg_cong [where f = card]) auto

lemma npg_upd_gain:
  assumes "finite A" "a \<in> A" "st a \<noteq> s"
  shows "npg (st(a := s)) s A = npg st s A + 1"
proof -
  have "{x \<in> A. (st(a := s)) x = s} = insert a {x \<in> A. st x = s}" using assms(2) by auto
  then show ?thesis using assms by (simp add: npg_def)
qed

lemma npg_upd_lose:
  assumes "finite A" "a \<in> A" "st a = s" "x \<noteq> s"
  shows "npg st s A = npg (st(a := x)) s A + 1"
proof -
  have "{y \<in> A. st y = s} = insert a {y \<in> A. (st(a := x)) y = s}" using assms by auto
  then show ?thesis using assms by (simp add: npg_def)
qed

lemma npg_upd_other:
  assumes "st a \<noteq> s" "x \<noteq> s"
  shows "npg (st(a := x)) s A = npg st s A"
  unfolding npg_def using assms by (intro arg_cong [where f = card]) auto

lemma npg_le: "finite A \<Longrightarrow> npg st s A \<le> card A"
  unfolding npg_def by (rule card_mono) auto

lemma npg_full: "finite A \<Longrightarrow> npg st s A = card A \<longleftrightarrow> (\<forall>a \<in> A. st a = s)"
  unfolding npg_def using card_subset_eq [of A "{a \<in> A. st a = s}"] by (auto intro: arg_cong [where f = card])

lemma npg_cong: "(\<And>a. a \<in> A \<Longrightarrow> st' a = st a) \<Longrightarrow> npg st' s A = npg st s A"
  unfolding npg_def by (rule arg_cong [where f = card]) auto

lemma npg_none: "(\<And>a. a \<in> A \<Longrightarrow> st a \<noteq> s) \<Longrightarrow> npg st s A = 0"
  unfolding npg_def by (simp add: card_eq_0_iff)

lemma npg_pos: "finite A \<Longrightarrow> 0 < npg st s A \<longleftrightarrow> (\<exists>a \<in> A. st a = s)"
  unfolding npg_def by (auto simp: card_gt_0_iff)

lemma npg_split:
  assumes "finite A" "\<forall>a \<in> A. st a \<noteq> PG_FREE"
  shows "npg st PG_VALID A + npg st PG_INVALID A = card A"
proof -
  have "A = {a \<in> A. st a = PG_VALID} \<union> {a \<in> A. st a = PG_INVALID}"
    using assms(2) by (auto intro: pg_status.exhaust)
  then have "card A = card ({a \<in> A. st a = PG_VALID} \<union> {a \<in> A. st a = PG_INVALID})" by simp
  also have "\<dots> = npg st PG_VALID A + npg st PG_INVALID A"
    unfolding npg_def using assms(1) by (intro card_Un_disjoint) auto
  finally show ?thesis by simp
qed

subsection \<open>The invariant\<close>

text \<open>The records of the lines; \<open>V\<close> is exempt from the counts.\<close>

definition cnt_ok :: "ssdparams \<Rightarrow> (pa \<Rightarrow> pg_status) \<Rightarrow> line list \<Rightarrow> nat list \<Rightarrow> bool" where
  "cnt_ok spp st ls V \<longleftrightarrow> length ls = tt_lines spp \<and>
     (\<forall>b < tt_lines spp. line_id (ls ! b) = b \<and>
        (b \<notin> set V \<longrightarrow> line_vpc (ls ! b) = int (npg st PG_VALID (lpages spp b)) \<and>
           line_ipc (ls ! b) = int (npg st PG_INVALID (lpages spp b))))"

text \<open>The victim queue: well formed, with room, and a position is stored exactly for its lines.\<close>

definition que_ok :: "nat \<Rightarrow> (nat, line list) pqueue_t \<Rightarrow> line list \<Rightarrow> bool" where
  "que_ok n q ls \<longleftrightarrow> pq_wf line_ok q ls \<and> pq_cb q = victim_cb \<and> pq_avail q = n + 1 \<and>
     (\<forall>b < length ls. line_pos (ls ! b) \<noteq> 0 \<longleftrightarrow> b \<in> pq_items q)"

definition places :: "line_mgmt \<Rightarrow> (nat \<times> nat) list \<Rightarrow> nat list \<Rightarrow> nat list" where
  "places m ws V = free_line_list m @ full_line_list m @ map fst ws @ V"

definition part_ok :: "nat \<Rightarrow> line_mgmt \<Rightarrow> (nat \<times> nat) list \<Rightarrow> nat list \<Rightarrow> bool" where
  "part_ok n m ws V \<longleftrightarrow> distinct (places m ws V) \<and>
     set (places m ws V) \<inter> pq_items (victim_line_pq m) = {} \<and>
     set (places m ws V) \<union> pq_items (victim_line_pq m) = {..<n} \<and>
     free_line_cnt m = of_nat (length (free_line_list m)) \<and>
     full_line_cnt m = of_nat (length (full_line_list m)) \<and>
     victim_line_cnt m = of_nat (card (pq_items (victim_line_pq m))) \<and> lm_tt_lines m = n"

text \<open>What the pages of a line look like in each place.\<close>

definition cls_ok ::
  "ssdparams \<Rightarrow> (pa \<Rightarrow> pg_status) \<Rightarrow> nat set \<Rightarrow> nat set \<Rightarrow> nat set \<Rightarrow> (nat \<times> nat) set \<Rightarrow> bool" where
  "cls_ok spp st F U Q W \<longleftrightarrow>
     (\<forall>b \<in> F. \<forall>a \<in> lpages spp b. st a = PG_FREE) \<and>
     (\<forall>b \<in> U. \<forall>a \<in> lpages spp b. st a = PG_VALID) \<and>
     (\<forall>b \<in> Q. (\<forall>a \<in> lpages spp b. st a \<noteq> PG_FREE) \<and> (\<exists>a \<in> lpages spp b. st a = PG_INVALID)) \<and>
     (\<forall>(b, n) \<in> W. n \<le> pgs_per_line spp \<and> (\<forall>a \<in> lpages spp b. st a = PG_FREE \<longleftrightarrow> n \<le> pidx_of spp a))"

definition lines_ok ::
  "ssdparams \<Rightarrow> (pa \<Rightarrow> pg_status) \<Rightarrow> line_mgmt \<Rightarrow> (nat \<times> nat) list \<Rightarrow> nat list \<Rightarrow> bool" where
  "lines_ok spp st m ws V \<longleftrightarrow> cnt_ok spp st (lines m) V \<and>
     que_ok (tt_lines spp) (victim_line_pq m) (lines m) \<and>
     part_ok (tt_lines spp) m ws V \<and>
     cls_ok spp st (set (free_line_list m)) (set (full_line_list m)) (pq_items (victim_line_pq m)) (set ws)"

lemma lines_ok_perm:
  assumes "lines_ok spp st m ws V" "mset ws' = mset ws"
  shows "lines_ok spp st m ws' V"
proof -
  have "set ws' = set ws" using assms(2) by (rule mset_eq_setD)
  moreover have "mset (places m ws' V) = mset (places m ws V)"
    using assms(2) by (simp add: places_def mset_map)
  then have "distinct (places m ws' V) = distinct (places m ws V)" "set (places m ws' V) = set (places m ws V)"
    by (metis mset_eq_imp_distinct_iff, metis mset_eq_setD)
  ultimately show ?thesis using assms(1) by (simp add: lines_ok_def part_ok_def)
qed

lemma lines_ok_bounds:
  assumes "lines_ok spp st m ws V"
  shows "length (lines m) = tt_lines spp" "lm_tt_lines m = tt_lines spp"
    "b \<in> set (places m ws V) \<Longrightarrow> b < tt_lines spp"
    "b \<in> pq_items (victim_line_pq m) \<Longrightarrow> b < tt_lines spp"
  using assms by (auto simp: lines_ok_def cnt_ok_def part_ok_def)

lemma no_pos_cnt:
  assumes "map no_pos ls' = map no_pos ls"
  shows "cnt_ok spp st ls' V = cnt_ok spp st ls V"
  using no_pos_length [OF assms] no_pos_eq [OF assms] by (auto simp: cnt_ok_def)

text \<open>Updates of the counters and of the time leave the queue alone.\<close>

definition quiet :: "(line \<Rightarrow> line) \<Rightarrow> bool" where
  "quiet f \<longleftrightarrow> (\<forall>l. line_pos (f l) = line_pos l \<and> line_id (f l) = line_id l)"

lemma que_ok_quiet:
  assumes q: "que_ok n q ls" and f: "quiet f"
    and vpc: "line_vpc (f (ls ! i)) = line_vpc (ls ! i) \<or> i \<notin> pq_items q" and i: "i < length ls"
  shows "que_ok n q (ls[i := f (ls ! i)])"
proof -
  let ?ls = "ls[i := f (ls ! i)]"
  have wf: "pq_wf line_ok q ls" and cb: "pq_cb q = victim_cb" using q by (simp_all add: que_ok_def)
  have pos: "line_pos (?ls ! b) = line_pos (ls ! b)" for b
    using f i by (cases "b = i") (simp_all add: quiet_def)
  have pri: "victim_line_get_pri ?ls b = victim_line_get_pri ls b" if "b \<in> pq_items q" for b
    using vpc that i by (cases "b = i") (auto simp: victim_line_get_pri_def)
  have items: "pq_d q j \<in> pq_items q" if "1 \<le> j" "j < pq_size q" for j
    using that by (auto simp: pq_items_def)
  have "heap_ordered victim_line_cmp_pri (victim_line_get_pri ?ls) (pq_d q) (pq_size q)"
    unfolding heap_ordered_def
  proof (intro allI impI)
    fix j assume j: "2 \<le> j \<and> j < pq_size q"
    then have "1 \<le> parent j" "parent j < pq_size q" by (auto simp: parent_def)
    then show "\<not> victim_line_cmp_pri (victim_line_get_pri ?ls (pq_d q (parent j))) (victim_line_get_pri ?ls (pq_d q j))"
      using wf cb j pri [OF items, of j] pri [OF items, of "parent j"]
      by (auto simp: pq_wf_def heap_ordered_def)
  qed
  then show ?thesis
    using q cb pos by (auto simp: que_ok_def pq_wf_def victim_line_get_pos_def)
qed

subsection \<open>The queue's operations on lines\<close>

lemma que_wf:
  assumes "que_ok n q ls"
  shows "pq_wf line_ok q ls" "pq_cb q = victim_cb" "pq_avail q = n + 1"
  using assms by (simp_all add: que_ok_def)

lemma que_items:
  assumes "que_ok n q ls"
  shows "b \<in> pq_items q \<Longrightarrow> b < length ls" "card (pq_items q) = pq_size q - 1"
    "b \<in> pq_items q \<Longrightarrow> 1 < pq_size q"
proof -
  note wf = que_wf(1,2) [OF assms]
  show "b \<in> pq_items q \<Longrightarrow> b < length ls" using vq.wf_lookup [OF wf] by blast
  have "inj_on (pq_d q) {1..<pq_size q}"
    using vq.wf_inj [OF wf] by (auto intro!: inj_onI)
  then show "card (pq_items q) = pq_size q - 1" by (simp add: pq_items_def card_image)
  show "b \<in> pq_items q \<Longrightarrow> 1 < pq_size q" by (auto simp: pq_items_def)
qed

lemma que_step:
  assumes q: "que_ok n q ls" and st: "pq_step_to line_ok q ls' A q' ls''"
    and len: "length ls'' = length ls"
    and pos: "\<And>b. b < length ls \<Longrightarrow> line_pos (ls' ! b) = line_pos (ls ! b)"
    and A: "pq_items q \<subseteq> A"
  shows "que_ok n q' ls''" "pq_items q' = A"
proof -
  show A': "pq_items q' = A" using st by (simp add: pq_step_to_def)
  have wf: "pq_wf line_ok q' ls''" and cb: "pq_cb q' = victim_cb"
    using q st by (simp_all add: pq_step_to_def que_ok_def)
  have "line_pos (ls'' ! b) \<noteq> 0 \<longleftrightarrow> b \<in> pq_items q'" if b: "b < length ls''" for b
  proof (cases "b \<in> A")
    case True
    then show ?thesis using vq.wf_lookup [OF wf cb, of b] A' by (simp add: victim_line_get_pos_def)
  next
    case False
    then have "line_pos (ls'' ! b) = line_pos (ls' ! b)"
      using st q by (simp add: pq_step_to_def que_ok_def victim_line_get_pos_def)
    then show ?thesis using False A A' pos b len q by (auto simp: que_ok_def)
  qed
  then show "que_ok n q' ls''" using wf cb q st by (simp add: que_ok_def pq_step_to_def)
qed

lemma que_insert:
  assumes q: "que_ok n q ls" and n: "length ls = n" and i: "i < n" "i \<notin> pq_items q"
  shows "\<exists>q' ls'. pqueue_insert q ls i = Some (q', ls') \<and> que_ok n q' ls' \<and>
    pq_items q' = insert i (pq_items q) \<and> map no_pos ls' = map no_pos ls"
proof -
  note wf = que_wf [OF q]
  have "pq_items q \<subseteq> {..<n} - {i}" using que_items(1) [OF q] i(2) n by auto
  then have "card (pq_items q) \<le> card ({..<n} - {i})" by (intro card_mono) auto
  then have "card (pq_items q) < n" using i(1) by simp
  then have "pq_size q < pq_avail q" using que_items(2) [OF q] wf(3) by simp
  then obtain q' ls' where ins: "pqueue_insert q ls i = Some (q', ls')"
      "pq_step_to line_ok q ls (insert i (pq_items q)) q' ls'"
    using vq.insert_spec [OF wf(1,2) _ i(2)] i(1) n by auto
  have np: "map no_pos ls' = map no_pos ls"
    using queue_ops_blind(1) [of q "map no_pos", OF _ ins(1)] wf(2) no_pos_blind by simp
  show ?thesis
    using ins np que_step [OF q ins(2) no_pos_length [OF np]] by auto
qed

lemma que_change:
  assumes q: "que_ok n q ls" and i: "i \<in> pq_items q" and p: "count_ok p"
    and res: "pqueue_change_priority q ls p i = (q', ls')"
  shows "que_ok n q' ls' \<and> pq_items q' = pq_items q \<and>
    map no_pos ls' = map no_pos (ls[i := (ls ! i)\<lparr>line_vpc := int (unat p)\<rparr>])"
proof -
  note wf = que_wf [OF q]
  have set: "victim_line_set_pri i p ls = ls[i := (ls ! i)\<lparr>line_vpc := int (unat p)\<rparr>]"
    by (simp add: victim_line_set_pri_def sint_count [OF p])
  have st: "pq_step_to line_ok q (setpri victim_cb i p ls) (pq_items q) q' ls'"
    using vq.change_priority_spec [OF wf(1,2) i p res] by blast
  have np: "map no_pos ls' = map no_pos (ls[i := (ls ! i)\<lparr>line_vpc := int (unat p)\<rparr>])"
    using queue_ops_blind(4) [of q "map no_pos", OF _ res] wf(2) no_pos_blind set by simp
  have "line_pos (setpri victim_cb i p ls ! b) = line_pos (ls ! b)" if "b < length ls" for b
    using que_items(1) [OF q i] by (cases "b = i") (simp_all add: set)
  then show ?thesis
    using np que_step [OF q st] no_pos_length [OF np] by auto
qed

text \<open>Taking a line off the queue and clearing its position.\<close>

lemma que_take:
  assumes q: "que_ok n q ls" and st: "pq_step_to line_ok q ls (pq_items q - {i}) q' ls'"
    and np: "map no_pos ls' = map no_pos ls" and i: "i \<in> pq_items q"
  shows "que_ok n q' (ls'[i := (ls' ! i)\<lparr>line_pos := 0\<rparr>])" "pq_items q' = pq_items q - {i}"
    "map no_pos (ls'[i := (ls' ! i)\<lparr>line_pos := 0\<rparr>]) = map no_pos ls"
proof -
  let ?ls = "ls'[i := (ls' ! i)\<lparr>line_pos := 0\<rparr>]"
  show A: "pq_items q' = pq_items q - {i}" using st by (simp add: pq_step_to_def)
  have wf: "pq_wf line_ok q' ls'" and cb: "pq_cb q' = victim_cb"
    using q st by (simp_all add: pq_step_to_def que_ok_def)
  have il: "i < length ls'" using que_items(1) [OF q i] no_pos_length [OF np] by simp
  show "map no_pos ?ls = map no_pos ls"
    unfolding np [symmetric] using il
    by (intro nth_equalityI) (auto simp: no_pos_def nth_list_update)
  have eq: "?ls = victim_line_set_pos i 0 ls'" by (simp add: victim_line_set_pos_def)
  have pri: "victim_line_get_pri ?ls = victim_line_get_pri ls'"
    using vq.getpri_setpos [of i 0 ls'] by (simp add: eq fun_eq_iff)
  have wf': "pq_wf line_ok q' ?ls"
    unfolding pq_wf_def
  proof (intro conjI allI impI)
    show "1 \<le> pq_size q'" "pq_size q' \<le> pq_avail q'" using wf by (simp_all add: pq_wf_def)
    show "heap_ordered (cmppri (pq_cb q')) (getpri (pq_cb q') ?ls) (pq_d q') (pq_size q')"
      using wf cb pri by (simp add: pq_wf_def)
    fix j assume j: "1 \<le> j \<and> j < pq_size q'"
    then have "pq_d q' j \<in> pq_items q'" by (auto simp: pq_items_def)
    then have ne: "pq_d q' j \<noteq> i" using A by auto
    have "line_ok ls' (pq_d q' j)" "line_pos (ls' ! (pq_d q' j)) = j"
      using vq.wf_item [OF wf cb] j by (simp_all add: victim_line_get_pos_def)
    then show "line_ok ?ls (pq_d q' j)" "getpos (pq_cb q') ?ls (pq_d q' j) = j"
      using ne cb by (simp_all add: victim_line_get_pos_def)
  qed
  have "line_pos (?ls ! b) \<noteq> 0 \<longleftrightarrow> b \<in> pq_items q'" if b: "b < length ?ls" for b
  proof (cases "b \<in> pq_items q'")
    case True
    then show ?thesis using vq.wf_lookup [OF wf' cb, of b] by (simp add: victim_line_get_pos_def)
  next
    case False
    show ?thesis
    proof (cases "b = i")
      case True
      then show ?thesis using False b by simp
    next
      case ne: False
      then have "line_pos (ls' ! b) = line_pos (ls ! b)"
        using st False A q by (simp add: pq_step_to_def que_ok_def victim_line_get_pos_def)
      then show ?thesis using False ne A b no_pos_length [OF np] q by (auto simp: que_ok_def)
    qed
  qed
  then show "que_ok n q' ?ls" using wf' cb q st by (simp add: que_ok_def pq_step_to_def)
qed

end
