(* ===== verification/Line_Ops.thy ===== *)
theory Line_Ops
  imports Line_Inv
begin

text \<open>
  The operations on the line manager keep its invariant: invalidating and programming a page,
  closing a line, opening a free one, taking a victim out of the queue and giving it back free.
\<close>

subsection \<open>Helpers\<close>

lemma get_line_at_in [simp]: "i < length (lines m) \<Longrightarrow> get_line_at m i = Some (lines m ! i)"
  by (simp add: get_line_at_def)

lemma upd_line_in [simp]:
  "i < length (lines m) \<Longrightarrow> upd_line i f m = Some (m\<lparr>lines := (lines m)[i := f (lines m ! i)]\<rparr>)"
  by (simp add: upd_line_def)

lemma cnt_okD:
  assumes "cnt_ok spp st ls V" "b < tt_lines spp"
  shows "length ls = tt_lines spp" "line_id (ls ! b) = b"
    "b \<notin> set V \<Longrightarrow> line_vpc (ls ! b) = int (npg st PG_VALID (lpages spp b))"
    "b \<notin> set V \<Longrightarrow> line_ipc (ls ! b) = int (npg st PG_INVALID (lpages spp b))"
  using assms by (auto simp: cnt_ok_def)

lemma npg_line_le: "geometry spp \<Longrightarrow> npg st s (lpages spp b) \<le> pgs_per_line spp"
  using npg_le [OF finite_lpages] by (metis card_lpages)

lemma count_line:
  assumes "geometry spp" "n \<le> pgs_per_line spp"
  shows "count_ok (word_of_int (int n))" "unat (word_of_int (int n) :: u64) = n"
proof -
  have "n < 2 ^ 31" using assms(2) geometryD(18) [OF assms(1)] by simp
  then show "unat (word_of_int (int n) :: u64) = n" by (simp add: unat_of_nat_small)
  then show "count_ok (word_of_int (int n))" using \<open>n < 2 ^ 31\<close> by (simp add: count_ok_def)
qed

lemma part_places: "part_ok n m ws V \<Longrightarrow> b < n \<Longrightarrow>
    b \<in> set (free_line_list m) \<or> b \<in> set (full_line_list m) \<or> b \<in> fst ` set ws \<or> b \<in> set V \<or>
    b \<in> pq_items (victim_line_pq m)"
  by (auto simp: part_ok_def places_def set_eq_iff)

subsection \<open>Invalidating a page\<close>

text \<open>What \<open>mark_page_invalid\<close> does to the line manager between its two clock readings.\<close>

definition line_after_invalid :: "line \<Rightarrow> line" where
  "line_after_invalid l = l\<lparr>line_ipc := line_ipc l + 1, line_vpc := line_vpc l - 1\<rparr>"

text \<open>A new record for one line, and page states that change in that line only.\<close>

lemma cnt_upd:
  assumes cnt: "cnt_ok spp st ls V" and i: "i < tt_lines spp" and l: "line_id l' = i"
    and V: "i \<notin> set V' \<Longrightarrow> line_vpc l' = int (npg st' PG_VALID (lpages spp i)) \<and>
      line_ipc l' = int (npg st' PG_INVALID (lpages spp i))"
    and other: "\<And>b. b \<noteq> i \<Longrightarrow> b \<notin> set V' \<Longrightarrow> b \<notin> set V"
    and st: "\<And>b a. b \<noteq> i \<Longrightarrow> a \<in> lpages spp b \<Longrightarrow> st' a = st a"
  shows "cnt_ok spp st' (ls[i := l']) V'"
  unfolding cnt_ok_def
proof (intro conjI allI impI)
  have len: "length ls = tt_lines spp" using cnt by (simp add: cnt_ok_def)
  then show "length (ls[i := l']) = tt_lines spp" by simp
  fix b assume b: "b < tt_lines spp"
  show "line_id (ls[i := l'] ! b) = b"
    using cnt_okD(2) [OF cnt b] b len l by (cases "b = i") simp_all
  assume bV: "b \<notin> set V'"
  have "npg st' s (lpages spp b) = npg st s (lpages spp b)" if "b \<noteq> i" for s
    using st that by (intro npg_cong) auto
  then show "line_vpc (ls[i := l'] ! b) = int (npg st' PG_VALID (lpages spp b))"
    "line_ipc (ls[i := l'] ! b) = int (npg st' PG_INVALID (lpages spp b))"
    using cnt_okD(3,4) [OF cnt b] other [of b] V b bV len by (cases "b = i"; simp)+
qed

lemma lpages_other: "a \<in> lpages spp i \<Longrightarrow> b \<noteq> i \<Longrightarrow> x \<in> lpages spp b \<Longrightarrow> x \<noteq> a"
  by (cases a) auto

lemma cnt_invalid:
  assumes "cnt_ok spp st ls V" "i \<notin> set V" "i < tt_lines spp" "a \<in> lpages spp i" "st a = PG_VALID"
  shows "cnt_ok spp (st(a := PG_INVALID)) (ls[i := line_after_invalid (ls ! i)]) V"
proof (rule cnt_upd [OF assms(1,3)])
  note C = cnt_okD [OF assms(1,3)]
  show "line_id (line_after_invalid (ls ! i)) = i" using C by (simp add: line_after_invalid_def)
  have "npg st PG_VALID (lpages spp i) = npg (st(a := PG_INVALID)) PG_VALID (lpages spp i) + 1"
    using assms by (intro npg_upd_lose) auto
  moreover have "npg (st(a := PG_INVALID)) PG_INVALID (lpages spp i) = npg st PG_INVALID (lpages spp i) + 1"
    using assms by (intro npg_upd_gain) auto
  ultimately show "line_vpc (line_after_invalid (ls ! i)) = int (npg (st(a := PG_INVALID)) PG_VALID (lpages spp i)) \<and>
      line_ipc (line_after_invalid (ls ! i)) = int (npg (st(a := PG_INVALID)) PG_INVALID (lpages spp i))"
    using C(3,4) assms(2) by (simp add: line_after_invalid_def)
qed (use lpages_other [OF assms(4)] in auto)

lemma part_insert_full:
  assumes "part_ok n m ws V" "i \<in> set (full_line_list m)"
    and "pq_items q' = insert i (pq_items (victim_line_pq m))" "finite (pq_items (victim_line_pq m))"
    and "m' = list_del_line i m" "free_line_list m'' = free_line_list m'"
    "full_line_list m'' = full_line_list m'" "victim_line_pq m'' = q'"
    "free_line_cnt m'' = free_line_cnt m" "full_line_cnt m'' = full_line_cnt m - 1"
    "victim_line_cnt m'' = victim_line_cnt m + 1" "lm_tt_lines m'' = lm_tt_lines m"
  shows "part_ok n m'' ws V" "set (free_line_list m'') = set (free_line_list m)"
    "set (full_line_list m'') = set (full_line_list m) - {i}"
proof -
  have d: "distinct (full_line_list m)" "i \<notin> set (free_line_list m)" "i \<notin> set (map fst ws)" "i \<notin> set V"
      "i \<notin> pq_items (victim_line_pq m)"
    using assms(1,2) by (auto simp: part_ok_def places_def)
  have F: "free_line_list m'' = free_line_list m" using assms(5,6) d(2) by (simp add: list_del_line_def)
  have U: "full_line_list m'' = remove1 i (full_line_list m)"
    using assms(5,7) d(1) by (simp add: list_del_line_def distinct_remove1_removeAll)
  have len: "length (full_line_list m) = Suc (length (full_line_list m''))"
    using U assms(2) by (simp add: length_remove1) (metis Suc_pred length_pos_if_in_set)
  show s: "set (full_line_list m'') = set (full_line_list m) - {i}" using U d(1) by simp
  show "set (free_line_list m'') = set (free_line_list m)" using F by simp
  have "distinct (places m'' ws V)"
    using assms(1) F U by (auto simp: part_ok_def places_def dest: notin_set_remove1)
  moreover have "set (places m'' ws V) = set (places m ws V) - {i}"
    using F s d by (auto simp: places_def)
  moreover have "i \<in> set (places m ws V)" using assms(2) by (simp add: places_def)
  ultimately show "part_ok n m'' ws V"
    using assms F len d(5) by (auto simp: part_ok_def)
qed

text \<open>A line is on the full list exactly when all its pages are valid.\<close>

lemma full_iff:
  assumes geo: "geometry spp" and ok: "lines_ok spp st m ws []"
    and open_w: "\<forall>w \<in> set ws. snd w < pgs_per_line spp" and i: "i < tt_lines spp"
  shows "line_vpc (lines m ! i) = int (pgs_per_line spp) \<longleftrightarrow> i \<in> set (full_line_list m)"
proof
  have cnt: "cnt_ok spp st (lines m) []" and part: "part_ok (tt_lines spp) m ws []"
    and cls: "cls_ok spp st (set (free_line_list m)) (set (full_line_list m)) (pq_items (victim_line_pq m)) (set ws)"
    using ok by (simp_all add: lines_ok_def)
  have vpc: "line_vpc (lines m ! i) = int (npg st PG_VALID (lpages spp i))" using cnt_okD(3) [OF cnt i] by simp
  {
    assume "i \<in> set (full_line_list m)"
    then have "\<forall>a \<in> lpages spp i. st a = PG_VALID" using cls by (simp add: cls_ok_def)
    then show "line_vpc (lines m ! i) = int (pgs_per_line spp)"
      using vpc npg_full [OF finite_lpages] by (metis card_lpages [OF geo])
  }
  assume "line_vpc (lines m ! i) = int (pgs_per_line spp)"
  then have "npg st PG_VALID (lpages spp i) = card (lpages spp i)" using vpc card_lpages [OF geo] by simp
  then have all: "\<forall>a \<in> lpages spp i. st a = PG_VALID" by (simp add: npg_full)
  have ne: "lpages spp i \<noteq> {}" using card_lpages [OF geo, of i] geometryD(2,4,7,17) [OF geo] by force
  have "i \<notin> set (free_line_list m)" "i \<notin> pq_items (victim_line_pq m)"
    using cls all ne unfolding cls_ok_def by force+
  moreover have "i \<notin> fst ` set ws"
  proof
    assume "i \<in> fst ` set ws"
    then obtain n where n: "(i, n) \<in> set ws" by auto
    then have "\<forall>a \<in> lpages spp i. st a = PG_FREE \<longleftrightarrow> n \<le> pidx_of spp a"
      using cls unfolding cls_ok_def by blast
    then have "\<forall>a \<in> lpages spp i. \<not> n \<le> pidx_of spp a" using all by simp
    then have "pidx_of spp ` lpages spp i \<subseteq> {..<n}" by (simp add: image_subset_iff not_le)
    then have "card (pidx_of spp ` lpages spp i) \<le> n" by (metis card_lessThan card_mono finite_lessThan)
    moreover have "inj_on (pidx_of spp) (lpages spp i)" by (rule inj_onI) (rule pidx_of_inj [OF geo])
    ultimately show False using bspec [OF open_w n] card_lpages [OF geo] by (simp add: card_image)
  qed
  ultimately show "i \<in> set (full_line_list m)" using part_places [OF part i] by auto
qed

lemma cls_invalid:
  assumes cls: "cls_ok spp st F U Q W" and a: "a \<in> lpages spp i" "st a = PG_VALID"
  shows "i \<notin> F" "cls_ok spp (st(a := PG_INVALID)) F (U - {i}) (if i \<in> U then insert i Q else Q) W"
proof -
  have out: "a \<notin> lpages spp b" if "b \<noteq> i" for b using that a(1) by (cases a) auto
  show notfree: "i \<notin> F" using cls a unfolding cls_ok_def by force
  have "\<forall>b \<in> F. \<forall>x \<in> lpages spp b. (st(a := PG_INVALID)) x = PG_FREE"
  proof (intro ballI)
    fix b x assume "b \<in> F" "x \<in> lpages spp b"
    moreover from this have "x \<noteq> a" using out [of b] notfree by auto
    ultimately show "(st(a := PG_INVALID)) x = PG_FREE" using cls by (simp add: cls_ok_def)
  qed
  moreover have "\<forall>b \<in> U - {i}. \<forall>x \<in> lpages spp b. (st(a := PG_INVALID)) x = PG_VALID"
  proof (intro ballI)
    fix b x assume "b \<in> U - {i}" "x \<in> lpages spp b"
    moreover from this have "x \<noteq> a" using out [of b] by auto
    ultimately show "(st(a := PG_INVALID)) x = PG_VALID" using cls by (auto simp: cls_ok_def)
  qed
  moreover have "(\<forall>x \<in> lpages spp b. (st(a := PG_INVALID)) x \<noteq> PG_FREE) \<and>
      (\<exists>x \<in> lpages spp b. (st(a := PG_INVALID)) x = PG_INVALID)"
    if "b \<in> (if i \<in> U then insert i Q else Q)" for b
  proof (cases "b = i \<and> i \<in> U")
    case True
    then have "\<forall>x \<in> lpages spp b. st x = PG_VALID" using cls unfolding cls_ok_def by blast
    then show ?thesis using True a(1) by (auto intro!: bexI [of _ a])
  next
    case False
    then have "b \<in> Q" using that by (auto split: if_splits)
    then have q: "\<forall>x \<in> lpages spp b. st x \<noteq> PG_FREE" "\<exists>x \<in> lpages spp b. st x = PG_INVALID"
      using cls by (simp_all add: cls_ok_def)
    then obtain x where "x \<in> lpages spp b" "st x = PG_INVALID" by blast
    then show ?thesis using q(1) by (auto intro!: bexI [of _ x])
  qed
  moreover have "\<forall>(b, n) \<in> W. n \<le> pgs_per_line spp \<and>
      (\<forall>x \<in> lpages spp b. (st(a := PG_INVALID)) x = PG_FREE \<longleftrightarrow> n \<le> pidx_of spp x)"
  proof clarify
    fix b n assume "(b, n) \<in> W"
    then have w: "n \<le> pgs_per_line spp" "\<forall>x \<in> lpages spp b. st x = PG_FREE \<longleftrightarrow> n \<le> pidx_of spp x"
      using cls unfolding cls_ok_def by blast+
    have "(st(a := PG_INVALID)) x = PG_FREE \<longleftrightarrow> st x = PG_FREE" for x using a(2) by simp
    then show "n \<le> pgs_per_line spp \<and>
      (\<forall>x \<in> lpages spp b. (st(a := PG_INVALID)) x = PG_FREE \<longleftrightarrow> n \<le> pidx_of spp x)" using w by blast
  qed
  ultimately show "cls_ok spp (st(a := PG_INVALID)) F (U - {i}) (if i \<in> U then insert i Q else Q) W"
    unfolding cls_ok_def by blast
qed

lemma lines_invalidate:
  assumes geo: "geometry spp" and ok: "lines_ok spp st m ws []"
    and open_w: "\<forall>w \<in> set ws. snd w < pgs_per_line spp"
    and a: "a \<in> lpages spp i" "i < tt_lines spp" "st a = PG_VALID"
  shows "\<exists>m1 m2 m3. upd_line i line_ipc_incr m = Some m1 \<and> line_vpc_decr m1 i = Some m2 \<and>
    (if line_vpc (lines m ! i) = int (pgs_per_line spp) then full_to_victim m2 i else Some m2) = Some m3 \<and>
    i < length (lines m3) \<and> free_line_list m3 = free_line_list m \<and>
    (\<forall>now. lines_ok spp (st(a := PG_INVALID))
       (m3\<lparr>lines := (lines m3)[i := (lines m3 ! i)\<lparr>last_modified_time := now\<rparr>]\<rparr>) ws [])"
proof -
  have cnt: "cnt_ok spp st (lines m) []" and que: "que_ok (tt_lines spp) (victim_line_pq m) (lines m)"
    and part: "part_ok (tt_lines spp) m ws []"
    and cls: "cls_ok spp st (set (free_line_list m)) (set (full_line_list m)) (pq_items (victim_line_pq m)) (set ws)"
    using ok by (simp_all add: lines_ok_def)
  note C = cnt_okD [OF cnt a(2)]
  let ?l = "lines m ! i" and ?Q = "pq_items (victim_line_pq m)"
  have il: "i < length (lines m)" using C(1) a(2) by simp
  have vpc: "line_vpc ?l = int (npg st PG_VALID (lpages spp i))" using C(3) by simp
  have pos: "0 < npg st PG_VALID (lpages spp i)" using a by (auto simp: npg_pos)
  have full: "line_vpc ?l = int (pgs_per_line spp) \<longleftrightarrow> i \<in> set (full_line_list m)"
    by (rule full_iff [OF geo ok open_w a(2)])
  define m1 where "m1 = m\<lparr>lines := (lines m)[i := line_ipc_incr ?l]\<rparr>"
  have m1: "upd_line i line_ipc_incr m = Some m1" using il by (simp add: m1_def)
  have que1: "que_ok (tt_lines spp) (victim_line_pq m1) (lines m1)"
    unfolding m1_def using il que_ok_quiet [OF que, of line_ipc_incr i]
    by (simp add: line_ipc_incr_def quiet_def)
  have l1: "lines m1 ! i = line_ipc_incr ?l" using il by (simp add: m1_def)
  have posi: "line_pos ?l \<noteq> 0 \<longleftrightarrow> i \<in> ?Q" using que il unfolding que_ok_def by blast
  have vle: "nat (line_vpc ?l - 1) \<le> pgs_per_line spp" "line_vpc ?l - 1 = int (nat (line_vpc ?l - 1))"
    using vpc pos npg_line_le [OF geo, of st PG_VALID i] by auto
  \<comment> \<open>the decrement\<close>
  have "\<exists>m2. line_vpc_decr m1 i = Some m2 \<and> que_ok (tt_lines spp) (victim_line_pq m2) (lines m2) \<and>
      pq_items (victim_line_pq m2) = ?Q \<and>
      map no_pos (lines m2) = map no_pos ((lines m)[i := line_after_invalid ?l]) \<and>
      m2 = m\<lparr>lines := lines m2, victim_line_pq := victim_line_pq m2\<rparr>"
  proof (cases "i \<in> ?Q")
    case True
    then have p: "line_pos (lines m1 ! i) \<noteq> 0" using posi l1 by (simp add: line_ipc_incr_def)
    let ?p = "word_of_int (line_vpc (lines m1 ! i) - 1) :: u64"
    have vl: "line_vpc (lines m1 ! i) = line_vpc ?l" by (simp add: l1 line_ipc_incr_def)
    have cp: "count_ok ?p" "int (unat ?p) = line_vpc ?l - 1"
      using count_line [OF geo vle(1)] vle(2) by (simp_all add: vl)
    obtain q' ls' where res: "pqueue_change_priority (victim_line_pq m1) (lines m1) ?p i = (q', ls')"
      by (cases "pqueue_change_priority (victim_line_pq m1) (lines m1) ?p i")
    have items: "i \<in> pq_items (victim_line_pq m1)" using True by (simp add: m1_def)
    have "que_ok (tt_lines spp) q' ls' \<and> pq_items q' = pq_items (victim_line_pq m1) \<and>
        map no_pos ls' = map no_pos ((lines m1)[i := (lines m1 ! i)\<lparr>line_vpc := int (unat ?p)\<rparr>])"
      by (rule que_change [OF que1 items cp(1) res])
    then show ?thesis
      using p res il cp(2)
      by (simp add: line_vpc_decr_def m1_def line_after_invalid_def line_ipc_incr_def)
  next
    case False
    then have p: "line_pos (lines m1 ! i) = 0" using posi l1 by (simp add: line_ipc_incr_def)
    have "que_ok (tt_lines spp) (victim_line_pq m1)
        ((lines m1)[i := (\<lambda>l. l\<lparr>line_vpc := line_vpc l - 1\<rparr>) (lines m1 ! i)])"
      using False il by (intro que_ok_quiet [OF que1]) (auto simp: quiet_def m1_def)
    then show ?thesis
      using p il by (simp add: line_vpc_decr_def m1_def line_after_invalid_def line_ipc_incr_def)
  qed
  then obtain m2 where m2: "line_vpc_decr m1 i = Some m2"
      "que_ok (tt_lines spp) (victim_line_pq m2) (lines m2)" "pq_items (victim_line_pq m2) = ?Q"
      "map no_pos (lines m2) = map no_pos ((lines m)[i := line_after_invalid ?l])"
      "m2 = m\<lparr>lines := lines m2, victim_line_pq := victim_line_pq m2\<rparr>" by blast
  have len2: "length (lines m2) = tt_lines spp" using no_pos_length [OF m2(4)] C(1) by simp
  have lists2: "free_line_list m2 = free_line_list m" "full_line_list m2 = full_line_list m"
      "free_line_cnt m2 = free_line_cnt m" "full_line_cnt m2 = full_line_cnt m"
      "victim_line_cnt m2 = victim_line_cnt m" "lm_tt_lines m2 = lm_tt_lines m"
    by (subst m2(5), simp)+
  note cls' = cls_invalid(2) [OF cls a(1,3)]
  \<comment> \<open>a full line enters the queue\<close>
  have "\<exists>m3. (if line_vpc ?l = int (pgs_per_line spp) then full_to_victim m2 i else Some m2) = Some m3 \<and>
      que_ok (tt_lines spp) (victim_line_pq m3) (lines m3) \<and>
      map no_pos (lines m3) = map no_pos (lines m2) \<and> part_ok (tt_lines spp) m3 ws [] \<and>
      cls_ok spp (st(a := PG_INVALID)) (set (free_line_list m3)) (set (full_line_list m3))
        (pq_items (victim_line_pq m3)) (set ws) \<and> free_line_list m3 = free_line_list m"
  proof (cases "i \<in> set (full_line_list m)")
    case True
    then have nq: "i \<notin> pq_items (victim_line_pq m2)"
      using part m2(3) by (auto simp: part_ok_def places_def)
    obtain q' ls' where ins: "pqueue_insert (victim_line_pq m2) (lines m2) i = Some (q', ls')"
        "que_ok (tt_lines spp) q' ls'" "pq_items q' = insert i (pq_items (victim_line_pq m2))"
        "map no_pos ls' = map no_pos (lines m2)"
      using que_insert [OF m2(2) len2 a(2) nq] by blast
    define m3 where "m3 = (list_del_line i m2)\<lparr>full_line_cnt := full_line_cnt m2 - 1, victim_line_pq := q',
      lines := ls', victim_line_cnt := victim_line_cnt m2 + 1\<rparr>"
    have r: "full_to_victim m2 i = Some m3"
      using ins(1) by (simp add: full_to_victim_def m3_def list_del_line_def)
    have p2: "part_ok (tt_lines spp) m2 ws []"
      using part m2(3) lists2 by (simp add: part_ok_def places_def)
    have fin: "finite (pq_items (victim_line_pq m2))" by (simp add: pq_items_def)
    have i2: "i \<in> set (full_line_list m2)" using True lists2 by simp
    have "part_ok (tt_lines spp) m3 ws []" "set (free_line_list m3) = set (free_line_list m2)"
      "set (full_line_list m3) = set (full_line_list m2) - {i}"
      using part_insert_full [OF p2 i2 ins(3) fin refl, of m3] by (simp_all add: m3_def list_del_line_def)
    moreover have "victim_line_pq m3 = q'" "lines m3 = ls'" by (simp_all add: m3_def)
    moreover have "free_line_list m3 = free_line_list m"
      using cls_invalid(1) [OF cls a(1,3)] lists2 by (simp add: m3_def list_del_line_def)
    ultimately show ?thesis
      using r full True ins(2-4) cls' lists2 m2(3) by (intro exI [of _ m3]) simp
  next
    case False
    then have "part_ok (tt_lines spp) m2 ws []"
      using part m2(3) lists2 by (simp add: part_ok_def places_def)
    then show ?thesis using False full m2 cls' lists2 by simp
  qed
  then obtain m3 where m3: "(if line_vpc ?l = int (pgs_per_line spp) then full_to_victim m2 i else Some m2) = Some m3"
      "que_ok (tt_lines spp) (victim_line_pq m3) (lines m3)" "map no_pos (lines m3) = map no_pos (lines m2)"
      "part_ok (tt_lines spp) m3 ws []"
      "cls_ok spp (st(a := PG_INVALID)) (set (free_line_list m3)) (set (full_line_list m3))
        (pq_items (victim_line_pq m3)) (set ws)" "free_line_list m3 = free_line_list m" by blast
  have len3: "length (lines m3) = tt_lines spp" using no_pos_length [OF m3(3)] len2 by simp
  have "lines_ok spp (st(a := PG_INVALID))
       (m3\<lparr>lines := (lines m3)[i := (lines m3 ! i)\<lparr>last_modified_time := now\<rparr>]\<rparr>) ws []" for now
  proof -
    have c3: "cnt_ok spp (st(a := PG_INVALID)) (lines m3) []"
      using cnt_invalid [OF cnt _ a(2,1,3)] no_pos_cnt [OF trans [OF m3(3) m2(4)]] by simp
    then have "cnt_ok spp (st(a := PG_INVALID)) ((lines m3)[i := (lines m3 ! i)\<lparr>last_modified_time := now\<rparr>]) []"
      using cnt_okD [OF c3 a(2)] by (intro cnt_upd [OF c3 a(2)]) auto
    moreover have "que_ok (tt_lines spp) (victim_line_pq m3)
        ((lines m3)[i := (\<lambda>l. l\<lparr>last_modified_time := now\<rparr>) (lines m3 ! i)])"
      using len3 a(2) by (intro que_ok_quiet [OF m3(2)]) (auto simp: quiet_def)
    moreover have "part_ok (tt_lines spp) (m3\<lparr>lines := ls\<rparr>) ws []" for ls
      using m3(4) by (simp add: part_ok_def places_def)
    ultimately show ?thesis using m3(5) by (simp add: lines_ok_def)
  qed
  then show ?thesis using m1 m2(1) m3(1,6) len3 a(2) by auto
qed

subsection \<open>Programming a page\<close>

lemma cls_ok_W: "cls_ok spp st F U Q W \<Longrightarrow> (b, n) \<in> W \<Longrightarrow> a \<in> lpages spp b \<Longrightarrow>
    st a = PG_FREE \<longleftrightarrow> n \<le> pidx_of spp a"
  by (auto simp: cls_ok_def)

text \<open>The next page of an open line becomes valid.\<close>

lemma lines_program:
  assumes geo: "geometry spp" and ok: "lines_ok spp st m ((c, n) # ws) V"
    and a: "a \<in> lpages spp c" "pidx_of spp a = n"
  shows "upd_line c (\<lambda>l. l\<lparr>line_vpc := line_vpc l + 1\<rparr>) m =
      Some (m\<lparr>lines := (lines m)[c := (lines m ! c)\<lparr>line_vpc := line_vpc (lines m ! c) + 1\<rparr>]\<rparr>)"
    and "st a = PG_FREE"
    and "lines_ok spp (st(a := PG_VALID))
      (m\<lparr>lines := (lines m)[c := (lines m ! c)\<lparr>line_vpc := line_vpc (lines m ! c) + 1\<rparr>]\<rparr>)
      ((c, n + 1) # ws) V"
proof -
  have cnt: "cnt_ok spp st (lines m) V" and que: "que_ok (tt_lines spp) (victim_line_pq m) (lines m)"
    and part: "part_ok (tt_lines spp) m ((c, n) # ws) V"
    and cls: "cls_ok spp st (set (free_line_list m)) (set (full_line_list m)) (pq_items (victim_line_pq m))
      (set ((c, n) # ws))"
    using ok by (simp_all add: lines_ok_def)
  have c: "c < tt_lines spp" using lines_ok_bounds(3) [OF ok, of c] by (simp add: places_def)
  note C = cnt_okD [OF cnt c]
  show "upd_line c (\<lambda>l. l\<lparr>line_vpc := line_vpc l + 1\<rparr>) m =
      Some (m\<lparr>lines := (lines m)[c := (lines m ! c)\<lparr>line_vpc := line_vpc (lines m ! c) + 1\<rparr>]\<rparr>)"
    using C(1) c by simp
  show free: "st a = PG_FREE" using cls_ok_W [OF cls, of c n a] a by simp
  have apart: "c \<notin> set (free_line_list m)" "c \<notin> set (full_line_list m)" "c \<notin> pq_items (victim_line_pq m)"
      "c \<notin> set V" "c \<notin> fst ` set ws"
    using part by (auto simp: part_ok_def places_def)
  have cnt': "cnt_ok spp (st(a := PG_VALID)) ((lines m)[c := (lines m ! c)\<lparr>line_vpc := line_vpc (lines m ! c) + 1\<rparr>]) V"
  proof (rule cnt_upd [OF cnt c])
    have "npg (st(a := PG_VALID)) PG_VALID (lpages spp c) = npg st PG_VALID (lpages spp c) + 1"
      using a free by (intro npg_upd_gain) auto
    moreover have "npg (st(a := PG_VALID)) PG_INVALID (lpages spp c) = npg st PG_INVALID (lpages spp c)"
      using free by (intro npg_upd_other) auto
    ultimately show "line_vpc ((lines m ! c)\<lparr>line_vpc := line_vpc (lines m ! c) + 1\<rparr>) =
        int (npg (st(a := PG_VALID)) PG_VALID (lpages spp c)) \<and>
        line_ipc ((lines m ! c)\<lparr>line_vpc := line_vpc (lines m ! c) + 1\<rparr>) =
        int (npg (st(a := PG_VALID)) PG_INVALID (lpages spp c))"
      using C(3,4) apart(4) by simp
  qed (use C lpages_other [OF a(1)] in auto)
  have que': "que_ok (tt_lines spp) (victim_line_pq m)
      ((lines m)[c := (\<lambda>l. l\<lparr>line_vpc := line_vpc l + 1\<rparr>) (lines m ! c)])"
    using apart(3) C(1) c by (intro que_ok_quiet [OF que]) (auto simp: quiet_def)
  have same: "(st(a := PG_VALID)) x = st x" if "x \<in> lpages spp b" "b \<noteq> c" for x b
    using lpages_other [OF a(1) that(2,1)] by simp
  have n: "n < pgs_per_line spp" using pidx_of_less [OF geo a(1)] a(2) by simp
  have cls': "cls_ok spp (st(a := PG_VALID)) (set (free_line_list m)) (set (full_line_list m))
      (pq_items (victim_line_pq m)) (set ((c, n + 1) # ws))"
    unfolding cls_ok_def
  proof (intro conjI)
    show "\<forall>b \<in> set (free_line_list m). \<forall>x \<in> lpages spp b. (st(a := PG_VALID)) x = PG_FREE"
      using cls same apart(1) unfolding cls_ok_def by metis
    show "\<forall>b \<in> set (full_line_list m). \<forall>x \<in> lpages spp b. (st(a := PG_VALID)) x = PG_VALID"
      using cls same apart(2) unfolding cls_ok_def by metis
    show "\<forall>b \<in> pq_items (victim_line_pq m). (\<forall>x \<in> lpages spp b. (st(a := PG_VALID)) x \<noteq> PG_FREE) \<and>
        (\<exists>x \<in> lpages spp b. (st(a := PG_VALID)) x = PG_INVALID)"
      using cls same apart(3) unfolding cls_ok_def by metis
    show "\<forall>(b, k) \<in> set ((c, n + 1) # ws). k \<le> pgs_per_line spp \<and>
        (\<forall>x \<in> lpages spp b. (st(a := PG_VALID)) x = PG_FREE \<longleftrightarrow> k \<le> pidx_of spp x)"
    proof (intro ballI, clarify, intro conjI ballI)
      fix b k assume bk: "(b, k) \<in> set ((c, n + 1) # ws)"
      then show "k \<le> pgs_per_line spp" using cls n by (auto simp: cls_ok_def)
      fix x assume x: "x \<in> lpages spp b"
      show "(st(a := PG_VALID)) x = PG_FREE \<longleftrightarrow> k \<le> pidx_of spp x"
      proof (cases "b = c")
        case True
        then have k: "k = n + 1" using bk apart(5) by force
        have "st x = PG_FREE \<longleftrightarrow> n \<le> pidx_of spp x" using cls_ok_W [OF cls, of c n x] x True by simp
        moreover have "pidx_of spp x = n \<longleftrightarrow> x = a"
          using pidx_of_inj [OF geo, of x c a] x a True by auto
        ultimately show ?thesis using k by auto
      next
        case False
        then have "(b, k) \<in> set ws" using bk by auto
        then show ?thesis using cls_ok_W [OF cls, of b k x] same [OF x False] x by simp
      qed
    qed
  qed
  have part': "part_ok (tt_lines spp) (m\<lparr>lines := ls\<rparr>) ((c, n + 1) # ws) V" for ls
    using part by (simp add: part_ok_def places_def)
  show "lines_ok spp (st(a := PG_VALID))
      (m\<lparr>lines := (lines m)[c := (lines m ! c)\<lparr>line_vpc := line_vpc (lines m ! c) + 1\<rparr>]\<rparr>)
      ((c, n + 1) # ws) V"
    using cnt' que' cls' part' by (simp add: lines_ok_def)
qed

subsection \<open>Closing and opening a line\<close>

lemma lines_close:
  assumes geo: "geometry spp" and ok: "lines_ok spp st m ((c, pgs_per_line spp) # ws) V"
  shows "\<exists>m'. close_line spp m c = Some m' \<and> lines_ok spp st m' ws V \<and>
    free_line_list m' = free_line_list m"
proof -
  let ?Q = "pq_items (victim_line_pq m)"
  have cnt: "cnt_ok spp st (lines m) V" and que: "que_ok (tt_lines spp) (victim_line_pq m) (lines m)"
    and part: "part_ok (tt_lines spp) m ((c, pgs_per_line spp) # ws) V"
    and cls: "cls_ok spp st (set (free_line_list m)) (set (full_line_list m)) ?Q
      (set ((c, pgs_per_line spp) # ws))"
    using ok by (simp_all add: lines_ok_def)
  have c: "c < tt_lines spp" using lines_ok_bounds(3) [OF ok, of c] by (simp add: places_def)
  note C = cnt_okD [OF cnt c]
  have apart: "c \<notin> set (free_line_list m)" "c \<notin> set (full_line_list m)" "c \<notin> ?Q" "c \<notin> set V"
      "c \<notin> fst ` set ws"
    using part by (auto simp: part_ok_def places_def)
  have nofree: "\<forall>a \<in> lpages spp c. st a \<noteq> PG_FREE"
    using cls_ok_W [OF cls, of c] pidx_of_less [OF geo] by fastforce
  have sum: "npg st PG_VALID (lpages spp c) + npg st PG_INVALID (lpages spp c) = pgs_per_line spp"
    using npg_split [OF finite_lpages nofree] card_lpages [OF geo] by simp
  have l: "get_line_at m c = Some (lines m ! c)" using C(1) c by simp
  show ?thesis
  proof (cases "line_vpc (lines m ! c) = int (pgs_per_line spp)")
    case True
    then have "npg st PG_VALID (lpages spp c) = card (lpages spp c)"
      using C(3) apart(4) card_lpages [OF geo] by simp
    then have all: "\<forall>a \<in> lpages spp c. st a = PG_VALID" by (simp add: npg_full)
    have "line_ipc (lines m ! c) = 0" using True sum C(3,4) apart(4) by simp
    then have r: "close_line spp m c =
        Some (m\<lparr>full_line_list := full_line_list m @ [c], full_line_cnt := full_line_cnt m + 1\<rparr>)"
      using l True by (simp add: close_line_def)
    have "part_ok (tt_lines spp)
        (m\<lparr>full_line_list := full_line_list m @ [c], full_line_cnt := full_line_cnt m + 1\<rparr>) ws V"
      using part by (auto simp: part_ok_def places_def)
    then have "lines_ok spp st
        (m\<lparr>full_line_list := full_line_list m @ [c], full_line_cnt := full_line_cnt m + 1\<rparr>) ws V"
      using cnt que cls all by (auto simp: lines_ok_def cls_ok_def)
    then show ?thesis using r by simp
  next
    case False
    then have lt: "npg st PG_INVALID (lpages spp c) \<noteq> 0" using C(3) apart(4) sum by auto
    then have ipc: "0 < line_ipc (lines m ! c)" using C(4) apart(4) by simp
    obtain q' ls' where ins: "pqueue_insert (victim_line_pq m) (lines m) c = Some (q', ls')"
        "que_ok (tt_lines spp) q' ls'" "pq_items q' = insert c ?Q" "map no_pos ls' = map no_pos (lines m)"
      using que_insert [OF que C(1) c apart(3)] by blast
    define m' where "m' = m\<lparr>victim_line_pq := q', lines := ls', victim_line_cnt := victim_line_cnt m + 1\<rparr>"
    have r: "close_line spp m c = Some m'" using l False ipc ins(1) by (simp add: close_line_def m'_def)
    have "\<exists>a \<in> lpages spp c. st a = PG_INVALID" using lt npg_pos [OF finite_lpages] by blast
    then have "cls_ok spp st (set (free_line_list m)) (set (full_line_list m)) (insert c ?Q) (set ws)"
      using cls nofree by (auto simp: cls_ok_def)
    moreover have "finite ?Q" by (simp add: pq_items_def)
    then have "part_ok (tt_lines spp) m' ws V"
      using part ins(3) apart(3) by (auto simp: part_ok_def places_def m'_def)
    ultimately have "lines_ok spp st m' ws V"
      using cnt ins no_pos_cnt [OF ins(4)] by (simp add: lines_ok_def m'_def)
    then show ?thesis using r by (simp add: m'_def)
  qed
qed

lemma of_nat_Suc_minus_1: "(of_nat (Suc n) :: 'w::len word) - 1 = of_nat n"
  by simp

lemma lines_open:
  assumes ok: "lines_ok spp st m ws V" and free: "free_line_list m = c # rest"
  shows "get_next_free_line m =
      (m\<lparr>free_line_list := rest, free_line_cnt := free_line_cnt m - 1\<rparr>, Some c)"
    and "lines_ok spp st (m\<lparr>free_line_list := rest, free_line_cnt := free_line_cnt m - 1\<rparr>) ((c, 0) # ws) V"
    and "line_id (lines m ! c) = c" "c < tt_lines spp"
proof -
  let ?m = "m\<lparr>free_line_list := rest, free_line_cnt := free_line_cnt m - 1\<rparr>"
  show "get_next_free_line m = (?m, Some c)" using free by (simp add: get_next_free_line_def)
  show c: "c < tt_lines spp" using lines_ok_bounds(3) [OF ok, of c] free by (simp add: places_def)
  have cnt: "cnt_ok spp st (lines m) V" using ok by (simp add: lines_ok_def)
  then show "line_id (lines m ! c) = c" using cnt_okD(2) c by blast
  have part: "part_ok (tt_lines spp) ?m ((c, 0) # ws) V"
    using ok free by (auto simp: lines_ok_def part_ok_def places_def)
  have "cls_ok spp st (set rest) (set (full_line_list m)) (pq_items (victim_line_pq m)) (set ((c, 0) # ws))"
    using ok free by (auto simp: lines_ok_def cls_ok_def)
  then show "lines_ok spp st ?m ((c, 0) # ws) V" using ok part by (simp add: lines_ok_def)
qed

subsection \<open>The victim\<close>

lemma lines_take:
  assumes ok: "lines_ok spp st m ws []" and v: "v \<in> pq_items (victim_line_pq m)"
    and st: "pq_step_to line_ok (victim_line_pq m) (lines m) (pq_items (victim_line_pq m) - {v}) q' ls'"
    and np: "map no_pos ls' = map no_pos (lines m)"
  shows "\<exists>m'. upd_line v (\<lambda>l. l\<lparr>line_pos := 0\<rparr>) (m\<lparr>victim_line_pq := q', lines := ls'\<rparr>) = Some m' \<and>
    lines_ok spp st (m'\<lparr>victim_line_cnt := victim_line_cnt m' - 1\<rparr>) ws [v] \<and>
    free_line_list m' = free_line_list m \<and>
    (\<forall>a \<in> lpages spp v. st a \<noteq> PG_FREE) \<and> npg st PG_VALID (lpages spp v) < card (lpages spp v) \<and>
    map no_pos (lines m') = map no_pos (lines m)"
proof -
  have cnt: "cnt_ok spp st (lines m) []" and que: "que_ok (tt_lines spp) (victim_line_pq m) (lines m)"
    and part: "part_ok (tt_lines spp) m ws []"
    and cls: "cls_ok spp st (set (free_line_list m)) (set (full_line_list m)) (pq_items (victim_line_pq m)) (set ws)"
    using ok by (simp_all add: lines_ok_def)
  have vl: "v < tt_lines spp" by (rule lines_ok_bounds(4) [OF ok v])
  have len: "length ls' = tt_lines spp" using no_pos_length [OF np] cnt by (simp add: cnt_ok_def)
  note T = que_take [OF que st np v]
  let ?ls = "ls'[v := (ls' ! v)\<lparr>line_pos := 0\<rparr>]"
  define m' where "m' = m\<lparr>victim_line_pq := q', lines := ?ls\<rparr>"
  have r: "upd_line v (\<lambda>l. l\<lparr>line_pos := 0\<rparr>) (m\<lparr>victim_line_pq := q', lines := ls'\<rparr>) = Some m'"
    using len vl by (simp add: m'_def)
  have "cnt_ok spp st (lines m) [v]" using cnt by (simp add: cnt_ok_def)
  then have "cnt_ok spp st ?ls [v]" using no_pos_cnt [OF T(3)] by simp
  moreover have "part_ok (tt_lines spp) (m'\<lparr>victim_line_cnt := victim_line_cnt m' - 1\<rparr>) ws [v]"
  proof -
    let ?P = "set (places m ws [])" and ?Q = "pq_items (victim_line_pq m)"
    have P: "distinct (places m ws [])" "?P \<inter> ?Q = {}" "?P \<union> ?Q = {..<tt_lines spp}"
      using part by (simp_all add: part_ok_def)
    have card: "card ?Q = Suc (card (?Q - {v}))"
      using card_Suc_Diff1 [of ?Q v] v by (simp add: pq_items_def)
    have "places (m'\<lparr>victim_line_cnt := victim_line_cnt m' - 1\<rparr>) ws [v] = places m ws [] @ [v]"
      by (simp add: places_def m'_def)
    moreover have "distinct (places m ws [] @ [v])" using P v by auto
    moreover have "set (places m ws [] @ [v]) \<inter> (?Q - {v}) = {}" using P(2) by auto
    moreover have "set (places m ws [] @ [v]) \<union> (?Q - {v}) = {..<tt_lines spp}"
      using P(3) v by auto
    ultimately show ?thesis
      using part T(2) card by (simp add: part_ok_def m'_def)
  qed
  moreover have "cls_ok spp st (set (free_line_list m)) (set (full_line_list m)) (pq_items q') (set ws)"
    using cls T(2) by (auto simp: cls_ok_def)
  ultimately have ok': "lines_ok spp st (m'\<lparr>victim_line_cnt := victim_line_cnt m' - 1\<rparr>) ws [v]"
    using T(1) by (simp add: lines_ok_def m'_def)
  have vq: "\<forall>a \<in> lpages spp v. st a \<noteq> PG_FREE" "\<exists>a \<in> lpages spp v. st a = PG_INVALID"
    using cls v by (simp_all add: cls_ok_def)
  then have "0 < npg st PG_INVALID (lpages spp v)" by (simp add: npg_pos)
  then have "npg st PG_VALID (lpages spp v) < card (lpages spp v)"
    using npg_split [OF finite_lpages vq(1)] by simp
  then show ?thesis using r ok' vq(1) T(3) by (intro exI [of _ m']) (simp add: m'_def)
qed

text \<open>The erased victim goes to the free list.\<close>

lemma lines_give_back:
  assumes ok: "lines_ok spp st m ws [v]" and free: "\<forall>a \<in> lpages spp v. st a = PG_FREE"
  shows "\<exists>m1. upd_line v (\<lambda>l. l\<lparr>line_ipc := 0, line_vpc := 0, line_erase_cnt := line_erase_cnt l + 1\<rparr>) m = Some m1 \<and>
    lines_ok spp st (m1\<lparr>free_line_list := free_line_list m1 @ [v], free_line_cnt := free_line_cnt m1 + 1\<rparr>) ws [] \<and>
    free_line_list m1 = free_line_list m"
proof -
  have cnt: "cnt_ok spp st (lines m) [v]" and que: "que_ok (tt_lines spp) (victim_line_pq m) (lines m)"
    and part: "part_ok (tt_lines spp) m ws [v]"
    and cls: "cls_ok spp st (set (free_line_list m)) (set (full_line_list m)) (pq_items (victim_line_pq m)) (set ws)"
    using ok by (simp_all add: lines_ok_def)
  have vl: "v < tt_lines spp" using lines_ok_bounds(3) [OF ok, of v] by (simp add: places_def)
  note C = cnt_okD [OF cnt vl]
  have nq: "v \<notin> pq_items (victim_line_pq m)" using part by (auto simp: part_ok_def places_def)
  let ?f = "\<lambda>l. l\<lparr>line_ipc := 0, line_vpc := 0, line_erase_cnt := line_erase_cnt l + 1\<rparr>"
  define m1 where "m1 = m\<lparr>lines := (lines m)[v := ?f (lines m ! v)]\<rparr>"
  have r: "upd_line v ?f m = Some m1" using C(1) vl by (simp add: m1_def)
  have "cnt_ok spp st ((lines m)[v := ?f (lines m ! v)]) []"
  proof (rule cnt_upd [OF cnt vl])
    have "npg st PG_VALID (lpages spp v) = 0" "npg st PG_INVALID (lpages spp v) = 0"
      using free by (simp_all add: npg_none)
    then show "line_vpc (?f (lines m ! v)) = int (npg st PG_VALID (lpages spp v)) \<and>
        line_ipc (?f (lines m ! v)) = int (npg st PG_INVALID (lpages spp v))" by simp
  qed (use C in auto)
  moreover have "que_ok (tt_lines spp) (victim_line_pq m) ((lines m)[v := ?f (lines m ! v)])"
    using nq C(1) vl by (intro que_ok_quiet [OF que]) (auto simp: quiet_def)
  moreover have "part_ok (tt_lines spp)
      (m1\<lparr>free_line_list := free_line_list m1 @ [v], free_line_cnt := free_line_cnt m1 + 1\<rparr>) ws []"
    using part by (auto simp: part_ok_def places_def m1_def)
  moreover have "cls_ok spp st (set (free_line_list m1 @ [v])) (set (full_line_list m1))
      (pq_items (victim_line_pq m1)) (set ws)"
    using cls free by (auto simp: cls_ok_def m1_def)
  ultimately show ?thesis using r by (auto simp: lines_ok_def m1_def)
qed

text \<open>Page states that change in the victim only.\<close>

lemma lines_ok_victim_st:
  assumes ok: "lines_ok spp st m ws [v]" and st: "\<And>a. a \<notin> lpages spp v \<Longrightarrow> st' a = st a"
  shows "lines_ok spp st' m ws [v]"
proof -
  have disj: "a \<notin> lpages spp v" if "b \<noteq> v" "a \<in> lpages spp b" for a b
    using that by (cases a) auto
  have v: "v \<notin> set (free_line_list m)" "v \<notin> set (full_line_list m)" "v \<notin> pq_items (victim_line_pq m)"
      "v \<notin> fst ` set ws"
    using ok by (auto simp: lines_ok_def part_ok_def places_def)
  have same: "st' a = st a" if "b \<noteq> v" "a \<in> lpages spp b" for a b using st disj that by blast
  have "cnt_ok spp st' (lines m) [v]"
    using ok npg_cong [of "lpages spp b" st' st for b] same by (auto simp: lines_ok_def cnt_ok_def)
  moreover have "cls_ok spp st' (set (free_line_list m)) (set (full_line_list m))
      (pq_items (victim_line_pq m)) (set ws)"
  proof -
    have cls: "cls_ok spp st (set (free_line_list m)) (set (full_line_list m)) (pq_items (victim_line_pq m)) (set ws)"
      using ok by (simp add: lines_ok_def)
    have "\<forall>b \<in> set (free_line_list m). \<forall>a \<in> lpages spp b. st' a = PG_FREE"
      using cls same v(1) unfolding cls_ok_def by metis
    moreover have "\<forall>b \<in> set (full_line_list m). \<forall>a \<in> lpages spp b. st' a = PG_VALID"
      using cls same v(2) unfolding cls_ok_def by metis
    moreover have "\<forall>b \<in> pq_items (victim_line_pq m). (\<forall>a \<in> lpages spp b. st' a \<noteq> PG_FREE) \<and>
        (\<exists>a \<in> lpages spp b. st' a = PG_INVALID)"
      using cls same v(3) unfolding cls_ok_def by metis
    moreover have "\<forall>(b, n) \<in> set ws. n \<le> pgs_per_line spp \<and>
        (\<forall>a \<in> lpages spp b. st' a = PG_FREE \<longleftrightarrow> n \<le> pidx_of spp a)"
      using cls same v(4) unfolding cls_ok_def by (fastforce simp: image_iff)
    ultimately show ?thesis unfolding cls_ok_def by blast
  qed
  ultimately show ?thesis using ok by (simp add: lines_ok_def)
qed

end
