(* ===== verification/Ftl_Inv.thy ===== *)
theory Ftl_Inv
  imports Line_Ops Conv_Ftl
begin

text \<open>
  The invariant of a conventional FTL instance. The mapping table and the reverse map are inverse
  to each other on the valid pages, block and line counters count pages, every line is in its
  place (\<open>Line_Inv\<close>), and each write pointer stands in its line at the first free page. The
  parameters exempt what an operation has half done: \<open>X\<close> logical pages between two copies, \<open>D\<close>
  pages of the victim already copied away, \<open>V\<close> the victim line.
\<close>

subsection \<open>The mapping\<close>

definition map_ok ::
  "ssdparams \<Rightarrow> (pa \<Rightarrow> pg_status) \<Rightarrow> ppa list \<Rightarrow> u64 list \<Rightarrow> pa set \<Rightarrow> nat set \<Rightarrow> bool" where
  "map_ok spp st mt rm D X \<longleftrightarrow> length mt = tt_pgs spp \<and> length rm = tt_pgs spp \<and>
     (\<forall>l < tt_pgs spp. l \<notin> X \<and> mapped_ppa (mt ! l) \<longrightarrow>
        g_pl (mt ! l) = 0 \<and> vpa spp (pa_of (mt ! l)) \<and> st (pa_of (mt ! l)) = PG_VALID \<and>
        pa_of (mt ! l) \<notin> D \<and> unat (rm ! idx_of spp (pa_of (mt ! l))) = l) \<and>
     (\<forall>a. vpa spp a \<and> st a = PG_VALID \<and> a \<notin> D \<longrightarrow>
        unat (rm ! idx_of spp a) < tt_pgs spp \<and> unat (rm ! idx_of spp a) \<notin> X \<and>
        mapped_ppa (mt ! unat (rm ! idx_of spp a)) \<and> pa_of (mt ! unat (rm ! idx_of spp a)) = a)"

lemma map_ok_lengths: "map_ok spp st mt rm D X \<Longrightarrow> length mt = tt_pgs spp \<and> length rm = tt_pgs spp"
  by (simp add: map_ok_def)

lemma map_okD1:
  assumes "map_ok spp st mt rm D X" "l < tt_pgs spp" "l \<notin> X" "mapped_ppa (mt ! l)"
  shows "g_pl (mt ! l) = 0" "vpa spp (pa_of (mt ! l))" "st (pa_of (mt ! l)) = PG_VALID"
    "pa_of (mt ! l) \<notin> D" "unat (rm ! idx_of spp (pa_of (mt ! l))) = l"
  using assms unfolding map_ok_def by blast+

lemma map_okD2:
  assumes "map_ok spp st mt rm D X" "vpa spp a" "st a = PG_VALID" "a \<notin> D"
  shows "unat (rm ! idx_of spp a) < tt_pgs spp" "unat (rm ! idx_of spp a) \<notin> X"
    "mapped_ppa (mt ! unat (rm ! idx_of spp a))" "pa_of (mt ! unat (rm ! idx_of spp a)) = a"
  using assms unfolding map_ok_def by blast+

lemma map_okI:
  assumes "length mt = tt_pgs spp" "length rm = tt_pgs spp"
    and "\<And>l. l < tt_pgs spp \<Longrightarrow> l \<notin> X \<Longrightarrow> mapped_ppa (mt ! l) \<Longrightarrow>
      g_pl (mt ! l) = 0 \<and> vpa spp (pa_of (mt ! l)) \<and> st (pa_of (mt ! l)) = PG_VALID \<and>
      pa_of (mt ! l) \<notin> D \<and> unat (rm ! idx_of spp (pa_of (mt ! l))) = l"
    and "\<And>a. vpa spp a \<Longrightarrow> st a = PG_VALID \<Longrightarrow> a \<notin> D \<Longrightarrow>
      unat (rm ! idx_of spp a) < tt_pgs spp \<and> unat (rm ! idx_of spp a) \<notin> X \<and>
      mapped_ppa (mt ! unat (rm ! idx_of spp a)) \<and> pa_of (mt ! unat (rm ! idx_of spp a)) = a"
  shows "map_ok spp st mt rm D X"
  using assms unfolding map_ok_def by blast

lemma tt_pgs_less:
  assumes "geometry spp"
  shows "tt_pgs spp < 2 ^ 64"
proof -
  note G = geometryD [OF assms]
  have "pgs_per_blk spp * blks_per_pl spp \<le> 65536 * 65536" by (rule mult_le_mono [OF G(8,6)])
  then have "pgs_per_blk spp * blks_per_pl spp * luns_per_ch spp \<le> 65536 * 65536 * 256"
    by (rule mult_le_mono [OF _ G(5)])
  then have "tt_pgs spp \<le> 65536 * 65536 * 256 * 256"
    unfolding G(16) by (rule mult_le_mono [OF _ G(3)])
  then show ?thesis by simp
qed

text \<open>An overwritten page: its old copy is no longer valid.\<close>

lemma map_ok_forget:
  assumes m: "map_ok spp st mt rm D {}" and l: "l < tt_pgs spp" "mapped_ppa (mt ! l)"
    and len: "idx_of spp (pa_of (mt ! l)) < length rm"
  shows "map_ok spp (st(pa_of (mt ! l) := PG_INVALID)) mt (rm[idx_of spp (pa_of (mt ! l)) := x]) D {l}"
proof (rule map_okI)
  let ?p = "pa_of (mt ! l)"
  note L = map_okD1 [OF m l(1) _ l(2), simplified]
  show "length mt = tt_pgs spp" "length (rm[idx_of spp ?p := x]) = tt_pgs spp"
    using map_ok_lengths [OF m] by simp_all
  {
    fix k assume k: "k < tt_pgs spp" "k \<notin> {l}" "mapped_ppa (mt ! k)"
    note K = map_okD1 [OF m k(1) _ k(3), simplified]
    have ne: "pa_of (mt ! k) \<noteq> ?p" using K(5) L(5) k(2) by auto
    then have "idx_of spp (pa_of (mt ! k)) \<noteq> idx_of spp ?p" using idx_of_inj [OF K(2) L(2)] by blast
    then show "g_pl (mt ! k) = 0 \<and> vpa spp (pa_of (mt ! k)) \<and>
        (st(?p := PG_INVALID)) (pa_of (mt ! k)) = PG_VALID \<and> pa_of (mt ! k) \<notin> D \<and>
        unat (rm[idx_of spp ?p := x] ! idx_of spp (pa_of (mt ! k))) = k"
      using K ne by simp
  }
  fix a assume a: "vpa spp a" "(st(?p := PG_INVALID)) a = PG_VALID" "a \<notin> D"
  then have ne: "a \<noteq> ?p" and st: "st a = PG_VALID" by (auto split: if_splits)
  note A = map_okD2 [OF m a(1) st a(3)]
  have "idx_of spp a \<noteq> idx_of spp ?p" using idx_of_inj [OF a(1) L(2)] ne by blast
  moreover have "unat (rm ! idx_of spp a) \<noteq> l" using A(4) ne by auto
  ultimately show "unat (rm[idx_of spp ?p := x] ! idx_of spp a) < tt_pgs spp \<and>
      unat (rm[idx_of spp ?p := x] ! idx_of spp a) \<notin> {l} \<and>
      mapped_ppa (mt ! unat (rm[idx_of spp ?p := x] ! idx_of spp a)) \<and>
      pa_of (mt ! unat (rm[idx_of spp ?p := x] ! idx_of spp a)) = a"
    using A by simp
qed

lemma map_ok_unmapped:
  assumes m: "map_ok spp st mt rm D {}" and l: "\<not> mapped_ppa (mt ! l)"
  shows "map_ok spp st mt rm D {l}"
  using m l unfolding map_ok_def by (auto; metis)

text \<open>A page about to be copied away.\<close>

lemma map_ok_copy:
  assumes m: "map_ok spp st mt rm D {}" and a: "vpa spp a" "st a = PG_VALID" "a \<notin> D"
  shows "map_ok spp st mt rm (insert a D) {unat (rm ! idx_of spp a)}"
proof (rule map_okI)
  let ?l = "unat (rm ! idx_of spp a)"
  note A = map_okD2 [OF m a]
  show "length mt = tt_pgs spp" "length rm = tt_pgs spp" using map_ok_lengths [OF m] by simp_all
  {
    fix k assume k: "k < tt_pgs spp" "k \<notin> {?l}" "mapped_ppa (mt ! k)"
    note K = map_okD1 [OF m k(1) _ k(3), simplified]
    have "pa_of (mt ! k) \<noteq> a" using K(5) k(2) by auto
    then show "g_pl (mt ! k) = 0 \<and> vpa spp (pa_of (mt ! k)) \<and> st (pa_of (mt ! k)) = PG_VALID \<and>
        pa_of (mt ! k) \<notin> insert a D \<and> unat (rm ! idx_of spp (pa_of (mt ! k))) = k"
      using K by simp
  }
  fix b assume b: "vpa spp b" "st b = PG_VALID" "b \<notin> insert a D"
  then have bD: "b \<notin> D" and ne: "b \<noteq> a" by auto
  note B = map_okD2 [OF m b(1,2) bD]
  have "unat (rm ! idx_of spp b) \<noteq> ?l" using A(4) B(4) ne by metis
  then show "unat (rm ! idx_of spp b) < tt_pgs spp \<and> unat (rm ! idx_of spp b) \<notin> {?l} \<and>
      mapped_ppa (mt ! unat (rm ! idx_of spp b)) \<and> pa_of (mt ! unat (rm ! idx_of spp b)) = b"
    using B by simp
qed

text \<open>The new copy is written and mapped.\<close>

lemma map_ok_program:
  assumes geo: "geometry spp" and m: "map_ok spp st mt rm D {l}" and l: "l < tt_pgs spp"
    and p: "vpa spp (pa_of p)" "g_pl p = 0" "mapped_ppa p"
    and st: "st (pa_of p) \<noteq> PG_VALID" and D: "pa_of p \<notin> D"
  shows "map_ok spp (st(pa_of p := PG_VALID)) (mt[l := p]) (rm[idx_of spp (pa_of p) := of_nat l]) D {}"
proof (rule map_okI)
  let ?p = "pa_of p"
  have lens: "length mt = tt_pgs spp" "length rm = tt_pgs spp" using map_ok_lengths [OF m] by simp_all
  have ix: "idx_of spp ?p < length rm" using idx_of_less [OF geo p(1)] lens by simp
  have ul: "unat (of_nat l :: u64) = l" using l tt_pgs_less [OF geo] by (intro unat_of_nat_small) simp
  show "length (mt[l := p]) = tt_pgs spp" "length (rm[idx_of spp ?p := of_nat l]) = tt_pgs spp"
    using lens by simp_all
  {
    fix k assume k: "k < tt_pgs spp" "k \<notin> {}" "mapped_ppa (mt[l := p] ! k)"
    show "g_pl (mt[l := p] ! k) = 0 \<and> vpa spp (pa_of (mt[l := p] ! k)) \<and>
        (st(?p := PG_VALID)) (pa_of (mt[l := p] ! k)) = PG_VALID \<and> pa_of (mt[l := p] ! k) \<notin> D \<and>
        unat (rm[idx_of spp ?p := of_nat l] ! idx_of spp (pa_of (mt[l := p] ! k))) = k"
    proof (cases "k = l")
      case True
      then show ?thesis using p D ix ul l lens by simp
    next
      case False
      then have mk: "mapped_ppa (mt ! k)" and kl: "k \<notin> {l}" using k(3) by simp_all
      note K = map_okD1 [OF m k(1) kl mk]
      have ne: "pa_of (mt ! k) \<noteq> ?p" using K(3) st by metis
      then have "idx_of spp (pa_of (mt ! k)) \<noteq> idx_of spp ?p" using idx_of_inj [OF K(2) p(1)] by blast
      then show ?thesis using K ne False by simp
    qed
  }
  fix a assume a: "vpa spp a" "(st(?p := PG_VALID)) a = PG_VALID" "a \<notin> D"
  show "unat (rm[idx_of spp ?p := of_nat l] ! idx_of spp a) < tt_pgs spp \<and>
      unat (rm[idx_of spp ?p := of_nat l] ! idx_of spp a) \<notin> {} \<and>
      mapped_ppa (mt[l := p] ! unat (rm[idx_of spp ?p := of_nat l] ! idx_of spp a)) \<and>
      pa_of (mt[l := p] ! unat (rm[idx_of spp ?p := of_nat l] ! idx_of spp a)) = a"
  proof (cases "a = ?p")
    case True
    then show ?thesis using ix ul l lens p(3) by simp
  next
    case False
    then have st': "st a = PG_VALID" using a(2) by simp
    note A = map_okD2 [OF m a(1) st' a(3)]
    have "idx_of spp a \<noteq> idx_of spp ?p" using idx_of_inj [OF a(1) p(1)] False by blast
    then show ?thesis using A by simp
  qed
qed

text \<open>Erased pages were copied away.\<close>

lemma map_ok_erase:
  assumes m: "map_ok spp st mt rm D {}" and E: "E \<subseteq> D"
  shows "map_ok spp (\<lambda>a. if a \<in> E then PG_FREE else st a) mt rm (D - E) {}"
proof (rule map_okI)
  show "length mt = tt_pgs spp" "length rm = tt_pgs spp" using map_ok_lengths [OF m] by simp_all
  {
    fix k assume k: "k < tt_pgs spp" "k \<notin> {}" "mapped_ppa (mt ! k)"
    note K = map_okD1 [OF m k]
    then show "g_pl (mt ! k) = 0 \<and> vpa spp (pa_of (mt ! k)) \<and>
        (if pa_of (mt ! k) \<in> E then PG_FREE else st (pa_of (mt ! k))) = PG_VALID \<and>
        pa_of (mt ! k) \<notin> D - E \<and> unat (rm ! idx_of spp (pa_of (mt ! k))) = k"
      using E by auto
  }
  fix a assume a: "vpa spp a" "(if a \<in> E then PG_FREE else st a) = PG_VALID" "a \<notin> D - E"
  then have "st a = PG_VALID" "a \<notin> D" by (auto split: if_splits)
  then show "unat (rm ! idx_of spp a) < tt_pgs spp \<and> unat (rm ! idx_of spp a) \<notin> {} \<and>
      mapped_ppa (mt ! unat (rm ! idx_of spp a)) \<and> pa_of (mt ! unat (rm ! idx_of spp a)) = a"
    using map_okD2 [OF m a(1)] by simp
qed

subsection \<open>Blocks\<close>

definition blocks_ok :: "ssdparams \<Rightarrow> (pa \<Rightarrow> pg_status) \<Rightarrow> (nat \<Rightarrow> nat \<Rightarrow> nat \<Rightarrow> int \<times> int) \<Rightarrow> bool" where
  "blocks_ok spp st bc \<longleftrightarrow> (\<forall>c l b. c < nchs spp \<and> l < luns_per_ch spp \<and> b < blks_per_pl spp \<longrightarrow>
     bc c l b = (int (npg st PG_VALID (bpages spp c l b)), int (npg st PG_INVALID (bpages spp c l b))))"

lemma blocks_upd:
  assumes ok: "blocks_ok spp st bc" and st: "\<And>x. x \<notin> bpages spp c l b \<Longrightarrow> st' x = st x"
    and v: "v = (int (npg st' PG_VALID (bpages spp c l b)), int (npg st' PG_INVALID (bpages spp c l b)))"
  shows "blocks_ok spp st' (\<lambda>c' l' b'. if c' = c \<and> l' = l \<and> b' = b then v else bc c' l' b')"
  unfolding blocks_ok_def
proof (intro allI impI)
  fix c' l' b' assume r: "c' < nchs spp \<and> l' < luns_per_ch spp \<and> b' < blks_per_pl spp"
  have "npg st' s (bpages spp c' l' b') = npg st s (bpages spp c' l' b')" if "\<not> (c' = c \<and> l' = l \<and> b' = b)" for s
    using that st by (intro npg_cong) (auto simp: bpages_def)
  then show "(if c' = c \<and> l' = l \<and> b' = b then v else bc c' l' b') =
      (int (npg st' PG_VALID (bpages spp c' l' b')), int (npg st' PG_INVALID (bpages spp c' l' b')))"
    using ok r v by (auto simp: blocks_ok_def)
qed

subsection \<open>The invariant\<close>

definition ftl_ok :: "nat set \<Rightarrow> pa set \<Rightarrow> nat list \<Rightarrow> (nat \<times> nat) list \<Rightarrow> conv_ftl \<Rightarrow> bool" where
  "ftl_ok X D V ws ftl \<longleftrightarrow> ssd_ok (cf_ssd ftl) \<and> length (page_meta_tbl ftl) = tt_pgs (spp_of ftl) \<and>
     map_ok (spp_of ftl) (pst (cf_ssd ftl)) (maptbl ftl) (rmap ftl) D X \<and>
     blocks_ok (spp_of ftl) (pst (cf_ssd ftl)) (bcnt (cf_ssd ftl)) \<and>
     lines_ok (spp_of ftl) (pst (cf_ssd ftl)) (lm ftl) ws V"

text \<open>The write pointers, and the fills of their lines.\<close>

definition fill :: "ssdparams \<Rightarrow> write_pointer \<Rightarrow> nat \<times> nat" where
  "fill spp w = (curline w, wp_idx spp w)"

definition fills :: "conv_ftl \<Rightarrow> (nat \<times> nat) list" where
  "fills ftl = map (fill (spp_of ftl)) [wp ftl, gc_wp_hot ftl, gc_wp_cold ftl]"

definition wps_ok :: "conv_ftl \<Rightarrow> bool" where
  "wps_ok ftl \<longleftrightarrow> (\<forall>w \<in> {wp ftl, gc_wp_hot ftl, gc_wp_cold ftl}. wp_wf (spp_of ftl) w)"

definition ftl_inv :: "conv_ftl \<Rightarrow> bool" where
  "ftl_inv ftl \<longleftrightarrow> ftl_ok {} {} [] (fills ftl) ftl \<and> wps_ok ftl"

lemma ftl_ok_geometry: "ftl_ok X D V ws ftl \<Longrightarrow> geometry (spp_of ftl)"
  by (simp add: ftl_ok_def ssd_ok_geometry)

lemma ftl_ok_perm: "ftl_ok X D V ws ftl \<Longrightarrow> mset ws' = mset ws \<Longrightarrow> ftl_ok X D V ws' ftl"
  unfolding ftl_ok_def using lines_ok_perm by blast

text \<open>The pointers of the three kinds of write.\<close>

definition io_types :: "nat set" where
  "io_types = {USER_IO, GC_IO_HOT, GC_IO_COLD}"

definition the_wp :: "conv_ftl \<Rightarrow> nat \<Rightarrow> write_pointer" where
  "the_wp ftl io = (if io = USER_IO then wp ftl else if io = GC_IO_HOT then gc_wp_hot ftl else gc_wp_cold ftl)"

definition other_wps :: "conv_ftl \<Rightarrow> nat \<Rightarrow> write_pointer list" where
  "other_wps ftl io = (if io = USER_IO then [gc_wp_hot ftl, gc_wp_cold ftl]
     else if io = GC_IO_HOT then [wp ftl, gc_wp_cold ftl] else [wp ftl, gc_wp_hot ftl])"

lemma get_wp_io: "io \<in> io_types \<Longrightarrow> get_wp ftl io = Some (the_wp ftl io)"
  by (auto simp: io_types_def get_wp_def the_wp_def)

lemma fills_io:
  "mset (fills ftl) = mset (fill (spp_of ftl) (the_wp ftl io) # map (fill (spp_of ftl)) (other_wps ftl io))"
  by (simp add: fills_def the_wp_def other_wps_def)

lemma the_wp_set_wp [simp]:
  "io \<in> io_types \<Longrightarrow> the_wp (set_wp ftl io w) io = w"
  "other_wps (set_wp ftl io w) io = other_wps ftl io"
  "other_wps (ftl\<lparr>lm := m\<rparr>) io = other_wps ftl io"
  by (auto simp: io_types_def the_wp_def set_wp_def other_wps_def cdefs)

lemma set_wp_fields [simp]:
  "cf_ssd (set_wp ftl io w) = cf_ssd ftl" "maptbl (set_wp ftl io w) = maptbl ftl"
  "rmap (set_wp ftl io w) = rmap ftl" "lm (set_wp ftl io w) = lm ftl"
  "page_meta_tbl (set_wp ftl io w) = page_meta_tbl ftl" "cp (set_wp ftl io w) = cp ftl"
  "wfc (set_wp ftl io w) = wfc ftl" "rl (set_wp ftl io w) = rl ftl"
  by (simp_all add: set_wp_def)

lemma wps_ok_io: "wps_ok ftl \<longleftrightarrow> wp_wf (spp_of ftl) (the_wp ftl io) \<and>
    (\<forall>w \<in> set (other_wps ftl io). wp_wf (spp_of ftl) w)"
  by (auto simp: wps_ok_def the_wp_def other_wps_def)

end
