(* ===== verification/Ftl_Pages.thy ===== *)
theory Ftl_Pages
  imports Ftl_Inv
begin

text \<open>
  The page operations of \<open>conv_ftl.c\<close> keep the invariant: invalidating the old copy of a logical
  page, mapping and programming a new one, and advancing a write pointer. They return under the
  invariant; only opening a new line needs a free one.
\<close>

subsection \<open>Invalidating\<close>

lemma mark_page_invalid_spec:
  assumes ok: "ftl_ok X D [] ws ftl" and open_w: "\<forall>w \<in> set ws. snd w < pgs_per_line (spp_of ftl)"
    and p: "on_chip (cf_ssd ftl) p" "pst (cf_ssd ftl) (pa_of p) = PG_VALID" and dv: "cm_wf (pcie dv)"
  shows "\<exists>ssd m dv'. mark_page_invalid ftl dv p = Some (ftl\<lparr>cf_ssd := ssd, lm := m\<rparr>, dv') \<and>
    dev_timed dv dv' \<and> ssd_ok ssd \<and> sp ssd = spp_of ftl \<and>
    pst ssd = (pst (cf_ssd ftl))(pa_of p := PG_INVALID) \<and>
    blocks_ok (spp_of ftl) (pst ssd) (bcnt ssd) \<and> lines_ok (spp_of ftl) (pst ssd) m ws [] \<and>
    free_line_list m = free_line_list (lm ftl)"
proof -
  let ?ssd = "cf_ssd ftl" and ?spp = "spp_of ftl"
  obtain c l b g where a: "pa_of p = (c, l, b, g)" by (cases "pa_of p")
  have r: "c < nchs ?spp" "l < luns_per_ch ?spp" "b < blks_per_pl ?spp" "g < pgs_per_blk ?spp"
    using p(1) a by auto
  have ok1: "ssd_ok ?ssd" and blk: "blocks_ok ?spp (pst ?ssd) (bcnt ?ssd)"
    and ln: "lines_ok ?spp (pst ?ssd) (lm ftl) ws []"
    using ok by (simp_all add: ftl_ok_def)
  note geo = ssd_ok_geometry [OF ok1]
  have ib: "unat (g_blk p) = b" using a by (simp add: pa_of_def)
  obtain pg where pg: "get_pg ?ssd p = Some pg" "pg_status pg = PG_VALID"
    using get_pg_status [OF ok1 p(1)] p(2) by auto
  obtain s1 where s1: "upd_pg ?ssd p (\<lambda>g. Some (g\<lparr>pg_status := PG_INVALID\<rparr>)) = Some s1" "ssd_ok s1"
      "sp s1 = ?spp" "pst s1 = (pst ?ssd)(pa_of p := PG_INVALID)" "bcnt s1 = bcnt ?ssd"
    using upd_pg_spec [OF ok1 p(1)] by blast
  have on1: "on_chip s1 p" using p(1) s1(3) by simp
  let ?dec = "\<lambda>(v, n). (v - 1 :: int, n + 1 :: int)"
  obtain s2 where s2: "upd_blk s1 p (\<lambda>b. Some (b\<lparr>blk_ipc := blk_ipc b + 1, blk_vpc := blk_vpc b - 1\<rparr>)) = Some s2"
      "ssd_ok s2" "sp s2 = sp s1" "pst s2 = pst s1"
      "bcnt s2 = (\<lambda>c' l' b'. if c' = c \<and> l' = l \<and> b' = b then ?dec (bcnt s1 c l b) else bcnt s1 c' l' b')"
    using upd_cnt_spec [OF s1(2) on1 a, where h = ?dec
        and f = "\<lambda>b. Some (b\<lparr>blk_ipc := blk_ipc b + 1, blk_vpc := blk_vpc b - 1\<rparr>)"] by auto
  have st': "pst s2 = (pst ?ssd)((c, l, b, g) := PG_INVALID)" using s1(4) s2(4) a by simp
  have stv: "pst ?ssd (c, l, b, g) = PG_VALID" using p(2) a by simp
  have mem: "(c, l, b, g) \<in> bpages ?spp c l b" "(c, l, b, g) \<in> lpages ?spp b" using r by simp_all
  have "npg (pst ?ssd) PG_VALID (bpages ?spp c l b) = npg (pst s2) PG_VALID (bpages ?spp c l b) + 1"
    unfolding st' using mem(1) stv by (intro npg_upd_lose) auto
  moreover have "npg (pst s2) PG_INVALID (bpages ?spp c l b) = npg (pst ?ssd) PG_INVALID (bpages ?spp c l b) + 1"
    unfolding st' using mem(1) stv by (intro npg_upd_gain) auto
  moreover have "bcnt ?ssd c l b = (int (npg (pst ?ssd) PG_VALID (bpages ?spp c l b)),
      int (npg (pst ?ssd) PG_INVALID (bpages ?spp c l b)))"
    using blk r unfolding blocks_ok_def by blast
  ultimately have "blocks_ok ?spp (pst s2) (bcnt s2)"
    unfolding s2(5) s1(5) by (intro blocks_upd [OF blk]) (use st' mem(1) in auto)
  moreover
  have bl: "b < tt_lines ?spp" using r(3) geometryD(19) [OF geo] by simp
  have len: "length (lines (lm ftl)) = tt_lines ?spp" by (rule lines_ok_bounds(1) [OF ln])
  obtain m1 m2 m3 where m: "upd_line b line_ipc_incr (lm ftl) = Some m1" "line_vpc_decr m1 b = Some m2"
      "(if line_vpc (lines (lm ftl) ! b) = int (pgs_per_line ?spp) then full_to_victim m2 b else Some m2) = Some m3"
      "b < length (lines m3)" "free_line_list m3 = free_line_list (lm ftl)"
      "\<And>now. lines_ok ?spp ((pst ?ssd)((c, l, b, g) := PG_INVALID))
        (m3\<lparr>lines := (lines m3)[b := (lines m3 ! b)\<lparr>last_modified_time := now\<rparr>]\<rparr>) ws []"
    using lines_invalidate [OF geo ln open_w mem(2) bl stv] by blast
  obtain now dv' where t: "read_clock dv = (now, dv')" by (cases "read_clock dv")
  let ?m = "m3\<lparr>lines := (lines m3)[b := (lines m3 ! b)\<lparr>last_modified_time := now\<rparr>]\<rparr>"
  have "mark_page_invalid ftl dv p = Some (ftl\<lparr>cf_ssd := s2, lm := ?m\<rparr>, dv')"
    using pg s1(1) s2(1) m(1-4) t len bl
    by (simp add: mark_page_invalid_def ib Let_def split del: if_split)
  moreover have "lines_ok ?spp (pst s2) ?m ws []" using m(6) [of now] st' by simp
  moreover have "dev_timed dv dv'" by (rule read_clock_timed [OF dv t])
  ultimately show ?thesis using s2(2,3,4) s1(3,4) m(5) by (intro exI [of _ s2] exI [of _ ?m] exI [of _ dv']) simp
qed

text \<open>The mapping of a logical page, as an address.\<close>

definition lookup :: "conv_ftl \<Rightarrow> nat \<Rightarrow> pa option" where
  "lookup ftl l = (if mapped_ppa (maptbl ftl ! l) then Some (pa_of (maptbl ftl ! l)) else None)"

lemma invalidate_old_spec:
  fixes lpn :: u64
  assumes ok: "ftl_ok {} {} [] ws ftl" and open_w: "\<forall>w \<in> set ws. snd w < pgs_per_line (spp_of ftl)"
    and l: "unat lpn < tt_pgs (spp_of ftl)" and dv: "cm_wf (pcie dv)"
  shows "\<exists>ssd m rm dv'. invalidate_old ftl dv lpn = Some (ftl\<lparr>cf_ssd := ssd, lm := m, rmap := rm\<rparr>, dv') \<and>
    dev_timed dv dv' \<and> ftl_ok {unat lpn} {} [] ws (ftl\<lparr>cf_ssd := ssd, lm := m, rmap := rm\<rparr>) \<and>
    sp ssd = spp_of ftl \<and> free_line_list m = free_line_list (lm ftl)"
proof -
  let ?l = "unat lpn" and ?spp = "spp_of ftl"
  have mp: "map_ok ?spp (pst (cf_ssd ftl)) (maptbl ftl) (rmap ftl) {} {}" using ok by (simp add: ftl_ok_def)
  note lens = map_ok_lengths [OF mp]
  have get: "get_maptbl_ent ftl lpn = Some (maptbl ftl ! ?l)" using l lens by (simp add: get_maptbl_ent_def)
  show ?thesis
  proof (cases "mapped_ppa (maptbl ftl ! ?l)")
    case False
    then have "map_ok ?spp (pst (cf_ssd ftl)) (maptbl ftl) (rmap ftl) {} {?l}" by (rule map_ok_unmapped [OF mp])
    moreover have "invalidate_old ftl dv lpn = Some (ftl, dv)"
      using get False by (simp add: invalidate_old_def)
    ultimately show ?thesis
      using ok dev_timed_refl [OF dv]
      by (intro exI [of _ "cf_ssd ftl"] exI [of _ "lm ftl"] exI [of _ "rmap ftl"] exI [of _ dv])
        (simp add: ftl_ok_def)
  next
    case True
    let ?p = "maptbl ftl ! ?l"
    note P = map_okD1 [OF mp l _ True, simplified]
    have on: "on_chip (cf_ssd ftl) ?p" using P by simp
    obtain ssd m dv' where inv: "mark_page_invalid ftl dv ?p = Some (ftl\<lparr>cf_ssd := ssd, lm := m\<rparr>, dv')"
        "dev_timed dv dv'" "ssd_ok ssd" "sp ssd = ?spp" "pst ssd = (pst (cf_ssd ftl))(pa_of ?p := PG_INVALID)"
        "blocks_ok ?spp (pst ssd) (bcnt ssd)" "lines_ok ?spp (pst ssd) m ws []"
        "free_line_list m = free_line_list (lm ftl)"
      using mark_page_invalid_spec [OF ok open_w on P(3) dv] by blast
    let ?f = "ftl\<lparr>cf_ssd := ssd, lm := m\<rparr>"
    have geo: "geometry (spp_of ?f)" using inv(3) ssd_ok_geometry by simp
    have ix: "idx_of ?spp (pa_of ?p) < length (rmap ftl)"
      using idx_of_less [of ?spp] geo P(2) lens inv(4) by simp
    have "ppa2pgidx ?f ?p = Some (idx_of ?spp (pa_of ?p))"
      using ppa2pgidx_eq [OF geo] P(1,2) inv(4) by simp
    then have "set_rmap_ent ?f INVALID_LPN ?p = Some (?f\<lparr>rmap := (rmap ftl)[idx_of ?spp (pa_of ?p) := INVALID_LPN]\<rparr>)"
      using ix by (simp add: set_rmap_ent_def)
    then have "invalidate_old ftl dv lpn =
        Some (?f\<lparr>rmap := (rmap ftl)[idx_of ?spp (pa_of ?p) := INVALID_LPN]\<rparr>, dv')"
      using get True inv(1) by (simp add: invalidate_old_def)
    moreover have "map_ok ?spp (pst ssd) (maptbl ftl) ((rmap ftl)[idx_of ?spp (pa_of ?p) := INVALID_LPN]) {} {?l}"
      unfolding inv(5) by (rule map_ok_forget [OF mp l True ix])
    ultimately show ?thesis
      using inv ok by (intro exI [of _ ssd] exI [of _ m] exI exI [of _ dv'])
        (auto simp: ftl_ok_def)
  qed
qed

subsection \<open>Mapping and programming\<close>

lemma get_new_page_spec:
  assumes io: "io \<in> io_types" and geo: "geometry (spp_of ftl)" and w: "wp_wf (spp_of ftl) (the_wp ftl io)"
  shows "get_new_page ftl io = Some (ppa_of (wp_at (the_wp ftl io)))"
    "pa_of (ppa_of (wp_at (the_wp ftl io))) = wp_at (the_wp ftl io)"
    "vpa (spp_of ftl) (wp_at (the_wp ftl io))"
proof -
  let ?w = "the_wp ftl io"
  show v: "vpa (spp_of ftl) (wp_at ?w)" using w by (simp add: wp_at_def wp_wf_def)
  show "get_new_page ftl io = Some (ppa_of (wp_at ?w))"
    using w by (simp add: get_new_page_def get_wp_io [OF io] ppa_of_def wp_at_def wp_wf_def)
  show "pa_of (ppa_of (wp_at ?w)) = wp_at ?w" by (rule pa_of_ppa_of [OF geo v])
qed

lemma bit_ppa_word_rsv: "bit (ppa_word p) 63 \<longleftrightarrow> bit (g_rsv p) 7"
  by (auto simp: ppa_word_def bit_simps dest: bit_imp_le_length)

lemma ppa_of_mapped:
  assumes "geometry spp" "vpa spp a"
  shows "mapped_ppa (ppa_of a)"
proof -
  have "g_rsv (ppa_of a) = 0" by (rule pa_of_ppa_of [OF assms])
  then have "\<not> bit (ppa_word (ppa_of a)) 63" by (simp add: bit_ppa_word_rsv)
  then show ?thesis by (auto simp: mapped_ppa_def UNMAPPED_PPA_def)
qed

text \<open>A page at a line's next position gets mapped and programmed.\<close>

lemma program_page_spec:
  assumes ok: "ftl_ok {unat lpn} D V ((c, n) # ws) ftl" and l: "unat lpn < tt_pgs (spp_of ftl)"
    and a: "a \<in> lpages (spp_of ftl) c" "pidx_of (spp_of ftl) a = n" "a \<notin> D"
  shows "\<exists>ssd m. let p = ppa_of a; mt = (maptbl ftl)[unat lpn := p];
      rm = (rmap ftl)[idx_of (spp_of ftl) a := lpn] in
    set_maptbl_ent ftl lpn p = Some (ftl\<lparr>maptbl := mt\<rparr>) \<and>
    set_rmap_ent (ftl\<lparr>maptbl := mt\<rparr>) lpn p = Some (ftl\<lparr>maptbl := mt, rmap := rm\<rparr>) \<and>
    mark_page_valid (ftl\<lparr>maptbl := mt, rmap := rm\<rparr>) p =
      Some (ftl\<lparr>maptbl := mt, rmap := rm, cf_ssd := ssd, lm := m\<rparr>) \<and>
    ftl_ok {} D V ((c, n + 1) # ws) (ftl\<lparr>maptbl := mt, rmap := rm, cf_ssd := ssd, lm := m\<rparr>) \<and>
    sp ssd = spp_of ftl \<and> free_line_list m = free_line_list (lm ftl) \<and>
    pst ssd = (pst (cf_ssd ftl))(a := PG_VALID) \<and> pst (cf_ssd ftl) a = PG_FREE"
proof -
  let ?ssd = "cf_ssd ftl" and ?spp = "spp_of ftl" and ?p = "ppa_of a"
  let ?mt = "(maptbl ftl)[unat lpn := ?p]" and ?rm = "(rmap ftl)[idx_of ?spp a := lpn]"
  have ok1: "ssd_ok ?ssd" and mp: "map_ok ?spp (pst ?ssd) (maptbl ftl) (rmap ftl) D {unat lpn}"
    and blk: "blocks_ok ?spp (pst ?ssd) (bcnt ?ssd)"
    and ln: "lines_ok ?spp (pst ?ssd) (lm ftl) ((c, n) # ws) V"
    using ok by (simp_all add: ftl_ok_def)
  note geo = ssd_ok_geometry [OF ok1]
  have cl: "c < blks_per_pl ?spp"
    using lines_ok_bounds(3) [OF ln, of c] geometryD(19) [OF geo] by (simp add: places_def)
  obtain ch lu g where ae: "a = (ch, lu, c, g)" using a(1) by (cases a) auto
  have v: "vpa ?spp a" using a(1) cl by (simp add: ae)
  note pa = pa_of_ppa_of [OF geo v]
  note lens = map_ok_lengths [OF mp]
  note pr = lines_program [OF geo ln a(1,2)]
  have ix: "idx_of ?spp a < length (rmap ftl)" using idx_of_less [OF geo v] lens by simp
  have 1: "set_maptbl_ent ftl lpn ?p = Some (ftl\<lparr>maptbl := ?mt\<rparr>)"
    using l lens by (simp add: set_maptbl_ent_def)
  have "ppa2pgidx (ftl\<lparr>maptbl := ?mt\<rparr>) ?p = Some (idx_of ?spp a)"
    using ppa2pgidx_eq [of "ftl\<lparr>maptbl := ?mt\<rparr>" ?p] geo v pa by simp
  then have 2: "set_rmap_ent (ftl\<lparr>maptbl := ?mt\<rparr>) lpn ?p = Some (ftl\<lparr>maptbl := ?mt, rmap := ?rm\<rparr>)"
    using ix by (simp add: set_rmap_ent_def)
  have on: "on_chip ?ssd ?p" using v pa by simp
  obtain pg where pg: "get_pg ?ssd ?p = Some pg" "pg_status pg = PG_FREE"
    using get_pg_status [OF ok1 on] pr(2) pa(1) by auto
  obtain s1 where s1: "upd_pg ?ssd ?p (\<lambda>g. Some (g\<lparr>pg_status := PG_VALID\<rparr>)) = Some s1" "ssd_ok s1"
      "sp s1 = ?spp" "pst s1 = (pst ?ssd)(a := PG_VALID)" "bcnt s1 = bcnt ?ssd"
    using upd_pg_spec [OF ok1 on] pa(1) by metis
  have on1: "on_chip s1 ?p" using on s1(3) by simp
  have pae: "pa_of ?p = (ch, lu, c, g)" using pa(1) ae by simp
  let ?inc = "\<lambda>(v, n). (v + 1 :: int, n :: int)"
  obtain s2 where s2: "upd_blk s1 ?p (\<lambda>b. Some (b\<lparr>blk_vpc := blk_vpc b + 1\<rparr>)) = Some s2"
      "ssd_ok s2" "sp s2 = sp s1" "pst s2 = pst s1"
      "bcnt s2 = (\<lambda>c' l' b'. if c' = ch \<and> l' = lu \<and> b' = c then ?inc (bcnt s1 ch lu c) else bcnt s1 c' l' b')"
    using upd_cnt_spec [OF s1(2) on1 pae, where h = ?inc
        and f = "\<lambda>b. Some (b\<lparr>blk_vpc := blk_vpc b + 1\<rparr>)"] by auto
  have st': "pst s2 = (pst ?ssd)(a := PG_VALID)" using s1(4) s2(4) by simp
  have r: "ch < nchs ?spp" "lu < luns_per_ch ?spp" "g < pgs_per_blk ?spp" using v by (simp_all add: ae)
  have mem: "a \<in> bpages ?spp ch lu c" using r by (simp add: ae)
  have "npg (pst s2) PG_VALID (bpages ?spp ch lu c) = npg (pst ?ssd) PG_VALID (bpages ?spp ch lu c) + 1"
    unfolding st' using mem pr(2) by (intro npg_upd_gain) auto
  moreover have "npg (pst s2) PG_INVALID (bpages ?spp ch lu c) = npg (pst ?ssd) PG_INVALID (bpages ?spp ch lu c)"
    unfolding st' using pr(2) by (intro npg_upd_other) auto
  moreover have "bcnt ?ssd ch lu c = (int (npg (pst ?ssd) PG_VALID (bpages ?spp ch lu c)),
      int (npg (pst ?ssd) PG_INVALID (bpages ?spp ch lu c)))"
    using blk r cl unfolding blocks_ok_def by blast
  ultimately have blk': "blocks_ok ?spp (pst s2) (bcnt s2)"
    unfolding s2(5) s1(5) by (intro blocks_upd [OF blk]) (use st' mem in auto)
  let ?m = "(lm ftl)\<lparr>lines := (lines (lm ftl))[c := (lines (lm ftl) ! c)\<lparr>line_vpc := line_vpc (lines (lm ftl) ! c) + 1\<rparr>]\<rparr>"
  have "unat (g_blk ?p) = c" using pae by (simp add: pa_of_def)
  then have 3: "mark_page_valid (ftl\<lparr>maptbl := ?mt, rmap := ?rm\<rparr>) ?p =
      Some (ftl\<lparr>maptbl := ?mt, rmap := ?rm, cf_ssd := s2, lm := ?m\<rparr>)"
    using pg s1(1) s2(1) pr(1) by (simp add: mark_page_valid_def)
  have "map_ok ?spp ((pst ?ssd)(pa_of ?p := PG_VALID)) ?mt ((rmap ftl)[idx_of ?spp (pa_of ?p) := of_nat (unat lpn)]) D {}"
    using map_ok_program [OF geo mp l, of ?p] v pa ppa_of_mapped [OF geo v] pr(2) a(3) by simp
  then have "map_ok ?spp (pst s2) ?mt ?rm D {}" using pa(1) st' by simp
  then have "ftl_ok {} D V ((c, n + 1) # ws) (ftl\<lparr>maptbl := ?mt, rmap := ?rm, cf_ssd := s2, lm := ?m\<rparr>)"
    using ok s2(2,3) s1(3) blk' pr(3) st' by (simp add: ftl_ok_def)
  then show ?thesis
    using 1 2 3 s2(3) s1(3) st' pr(2) unfolding Let_def by (intro exI [of _ s2] exI [of _ ?m]) simp
qed

subsection \<open>Advancing a write pointer\<close>

lemma advance_spec:
  assumes io: "io \<in> io_types" and geo: "geometry (spp_of ftl)"
    and w: "w = the_wp ftl io" "wp_wf (spp_of ftl) w"
    and ln: "lines_ok (spp_of ftl) st (lm ftl) ((curline w, wp_idx (spp_of ftl) w + 1) # ws) V"
  shows "returns (wp_idx (spp_of ftl) w + 1 < pgs_per_line (spp_of ftl) \<or> free_line_list (lm ftl) \<noteq> [])
    (advance_write_pointer ftl io)
    (\<lambda>ftl'. \<exists>m w'. ftl' = set_wp (ftl\<lparr>lm := m\<rparr>) io w' \<and> wp_wf (spp_of ftl) w' \<and>
       lines_ok (spp_of ftl) st m (fill (spp_of ftl) w' # ws) V \<and>
       (wp_idx (spp_of ftl) w' = wp_idx (spp_of ftl) w + 1 \<and>
          length (free_line_list m) = length (free_line_list (lm ftl)) \<or>
        wp_idx (spp_of ftl) w + 1 = pgs_per_line (spp_of ftl) \<and> wp_idx (spp_of ftl) w' = 0 \<and>
          Suc (length (free_line_list m)) = length (free_line_list (lm ftl))))"
proof -
  let ?spp = "spp_of ftl"
  obtain r where r: "wp_step ?spp w = Some r" "wp_next ?spp w r" using wp_step_next [OF geo w(2)] by blast
  have get: "get_wp ftl io = Some w" using get_wp_io [OF io] w(1) by simp
  show ?thesis
  proof (cases r)
    case (Inl w')
    have adv: "advance_write_pointer ftl io = Some (set_wp ftl io w')"
      using get r(1) Inl by (simp add: advance_write_pointer_def)
    have "set_wp ftl io w' = set_wp (ftl\<lparr>lm := lm ftl\<rparr>) io w'" by simp
    moreover have "wp_wf ?spp w'" "wp_idx ?spp w' = wp_idx ?spp w + 1"
      "fill ?spp w' = (curline w, wp_idx ?spp w + 1)"
      using r(2) Inl by (simp_all add: wp_next_def fill_def)
    ultimately show ?thesis
      using ln unfolding adv returns_Some by (intro exI [of _ "lm ftl"] exI [of _ w']) simp
  next
    case (Inr w')
    have last: "wp_idx ?spp w + 1 = pgs_per_line ?spp"
      and w': "w' = w\<lparr>wp_ch := 0, wp_lun := 0, wp_pg := 0\<rparr>"
      using r(2) Inr by (simp_all add: wp_next_def)
    obtain m1 where m1: "close_line ?spp (lm ftl) (curline w) = Some m1" "lines_ok ?spp st m1 ws V"
        "free_line_list m1 = free_line_list (lm ftl)"
      using lines_close [OF geo ln [unfolded last]] by blast
    have cl: "wp_blk w < blks_per_pl ?spp" using w(2) by (simp add: wp_wf_def)
    show ?thesis
    proof (cases "free_line_list m1")
      case Nil
      then have "get_next_free_line m1 = (m1, None)" by (simp add: get_next_free_line_def)
      then have "advance_write_pointer ftl io = None"
        using get r(1) Inr m1(1) w' cl by (simp add: advance_write_pointer_def check_addr_def)
      then show ?thesis using last Nil m1(3) by simp
    next
      case (Cons c rest)
      note op = lines_open [OF m1(2) Cons]
      let ?m = "m1\<lparr>free_line_list := rest, free_line_cnt := free_line_cnt m1 - 1\<rparr>"
      let ?w = "w'\<lparr>curline := c, wp_blk := c\<rparr>"
      have len: "length (lines ?m) = tt_lines ?spp" by (rule lines_ok_bounds(1) [OF op(2)])
      have "get_line_at ?m c = Some (lines m1 ! c)" using len op(4) by (simp add: get_line_at_def)
      moreover have cb: "c < blks_per_pl ?spp" using op(4) geometryD(19) [OF geo] by simp
      moreover have pl: "wp_pl w = 0" using w(2) by (simp add: wp_wf_def)
      ultimately have adv: "advance_write_pointer ftl io = Some (set_wp (ftl\<lparr>lm := ?m\<rparr>) io ?w)"
        using get r(1) Inr m1(1) w' cl op(1,3) by (simp add: advance_write_pointer_def check_addr_def)
      have "wp_wf ?spp ?w" using w' cb pl geometryD(2,4,7) [OF geo] by (simp add: wp_wf_def)
      moreover have idx: "wp_idx ?spp ?w = 0" using w' by (simp add: wp_idx_def pidx_def)
      then have "fill ?spp ?w = (c, 0)" by (simp add: fill_def)
      moreover have "Suc (length rest) = length (free_line_list (lm ftl))"
        using Cons m1(3) by (metis length_Cons)
      ultimately show ?thesis
        using op(2) last idx
        unfolding adv returns_Some by (intro exI [of _ ?m] exI [of _ ?w]) simp
    qed
  qed
qed

end
