(* ===== verification/Ftl_Gc.thy ===== *)
theory Ftl_Gc
  imports Ftl_Pages
begin

text \<open>
  One garbage collection keeps the invariant and loses no data: every logical page that was mapped
  stays mapped, pages outside the victim line keep their address, and the victim line ends up
  erased on the free list. With two free lines at its start it returns.
\<close>

subsection \<open>Frames\<close>

lemma ftl_ok_view:
  assumes "same_view (cf_ssd ftl) ssd"
  shows "ftl_ok X D V ws (ftl\<lparr>cf_ssd := ssd\<rparr>) \<longleftrightarrow> ssd_ok ssd \<and> ftl_ok X D V ws (ftl\<lparr>cf_ssd := ssd\<rparr>)"
    "ftl_ok X D V ws ftl \<Longrightarrow> ftl_ok X D V ws (ftl\<lparr>cf_ssd := ssd\<rparr>)"
    "fills (ftl\<lparr>cf_ssd := ssd\<rparr>) = fills ftl" "wps_ok (ftl\<lparr>cf_ssd := ssd\<rparr>) = wps_ok ftl"
  using assms by (auto simp: same_view_def ftl_ok_def fills_def wps_ok_def)

lemma ftl_ok_cong:
  assumes "cf_ssd ftl' = cf_ssd ftl" "maptbl ftl' = maptbl ftl" "rmap ftl' = rmap ftl"
    "lm ftl' = lm ftl" "page_meta_tbl ftl' = page_meta_tbl ftl"
  shows "ftl_ok X D V ws ftl' = ftl_ok X D V ws ftl"
  using assms by (simp add: ftl_ok_def)

lemma fills_cong:
  assumes "sp (cf_ssd ftl') = spp_of ftl" "wp ftl' = wp ftl" "gc_wp_hot ftl' = gc_wp_hot ftl"
    "gc_wp_cold ftl' = gc_wp_cold ftl"
  shows "fills ftl' = fills ftl" "wps_ok ftl' = wps_ok ftl"
  using assms by (simp_all add: fills_def wps_ok_def)

text \<open>What a collection does not touch.\<close>

definition gc_frame :: "conv_ftl \<Rightarrow> conv_ftl \<Rightarrow> bool" where
  "gc_frame ftl ftl' \<longleftrightarrow> spp_of ftl' = spp_of ftl \<and> cp ftl' = cp ftl \<and> wp ftl' = wp ftl \<and>
     page_meta_tbl ftl' = page_meta_tbl ftl \<and> rl ftl' = rl ftl \<and> wfc ftl' = wfc ftl \<and> wgs ftl' = wgs ftl \<and>
     gc_count ftl' = gc_count ftl \<and> host_written_pages ftl' = host_written_pages ftl"

text \<open>
  The mapping after some pages of line \<open>v\<close> were moved: the same logical pages are mapped, and
  those outside the line keep their place.
\<close>

definition moved :: "nat \<Rightarrow> conv_ftl \<Rightarrow> conv_ftl \<Rightarrow> bool" where
  "moved v ftl ftl' \<longleftrightarrow> (\<forall>l < tt_pgs (spp_of ftl).
     (mapped_ppa (maptbl ftl' ! l) \<longleftrightarrow> mapped_ppa (maptbl ftl ! l)) \<and>
     (mapped_ppa (maptbl ftl ! l) \<and> pa_of (maptbl ftl ! l) \<notin> lpages (spp_of ftl) v \<longrightarrow>
        maptbl ftl' ! l = maptbl ftl ! l))"

lemma moved_refl: "maptbl ftl' = maptbl ftl \<Longrightarrow> moved v ftl ftl'"
  by (simp add: moved_def)

lemma moved_trans:
  assumes "moved v a b" "moved v b c" "spp_of b = spp_of a"
  shows "moved v a c"
  using assms unfolding moved_def by metis

lemma gc_frame_refl: "gc_frame a a"
  by (simp add: gc_frame_def)

lemma gc_frame_trans: "gc_frame a b \<Longrightarrow> gc_frame b c \<Longrightarrow> gc_frame a c"
  by (simp add: gc_frame_def)

text \<open>
  The budget of the two collection pointers: each page they take raises it by one, whether they
  open a new line or not.
\<close>

definition gpot :: "conv_ftl \<Rightarrow> int" where
  "gpot ftl = int (wp_idx (spp_of ftl) (gc_wp_hot ftl)) + int (wp_idx (spp_of ftl) (gc_wp_cold ftl))
     - int (pgs_per_line (spp_of ftl)) * int (length (free_line_list (lm ftl)))"

lemma gpot_bound:
  assumes "geometry (spp_of ftl)" "wps_ok ftl" "2 \<le> length (free_line_list (lm ftl))"
  shows "gpot ftl \<le> - 2"
proof -
  let ?n = "pgs_per_line (spp_of ftl)"
  have "wp_idx (spp_of ftl) (gc_wp_hot ftl) < ?n" "wp_idx (spp_of ftl) (gc_wp_cold ftl) < ?n"
    using assms(2) wp_idx_less [OF assms(1)] by (simp_all add: wps_ok_def)
  moreover have "int ?n * 2 \<le> int ?n * int (length (free_line_list (lm ftl)))"
    using assms(3) by (intro mult_left_mono) auto
  ultimately show ?thesis unfolding gpot_def by linarith
qed

lemma gc_view:
  assumes "same_view (cf_ssd f) s"
  shows "gpot (f\<lparr>cf_ssd := s\<rparr>) = gpot f" "moved v a (f\<lparr>cf_ssd := s\<rparr>) = moved v a f"
    "gc_frame a (f\<lparr>cf_ssd := s\<rparr>) = gc_frame a f"
  using assms by (simp_all add: gpot_def moved_def gc_frame_def same_view_def)

subsection \<open>Copying one page\<close>

lemma gc_type: "(if hot then GC_IO_HOT else GC_IO_COLD) \<in> io_types - {USER_IO}"
  by (simp add: io_types_def cdefs)

lemma fill_of_gc:
  assumes "io \<in> io_types - {USER_IO}" "wps_ok ftl"
  shows "wp_wf (spp_of ftl) (the_wp ftl io)"
  using assms wps_ok_io by blast

definition other_gc :: "conv_ftl \<Rightarrow> nat \<Rightarrow> write_pointer" where
  "other_gc ftl io = (if io = GC_IO_HOT then gc_wp_cold ftl else gc_wp_hot ftl)"

lemma gpot_io:
  assumes "io \<in> io_types - {USER_IO}"
  shows "gpot ftl = int (wp_idx (spp_of ftl) (the_wp ftl io)) + int (wp_idx (spp_of ftl) (other_gc ftl io))
     - int (pgs_per_line (spp_of ftl)) * int (length (free_line_list (lm ftl)))"
  using assms by (auto simp: gpot_def the_wp_def other_gc_def io_types_def cdefs)

lemma ftl_ok_line_apart:
  assumes "ftl_ok X D V ((c, n) # ws) ftl"
  shows "c \<notin> set V" "c < tt_lines (spp_of ftl)"
  using assms by (auto simp: ftl_ok_def lines_ok_def part_ok_def places_def)

lemma set_wp_gc:
  assumes "io \<in> io_types - {USER_IO}"
  shows "wp (set_wp ftl io w) = wp ftl" "other_gc (set_wp ftl io w) io = other_gc ftl io"
    "wgs (set_wp ftl io w) = wgs ftl" "gc_count (set_wp ftl io w) = gc_count ftl"
    "host_written_pages (set_wp ftl io w) = host_written_pages ftl"
  using assms by (auto simp: set_wp_def io_types_def other_gc_def cdefs)

lemma gc_write_page_spec:
  assumes ok: "ftl_ok {} D [v] (fills ftl) ftl" and wps: "wps_ok ftl" and dv: "cm_wf (pcie dv)"
    and p: "vpa (spp_of ftl) (pa_of p)" "g_pl p = 0" "pst (cf_ssd ftl) (pa_of p) = PG_VALID" "pa_of p \<notin> D"
      "pa_of p \<in> lpages (spp_of ftl) v" and D: "D \<subseteq> lpages (spp_of ftl) v"
  shows "returns (gpot ftl + 1 < int (pgs_per_line (spp_of ftl))) (gc_write_page ftl dv p)
    (\<lambda>(ftl', dv'). ftl_ok {} (insert (pa_of p) D) [v] (fills ftl') ftl' \<and> wps_ok ftl' \<and> dev_timed dv dv' \<and>
       gpot ftl' = gpot ftl + 1 \<and> moved v ftl ftl' \<and> gc_frame ftl ftl' \<and>
       (\<forall>a \<in> lpages (spp_of ftl) v. pst (cf_ssd ftl') a = pst (cf_ssd ftl) a))"
proof -
  let ?spp = "spp_of ftl" and ?a = "pa_of p"
  note geo = ftl_ok_geometry [OF ok]
  have mp: "map_ok ?spp (pst (cf_ssd ftl)) (maptbl ftl) (rmap ftl) D {}" and
    pm: "length (page_meta_tbl ftl) = tt_pgs ?spp" using ok by (simp_all add: ftl_ok_def)
  note lens = map_ok_lengths [OF mp]
  define lpn where "lpn = rmap ftl ! idx_of ?spp ?a"
  note A = map_okD2 [OF mp p(1,3,4), folded lpn_def]
  have get: "get_rmap_ent ftl p = Some lpn"
    using ppa2pgidx_eq [OF geo p(1,2)] idx_of_less [OF geo p(1)] lens by (simp add: get_rmap_ent_def lpn_def)
  obtain now dv1 where t: "read_clock dv = (now, dv1)" by (cases "read_clock dv")
  have d1: "dev_timed dv dv1" by (rule read_clock_timed [OF dv t])
  obtain hot where hot: "page_is_hot ftl lpn now = Some hot" using A(1) pm by (simp add: page_is_hot_def)
  define io where "io = (if hot then GC_IO_HOT else GC_IO_COLD)"
  have io: "io \<in> io_types - {USER_IO}" unfolding io_def by (rule gc_type)
  then have io': "io \<in> io_types" by simp
  define w where "w = the_wp ftl io"
  have wf: "wp_wf ?spp w" unfolding w_def by (rule fill_of_gc [OF io wps])
  define ws where "ws = map (fill ?spp) (other_wps ftl io)"
  note new = get_new_page_spec [OF io' geo, folded w_def, OF wf]
  let ?b = "wp_at w" and ?D = "insert ?a D"
  have ok1: "ftl_ok {unat lpn} ?D [v] ((curline w, wp_idx ?spp w) # ws) ftl"
  proof -
    have "ftl_ok {} D [v] ((curline w, wp_idx ?spp w) # ws) ftl"
      by (rule ftl_ok_perm [OF ok]) (simp only: fills_io [of ftl io] ws_def w_def fill_def)
    then show ?thesis
      using map_ok_copy [OF mp p(1,3,4)] by (simp add: ftl_ok_def lpn_def)
  qed
  note apart = ftl_ok_line_apart [OF ok1]
  have bl: "?b \<in> lpages ?spp (curline w)" by (rule wp_at_lpages [OF wf])
  have "?b \<notin> ?D" using bl apart(1) D p(5) by (cases ?a) (auto simp: lpages_def wp_at_def)
  then obtain ssd m where P: "set_maptbl_ent ftl lpn (ppa_of ?b) = Some (ftl\<lparr>maptbl := (maptbl ftl)[unat lpn := ppa_of ?b]\<rparr>)"
      "set_rmap_ent (ftl\<lparr>maptbl := (maptbl ftl)[unat lpn := ppa_of ?b]\<rparr>) lpn (ppa_of ?b) =
         Some (ftl\<lparr>maptbl := (maptbl ftl)[unat lpn := ppa_of ?b], rmap := (rmap ftl)[idx_of ?spp ?b := lpn]\<rparr>)"
      "mark_page_valid (ftl\<lparr>maptbl := (maptbl ftl)[unat lpn := ppa_of ?b], rmap := (rmap ftl)[idx_of ?spp ?b := lpn]\<rparr>) (ppa_of ?b) =
         Some (ftl\<lparr>maptbl := (maptbl ftl)[unat lpn := ppa_of ?b], rmap := (rmap ftl)[idx_of ?spp ?b := lpn],
           cf_ssd := ssd, lm := m\<rparr>)"
      "ftl_ok {} ?D [v] ((curline w, wp_idx ?spp w + 1) # ws) (ftl\<lparr>maptbl := (maptbl ftl)[unat lpn := ppa_of ?b],
         rmap := (rmap ftl)[idx_of ?spp ?b := lpn], cf_ssd := ssd, lm := m\<rparr>)"
      "sp ssd = ?spp" "free_line_list m = free_line_list (lm ftl)"
      "pst ssd = (pst (cf_ssd ftl))(?b := PG_VALID)"
    using program_page_spec [OF ok1 A(1) bl wp_at_pidx] unfolding Let_def by blast
  define f1 where "f1 = ftl\<lparr>maptbl := (maptbl ftl)[unat lpn := ppa_of ?b], rmap := (rmap ftl)[idx_of ?spp ?b := lpn],
      cf_ssd := ssd, lm := m, gc_copied_pages := gc_copied_pages ftl + 1\<rparr>"
  have s1: "spp_of f1 = ?spp" using P(5) by (simp add: f1_def)
  have okf1: "ftl_ok {} ?D [v] ((curline w, wp_idx ?spp w + 1) # ws) f1"
    using P(4) by (simp add: f1_def ftl_ok_def)
  have w1: "w = the_wp f1 io" by (simp add: w_def f1_def the_wp_def)
  have ln1: "lines_ok (spp_of f1) (pst (cf_ssd f1)) (lm f1) ((curline w, wp_idx (spp_of f1) w + 1) # ws) [v]"
    using okf1 s1 by (simp add: ftl_ok_def)
  note adv = advance_spec [OF io' _ w1 _ ln1, unfolded s1, OF geo wf]
  have fr: "free_line_list (lm f1) = free_line_list (lm ftl)" using P(6) by (simp add: f1_def)
  \<comment> \<open>after the write pointer has moved\<close>
  have step: "returns (gpot ftl + 1 < int (pgs_per_line ?spp)) (advance_write_pointer f1 io)
    (\<lambda>f2. ftl_ok {} ?D [v] (fills f2) f2 \<and> wps_ok f2 \<and> gpot f2 = gpot ftl + 1 \<and> moved v ftl f2 \<and>
      gc_frame ftl f2 \<and> cf_ssd f2 = ssd)"
  proof (rule returns_weaken [OF adv])
    assume lt: "gpot ftl + 1 < int (pgs_per_line ?spp)"
    show "wp_idx ?spp w + 1 < pgs_per_line ?spp \<or> free_line_list (lm f1) \<noteq> []"
      using lt gpot_io [OF io, of ftl] by (auto simp: fr w_def)
  next
    fix f2
    assume "\<exists>m' w'. f2 = set_wp (f1\<lparr>lm := m'\<rparr>) io w' \<and> wp_wf ?spp w' \<and>
       lines_ok ?spp (pst (cf_ssd f1)) m' (fill ?spp w' # ws) [v] \<and>
       (wp_idx ?spp w' = wp_idx ?spp w + 1 \<and> length (free_line_list m') = length (free_line_list (lm f1)) \<or>
        wp_idx ?spp w + 1 = pgs_per_line ?spp \<and> wp_idx ?spp w' = 0 \<and>
          Suc (length (free_line_list m')) = length (free_line_list (lm f1)))"
    then obtain m' w' where f2: "f2 = set_wp (f1\<lparr>lm := m'\<rparr>) io w'" "wp_wf ?spp w'"
        "lines_ok ?spp (pst (cf_ssd f1)) m' (fill ?spp w' # ws) [v]"
      and alt: "wp_idx ?spp w' = wp_idx ?spp w + 1 \<and> length (free_line_list m') = length (free_line_list (lm f1)) \<or>
        wp_idx ?spp w + 1 = pgs_per_line ?spp \<and> wp_idx ?spp w' = 0 \<and>
          Suc (length (free_line_list m')) = length (free_line_list (lm f1))"
      by blast
    have s2: "spp_of f2 = ?spp" using f2(1) s1 by simp
    have "other_wps f2 io = other_wps f1 io" by (simp only: f2(1) the_wp_set_wp)
    then have ow: "other_wps f2 io = other_wps ftl io" by (simp add: f1_def other_wps_def)
    have tw: "the_wp f2 io = w'" using io' by (simp add: f2(1))
    have "ftl_ok {} ?D [v] (fill ?spp w' # ws) f2"
      using okf1 f2 s1 by (simp add: ftl_ok_def)
    then have "ftl_ok {} ?D [v] (fills f2) f2"
      by (rule ftl_ok_perm) (simp only: fills_io [of f2 io] ws_def ow s2 tw)
    moreover have "wps_ok f2"
      using wps f2(2) ow s2 unfolding wps_ok_io [of _ io] by (simp add: f2(1) io')
    moreover have "gpot f2 = gpot ftl + 1"
    proof -
      have "other_gc f2 io = other_gc (f1\<lparr>lm := m'\<rparr>) io" by (simp only: f2(1) set_wp_gc(2) [OF io])
      then have og: "other_gc f2 io = other_gc ftl io" by (simp add: f1_def other_gc_def)
      have "int (wp_idx ?spp w') - int (pgs_per_line ?spp) * int (length (free_line_list m')) =
          int (wp_idx ?spp w) + 1 - int (pgs_per_line ?spp) * int (length (free_line_list (lm ftl)))"
        using alt
      proof
        assume "wp_idx ?spp w + 1 = pgs_per_line ?spp \<and> wp_idx ?spp w' = 0 \<and>
          Suc (length (free_line_list m')) = length (free_line_list (lm f1))"
        then have "int (length (free_line_list (lm ftl))) = int (length (free_line_list m')) + 1"
          "int (wp_idx ?spp w) + 1 = int (pgs_per_line ?spp)" "int (wp_idx ?spp w') = 0"
          unfolding fr by linarith+
        then show ?thesis by (simp add: algebra_simps)
      qed (use fr in simp)
      then show ?thesis
        using gpot_io [OF io, of ftl] gpot_io [OF io, of f2] og s2 tw by (simp add: f2(1) w_def)
    qed
    moreover have "moved v ftl f2"
    proof -
      have "maptbl f2 = (maptbl ftl)[unat lpn := ppa_of ?b]" by (simp add: f2(1) f1_def)
      then show ?thesis
        using A p(5) ppa_of_mapped [OF geo new(3)] lens by (auto simp: moved_def nth_list_update)
    qed
    moreover have "gc_frame ftl f2"
      using s2 set_wp_gc [OF io] by (simp add: gc_frame_def f2(1) f1_def)
    moreover have "cf_ssd f2 = ssd" by (simp add: f2(1) f1_def)
    ultimately show "ftl_ok {} ?D [v] (fills f2) f2 \<and> wps_ok f2 \<and> gpot f2 = gpot ftl + 1 \<and> moved v ftl f2 \<and>
      gc_frame ftl f2 \<and> cf_ssd f2 = ssd" by blast
  qed
  have same: "\<forall>a \<in> lpages ?spp v. pst ssd a = pst (cf_ssd ftl) a"
    using apart(1) by (auto simp: P(7) wp_at_def)
  have eq: "gc_write_page ftl dv p = Option.bind (advance_write_pointer f1 io) (\<lambda>ftl.
      if enable_gc_delay (cp ftl) then do {
        last \<leftarrow> last_pg_in_wordline ftl (ppa_of ?b);
        let gcw = (if last then gc_nand_cmd NAND_WRITE (of_nat (pgsz ?spp * pgs_per_oneshotpg ?spp)) (ppa_of ?b)
                   else gc_nand_cmd NAND_NOP 0 (ppa_of ?b));
        (ssd, dv, _) \<leftarrow> ssd_advance_nand (cf_ssd ftl) dv1 gcw;
        Some (ftl\<lparr>cf_ssd := ssd\<rparr>, dv)
      } else Some (ftl, dv1))"
    using get t A(1) hot new(1) P(1-3)
    by (simp add: gc_write_page_def valid_lpn_def io_def [symmetric] f1_def [symmetric] Let_def)
  show ?thesis
    unfolding eq
  proof (rule returns_bind [OF step], assumption)
    fix f2
    assume Q: "ftl_ok {} ?D [v] (fills f2) f2 \<and> wps_ok f2 \<and> gpot f2 = gpot ftl + 1 \<and> moved v ftl f2 \<and>
      gc_frame ftl f2 \<and> cf_ssd f2 = ssd"
    then have s2: "spp_of f2 = ?spp" and ok2: "ssd_ok (cf_ssd f2)" by (auto simp: gc_frame_def ftl_ok_def)
    show "returns (gpot ftl + 1 < int (pgs_per_line ?spp)) (if enable_gc_delay (cp f2) then do {
        last \<leftarrow> last_pg_in_wordline f2 (ppa_of ?b);
        let gcw = (if last then gc_nand_cmd NAND_WRITE (of_nat (pgsz ?spp * pgs_per_oneshotpg ?spp)) (ppa_of ?b)
                   else gc_nand_cmd NAND_NOP 0 (ppa_of ?b));
        (ssd, dv, _) \<leftarrow> ssd_advance_nand (cf_ssd f2) dv1 gcw;
        Some (f2\<lparr>cf_ssd := ssd\<rparr>, dv)
      } else Some (f2, dv1))
      (\<lambda>(ftl', dv'). ftl_ok {} ?D [v] (fills ftl') ftl' \<and> wps_ok ftl' \<and> dev_timed dv dv' \<and>
       gpot ftl' = gpot ftl + 1 \<and> moved v ftl ftl' \<and> gc_frame ftl ftl' \<and>
       (\<forall>a \<in> lpages ?spp v. pst (cf_ssd ftl') a = pst (cf_ssd ftl) a))"
    proof (cases "enable_gc_delay (cp f2)")
      case False
      then show ?thesis using Q d1 same by simp
    next
      case True
      obtain last where last: "last_pg_in_wordline f2 (ppa_of ?b) = Some last"
        using geometryD(9) [OF geo] s2 by (simp add: last_pg_in_wordline_def Let_def)
      define gcw where "gcw = (if last then gc_nand_cmd NAND_WRITE (of_nat (pgsz ?spp * pgs_per_oneshotpg ?spp)) (ppa_of ?b)
                   else gc_nand_cmd NAND_NOP 0 (ppa_of ?b))"
      have on: "on_chip (cf_ssd f2) (ppa_of ?b)" using new s2 pa_of_ppa_of(2) [OF geo new(3)] by simp
      have "nc_ppa gcw = ppa_of ?b" "nc_cmd gcw \<noteq> NAND_READ" by (simp_all add: gcw_def gc_nand_cmd_def)
      then obtain s3 dv3 t3 where N: "ssd_advance_nand (cf_ssd f2) dv1 gcw = Some (s3, dv3, t3)"
          "same_view (cf_ssd f2) s3" "dev_timed dv1 dv3"
        using ssd_advance_nand_spec [OF ok2 on dev_timed_wf [OF d1], of gcw] by auto
      let ?f = "f2\<lparr>cf_ssd := s3\<rparr>"
      have "ftl_ok {} ?D [v] (fills ?f) ?f" "wps_ok ?f"
        using Q ftl_ok_view [OF N(2)] by simp_all
      moreover have "gpot ?f = gpot ftl + 1" "moved v ftl ?f" "gc_frame ftl ?f"
        using Q gc_view [OF N(2)] by simp_all
      moreover have "\<forall>a \<in> lpages ?spp v. pst s3 a = pst (cf_ssd ftl) a"
        using Q N(2) same by (simp add: same_view_def)
      ultimately show ?thesis
        using True last N(1) dev_timed_trans [OF d1 N(3)]
        by (simp add: gcw_def [symmetric] Let_def)
    qed
  qed
qed

end
