(* ===== verification/Ftl_Collect.thy ===== *)
theory Ftl_Collect
  imports Ftl_Gc
begin

text \<open>
  The loops of a collection. The state of the loops is described by the pages of the victim line
  seen so far (\<open>D\<close>: copied away if they were valid) and those erased already (\<open>E\<close>); the three
  nested loops visit every page of the line, and erase each block after its last flash page.
\<close>

subsection \<open>The state of the loops\<close>

definition gc_st :: "nat \<Rightarrow> conv_ftl \<Rightarrow> dev \<Rightarrow> int \<Rightarrow> pa set \<Rightarrow> pa set \<Rightarrow> conv_ftl \<times> dev \<Rightarrow> bool" where
  "gc_st v f0 dv0 B D E s \<longleftrightarrow> ftl_ok {} D [v] (fills (fst s)) (fst s) \<and> wps_ok (fst s) \<and>
     D \<subseteq> lpages (spp_of f0) v \<and>
     (\<forall>a \<in> lpages (spp_of f0) v - D. pst (cf_ssd (fst s)) a = pst (cf_ssd f0) a) \<and>
     (\<forall>a \<in> E. pst (cf_ssd (fst s)) a = PG_FREE) \<and> E \<subseteq> lpages (spp_of f0) v \<and>
     gpot (fst s) + int (npg (pst (cf_ssd f0)) PG_VALID (lpages (spp_of f0) v - D)) \<le> B \<and>
     moved v f0 (fst s) \<and> gc_frame f0 (fst s) \<and> dev_timed dv0 (snd s)"

lemma gc_stD:
  assumes "gc_st v f0 dv0 B D E (ftl, dv)"
  shows "ftl_ok {} D [v] (fills ftl) ftl" "wps_ok ftl" "D \<subseteq> lpages (spp_of f0) v"
    "a \<in> lpages (spp_of f0) v \<Longrightarrow> a \<notin> D \<Longrightarrow> pst (cf_ssd ftl) a = pst (cf_ssd f0) a"
    "a \<in> E \<Longrightarrow> pst (cf_ssd ftl) a = PG_FREE" "E \<subseteq> lpages (spp_of f0) v"
    "gpot ftl + int (npg (pst (cf_ssd f0)) PG_VALID (lpages (spp_of f0) v - D)) \<le> B"
    "moved v f0 ftl" "gc_frame f0 ftl" "dev_timed dv0 dv" "spp_of ftl = spp_of f0"
    "cm_wf (pcie dv)" "ssd_ok (cf_ssd ftl)" "geometry (spp_of f0)"
proof -
  show s: "spp_of ftl = spp_of f0" using assms by (simp add: gc_st_def gc_frame_def)
  show "ssd_ok (cf_ssd ftl)" using assms by (simp add: gc_st_def ftl_ok_def)
  then show "geometry (spp_of f0)" using s ssd_ok_geometry by metis
  show "dev_timed dv0 dv" using assms by (simp add: gc_st_def)
  then show "cm_wf (pcie dv)" by (rule dev_timed_wf)
qed (use assms in \<open>simp_all add: gc_st_def\<close>)

text \<open>Time passes.\<close>

lemma gc_st_view:
  assumes "gc_st v f0 dv0 B D E (ftl, dv)" "same_view (cf_ssd ftl) s" "dev_timed dv dv'"
  shows "gc_st v f0 dv0 B D E (ftl\<lparr>cf_ssd := s\<rparr>, dv')"
  using assms(1) dev_timed_trans [OF gc_stD(10) [OF assms(1)] assms(3)] gc_view [OF assms(2)]
    ftl_ok_view(2,3,4) [OF assms(2)] assms(2)
  unfolding gc_st_def by (simp add: same_view_def)

lemma gc_nand:
  assumes st: "gc_st v f0 dv0 B D E (ftl, dv)" and on: "vpa (spp_of f0) (pa_of p)" "g_pl p = 0"
    and x: "c = NAND_READ \<Longrightarrow> x \<noteq> 0"
  shows "\<exists>s dv' t. ssd_advance_nand (cf_ssd ftl) dv (gc_nand_cmd c x p) = Some (s, dv', t) \<and>
    gc_st v f0 dv0 B D E (ftl\<lparr>cf_ssd := s\<rparr>, dv')"
proof -
  have "on_chip (cf_ssd ftl) p" using on gc_stD(11) [OF st] by simp
  then show ?thesis
    using ssd_advance_nand_spec [OF gc_stD(13) [OF st] _ gc_stD(12) [OF st], of p "gc_nand_cmd c x p"]
      gc_st_view [OF st] x by (fastforce simp: gc_nand_cmd_def)
qed

lemma map_ok_exempt:
  assumes "map_ok spp st mt rm D X" "\<And>a. st a = PG_VALID \<Longrightarrow> a \<in> D \<longleftrightarrow> a \<in> D'"
  shows "map_ok spp st mt rm D' X"
  using assms unfolding map_ok_def by metis

lemma map_ok_D:
  assumes "map_ok spp st mt rm D X" "\<And>a. a \<notin> D \<Longrightarrow> st' a = st a"
  shows "map_ok spp st' mt rm D X"
  using assms unfolding map_ok_def by metis

subsection \<open>One page\<close>

lemma copy_if_valid_spec:
  assumes st: "gc_st v f0 dv0 B D E s"
    and a: "pa_of (pg_plus p i) = a" "a \<in> lpages (spp_of f0) v" "a \<notin> D" "vpa (spp_of f0) a" "g_pl (pg_plus p i) = 0"
  shows "returns (B < int (pgs_per_line (spp_of f0))) (copy_if_valid p i s) (gc_st v f0 dv0 B (insert a D) E)"
proof -
  obtain ftl dv where s: "s = (ftl, dv)" by (cases s)
  note S = gc_stD [OF st [unfolded s]]
  let ?spp = "spp_of f0" and ?p = "pg_plus p i"
  have on: "on_chip (cf_ssd ftl) ?p" using a S(11) by simp
  have sta: "pst (cf_ssd ftl) a = pst (cf_ssd f0) a" by (rule S(4) [OF a(2,3)])
  obtain pg where pg: "get_pg (cf_ssd ftl) ?p = Some pg" "pg_status pg = pst (cf_ssd ftl) a"
    using get_pg_status [OF S(13) on] a(1) by auto
  have D': "insert a D \<subseteq> lpages ?spp v" using S(3) a(2) by simp
  have sub: "lpages ?spp v - insert a D = (lpages ?spp v - D) - {a}" by auto
  show ?thesis
  proof (cases "pst (cf_ssd ftl) a = PG_VALID")
    case False
    have "map_ok (spp_of ftl) (pst (cf_ssd ftl)) (maptbl ftl) (rmap ftl) (insert a D) {}"
      using S(1) False by - (rule map_ok_exempt [of _ _ _ _ D], auto simp: ftl_ok_def)
    then have "ftl_ok {} (insert a D) [v] (fills ftl) ftl" using S(1) by (simp add: ftl_ok_def)
    moreover have "npg (pst (cf_ssd f0)) PG_VALID (lpages ?spp v - insert a D) =
        npg (pst (cf_ssd f0)) PG_VALID (lpages ?spp v - D)"
      unfolding npg_def using False sta by (intro arg_cong [where f = card]) auto
    ultimately have "gc_st v f0 dv0 B (insert a D) E (ftl, dv)"
      using st D' unfolding s gc_st_def by simp
    then show ?thesis using pg False by (simp add: copy_if_valid_def s)
  next
    case True
    have np: "npg (pst (cf_ssd f0)) PG_VALID (lpages ?spp v - D) =
        npg (pst (cf_ssd f0)) PG_VALID (lpages ?spp v - insert a D) + 1"
    proof -
      have "{x \<in> lpages ?spp v - D. pst (cf_ssd f0) x = PG_VALID} =
          insert a {x \<in> lpages ?spp v - insert a D. pst (cf_ssd f0) x = PG_VALID}"
        using a(2,3) True sta by auto
      then show ?thesis by (simp add: npg_def)
    qed
    have eq: "copy_if_valid p i s = gc_write_page ftl dv ?p" using pg True by (simp add: copy_if_valid_def s)
    have gw: "returns (gpot ftl + 1 < int (pgs_per_line ?spp)) (gc_write_page ftl dv ?p)
      (\<lambda>(ftl', dv'). ftl_ok {} (insert a D) [v] (fills ftl') ftl' \<and> wps_ok ftl' \<and> dev_timed dv dv' \<and>
       gpot ftl' = gpot ftl + 1 \<and> moved v ftl ftl' \<and> gc_frame ftl ftl' \<and>
       (\<forall>a \<in> lpages ?spp v. pst (cf_ssd ftl') a = pst (cf_ssd ftl) a))"
      using gc_write_page_spec [OF S(1,2,12), of ?p] a True S(3,11) by simp
    show ?thesis
      unfolding eq
    proof (rule returns_weaken [OF gw])
      show "gpot ftl + 1 < int (pgs_per_line ?spp)" if "B < int (pgs_per_line ?spp)"
        using that S(7) np by linarith
      fix s'
      assume "case s' of (ftl', dv') \<Rightarrow> ftl_ok {} (insert a D) [v] (fills ftl') ftl' \<and> wps_ok ftl' \<and> dev_timed dv dv' \<and>
         gpot ftl' = gpot ftl + 1 \<and> moved v ftl ftl' \<and> gc_frame ftl ftl' \<and>
         (\<forall>a \<in> lpages ?spp v. pst (cf_ssd ftl') a = pst (cf_ssd ftl) a)"
      then obtain ftl' dv' where s': "s' = (ftl', dv')" "ftl_ok {} (insert a D) [v] (fills ftl') ftl'" "wps_ok ftl'"
          "dev_timed dv dv'" "gpot ftl' = gpot ftl + 1" "moved v ftl ftl'" "gc_frame ftl ftl'"
          "\<forall>a \<in> lpages ?spp v. pst (cf_ssd ftl') a = pst (cf_ssd ftl) a" by (cases s') auto
      have "moved v f0 ftl'" by (rule moved_trans [OF S(8) s'(6) S(11)])
      moreover have "gc_frame f0 ftl'" by (rule gc_frame_trans [OF S(9) s'(7)])
      moreover have "dev_timed dv0 dv'" by (rule dev_timed_trans [OF S(10) s'(4)])
      moreover have "\<forall>b \<in> lpages ?spp v - insert a D. pst (cf_ssd ftl') b = pst (cf_ssd f0) b"
        using S(4) s'(8) by simp
      moreover have "\<forall>b \<in> E. pst (cf_ssd ftl') b = PG_FREE" using S(5,6) s'(8) by auto
      moreover have "gpot ftl' + int (npg (pst (cf_ssd f0)) PG_VALID (lpages ?spp v - insert a D)) \<le> B"
        using S(7) np s'(5) by linarith
      ultimately show "gc_st v f0 dv0 B (insert a D) E s'"
        using s'(2,3) D' S(6) unfolding gc_st_def s'(1) fst_conv snd_conv by blast
    qed
  qed
qed

subsection \<open>One flash page\<close>

definition fpages :: "ssdparams \<Rightarrow> nat \<Rightarrow> nat \<Rightarrow> nat \<Rightarrow> nat \<Rightarrow> nat \<Rightarrow> pa set" where
  "fpages spp c l v f k = (\<lambda>j. (c, l, v, f * pgs_per_flashpg spp + j)) ` {..<k}"

lemma flash_bound:
  assumes "geometry spp" "f < flashpgs_per_blk spp" "i < pgs_per_flashpg spp"
  shows "f * pgs_per_flashpg spp + i < pgs_per_blk spp"
  using mixed_radix_less [OF assms(2,3)] geometryD(12) [OF assms(1)] by (simp add: mult.commute)

text \<open>The address at which a flash page starts.\<close>

definition flash_at :: "ssdparams \<Rightarrow> nat \<Rightarrow> nat \<Rightarrow> nat \<Rightarrow> nat \<Rightarrow> ppa" where
  "flash_at spp c l v f = ppa_of (c, l, v, f * pgs_per_flashpg spp)"

lemma pg_plus_at:
  assumes geo: "geometry spp" and f: "f < flashpgs_per_blk spp" and i: "i < pgs_per_flashpg spp"
    and r: "c < nchs spp" "l < luns_per_ch spp" "v < blks_per_pl spp"
  shows "pa_of (pg_plus (flash_at spp c l v f) i) = (c, l, v, f * pgs_per_flashpg spp + i)"
    "g_pl (pg_plus (flash_at spp c l v f) i) = 0"
proof -
  have b: "f * pgs_per_flashpg spp + i < 65536"
    using flash_bound [OF geo f i] geometryD(8) [OF geo] by simp
  have "unat (of_nat (f * pgs_per_flashpg spp + i) :: u16) = f * pgs_per_flashpg spp + i"
    using b by (intro unat_of_nat_small) simp
  then have "unat ((of_nat (f * pgs_per_flashpg spp) :: u16) + of_nat i) = f * pgs_per_flashpg spp + i"
    by (simp only: of_nat_add)
  moreover have "pa_of (flash_at spp c l v f) = (c, l, v, f * pgs_per_flashpg spp)"
    using pa_of_ppa_of(1) [OF geo, of "(c, l, v, f * pgs_per_flashpg spp)"] flash_bound [OF geo f, of 0]
      geometryD(11) [OF geo] r by (simp add: flash_at_def)
  ultimately show "pa_of (pg_plus (flash_at spp c l v f) i) = (c, l, v, f * pgs_per_flashpg spp + i)"
    by (simp add: pa_of_def pg_plus_def flash_at_def ppa_of_def)
  show "g_pl (pg_plus (flash_at spp c l v f) i) = 0"
    by (simp add: pg_plus_def flash_at_def ppa_of_def)
qed

lemma flash_at_on:
  assumes "geometry spp" "f < flashpgs_per_blk spp" "c < nchs spp" "l < luns_per_ch spp" "v < blks_per_pl spp"
  shows "pa_of (flash_at spp c l v f) = (c, l, v, f * pgs_per_flashpg spp)"
    "vpa spp (c, l, v, f * pgs_per_flashpg spp)" "g_pl (flash_at spp c l v f) = 0"
proof -
  show v: "vpa spp (c, l, v, f * pgs_per_flashpg spp)"
    using flash_bound [OF assms(1,2), of 0] geometryD(11) [OF assms(1)] assms by simp
  show "pa_of (flash_at spp c l v f) = (c, l, v, f * pgs_per_flashpg spp)" "g_pl (flash_at spp c l v f) = 0"
    unfolding flash_at_def by (rule pa_of_ppa_of [OF assms(1) v])+
qed

lemma count_valid_spec:
  assumes ok: "ssd_ok (cf_ssd ftl)" and spp: "spp_of ftl = spp" and f: "f < flashpgs_per_blk spp"
    and r: "c < nchs spp" "l < luns_per_ch spp" "v < blks_per_pl spp"
    and nf: "\<And>a. a \<in> fpages spp c l v f (pgs_per_flashpg spp) \<Longrightarrow> pst (cf_ssd ftl) a \<noteq> PG_FREE"
  shows "\<exists>cnt. count_valid ftl (flash_at spp c l v f) = Some cnt \<and> cnt \<le> pgs_per_flashpg spp \<and>
    (cnt = 0 \<longrightarrow> (\<forall>a \<in> fpages spp c l v f (pgs_per_flashpg spp). pst (cf_ssd ftl) a \<noteq> PG_VALID))"
proof -
  have geo: "geometry spp" using ssd_ok_geometry [OF ok] spp by simp
  let ?p = "flash_at spp c l v f"
  have "returns True (count_valid ftl ?p) (\<lambda>cnt. cnt \<le> pgs_per_flashpg spp \<and>
      (cnt = 0 \<longrightarrow> (\<forall>a \<in> fpages spp c l v f (pgs_per_flashpg spp). pst (cf_ssd ftl) a \<noteq> PG_VALID)))"
    unfolding count_valid_def spp
  proof (rule returns_fold_upt [where I = "\<lambda>i cnt. cnt \<le> i \<and>
      (cnt = 0 \<longrightarrow> (\<forall>a \<in> fpages spp c l v f i. pst (cf_ssd ftl) a \<noteq> PG_VALID))"])
    fix i cnt
    assume i: "i < pgs_per_flashpg spp" and I: "cnt \<le> i \<and>
      (cnt = 0 \<longrightarrow> (\<forall>a \<in> fpages spp c l v f i. pst (cf_ssd ftl) a \<noteq> PG_VALID))"
    let ?a = "(c, l, v, f * pgs_per_flashpg spp + i)"
    note at = pg_plus_at [OF geo f i r]
    have on: "on_chip (cf_ssd ftl) (pg_plus ?p i)" using at flash_bound [OF geo f i] r spp by simp
    obtain pg where pg: "get_pg (cf_ssd ftl) (pg_plus ?p i) = Some pg" "pg_status pg = pst (cf_ssd ftl) ?a"
      using get_pg_status [OF ok on] at(1) by auto
    have "?a \<in> fpages spp c l v f (pgs_per_flashpg spp)" using i by (auto simp: fpages_def)
    then have "pst (cf_ssd ftl) ?a \<noteq> PG_FREE" by (rule nf)
    moreover have "fpages spp c l v f (Suc i) = insert ?a (fpages spp c l v f i)"
      by (simp add: fpages_def lessThan_Suc)
    ultimately show "returns True (do { pg \<leftarrow> get_pg (cf_ssd ftl) (pg_plus ?p i);
        NVMEV_ASSERT (pg_status pg \<noteq> PG_FREE);
        Some (if pg_status pg = PG_VALID then cnt + 1 else cnt) })
      (\<lambda>cnt. cnt \<le> Suc i \<and> (cnt = 0 \<longrightarrow> (\<forall>a \<in> fpages spp c l v f (Suc i). pst (cf_ssd ftl) a \<noteq> PG_VALID)))"
      using pg I by simp
  qed (simp_all add: fpages_def)
  then show ?thesis using returns_totalD by fastforce
qed

lemma clean_one_flashpg_spec:
  assumes st: "gc_st v f0 dv0 B D E (ftl, dv)" and f: "f < flashpgs_per_blk (spp_of f0)"
    and r: "c < nchs (spp_of f0)" "l < luns_per_ch (spp_of f0)" "v < blks_per_pl (spp_of f0)"
    and D: "D \<inter> fpages (spp_of f0) c l v f (pgs_per_flashpg (spp_of f0)) = {}"
    and nf: "\<And>a. a \<in> lpages (spp_of f0) v \<Longrightarrow> pst (cf_ssd f0) a \<noteq> PG_FREE"
  shows "returns (B < int (pgs_per_line (spp_of f0))) (clean_one_flashpg ftl dv (flash_at (spp_of f0) c l v f))
    (gc_st v f0 dv0 B (D \<union> fpages (spp_of f0) c l v f (pgs_per_flashpg (spp_of f0))) E)"
proof -
  let ?spp = "spp_of f0" and ?n = "pgs_per_flashpg (spp_of f0)" and ?p = "flash_at (spp_of f0) c l v f"
  let ?F = "fpages ?spp c l v f"
  note S = gc_stD [OF st]
  note geo = S(14)
  have FL: "?F k \<subseteq> lpages ?spp v" if "k \<le> ?n" for k
    using that flash_bound [OF geo f] r by (auto simp: fpages_def)
  have nfF: "pst (cf_ssd ftl) a \<noteq> PG_FREE" if "a \<in> ?F ?n" for a
  proof -
    have "a \<in> lpages ?spp v" "a \<notin> D" using that FL [of ?n] D by blast+
    then show ?thesis using S(4) [of a] nf [of a] by simp
  qed
  obtain cnt where cnt: "count_valid ftl ?p = Some cnt" "cnt \<le> ?n"
      "cnt = 0 \<Longrightarrow> \<forall>a \<in> ?F ?n. pst (cf_ssd ftl) a \<noteq> PG_VALID"
    using count_valid_spec [OF S(13,11) f r nfF] by blast
  show ?thesis
  proof (cases "cnt = 0")
    case True
    have nv: "pst (cf_ssd ftl) a \<noteq> PG_VALID" if "a \<in> ?F ?n" for a using cnt(3) [OF True] that by blast
    have "map_ok (spp_of ftl) (pst (cf_ssd ftl)) (maptbl ftl) (rmap ftl) (D \<union> ?F ?n) {}"
      using S(1) nv by - (rule map_ok_exempt [of _ _ _ _ D], auto simp: ftl_ok_def)
    then have "ftl_ok {} (D \<union> ?F ?n) [v] (fills ftl) ftl" using S(1) by (simp add: ftl_ok_def)
    moreover have "npg (pst (cf_ssd f0)) PG_VALID (lpages ?spp v - (D \<union> ?F ?n)) =
        npg (pst (cf_ssd f0)) PG_VALID (lpages ?spp v - D)"
    proof -
      have "pst (cf_ssd f0) a \<noteq> PG_VALID" if "a \<in> ?F ?n" for a
      proof -
        have "a \<in> lpages ?spp v" "a \<notin> D" using that FL [of ?n] D by blast+
        then show ?thesis using S(4) [of a] nv [OF that] by simp
      qed
      then show ?thesis unfolding npg_def by (intro arg_cong [where f = card]) auto
    qed
    ultimately have "gc_st v f0 dv0 B (D \<union> ?F ?n) E (ftl, dv)"
      using st FL [of ?n] unfolding gc_st_def by simp
    then show ?thesis using cnt(1) True by (simp add: clean_one_flashpg_def)
  next
    case False
    have loop: "returns (B < int (pgs_per_line ?spp)) (fold_opt (copy_if_valid ?p) [0..<?n] s)
        (gc_st v f0 dv0 B (D \<union> ?F ?n) E)" if "gc_st v f0 dv0 B D E s" for s
    proof (rule returns_fold_upt [where I = "\<lambda>i. gc_st v f0 dv0 B (D \<union> ?F i) E"])
      show "gc_st v f0 dv0 B (D \<union> ?F 0) E s" using that by (simp add: fpages_def)
      fix i s' assume i: "i < ?n" and I: "gc_st v f0 dv0 B (D \<union> ?F i) E s'"
      note at = pg_plus_at [OF geo f i r]
      let ?a = "(c, l, v, f * ?n + i)"
      have "?a \<notin> ?F i" by (auto simp: fpages_def)
      moreover have "?a \<in> ?F ?n" using i by (auto simp: fpages_def)
      ultimately have "?a \<notin> D \<union> ?F i" "?a \<in> lpages ?spp v" "vpa ?spp ?a"
        using D FL [of ?n] r flash_bound [OF geo f i] by auto
      moreover have "D \<union> ?F (Suc i) = insert ?a (D \<union> ?F i)" by (auto simp: fpages_def less_Suc_eq)
      ultimately show "returns (B < int (pgs_per_line ?spp)) (copy_if_valid ?p i s')
          (gc_st v f0 dv0 B (D \<union> ?F (Suc i)) E)"
        using copy_if_valid_spec [OF I at(1) _ _ _ at(2)] by simp
    qed simp
    note fa = flash_at_on [OF geo f r]
    show ?thesis
    proof (cases "enable_gc_delay (cp ftl)")
      case delay: False
      then show ?thesis using cnt(1) False loop [OF st] S(11) by (simp add: clean_one_flashpg_def)
    next
      case True
      have sz: "pgsz ?spp * cnt < 2 ^ 64" "pgsz ?spp * cnt \<noteq> 0"
        using geometryD(25,26) [OF geo] cnt(2) False
        by (auto intro: le_less_trans [OF mult_le_mono2])
      have "unat (of_nat (pgsz ?spp * cnt) :: u64) = pgsz ?spp * cnt"
        by (rule unat_of_nat_small) (use sz(1) in simp)
      then have nz: "(of_nat (pgsz ?spp * cnt) :: u64) \<noteq> 0" using sz(2) by (metis unat_0)
      obtain s1 dv1 t where N: "ssd_advance_nand (cf_ssd ftl) dv
          (gc_nand_cmd NAND_READ (of_nat (pgsz ?spp * cnt)) ?p) = Some (s1, dv1, t)"
          "gc_st v f0 dv0 B D E (ftl\<lparr>cf_ssd := s1\<rparr>, dv1)"
        using gc_nand [OF st _ fa(3) nz] fa(1,2) by metis
      then show ?thesis
        using cnt(1) False True loop [OF N(2)] S(11) by (simp add: clean_one_flashpg_def Let_def)
    qed
  qed
qed

subsection \<open>Erasing a block\<close>

lemma mark_block_free_spec:
  assumes ok: "ssd_ok (cf_ssd ftl)" and on: "on_chip (cf_ssd ftl) p" and a: "pa_of p = (c, l, b, g)"
    and blk: "blocks_ok (spp_of ftl) (pst (cf_ssd ftl)) (bcnt (cf_ssd ftl))"
  shows "\<exists>ssd. mark_block_free ftl p = Some (ftl\<lparr>cf_ssd := ssd\<rparr>) \<and> ssd_ok ssd \<and> sp ssd = spp_of ftl \<and>
    pst ssd = (\<lambda>x. if x \<in> bpages (spp_of ftl) c l b then PG_FREE else pst (cf_ssd ftl) x) \<and>
    blocks_ok (spp_of ftl) (pst ssd) (bcnt ssd)"
proof -
  let ?ssd = "cf_ssd ftl" and ?spp = "spp_of ftl"
  let ?f = "\<lambda>b. Option.bind (free_pages (pgs_per_blk ?spp) (blk_pg b)) (\<lambda>ps.
      Some (b\<lparr>blk_pg := ps, blk_ipc := 0, blk_vpc := 0, blk_erase_cnt := blk_erase_cnt b + 1\<rparr>))"
  have r: "c < nchs ?spp" "l < luns_per_ch ?spp" "b < blks_per_pl ?spp" using on a by auto
  define B where "B = blk_at ?ssd c l b"
  have len: "length (blk_pg B) = pgs_per_blk ?spp" unfolding B_def by (rule ssd_ok_blk [OF ok r])
  define B' where "B' = B\<lparr>blk_pg := map (\<lambda>g. g\<lparr>pg_status := PG_FREE\<rparr>) (blk_pg B), blk_ipc := 0, blk_vpc := 0,
      blk_erase_cnt := blk_erase_cnt B + 1\<rparr>"
  have f: "?f (blk_at ?ssd c l b) = Some B'" using len by (simp add: free_pages_def B'_def B_def)
  have len': "length (blk_pg B') = pgs_per_blk ?spp" using len by (simp add: B'_def)
  obtain s where s: "upd_blk ?ssd p ?f = Some s" "ssd_ok s" "sp s = ?spp"
      "\<And>c' l' b'. c' < nchs ?spp \<Longrightarrow> l' < luns_per_ch ?spp \<Longrightarrow> b' < blks_per_pl ?spp \<Longrightarrow>
       blk_at s c' l' b' = (if c' = c \<and> l' = l \<and> b' = b then B' else blk_at ?ssd c' l' b')"
    using upd_blk_spec [where f = ?f, OF ok on a f len'] by blast
  have st: "pst s = (\<lambda>x. if x \<in> bpages ?spp c l b then PG_FREE else pst ?ssd x)"
    using s(3,4) len by (auto simp: fun_eq_iff pst_def B'_def)
  have z: "npg (pst s) PG_VALID (bpages ?spp c l b) = 0" "npg (pst s) PG_INVALID (bpages ?spp c l b) = 0"
    by (simp_all add: npg_none st)
  have "bcnt s = (\<lambda>c' l' b'. if c' = c \<and> l' = l \<and> b' = b then (0, 0) else bcnt ?ssd c' l' b')"
    using s(3,4) r by (auto simp: fun_eq_iff bcnt_def B'_def)
  then have "blocks_ok ?spp (pst s) (bcnt s)"
    using blocks_upd [OF blk, of c l b "pst s" "(0, 0)"] z st by simp
  then show ?thesis using s(1-3) st by (auto simp: mark_block_free_def)
qed

lemma gc_erase_block:
  assumes st: "gc_st v f0 dv0 B D E (ftl, dv)" and f: "f < flashpgs_per_blk (spp_of f0)"
    and r: "c < nchs (spp_of f0)" "l < luns_per_ch (spp_of f0)" "v < blks_per_pl (spp_of f0)"
    and D: "bpages (spp_of f0) c l v \<subseteq> D"
  shows "\<exists>s. mark_block_free ftl (flash_at (spp_of f0) c l v f) = Some (ftl\<lparr>cf_ssd := s\<rparr>) \<and>
    gc_st v f0 dv0 B D (E \<union> bpages (spp_of f0) c l v) (ftl\<lparr>cf_ssd := s\<rparr>, dv)"
proof -
  let ?spp = "spp_of f0" and ?b = "bpages (spp_of f0) c l v"
  note S = gc_stD [OF st]
  note fa = flash_at_on [OF S(14) f r]
  have on: "on_chip (cf_ssd ftl) (flash_at ?spp c l v f)" using fa S(11) by simp
  have "blocks_ok (spp_of ftl) (pst (cf_ssd ftl)) (bcnt (cf_ssd ftl))" using S(1) by (simp add: ftl_ok_def)
  then obtain s where s: "mark_block_free ftl (flash_at ?spp c l v f) = Some (ftl\<lparr>cf_ssd := s\<rparr>)" "ssd_ok s"
      "sp s = ?spp" "pst s = (\<lambda>x. if x \<in> ?b then PG_FREE else pst (cf_ssd ftl) x)"
      "blocks_ok ?spp (pst s) (bcnt s)"
    using mark_block_free_spec [OF S(13) on fa(1)] S(11) by auto
  have bL: "?b \<subseteq> lpages ?spp v" using r by (auto simp: bpages_def)
  have "map_ok ?spp (pst s) (maptbl ftl) (rmap ftl) D {}"
  proof (rule map_ok_D)
    show "map_ok ?spp (pst (cf_ssd ftl)) (maptbl ftl) (rmap ftl) D {}" using S(1,11) by (simp add: ftl_ok_def)
    show "pst s a = pst (cf_ssd ftl) a" if "a \<notin> D" for a using that D by (auto simp: s(4))
  qed
  moreover have "lines_ok ?spp (pst s) (lm ftl) (fills ftl) [v]"
  proof (rule lines_ok_victim_st)
    show "lines_ok ?spp (pst (cf_ssd ftl)) (lm ftl) (fills ftl) [v]" using S(1,11) by (simp add: ftl_ok_def)
    show "pst s a = pst (cf_ssd ftl) a" if "a \<notin> lpages ?spp v" for a using that bL by (auto simp: s(4))
  qed
  moreover have fl: "fills (ftl\<lparr>cf_ssd := s\<rparr>) = fills ftl" "wps_ok (ftl\<lparr>cf_ssd := s\<rparr>)"
    using fills_cong [of "ftl\<lparr>cf_ssd := s\<rparr>" ftl] s(3) S(2,11) by simp_all
  ultimately have "ftl_ok {} D [v] (fills (ftl\<lparr>cf_ssd := s\<rparr>)) (ftl\<lparr>cf_ssd := s\<rparr>)"
    using S(1,11) s(2,3,5) by (simp add: ftl_ok_def)
  moreover have "gpot (ftl\<lparr>cf_ssd := s\<rparr>) = gpot ftl" "moved v f0 (ftl\<lparr>cf_ssd := s\<rparr>)" "gc_frame f0 (ftl\<lparr>cf_ssd := s\<rparr>)"
    using S(8,9,11) s(3) by (simp_all add: gpot_def moved_def gc_frame_def)
  moreover have "\<forall>a \<in> lpages ?spp v - D. pst s a = pst (cf_ssd f0) a"
    using S(4) D by (auto simp: s(4))
  moreover have "\<forall>a \<in> E \<union> ?b. pst s a = PG_FREE" using S(5) by (auto simp: s(4))
  ultimately have "gc_st v f0 dv0 B D (E \<union> ?b) (ftl\<lparr>cf_ssd := s\<rparr>, dv)"
    using S(3,6,7,10) fl(2) bL unfolding gc_st_def by simp
  then show ?thesis using s(1) by blast
qed

subsection \<open>The loops\<close>

text \<open>The flash pages visited before flash page \<open>f\<close> of channel \<open>c\<close>, LUN \<open>l\<close>, and the blocks erased.\<close>

definition seen :: "ssdparams \<Rightarrow> nat \<Rightarrow> nat \<Rightarrow> nat \<Rightarrow> nat \<Rightarrow> pa set" where
  "seen spp v f c l = {(c', l', b, g). (c', l', b, g) \<in> lpages spp v \<and>
     (g div pgs_per_flashpg spp < f \<or>
      g div pgs_per_flashpg spp = f \<and> (c' < c \<or> c' = c \<and> l' < l))}"

definition erased :: "ssdparams \<Rightarrow> nat \<Rightarrow> nat \<Rightarrow> nat \<Rightarrow> nat \<Rightarrow> pa set" where
  "erased spp v f c l = {(c', l', b, g). (c', l', b, g) \<in> lpages spp v \<and>
     (flashpgs_per_blk spp \<le> f \<or> Suc f = flashpgs_per_blk spp \<and> (c' < c \<or> c' = c \<and> l' < l))}"

lemma div_flash:
  assumes "0 < (n :: nat)"
  shows "g div n = f \<longleftrightarrow> (\<exists>j < n. g = f * n + j)"
  using assms by (metis add.commute add_cancel_right_left div_less div_mult_mod_eq div_mult_self1
      less_nat_zero_code mod_less_divisor mult.commute)

lemma fpages_eq:
  assumes "0 < pgs_per_flashpg spp"
  shows "fpages spp c l v f (pgs_per_flashpg spp) = {(c', l', b, g). c' = c \<and> l' = l \<and> b = v \<and> g div pgs_per_flashpg spp = f}"
  using div_flash [OF assms] by (auto simp: fpages_def)

lemma seen_step:
  assumes geo: "geometry spp" and f: "f < flashpgs_per_blk spp"
    and r: "c < nchs spp" "l < luns_per_ch spp"
  shows "seen spp v f c (Suc l) = seen spp v f c l \<union> fpages spp c l v f (pgs_per_flashpg spp)"
    "seen spp v f c l \<inter> fpages spp c l v f (pgs_per_flashpg spp) = {}"
proof -
  have g: "g < pgs_per_blk spp" if "g div pgs_per_flashpg spp = f" for g
    using that flash_bound [OF geo f] div_flash [OF geometryD(11) [OF geo]] by metis
  show "seen spp v f c (Suc l) = seen spp v f c l \<union> fpages spp c l v f (pgs_per_flashpg spp)"
    unfolding fpages_eq [OF geometryD(11) [OF geo]] using r g by (auto simp: seen_def less_Suc_eq)
  show "seen spp v f c l \<inter> fpages spp c l v f (pgs_per_flashpg spp) = {}"
    unfolding fpages_eq [OF geometryD(11) [OF geo]] by (auto simp: seen_def)
qed

lemma seen_rows:
  "seen spp v f (Suc c) 0 = seen spp v f c (luns_per_ch spp)"
  "seen spp v (Suc f) 0 0 = seen spp v f (nchs spp) 0" "seen spp v 0 0 0 = {}"
  by (auto simp: seen_def less_Suc_eq)

lemma seen_all:
  assumes "geometry spp"
  shows "seen spp v (flashpgs_per_blk spp) 0 0 = lpages spp v"
proof -
  have "g div pgs_per_flashpg spp < flashpgs_per_blk spp" if "g < pgs_per_blk spp" for g
    using that geometryD(12) [OF assms] by (metis less_mult_imp_div_less mult.commute)
  then show ?thesis by (auto simp: seen_def)
qed

lemma erased_rows:
  "erased spp v f (Suc c) 0 = erased spp v f c (luns_per_ch spp)"
  "Suc f \<le> flashpgs_per_blk spp \<Longrightarrow> erased spp v (Suc f) 0 0 = erased spp v f (nchs spp) 0"
  "0 < flashpgs_per_blk spp \<Longrightarrow> erased spp v 0 0 0 = {}"
  "erased spp v (flashpgs_per_blk spp) 0 0 = lpages spp v"
  by (auto simp: erased_def less_Suc_eq)

lemma erased_step:
  assumes "f < flashpgs_per_blk spp" "c < nchs spp" "l < luns_per_ch spp"
  shows "erased spp v f c (Suc l) =
    (if Suc f = flashpgs_per_blk spp then erased spp v f c l \<union> bpages spp c l v else erased spp v f c l)"
  using assms by (auto simp: erased_def bpages_def less_Suc_eq)

lemma block_seen:
  assumes geo: "geometry spp" and "Suc f = flashpgs_per_blk spp" "c < nchs spp" "l < luns_per_ch spp"
  shows "bpages spp c l v \<subseteq> seen spp v f c (Suc l)"
proof -
  have "g div pgs_per_flashpg spp \<le> f" if "g < pgs_per_blk spp" for g
  proof -
    have "g div pgs_per_flashpg spp < flashpgs_per_blk spp"
      using that geometryD(12) [OF geo] by (metis less_mult_imp_div_less mult.commute)
    then show ?thesis using assms(2) by simp
  qed
  then show ?thesis using assms(3,4) by (auto simp: bpages_def seen_def le_less)
qed

lemma gc_step_spec:
  assumes st: "gc_st v f0 dv0 B (seen (spp_of f0) v f c l) (erased (spp_of f0) v f c l) s"
    and f: "f < flashpgs_per_blk (spp_of f0)"
    and r: "c < nchs (spp_of f0)" "l < luns_per_ch (spp_of f0)" "v < blks_per_pl (spp_of f0)"
    and nf: "\<And>a. a \<in> lpages (spp_of f0) v \<Longrightarrow> pst (cf_ssd f0) a \<noteq> PG_FREE"
  shows "returns (B < int (pgs_per_line (spp_of f0))) (gc_step (of_nat v) f c l s)
    (gc_st v f0 dv0 B (seen (spp_of f0) v f c (Suc l)) (erased (spp_of f0) v f c (Suc l)))"
proof -
  obtain ftl dv where s: "s = (ftl, dv)" by (cases s)
  note S = gc_stD [OF st [unfolded s]]
  let ?spp = "spp_of f0"
  let ?p = "flash_at ?spp c l v f"
  note fa = flash_at_on [OF S(14) f r]
  note ss = seen_step [OF S(14) f r(1,2), of v] and es = erased_step [OF f r(1,2), of v]
  have on: "on_chip (cf_ssd ftl) ?p" using fa S(11) by simp
  have p: "\<lparr>g_pg = of_nat (f * pgs_per_flashpg ?spp), g_blk = of_nat v, g_pl = 0, g_lun = of_nat l,
      g_ch = of_nat c, g_rsv = 0\<rparr> = ?p" by (simp add: flash_at_def ppa_of_def)
  have lun: "\<exists>x. get_lun (cf_ssd ftl) ?p = Some x" using accessors(2) [OF S(13) on fa(1)] by blast
  have cl: "returns (B < int (pgs_per_line ?spp)) (clean_one_flashpg ftl dv ?p)
      (gc_st v f0 dv0 B (seen ?spp v f c (Suc l)) (erased ?spp v f c l))"
    unfolding ss(1) by (rule clean_one_flashpg_spec [OF st [unfolded s] f r ss(2) nf])
  show ?thesis
  proof (cases "Suc f = flashpgs_per_blk ?spp")
    case False
    then show ?thesis
      using lun cl es by (auto simp: gc_step_def s S(11) p [symmetric] p Let_def intro: returns_bind)
  next
    case True
    have last: "returns (B < int (pgs_per_line ?spp)) (do {
        ftl1 \<leftarrow> mark_block_free ftl1 ?p;
        (ftl1, dv1) \<leftarrow>
          (if enable_gc_delay (cp ftl1) then do {
             (ssd, dv, _) \<leftarrow> ssd_advance_nand (cf_ssd ftl1) dv1 (gc_nand_cmd NAND_ERASE 0 ?p);
             Some (ftl1\<lparr>cf_ssd := ssd\<rparr>, dv)
           }
           else Some (ftl1, dv1));
        ssd \<leftarrow> upd_lun (cf_ssd ftl1) ?p (\<lambda>l. Some (l\<lparr>lun_gc_endtime := next_lun_avail_time l\<rparr>));
        Some (ftl1\<lparr>cf_ssd := ssd\<rparr>, dv1) })
      (gc_st v f0 dv0 B (seen ?spp v f c (Suc l)) (erased ?spp v f c (Suc l)))"
      if st1: "gc_st v f0 dv0 B (seen ?spp v f c (Suc l)) (erased ?spp v f c l) (ftl1, dv1)" for ftl1 dv1
    proof -
      obtain f2 where s2: "mark_block_free ftl1 ?p = Some f2"
          "gc_st v f0 dv0 B (seen ?spp v f c (Suc l)) (erased ?spp v f c (Suc l)) (f2, dv1)"
        using gc_erase_block [OF st1 f r block_seen [OF S(14) True r(1,2)]] True es by auto
      obtain ftl3 dv3 where n3: "(if enable_gc_delay (cp f2) then do {
             (ssd, dv, _) \<leftarrow> ssd_advance_nand (cf_ssd f2) dv1 (gc_nand_cmd NAND_ERASE 0 ?p);
             Some (f2\<lparr>cf_ssd := ssd\<rparr>, dv)
           } else Some (f2, dv1)) = Some (ftl3, dv3)"
          "gc_st v f0 dv0 B (seen ?spp v f c (Suc l)) (erased ?spp v f c (Suc l)) (ftl3, dv3)"
      proof (cases "enable_gc_delay (cp f2)")
        case True
        obtain s3 dv3 t where "ssd_advance_nand (cf_ssd f2) dv1 (gc_nand_cmd NAND_ERASE 0 ?p) = Some (s3, dv3, t)"
            "gc_st v f0 dv0 B (seen ?spp v f c (Suc l)) (erased ?spp v f c (Suc l)) (f2\<lparr>cf_ssd := s3\<rparr>, dv3)"
          using gc_nand [OF s2(2), of ?p NAND_ERASE 0] fa by auto
        then show ?thesis using True that by simp
      next
        case False
        then show ?thesis using that s2(2) by simp
      qed
      note S3 = gc_stD [OF n3(2)]
      have on3: "on_chip (cf_ssd ftl3) ?p" using fa S3(11) by simp
      obtain s4 where s4: "upd_lun (cf_ssd ftl3) ?p (\<lambda>l. Some (l\<lparr>lun_gc_endtime := next_lun_avail_time l\<rparr>)) = Some s4"
          "same_view (cf_ssd ftl3) s4"
        using upd_lun_time_spec [OF S3(13) on3, of "\<lambda>l. l\<lparr>lun_gc_endtime := next_lun_avail_time l\<rparr>"] by auto
      have "gc_st v f0 dv0 B (seen ?spp v f c (Suc l)) (erased ?spp v f c (Suc l)) (ftl3\<lparr>cf_ssd := s4\<rparr>, dv3)"
        by (rule gc_st_view [OF n3(2) s4(2) dev_timed_refl [OF S3(12)]])
      then show ?thesis
        unfolding s2(1) Option.bind.simps n3(1) prod.case s4(1) returns_Some .
    qed
    obtain x where x: "get_lun (cf_ssd ftl) ?p = Some x" using lun by blast
    show ?thesis
      unfolding gc_step_def s Let_def prod.case S(11) p x Option.bind.simps
      by (rule returns_bind [OF cl]) (use True last S(11) in \<open>auto simp: gc_stD(11)\<close>)
  qed
qed

theorem gc_copy_line_spec:
  assumes st: "gc_st v f0 dv0 B {} {} s" and v: "v < blks_per_pl (spp_of f0)"
    and nf: "\<And>a. a \<in> lpages (spp_of f0) v \<Longrightarrow> pst (cf_ssd f0) a \<noteq> PG_FREE"
  shows "returns (B < int (pgs_per_line (spp_of f0))) (gc_copy_line (of_nat v) s)
    (gc_st v f0 dv0 B (lpages (spp_of f0) v) (lpages (spp_of f0) v))"
proof -
  let ?spp = "spp_of f0"
  let ?I = "\<lambda>f c l. gc_st v f0 dv0 B (seen ?spp v f c l) (erased ?spp v f c l)"
  have geo: "geometry ?spp" and ss: "spp_of (fst s) = ?spp"
    using gc_stD(11,14) [of v f0 dv0 B "{}" "{}" "fst s" "snd s"] st by simp_all
  have pos: "0 < flashpgs_per_blk ?spp" using geometryD(7,12) [OF geo] by (metis mult_0_right not_gr_zero)
  have "returns (B < int (pgs_per_line ?spp)) (gc_copy_line (of_nat v) s) (?I (flashpgs_per_blk ?spp) 0 0)"
    unfolding gc_copy_line_def Let_def ss
  proof (rule returns_fold_upt [where I = "\<lambda>f. ?I f 0 0"])
    show "?I 0 0 0 s" using st by (simp add: seen_rows erased_rows pos)
    fix f s1 assume f: "f < flashpgs_per_blk ?spp" and 1: "?I f 0 0 s1"
    have "returns (B < int (pgs_per_line ?spp))
        (fold_opt (\<lambda>ch. fold_opt (gc_step (of_nat v) f ch) [0..<luns_per_ch ?spp]) [0..<nchs ?spp] s1)
        (?I f (nchs ?spp) 0)"
    proof (rule returns_fold_upt [where I = "\<lambda>c. ?I f c 0"])
      fix c s2 assume c: "c < nchs ?spp" and 2: "?I f c 0 s2"
      have "returns (B < int (pgs_per_line ?spp)) (fold_opt (gc_step (of_nat v) f c) [0..<luns_per_ch ?spp] s2)
          (?I f c (luns_per_ch ?spp))"
        by (rule returns_fold_upt [where I = "\<lambda>l. ?I f c l"])
          (use 2 gc_step_spec [OF _ f c _ v nf] in auto)
      then show "returns (B < int (pgs_per_line ?spp)) (fold_opt (gc_step (of_nat v) f c) [0..<luns_per_ch ?spp] s2)
          (?I f (Suc c) 0)" by (simp add: seen_rows erased_rows)
    qed (use 1 in auto)
    then show "returns (B < int (pgs_per_line ?spp))
        (fold_opt (\<lambda>ch. fold_opt (gc_step (of_nat v) f ch) [0..<luns_per_ch ?spp]) [0..<nchs ?spp] s1)
        (?I (Suc f) 0 0)" using f by (simp add: seen_rows erased_rows)
  qed simp
  then show ?thesis by (simp add: seen_all [OF geo] erased_rows)
qed

end
