(* ===== verification/Ftl_Select.thy ===== *)
theory Ftl_Select
  imports Ftl_Collect
begin

text \<open>
  The choice of a victim. The three selection functions of \<open>conv_ftl.c\<close> satisfy one contract,
  the locale \<open>victim_policy\<close>: on an instance with the invariant they return, and either leave
  the line manager as it was or take one closed line out of the victim queue. The collection is
  verified against the contract and so for each policy.
\<close>

subsection \<open>The contract\<close>

definition victim_post ::
  "conv_ftl \<Rightarrow> dev \<Rightarrow> conv_ftl \<times> dev \<times> nat option \<Rightarrow> bool" where
  "victim_post ftl dv r \<longleftrightarrow> (case r of (ftl', dv', victim) \<Rightarrow> dev_timed dv dv' \<and>
     (\<exists>m a. ftl' = ftl\<lparr>lm := m, rl := a\<rparr> \<and> free_line_list m = free_line_list (lm ftl) \<and>
       map no_pos (lines m) = map no_pos (lines (lm ftl)) \<and>
       (case victim of
          None \<Rightarrow> m = lm ftl
        | Some v \<Rightarrow> v < tt_lines (spp_of ftl) \<and> v \<in> pq_items (victim_line_pq (lm ftl)) \<and>
            lines_ok (spp_of ftl) (pst (cf_ssd ftl)) m (fills ftl) [v] \<and>
            (\<forall>a \<in> lpages (spp_of ftl) v. pst (cf_ssd ftl) a \<noteq> PG_FREE) \<and>
            npg (pst (cf_ssd ftl)) PG_VALID (lpages (spp_of ftl) v) < pgs_per_line (spp_of ftl))))"

locale victim_policy =
  fixes select_fn :: victim_select_fn
  assumes contract: "ftl_inv ftl \<Longrightarrow> cm_wf (pcie dv) \<Longrightarrow>
    \<exists>r. select_fn ftl dv force = Some r \<and> victim_post ftl dv r"

subsection \<open>Taking a line out of the queue\<close>

lemma ftl_inv_lines:
  assumes "ftl_inv ftl"
  shows "lines_ok (spp_of ftl) (pst (cf_ssd ftl)) (lm ftl) (fills ftl) []" "geometry (spp_of ftl)"
    "length (lines (lm ftl)) = tt_lines (spp_of ftl)"
    "b \<in> pq_items (victim_line_pq (lm ftl)) \<Longrightarrow> b < tt_lines (spp_of ftl)"
    "pq_wf line_ok (victim_line_pq (lm ftl)) (lines (lm ftl))" "pq_cb (victim_line_pq (lm ftl)) = victim_cb"
proof -
  show ln: "lines_ok (spp_of ftl) (pst (cf_ssd ftl)) (lm ftl) (fills ftl) []" and "geometry (spp_of ftl)"
    using assms by (simp_all add: ftl_inv_def ftl_ok_def ssd_ok_geometry)
  show "length (lines (lm ftl)) = tt_lines (spp_of ftl)" by (rule lines_ok_bounds(1) [OF ln])
  show "b \<in> pq_items (victim_line_pq (lm ftl)) \<Longrightarrow> b < tt_lines (spp_of ftl)" by (rule lines_ok_bounds(4) [OF ln])
  show "pq_wf line_ok (victim_line_pq (lm ftl)) (lines (lm ftl))" "pq_cb (victim_line_pq (lm ftl)) = victim_cb"
    using ln by (simp_all add: lines_ok_def que_ok_def)
qed

lemma line_vpc_eq:
  assumes "ftl_inv ftl" "b < tt_lines (spp_of ftl)"
  shows "line_vpc (lines (lm ftl) ! b) = int (npg (pst (cf_ssd ftl)) PG_VALID (lpages (spp_of ftl) b))"
    "line_ipc (lines (lm ftl) ! b) = int (npg (pst (cf_ssd ftl)) PG_INVALID (lpages (spp_of ftl) b))"
    "line_id (lines (lm ftl) ! b) = b"
  using assms cnt_okD [OF _ assms(2)] by (auto simp: ftl_inv_def ftl_ok_def lines_ok_def)

text \<open>The common end of the selections.\<close>

lemma take_victim:
  assumes inv: "ftl_inv ftl" and v: "v \<in> pq_items (victim_line_pq (lm ftl))"
    and st: "pq_step_to line_ok (victim_line_pq (lm ftl)) (lines (lm ftl))
        (pq_items (victim_line_pq (lm ftl)) - {v}) q ls"
    and np: "map no_pos ls = map no_pos (lines (lm ftl))" and dv: "dev_timed dv dv'"
  shows "\<exists>m. upd_line v (\<lambda>l. l\<lparr>line_pos := 0\<rparr>) ((lm ftl)\<lparr>victim_line_pq := q, lines := ls\<rparr>) = Some m \<and>
    victim_post ftl dv (ftl\<lparr>lm := m\<lparr>victim_line_cnt := victim_line_cnt m - 1\<rparr>, rl := a\<rparr>, dv', Some v)"
proof -
  note I = ftl_inv_lines [OF inv]
  obtain m where m: "upd_line v (\<lambda>l. l\<lparr>line_pos := 0\<rparr>) ((lm ftl)\<lparr>victim_line_pq := q, lines := ls\<rparr>) = Some m"
      "lines_ok (spp_of ftl) (pst (cf_ssd ftl)) (m\<lparr>victim_line_cnt := victim_line_cnt m - 1\<rparr>) (fills ftl) [v]"
      "free_line_list m = free_line_list (lm ftl)"
      "\<forall>a \<in> lpages (spp_of ftl) v. pst (cf_ssd ftl) a \<noteq> PG_FREE"
      "npg (pst (cf_ssd ftl)) PG_VALID (lpages (spp_of ftl) v) < card (lpages (spp_of ftl) v)"
      "map no_pos (lines m) = map no_pos (lines (lm ftl))"
    using lines_take [OF I(1) v st np] by blast
  have "victim_post ftl dv (ftl\<lparr>lm := m\<lparr>victim_line_cnt := victim_line_cnt m - 1\<rparr>, rl := a\<rparr>, dv', Some v)"
    unfolding victim_post_def prod.case option.case
    using dv m(2-6) v I(4) [OF v] card_lpages [OF I(2)]
    by (intro conjI exI [of _ "m\<lparr>victim_line_cnt := victim_line_cnt m - 1\<rparr>"] exI [of _ a]) simp_all
  then show ?thesis using m(1) by blast
qed

lemma no_victim:
  "dev_timed dv dv' \<Longrightarrow> victim_post ftl dv (ftl\<lparr>rl := a\<rparr>, dv', None)"
  unfolding victim_post_def prod.case option.case
  by (intro conjI exI [of _ "lm ftl"] exI [of _ a]) simp_all

subsection \<open>The greedy policy\<close>

lemma greedy_contract:
  assumes inv: "ftl_inv ftl" and dv: "cm_wf (pcie dv)"
  shows "\<exists>ftl' v. select_victim_greedy ftl force = Some (ftl', v) \<and> victim_post ftl dv (ftl', dv, v) \<and>
    (\<forall>x. v = Some x \<longrightarrow> (\<forall>b \<in> pq_items (victim_line_pq (lm ftl)).
       line_vpc (lines (lm ftl) ! x) \<le> line_vpc (lines (lm ftl) ! b))) \<and>
    (force \<longrightarrow> v = None \<longrightarrow> pq_items (victim_line_pq (lm ftl)) = {})"
proof -
  note I = ftl_inv_lines [OF inv]
  let ?q = "victim_line_pq (lm ftl)" and ?ls = "lines (lm ftl)"
  note peek = vq.peek_spec [OF I(5,6)]
  have none: "victim_post ftl dv (ftl, dv, None)"
    using no_victim [OF dev_timed_refl [OF dv], of ftl "rl ftl"] by simp
  show ?thesis
  proof (cases "pqueue_peek ?q")
    case None
    then show ?thesis using peek none by (simp add: select_victim_greedy_def)
  next
    case (Some v)
    then have v: "v \<in> pq_items ?q" and best: "\<forall>b \<in> pq_items ?q.
        \<not> victim_line_cmp_pri (victim_line_get_pri ?ls v) (victim_line_get_pri ?ls b)"
      using peek by simp_all
    have min: "line_vpc (?ls ! v) \<le> line_vpc (?ls ! b)" if b: "b \<in> pq_items ?q" for b
    proof -
      note c = count_line [OF I(2) npg_line_le [OF I(2)]]
      have "\<not> (word_of_int (line_vpc (?ls ! b)) :: u64) < word_of_int (line_vpc (?ls ! v))"
        using best b by (simp add: victim_line_cmp_pri_def victim_line_get_pri_def)
      then show ?thesis
        using line_vpc_eq(1) [OF inv I(4)] b v c(2) by (simp add: word_less_nat_alt)
    qed
    have vl: "v < length ?ls" using I(3) I(4) [OF v] by simp
    show ?thesis
    proof (cases "\<not> force \<and> (of_nat (pgs_per_line (spp_of ftl) div 8) :: u64) < word_of_int (line_vpc (?ls ! v))")
      case True
      then show ?thesis using Some vl none by (simp add: select_victim_greedy_def)
    next
      case False
      obtain r q ls where pop: "pqueue_pop ?q ?ls = (r, q, ls)" by (cases "pqueue_pop ?q ?ls")
      have r: "r = Some v" using vq.pop_spec(1) [OF I(5,6) pop] Some by simp
      have st: "pq_step_to line_ok ?q ?ls (pq_items ?q - {v}) q ls"
        using vq.pop_spec(3) [OF I(5,6) pop r] by simp
      have np: "map no_pos ls = map no_pos ?ls"
        using queue_ops_blind(3) [OF _ pop, of "map no_pos"] I(6) no_pos_blind by simp
      obtain m where m: "upd_line v (\<lambda>l. l\<lparr>line_pos := 0\<rparr>) ((lm ftl)\<lparr>victim_line_pq := q, lines := ls\<rparr>) = Some m"
          "victim_post ftl dv (ftl\<lparr>lm := m\<lparr>victim_line_cnt := victim_line_cnt m - 1\<rparr>, rl := rl ftl\<rparr>, dv, Some v)"
        using take_victim [OF inv v st np dev_timed_refl [OF dv], of "rl ftl"] by blast
      then have "select_victim_greedy ftl force =
          Some (ftl\<lparr>lm := m\<lparr>victim_line_cnt := victim_line_cnt m - 1\<rparr>\<rparr>, Some v)"
        using Some False vl pop r by (simp add: select_victim_greedy_def Let_def)
      then show ?thesis using m(2) min by simp
    qed
  qed
qed

subsection \<open>The scored policies\<close>

lemma isqrt_total: "n \<noteq> ULL_MAX \<Longrightarrow> \<exists>r. isqrt_u64 n = Some r"
  by (meson isqrt_u64_spec)

lemma age_weight_cases: "get_age_weight t \<in> {1, 5, 20, 100}"
  by (simp add: get_age_weight_def)

lemma apply_alpha_total: "\<exists>a. apply_alpha (get_age_weight t) level = Some a"
proof -
  have "get_age_weight t \<noteq> ULL_MAX" using age_weight_cases [of t] by auto
  then obtain r where "isqrt_u64 (get_age_weight t) = Some r" using isqrt_total by blast
  then show ?thesis by (simp add: apply_alpha_def)
qed

lemma apply_delta_total: "\<exists>d. apply_delta (ucast (e :: u32) + 1) level = Some d"
proof -
  have "unat (ucast e :: u64) = unat e" by (rule unat_ucast_up) simp
  then have "unat (ucast e + 1 :: u64) \<le> 2 ^ 32"
    using unat_less_pow [of e] by (subst unat_add_nowrap) simp_all
  then have "unat (ucast e + 1 :: u64) \<noteq> unat ULL_MAX" unfolding unat_ULL_MAX by simp
  then have "(ucast e + 1 :: u64) \<noteq> ULL_MAX" by metis
  then obtain r where "isqrt_u64 (ucast e + 1) = Some r" using isqrt_total by blast
  then show ?thesis by (simp add: apply_delta_def)
qed

lemma score_total: "\<exists>num den. compute_victim_score l now al dl = Some (num, den) \<and> den \<noteq> 0"
proof -
  obtain a where a: "apply_alpha (get_age_weight (elapsed_since now (last_modified_time l))) al = Some a"
    using apply_alpha_total by blast
  obtain d where "apply_delta (ucast (line_erase_cnt l) + 1) dl = Some d" using apply_delta_total by blast
  then show ?thesis using a by (auto simp: compute_victim_score_def Let_def)
qed

lemma scored_contract:
  assumes inv: "ftl_inv ftl" and dv: "cm_wf (pcie dv)"
  shows "\<exists>r. select_victim_scored (ftl\<lparr>rl := a\<rparr>) dv al dl = Some r \<and> victim_post ftl dv r"
proof -
  note I = ftl_inv_lines [OF inv]
  let ?m = "lm ftl" and ?q = "victim_line_pq (lm ftl)" and ?ls = "lines (lm ftl)"
  obtain now dv1 where t: "read_clock dv = (now, dv1)" by (cases "read_clock dv")
  have d1: "dev_timed dv dv1" by (rule read_clock_timed [OF dv t])
  show ?thesis
  proof (cases "pq_size ?q \<le> 1")
    case True
    then have "select_victim_scored (ftl\<lparr>rl := a\<rparr>) dv al dl = Some (ftl\<lparr>rl := a\<rparr>, dv1, None)"
      using t by (simp add: select_victim_scored_def)
    then show ?thesis using no_victim [OF d1] by blast
  next
    case False
    let ?I = "\<lambda>s :: nat option \<times> u64 \<times> u64. case s of (best, _, _) \<Rightarrow> (\<forall>v. best = Some v \<longrightarrow> v \<in> pq_items ?q)"
    have "\<exists>s. fold_opt (scan_scored ?m now al dl) [1..<pq_size ?q] (None, 0, 1) = Some s \<and> ?I s"
    proof (rule fold_opt_Some)
      fix i s assume i: "i \<in> set [1..<pq_size ?q]" and "?I s"
      let ?c = "pq_d ?q i"
      have c: "?c \<in> pq_items ?q" using i by (auto simp: pq_items_def)
      then have "?c < length ?ls" using I(3,4) by simp
      then show "\<exists>s'. scan_scored ?m now al dl i s = Some s' \<and> ?I s'"
        using score_total [of "?ls ! ?c" now al dl] c \<open>?I s\<close>
        by (cases s) (auto simp: scan_scored_def Let_def)
    qed simp
    then obtain best n d where scan: "fold_opt (scan_scored ?m now al dl) [1..<pq_size ?q] (None, 0, 1) =
        Some (best, n, d)" "\<And>v. best = Some v \<Longrightarrow> v \<in> pq_items ?q"
      by (auto split: prod.splits)
    show ?thesis
    proof (cases best)
      case None
      then have "select_victim_scored (ftl\<lparr>rl := a\<rparr>) dv al dl = Some (ftl\<lparr>rl := a\<rparr>, dv1, None)"
        using t False scan(1) by (simp add: select_victim_scored_def)
      then show ?thesis using no_victim [OF d1] by blast
    next
      case (Some v)
      note v = scan(2) [OF Some]
      obtain q ls where rm: "pqueue_remove ?q ?ls v = (q, ls)" by (cases "pqueue_remove ?q ?ls v")
      have st: "pq_step_to line_ok ?q ?ls (pq_items ?q - {v}) q ls"
        using vq.remove_spec [OF I(5,6) v rm] by simp
      have np: "map no_pos ls = map no_pos ?ls"
        using queue_ops_blind(2) [OF _ rm, of "map no_pos"] I(6) no_pos_blind by simp
      obtain m where m: "upd_line v (\<lambda>l. l\<lparr>line_pos := 0\<rparr>) (?m\<lparr>victim_line_pq := q, lines := ls\<rparr>) = Some m"
          "victim_post ftl dv (ftl\<lparr>lm := m\<lparr>victim_line_cnt := victim_line_cnt m - 1\<rparr>, rl := a\<rparr>, dv1, Some v)"
        using take_victim [OF inv v st np d1, of a] by blast
      then have "select_victim_scored (ftl\<lparr>rl := a\<rparr>) dv al dl =
          Some (ftl\<lparr>lm := m\<lparr>victim_line_cnt := victim_line_cnt m - 1\<rparr>, rl := a\<rparr>, dv1, Some v)"
        using t False scan(1) Some rm by (simp add: select_victim_scored_def Let_def)
      then show ?thesis using m(2) by blast
    qed
  qed
qed

subsection \<open>The policies of the code\<close>

interpretation greedy: victim_policy greedy_fn
proof
  fix ftl and dv :: dev and force assume "ftl_inv ftl" "cm_wf (pcie dv)"
  then obtain ftl' v where "select_victim_greedy ftl force = Some (ftl', v)" "victim_post ftl dv (ftl', dv, v)"
    using greedy_contract by blast
  then show "\<exists>r. greedy_fn ftl dv force = Some r \<and> victim_post ftl dv r" by (simp add: greedy_fn_def)
qed

interpretation cb: victim_policy select_victim_cb
proof
  show "ftl_inv ftl \<Longrightarrow> cm_wf (pcie dv) \<Longrightarrow> \<exists>r. select_victim_cb ftl dv force = Some r \<and> victim_post ftl dv r"
    for ftl dv force using scored_contract [of ftl dv "rl ftl" 1 0] by (simp add: select_victim_cb_def)
qed

interpretation cat: victim_policy select_victim_cat
proof
  show "ftl_inv ftl \<Longrightarrow> cm_wf (pcie dv) \<Longrightarrow> \<exists>r. select_victim_cat ftl dv force = Some r \<and> victim_post ftl dv r"
    for ftl dv force using scored_contract [of ftl dv "rl ftl" 1 2] by (simp add: select_victim_cat_def)
qed

end
