(* ===== verification/Ftl_Cycle.thy ===== *)
theory Ftl_Cycle
  imports Ftl_Select
begin

text \<open>
  One whole collection: choose a victim, copy its valid pages, give the line back, update the wear
  statistics and, in the learning mode, the agent. It keeps the invariant and the set of mapped
  logical pages; outside the learning mode it returns when two lines are free.
\<close>

subsection \<open>Operations outside the invariant\<close>

text \<open>Two instances that agree on what the invariant reads.\<close>

definition same_data :: "conv_ftl \<Rightarrow> conv_ftl \<Rightarrow> bool" where
  "same_data f f' \<longleftrightarrow> cf_ssd f' = cf_ssd f \<and> maptbl f' = maptbl f \<and> rmap f' = rmap f \<and> lm f' = lm f \<and>
     page_meta_tbl f' = page_meta_tbl f \<and> wp f' = wp f \<and> gc_wp_hot f' = gc_wp_hot f \<and>
     gc_wp_cold f' = gc_wp_cold f \<and> cp f' = cp f"

lemma same_data_inv:
  assumes "same_data f f'"
  shows "ftl_ok X D V ws f' = ftl_ok X D V ws f" "fills f' = fills f" "wps_ok f' = wps_ok f"
    "ftl_inv f' = ftl_inv f" "gpot f' = gpot f"
  using assms by (simp_all add: same_data_def ftl_ok_def fills_def wps_ok_def ftl_inv_def gpot_def)

lemma collect_erase_total:
  assumes "lm_tt_lines m \<le> length (lines m)"
  shows "\<exists>r. collect_erase_stats m = Some r"
proof -
  let ?step = "\<lambda>i (st :: u32 \<times> u32 \<times> u64 \<times> u64). do {
         let (mx, mn, s, sq) = st;
         l \<leftarrow> get_line_at m i;
         let ec = line_erase_cnt l;
         Some (if mx < ec then ec else mx, if ec < mn then ec else mn,
               s + ucast ec, sq + ucast ec * ucast ec)
       }"
  have "\<exists>s'. ?step i st = Some s' \<and> True" if "i \<in> set [0..<lm_tt_lines m]" for i and st :: "u32 \<times> u32 \<times> u64 \<times> u64"
    using that assms by (cases st) (simp add: Let_def)
  then obtain st where "fold_opt ?step [0..<lm_tt_lines m] (0, UINT_MAX, 0, 0) = Some st"
    using fold_opt_Some [of "\<lambda>_. True" "(0, UINT_MAX, 0, 0)" "[0..<lm_tt_lines m]" ?step] by blast
  then show ?thesis by (cases st) (simp add: collect_erase_stats_def)
qed

lemma update_wear_gap_spec:
  assumes "lm_tt_lines (lm f) \<le> length (lines (lm f))"
  shows "\<exists>w. update_wear_gap f = Some (f\<lparr>wgs := w\<rparr>)"
proof -
  obtain mx mn s sq where "collect_erase_stats (lm f) = Some (mx, mn, s, sq)"
    using collect_erase_total [OF assms] by (metis prod_cases4)
  then show ?thesis by (auto simp: update_wear_gap_def Let_def)
qed

lemma rl_get_state_timed:
  assumes "rl_get_state f dv = Some (dv', st)" "cm_wf (pcie dv)"
  shows "dev_timed dv dv'"
proof -
  obtain now dv1 where t: "read_clock dv = (now, dv1)" by (cases "read_clock dv")
  have "dv' = dv1" using assms(1) t by (auto simp: rl_get_state_def bind_Some_iff Let_def)
  then show ?thesis using read_clock_timed [OF assms(2) t] by simp
qed

lemma random_timed: "cm_wf (pcie dv) \<Longrightarrow> get_random_u32 dv = (x, dv') \<Longrightarrow> dev_timed dv dv'"
  by (cases dv) (auto simp: get_random_u32_def dev_timed_def)

lemma rl_select_action_timed:
  assumes "rl_select_action r dv st = Some (dv', a)" "cm_wf (pcie dv)"
  shows "dev_timed dv dv'"
proof -
  obtain x dv1 where 1: "get_random_u32 dv = (x, dv1)" by (cases "get_random_u32 dv")
  obtain y dv2 where 2: "get_random_u32 dv1 = (y, dv2)" by (cases "get_random_u32 dv1")
  note t1 = random_timed [OF assms(2) 1]
  note t2 = dev_timed_trans [OF t1 random_timed [OF dev_timed_wf [OF t1] 2]]
  show ?thesis
    using assms(1) 1 2 t1 t2 by (auto simp: rl_select_action_def bind_Some_iff Let_def split: if_split_asm)
qed

lemma rl_update_same: "rl_update_agent f st = Some f' \<Longrightarrow> \<exists>a. f' = f\<lparr>rl := a\<rparr>"
  by (auto simp: rl_update_agent_def bind_Some_iff Let_def split: prod.splits)

subsection \<open>The victim goes back\<close>

lemma mark_line_free_spec:
  assumes st: "gc_st v f0 dv0 B (lpages (spp_of f0) v) (lpages (spp_of f0) v) (ftl, dv)"
    and v: "v < tt_lines (spp_of f0)" and p: "unat (g_blk p) = v"
  shows "\<exists>m. mark_line_free ftl p = Some (ftl\<lparr>lm := m\<rparr>) \<and> ftl_inv (ftl\<lparr>lm := m\<rparr>) \<and>
    length (free_line_list m) = Suc (length (free_line_list (lm ftl)))"
proof -
  let ?spp = "spp_of f0"
  note S = gc_stD [OF st]
  have ln: "lines_ok ?spp (pst (cf_ssd ftl)) (lm ftl) (fills ftl) [v]" using S(1,11) by (simp add: ftl_ok_def)
  have free: "\<forall>a \<in> lpages ?spp v. pst (cf_ssd ftl) a = PG_FREE" using S(5) by blast
  obtain m1 where m1: "upd_line v (\<lambda>l. l\<lparr>line_ipc := 0, line_vpc := 0, line_erase_cnt := line_erase_cnt l + 1\<rparr>) (lm ftl) = Some m1"
      "lines_ok ?spp (pst (cf_ssd ftl)) (m1\<lparr>free_line_list := free_line_list m1 @ [v], free_line_cnt := free_line_cnt m1 + 1\<rparr>) (fills ftl) []"
      "free_line_list m1 = free_line_list (lm ftl)"
    using lines_give_back [OF ln free] by blast
  let ?m = "m1\<lparr>free_line_list := free_line_list m1 @ [v], free_line_cnt := free_line_cnt m1 + 1\<rparr>"
  have "map_ok ?spp (pst (cf_ssd ftl)) (maptbl ftl) (rmap ftl) {} {}"
    by (rule map_ok_exempt [of _ _ _ _ "lpages ?spp v"]) (use S(1,11) free in \<open>auto simp: ftl_ok_def\<close>)
  then have "ftl_inv (ftl\<lparr>lm := ?m\<rparr>)"
    using S(1,2,11) m1(2) fills_cong [of "ftl\<lparr>lm := ?m\<rparr>" ftl] by (simp add: ftl_inv_def ftl_ok_def)
  moreover have "mark_line_free ftl p = Some (ftl\<lparr>lm := ?m\<rparr>)"
    using m1(1) by (simp add: mark_line_free_def p)
  ultimately show ?thesis using m1(3) by (intro exI [of _ ?m]) simp
qed

subsection \<open>One collection\<close>

text \<open>What a collection leaves to the user: the same pages are mapped, by the same parameters.\<close>

definition collected :: "conv_ftl \<Rightarrow> conv_ftl \<Rightarrow> bool" where
  "collected f f' \<longleftrightarrow> ftl_inv f' \<and> spp_of f' = spp_of f \<and> cp f' = cp f \<and> wp f' = wp f \<and>
     page_meta_tbl f' = page_meta_tbl f \<and>
     (\<forall>l < tt_pgs (spp_of f). mapped_ppa (maptbl f' ! l) \<longleftrightarrow> mapped_ppa (maptbl f ! l)) \<and>
     length (free_line_list (lm f)) \<le> length (free_line_list (lm f')) + 1"

lemma collected_same_trans:
  assumes "collected f f'" "same_data f' f''"
  shows "collected f f''"
  using assms(1) same_data_inv(4) [OF assms(2)] assms(2) unfolding collected_def same_data_def by simp

lemma collected_same:
  assumes "ftl_inv f" "same_data f f'"
  shows "collected f f'"
  by (rule collected_same_trans [OF _ assms(2)]) (simp add: collected_def assms(1))

lemma free_lines_after:
  assumes geo: "geometry (spp_of f)" and w: "wps_ok f" and spp: "spp_of f' = spp_of f"
    and g: "gpot f' \<le> gpot f + int n" and n: "n < pgs_per_line (spp_of f)"
  shows "length (free_line_list (lm f)) \<le> length (free_line_list (lm f')) + 2"
proof (rule ccontr)
  let ?n = "int (pgs_per_line (spp_of f))"
  let ?F = "int (length (free_line_list (lm f)))" and ?G = "int (length (free_line_list (lm f')))"
  assume "\<not> length (free_line_list (lm f)) \<le> length (free_line_list (lm f')) + 2"
  then have "?G + 3 \<le> ?F" by linarith
  then have "?n * (?G + 3) \<le> ?n * ?F" by (intro mult_left_mono) auto
  then have FG: "?n * ?G + 3 * ?n \<le> ?n * ?F" by (simp add: algebra_simps)
  have "int (wp_idx (spp_of f) (gc_wp_hot f)) < ?n" "int (wp_idx (spp_of f) (gc_wp_cold f)) < ?n"
    using w wp_idx_less [OF geo] by (simp_all add: wps_ok_def)
  moreover have "- (?n * ?G) \<le> gpot f'" by (simp add: gpot_def spp)
  ultimately show False
    using FG g n unfolding gpot_def by linarith
qed

text \<open>The state in which copying starts: the victim is out of the queue, the counters are set.\<close>

definition gc_start :: "conv_ftl \<Rightarrow> conv_ftl \<Rightarrow> nat \<Rightarrow> bool" where
  "gc_start f f2 v \<longleftrightarrow> f2\<lparr>lm := lm f, rl := rl f, gc_count := gc_count f, wfc := wfc f\<rparr> = f \<and>
     free_line_list (lm f2) = free_line_list (lm f) \<and> v < tt_lines (spp_of f) \<and>
     lines_ok (spp_of f) (pst (cf_ssd f)) (lm f2) (fills f) [v] \<and>
     (\<forall>a \<in> lpages (spp_of f) v. pst (cf_ssd f) a \<noteq> PG_FREE) \<and>
     npg (pst (cf_ssd f)) PG_VALID (lpages (spp_of f) v) < pgs_per_line (spp_of f)"

lemma gc_startD:
  assumes "gc_start f f2 v"
  shows "cf_ssd f2 = cf_ssd f" "maptbl f2 = maptbl f" "rmap f2 = rmap f" "wp f2 = wp f"
    "page_meta_tbl f2 = page_meta_tbl f" "gc_wp_hot f2 = gc_wp_hot f" "gc_wp_cold f2 = gc_wp_cold f" "cp f2 = cp f"
proof -
  have e: "f2\<lparr>lm := lm f, rl := rl f, gc_count := gc_count f, wfc := wfc f\<rparr> = f" using assms by (simp add: gc_start_def)
  show "cf_ssd f2 = cf_ssd f" "maptbl f2 = maptbl f" "rmap f2 = rmap f" "wp f2 = wp f"
    "page_meta_tbl f2 = page_meta_tbl f" "gc_wp_hot f2 = gc_wp_hot f" "gc_wp_cold f2 = gc_wp_cold f" "cp f2 = cp f"
    by (subst e [symmetric], simp)+
qed


lemma gc_copied:
  assumes inv: "ftl_inv f" and dv: "dev_timed dv dv1" and s: "gc_start f f2 v"
  defines "B \<equiv> gpot f + int (npg (pst (cf_ssd f)) PG_VALID (lpages (spp_of f) v))"
  shows "returns (2 \<le> length (free_line_list (lm f))) (gc_copy_line (of_nat v) (f2, dv1))
    (gc_st v f2 dv1 B (lpages (spp_of f) v) (lpages (spp_of f) v))"
proof -
  let ?spp = "spp_of f"
  note F = gc_startD [OF s]
  have S: "free_line_list (lm f2) = free_line_list (lm f)" "v < tt_lines ?spp"
      "lines_ok ?spp (pst (cf_ssd f)) (lm f2) (fills f) [v]"
      "\<forall>a \<in> lpages ?spp v. pst (cf_ssd f) a \<noteq> PG_FREE"
      "npg (pst (cf_ssd f)) PG_VALID (lpages ?spp v) < pgs_per_line ?spp"
    using s by (simp_all add: gc_start_def)
  have geo: "geometry ?spp" and wps: "wps_ok f" and fo: "ftl_ok {} {} [] (fills f) f"
    using inv by (simp_all add: ftl_inv_def ftl_ok_def ssd_ok_geometry)
  have vb: "v < blks_per_pl ?spp" using S(2) geometryD(19) [OF geo] by simp
  have ok2: "ftl_ok {} {} [v] (fills f2) f2" "wps_ok f2"
    using fo S(3) wps F fills_cong [of f2 f] by (simp_all add: ftl_ok_def)
  have g2: "gpot f2 = gpot f" using F S(1) by (simp add: gpot_def)
  have st: "gc_st v f2 dv1 B {} {} (f2, dv1)"
    unfolding gc_st_def
    using ok2 F(1) dev_timed_wf [OF dv] by (simp add: B_def g2 moved_refl gc_frame_refl dev_timed_refl)
  have nf: "pst (cf_ssd f2) a \<noteq> PG_FREE" if "a \<in> lpages (spp_of f2) v" for a using S(4) that F(1) by simp
  have "B < int (pgs_per_line ?spp)" if "2 \<le> length (free_line_list (lm f))"
    using gpot_bound [OF geo wps] that S(5) by (simp add: B_def)
  then show ?thesis
    using gc_copy_line_spec [OF st _ nf] vb F(1) by (auto elim: returns_weaken)
qed

lemma gc_finish_spec:
  assumes inv: "ftl_inv f" and dv: "dev_timed dv dv1" and s: "gc_start f f2 v"
  defines "B \<equiv> gpot f + int (npg (pst (cf_ssd f)) PG_VALID (lpages (spp_of f) v))"
  assumes st: "gc_st v f2 dv1 B (lpages (spp_of f) v) (lpages (spp_of f) v) st"
  shows "returns (gc_mode \<noteq> GC_MODE_RL) (gc_finish gc_mode (of_nat v) st)
    (\<lambda>(ftl', dv', r). collected f ftl' \<and> dev_timed dv dv')"
proof -
  let ?spp = "spp_of f"
  note F = gc_startD [OF s]
  have geo: "geometry ?spp" and wps: "wps_ok f"
    using inv by (simp_all add: ftl_inv_def ftl_ok_def ssd_ok_geometry)
  have G: "free_line_list (lm f2) = free_line_list (lm f)" "v < tt_lines ?spp"
      "npg (pst (cf_ssd f)) PG_VALID (lpages ?spp v) < pgs_per_line ?spp"
    using s by (simp_all add: gc_start_def)
  obtain f3 dv3 where sp: "st = (f3, dv3)" by (cases st)
  note S = gc_stD [OF st [unfolded sp], unfolded F(1)]
  have s': "gc_st v f2 dv1 B (lpages (spp_of f2) v) (lpages (spp_of f2) v) (f3, dv3)" using st sp F(1) by simp
  have "v < blks_per_pl ?spp" using G(2) geometryD(19) [OF geo] by simp
  then have bu: "unat (of_nat v :: u16) = v" using geometryD(6) [OF geo] by (intro unat_of_nat_small) simp
  let ?p = "\<lparr>g_pg = 0, g_blk = of_nat v, g_pl = 0, g_lun = 0, g_ch = 0, g_rsv = 0\<rparr> :: ppa"
  have "v < tt_lines (spp_of f2)" "unat (g_blk ?p) = v" using G(2) bu F(1) by simp_all
  then obtain m4 where m4: "mark_line_free f3 ?p = Some (f3\<lparr>lm := m4\<rparr>)" "ftl_inv (f3\<lparr>lm := m4\<rparr>)"
      "length (free_line_list m4) = Suc (length (free_line_list (lm f3)))"
    using mark_line_free_spec [OF s'] by blast
  let ?f4 = "f3\<lparr>lm := m4\<rparr>"
  have tl: "lm_tt_lines (lm ?f4) \<le> length (lines (lm ?f4))"
    using lines_ok_bounds(1,2) [OF ftl_inv_lines(1) [OF m4(2)]] by simp
  obtain w where w: "update_wear_gap ?f4 = Some (?f4\<lparr>wgs := w\<rparr>)"
    using update_wear_gap_spec [OF tl] by blast
  have "length (free_line_list (lm f)) \<le> length (free_line_list (lm f3)) + 2"
    using free_lines_after [OF geo wps _ _ G(3), of f3] S(7,11) by (simp add: B_def)
  then have col: "collected f ?f4"
    using m4(2,3) S(8,9,11) F by (simp add: collected_def moved_def gc_frame_def)
  have c5: "collected f (?f4\<lparr>wgs := w\<rparr>)"
    by (rule collected_same_trans [OF col]) (simp add: same_data_def)
  have d3: "dev_timed dv dv3" by (rule dev_timed_trans [OF dv S(10)])
  show ?thesis
  proof (cases "gc_mode = GC_MODE_RL")
    case False
    then show ?thesis using m4(1) w c5 d3 by (simp add: gc_finish_def sp)
  next
    case True
    have "collected f f' \<and> dev_timed dv dv'"
      if g: "rl_get_state (?f4\<lparr>wgs := w\<rparr>) dv3 = Some (dv', ns)"
        and u: "rl_update_agent (?f4\<lparr>wgs := w\<rparr>) ns = Some f'" for dv' ns f'
    proof
      obtain a where "f' = ?f4\<lparr>wgs := w, rl := a\<rparr>" using rl_update_same [OF u] by blast
      then show "collected f f'" by (intro collected_same_trans [OF c5]) (simp add: same_data_def)
      show "dev_timed dv dv'"
        by (rule dev_timed_trans [OF d3 rl_get_state_timed [OF g dev_timed_wf [OF d3]]])
    qed
    then show ?thesis
      using True m4(1) w by (intro returnsI) (auto simp: gc_finish_def sp bind_Some_iff)
  qed
qed

context victim_policy
begin

lemma choose_spec:
  assumes inv: "ftl_inv ftl" and dv: "cm_wf (pcie dv)"
  shows "returns (gc_mode \<noteq> GC_MODE_RL) (choose_victim gc_mode ftl dv force select_fn) (victim_post ftl dv)"
proof (cases "gc_mode = GC_MODE_RL")
  case False
  then show ?thesis using contract [OF assms, of force] by (auto simp: choose_victim_def)
next
  case True
  have "victim_post ftl dv r" if r: "choose_victim gc_mode ftl dv force select_fn = Some r" for r
  proof -
    obtain dv1 s dv2 a where 1: "rl_get_state ftl dv = Some (dv1, s)"
        "rl_select_action (rl ftl) dv1 s = Some (dv2, a)"
      and r: "select_victim_scored (ftl\<lparr>rl := rl_decode_action ((rl ftl)\<lparr>cur_state := s\<rparr>) a\<rparr>) dv2
          (alpha_level (rl_decode_action ((rl ftl)\<lparr>cur_state := s\<rparr>) a))
          (delta_level (rl_decode_action ((rl ftl)\<lparr>cur_state := s\<rparr>) a)) = Some r"
      using r True by (auto simp: choose_victim_def bind_Some_iff Let_def)
    have d1: "dev_timed dv dv1" by (rule rl_get_state_timed [OF 1(1) dv])
    have d2: "dev_timed dv dv2"
      by (rule dev_timed_trans [OF d1 rl_select_action_timed [OF 1(2) dev_timed_wf [OF d1]]])
    obtain r' where "victim_post ftl dv2 r'" "r' = r"
      using scored_contract [OF inv dev_timed_wf [OF d2]] r by (metis option.inject)
    then show ?thesis using dev_timed_trans [OF d2] by (cases r) (auto simp: victim_post_def)
  qed
  then show ?thesis using True by (auto intro: returnsI)
qed

lemma do_gc_spec:
  assumes inv: "ftl_inv ftl" and dv: "cm_wf (pcie dv)"
  shows "returns (gc_mode \<noteq> GC_MODE_RL \<and> 2 \<le> length (free_line_list (lm ftl)))
    (do_gc gc_mode ftl dv force select_fn)
    (\<lambda>(ftl', dv', r). collected ftl ftl' \<and> dev_timed dv dv')"
  unfolding do_gc_def
proof (rule returns_bind [OF choose_spec [OF assms]], simp)
  fix r assume post: "victim_post ftl dv r"
  obtain f1 dv1 victim where r: "r = (f1, dv1, victim)" by (cases r)
  let ?c = "gc_mode \<noteq> GC_MODE_RL \<and> 2 \<le> length (free_line_list (lm ftl))" and ?spp = "spp_of ftl"
  obtain m a where P: "dev_timed dv dv1" "f1 = ftl\<lparr>lm := m, rl := a\<rparr>" "free_line_list m = free_line_list (lm ftl)"
    using post by (auto simp: victim_post_def r)
  show "returns ?c (case r of (ftl, dv, victim) \<Rightarrow> (case victim of
       None \<Rightarrow> Some (ftl\<lparr>wfc := (wfc ftl)\<lparr>credits_to_refill := 0\<rparr>\<rparr>, dv, - 1)
     | Some v \<Rightarrow> do {
         l \<leftarrow> get_line_at (lm ftl) v;
         let ftl = ftl\<lparr>gc_count := gc_count ftl + 1\<rparr>;
         let blk = (of_nat (line_id l) :: u16);
         let ftl = (if gc_mode = GC_MODE_RL
                    then ftl\<lparr>rl := (rl ftl)\<lparr>last_victim_ec := line_erase_cnt l\<rparr>\<rparr> else ftl);
         let ftl = ftl\<lparr>wfc := (wfc ftl)\<lparr>credits_to_refill := word_of_int (line_ipc l)\<rparr>\<rparr>;
         s \<leftarrow> gc_copy_line blk (ftl, dv);
         gc_finish gc_mode blk s
       })) (\<lambda>(ftl', dv', r). collected ftl ftl' \<and> dev_timed dv dv')"
  proof (cases victim)
    case None
    then have "m = lm ftl" using post P(2) by (auto simp: victim_post_def r dest: arg_cong [where f = lm])
    then have "same_data ftl (f1\<lparr>wfc := (wfc f1)\<lparr>credits_to_refill := 0\<rparr>\<rparr>)" by (simp add: same_data_def P(2))
    then show ?thesis using r None P(1) collected_same [OF inv] by simp
  next
    case (Some v)
    have v: "v < tt_lines ?spp" "lines_ok ?spp (pst (cf_ssd ftl)) m (fills ftl) [v]"
      "\<forall>a \<in> lpages ?spp v. pst (cf_ssd ftl) a \<noteq> PG_FREE"
      "npg (pst (cf_ssd ftl)) PG_VALID (lpages ?spp v) < pgs_per_line ?spp"
      using post P(2) Some by (auto simp: victim_post_def r dest: arg_cong [where f = lm])
    have len: "get_line_at (lm f1) v = Some (lines m ! v)"
      using lines_ok_bounds(1) [OF v(2)] v(1) P(2) by simp
    have id: "line_id (lines m ! v) = v"
      using v(1,2) cnt_okD(2) by (auto simp: lines_ok_def)
    have start: "gc_start ftl f2 v"
      if "f2\<lparr>rl := rl ftl, gc_count := gc_count ftl, wfc := wfc ftl\<rparr> = ftl\<lparr>lm := m\<rparr>" for f2
    proof -
      have "lm f2 = m" using arg_cong [OF that, where f = lm] by simp
      moreover have "f2\<lparr>lm := lm ftl, rl := rl ftl, gc_count := gc_count ftl, wfc := wfc ftl\<rparr> = ftl"
        using arg_cong [OF that, where f = "\<lambda>f. f\<lparr>lm := lm ftl\<rparr>"] by (cases f2) simp
      ultimately show ?thesis using v P(3) by (simp add: gc_start_def)
    qed
    have run: "returns ?c (Option.bind (gc_copy_line (of_nat v) (f2, dv1)) (gc_finish gc_mode (of_nat v)))
        (\<lambda>(ftl', dv', r). collected ftl ftl' \<and> dev_timed dv dv')"
      if f2: "f2\<lparr>rl := rl ftl, gc_count := gc_count ftl, wfc := wfc ftl\<rparr> = ftl\<lparr>lm := m\<rparr>" for f2
      by (rule returns_bind [OF gc_copied [OF inv P(1) start [OF f2]]])
        (auto intro: returns_weaken [OF gc_finish_spec [OF inv P(1) start [OF f2]]])
    show ?thesis
      unfolding r prod.case Some option.case len Option.bind.bind_lunit id Let_def
      by (rule run) (simp add: P(2))
  qed
qed

end

end
