(* ===== verification/Ftl_Write.thy ===== *)
theory Ftl_Write
  imports Ftl_Cycle
begin

text \<open>
  One logical page of a host write, with the collection it may trigger. It keeps the invariant,
  maps the page to the place the user write pointer shows, and keeps every other logical page
  mapped; it returns when three lines are free, outside the learning mode.
\<close>

subsection \<open>Foreground collection\<close>

lemma foreground_gc_spec:
  assumes inv: "ftl_inv ftl" and dv: "cm_wf (pcie dv)"
  shows "returns (gc_mode \<noteq> GC_MODE_RL \<and> 2 \<le> length (free_line_list (lm ftl))) (foreground_gc gc_mode ftl dv)
    (\<lambda>(ftl', dv'). collected ftl ftl' \<and> dev_timed dv dv')"
proof (cases "should_gc_high ftl")
  case False
  have "collected ftl ftl" by (simp add: collected_def inv)
  then show ?thesis using False dev_timed_refl [OF dv] by (simp add: foreground_gc_def)
next
  case True
  let ?sel = "if gc_mode = GC_MODE_CB then select_victim_cb
     else if gc_mode = GC_MODE_CAT then select_victim_cat else greedy_fn"
  have "returns (gc_mode \<noteq> GC_MODE_RL \<and> 2 \<le> length (free_line_list (lm ftl))) (do_gc gc_mode ftl dv True ?sel)
      (\<lambda>(ftl', dv', r). collected ftl ftl' \<and> dev_timed dv dv')"
    using cb.do_gc_spec [OF assms] cat.do_gc_spec [OF assms] greedy.do_gc_spec [OF assms]
    by (simp split: if_split)
  then show ?thesis
    unfolding foreground_gc_def using True
    by (simp only: not_True_eq_False if_False) (rule returns_bind, assumption, assumption, auto)
qed

lemma refill_spec:
  assumes inv: "ftl_inv ftl" and dv: "cm_wf (pcie dv)"
  shows "returns (gc_mode \<noteq> GC_MODE_RL \<and> 2 \<le> length (free_line_list (lm ftl)))
    (check_and_refill_write_credit gc_mode ftl dv)
    (\<lambda>(ftl', dv'). collected ftl ftl' \<and> dev_timed dv dv' \<and> (0 < write_credits (wfc ftl) \<longrightarrow> ftl' = ftl))"
proof (cases "write_credits (wfc ftl) \<le> 0")
  case False
  have "collected ftl ftl" by (simp add: collected_def inv)
  then show ?thesis using False dev_timed_refl [OF dv] by (simp add: check_and_refill_write_credit_def)
next
  case True
  have same: "collected ftl (f\<lparr>wfc := x\<rparr>)" if "collected ftl f" for f x
    by (rule collected_same_trans [OF that]) (simp add: same_data_def)
  show ?thesis
    using True foreground_gc_spec [OF assms, of gc_mode] same
    by (auto simp: check_and_refill_write_credit_def Let_def intro!: returns_bind [OF foreground_gc_spec [OF assms, of gc_mode]])
qed

subsection \<open>The steps of one page\<close>

lemma wp_user: "the_wp f USER_IO = wp f" "USER_IO \<in> io_types"
  by (simp_all add: the_wp_def io_types_def)

lemma map_new_page_spec:
  fixes lpn :: u64
  assumes ok: "ftl_ok {unat lpn} {} [] (fills f) f" and w: "wps_ok f" and l: "unat lpn < tt_pgs (spp_of f)"
  defines "a \<equiv> wp_at (wp f)"
  shows "\<exists>ssd m. let f1 = f\<lparr>maptbl := (maptbl f)[unat lpn := ppa_of a], rmap := (rmap f)[idx_of (spp_of f) a := lpn],
        cf_ssd := ssd, lm := m, host_written_pages := host_written_pages f + 1\<rparr> in
      map_new_page f lpn = Some (f1, ppa_of a) \<and> sp ssd = spp_of f \<and> free_line_list m = free_line_list (lm f) \<and>
      ftl_ok {} {} [] ((curline (wp f), wp_idx (spp_of f) (wp f) + 1) # map (fill (spp_of f)) (other_wps f USER_IO)) f1"
proof -
  let ?ws = "map (fill (spp_of f)) (other_wps f USER_IO)"
  note geo = ftl_ok_geometry [OF ok]
  have wf: "wp_wf (spp_of f) (wp f)" using w by (simp add: wps_ok_def)
  note new = get_new_page_spec [OF wp_user(2) geo, unfolded wp_user(1), OF wf]
  have "ftl_ok {unat lpn} {} [] ((curline (wp f), wp_idx (spp_of f) (wp f)) # ?ws) f"
    by (rule ftl_ok_perm [OF ok]) (simp only: fills_io [of f USER_IO] wp_user(1) fill_def)
  then obtain ssd m where P: "set_maptbl_ent f lpn (ppa_of a) = Some (f\<lparr>maptbl := (maptbl f)[unat lpn := ppa_of a]\<rparr>)"
      "set_rmap_ent (f\<lparr>maptbl := (maptbl f)[unat lpn := ppa_of a]\<rparr>) lpn (ppa_of a) =
         Some (f\<lparr>maptbl := (maptbl f)[unat lpn := ppa_of a], rmap := (rmap f)[idx_of (spp_of f) a := lpn]\<rparr>)"
      "mark_page_valid (f\<lparr>maptbl := (maptbl f)[unat lpn := ppa_of a], rmap := (rmap f)[idx_of (spp_of f) a := lpn]\<rparr>) (ppa_of a) =
         Some (f\<lparr>maptbl := (maptbl f)[unat lpn := ppa_of a], rmap := (rmap f)[idx_of (spp_of f) a := lpn],
           cf_ssd := ssd, lm := m\<rparr>)"
      "ftl_ok {} {} [] ((curline (wp f), wp_idx (spp_of f) (wp f) + 1) # ?ws) (f\<lparr>maptbl := (maptbl f)[unat lpn := ppa_of a],
         rmap := (rmap f)[idx_of (spp_of f) a := lpn], cf_ssd := ssd, lm := m\<rparr>)"
      "sp ssd = spp_of f" "free_line_list m = free_line_list (lm f)"
    using program_page_spec [OF _ l wp_at_lpages [OF wf] wp_at_pidx] unfolding Let_def a_def by blast
  have "map_new_page f lpn = Some (f\<lparr>maptbl := (maptbl f)[unat lpn := ppa_of a], rmap := (rmap f)[idx_of (spp_of f) a := lpn],
        cf_ssd := ssd, lm := m, host_written_pages := host_written_pages f + 1\<rparr>, ppa_of a)"
    using new(1) P(1-3) by (simp add: map_new_page_def a_def [symmetric])
  then show ?thesis
    using P(4-6) unfolding Let_def by (intro exI [of _ ssd] exI [of _ m]) (simp add: ftl_ok_def)
qed

lemma rl_note_write_spec:
  assumes "cm_wf (pcie dv)"
  shows "\<exists>r dv'. rl_note_write gc_mode f dv pm = (f\<lparr>rl := r\<rparr>, dv') \<and> dev_timed dv dv'"
proof (cases "gc_mode = GC_MODE_RL")
  case False
  then show ?thesis
    using dev_timed_refl [OF assms] by (intro exI [of _ "rl f"] exI [of _ dv]) (simp add: rl_note_write_def)
next
  case True
  obtain now dv1 where t: "read_clock dv = (now, dv1)" by (cases "read_clock dv")
  then show ?thesis
    unfolding rl_note_write_def Let_def t prod.case if_P [OF True]
    using read_clock_timed [OF assms t] by blast
qed

lemma touch_page_meta_spec:
  assumes l: "unat lpn < length (page_meta_tbl f)" and dv: "cm_wf (pcie dv)"
  shows "\<exists>t r d dv'. touch_page_meta gc_mode f dv lpn = Some (f\<lparr>rl := r, page_meta_tbl := t, avg_hot_degree := d\<rparr>, dv') \<and>
    length t = length (page_meta_tbl f) \<and> dev_timed dv dv'"
proof -
  let ?pm = "page_meta_tbl f ! unat lpn"
  obtain r dv1 where r: "rl_note_write gc_mode f dv ?pm = (f\<lparr>rl := r\<rparr>, dv1)" "dev_timed dv dv1"
    using rl_note_write_spec [OF dv] by blast
  obtain now dv2 where t: "read_clock dv1 = (now, dv2)" by (cases "read_clock dv1")
  have "dev_timed dv dv2" by (rule dev_timed_trans [OF r(2) read_clock_timed [OF dev_timed_wf [OF r(2)] t]])
  then show ?thesis
    using l r(1) t
    by (intro exI [of _ "(page_meta_tbl f)[unat lpn := \<lparr>update_cnt = update_cnt ?pm + 1, last_write_time = now\<rparr>]"]
        exI [of _ r] exI [of _ dv2] exI)
      (auto simp: touch_page_meta_def rd_def wr_def Let_def)
qed

text \<open>Invalidate and map: the instance before its write pointer moves.\<close>

definition placed :: "conv_ftl \<Rightarrow> nat \<Rightarrow> conv_ftl \<Rightarrow> bool" where
  "placed f l f1 \<longleftrightarrow>
     ftl_ok {} {} [] ((curline (wp f), wp_idx (spp_of f) (wp f) + 1) # map (fill (spp_of f)) (other_wps f USER_IO)) f1 \<and>
     spp_of f1 = spp_of f \<and> cp f1 = cp f \<and> wfc f1 = wfc f \<and>
     wp f1 = wp f \<and> other_wps f1 USER_IO = other_wps f USER_IO \<and>
     free_line_list (lm f1) = free_line_list (lm f) \<and> maptbl f1 = (maptbl f)[l := ppa_of (wp_at (wp f))]"

lemma placed_spec:
  fixes lpn :: u64
  assumes inv: "ftl_inv f" and dv: "cm_wf (pcie dv)" and l: "unat lpn < tt_pgs (spp_of f)"
  shows "\<exists>f0 dv0 f1 f2 dv2. invalidate_old f dv lpn = Some (f0, dv0) \<and>
    map_new_page f0 lpn = Some (f1, ppa_of (wp_at (wp f))) \<and>
    touch_page_meta gc_mode f1 dv0 lpn = Some (f2, dv2) \<and> dev_timed dv dv2 \<and> placed f (unat lpn) f2"
proof -
  have ok: "ftl_ok {} {} [] (fills f) f" and w: "wps_ok f" using inv by (simp_all add: ftl_inv_def)
  note geo = ftl_ok_geometry [OF ok]
  have open_w: "\<forall>x \<in> set (fills f). snd x < pgs_per_line (spp_of f)"
    using w wp_idx_less [OF geo] by (auto simp: fills_def fill_def wps_ok_def)
  obtain ssd m rm dv0 where A: "invalidate_old f dv lpn = Some (f\<lparr>cf_ssd := ssd, lm := m, rmap := rm\<rparr>, dv0)"
      "dev_timed dv dv0" "ftl_ok {unat lpn} {} [] (fills f) (f\<lparr>cf_ssd := ssd, lm := m, rmap := rm\<rparr>)"
      "sp ssd = spp_of f" "free_line_list m = free_line_list (lm f)"
    using invalidate_old_spec [OF ok open_w l dv] by blast
  define f0 where "f0 = f\<lparr>cf_ssd := ssd, lm := m, rmap := rm\<rparr>"
  have e0: "spp_of f0 = spp_of f" "wp f0 = wp f" "other_wps f0 USER_IO = other_wps f USER_IO" "wfc f0 = wfc f"
    "cp f0 = cp f" "maptbl f0 = maptbl f" "page_meta_tbl f0 = page_meta_tbl f" "free_line_list (lm f0) = free_line_list (lm f)"
    using A(4,5) by (simp_all add: f0_def other_wps_def)
  have fl: "fills f0 = fills f" using A(4) by (simp add: f0_def fills_def)
  have ok0: "ftl_ok {unat lpn} {} [] (fills f0) f0" using A(3) by (simp only: f0_def [symmetric] fl)
  have w0: "wps_ok f0" using w A(4) by (simp add: f0_def wps_ok_def)
  have l0: "unat lpn < tt_pgs (spp_of f0)" using l e0(1) by simp
  obtain ssd1 m1 where B: "map_new_page f0 lpn = Some (f0\<lparr>maptbl := (maptbl f)[unat lpn := ppa_of (wp_at (wp f))],
        rmap := (rmap f0)[idx_of (spp_of f) (wp_at (wp f)) := lpn],
        cf_ssd := ssd1, lm := m1, host_written_pages := host_written_pages f0 + 1\<rparr>, ppa_of (wp_at (wp f)))"
      "sp ssd1 = spp_of f" "free_line_list m1 = free_line_list (lm f)"
      "ftl_ok {} {} [] ((curline (wp f), wp_idx (spp_of f) (wp f) + 1) # map (fill (spp_of f)) (other_wps f USER_IO))
       (f0\<lparr>maptbl := (maptbl f)[unat lpn := ppa_of (wp_at (wp f))],
        rmap := (rmap f0)[idx_of (spp_of f) (wp_at (wp f)) := lpn],
        cf_ssd := ssd1, lm := m1, host_written_pages := host_written_pages f0 + 1\<rparr>)"
    using map_new_page_spec [OF ok0 w0 l0] unfolding e0 Let_def by blast
  define f1 where "f1 = f0\<lparr>maptbl := (maptbl f)[unat lpn := ppa_of (wp_at (wp f))],
        rmap := (rmap f0)[idx_of (spp_of f) (wp_at (wp f)) := lpn],
        cf_ssd := ssd1, lm := m1, host_written_pages := host_written_pages f0 + 1\<rparr>"
  have "page_meta_tbl f1 = page_meta_tbl f" using e0 by (simp add: f1_def)
  then have "unat lpn < length (page_meta_tbl f1)" using ok l by (simp add: ftl_ok_def)
  from touch_page_meta_spec [OF this dev_timed_wf [OF A(2)], of gc_mode]
  obtain t r d dv2 where C: "touch_page_meta gc_mode f1 dv0 lpn =
      Some (f1\<lparr>rl := r, page_meta_tbl := t, avg_hot_degree := d\<rparr>, dv2)"
      "length t = length (page_meta_tbl f1)" "dev_timed dv0 dv2" by blast
  let ?f2 = "f1\<lparr>rl := r, page_meta_tbl := t, avg_hot_degree := d\<rparr>"
  have "ftl_ok {} {} [] ((curline (wp f), wp_idx (spp_of f) (wp f) + 1) # map (fill (spp_of f)) (other_wps f USER_IO)) ?f2"
    using B(4) C(2) unfolding f1_def [symmetric] by (simp add: ftl_ok_def)
  moreover have "spp_of ?f2 = spp_of f" "cp ?f2 = cp f" "wfc ?f2 = wfc f" "wp ?f2 = wp f"
    "other_wps ?f2 USER_IO = other_wps f USER_IO" "free_line_list (lm ?f2) = free_line_list (lm f)"
    "maptbl ?f2 = (maptbl f)[unat lpn := ppa_of (wp_at (wp f))]"
    using B(2,3) e0 by (simp_all add: f1_def other_wps_def)
  ultimately have "placed f (unat lpn) ?f2" by (simp only: placed_def)
  then show ?thesis
    using A(1) B(1) C dev_timed_trans [OF A(2) C(3)] unfolding f0_def [symmetric] f1_def [symmetric] by blast
qed

lemma user_advance_spec:
  assumes w: "wps_ok f" and p: "placed f l f1"
  shows "returns (free_line_list (lm f) \<noteq> []) (advance_write_pointer f1 USER_IO)
    (\<lambda>f2. ftl_inv f2 \<and> spp_of f2 = spp_of f \<and> cp f2 = cp f \<and> wfc f2 = wfc f \<and> maptbl f2 = maptbl f1 \<and>
       length (free_line_list (lm f)) \<le> length (free_line_list (lm f2)) + 1)"
proof -
  have P: "ftl_ok {} {} [] ((curline (wp f), wp_idx (spp_of f) (wp f) + 1) # map (fill (spp_of f)) (other_wps f USER_IO)) f1"
    "spp_of f1 = spp_of f" "cp f1 = cp f" "wfc f1 = wfc f" "wp f1 = wp f" "other_wps f1 USER_IO = other_wps f USER_IO"
    "free_line_list (lm f1) = free_line_list (lm f)"
    using p by (simp_all add: placed_def)
  let ?ws = "map (fill (spp_of f)) (other_wps f USER_IO)"
  have wf: "wp_wf (spp_of f) (wp f)" using w by (simp add: wps_ok_def)
  have geo: "geometry (spp_of f)" using ftl_ok_geometry [OF P(1)] P(2) by simp
  have ln: "lines_ok (spp_of f1) (pst (cf_ssd f1)) (lm f1) ((curline (wp f), wp_idx (spp_of f1) (wp f) + 1) # ?ws) []"
    using P(1,2) by (simp add: ftl_ok_def)
  have tw: "wp f = the_wp f1 USER_IO" using P(5) by (simp add: the_wp_def)
  note adv = advance_spec [OF wp_user(2) _ tw _ ln, unfolded P(2,7), OF geo wf]
  show ?thesis
  proof (rule returns_weaken [OF adv])
    fix f2 assume "\<exists>m w'. f2 = set_wp (f1\<lparr>lm := m\<rparr>) USER_IO w' \<and> wp_wf (spp_of f) w' \<and>
       lines_ok (spp_of f) (pst (cf_ssd f1)) m (fill (spp_of f) w' # ?ws) [] \<and>
       (wp_idx (spp_of f) w' = wp_idx (spp_of f) (wp f) + 1 \<and>
          length (free_line_list m) = length (free_line_list (lm f)) \<or>
        wp_idx (spp_of f) (wp f) + 1 = pgs_per_line (spp_of f) \<and> wp_idx (spp_of f) w' = 0 \<and>
          Suc (length (free_line_list m)) = length (free_line_list (lm f)))"
    then obtain m w' where f2: "f2 = set_wp (f1\<lparr>lm := m\<rparr>) USER_IO w'" "wp_wf (spp_of f) w'"
        "lines_ok (spp_of f) (pst (cf_ssd f1)) m (fill (spp_of f) w' # ?ws) []"
        "length (free_line_list (lm f)) \<le> length (free_line_list m) + 1" by auto
    have ow: "other_wps f2 USER_IO = other_wps f USER_IO" by (simp only: f2(1) the_wp_set_wp P(6))
    have tw: "the_wp f2 USER_IO = w'" by (simp only: f2(1) the_wp_set_wp(1) [OF wp_user(2)])
    have s2: "spp_of f2 = spp_of f" by (simp add: f2(1) P(2))
    have "ftl_ok {} {} [] (fill (spp_of f) w' # ?ws) f2"
      using P(1,2) f2(1,3) by (simp add: ftl_ok_def)
    then have "ftl_ok {} {} [] (fills f2) f2"
      by (rule ftl_ok_perm) (simp only: fills_io [of f2 USER_IO] ow s2 tw)
    moreover have "wps_ok f2"
      using w f2(2) unfolding wps_ok_io [of _ USER_IO] ow tw s2 by simp
    ultimately show "ftl_inv f2 \<and> spp_of f2 = spp_of f \<and> cp f2 = cp f \<and> wfc f2 = wfc f \<and> maptbl f2 = maptbl f1 \<and>
       length (free_line_list (lm f)) \<le> length (free_line_list (lm f2)) + 1"
      using f2(4) P(3,4) s2 by (simp add: ftl_inv_def f2(1))
  qed simp
qed

subsection \<open>One page\<close>

lemma inv_view:
  assumes "ftl_inv f" "same_view (cf_ssd f) s"
  shows "ftl_inv (f\<lparr>cf_ssd := s\<rparr>)"
  using assms fills_cong [of "f\<lparr>cf_ssd := s\<rparr>" f]
  by (simp add: ftl_inv_def ftl_ok_def same_view_def wps_ok_def)

definition nand_step :: "u32 \<Rightarrow> u64 \<Rightarrow> bool \<Rightarrow> ppa \<Rightarrow> ssdparams \<Rightarrow> conv_ftl \<Rightarrow> dev \<Rightarrow> u64 \<Rightarrow> (conv_ftl \<times> dev \<times> u64) option" where
  "nand_step sq_id stime wl p spp ftl dv latest =
     (if wl then do {
          let xfer = of_nat (pgsz spp * pgs_per_oneshotpg spp);
          (ssd, dv, done) \<leftarrow> ssd_advance_nand (cf_ssd ftl) dv
             \<lparr>nc_cmd = NAND_WRITE, nc_xfer_size = xfer, nc_stime = stime,
              nc_interleave_pci_dma = False, nc_ppa = p\<rparr>;
          Some (ftl\<lparr>cf_ssd := ssd\<rparr>, schedule_internal_operation sq_id done DEV_BUFFER xfer dv,
                max done latest)
        }
        else Some (ftl, dv, latest))"

text \<open>The device after a write: time has passed and buffer releases may be scheduled.\<close>

definition dev_wrote :: "dev \<Rightarrow> dev \<Rightarrow> bool" where
  "dev_wrote dv dv' \<longleftrightarrow> cm_wf (pcie dv') \<and> write_buffer dv' = write_buffer dv"

lemma dev_wrote_timed: "dev_timed dv dv' \<Longrightarrow> dev_wrote dv dv'"
  by (simp add: dev_timed_wf dev_timed_fields dev_wrote_def)

lemma dev_wrote_trans: "dev_wrote a b \<Longrightarrow> dev_wrote b c \<Longrightarrow> dev_wrote a c"
  by (simp add: dev_wrote_def)

lemma nand_step_spec:
  assumes inv: "ftl_inv f" and dv: "cm_wf (pcie dv)" and p: "on_chip (cf_ssd f) p"
  shows "\<exists>s dv' t. nand_step sq_id stime wl p spp f dv latest = Some (f\<lparr>cf_ssd := s\<rparr>, dv', t) \<and>
    same_view (cf_ssd f) s \<and> dev_wrote dv dv' \<and> latest \<le> t"
proof (cases "wl")
  case False
  have "same_view (cf_ssd f) (cf_ssd f)" using inv by (simp add: ftl_inv_def ftl_ok_def same_view_refl)
  then show ?thesis
    using False dev_wrote_timed [OF dev_timed_refl [OF dv]]
    by (intro exI [of _ "cf_ssd f"] exI [of _ dv] exI [of _ latest]) (simp add: nand_step_def)
next
  case True
  let ?cmd = "\<lparr>nc_cmd = NAND_WRITE, nc_xfer_size = of_nat (pgsz spp * pgs_per_oneshotpg spp), nc_stime = stime,
      nc_interleave_pci_dma = False, nc_ppa = p\<rparr>"
  have "ssd_ok (cf_ssd f)" using inv by (simp add: ftl_inv_def ftl_ok_def)
  moreover have "NAND_WRITE \<noteq> NAND_READ" by (simp add: cdefs)
  ultimately obtain s dv' t where r: "ssd_advance_nand (cf_ssd f) dv ?cmd = Some (s, dv', t)" "same_view (cf_ssd f) s"
      "dev_timed dv dv'"
    using ssd_advance_nand_spec [OF _ p dv, of ?cmd] by auto
  let ?dv = "schedule_internal_operation sq_id t DEV_BUFFER (of_nat (pgsz spp * pgs_per_oneshotpg spp)) dv'"
  have "nand_step sq_id stime wl p spp f dv latest = Some (f\<lparr>cf_ssd := s\<rparr>, ?dv, max t latest)"
    using True r(1) by (simp add: nand_step_def Let_def)
  moreover have "dev_wrote dv ?dv"
    using dev_wrote_timed [OF r(3)] by (simp add: dev_wrote_def schedule_internal_operation_def)
  ultimately show ?thesis using r(2) by (intro exI [of _ s] exI [of _ ?dv] exI [of _ "max t latest"]) simp
qed

text \<open>What a page write leaves.\<close>

definition written :: "nat \<Rightarrow> conv_ftl \<Rightarrow> conv_ftl \<Rightarrow> bool" where
  "written l f f' \<longleftrightarrow> ftl_inv f' \<and> spp_of f' = spp_of f \<and> cp f' = cp f \<and>
     (\<forall>k < tt_pgs (spp_of f). mapped_ppa (maptbl f' ! k) \<longleftrightarrow> k = l \<or> mapped_ppa (maptbl f ! k)) \<and>
     (1 < write_credits (wfc f) \<longrightarrow> maptbl f' = (maptbl f)[l := ppa_of (wp_at (wp f))]) \<and>
     length (free_line_list (lm f)) \<le> length (free_line_list (lm f')) + 2"

lemma credit_left: "(1 :: u32) < c \<Longrightarrow> 0 < c - 1"
  by unat_arith

lemma write_page_spec:
  assumes inv: "ftl_inv f" and dv: "cm_wf (pcie dv)" and l: "unat lpn < tt_pgs (spp_of f)"
  shows "returns (gc_mode \<noteq> GC_MODE_RL \<and> 3 \<le> length (free_line_list (lm f)))
    (write_page gc_mode sq_id stime lpn f dv latest)
    (\<lambda>(f', dv', t). written (unat lpn) f f' \<and> dev_wrote dv dv' \<and> latest \<le> t)"
proof -
  let ?l = "unat lpn" and ?spp = "spp_of f" and ?a = "wp_at (wp f)"
  let ?c = "gc_mode \<noteq> GC_MODE_RL \<and> 3 \<le> length (free_line_list (lm f))"
  let ?Q = "\<lambda>(f', dv', t). written ?l f f' \<and> dev_wrote dv dv' \<and> latest \<le> t"
  obtain f0 dv0 f1 f2 dv2 where P: "invalidate_old f dv lpn = Some (f0, dv0)"
      "map_new_page f0 lpn = Some (f1, ppa_of ?a)" "touch_page_meta gc_mode f1 dv0 lpn = Some (f2, dv2)"
      "dev_timed dv dv2" "placed f ?l f2"
    using placed_spec [OF inv dv l] by blast
  have w: "wps_ok f" using inv by (simp add: ftl_inv_def)
  have ok: "ftl_ok {} {} [] (fills f) f" using inv by (simp add: ftl_inv_def)
  have geo: "geometry ?spp" by (rule ftl_ok_geometry [OF ok])
  have len: "length (maptbl f) = tt_pgs ?spp" using ok map_ok_lengths by (auto simp: ftl_ok_def)
  have wf: "wp_wf ?spp (wp f)" using w by (simp add: wps_ok_def)
  have va: "vpa ?spp ?a" using wf by (simp add: wp_at_def wp_wf_def)
  have run: "returns ?c (do {
       wl \<leftarrow> last_pg_in_wordline f3 (ppa_of ?a);
       (ftl, dv, latest) \<leftarrow> nand_step sq_id stime wl (ppa_of ?a) ?spp f3 dv2 latest;
       (ftl, dv) \<leftarrow> check_and_refill_write_credit gc_mode (consume_write_credit ftl) dv;
       Some (ftl, dv, latest) }) ?Q"
    if f3: "ftl_inv f3 \<and> spp_of f3 = ?spp \<and> cp f3 = cp f \<and> wfc f3 = wfc f \<and> maptbl f3 = maptbl f2 \<and>
       length (free_line_list (lm f)) \<le> length (free_line_list (lm f3)) + 1" for f3
  proof -
    obtain wl where wl: "last_pg_in_wordline f3 (ppa_of ?a) = Some wl"
      using geometryD(9) [OF geo] f3 by (auto simp: last_pg_in_wordline_def Let_def)
    have "on_chip (cf_ssd f3) (ppa_of ?a)" using va pa_of_ppa_of [OF geo va] f3 by simp
    then obtain s dv3 t where n: "nand_step sq_id stime wl (ppa_of ?a) ?spp f3 dv2 latest = Some (f3\<lparr>cf_ssd := s\<rparr>, dv3, t)"
        "same_view (cf_ssd f3) s" "dev_wrote dv2 dv3" "latest \<le> t"
      using nand_step_spec [OF _ dev_timed_wf [OF P(4)]] f3 by blast
    let ?f4 = "consume_write_credit (f3\<lparr>cf_ssd := s\<rparr>)"
    have same: "same_data (f3\<lparr>cf_ssd := s\<rparr>) ?f4" by (simp add: same_data_def consume_write_credit_def)
    have inv4: "ftl_inv ?f4" using same_data_inv(4) [OF same] inv_view [OF _ n(2)] f3 by simp
    have dv3: "cm_wf (pcie dv3)" using n(3) by (simp add: dev_wrote_def)
    have m4: "maptbl ?f4 = (maptbl f)[?l := ppa_of ?a]" "spp_of ?f4 = ?spp" "cp ?f4 = cp f"
        "lm ?f4 = lm f3" "write_credits (wfc ?f4) = write_credits (wfc f) - 1"
      using f3 P(5) n(2) by (simp_all add: consume_write_credit_def placed_def same_view_def)
    have fin: "?Q (f', dv', t)" if c: "collected ?f4 f' \<and> dev_timed dv3 dv' \<and> (0 < write_credits (wfc ?f4) \<longrightarrow> f' = ?f4)" for f' dv'
    proof -
      have "mapped_ppa (maptbl f' ! k) \<longleftrightarrow> k = ?l \<or> mapped_ppa (maptbl f ! k)" if "k < tt_pgs ?spp" for k
      proof -
        have "mapped_ppa (maptbl f' ! k) \<longleftrightarrow> mapped_ppa (maptbl ?f4 ! k)"
          using c that m4(2) by (simp only: collected_def)
        then show ?thesis
          using l len that ppa_of_mapped [OF geo va] by (auto simp: m4(1) nth_list_update)
      qed
      moreover have "1 < write_credits (wfc f) \<longrightarrow> maptbl f' = (maptbl f)[?l := ppa_of ?a]"
        using c credit_left m4(1,5) by auto
      moreover have "length (free_line_list (lm f)) \<le> length (free_line_list (lm f')) + 2"
        using c f3 m4(4) by (auto simp: collected_def)
      moreover have "ftl_inv f'" "spp_of f' = ?spp" "cp f' = cp f" using c m4 by (simp_all add: collected_def)
      ultimately have "written ?l f f'" by (simp add: written_def)
      moreover have "dev_wrote dv dv'"
        using c n(3) P(4) dev_wrote_timed dev_wrote_trans by blast
      ultimately show ?thesis using n(4) by simp
    qed
    have "returns ?c (check_and_refill_write_credit gc_mode ?f4 dv3)
        (\<lambda>(f', dv'). collected ?f4 f' \<and> dev_timed dv3 dv' \<and> (0 < write_credits (wfc ?f4) \<longrightarrow> f' = ?f4))"
      by (rule returns_weaken [OF refill_spec [OF inv4 dv3]]) (use f3 m4(4) in auto)
    then show ?thesis
      unfolding wl n(1) Option.bind.bind_lunit prod.case
    proof (rule returns_bind)
      fix x assume x: "case x of (f', dv') \<Rightarrow> collected ?f4 f' \<and> dev_timed dv3 dv' \<and>
        (0 < write_credits (wfc ?f4) \<longrightarrow> f' = ?f4)"
      obtain f' dv' where xe: "x = (f', dv')" by (cases x)
      have "?Q (f', dv', t)" by (rule fin) (use x xe in simp)
      then show "returns ?c (case x of (ftl, dv) \<Rightarrow> Some (ftl, dv, t)) ?Q"
        by (simp only: xe prod.case returns_Some)
    qed simp
  qed
  have "returns ?c (Option.bind (advance_write_pointer f2 USER_IO) (\<lambda>f3. do {
       wl \<leftarrow> last_pg_in_wordline f3 (ppa_of ?a);
       (ftl, dv, latest) \<leftarrow> nand_step sq_id stime wl (ppa_of ?a) ?spp f3 dv2 latest;
       (ftl, dv) \<leftarrow> check_and_refill_write_credit gc_mode (consume_write_credit ftl) dv;
       Some (ftl, dv, latest) })) ?Q"
    by (rule returns_bind [OF user_advance_spec [OF w P(5)]]) (use run in auto)
  then show ?thesis
    by (simp only: write_page_def P(1-3) nand_step_def Let_def Option.bind.bind_lunit prod.case)
qed

end
