(* ===== verification/Addresses.thy ===== *)
theory Addresses
  imports Nand
begin

text \<open>
  The two views of \<open>union ppa\<close>: the bit fields and the 64-bit word hold the same information, so
  the tables, which store words, lose nothing, and the \<open>blk_in_ssd\<close> view is the word without
  its page and its reserved field.
\<close>

lemma word64_cases:
  fixes n :: nat
  assumes "n < 64"
  obtains "n < 16" | "16 \<le> n \<and> n < 32" | "32 \<le> n \<and> n < 40" | "40 \<le> n \<and> n < 48" | "48 \<le> n \<and> n < 56" | "56 \<le> n"
  using assms by linarith

lemma ppa_word_of_word [simp]: "ppa_word (ppa_of_word w) = w"
proof (rule bit_word_eqI)
  fix n assume "n < LENGTH(64)"
  then have n: "n < 64" by simp
  show "bit (ppa_word (ppa_of_word w)) n = bit w n"
    by (rule word64_cases [OF n]) (use n in \<open>auto simp: ppa_word_def ppa_of_word_def bit_simps\<close>)
qed

lemma ppa_of_word_word [simp]: "ppa_of_word (ppa_word p) = p"
proof -
  have "ucast (ppa_word p) = g_pg p" "ucast (drop_bit 16 (ppa_word p)) = g_blk p"
    "ucast (drop_bit 32 (ppa_word p)) = g_pl p" "ucast (drop_bit 40 (ppa_word p)) = g_lun p"
    "ucast (drop_bit 48 (ppa_word p)) = g_ch p" "ucast (drop_bit 56 (ppa_word p)) = g_rsv p"
    by (rule bit_word_eqI, auto simp: ppa_word_def bit_simps dest: bit_imp_le_length)+
  then show ?thesis by (simp add: ppa_of_word_def)
qed

lemma ppa_word_inject: "ppa_word p = ppa_word q \<longleftrightarrow> p = q"
  by (metis ppa_of_word_word)

lemma blk_in_ssd_fields:
  "blk_in_ssd p = blk_in_ssd q \<longleftrightarrow> p\<lparr>g_pg := 0, g_rsv := 0\<rparr> = q\<lparr>g_pg := 0, g_rsv := 0\<rparr>"
proof
  assume "p\<lparr>g_pg := 0, g_rsv := 0\<rparr> = q\<lparr>g_pg := 0, g_rsv := 0\<rparr>"
  then have "blk_in_ssd (p\<lparr>g_pg := 0, g_rsv := 0\<rparr>) = blk_in_ssd (q\<lparr>g_pg := 0, g_rsv := 0\<rparr>)" by simp
  moreover have "blk_in_ssd (r\<lparr>g_pg := 0, g_rsv := 0\<rparr>) = blk_in_ssd r" for r
    by (rule bit_word_eqI) (auto simp: blk_in_ssd_def ppa_word_def bit_simps dest: bit_imp_le_length)
  ultimately show "blk_in_ssd p = blk_in_ssd q" by simp
next
  assume e: "blk_in_ssd p = blk_in_ssd q"
  have f: "g_blk r = ucast (blk_in_ssd r)" "g_pl r = ucast (drop_bit 16 (blk_in_ssd r))"
    "g_lun r = ucast (drop_bit 24 (blk_in_ssd r))" "g_ch r = ucast (drop_bit 32 (blk_in_ssd r))" for r
    by (rule bit_word_eqI, auto simp: blk_in_ssd_def ppa_word_def bit_simps dest: bit_imp_le_length)+
  show "p\<lparr>g_pg := 0, g_rsv := 0\<rparr> = q\<lparr>g_pg := 0, g_rsv := 0\<rparr>"
    using f [of p] f [of q] e by (cases p; cases q) simp
qed

end
