(* ===== verification/Ftl_Init.thy ===== *)
theory Ftl_Init
  imports Ftl_Write Addresses
begin

text \<open>
  What initialisation builds: the parameters of the configured device form a geometry, a fresh
  device has only free pages, and a fresh instance satisfies the invariant with nothing mapped.
\<close>

subsection \<open>The device\<close>

definition bandwidth_ok :: "nat \<Rightarrow> bool" where
  "bandwidth_ok bw \<longleftrightarrow> (\<exists>t. BANDWIDTH_TO_TX_TIME (of_nat bw) = Some t) \<and>
     (ucast (BANDWIDTH_TO_MAX_CREDITS (of_nat bw)) :: u32) \<noteq> 0 \<and>
     unat (ucast (BANDWIDTH_TO_MAX_CREDITS (of_nat bw)) :: u32) < 256"

lemma chmodel_init_spec:
  assumes "bandwidth_ok bw"
  shows "\<exists>ch. chmodel_init (of_nat bw) = Some ch \<and> cm_wf ch"
proof -
  obtain ch where "chmodel_init (of_nat bw) = Some ch"
    using assms by (auto simp: bandwidth_ok_def chmodel_init_def memset_credits_def Let_def)
  then show ?thesis using assms chmodel_init_wf [of "of_nat bw" ch] by (auto simp: bandwidth_ok_def)
qed

lemma init_ch_spec:
  assumes "bandwidth_ok (ch_bandwidth spp)"
  shows "\<exists>c. ssd_init_ch spp junk = Some c \<and> cm_wf (ch_perf_model c) \<and>
    ch_lun c = map (\<lambda>i. ssd_init_nand_lun spp (junk i)) [0..<luns_per_ch spp]"
  using chmodel_init_spec [OF assms] by (auto simp: ssd_init_ch_def Let_def cm_wf_def)

lemma init_chs_spec:
  assumes "bandwidth_ok (ch_bandwidth spp)"
  shows "\<exists>cs. init_chs spp junk n = Some cs \<and> length cs = n \<and>
    (\<forall>c \<in> set cs. cm_wf (ch_perf_model c) \<and>
      (\<exists>j. ch_lun c = map (\<lambda>i. ssd_init_nand_lun spp (j i)) [0..<luns_per_ch spp]))"
proof (induction n)
  case (Suc n)
  then show ?case using init_ch_spec [OF assms, of "junk n"] by auto
qed simp

lemma ssd_init_spec:
  assumes geo: "geometry spp" and bw: "bandwidth_ok (ch_bandwidth spp)" "bandwidth_ok (pcie_bandwidth spp)"
  shows "\<exists>ssd pcie buf. ssd_init spp junk = Some (ssd, pcie, buf) \<and> cm_wf pcie \<and> ssd_ok ssd \<and> sp ssd = spp \<and>
    (\<forall>a. pst ssd a = PG_FREE) \<and> (\<forall>c l b. bcnt ssd c l b = (0, 0)) \<and>
    buf_size buf = of_nat (write_buffer_size spp) \<and> buf_remaining buf = buf_size buf"
proof -
  obtain cs where cs: "init_chs spp junk (nchs spp) = Some cs" "length cs = nchs spp"
      "\<And>c. c \<in> set cs \<Longrightarrow> cm_wf (ch_perf_model c) \<and>
        (\<exists>j. ch_lun c = map (\<lambda>i. ssd_init_nand_lun spp (j i)) [0..<luns_per_ch spp])"
    using init_chs_spec [OF bw(1)] by blast
  obtain pc where pc: "chmodel_init (of_nat (pcie_bandwidth spp)) = Some pc" "cm_wf pc"
    using chmodel_init_spec [OF bw(2)] by blast
  let ?ssd = "\<lparr>sp = spp, ssd_ch = cs\<rparr>"
  have "ssd_ok ?ssd"
    using geo cs(2,3) geometryD(1) [OF geo]
    by (fastforce simp: ssd_ok_def ssd_init_nand_lun_def ssd_init_nand_plane_def ssd_init_nand_blk_def)
  moreover have blk: "blk_at ?ssd c l b = ssd_init_nand_blk spp"
    if r: "c < nchs spp" "l < luns_per_ch spp" "b < blks_per_pl spp" for c l b
  proof -
    obtain j where "ch_lun (cs ! c) = map (\<lambda>i. ssd_init_nand_lun spp (j i)) [0..<luns_per_ch spp]"
      using cs(3) [of "cs ! c"] cs(2) r(1) nth_mem [of c cs] by auto
    then show ?thesis
      using r geometryD(1) [OF geo] by (simp add: blk_at_def ssd_init_nand_lun_def ssd_init_nand_plane_def)
  qed
  have "pst ?ssd a = PG_FREE" for a
    using blk by (cases a) (simp add: pst_def ssd_init_nand_blk_def ssd_init_nand_page_def)
  moreover have "bcnt ?ssd c l b = (0, 0)" for c l b
    using blk by (simp add: bcnt_def ssd_init_nand_blk_def)
  ultimately show ?thesis
    using cs(1) pc by (intro exI [of _ ?ssd] exI [of _ pc] exI) (auto simp: ssd_init_def ssd_init_pcie_def buffer_init_def)
qed

subsection \<open>Lines and pointers\<close>

lemma init_lines_spec:
  assumes geo: "geometry spp" and st: "\<forall>a. st a = PG_FREE"
  shows "\<exists>m. init_lines spp d0 = Some m \<and> lines_ok spp st m [] [] \<and> free_line_list m = [0..<tt_lines spp]"
proof -
  have n: "unat (of_nat (tt_lines spp) :: u32) = tt_lines spp"
    using geometryD(6,19) [OF geo] by (intro unat_of_nat_small) simp
  have npg: "npg st s A = 0" if "s \<noteq> PG_FREE" for s A by (rule npg_none) (use st that in auto)
  let ?m = "\<lparr>lines = map init_line [0..<tt_lines spp], free_line_list = [0..<tt_lines spp],
      victim_line_pq = pqueue_init (tt_lines spp) victim_cb d0, full_line_list = [],
      lm_tt_lines = tt_lines spp, free_line_cnt = of_nat (tt_lines spp), victim_line_cnt = 0, full_line_cnt = 0\<rparr>"
  have "init_lines spp d0 = Some ?m" by (simp add: init_lines_def n Let_def)
  moreover have items: "pq_items (pqueue_init (tt_lines spp) victim_cb d0) = {}"
    by (simp add: pq_items_def pqueue_init_def)
  have "lines_ok spp st ?m [] []"
    unfolding lines_ok_def
    using st by (simp add: cnt_ok_def que_ok_def part_ok_def cls_ok_def places_def items init_line_def npg)
      (auto simp: pq_wf_def pqueue_init_def heap_ordered_def)
  ultimately show ?thesis by auto
qed

lemma prepare_wp_spec:
  assumes io: "io \<in> io_types" and geo: "geometry (spp_of f)"
    and ln: "lines_ok (spp_of f) st (lm f) ws []" and fr: "free_line_list (lm f) = c # rest"
  shows "\<exists>m w. prepare_write_pointer f io = Some (set_wp (f\<lparr>lm := m\<rparr>) io w) \<and> wp_wf (spp_of f) w \<and>
    lines_ok (spp_of f) st m (fill (spp_of f) w # ws) [] \<and> free_line_list m = rest"
proof -
  note op = lines_open [OF ln fr]
  let ?m = "(lm f)\<lparr>free_line_list := rest, free_line_cnt := free_line_cnt (lm f) - 1\<rparr>"
  let ?w = "\<lparr>curline = c, wp_ch = 0, wp_lun = 0, wp_pg = 0, wp_blk = c, wp_pl = 0\<rparr>"
  have len: "length (lines ?m) = tt_lines (spp_of f)" by (rule lines_ok_bounds(1) [OF op(2)])
  have "prepare_write_pointer f io = Some (set_wp (f\<lparr>lm := ?m\<rparr>) io ?w)"
    using op len get_wp_io [OF io] by (simp add: prepare_write_pointer_def get_line_at_def)
  moreover have "wp_wf (spp_of f) ?w"
    using op(4) geometryD(2,4,7,19) [OF geo] by (simp add: wp_wf_def)
  moreover have "fill (spp_of f) ?w = (c, 0)" by (simp add: fill_def wp_idx_def pidx_def)
  ultimately show ?thesis using op(2) by (intro exI [of _ ?m] exI [of _ ?w]) simp
qed

subsection \<open>The instance\<close>

lemma unmapped_init: "\<not> mapped_ppa (ppa_of_word UNMAPPED_PPA)"
  by (simp add: mapped_ppa_def)

lemma conv_init_ftl_spec:
  assumes ok: "ssd_ok ssd" and st: "\<forall>a. pst ssd a = PG_FREE" "\<forall>c l b. bcnt ssd c l b = (0, 0)"
    and three: "3 \<le> tt_lines (sp ssd)"
  shows "\<exists>f. conv_init_ftl cpp ssd d0 w0 = Some f \<and> ftl_inv f \<and> cf_ssd f = ssd \<and> cp f = cpp \<and>
    maptbl f = init_maptbl (sp ssd) \<and> length (free_line_list (lm f)) = tt_lines (sp ssd) - 3"
proof -
  let ?spp = "sp ssd"
  note geo = ssd_ok_geometry [OF ok]
  obtain m where m: "init_lines ?spp d0 = Some m" "lines_ok ?spp (pst ssd) m [] []" "free_line_list m = [0..<tt_lines ?spp]"
    using init_lines_spec [OF geo st(1)] by blast
  have "[0..<tt_lines ?spp] = 0 # 1 # 2 # [3..<tt_lines ?spp]"
    using three by (simp add: upt_rec eval_nat_numeral)
  then have fr: "free_line_list m = 0 # 1 # 2 # [3..<tt_lines ?spp]" using m(3) by simp
  define f0 where "f0 = \<lparr>cf_ssd = ssd, cp = cpp, maptbl = init_maptbl ?spp, rmap = init_rmap ?spp,
                wp = w0, gc_wp_hot = w0, gc_wp_cold = w0,
                lm = m, wfc = init_write_flow_control ?spp,
                page_meta_tbl = init_page_meta ?spp, avg_hot_degree = 16,
                rl = init_rl, wgs = init_wear_gap,
                gc_count = 0, gc_copied_pages = 0, host_written_pages = 0\<rparr>"
  have f0: "spp_of f0 = ?spp" "lm f0 = m" by (simp_all add: f0_def)
  have io: "USER_IO \<in> io_types" "GC_IO_HOT \<in> io_types" "GC_IO_COLD \<in> io_types" by (simp_all add: io_types_def)
  obtain m1 w1 where 1: "prepare_write_pointer f0 USER_IO = Some (set_wp (f0\<lparr>lm := m1\<rparr>) USER_IO w1)" "wp_wf ?spp w1"
      "lines_ok ?spp (pst ssd) m1 [fill ?spp w1] []" "free_line_list m1 = 1 # 2 # [3..<tt_lines ?spp]"
    using prepare_wp_spec [OF io(1), of f0 "pst ssd" "[]"] geo m(2) fr f0 by auto
  let ?f1 = "set_wp (f0\<lparr>lm := m1\<rparr>) USER_IO w1"
  obtain m2 w2 where 2: "prepare_write_pointer ?f1 GC_IO_HOT = Some (set_wp (?f1\<lparr>lm := m2\<rparr>) GC_IO_HOT w2)" "wp_wf ?spp w2"
      "lines_ok ?spp (pst ssd) m2 [fill ?spp w2, fill ?spp w1] []" "free_line_list m2 = 2 # [3..<tt_lines ?spp]"
    using prepare_wp_spec [OF io(2), of ?f1 "pst ssd" "[fill ?spp w1]"] geo 1 f0 by auto
  let ?f2 = "set_wp (?f1\<lparr>lm := m2\<rparr>) GC_IO_HOT w2"
  obtain m3 w3 where 3: "prepare_write_pointer ?f2 GC_IO_COLD = Some (set_wp (?f2\<lparr>lm := m3\<rparr>) GC_IO_COLD w3)" "wp_wf ?spp w3"
      "lines_ok ?spp (pst ssd) m3 [fill ?spp w3, fill ?spp w2, fill ?spp w1] []" "free_line_list m3 = [3..<tt_lines ?spp]"
    using prepare_wp_spec [OF io(3), of ?f2 "pst ssd" "[fill ?spp w2, fill ?spp w1]"] geo 2 f0 by auto
  let ?f3 = "set_wp (?f2\<lparr>lm := m3\<rparr>) GC_IO_COLD w3"
  have wps: "wp ?f3 = w1" "gc_wp_hot ?f3 = w2" "gc_wp_cold ?f3 = w3"
    by (simp_all add: set_wp_def cdefs)
  have "lines_ok ?spp (pst ssd) m3 (fills ?f3) []"
    by (rule lines_ok_perm [OF 3(3)]) (simp add: fills_def wps f0)
  moreover have "map_ok ?spp (pst ssd) (init_maptbl ?spp) (init_rmap ?spp) {} {}"
    using st(1) unmapped_init by (simp add: map_ok_def init_maptbl_def init_rmap_def)
  moreover have "blocks_ok ?spp (pst ssd) (bcnt ssd)"
    using st by (simp add: blocks_ok_def npg_def)
  ultimately have "ftl_ok {} {} [] (fills ?f3) ?f3"
    using ok by (simp add: ftl_ok_def f0_def init_page_meta_def)
  moreover have "wps_ok ?f3" using 1(2) 2(2) 3(2) wps f0 by (simp add: wps_ok_def)
  moreover have "conv_init_ftl cpp ssd d0 w0 = Some ?f3"
    using m(1) 1(1) 2(1) 3(1) by (simp add: conv_init_ftl_def f0_def [symmetric] Let_def)
  ultimately show ?thesis
    using 3(4) by (intro exI [of _ ?f3]) (simp add: ftl_inv_def f0_def)
qed

subsection \<open>The parameters of the configured device\<close>

lemma samsung_bandwidth: "bandwidth_ok 800" "bandwidth_ok 3360"
  by (simp_all add: bandwidth_ok_def BANDWIDTH_TO_TX_TIME_def BANDWIDTH_TO_MAX_CREDITS_def cdefs)

text \<open>
  Capacities up to 4 * 10^12 bytes: beyond about 4.4 * 10^12 a block has more than 2^16 pages and the
  page field of an address overflows.
\<close>

lemma samsung_blk_size:
  assumes "4 \<le> cap" "cap \<le> 4 * 10 ^ 12"
  defines "b \<equiv> div_round_up (cap div 4) 4096"
  shows "0 < div_round_up b 49152" "div_round_up b 49152 \<le> 5000" "div_round_up b 16777216 \<le> 15"
proof -
  have b: "1 \<le> b" "b \<le> 244140625"
    using assms(1,2) unfolding b_def div_round_up_def by simp_all
  show "0 < div_round_up b 49152" "div_round_up b 49152 \<le> 5000" "div_round_up b 16777216 \<le> 15"
    using b unfolding div_round_up_def by simp_all
qed

lemma samsung_params:
  assumes cap: "4 \<le> cap" "cap \<le> 4 * 10 ^ 12"
  defines "n \<equiv> div_round_up (div_round_up (cap div 4) 4096) 49152"
  shows "\<exists>spp. ssd_init_params samsung_970pro spp0 cap SSD_PARTITIONS = Some spp \<and> geometry spp \<and>
    tt_lines spp = 2048 \<and> pgs_per_blk spp = 12 * n \<and> pgs_per_line spp = 24 * n \<and> secs_per_pg spp = 8 \<and>
    ch_bandwidth spp = 800 \<and> pcie_bandwidth spp = 3360 \<and> write_buffer_size spp = 786432"
proof -
  let ?b = "div_round_up (cap div 4) 4096"
  note S = samsung_blk_size [OF cap, folded n_def]
  have "\<exists>spp. ssd_init_params samsung_970pro spp0 cap SSD_PARTITIONS = Some spp \<and> nchs spp = 1 \<and>
    pls_per_lun spp = 1 \<and> luns_per_ch spp = 2 \<and> cell_mode spp = 3 \<and> blks_per_pl spp = 2048 \<and>
    pgs_per_oneshotpg spp = 12 \<and> pgs_per_flashpg spp = 4 \<and> flashpgs_per_blk spp = 3 * n \<and>
    pgs_per_blk spp = 12 * n \<and> length (pg_rd_lat spp) = 3 \<and> length (pg_4kb_rd_lat spp) = 3 \<and>
    max_ch_xfer_size spp = 16384 \<and> pgsz spp = 4096 \<and> secs_per_pg spp = 8 \<and>
    ch_bandwidth spp = 800 \<and> pcie_bandwidth spp = 3360 \<and> write_buffer_size spp = 786432 \<and>
    pgs_per_pl spp = pgs_per_blk spp * blks_per_pl spp \<and>
    pgs_per_lun spp = pgs_per_pl spp * pls_per_lun spp \<and> pgs_per_ch spp = pgs_per_lun spp * luns_per_ch spp \<and>
    tt_pgs spp = pgs_per_ch spp * nchs spp \<and> pgs_per_line spp = luns_per_ch spp * nchs spp * pgs_per_blk spp \<and>
    tt_lines spp = blks_per_pl spp"
    using S
    by (simp add: ssd_init_params_def init_geometry_def init_blocks_def init_latencies_def init_totals_def
        samsung_970pro_def SSD_PARTITIONS_def KB_def SLC_BLKS_def c_int_def Let_def n_def)
  then obtain spp where P: "ssd_init_params samsung_970pro spp0 cap SSD_PARTITIONS = Some spp" "nchs spp = 1"
    "pls_per_lun spp = 1" "luns_per_ch spp = 2" "cell_mode spp = 3" "blks_per_pl spp = 2048"
    "pgs_per_oneshotpg spp = 12" "pgs_per_flashpg spp = 4" "flashpgs_per_blk spp = 3 * n"
    "pgs_per_blk spp = 12 * n" "length (pg_rd_lat spp) = 3" "length (pg_4kb_rd_lat spp) = 3"
    "max_ch_xfer_size spp = 16384" "pgsz spp = 4096" "secs_per_pg spp = 8"
    "ch_bandwidth spp = 800" "pcie_bandwidth spp = 3360" "write_buffer_size spp = 786432"
    "pgs_per_pl spp = pgs_per_blk spp * blks_per_pl spp"
    "pgs_per_lun spp = pgs_per_pl spp * pls_per_lun spp" "pgs_per_ch spp = pgs_per_lun spp * luns_per_ch spp"
    "tt_pgs spp = pgs_per_ch spp * nchs spp" "pgs_per_line spp = luns_per_ch spp * nchs spp * pgs_per_blk spp"
    "tt_lines spp = blks_per_pl spp"
    by blast
  have "geometry spp" unfolding geometry_def using P(2-) S by simp
  then show ?thesis using P by (intro exI [of _ spp]) simp
qed

end
