(* ===== verification/Conv_Ns.thy ===== *)
theory Conv_Ns
  imports Ftl_Init
begin

text \<open>
  The commands of a conventional namespace over its partitions. The pages of a write are dealt
  to the instances round robin; the invariant of every instance is kept, exactly the pages of
  the command become mapped, and a read changes nothing but times.
\<close>

subsection \<open>The namespace\<close>

definition ns_inv :: "nvmev_ns \<Rightarrow> bool" where
  "ns_inv ns \<longleftrightarrow> 0 < ns_nr_parts ns \<and> ns_nr_parts ns < 2 ^ 32 \<and> length (ns_ftls ns) = ns_nr_parts ns \<and>
     cm_wf (pcie (ns_dev ns)) \<and>
     (\<forall>f \<in> set (ns_ftls ns). ftl_inv f \<and> spp_of f = spp_of (ns_ftls ns ! 0)) \<and>
     0 < secs_per_pg (spp_of (ns_ftls ns ! 0)) \<and> secs_per_pg (spp_of (ns_ftls ns ! 0)) < 2 ^ 64"

abbreviation ns_spp :: "nvmev_ns \<Rightarrow> ssdparams" where
  "ns_spp ns \<equiv> spp_of (ns_ftls ns ! 0)"

text \<open>The logical pages of a namespace that are mapped; page \<open>k\<close> is page \<open>k div n\<close> of instance \<open>k mod n\<close>.\<close>

definition ns_entry :: "nvmev_ns \<Rightarrow> nat \<Rightarrow> ppa" where
  "ns_entry ns k = maptbl (ns_ftls ns ! (k mod ns_nr_parts ns)) ! (k div ns_nr_parts ns)"

definition ns_mapped :: "nvmev_ns \<Rightarrow> nat set" where
  "ns_mapped ns = {k. k div ns_nr_parts ns < tt_pgs (ns_spp ns) \<and> mapped_ppa (ns_entry ns k)}"

lemma ns_inv_fields:
  assumes "ns_inv ns"
  shows "0 < ns_nr_parts ns" "ns_nr_parts ns < 2 ^ 32" "length (ns_ftls ns) = ns_nr_parts ns"
    "cm_wf (pcie (ns_dev ns))" "0 < secs_per_pg (ns_spp ns)" "secs_per_pg (ns_spp ns) < 2 ^ 64"
  using assms unfolding ns_inv_def by blast+

lemma ns_invD:
  assumes "ns_inv ns" "i < ns_nr_parts ns"
  shows "ftl_inv (ns_ftls ns ! i)" "spp_of (ns_ftls ns ! i) = ns_spp ns"
    "rd (ns_ftls ns) i = Some (ns_ftls ns ! i)"
proof -
  have i: "i < length (ns_ftls ns)" using assms(2) ns_inv_fields(3) [OF assms(1)] by simp
  then show "rd (ns_ftls ns) i = Some (ns_ftls ns ! i)" by simp
  show "ftl_inv (ns_ftls ns ! i)" "spp_of (ns_ftls ns ! i) = ns_spp ns"
    using assms(1) nth_mem [OF i] unfolding ns_inv_def by blast+
qed

lemma ns_inv_upd:
  assumes inv: "ns_inv ns" and i: "i < ns_nr_parts ns" and f: "ftl_inv f" "spp_of f = ns_spp ns"
    and dv: "cm_wf (pcie dv)"
  defines "ns' \<equiv> ns\<lparr>ns_ftls := (ns_ftls ns)[i := f], ns_dev := dv\<rparr>"
  shows "ns_inv ns'" "ns_spp ns' = ns_spp ns"
proof -
  have len: "length (ns_ftls ns) = ns_nr_parts ns" by (rule ns_inv_fields(3) [OF inv])
  show e: "ns_spp ns' = ns_spp ns" using f(2) len i by (cases "i = 0") (simp_all add: ns'_def)
  have "ftl_inv g \<and> spp_of g = ns_spp ns" if "g \<in> set ((ns_ftls ns)[i := f])" for g
  proof -
    have "g = f \<or> g \<in> set (ns_ftls ns)" using set_update_subset_insert [of "ns_ftls ns" i f] that by blast
    then show ?thesis using inv f unfolding ns_inv_def by blast
  qed
  then have "\<forall>g \<in> set (ns_ftls ns'). ftl_inv g \<and> spp_of g = ns_spp ns'" unfolding e by (simp add: ns'_def)
  moreover have "0 < ns_nr_parts ns'" "ns_nr_parts ns' < 2 ^ 32" "length (ns_ftls ns') = ns_nr_parts ns'"
    "cm_wf (pcie (ns_dev ns'))" using ns_inv_fields [OF inv] dv by (simp_all add: ns'_def)
  moreover have "0 < secs_per_pg (ns_spp ns')" "secs_per_pg (ns_spp ns') < 2 ^ 64"
    unfolding e by (rule ns_inv_fields [OF inv])+
  ultimately show "ns_inv ns'" unfolding ns_inv_def by blast
qed

lemma ns_inv_dev:
  assumes inv: "ns_inv ns" and dv: "cm_wf (pcie dv)"
  shows "ns_inv (ns\<lparr>ns_dev := dv\<rparr>)"
proof -
  have i: "0 < ns_nr_parts ns" by (rule ns_inv_fields(1) [OF inv])
  have "ns_inv (ns\<lparr>ns_ftls := (ns_ftls ns)[0 := ns_ftls ns ! 0], ns_dev := dv\<rparr>)"
    by (rule ns_inv_upd(1) [OF inv i ns_invD(1,2) [OF inv i] dv])
  moreover have "ns\<lparr>ns_ftls := (ns_ftls ns)[0 := ns_ftls ns ! 0], ns_dev := dv\<rparr> = ns\<lparr>ns_dev := dv\<rparr>"
    by (cases ns) simp
  ultimately show ?thesis by metis
qed

subsection \<open>The pages of a command\<close>

lemma word_succ_le: "l < l + 1 \<Longrightarrow> l + 1 \<le> x \<longleftrightarrow> l < (x :: u64)"
  using inc_le [of l x] less_le_trans [of l "l + 1" x] by blast

lemma lpns_from_one: "set (lpns_from l e 1) = {l..e}"
proof (induction l e "1 :: u64" rule: lpns_from.induct)
  case (1 l e)
  have unfold: "lpns_from l e 1 = (if l \<le> e then l # (if l < l + 1 then lpns_from (l + 1) e 1 else []) else [])"
    by (rule lpns_from.simps)
  consider (stop) "\<not> l \<le> e" | (more) "l \<le> e" "l < l + 1" | (top) "l \<le> e" "\<not> l < l + 1" by blast
  then show ?case
  proof cases
    case stop
    then show ?thesis unfolding unfold by simp
  next
    case more
    have "set (lpns_from l e 1) = insert l {l + 1..e}"
      unfolding unfold using 1 [OF more] more by simp
    also have "\<dots> = {l..e}"
    proof (rule set_eqI)
      fix x show "x \<in> insert l {l + 1..e} \<longleftrightarrow> x \<in> {l..e}"
        unfolding insert_iff atLeastAtMost_iff word_succ_le [OF more(2)] using more(1) order.order_iff_strict [of l x] by blast
    qed
    finally show ?thesis .
  next
    case top
    have "unat (l + 1) = (unat l + 1) mod 2 ^ 64" by (simp add: unat_word_ariths)
    moreover have "unat l < 2 ^ 64" "unat e < 2 ^ 64" using unat_less_pow [of l] unat_less_pow [of e] by simp_all
    ultimately have "unat e \<le> unat l"
      using top(2) by (cases "unat l + 1 = 2 ^ 64") (auto simp: word_less_nat_alt)
    then have "e = l" using top(1) by (simp add: word_le_nat_alt [symmetric])
    then show ?thesis unfolding unfold using top(2) by simp
  qed
qed

lemma unat_local:
  assumes "ns_inv ns"
  shows "unat (lpn div of_nat (ns_nr_parts ns) :: u64) = unat lpn div ns_nr_parts ns"
proof -
  have "unat (of_nat (ns_nr_parts ns) :: u64) = ns_nr_parts ns"
    using ns_inv_fields(2) [OF assms] by (intro unat_of_nat_small) simp
  then show ?thesis by (simp add: unat_div_distrib)
qed

subsection \<open>Writing\<close>

definition ns_free_ge :: "nat \<Rightarrow> nvmev_ns \<Rightarrow> bool" where
  "ns_free_ge k ns \<longleftrightarrow> (\<forall>f \<in> set (ns_ftls ns). k \<le> length (free_line_list (lm f)))"

definition ns_same :: "nvmev_ns \<Rightarrow> nvmev_ns \<Rightarrow> bool" where
  "ns_same ns ns' \<longleftrightarrow> ns_inv ns' \<and> ns_nr_parts ns' = ns_nr_parts ns \<and> ns_spp ns' = ns_spp ns \<and>
     ns_size ns' = ns_size ns \<and> write_buffer (ns_dev ns') = write_buffer (ns_dev ns)"

definition wrote :: "nat set \<Rightarrow> nat \<Rightarrow> nvmev_ns \<Rightarrow> nvmev_ns \<Rightarrow> bool" where
  "wrote S n ns ns' \<longleftrightarrow> ns_same ns ns' \<and> ns_mapped ns' = ns_mapped ns \<union> S \<and>
     (\<forall>j. ns_free_ge (j + 2 * n) ns \<longrightarrow> ns_free_ge j ns')"

lemma wrote_refl: "ns_inv ns \<Longrightarrow> wrote {} 0 ns ns"
  by (simp add: wrote_def ns_same_def)

lemma wrote_trans:
  assumes "wrote S n a b" "wrote T m b c"
  shows "wrote (S \<union> T) (n + m) a c"
proof -
  have "ns_free_ge j c" if "ns_free_ge (j + 2 * (n + m)) a" for j
  proof -
    have "j + 2 * (n + m) = j + 2 * m + 2 * n" by simp
    then have "ns_free_ge (j + 2 * m) b" using assms(1) that unfolding wrote_def by metis
    then show ?thesis using assms(2) unfolding wrote_def by blast
  qed
  then show ?thesis using assms unfolding wrote_def ns_same_def by auto
qed

lemma write_step_spec:
  fixes lpn :: u64
  assumes inv: "ns_inv ns" and l: "unat lpn div ns_nr_parts ns < tt_pgs (ns_spp ns)"
  shows "returns (gc_mode \<noteq> GC_MODE_RL \<and> ns_free_ge 3 ns)
    (write_step gc_mode sq_id stime (ns_nr_parts ns) lpn (ns, latest))
    (\<lambda>(ns', t). wrote {unat lpn} 1 ns ns' \<and> latest \<le> t)"
proof -
  let ?n = "ns_nr_parts ns" and ?i = "unat lpn mod ns_nr_parts ns" and ?l = "unat lpn div ns_nr_parts ns"
  have n: "0 < ?n" by (rule ns_inv_fields(1) [OF inv])
  have i: "?i < ?n" using n by simp
  note I = ns_invD [OF inv i]
  let ?f = "ns_ftls ns ! ?i"
  have len: "length (ns_ftls ns) = ?n" by (rule ns_inv_fields(3) [OF inv])
  note ul = unat_local [OF inv, of lpn]
  have step: "returns (gc_mode \<noteq> GC_MODE_RL \<and> 3 \<le> length (free_line_list (lm ?f)))
      (write_page gc_mode sq_id stime (lpn div of_nat ?n) ?f (ns_dev ns) latest)
      (\<lambda>(f', dv', t). written ?l ?f f' \<and> dev_wrote (ns_dev ns) dv' \<and> latest \<le> t)"
    using write_page_spec [OF I(1) ns_inv_fields(4) [OF inv], of "lpn div of_nat ?n"] l ul I(2) by simp
  have fin: "wrote {unat lpn} 1 ns (ns\<lparr>ns_ftls := (ns_ftls ns)[?i := f'], ns_dev := dv'\<rparr>)"
    if w: "written ?l ?f f'" and d: "dev_wrote (ns_dev ns) dv'" for f' dv'
  proof -
    let ?ns = "ns\<lparr>ns_ftls := (ns_ftls ns)[?i := f'], ns_dev := dv'\<rparr>"
    have f': "ftl_inv f'" "spp_of f' = ns_spp ns" using w I(2) by (simp_all add: written_def)
    have "cm_wf (pcie dv')" using d by (simp add: dev_wrote_def)
    note U = ns_inv_upd [OF inv i f' this]
    have "ns_same ns ?ns" using U d by (simp add: ns_same_def dev_wrote_def)
    moreover have "k \<in> ns_mapped ?ns \<longleftrightarrow> k \<in> ns_mapped ns \<union> {unat lpn}" for k
    proof (cases "k div ?n < tt_pgs (ns_spp ns)")
      case False
      then have "k \<noteq> unat lpn" using l by auto
      then show ?thesis using False U(2) by (simp add: ns_mapped_def)
    next
      case True
      show ?thesis
      proof (cases "k mod ?n = ?i")
        case False
        then have "ns_entry ?ns k = ns_entry ns k" "k \<noteq> unat lpn" by (auto simp: ns_entry_def)
        then show ?thesis using U(2) by (simp add: ns_mapped_def)
      next
        case same: True
        have "ns_entry ?ns k = maptbl f' ! (k div ?n)" "ns_entry ns k = maptbl ?f ! (k div ?n)"
          using same i len by (simp_all add: ns_entry_def)
        moreover have "mapped_ppa (maptbl f' ! (k div ?n)) \<longleftrightarrow> k div ?n = ?l \<or> mapped_ppa (maptbl ?f ! (k div ?n))"
          using w True I(2) by (simp add: written_def)
        moreover have "k div ?n = ?l \<longleftrightarrow> k = unat lpn"
          using same mult_div_mod_eq [of ?n k] mult_div_mod_eq [of ?n "unat lpn"] by metis
        ultimately show ?thesis using True U(2) by (simp add: ns_mapped_def)
      qed
    qed
    moreover have "ns_free_ge j ?ns" if g: "ns_free_ge (j + 2 * 1) ns" for j
    proof -
      have "?f \<in> set (ns_ftls ns)" using i len by simp
      then have "j + 2 \<le> length (free_line_list (lm ?f))" using g by (auto simp: ns_free_ge_def)
      then have "j \<le> length (free_line_list (lm f'))" using w by (simp add: written_def)
      moreover have "j \<le> length (free_line_list (lm h))" if "h \<in> set (ns_ftls ns)" for h
        using g that by (auto simp: ns_free_ge_def)
      ultimately show ?thesis
        using set_update_subset_insert [of "ns_ftls ns" ?i f'] by (auto simp: ns_free_ge_def)
    qed
    ultimately show ?thesis unfolding wrote_def by blast
  qed
  have "3 \<le> length (free_line_list (lm ?f))" if "ns_free_ge 3 ns"
    using that i len by (simp add: ns_free_ge_def)
  then show ?thesis
    unfolding write_step_def Let_def prod.case I(3) Option.bind.bind_lunit
    by - (rule returns_bind [OF step], simp, use fin in \<open>auto split: prod.splits\<close>)
qed

lemma write_fold:
  fixes xs :: "u64 list"
  assumes "ns_inv ns" "\<forall>x \<in> set xs. unat x div ns_nr_parts ns < tt_pgs (ns_spp ns)" "nr = ns_nr_parts ns"
  shows "returns (gc_mode \<noteq> GC_MODE_RL \<and> ns_free_ge (2 * length xs + 1) ns)
    (fold_opt (write_step gc_mode sq_id stime nr) xs (ns, latest))
    (\<lambda>(ns', t). wrote (unat ` set xs) (length xs) ns ns' \<and> latest \<le> t)"
  using assms
proof (induction xs arbitrary: ns latest)
  case Nil
  then show ?case using wrote_refl by simp
next
  case (Cons x xs)
  let ?c = "gc_mode \<noteq> GC_MODE_RL \<and> ns_free_ge (2 * length (x # xs) + 1) ns"
  have x: "unat x div ns_nr_parts ns < tt_pgs (ns_spp ns)" using Cons.prems(2) by simp
  have mono: "ns_free_ge 3 ns" if "ns_free_ge (2 * length (x # xs) + 1) ns"
    using that by (fastforce simp: ns_free_ge_def)
  have rest: "returns ?c (fold_opt (write_step gc_mode sq_id stime nr) xs (ns1, t1))
      (\<lambda>(ns', t). wrote (unat ` set (x # xs)) (length (x # xs)) ns ns' \<and> latest \<le> t)"
    if w: "wrote {unat x} 1 ns ns1" and t: "latest \<le> t1" for ns1 t1
  proof -
    have s: "ns_same ns ns1" using w by (simp add: wrote_def)
    have inv1: "ns_inv ns1" "nr = ns_nr_parts ns1" "\<forall>x \<in> set xs. unat x div ns_nr_parts ns1 < tt_pgs (ns_spp ns1)"
      using s Cons.prems(2,3) by (simp_all add: ns_same_def)
    have fr: "ns_free_ge (2 * length xs + 1) ns1" if "ns_free_ge (2 * length (x # xs) + 1) ns"
    proof -
      have "ns_free_ge (2 * length xs + 1 + 2 * 1) ns" using that by (simp add: add.commute)
      then show ?thesis using w unfolding wrote_def by blast
    qed
    have "wrote (unat ` set (x # xs)) (length (x # xs)) ns ns2" if "wrote (unat ` set xs) (length xs) ns1 ns2" for ns2
      using wrote_trans [OF w that] by simp
    then show ?thesis
      using fr t by (intro returns_weaken [OF Cons.IH [OF inv1(1,3,2)]]) auto
  qed
  have "returns ?c (Option.bind (write_step gc_mode sq_id stime nr x (ns, latest))
      (fold_opt (write_step gc_mode sq_id stime nr) xs))
      (\<lambda>(ns', t). wrote (unat ` set (x # xs)) (length (x # xs)) ns ns' \<and> latest \<le> t)"
    unfolding Cons.prems(3)
    by (rule returns_bind [OF write_step_spec [OF Cons.prems(1) x]])
      (use mono rest Cons.prems(3) in auto)
  then show ?case by simp
qed

subsection \<open>The range of a command\<close>

definition cmd_first :: "nvmev_ns \<Rightarrow> nvmev_request \<Rightarrow> u64" where
  "cmd_first ns req = rw_slba (req_cmd req) div of_nat (secs_per_pg (ns_spp ns))"

definition cmd_last :: "nvmev_ns \<Rightarrow> nvmev_request \<Rightarrow> u64" where
  "cmd_last ns req = (rw_slba (req_cmd req) + (ucast (rw_length (req_cmd req)) + 1) - 1)
     div of_nat (secs_per_pg (ns_spp ns))"

definition in_range :: "nvmev_ns \<Rightarrow> nvmev_request \<Rightarrow> bool" where
  "in_range ns req \<longleftrightarrow> unat (cmd_last ns req) div ns_nr_parts ns < tt_pgs (ns_spp ns)"

lemma of_nat_nonzero: "0 < n \<Longrightarrow> n < 2 ^ 64 \<Longrightarrow> (of_nat n :: u64) \<noteq> 0"
proof -
  assume n: "0 < n" "n < 2 ^ 64"
  then have "unat (of_nat n :: u64) = n" by (intro unat_of_nat_small) simp
  then show "(of_nat n :: u64) \<noteq> 0" using n(1) by auto
qed

lemma lpn_range_eq:
  assumes "ns_inv ns"
  shows "lpn_range (ns_spp ns) (req_cmd req) = Some (cmd_first ns req, cmd_last ns req)"
  using of_nat_nonzero [OF ns_inv_fields(5,6) [OF assms]]
  by (simp add: lpn_range_def cmd_first_def cmd_last_def udiv_def Let_def)

lemma last_local:
  assumes "ns_inv ns"
  shows "udiv (cmd_last ns req) (of_nat (ns_nr_parts ns)) = Some (cmd_last ns req div of_nat (ns_nr_parts ns))"
    "tt_pgs (ns_spp ns) \<le> unat (cmd_last ns req div of_nat (ns_nr_parts ns)) \<longleftrightarrow> \<not> in_range ns req"
  using of_nat_nonzero [of "ns_nr_parts ns"] ns_inv_fields(1,2) [OF assms] unat_local [OF assms]
  by (auto simp: udiv_def in_range_def)

lemma range_lpns:
  assumes inv: "ns_inv ns" and r: "in_range ns req"
    and x: "x \<in> set (lpns_from (cmd_first ns req) (cmd_last ns req) 1)"
  shows "unat x div ns_nr_parts ns < tt_pgs (ns_spp ns)"
proof -
  have "unat x \<le> unat (cmd_last ns req)" using x by (simp add: lpns_from_one word_le_nat_alt)
  then have "unat x div ns_nr_parts ns \<le> unat (cmd_last ns req) div ns_nr_parts ns" by (rule div_le_mono)
  then show ?thesis using r by (simp add: in_range_def)
qed

text \<open>
  A write: rejected, the namespace is as it was; accepted, the pages of the command are mapped and
  every page mapped before still is.
\<close>

definition write_done :: "nvmev_ns \<Rightarrow> nvmev_request \<Rightarrow> nvmev_ns \<times> nvmev_result \<times> bool \<Rightarrow> bool" where
  "write_done ns req r \<longleftrightarrow> (case r of (ns', ret', ok) \<Rightarrow>
     ns_inv ns' \<and>
     (if \<not> in_range ns req then \<not> ok \<and> ns' = ns \<and> ret_status ret' = NVME_SC_LBA_RANGE OR NVME_SC_DNR
      else if buf_remaining (write_buffer (ns_dev ns)) < nr_bytes (req_cmd req)
      then \<not> ok \<and> ns' = ns \<and> ret_status ret' = NVME_SC_INTERNAL OR NVME_SC_DNR
      else ok \<and> ret_status ret' = NVME_SC_SUCCESS \<and>
        ns_mapped ns' = ns_mapped ns \<union> unat ` {cmd_first ns req..cmd_last ns req} \<and>
        ns_spp ns' = ns_spp ns \<and> ns_nr_parts ns' = ns_nr_parts ns \<and>
        buf_remaining (write_buffer (ns_dev ns')) =
          buf_remaining (write_buffer (ns_dev ns)) - nr_bytes (req_cmd req)))"

lemma nr_bytes_small: "unat (nr_bytes cmd) < 2 ^ 32" "nr_bytes cmd \<noteq> 0"
proof -
  let ?n = "ucast (rw_length cmd) + 1 :: u64"
  have "unat (rw_length cmd) < 2 ^ 16" using unat_less_pow [of "rw_length cmd"] by simp
  then have u: "unat ?n = unat (rw_length cmd) + 1" "unat (rw_length cmd) + 1 \<le> 65536"
    by (simp_all add: unat_word_ariths unat_ucast_up)
  have "unat (nr_bytes cmd) = unat ?n * 512"
  proof -
    have "unat (push_bit 9 w) = unat w * 512 mod 2 ^ 64" for w :: u64
      by (simp add: push_bit_eq_mult unat_word_ariths)
    then show ?thesis using u unfolding nr_bytes_def LBA_TO_BYTE_def by simp
  qed
  then show "unat (nr_bytes cmd) < 2 ^ 32" "nr_bytes cmd \<noteq> 0"
    using u by (simp_all add: unat_gt_0 [symmetric] del: unat_gt_0) 
qed

lemma conv_write_spec:
  assumes inv: "ns_inv ns" and sz: "nr_bytes (req_cmd req) \<le> buf_size (write_buffer (ns_dev ns))"
  shows "returns (gc_mode \<noteq> GC_MODE_RL \<and>
      ns_free_ge (2 * length (lpns_from (cmd_first ns req) (cmd_last ns req) 1) + 1) ns)
    (conv_write gc_mode ns req ret) (write_done ns req)"
proof -
  let ?buf = "write_buffer (ns_dev ns)" and ?nb = "nr_bytes (req_cmd req)" and ?n = "ns_nr_parts ns"
  let ?xs = "lpns_from (cmd_first ns req) (cmd_last ns req) 1"
  note R = ns_invD(3) [OF inv ns_inv_fields(1) [OF inv]] lpn_range_eq [OF inv] last_local [OF inv, of req]
  consider (range) "\<not> in_range ns req" | (full) "in_range ns req" "buf_remaining ?buf < ?nb"
    | (go) "in_range ns req" "\<not> buf_remaining ?buf < ?nb" by blast
  then show ?thesis
  proof cases
    case range
    then show ?thesis using R inv by (simp add: conv_write_def write_done_def Let_def)
  next
    case full
    have "ucast (0 :: u32) < ?nb" using nr_bytes_small(2) by (simp add: word_gt_0)
    then show ?thesis using R inv full sz by (simp add: conv_write_def write_done_def buffer_allocate_def Let_def)
  next
    case go
    let ?dv = "(ns_dev ns)\<lparr>write_buffer := ?buf\<lparr>buf_remaining := buf_remaining ?buf - ?nb\<rparr>\<rparr>"
    have cast: "(ucast (ucast ?nb :: u32) :: u64) = ?nb"
      using nr_bytes_small(1) by (simp add: word_unat_eq_iff unat_ucast_up unat_ucast_less)
    have wf: "cm_wf (pcie ?dv)" using ns_inv_fields(4) [OF inv] by simp
    obtain dv' t where adv: "ssd_advance_write_buffer (cf_ssd (ns_ftls ns ! 0)) ?dv (req_nsecs_start req) ?nb = Some (dv', t)"
        "dev_timed ?dv dv'"
      using ssd_advance_pcie_total [OF wf] unfolding ssd_advance_write_buffer_def Let_def by blast
    let ?ns = "ns\<lparr>ns_dev := dv'\<rparr>"
    have inv': "ns_inv ?ns" by (rule ns_inv_dev [OF inv dev_timed_wf [OF adv(2)]])
    have eqs: "ns_mapped ?ns = ns_mapped ns" "ns_spp ?ns = ns_spp ns" "ns_nr_parts ?ns = ?n"
        "\<And>k. ns_free_ge k ?ns = ns_free_ge k ns"
      by (simp_all add: ns_mapped_def ns_entry_def ns_free_ge_def)
    have wb: "buf_remaining (write_buffer dv') = buf_remaining ?buf - ?nb"
      using dev_timed_fields [OF adv(2)] by simp
    have run: "returns (gc_mode \<noteq> GC_MODE_RL \<and> ns_free_ge (2 * length ?xs + 1) ns)
        (fold_opt (write_step gc_mode (req_sq_id req) t ?n) ?xs (?ns, t))
        (\<lambda>(ns', t'). wrote (unat ` set ?xs) (length ?xs) ?ns ns' \<and> t \<le> t')"
    proof -
      have "\<forall>x \<in> set ?xs. unat x div ns_nr_parts ?ns < tt_pgs (ns_spp ?ns)"
        unfolding eqs(2,3) using range_lpns [OF inv go(1)] by blast
      from write_fold [OF inv' this eqs(3) [symmetric], of gc_mode "req_sq_id req" t t]
      show ?thesis unfolding eqs(4) .
    qed
    have fin: "write_done ns req (ns', ret\<lparr>ret_nsecs_target := x, ret_status := NVME_SC_SUCCESS\<rparr>, True)"
      if w: "wrote (unat ` set ?xs) (length ?xs) ?ns ns'" for ns' x
      using w go wb by (simp add: write_done_def wrote_def ns_same_def eqs lpns_from_one)
    have eq: "conv_write gc_mode ns req ret =
        Option.bind (fold_opt (write_step gc_mode (req_sq_id req) t ?n) ?xs (?ns, t)) (\<lambda>(ns', latest).
          Some (ns', ret\<lparr>ret_nsecs_target := (if rw_control (req_cmd req) AND NVME_RW_FUA \<noteq> 0 \<or>
            \<not> write_early_completion (ns_spp ns) then latest else t), ret_status := NVME_SC_SUCCESS\<rparr>, True))"
      using R go sz cast adv(1) by (simp add: conv_write_def buffer_allocate_def Let_def)
    show ?thesis
      unfolding eq
    proof (rule returns_bind [OF run])
      fix x assume x: "case x of (ns', t') \<Rightarrow> wrote (unat ` set ?xs) (length ?xs) ?ns ns' \<and> t \<le> t'"
      obtain ns' t' where xe: "x = (ns', t')" by (cases x)
      have "wrote (unat ` set ?xs) (length ?xs) ?ns ns'" using x by (simp only: xe prod.case)
      then show "returns (gc_mode \<noteq> GC_MODE_RL \<and> ns_free_ge (2 * length ?xs + 1) ns)
        (case x of (ns', latest) \<Rightarrow> Some (ns', ret\<lparr>ret_nsecs_target := (if rw_control (req_cmd req) AND NVME_RW_FUA \<noteq> 0 \<or>
            \<not> write_early_completion (ns_spp ns) then latest else t), ret_status := NVME_SC_SUCCESS\<rparr>, True))
        (write_done ns req)"
        unfolding xe prod.case returns_Some by (rule fin)
    qed
  qed
qed

subsection \<open>Reading\<close>

text \<open>A read changes times only.\<close>

definition ftl_timed :: "conv_ftl \<Rightarrow> conv_ftl \<Rightarrow> bool" where
  "ftl_timed f f' \<longleftrightarrow> (\<exists>s. f' = f\<lparr>cf_ssd := s\<rparr> \<and> same_view (cf_ssd f) s)"

lemma ftl_timed_refl: "ftl_inv f \<Longrightarrow> ftl_timed f f"
  unfolding ftl_timed_def by (rule exI [of _ "cf_ssd f"]) (simp add: ftl_inv_def ftl_ok_def same_view_refl)

lemma ftl_timed_trans: "ftl_timed f g \<Longrightarrow> ftl_timed g h \<Longrightarrow> ftl_timed f h"
  unfolding ftl_timed_def using same_view_trans by fastforce

lemma ftl_timed_step: "ftl_timed f g \<Longrightarrow> same_view (cf_ssd g) s \<Longrightarrow> ftl_timed f (g\<lparr>cf_ssd := s\<rparr>)"
  by (rule ftl_timed_trans) (auto simp: ftl_timed_def)

lemma ftl_timedD:
  assumes "ftl_timed f f'" "ftl_inv f"
  shows "ftl_inv f'" "spp_of f' = spp_of f" "maptbl f' = maptbl f" "lm f' = lm f"
  using assms inv_view by (auto simp: ftl_timed_def same_view_def)

text \<open>Gathered bytes start at a mapped page, and mapped pages are on the chip.\<close>

definition reading :: "conv_ftl \<Rightarrow> dev \<Rightarrow> u64 \<Rightarrow> read_state \<Rightarrow> bool" where
  "reading f dv latest s \<longleftrightarrow> (case s of (dv', f', xfer, prev, t) \<Rightarrow>
     ftl_timed f f' \<and> dev_timed dv dv' \<and> latest \<le> t \<and>
     (mapped_ppa prev \<longrightarrow> on_chip (cf_ssd f) prev) \<and> (0 < xfer \<longrightarrow> mapped_ppa prev))"

lemma flush_read_spec:
  assumes inv: "ftl_inv f" and s: "reading f dv latest s"
  shows "returns True (flush_read stime s) (reading f dv latest)"
proof -
  obtain dv1 f1 xfer prev t where e: "s = (dv1, f1, xfer, prev, t)" by (cases s)
  show ?thesis
  proof (cases "0 < xfer")
    case False
    then show ?thesis using s by (simp add: flush_read_def e)
  next
    case True
    have r: "ftl_timed f f1" "dev_timed dv dv1" "latest \<le> t" "on_chip (cf_ssd f) prev" "mapped_ppa prev"
      using s True by (simp_all add: reading_def e)
    note F = ftl_timedD [OF r(1) inv]
    have ok: "ssd_ok (cf_ssd f1)" using F(1) by (simp add: ftl_inv_def ftl_ok_def)
    have on: "on_chip (cf_ssd f1) prev" using r(4) F(2) by simp
    let ?cmd = "read_cmd stime (ucast xfer) prev"
    have "nc_xfer_size ?cmd \<noteq> 0" using True by (auto simp: read_cmd_def unat_ucast_up word_unat_eq_iff word_less_nat_alt)
    then obtain ssd dv2 d where a: "ssd_advance_nand (cf_ssd f1) dv1 ?cmd = Some (ssd, dv2, d)"
        "same_view (cf_ssd f1) ssd" "dev_timed dv1 dv2"
      using ssd_advance_nand_spec [OF ok on dev_timed_wf [OF r(2)], of ?cmd] by (auto simp: read_cmd_def)
    have "latest \<le> max d t" using r(3) by (simp add: le_max_iff_disj)
    then show ?thesis
      using True a(1) ftl_timed_step [OF r(1) a(2)] dev_timed_trans [OF r(2) a(3)] r(4,5)
      by (simp add: flush_read_def e reading_def)
  qed
qed

lemma read_one_spec:
  assumes inv: "ftl_inv f" and s: "reading f dv latest s" and l: "unat l < tt_pgs (spp_of f)"
  shows "returns True (read_one stime l s) (reading f dv latest)"
proof -
  obtain dv1 f1 xfer prev t where e: "s = (dv1, f1, xfer, prev, t)" by (cases s)
  have r: "ftl_timed f f1" "dev_timed dv dv1" "latest \<le> t" "mapped_ppa prev \<longrightarrow> on_chip (cf_ssd f) prev"
    using s by (simp_all add: reading_def e)
  note F = ftl_timedD [OF r(1) inv]
  have ok: "ftl_ok {} {} [] (fills f) f" using inv by (simp add: ftl_inv_def)
  have mp: "map_ok (spp_of f) (pst (cf_ssd f)) (maptbl f) (rmap f) {} {}" using ok by (simp add: ftl_ok_def)
  note geo = ftl_ok_geometry [OF ok]
  let ?cur = "maptbl f ! unat l"
  have get: "get_maptbl_ent f1 l = Some ?cur"
    using l map_ok_lengths [OF mp] F(3) by (simp add: get_maptbl_ent_def)
  show ?thesis
  proof (cases "mapped_ppa ?cur \<and> valid_ppa f1 ?cur")
    case False
    then show ?thesis using s get by (auto simp: read_one_def e)
  next
    case True
    then have on: "mapped_ppa ?cur" "on_chip (cf_ssd f) ?cur" using map_okD1 [OF mp l] by simp_all
    obtain sm where sm: "(if mapped_ppa prev then is_same_flash_page f1 ?cur prev else Some False) = Some sm"
        "sm \<Longrightarrow> mapped_ppa prev"
      using geometryD(11) [OF geo] F(2)
      by (cases "mapped_ppa prev"; cases "blk_in_ssd ?cur = blk_in_ssd prev") (auto simp: is_same_flash_page_def Let_def)
    have eq: "read_one stime l s = (if sm then Some (dv1, f1, xfer + of_nat (pgsz (spp_of f1)), prev, t)
       else do {
         (dv, ftl, _, _, latest) \<leftarrow> flush_read stime s;
         Some (dv, ftl, of_nat (pgsz (spp_of ftl)), ?cur, latest)
       })"
      using True unfolding read_one_def e Let_def prod.case get sm(1) Option.bind.bind_lunit by simp
    have flush: "returns True (flush_read stime s) (reading f dv latest)" by (rule flush_read_spec [OF inv s])
    show ?thesis
      unfolding eq
    proof (rule returns_if)
      assume sm
      then show "returns True (Some (dv1, f1, xfer + of_nat (pgsz (spp_of f1)), prev, t)) (reading f dv latest)"
        using r sm(2) by (simp add: reading_def)
    next
      show "returns True (do {
         (dv, ftl, _, _, latest) \<leftarrow> flush_read stime s;
         Some (dv, ftl, of_nat (pgsz (spp_of ftl)), ?cur, latest) }) (reading f dv latest)"
        by (rule returns_bind [OF flush]) (use on in \<open>auto simp: reading_def\<close>)
    qed
  qed
qed

lemma lpns_from_le:
  assumes "x \<in> set (lpns_from l e st)"
  shows "x \<le> e"
  using assms
proof (induction l e st rule: lpns_from.induct)
  case (1 l e st)
  have unfold: "lpns_from l e st = (if l \<le> e then l # (if l < l + st then lpns_from (l + st) e st else []) else [])"
    by (rule lpns_from.simps)
  show ?case using 1 unfolding unfold by (auto split: if_splits)
qed

text \<open>The namespace with only times changed.\<close>

definition ns_timed :: "nvmev_ns \<Rightarrow> nvmev_ns \<Rightarrow> bool" where
  "ns_timed ns ns' \<longleftrightarrow> ns_same ns ns' \<and> (\<forall>i < ns_nr_parts ns. ftl_timed (ns_ftls ns ! i) (ns_ftls ns' ! i)) \<and>
     dev_timed (ns_dev ns) (ns_dev ns')"

lemma read_part_spec:
  fixes l e :: u64
  assumes inv: "ns_inv ns0" and t: "ns_timed ns0 ns" "latest0 \<le> latest" and nr: "nr = ns_nr_parts ns0"
    and r: "unat e div ns_nr_parts ns0 < tt_pgs (ns_spp ns0)" "l \<le> e"
  shows "returns True (read_part nr stime e l (ns, latest)) (\<lambda>(ns', latest'). ns_timed ns0 ns' \<and> latest0 \<le> latest')"
proof -
  have s: "ns_inv ns" "ns_nr_parts ns = ns_nr_parts ns0" "ns_spp ns = ns_spp ns0" "ns_same ns0 ns"
    using t(1) by (simp_all add: ns_timed_def ns_same_def)
  let ?i = "unat l mod nr"
  have i: "?i < ns_nr_parts ns" using ns_inv_fields(1) [OF s(1)] s(2) nr by simp
  note I = ns_invD [OF s(1) i]
  let ?f = "ns_ftls ns ! ?i"
  have loc: "unat (x div of_nat nr) < tt_pgs (spp_of ?f)" if "x \<le> e" for x :: u64
  proof -
    have "unat x div nr \<le> unat e div nr" using that by (intro div_le_mono) (simp add: word_le_nat_alt)
    then show ?thesis using unat_local [OF s(1), of x] r(1) I(2) s(2,3) nr by simp
  qed
  have ok: "map_ok (spp_of ?f) (pst (cf_ssd ?f)) (maptbl ?f) (rmap ?f) {} {}" using I(1) by (simp add: ftl_inv_def ftl_ok_def)
  let ?p = "maptbl ?f ! unat (l div of_nat nr)"
  have get: "get_maptbl_ent ?f (l div of_nat nr) = Some ?p"
    using loc [OF r(2)] map_ok_lengths [OF ok] by (simp add: get_maptbl_ent_def)
  have start: "reading ?f (ns_dev ns) latest (ns_dev ns, ?f, 0, ?p, latest)"
    using ftl_timed_refl [OF I(1)] dev_timed_refl [OF ns_inv_fields(4) [OF s(1)]] map_okD1 [OF ok loc [OF r(2)]]
    by (simp add: reading_def)
  have loop: "returns True (fold_opt (\<lambda>lpn. read_one stime (lpn div of_nat nr)) (lpns_from l e (of_nat nr))
      (ns_dev ns, ?f, 0, ?p, latest)) (reading ?f (ns_dev ns) latest)"
    by (rule returns_fold_simple [of "reading ?f (ns_dev ns) latest", OF start])
      (rule read_one_spec [OF I(1)], assumption, rule loc, erule lpns_from_le)
  have fin: "ns_timed ns0 (ns\<lparr>ns_ftls := (ns_ftls ns)[?i := f'], ns_dev := dv'\<rparr>) \<and> latest0 \<le> t'"
    if rd: "reading ?f (ns_dev ns) latest (dv', f', x, p, t')" for dv' f' x p t'
  proof -
    have d: "ftl_timed ?f f'" "dev_timed (ns_dev ns) dv'" "latest \<le> t'" using rd by (simp_all add: reading_def)
    note F = ftl_timedD [OF d(1) I(1)]
    have f': "spp_of f' = ns_spp ns" using F(2) I(2) by simp
    note U = ns_inv_upd [OF s(1) i F(1) f' dev_timed_wf [OF d(2)]]
    let ?ns = "ns\<lparr>ns_ftls := (ns_ftls ns)[?i := f'], ns_dev := dv'\<rparr>"
    have "ns_same ns0 ?ns" using U s dev_timed_fields [OF d(2)] by (simp add: ns_same_def)
    moreover have "ftl_timed (ns_ftls ns0 ! j) (ns_ftls ?ns ! j)" if "j < ns_nr_parts ns0" for j
    proof -
      have "ftl_timed (ns_ftls ns0 ! j) (ns_ftls ns ! j)" using t(1) that by (simp add: ns_timed_def)
      then show ?thesis
        using ftl_timed_trans [OF _ d(1)] i ns_inv_fields(3) [OF s(1)] by (cases "j = ?i") auto
    qed
    moreover have "dev_timed (ns_dev ns0) dv'" using t(1) d(2) dev_timed_trans by (auto simp: ns_timed_def)
    ultimately show ?thesis using d(3) t(2) by (simp add: ns_timed_def)
  qed
  show ?thesis
    unfolding read_part_def Let_def prod.case I(3) get Option.bind.bind_lunit
  proof (rule returns_bind [OF loop])
    fix st assume "reading ?f (ns_dev ns) latest st"
    then show "returns True (do {
       (dv, ftl, _, _, latest) \<leftarrow> flush_read stime st;
       Some (ns\<lparr>ns_ftls := (ns_ftls ns)[?i := ftl], ns_dev := dv\<rparr>, latest) })
      (\<lambda>(ns', latest'). ns_timed ns0 ns' \<and> latest0 \<le> latest')"
      by (intro returns_bind [OF flush_read_spec [OF I(1)]]) (use fin in \<open>auto split: prod.splits\<close>)
  qed simp
qed

lemma conv_read_spec:
  assumes inv: "ns_inv ns"
  shows "\<exists>ns' ret' ok. conv_read ns req ret = Some (ns', ret', ok) \<and>
    (if in_range ns req then ok \<and> ret_status ret' = NVME_SC_SUCCESS \<and> ns_timed ns ns' \<and>
       req_nsecs_start req \<le> ret_nsecs_target ret'
     else \<not> ok \<and> ns' = ns \<and> ret_status ret' = NVME_SC_LBA_RANGE OR NVME_SC_DNR)"
proof (cases "in_range ns req")
  case False
  then show ?thesis
    using ns_invD(3) [OF inv ns_inv_fields(1) [OF inv]] lpn_range_eq [OF inv] last_local [OF inv, of req]
    by (auto simp: conv_read_def Let_def)
next
  case True
  note R = ns_invD(3) [OF inv ns_inv_fields(1) [OF inv]] lpn_range_eq [OF inv] last_local [OF inv, of req]
  let ?n = "ns_nr_parts ns" and ?e = "cmd_last ns req"
  define stime where "stime = req_nsecs_start req +
    of_nat (if nr_bytes (req_cmd req) \<le> of_nat (KB 4 * ?n) then fw_4kb_rd_lat (ns_spp ns) else fw_rd_lat (ns_spp ns))"
  have r: "unat ?e div ?n < tt_pgs (ns_spp ns)" using True by (simp add: in_range_def)
  have refl: "ns_timed ns ns"
    unfolding ns_timed_def ns_same_def
    using inv ftl_timed_refl ns_invD(1) [OF inv] dev_timed_refl [OF ns_inv_fields(4) [OF inv]] by blast
  have "returns True (fold_opt (\<lambda>lpn. read_part ?n stime ?e lpn) (take ?n (lpns_from (cmd_first ns req) ?e 1))
      (ns, req_nsecs_start req)) (\<lambda>(ns', t'). ns_timed ns ns' \<and> req_nsecs_start req \<le> t')"
  proof (rule returns_fold_simple)
    show "case (ns, req_nsecs_start req) of (ns', t') \<Rightarrow> ns_timed ns ns' \<and> req_nsecs_start req \<le> t'" using refl by simp
  next
    fix x s assume x: "x \<in> set (take ?n (lpns_from (cmd_first ns req) ?e 1))"
      and s: "case s of (ns', t') \<Rightarrow> ns_timed ns ns' \<and> req_nsecs_start req \<le> t'"
    obtain ns1 t1 where e: "s = (ns1, t1)" by (cases s)
    have "x \<le> ?e" using x by (intro lpns_from_le) (auto dest: in_set_takeD)
    then show "returns True (read_part ?n stime ?e x s) (\<lambda>(ns', t'). ns_timed ns ns' \<and> req_nsecs_start req \<le> t')"
      unfolding e using s e by (intro read_part_spec [OF inv _ _ HOL.refl r]) auto
  qed
  then obtain ns' t' where f: "fold_opt (\<lambda>lpn. read_part ?n stime ?e lpn) (take ?n (lpns_from (cmd_first ns req) ?e 1))
      (ns, req_nsecs_start req) = Some (ns', t')" "ns_timed ns ns'" "req_nsecs_start req \<le> t'"
    using returns_totalD by fastforce
  have "conv_read ns req ret = Some (ns', ret\<lparr>ret_nsecs_target := t', ret_status := NVME_SC_SUCCESS\<rparr>, True)"
    using R True f(1) unfolding conv_read_def Let_def stime_def
    by (cases "nr_bytes (req_cmd req) \<le> of_nat (KB 4 * ?n)") simp_all
  then show ?thesis using True f(2,3) by auto
qed

text \<open>The namespace that initialisation builds: nothing is mapped, 2045 lines are free.\<close>

lemma init_ftls_spec:
  assumes "geometry spp" "bandwidth_ok (ch_bandwidth spp)" "bandwidth_ok (pcie_bandwidth spp)" "3 \<le> tt_lines spp"
  shows "\<exists>fs. init_ftls spp cpp junk d0 w0 n = Some fs \<and> length fs = n \<and>
    (\<forall>(f, pcie, buf) \<in> set fs. ftl_inv f \<and> spp_of f = spp \<and> maptbl f = init_maptbl spp \<and> cm_wf pcie \<and>
      length (free_line_list (lm f)) = tt_lines spp - 3 \<and>
      buf_size buf = of_nat (write_buffer_size spp) \<and> buf_remaining buf = buf_size buf)"
proof (induction n)
  case (Suc n)
  then obtain fs where fs: "init_ftls spp cpp junk d0 w0 n = Some fs" "length fs = n"
    "\<forall>(f, pcie, buf) \<in> set fs. ftl_inv f \<and> spp_of f = spp \<and> maptbl f = init_maptbl spp \<and> cm_wf pcie \<and>
      length (free_line_list (lm f)) = tt_lines spp - 3 \<and>
      buf_size buf = of_nat (write_buffer_size spp) \<and> buf_remaining buf = buf_size buf" by blast
  obtain ssd pcie buf where i: "ssd_init spp junk = Some (ssd, pcie, buf)" "cm_wf pcie" "ssd_ok ssd" "sp ssd = spp"
      "\<forall>a. pst ssd a = PG_FREE" "\<forall>c l b. bcnt ssd c l b = (0, 0)"
      "buf_size buf = of_nat (write_buffer_size spp)" "buf_remaining buf = buf_size buf"
    using ssd_init_spec [OF assms(1-3)] by blast
  obtain f where f: "conv_init_ftl cpp ssd d0 w0 = Some f" "ftl_inv f" "cf_ssd f = ssd"
      "maptbl f = init_maptbl (sp ssd)" "length (free_line_list (lm f)) = tt_lines (sp ssd) - 3"
    using conv_init_ftl_spec [OF i(3,5,6)] assms(4) i(4) by blast
  show ?case using fs i f by auto
qed simp

lemma conv_init_spec:
  assumes cap: "4 \<le> unat sz" "unat sz \<le> 4 * 10 ^ 12"
  shows "\<exists>ns. conv_init_namespace spp0 junk d0 w0 clk rnd nsid sz = Some ns \<and> ns_inv ns \<and>
    ns_nr_parts ns = 4 \<and> ns_mapped ns = {} \<and> ns_free_ge 2045 ns \<and> ns_size ns = sz * 100 div 128 \<and>
    secs_per_pg (ns_spp ns) = 8 \<and> tt_lines (ns_spp ns) = 2048 \<and>
    pgs_per_line (ns_spp ns) = 24 * div_round_up (div_round_up (unat sz div 4) 4096) 49152 \<and>
    buf_size (write_buffer (ns_dev ns)) = 786432 \<and>
    buf_remaining (write_buffer (ns_dev ns)) = 786432"
proof -
  obtain spp where S: "ssd_init_params samsung_970pro spp0 (unat sz) SSD_PARTITIONS = Some spp" "geometry spp"
      "tt_lines spp = 2048" "secs_per_pg spp = 8" "ch_bandwidth spp = 800" "pcie_bandwidth spp = 3360"
      "write_buffer_size spp = 786432"
      "pgs_per_line spp = 24 * div_round_up (div_round_up (unat sz div 4) 4096) 49152"
    using samsung_params [OF cap] by blast
  let ?cpp = "conv_init_params spp"
  have "3 \<le> tt_lines spp" using S(3) by simp
  then obtain fs where F: "init_ftls spp ?cpp junk d0 w0 SSD_PARTITIONS = Some fs" "length fs = SSD_PARTITIONS"
    "\<And>f pcie buf. (f, pcie, buf) \<in> set fs \<Longrightarrow> ftl_inv f \<and> spp_of f = spp \<and> maptbl f = init_maptbl spp \<and> cm_wf pcie \<and>
      length (free_line_list (lm f)) = tt_lines spp - 3 \<and>
      buf_size buf = of_nat (write_buffer_size spp) \<and> buf_remaining buf = buf_size buf"
    using init_ftls_spec [OF S(2), of ?cpp junk d0 w0 SSD_PARTITIONS] samsung_bandwidth S(5,6) by fastforce
  obtain f0 pc buf where z: "fs ! 0 = (f0, pc, buf)" by (cases "fs ! 0")
  have "fs ! 0 \<in> set fs" using F(2) by (simp add: SSD_PARTITIONS_def)
  then have zf: "spp_of f0 = spp" "cm_wf pc" "buf_size buf = 786432" "buf_remaining buf = 786432"
    using F(3) [of f0 pc buf] z S(7) by simp_all
  let ?ns = "\<lparr>ns_id = nsid, ns_csi = NVME_CSI_NVM, ns_nr_parts = SSD_PARTITIONS,
           ns_ftls = map fst fs, ns_size = sz * 100 div 128,
           ns_dev = \<lparr>pcie = pc, write_buffer = buf, clock = clk, ticks = 0,
                     random = rnd, draws = 0, internal_ops = []\<rparr>\<rparr>"
  have "rd fs 0 = Some (f0, pc, buf)" using F(2) z by (simp add: SSD_PARTITIONS_def rd_def)
  moreover have "udiv (sz * 100) (of_nat (pba_pcent ?cpp)) = Some (sz * 100 div 128)"
    by (simp add: conv_init_params_def udiv_def)
  ultimately have "conv_init_namespace spp0 junk d0 w0 clk rnd nsid sz = Some ?ns"
    unfolding conv_init_namespace_def Let_def S(1) F(1) Option.bind.bind_lunit prod.case by simp
  moreover have mem: "ftl_inv f \<and> spp_of f = spp \<and> maptbl f = init_maptbl spp \<and>
      length (free_line_list (lm f)) = 2045" if "f \<in> set (map fst fs)" for f
    using that F(3) S(3) by fastforce
  have sp0: "ns_spp ?ns = spp" using F(2) z zf(1) by (simp add: SSD_PARTITIONS_def)
  have "ns_inv ?ns"
  proof -
    have "\<forall>f \<in> set (ns_ftls ?ns). ftl_inv f \<and> spp_of f = spp"
      unfolding nvmev_ns.select_convs using mem by blast
    moreover have "0 < ns_nr_parts ?ns" "ns_nr_parts ?ns < 2 ^ 32" "length (ns_ftls ?ns) = ns_nr_parts ?ns"
      "cm_wf (pcie (ns_dev ?ns))"
      using F(2) zf(2) by (simp_all add: SSD_PARTITIONS_def)
    moreover have "0 < secs_per_pg spp" "secs_per_pg spp < 2 ^ 64" unfolding S(4) by simp_all
    ultimately show ?thesis unfolding ns_inv_def sp0 by blast
  qed
  moreover have "ns_mapped ?ns = {}"
  proof -
    have "\<not> mapped_ppa (ns_entry ?ns k)" if "k div ns_nr_parts ?ns < tt_pgs spp" for k
    proof -
      let ?f = "map fst fs ! (k mod SSD_PARTITIONS)"
      have "?f \<in> set (map fst fs)" using F(2) by (intro nth_mem) (simp add: SSD_PARTITIONS_def)
      then have "maptbl ?f = init_maptbl spp" using mem by blast
      then have "ns_entry ?ns k = init_maptbl spp ! (k div SSD_PARTITIONS)"
        unfolding ns_entry_def nvmev_ns.select_convs by (rule arg_cong)
      then show ?thesis using that unmapped_init by (simp add: init_maptbl_def)
    qed
    then show ?thesis unfolding ns_mapped_def sp0 by blast
  qed
  moreover have "ns_free_ge 2045 ?ns"
    unfolding ns_free_ge_def nvmev_ns.select_convs
  proof
    fix f assume "f \<in> set (map fst fs)"
    then show "2045 \<le> length (free_line_list (lm f))" using mem by (metis order_refl)
  qed
  moreover have "ns_nr_parts ?ns = 4" "ns_size ?ns = sz * 100 div 128"
    "buf_size (write_buffer (ns_dev ?ns)) = 786432" "buf_remaining (write_buffer (ns_dev ?ns)) = 786432"
    using zf by (simp_all add: SSD_PARTITIONS_def)
  moreover have "secs_per_pg (ns_spp ?ns) = 8" "tt_lines (ns_spp ?ns) = 2048"
    "pgs_per_line (ns_spp ?ns) = 24 * div_round_up (div_round_up (unat sz div 4) 4096) 49152"
    unfolding sp0 by (rule S(4), rule S(3), rule S(8))
  ultimately show ?thesis by blast
qed

end
