(* ===== verification/Conv_Reach.thy ===== *)
theory Conv_Reach
  imports Conv_Ns
begin

text \<open>
  The life of a conventional namespace: it is initialised, then serves commands while IO workers
  release buffer space, in any order. In every state it can reach the invariant holds and the
  mapped pages are exactly those of the accepted writes.
\<close>

subsection \<open>Flush\<close>

lemma three_lines:
  assumes "ftl_inv f"
  shows "3 \<le> tt_lines (spp_of f)"
proof -
  have ln: "lines_ok (spp_of f) (pst (cf_ssd f)) (lm f) (fills f) []"
    using assms by (simp add: ftl_inv_def ftl_ok_def)
  let ?ls = "map fst (fills f)"
  have "distinct ?ls" "set ?ls \<subseteq> {..<tt_lines (spp_of f)}"
    using ln by (auto simp: lines_ok_def part_ok_def places_def)
  then have "card (set ?ls) \<le> tt_lines (spp_of f)" by (metis card_lessThan card_mono finite_lessThan)
  then show ?thesis using distinct_card [OF \<open>distinct ?ls\<close>] by (simp add: fills_def)
qed

lemma idle_time_total:
  assumes ok: "ssd_ok ssd" and dv: "cm_wf (pcie dv)"
  shows "\<exists>dv' t. ssd_next_idle_time ssd dv = Some (dv', t) \<and> dev_timed dv dv'"
proof -
  obtain now dv' where t: "read_clock dv = (now, dv')" by (cases "read_clock dv")
  let ?in = "\<lambda>ch j (latest :: u64). do { lun \<leftarrow> rd (ch_lun ch) j; Some (max latest (next_lun_avail_time lun)) }"
  have inner: "\<exists>l'. fold_opt (?in (ssd_ch ssd ! i)) [0..<luns_per_ch (sp ssd)] l = Some l' \<and> True"
    if "i < nchs (sp ssd)" for i l
  proof (rule fold_opt_Some)
    have "length (ch_lun (ssd_ch ssd ! i)) = luns_per_ch (sp ssd)" using ok that by (auto simp: ssd_ok_def)
    then show "\<exists>l'. ?in (ssd_ch ssd ! i) j l = Some l' \<and> True" if "j \<in> set [0..<luns_per_ch (sp ssd)]" for j l
      using that by simp
  qed simp
  have "\<exists>l'. fold_opt (\<lambda>i latest. do { ch \<leftarrow> rd (ssd_ch ssd) i; fold_opt (?in ch) [0..<luns_per_ch (sp ssd)] latest })
      [0..<nchs (sp ssd)] now = Some l' \<and> True"
  proof (rule fold_opt_Some)
    have "length (ssd_ch ssd) = nchs (sp ssd)" using ok by (simp add: ssd_ok_def)
    then show "\<exists>l'. (do { ch \<leftarrow> rd (ssd_ch ssd) i; fold_opt (?in ch) [0..<luns_per_ch (sp ssd)] l }) = Some l' \<and> True"
      if "i \<in> set [0..<nchs (sp ssd)]" for i l using that inner by simp
  qed simp
  then show ?thesis
    using t read_clock_timed [OF dv t] by (auto simp: ssd_next_idle_time_def Let_def)
qed

lemma flush_lines_total:
  assumes "lm_tt_lines m \<le> length (lines m)"
  shows "\<exists>st'. fold_opt (flush_line m) [0..<lm_tt_lines m] st = Some st' \<and> total_lines st' = total_lines st"
  by (rule fold_opt_Some) (use assms in \<open>auto simp: flush_line_def Let_def\<close>)

lemma wear_stats_total:
  assumes "total_lines st \<noteq> 1"
  shows "\<exists>w. wear_stats st = Some w"
proof (cases "0 < total_lines st")
  case False
  then show ?thesis by (simp add: wear_stats_def)
next
  case True
  let ?avg = "ec_sum st div total_lines st" and ?sq = "ec_sqsum st div total_lines st"
  let ?var = "if ?avg * ?avg < ?sq then ?sq - ?avg * ?avg else 0"
  have "unat ?sq < 2 ^ 64 - 1"
  proof -
    have "2 \<le> unat (total_lines st)"
      using True assms by (cases "unat (total_lines st)" rule: nat.exhaust)
        (auto simp: word_less_nat_alt word_unat_eq_iff)
    then have "unat ?sq \<le> unat (ec_sqsum st) div 2" by (simp add: unat_div_distrib div_le_mono2)
    then show ?thesis using unat_less_pow [of "ec_sqsum st"] by simp
  qed
  moreover have "?var \<le> ?sq" by (auto simp: word_le_nat_alt word_less_nat_alt unat_sub_if')
  ultimately have "?var \<noteq> ULL_MAX" by (auto simp: word_le_nat_alt unat_ULL_MAX)
  then obtain r where "isqrt_u64 ?var = Some r" using isqrt_u64_spec by blast
  then show ?thesis using True by (auto simp: wear_stats_def Let_def)
qed

lemma flush_part_spec:
  assumes inv: "ns_inv ns" and i: "i < ns_nr_parts ns" and dv: "dev_timed dv0 dv"
  shows "\<exists>dv' l st'. flush_part ns i (dv, latest, st) = Some (dv', l, st') \<and> dev_timed dv0 dv' \<and> latest \<le> l \<and>
    total_lines st' = total_lines st + of_nat (tt_lines (ns_spp ns))"
proof -
  note I = ns_invD [OF inv i]
  let ?f = "ns_ftls ns ! i"
  have ok: "ssd_ok (cf_ssd ?f)" "lines_ok (spp_of ?f) (pst (cf_ssd ?f)) (lm ?f) (fills ?f) []"
    using I(1) by (simp_all add: ftl_inv_def ftl_ok_def)
  obtain dv' t where t: "ssd_next_idle_time (cf_ssd ?f) dv = Some (dv', t)" "dev_timed dv dv'"
    using idle_time_total [OF ok(1) dev_timed_wf [OF dv]] by blast
  have tl: "lm_tt_lines (lm ?f) = tt_lines (ns_spp ns)" "lm_tt_lines (lm ?f) \<le> length (lines (lm ?f))"
    using lines_ok_bounds(1,2) [OF ok(2)] I(2) by simp_all
  let ?st = "st\<lparr>total_gc := total_gc st + gc_count ?f, total_cp := total_cp st + gc_copied_pages ?f,
       total_host := total_host st + host_written_pages ?f\<rparr>"
  obtain st1 where f: "fold_opt (flush_line (lm ?f)) [0..<lm_tt_lines (lm ?f)] ?st = Some st1" "total_lines st1 = total_lines st"
    using flush_lines_total [OF tl(2), of ?st] by auto
  have le: "latest \<le> max latest t" by simp
  have "dev_timed dv0 dv'" by (rule dev_timed_trans [OF dv t(2)])
  then show ?thesis
    unfolding flush_part_def Let_def prod.case I(3) Option.bind.bind_lunit t(1) f(1) option.inject prod.inject
    using le f(2) tl(1) by (intro exI conjI) (rule refl, rule refl, rule refl, assumption, assumption, simp)
qed

lemma flush_spec:
  assumes inv: "ns_inv ns"
  shows "\<exists>dv' ret'. conv_flush ns ret = Some (ns\<lparr>ns_dev := dv'\<rparr>, ret') \<and> dev_timed (ns_dev ns) dv' \<and>
    ret_status ret' = NVME_SC_SUCCESS"
proof -
  let ?n = "ns_nr_parts ns"
  obtain start dv where t: "read_clock (ns_dev ns) = (start, dv)" by (cases "read_clock (ns_dev ns)")
  have d: "dev_timed (ns_dev ns) dv" by (rule read_clock_timed [OF ns_inv_fields(4) [OF inv] t])
  let ?s0 = "\<lparr>total_gc = 0, total_cp = 0, total_host = 0, ec_sum = 0, ec_sqsum = 0,
             ec_max = 0, ec_min = UINT_MAX, total_lines = 0, rl_episodes = 0, rl_reward_sum = 0,
             wg_accum = 0, wg_samples = 0\<rparr> :: flush_stats"
  let ?I = "\<lambda>i s. case s of (dv', l :: u64, st :: flush_stats) \<Rightarrow> dev_timed (ns_dev ns) dv' \<and>
      total_lines st = of_nat (i * tt_lines (ns_spp ns))"
  have "returns True (fold_opt (flush_part ns) [0..<?n] (dv, start, ?s0)) (?I ?n)"
  proof (rule returns_fold_upt)
    show "?I 0 (dv, start, ?s0)" using d by simp
  next
    fix i s assume i: "i < ?n" and s: "?I i s"
    obtain dv1 l st where e: "s = (dv1, l, st)" by (cases s)
    obtain dv2 l2 st2 where f: "flush_part ns i s = Some (dv2, l2, st2)" "dev_timed (ns_dev ns) dv2"
        "total_lines st2 = total_lines st + of_nat (tt_lines (ns_spp ns))"
      using flush_part_spec [OF inv i, of "ns_dev ns" dv1 l st] s by (auto simp: e)
    then show "returns True (flush_part ns i s) (?I (Suc i))"
      using s by (simp add: e algebra_simps)
  qed simp
  then obtain dv' l st where f: "fold_opt (flush_part ns) [0..<?n] (dv, start, ?s0) = Some (dv', l, st)"
      "dev_timed (ns_dev ns) dv'" "total_lines st = of_nat (?n * tt_lines (ns_spp ns))"
    using returns_totalD by fastforce
  have "total_lines st \<noteq> 1"
  proof -
    have n: "0 < ?n" "?n < 2 ^ 32" by (rule ns_inv_fields [OF inv])+
    have f0: "ftl_inv (ns_ftls ns ! 0)" by (rule ns_invD(1) [OF inv n(1)])
    have "geometry (ns_spp ns)" using f0 unfolding ftl_inv_def by (blast intro: ftl_ok_geometry)
    then have "tt_lines (ns_spp ns) \<le> 65536" using geometryD(6,19) by simp
    moreover have "3 \<le> tt_lines (ns_spp ns)" by (rule three_lines [OF f0])
    ultimately have b: "3 \<le> ?n * tt_lines (ns_spp ns)" "?n * tt_lines (ns_spp ns) < 2 ^ 32 * 65537"
      using n mult_le_mono [of 1 ?n 3 "tt_lines (ns_spp ns)"] mult_less_le_imp_less [of ?n "2 ^ 32" "tt_lines (ns_spp ns)" 65537]
      by simp_all
    then have "unat (total_lines st) = ?n * tt_lines (ns_spp ns)"
      unfolding f(3) by (intro unat_of_nat_small) simp
    then show ?thesis using b(1) by auto
  qed
  then obtain w where w: "wear_stats st = Some w" using wear_stats_total by blast
  have "?n \<noteq> 0" using ns_inv_fields(1) [OF inv] by simp
  then show ?thesis
    using t f(1,2) w ns_invD(3) [OF inv ns_inv_fields(1) [OF inv]]
    by (intro exI [of _ dv'] exI) (auto simp: conv_flush_def Let_def)
qed

subsection \<open>Reachable states\<close>

lemma conv_write_done:
  assumes inv: "ns_inv ns" and r: "conv_write gc_mode ns req ret = Some r"
  shows "write_done ns req r"
proof (cases "nr_bytes (req_cmd req) \<le> buf_size (write_buffer (ns_dev ns))")
  case True
  show ?thesis by (rule returnsD [OF conv_write_spec [OF inv True] r])
next
  case False
  note R = ns_invD(3) [OF inv ns_inv_fields(1) [OF inv]] lpn_range_eq [OF inv] last_local [OF inv, of req]
  show ?thesis
  proof (cases "in_range ns req")
    case True
    then have "conv_write gc_mode ns req ret = None"
      using R False by (simp add: conv_write_def buffer_allocate_def Let_def)
    then show ?thesis using r by simp
  next
    case False
    then show ?thesis using R inv r by (auto simp: conv_write_def write_done_def Let_def)
  qed
qed

text \<open>The pages a served command has written.\<close>

definition cmd_pages :: "nvmev_ns \<Rightarrow> nvmev_request \<Rightarrow> bool \<Rightarrow> nat set" where
  "cmd_pages ns req ok = (if rw_opcode (req_cmd req) = nvme_cmd_write \<and> ok
     then unat ` {cmd_first ns req..cmd_last ns req} else {})"

text \<open>\<open>conv_life gc_mode W ns\<close>: the namespace can be in state \<open>ns\<close> after accepted writes of \<open>W\<close>.\<close>

inductive conv_life :: "int \<Rightarrow> nat set \<Rightarrow> nvmev_ns \<Rightarrow> bool" for gc_mode where
  conv_start: "conv_init_namespace spp0 junk d0 w0 clk rnd nsid sz = Some ns \<Longrightarrow>
    4 \<le> unat sz \<Longrightarrow> unat sz \<le> 4 * 10 ^ 12 \<Longrightarrow> conv_life gc_mode {} ns"
| conv_command: "conv_life gc_mode W ns \<Longrightarrow>
    conv_proc_nvme_io_cmd gc_mode ns req ret = Some (ns', ret', ok) \<Longrightarrow>
    conv_life gc_mode (W \<union> cmd_pages ns req ok) ns'"
| conv_release: "conv_life gc_mode W ns \<Longrightarrow> buffer_release (write_buffer (ns_dev ns)) sz = (buf, ok) \<Longrightarrow>
    conv_life gc_mode W (ns\<lparr>ns_dev := (ns_dev ns)\<lparr>write_buffer := buf\<rparr>\<rparr>)"

inductive_cases conv_life_cases: "conv_life gc_mode W ns"

lemma ns_timed_mapped:
  assumes "ns_timed ns ns'" "ns_inv ns"
  shows "ns_mapped ns' = ns_mapped ns"
proof -
  have s: "ns_nr_parts ns' = ns_nr_parts ns" "ns_spp ns' = ns_spp ns" using assms(1) by (simp_all add: ns_timed_def ns_same_def)
  have n: "0 < ns_nr_parts ns" by (rule ns_inv_fields(1) [OF assms(2)])
  have "ns_entry ns' k = ns_entry ns k" for k
  proof -
    have i: "k mod ns_nr_parts ns < ns_nr_parts ns" using n by simp
    then have "ftl_timed (ns_ftls ns ! (k mod ns_nr_parts ns)) (ns_ftls ns' ! (k mod ns_nr_parts ns))"
      using assms(1) by (simp add: ns_timed_def)
    then show ?thesis using ftl_timedD(3) [OF _ ns_invD(1) [OF assms(2) i]] by (simp add: ns_entry_def s(1))
  qed
  then show ?thesis by (simp add: ns_mapped_def s)
qed

lemma ns_mapped_dev [simp]: "ns_mapped (ns\<lparr>ns_dev := dv\<rparr>) = ns_mapped ns"
  by (simp add: ns_mapped_def ns_entry_def)

lemma command_spec:
  assumes inv: "ns_inv ns" and r: "conv_proc_nvme_io_cmd gc_mode ns req ret = Some (ns', ret', ok)"
  shows "ns_inv ns' \<and> ns_mapped ns' = ns_mapped ns \<union> cmd_pages ns req ok"
proof -
  let ?op = "rw_opcode (req_cmd req)"
  consider (wr) "?op = nvme_cmd_write" | (read) "?op = nvme_cmd_read" | (flush) "?op = nvme_cmd_flush"
    | (other) "?op \<notin> {nvme_cmd_write, nvme_cmd_read, nvme_cmd_flush}" by blast
  then show ?thesis
  proof cases
    case wr
    then have "conv_write gc_mode ns req ret = Some (ns', ret', ok)"
      using r by (auto simp: conv_proc_nvme_io_cmd_def Let_def split: if_splits)
    then have "write_done ns req (ns', ret', ok)" by (rule conv_write_done [OF inv])
    then show ?thesis using wr by (auto simp: write_done_def cmd_pages_def split: if_splits)
  next
    case read
    then have ne: "?op \<noteq> nvme_cmd_write" by (simp add: cdefs)
    then have c: "conv_read ns req ret = Some (ns', ret', ok)"
      using r read by (auto simp: conv_proc_nvme_io_cmd_def Let_def split: if_splits)
    have "ns' = ns \<or> ns_timed ns ns'" using conv_read_spec [OF inv, of req ret] c by (auto split: if_splits)
    then show ?thesis
      using ns_timed_mapped [OF _ inv] inv ne by (auto simp: cmd_pages_def ns_timed_def ns_same_def)
  next
    case flush
    then have ne: "?op \<noteq> nvme_cmd_write" "?op \<noteq> nvme_cmd_read" by (simp_all add: cdefs)
    obtain dv' ret1 where f: "conv_flush ns ret = Some (ns\<lparr>ns_dev := dv'\<rparr>, ret1)" "dev_timed (ns_dev ns) dv'"
      using flush_spec [OF inv] by blast
    then have "ns' = ns\<lparr>ns_dev := dv'\<rparr>"
      using r flush ne by (auto simp: conv_proc_nvme_io_cmd_def Let_def split: if_splits)
    then show ?thesis using ns_inv_dev [OF inv dev_timed_wf [OF f(2)]] ne by (simp add: cmd_pages_def)
  next
    case other
    then have "ns' = ns" using r by (auto simp: conv_proc_nvme_io_cmd_def Let_def split: if_splits)
    then show ?thesis using inv other by (simp add: cmd_pages_def)
  qed
qed

lemma conv_life_inv:
  assumes "conv_life gc_mode W ns"
  shows "ns_inv ns \<and> ns_mapped ns = W"
  using assms
proof (induction rule: conv_life.induct)
  case (conv_start spp0 junk d0 w0 clk rnd nsid sz ns)
  then show ?case using conv_init_spec [OF conv_start(2,3)] by (metis option.inject)
next
  case (conv_command W ns req ret ns' ret' ok)
  then show ?case using command_spec by blast
next
  case (conv_release W ns sz buf ok)
  then show ?case using ns_inv_dev [of ns "(ns_dev ns)\<lparr>write_buffer := buf\<rparr>"] ns_inv_fields(4) [of ns] by simp
qed

end
