(* ===== verification/Conv_Props.thy ===== *)
theory Conv_Props
  imports Conv_Reach Examples
begin

text \<open>
  The properties of conventional namespaces. Their witnesses run on \<open>demo_ns\<close>, what
  initialisation makes of a capacity of 1 GB.
\<close>

definition demo_ns :: nvmev_ns where
  "demo_ns = the (conv_init_namespace zero_spp (\<lambda>_ _. 0) (\<lambda>_. 0)
     \<lparr>curline = 0, wp_ch = 0, wp_lun = 0, wp_pg = 0, wp_blk = 0, wp_pl = 0\<rparr>
     (\<lambda>n. of_nat n) (\<lambda>_. 7) 1 (2 ^ 30))"

definition demo_ftl :: conv_ftl where
  "demo_ftl = ns_ftls demo_ns ! 0"

lemma demo_ns:
  "conv_init_namespace zero_spp (\<lambda>_ _. 0) (\<lambda>_. 0)
     \<lparr>curline = 0, wp_ch = 0, wp_lun = 0, wp_pg = 0, wp_blk = 0, wp_pl = 0\<rparr>
     (\<lambda>n. of_nat n) (\<lambda>_. 7) 1 (2 ^ 30) = Some demo_ns"
  "ns_inv demo_ns" "ns_nr_parts demo_ns = 4" "ns_mapped demo_ns = {}" "ns_free_ge 2045 demo_ns"
  "buf_size (write_buffer (ns_dev demo_ns)) = 786432"
  "buf_remaining (write_buffer (ns_dev demo_ns)) = 786432" "secs_per_pg (ns_spp demo_ns) = 8"
  "tt_lines (ns_spp demo_ns) = 2048" "pgs_per_line (ns_spp demo_ns) = 48"
proof -
  have "4 \<le> unat (2 ^ 30 :: u64)" "unat (2 ^ 30 :: u64) \<le> 4 * 10 ^ 12" by simp_all
  from conv_init_spec [OF this, of zero_spp "\<lambda>_ _. 0" "\<lambda>_. 0"
      "\<lparr>curline = 0, wp_ch = 0, wp_lun = 0, wp_pg = 0, wp_blk = 0, wp_pl = 0\<rparr>" "\<lambda>n. of_nat n" "\<lambda>_. 7" 1]
  obtain ns where ns: "conv_init_namespace zero_spp (\<lambda>_ _. 0) (\<lambda>_. 0)
     \<lparr>curline = 0, wp_ch = 0, wp_lun = 0, wp_pg = 0, wp_blk = 0, wp_pl = 0\<rparr>
     (\<lambda>n. of_nat n) (\<lambda>_. 7) 1 (2 ^ 30) = Some ns" "ns_inv ns" "ns_nr_parts ns = 4" "ns_mapped ns = {}"
     "ns_free_ge 2045 ns" "buf_size (write_buffer (ns_dev ns)) = 786432"
     "buf_remaining (write_buffer (ns_dev ns)) = 786432" "secs_per_pg (ns_spp ns) = 8"
     "tt_lines (ns_spp ns) = 2048"
     "pgs_per_line (ns_spp ns) = 24 * div_round_up (div_round_up (unat (2 ^ 30 :: u64) div 4) 4096) 49152" by blast
  have "demo_ns = ns" using ns(1) by (simp add: demo_ns_def)
  then show "conv_init_namespace zero_spp (\<lambda>_ _. 0) (\<lambda>_. 0)
     \<lparr>curline = 0, wp_ch = 0, wp_lun = 0, wp_pg = 0, wp_blk = 0, wp_pl = 0\<rparr>
     (\<lambda>n. of_nat n) (\<lambda>_. 7) 1 (2 ^ 30) = Some demo_ns"
     "ns_inv demo_ns" "ns_nr_parts demo_ns = 4" "ns_mapped demo_ns = {}" "ns_free_ge 2045 demo_ns"
     "buf_size (write_buffer (ns_dev demo_ns)) = 786432"
     "buf_remaining (write_buffer (ns_dev demo_ns)) = 786432" "secs_per_pg (ns_spp demo_ns) = 8"
     "tt_lines (ns_spp demo_ns) = 2048" "pgs_per_line (ns_spp demo_ns) = 48"
    using ns by (simp_all add: div_round_up_def)
qed

lemma demo_ftl:
  "ftl_inv demo_ftl" "2045 \<le> length (free_line_list (lm demo_ftl))" "cm_wf (pcie (ns_dev demo_ns))"
  "0 < tt_pgs (spp_of demo_ftl)"
proof -
  have n: "0 < ns_nr_parts demo_ns" by (simp add: demo_ns(3))
  show inv: "ftl_inv demo_ftl" unfolding demo_ftl_def by (rule ns_invD(1) [OF demo_ns(2) n])
  have "demo_ftl \<in> set (ns_ftls demo_ns)"
    unfolding demo_ftl_def using ns_inv_fields(3) [OF demo_ns(2)] n by (intro nth_mem) simp
  then show "2045 \<le> length (free_line_list (lm demo_ftl))" using demo_ns(5) by (simp add: ns_free_ge_def)
  show "cm_wf (pcie (ns_dev demo_ns))" by (rule ns_inv_fields(4) [OF demo_ns(2)])
  have "geometry (spp_of demo_ftl)" using inv unfolding ftl_inv_def by (blast intro: ftl_ok_geometry)
  then show "0 < tt_pgs (spp_of demo_ftl)"
    using three_lines [OF inv] geometryD(2,4,7,16,19) by simp
qed

subsection \<open>The life of a namespace\<close>

text \<open>
  C1: in every state that a conventional namespace can reach from its initialisation, by any
  commands and buffer releases in any order and in any collection mode, every instance satisfies
  its invariant (mapping and reverse mapping agree, page, block and line counts are exact, every
  line is in one place) and the mapped logical pages are exactly those of the accepted writes:
  garbage collection loses none.
\<close>

theorem conv_keeps_written_pages:
  assumes "conv_life gc_mode W ns"
  shows "ns_mapped ns = W \<and> (\<forall>i < ns_nr_parts ns. ftl_inv (ns_ftls ns ! i))"
  using conv_life_inv [OF assms] ns_invD(1) by blast

theorem conv_keeps_written_pages_witness:
  "conv_life GC_MODE_CB {} demo_ns \<and> ns_mapped demo_ns = {} \<and> ftl_inv (ns_ftls demo_ns ! 3)"
proof -
  have l: "conv_life GC_MODE_CB {} demo_ns" by (rule conv_life.conv_start [OF demo_ns(1)]) simp_all
  then show ?thesis using conv_keeps_written_pages [OF l] demo_ns(3) by simp
qed

text \<open>
  C2: a garbage collection with any of the policies, in any mode, leaves the invariant and the set
  of mapped logical pages, the user write pointer and the page metadata as they were and costs at
  most one free line; outside the learning mode it returns whenever two lines are free.
\<close>

theorem gc_keeps_data:
  assumes inv: "ftl_inv ftl" and dv: "cm_wf (pcie dv)"
    and sel: "sel \<in> {greedy_fn, select_victim_cb, select_victim_cat}"
  shows "(\<forall>ftl' dv' r. do_gc gc_mode ftl dv force sel = Some (ftl', dv', r) \<longrightarrow>
      ftl_inv ftl' \<and> spp_of ftl' = spp_of ftl \<and> wp ftl' = wp ftl \<and> page_meta_tbl ftl' = page_meta_tbl ftl \<and>
      (\<forall>l < tt_pgs (spp_of ftl). mapped_ppa (maptbl ftl' ! l) \<longleftrightarrow> mapped_ppa (maptbl ftl ! l)) \<and>
      length (free_line_list (lm ftl)) \<le> length (free_line_list (lm ftl')) + 1) \<and>
    (gc_mode \<noteq> GC_MODE_RL \<and> 2 \<le> length (free_line_list (lm ftl)) \<longrightarrow>
      (\<exists>r. do_gc gc_mode ftl dv force sel = Some r))"
proof -
  have "returns (gc_mode \<noteq> GC_MODE_RL \<and> 2 \<le> length (free_line_list (lm ftl)))
      (do_gc gc_mode ftl dv force sel) (\<lambda>(ftl', dv', r). collected ftl ftl' \<and> dev_timed dv dv')"
    using sel greedy.do_gc_spec [OF inv dv] cb.do_gc_spec [OF inv dv] cat.do_gc_spec [OF inv dv] by auto
  then show ?thesis by (auto simp: returns_def collected_def split: option.splits)
qed

theorem gc_keeps_data_witness:
  "\<exists>ftl' dv' r. do_gc GC_MODE_GREEDY demo_ftl (ns_dev demo_ns) True greedy_fn = Some (ftl', dv', r) \<and> ftl_inv ftl'"
proof -
  have m: "GC_MODE_GREEDY \<noteq> GC_MODE_RL" by (simp add: cdefs)
  have s: "greedy_fn \<in> {greedy_fn, select_victim_cb, select_victim_cat}" by simp
  note g = gc_keeps_data [OF demo_ftl(1,3) s, of GC_MODE_GREEDY True]
  show ?thesis using g m demo_ftl(2) by auto
qed

text \<open>
  C3: one logical page of a write leaves the invariant, maps that page, keeps every other page
  mapped or unmapped as it was, and takes at most two free lines; while write credits last it goes
  exactly to the place the user write pointer shows. Outside the learning mode it returns when
  three lines are free.
\<close>

theorem write_page_places:
  assumes inv: "ftl_inv f" and dv: "cm_wf (pcie dv)" and l: "unat lpn < tt_pgs (spp_of f)"
  shows "(\<forall>f' dv' t. write_page gc_mode sq_id stime lpn f dv latest = Some (f', dv', t) \<longrightarrow>
      ftl_inv f' \<and> latest \<le> t \<and>
      (\<forall>k < tt_pgs (spp_of f). mapped_ppa (maptbl f' ! k) \<longleftrightarrow> k = unat lpn \<or> mapped_ppa (maptbl f ! k)) \<and>
      (1 < write_credits (wfc f) \<longrightarrow> maptbl f' = (maptbl f)[unat lpn := ppa_of (wp_at (wp f))]) \<and>
      length (free_line_list (lm f)) \<le> length (free_line_list (lm f')) + 2) \<and>
    (gc_mode \<noteq> GC_MODE_RL \<and> 3 \<le> length (free_line_list (lm f)) \<longrightarrow>
      (\<exists>r. write_page gc_mode sq_id stime lpn f dv latest = Some r))"
  using write_page_spec [OF inv dv l, of gc_mode sq_id stime latest]
  by (auto simp: returns_def written_def split: option.splits)

theorem write_page_places_witness:
  "\<exists>f' dv' t. write_page GC_MODE_CAT 0 5 0 demo_ftl (ns_dev demo_ns) 9 = Some (f', dv', t) \<and>
    ftl_inv f' \<and> mapped_ppa (maptbl f' ! 0)"
proof -
  have m: "GC_MODE_CAT \<noteq> GC_MODE_RL" by (simp add: cdefs)
  have "unat (0 :: u64) < tt_pgs (spp_of demo_ftl)" using demo_ftl(4) by simp
  note w = write_page_places [OF demo_ftl(1,3) this, of GC_MODE_CAT 0 5 9]
  show ?thesis using w m demo_ftl(2,4) by fastforce
qed

text \<open>
  C4: a write command is rejected with LBA Out of Range, or with Internal Error when the write
  buffer has no room, and then changes nothing; otherwise it succeeds, maps exactly the logical
  pages of its range beside those already mapped, and takes its bytes from the write buffer.
\<close>

theorem conv_write_outcome:
  assumes inv: "ns_inv ns" and r: "conv_write gc_mode ns req ret = Some (ns', ret', ok)"
  shows "(if \<not> in_range ns req then \<not> ok \<and> ns' = ns \<and> ret_status ret' = NVME_SC_LBA_RANGE OR NVME_SC_DNR
      else if buf_remaining (write_buffer (ns_dev ns)) < nr_bytes (req_cmd req)
      then \<not> ok \<and> ns' = ns \<and> ret_status ret' = NVME_SC_INTERNAL OR NVME_SC_DNR
      else ok \<and> ret_status ret' = NVME_SC_SUCCESS \<and>
        ns_mapped ns' = ns_mapped ns \<union> unat ` {cmd_first ns req..cmd_last ns req} \<and>
        buf_remaining (write_buffer (ns_dev ns')) =
          buf_remaining (write_buffer (ns_dev ns)) - nr_bytes (req_cmd req)) \<and> ns_inv ns'"
  using conv_write_done [OF inv r] by (auto simp: write_done_def split: if_splits)

definition demo_write :: nvmev_request where
  "demo_write = \<lparr>req_cmd = \<lparr>rw_opcode = nvme_cmd_write, rw_slba = 0, rw_length = 15, rw_control = 0\<rparr>,
     req_sq_id = 1, req_nsecs_start = 100\<rparr>"

lemma demo_write:
  "cmd_first demo_ns demo_write = 0" "cmd_last demo_ns demo_write = 1" "in_range demo_ns demo_write"
  "nr_bytes (req_cmd demo_write) = 8192" "lpns_from 0 1 (1 :: u64) = [0, 1]"
proof -
  show c: "cmd_first demo_ns demo_write = 0" "cmd_last demo_ns demo_write = 1"
    by (simp_all add: cmd_first_def cmd_last_def demo_write_def demo_ns(8))
  show "in_range demo_ns demo_write"
    using demo_ftl(4) by (simp add: in_range_def c(2) demo_ns(3) demo_ftl_def)
  show "nr_bytes (req_cmd demo_write) = 8192" by (simp add: nr_bytes_def LBA_TO_BYTE_def demo_write_def)
  have "\<not> (2 :: u64) \<le> 1" by (simp add: word_le_nat_alt)
  then have "lpns_from 2 1 (1 :: u64) = []" by (subst lpns_from.simps) simp
  moreover have "lpns_from 1 1 (1 :: u64) = 1 # lpns_from 2 1 1" by (subst lpns_from.simps) simp
  moreover have "lpns_from 0 1 (1 :: u64) = 0 # lpns_from 1 1 1" by (subst lpns_from.simps) simp
  ultimately show "lpns_from 0 1 (1 :: u64) = [0, 1]" by simp
qed

theorem conv_write_outcome_witness:
  "\<exists>ns' ret'. conv_write GC_MODE_CB demo_ns demo_write \<lparr>ret_status = 0, ret_nsecs_target = 0\<rparr> = Some (ns', ret', True) \<and>
     ns_mapped ns' = {0, 1} \<and> buf_remaining (write_buffer (ns_dev ns')) = 778240"
proof -
  let ?ret = "\<lparr>ret_status = 0, ret_nsecs_target = 0\<rparr>"
  have sz: "nr_bytes (req_cmd demo_write) \<le> buf_size (write_buffer (ns_dev demo_ns))"
    by (simp add: demo_write(4) demo_ns(6))
  have "GC_MODE_CB \<noteq> GC_MODE_RL" by (simp add: cdefs)
  moreover have "ns_free_ge (2 * length (lpns_from (cmd_first demo_ns demo_write) (cmd_last demo_ns demo_write) 1) + 1) demo_ns"
    using demo_ns(5) by (fastforce simp: ns_free_ge_def demo_write)
  ultimately obtain r where r: "conv_write GC_MODE_CB demo_ns demo_write ?ret = Some r"
    using returns_totalD [OF conv_write_spec [OF demo_ns(2) sz, of GC_MODE_CB ?ret]] by blast
  obtain ns' ret' ok where e: "r = (ns', ret', ok)" by (cases r)
  have "{0..1 :: u64} = {0, 1}" using lpns_from_one [of 0 1] by (simp add: demo_write(5))
  then show ?thesis
    using conv_write_outcome [OF demo_ns(2) r [unfolded e]] r
    by (simp add: e demo_write demo_ns(4,7))
qed

text \<open>
  C5: a read command never faults; out of range it is rejected and changes nothing, otherwise it
  succeeds, completes no earlier than it started, and leaves mapping, page states and lines of
  every instance as they were.
\<close>

theorem conv_read_total:
  assumes inv: "ns_inv ns"
  shows "\<exists>ns' ret' ok. conv_read ns req ret = Some (ns', ret', ok) \<and> ok = in_range ns req \<and>
    (ok \<longrightarrow> ret_status ret' = NVME_SC_SUCCESS \<and> req_nsecs_start req \<le> ret_nsecs_target ret' \<and>
       (\<forall>i < ns_nr_parts ns. maptbl (ns_ftls ns' ! i) = maptbl (ns_ftls ns ! i) \<and>
          lm (ns_ftls ns' ! i) = lm (ns_ftls ns ! i) \<and>
          pst (cf_ssd (ns_ftls ns' ! i)) = pst (cf_ssd (ns_ftls ns ! i)))) \<and>
    (\<not> ok \<longrightarrow> ns' = ns \<and> ret_status ret' = NVME_SC_LBA_RANGE OR NVME_SC_DNR)"
proof -
  have same: "maptbl (ns_ftls ns' ! i) = maptbl (ns_ftls ns ! i) \<and> lm (ns_ftls ns' ! i) = lm (ns_ftls ns ! i) \<and>
      pst (cf_ssd (ns_ftls ns' ! i)) = pst (cf_ssd (ns_ftls ns ! i))"
    if "ns_timed ns ns'" "i < ns_nr_parts ns" for ns' i
    using that by (auto simp: ns_timed_def ftl_timed_def same_view_def)
  obtain ns' ret' ok where "conv_read ns req ret = Some (ns', ret', ok)"
    and "if in_range ns req then ok \<and> ret_status ret' = NVME_SC_SUCCESS \<and> ns_timed ns ns' \<and>
       req_nsecs_start req \<le> ret_nsecs_target ret'
     else \<not> ok \<and> ns' = ns \<and> ret_status ret' = NVME_SC_LBA_RANGE OR NVME_SC_DNR"
    using conv_read_spec [OF inv] by blast
  then show ?thesis using same by (intro exI [of _ ns'] exI [of _ ret'] exI [of _ ok]) (simp split: if_split_asm)
qed

theorem conv_read_total_witness:
  "\<exists>ns' ret'. conv_read demo_ns demo_write \<lparr>ret_status = 0, ret_nsecs_target = 0\<rparr> = Some (ns', ret', True) \<and>
     100 \<le> ret_nsecs_target ret'"
proof -
  have s: "req_nsecs_start demo_write = 100" by (simp add: demo_write_def)
  show ?thesis
    using conv_read_total [OF demo_ns(2), of demo_write "\<lparr>ret_status = 0, ret_nsecs_target = 0\<rparr>"] demo_write(3) s
    by auto
qed

text \<open>
  C22: a flush never faults: none of the divisions and square roots of its statistics, nor an array
  access, fails in any state that satisfies the invariant, and it changes nothing but times.
\<close>

theorem conv_flush_total:
  assumes inv: "ns_inv ns"
  shows "\<exists>dv' ret'. conv_flush ns ret = Some (ns\<lparr>ns_dev := dv'\<rparr>, ret') \<and> ret_status ret' = NVME_SC_SUCCESS \<and>
    write_buffer dv' = write_buffer (ns_dev ns)"
  using flush_spec [OF inv, of ret] dev_timed_fields by blast

theorem conv_flush_total_witness:
  "\<exists>dv' ret'. conv_flush demo_ns \<lparr>ret_status = 6, ret_nsecs_target = 0\<rparr> = Some (demo_ns\<lparr>ns_dev := dv'\<rparr>, ret') \<and>
     ret_status ret' = 0"
  using conv_flush_total [OF demo_ns(2), of "\<lparr>ret_status = 6, ret_nsecs_target = 0\<rparr>"] by (auto simp: cdefs)

text \<open>
  C6: initialising a namespace of 4 bytes up to 4 * 10^12 bytes succeeds whatever the allocated
  memory holds: four instances that satisfy the invariant, no page mapped, every line free but the
  three under write pointers, the whole write buffer available, and a size of the capacity less the
  share kept back.
\<close>

theorem conv_init_fresh:
  assumes cap: "4 \<le> unat sz" "unat sz \<le> 4 * 10 ^ 12"
  shows "\<exists>ns. conv_init_namespace spp0 junk d0 w0 clk rnd nsid sz = Some ns \<and> ns_inv ns \<and>
    ns_nr_parts ns = 4 \<and> ns_mapped ns = {} \<and> (\<forall>f \<in> set (ns_ftls ns). 2045 \<le> length (free_line_list (lm f))) \<and>
    ns_size ns = sz * 100 div 128 \<and> buf_remaining (write_buffer (ns_dev ns)) = 786432"
  using conv_init_spec [OF cap, of spp0 junk d0 w0 clk rnd nsid] unfolding ns_free_ge_def by blast

theorem conv_init_fresh_witness:
  "\<exists>ns. conv_init_namespace zero_spp (\<lambda>_ _. 9) (\<lambda>_. 3)
     \<lparr>curline = 0, wp_ch = 0, wp_lun = 0, wp_pg = 0, wp_blk = 0, wp_pl = 0\<rparr>
     (\<lambda>n. of_nat n) (\<lambda>_. 7) 1 (2 ^ 33) = Some ns \<and> ns_inv ns \<and> ns_size ns = 6710886400"
proof -
  have "4 \<le> unat (2 ^ 33 :: u64)" "unat (2 ^ 33 :: u64) \<le> 4 * 10 ^ 12" by simp_all
  from conv_init_fresh [OF this, of zero_spp "\<lambda>_ _. 9" "\<lambda>_. 3"
      "\<lparr>curline = 0, wp_ch = 0, wp_lun = 0, wp_pg = 0, wp_blk = 0, wp_pl = 0\<rparr>" "\<lambda>n. of_nat n" "\<lambda>_. 7" 1]
  show ?thesis by auto
qed

end
