(* ===== verification/Policy.thy ===== *)
theory Policy
  imports Ftl_Select
begin

text \<open>
  What the scored policies choose. The scan compares fractions by cross multiplication in 64-bit
  arithmetic; while lines have at most 2^17 pages and were erased less than 2^20 times no product
  wraps around, and the line it ends with has the greatest benefit per cost.
\<close>

text \<open>Benefit and cost of a line at a time: age weight times invalid pages, and valid pages + 1 (times erasures + 1 for CAT).\<close>

definition benefit :: "u64 \<Rightarrow> line \<Rightarrow> nat" where
  "benefit now l = unat (get_age_weight (elapsed_since now (last_modified_time l))) * nat (line_ipc l)"

definition cost :: "u32 \<Rightarrow> line \<Rightarrow> nat" where
  "cost dl l = nat (line_vpc l + 1) * (if dl = 0 then 1 else unat (line_erase_cnt l) + 1)"

definition small_line :: "line \<Rightarrow> bool" where
  "small_line l \<longleftrightarrow> 0 \<le> line_ipc l \<and> line_ipc l \<le> 2 ^ 17 \<and> 0 \<le> line_vpc l \<and> line_vpc l \<le> 2 ^ 17 \<and>
     unat (line_erase_cnt l) < 2 ^ 20"

lemma small_bounds:
  assumes "small_line l"
  shows "benefit now l \<le> 100 * 2 ^ 17" "0 < cost dl l" "cost dl l \<le> (2 ^ 17 + 1) * 2 ^ 20"
proof -
  have "unat (get_age_weight t) \<le> 100" for t using age_weight_cases [of t] by auto
  moreover have "nat (line_ipc l) \<le> 2 ^ 17" using assms by (simp add: small_line_def nat_le_iff)
  ultimately show "benefit now l \<le> 100 * 2 ^ 17" unfolding benefit_def by (intro mult_le_mono)
  have v: "0 < nat (line_vpc l + 1)" "nat (line_vpc l + 1) \<le> 2 ^ 17 + 1"
    using assms by (auto simp: small_line_def nat_le_iff)
  then show "0 < cost dl l" by (simp add: cost_def)
  show "cost dl l \<le> (2 ^ 17 + 1) * 2 ^ 20"
    unfolding cost_def using v assms by (intro mult_le_mono) (auto simp: small_line_def)
qed

lemma unat_of_small_int:
  assumes "0 \<le> i" "i \<le> 2 ^ 18"
  shows "unat (word_of_int i :: u64) = nat i"
proof -
  have "(word_of_int i :: u64) = of_nat (nat i)" by (rule word_of_int_nat [OF assms(1)])
  moreover have "nat i < 2 ^ 64" using assms by (simp add: nat_less_iff)
  ultimately show ?thesis by (simp add: unat_of_nat_small)
qed

lemma score_exact:
  assumes s: "small_line l" and dl: "dl \<in> {0, 2}"
  shows "\<exists>num den. compute_victim_score l now 1 dl = Some (num, den) \<and> unat num = benefit now l \<and> unat den = cost dl l"
proof -
  let ?aw = "get_age_weight (elapsed_since now (last_modified_time l))"
  note B = small_bounds [OF s]
  have i: "unat (word_of_int (line_ipc l) :: u64) = nat (line_ipc l)"
    and v: "unat (word_of_int (line_vpc l + 1) :: u64) = nat (line_vpc l + 1)"
    by (rule unat_of_small_int; use s in \<open>simp add: small_line_def\<close>)+
  have num: "unat (?aw * word_of_int (line_ipc l)) = benefit now l"
    using B(1) [of now] i unfolding benefit_def by (subst unat_mult_nowrap) simp_all
  define d :: u64 where "d = (if dl = 0 then 1 else ucast (line_erase_cnt l) + 1)"
  have "unat (ucast (line_erase_cnt l) + 1 :: u64) = unat (line_erase_cnt l) + 1"
    using s by (subst unat_add_nowrap) (simp_all add: unat_ucast_up small_line_def)
  then have d: "unat d = (if dl = 0 then 1 else unat (line_erase_cnt l) + 1)" by (simp add: d_def)
  have "nat (line_vpc l + 1) * unat d = cost dl l" by (simp add: cost_def d)
  then have den: "unat (word_of_int (line_vpc l + 1) * d) = cost dl l"
    using B(3) [of dl] v by (subst unat_mult_nowrap) simp_all
  then have "word_of_int (line_vpc l + 1) * d \<noteq> 0" using B(2) [of dl] by (metis neq0_conv unat_0 not_less0)
  moreover have "apply_delta (ucast (line_erase_cnt l) + 1) dl = Some d"
    using dl by (auto simp: apply_delta_def d_def)
  ultimately have "compute_victim_score l now 1 dl =
      Some (?aw * word_of_int (line_ipc l), word_of_int (line_vpc l + 1) * d)"
    by (simp add: compute_victim_score_def apply_alpha_def Let_def)
  then show ?thesis using num den by blast
qed

text \<open>Comparison of fractions is transitive.\<close>

lemma fraction_trans:
  fixes a b c d e f :: nat
  assumes "a * d \<le> c * b" "c * f \<le> e * d" "0 < d"
  shows "a * f \<le> e * b"
proof -
  have "(a * f) * d = (a * d) * f" by simp
  also have "\<dots> \<le> (c * b) * f" using assms(1) by simp
  also have "\<dots> = (c * f) * b" by simp
  also have "\<dots> \<le> (e * d) * b" using assms(2) by simp
  finally have "(a * f) * d \<le> (e * b) * d" by (simp add: ac_simps)
  then show ?thesis using assms(3) by simp
qed

definition best_of :: "line_mgmt \<Rightarrow> u64 \<Rightarrow> u32 \<Rightarrow> nat set \<Rightarrow> nat option \<times> u64 \<times> u64 \<Rightarrow> bool" where
  "best_of m now dl S s \<longleftrightarrow> (case s of
     (None, n, d) \<Rightarrow> S = {}
   | (Some v, n, d) \<Rightarrow> v \<in> S \<and> unat n = benefit now (lines m ! v) \<and> unat d = cost dl (lines m ! v) \<and>
       (\<forall>b \<in> S. benefit now (lines m ! b) * cost dl (lines m ! v) \<le> benefit now (lines m ! v) * cost dl (lines m ! b)))"

lemma unat_product:
  assumes "small_line l" "unat n = benefit now l" "unat d \<le> (2 ^ 17 + 1) * 2 ^ 20"
  shows "unat (n * d :: u64) = unat n * unat d"
proof (rule unat_mult_nowrap)
  have "unat n * unat d \<le> (100 * 2 ^ 17) * ((2 ^ 17 + 1) * 2 ^ 20)"
    using assms small_bounds(1) by (intro mult_le_mono) simp_all
  then show "unat n * unat d < 2 ^ LENGTH(64)" by simp
qed

lemma scan_best:
  assumes small: "small_line (lines m ! c)" and rest: "\<forall>b \<in> S. small_line (lines m ! b)"
    and c: "c = pq_d (victim_line_pq m) i" "c < length (lines m)"
    and dl: "dl \<in> {0, 2}" and s: "best_of m now dl S s"
  shows "\<exists>s'. scan_scored m now 1 dl i s = Some s' \<and> best_of m now dl (insert c S) s'"
proof -
  obtain best n d where e: "s = (best, n, d)" by (cases s)
  let ?l = "lines m ! c"
  obtain num den where sc: "compute_victim_score ?l now 1 dl = Some (num, den)" "unat num = benefit now ?l" "unat den = cost dl ?l"
    using score_exact [OF small dl] by blast
  have run: "scan_scored m now 1 dl i s =
      Some (if best = None \<or> n * den < num * d then (Some c, num, den) else s)"
    using sc(1) c by (simp add: scan_scored_def e)
  show ?thesis
  proof (cases best)
    case None
    then show ?thesis using run sc s by (simp add: best_of_def e)
  next
    case (Some v)
    let ?v = "lines m ! v"
    have v: "v \<in> S" "unat n = benefit now ?v" "unat d = cost dl ?v"
        "\<And>b. b \<in> S \<Longrightarrow> benefit now (lines m ! b) * cost dl ?v \<le> benefit now ?v * cost dl (lines m ! b)"
      using s by (simp_all add: best_of_def e Some)
    have sv: "small_line ?v" using rest v(1) by blast
    have cmp: "n * den < num * d \<longleftrightarrow> benefit now ?v * cost dl ?l < benefit now ?l * cost dl ?v"
      using unat_product [OF sv v(2), of den] unat_product [OF small sc(2), of d] small_bounds(3) [OF small, of dl]
        small_bounds(3) [OF sv, of dl] sc(2,3) v(2,3)
      by (simp add: word_less_nat_alt)
    show ?thesis
    proof (cases "n * den < num * d")
      case True
      have "benefit now (lines m ! b) * cost dl ?l \<le> benefit now ?l * cost dl (lines m ! b)" if "b \<in> S" for b
        using fraction_trans [OF v(4) [OF that] _ small_bounds(2) [OF sv]] True cmp by simp
      then show ?thesis using run True sc by (auto simp: best_of_def Some)
    next
      case False
      then have "benefit now ?l * cost dl ?v \<le> benefit now ?v * cost dl ?l" using cmp by simp
      then show ?thesis using run False v Some by (auto simp: best_of_def e)
    qed
  qed
qed

lemma scored_best:
  assumes inv: "ftl_inv ftl" and dl: "dl \<in> {0, 2}"
    and pgs: "pgs_per_line (spp_of ftl) \<le> 2 ^ 17"
    and ec: "\<forall>b \<in> pq_items (victim_line_pq (lm ftl)). unat (line_erase_cnt (lines (lm ftl) ! b)) < 2 ^ 20"
    and r: "select_victim_scored ftl dv 1 dl = Some (ftl', dv', best)"
  defines "now \<equiv> fst (read_clock dv)" and "ls \<equiv> lines (lm ftl)"
  shows "case best of None \<Rightarrow> pq_items (victim_line_pq (lm ftl)) = {}
    | Some v \<Rightarrow> v \<in> pq_items (victim_line_pq (lm ftl)) \<and> (\<forall>b \<in> pq_items (victim_line_pq (lm ftl)).
        benefit now (ls ! b) * cost dl (ls ! v) \<le> benefit now (ls ! v) * cost dl (ls ! b))"
proof -
  note I = ftl_inv_lines [OF inv]
  let ?m = "lm ftl" and ?q = "victim_line_pq (lm ftl)"
  obtain now' dv1 where t: "read_clock dv = (now', dv1)" by (cases "read_clock dv")
  then have now: "now' = now" by (simp add: now_def)
  have small: "small_line (lines ?m ! b)" if b: "b \<in> pq_items ?q" for b
    using line_vpc_eq [OF inv I(4) [OF b]] npg_line_le [OF I(2)] pgs ec b
    by (auto simp: small_line_def intro: order_trans)
  show ?thesis
  proof (cases "pq_size ?q \<le> 1")
    case True
    then have "best = None" "pq_items ?q = {}" using r t by (auto simp: select_victim_scored_def pq_items_def)
    then show ?thesis by simp
  next
    case False
    let ?I = "\<lambda>i. best_of ?m now dl (pq_d ?q ` {1..<i})"
    have "returns True (fold_opt (scan_scored ?m now 1 dl) [1..<pq_size ?q] (None, 0, 1)) (?I (pq_size ?q))"
    proof (rule returns_fold_upt)
      show "?I 1 (None, 0, 1)" by (simp add: best_of_def)
      show "1 \<le> pq_size ?q" using False by simp
    next
      fix i s assume i: "1 \<le> i" "i < pq_size ?q" and s: "?I i s"
      have c: "pq_d ?q i \<in> pq_items ?q" using i by (auto simp: pq_items_def)
      have S: "pq_d ?q ` {1..<i} \<subseteq> pq_items ?q" using i by (auto simp: pq_items_def)
      have len: "pq_d ?q i < length (lines ?m)" using I(3,4) c by simp
      have "pq_d ?q ` {1..<Suc i} = insert (pq_d ?q i) (pq_d ?q ` {1..<i})" using i by (simp add: atLeastLessThanSuc)
      moreover obtain s' where "scan_scored ?m now 1 dl i s = Some s'"
          "best_of ?m now dl (insert (pq_d ?q i) (pq_d ?q ` {1..<i})) s'"
        using scan_best [OF small [OF c] _ refl len dl s] small S by blast
      ultimately show "returns True (scan_scored ?m now 1 dl i s) (?I (Suc i))"
        by (simp only: returns_Some)
    qed
    then obtain b n d where f: "fold_opt (scan_scored ?m now 1 dl) [1..<pq_size ?q] (None, 0, 1) = Some (b, n, d)"
        "best_of ?m now dl (pq_items ?q) (b, n, d)"
      using returns_totalD by (fastforce simp: pq_items_def)
    have "b = best"
      using r t False f(1) by (auto simp: select_victim_scored_def now bind_Some_iff Let_def split: option.splits prod.splits)
    then show ?thesis using f(2) by (cases b) (auto simp: best_of_def ls_def)
  qed
qed

end
