(* ===== verification/Agent.thy ===== *)
theory Agent
  imports Ftl_Cycle
begin

text \<open>
  The Q-learning agent. Its table has 1728 states and 20 actions; state indices are below 1728,
  actions below 20 and decode to the two levels and back, and an update changes one cell of the
  table and keeps the exploration rate within its limits, so no table access faults.
\<close>

definition agent_ok :: "rl_config \<Rightarrow> bool" where
  "agent_ok r \<longleftrightarrow> length (q_table r) = RL_NUM_STATES \<and> (\<forall>row \<in> set (q_table r). length row = RL_NUM_ACTIONS) \<and>
     unat (cur_state r) < RL_NUM_STATES \<and> unat (cur_action r) < RL_NUM_ACTIONS \<and>
     RL_EPSILON_MIN \<le> epsilon r \<and> epsilon r \<le> RL_EPSILON_INIT"

lemma agent_okD:
  assumes "agent_ok r"
  shows "length (q_table r) = 1728" "s < 1728 \<Longrightarrow> length (q_table r ! s) = 20"
    "unat (cur_state r) < 1728" "unat (cur_action r) < 20" "50 \<le> epsilon r" "epsilon r \<le> 300"
  using assms by (auto simp: agent_ok_def cdefs)

lemma init_rl_ok: "agent_ok init_rl"
  by (simp add: agent_ok_def init_rl_def cdefs)

subsection \<open>States\<close>

lemma bucket4_less: "bucket4 x a b c < 4"
  by (simp add: bucket4_def)

lemma state_index:
  assumes "s1 < 4" "s2 < 4" "s3 < 4" "s4 < 3" "s5 < 3" "s6 < (3 :: nat)"
  shows "s1 * (4 * 4 * 3 * 3 * 3) + s2 * (4 * 3 * 3 * 3) + s3 * (3 * 3 * 3) + s4 * (3 * 3) + s5 * 3 + s6 < 1728"
  using assms by simp

lemma state_word:
  assumes "s1 < 4" "s2 < 4" "s3 < 4" "s4 < 3" "s5 < 3" "s6 < 3"
  shows "unat (of_nat (s1 * (RL_NUM_S2 * RL_NUM_S3 * RL_NUM_S4 * RL_NUM_S5 * RL_NUM_S6) +
      s2 * (RL_NUM_S3 * RL_NUM_S4 * RL_NUM_S5 * RL_NUM_S6) + s3 * (RL_NUM_S4 * RL_NUM_S5 * RL_NUM_S6) +
      s4 * (RL_NUM_S5 * RL_NUM_S6) + s5 * RL_NUM_S6 + s6) :: u32) < 1728"
proof -
  let ?n = "s1 * (4 * 4 * 3 * 3 * 3) + s2 * (4 * 3 * 3 * 3) + s3 * (3 * 3 * 3) + s4 * (3 * 3) + s5 * 3 + s6"
  have n: "?n < 1728" by (rule state_index [OF assms])
  then have "unat (of_nat ?n :: u32) = ?n" by (intro unat_of_nat_small) simp
  then show ?thesis using n
    by (simp only: RL_NUM_S2_def RL_NUM_S3_def RL_NUM_S4_def RL_NUM_S5_def RL_NUM_S6_def)
qed

lemma returns_any: "(\<And>x. returns False (f x) R) \<Longrightarrow> returns False (Option.bind m f) R"
  by (cases m) simp_all

lemma rl_get_state_less:
  assumes "rl_get_state f dv = Some (dv', st)"
  shows "unat st < 1728"
proof -
  obtain now dv1 where t: "read_clock dv = (now, dv1)" by (cases "read_clock dv")
  have "returns False (rl_get_state f dv) (\<lambda>(dv', st). unat st < 1728)"
    unfolding rl_get_state_def Let_def t prod.case
    by (rule returns_any)+ (simp only: returns_Some prod.case, rule state_word, auto intro: bucket4_less)
  then show ?thesis using assms by simp
qed

subsection \<open>Actions\<close>

lemma decode_levels:
  fixes r :: rl_config
  assumes "unat a < 20"
  defines "r' \<equiv> rl_decode_action r a"
  shows "unat (alpha_level r') < 4" "unat (delta_level r') < 5"
    "unat (alpha_level r') * 5 + unat (delta_level r') = unat a" "cur_action r' = a"
proof -
  have "unat (a div 5) = unat a div 5" "unat (a mod 5) = unat a mod 5" by (simp_all add: unat_div unat_mod)
  then show "unat (alpha_level r') < 4" "unat (delta_level r') < 5"
    "unat (alpha_level r') * 5 + unat (delta_level r') = unat a" "cur_action r' = a"
    using assms(1) by (simp_all add: r'_def rl_decode_action_def cdefs)
qed

lemma argmax_q_spec:
  assumes ok: "agent_ok r" and s: "s < 1728"
  shows "\<exists>a q. argmax_q r s = Some (a, q) \<and> a < 20 \<and> q = q_table r ! s ! a \<and>
    (\<forall>b < 20. q_table r ! s ! b \<le> q) \<and> (\<forall>b < a. q_table r ! s ! b < q)"
proof -
  note A = agent_okD [OF ok]
  let ?Q = "\<lambda>a. q_table r ! s ! a"
  have rd: "q_read r s a = Some (?Q a)" if "a < 20" for a
    using A(1) A(2) [OF s] s that by (simp add: q_read_def)
  let ?I = "\<lambda>i p. case p of (a, q) \<Rightarrow> a < i \<and> q = ?Q a \<and> (\<forall>b < i. ?Q b \<le> q) \<and> (\<forall>b < a. ?Q b < q)"
  have "returns True (fold_opt (\<lambda>a p. do {
         let (best_a, best_q) = p;
         v \<leftarrow> q_read r s a;
         Some (if best_q < v then (a, v) else p)
       }) [1..<20] (0, ?Q 0)) (?I 20)"
  proof (rule returns_fold_upt)
    fix i p assume i: "1 \<le> i" "i < (20 :: nat)" and p: "?I i p"
    show "returns True (do { let (best_a, best_q) = p; v \<leftarrow> q_read r s i; Some (if best_q < v then (i, v) else p) }) (?I (Suc i))"
      using p rd [OF i(2)] by (cases p) (auto simp: less_Suc_eq)
  qed simp_all
  then obtain a q where f: "fold_opt (\<lambda>a p. do {
         let (best_a, best_q) = p;
         v \<leftarrow> q_read r s a;
         Some (if best_q < v then (a, v) else p)
       }) [1..<20] (0, ?Q 0) = Some (a, q)" "?I 20 (a, q)"
    using returns_totalD by (metis (no_types, lifting) surj_pair)
  have "argmax_q r s = Some (a, q)"
    using f(1) rd [of 0] by (simp add: argmax_q_def RL_NUM_ACTIONS_def RL_NUM_A1_def RL_NUM_A2_def)
  then show ?thesis using f(2) unfolding prod.case by blast
qed

lemma rl_select_action_spec:
  assumes ok: "agent_ok r" and s: "unat st < 1728" and dv: "cm_wf (pcie dv)"
  shows "\<exists>dv' a. rl_select_action r dv st = Some (dv', a) \<and> unat a < 20 \<and> dev_timed dv dv' \<and>
    (fst (get_random_u32 dv) mod 1000 < epsilon r \<or>
      (\<forall>b < 20. q_table r ! unat st ! b \<le> q_table r ! unat st ! unat a))"
proof -
  obtain x dv1 where 1: "get_random_u32 dv = (x, dv1)" by (cases "get_random_u32 dv")
  obtain y dv2 where 2: "get_random_u32 dv1 = (y, dv2)" by (cases "get_random_u32 dv1")
  note t1 = random_timed [OF dv 1]
  note t2 = dev_timed_trans [OF t1 random_timed [OF dev_timed_wf [OF t1] 2]]
  show ?thesis
  proof (cases "x mod 1000 < epsilon r")
    case True
    have "unat (y mod 20) < 20" by (simp add: unat_mod)
    then show ?thesis
      using True 1 2 t2 by (simp add: rl_select_action_def RL_NUM_ACTIONS_def RL_NUM_A1_def RL_NUM_A2_def)
  next
    case False
    obtain a q where a: "argmax_q r (unat st) = Some (a, q)" "a < 20" "q = q_table r ! unat st ! a"
        "\<forall>b < 20. q_table r ! unat st ! b \<le> q"
      using argmax_q_spec [OF ok s] by blast
    have "unat (of_nat a :: u32) = a" using a(2) by (intro unat_of_nat_small) simp
    then show ?thesis using False 1 a t1 by (simp add: rl_select_action_def)
  qed
qed

subsection \<open>Learning\<close>

lemma clamp_bounds: "- 2000 \<le> clamp x" "clamp x \<le> 2000"
  by (simp_all add: clamp_def Let_def)

lemma epsilon_decay:
  assumes "50 \<le> e" "e \<le> (300 :: u32)"
  defines "e' \<equiv> e * RL_EPSILON_DECAY div 1000"
  shows "RL_EPSILON_MIN \<le> (if e' < RL_EPSILON_MIN then RL_EPSILON_MIN else e')"
    "(if e' < RL_EPSILON_MIN then RL_EPSILON_MIN else e') \<le> RL_EPSILON_INIT"
    "(if e' < RL_EPSILON_MIN then RL_EPSILON_MIN else e') \<le> e"
proof -
  have e: "unat e \<le> 300" "50 \<le> unat e" using assms(1,2) by (simp_all add: word_le_nat_alt)
  then have "unat (e * 999) = unat e * 999" by (subst unat_mult_nowrap) simp_all
  then have "unat e' = unat e * 999 div 1000" unfolding e'_def by (simp add: unat_div cdefs)
  then have u: "unat e' \<le> unat e" by simp
  show "RL_EPSILON_MIN \<le> (if e' < RL_EPSILON_MIN then RL_EPSILON_MIN else e')" by (simp add: not_less)
  show "(if e' < RL_EPSILON_MIN then RL_EPSILON_MIN else e') \<le> RL_EPSILON_INIT"
    "(if e' < RL_EPSILON_MIN then RL_EPSILON_MIN else e') \<le> e"
    using u e by (auto simp: word_le_nat_alt cdefs)
qed

lemma rl_update_spec:
  assumes ok: "agent_ok (rl f)" and u: "rl_update_agent f ns = Some f'"
  shows "agent_ok (rl f') \<and> epsilon (rl f') \<le> epsilon (rl f) \<and>
    total_episodes (rl f') = total_episodes (rl f) + 1 \<and>
    (\<forall>s a. s < 1728 \<and> a < 20 \<and> (s \<noteq> unat (cur_state (rl f)) \<or> a \<noteq> unat (cur_action (rl f))) \<longrightarrow>
      q_table (rl f') ! s ! a = q_table (rl f) ! s ! a)"
proof -
  let ?r = "rl f" and ?s = "unat (cur_state (rl f))" and ?a = "unat (cur_action (rl f))"
  note A = agent_okD [OF ok]
  obtain v x emax emin r2 where q: "q_write ?r ?s ?a v = Some r2"
    and f'0: "f' = f\<lparr>rl := r2\<lparr>epsilon := (if epsilon r2 * RL_EPSILON_DECAY div 1000 < RL_EPSILON_MIN
          then RL_EPSILON_MIN else epsilon r2 * RL_EPSILON_DECAY div 1000),
        total_episodes := total_episodes r2 + 1, total_reward := total_reward r2 + x,
        prev_copied_pages := gc_copied_pages f, prev_erase_max := emax, prev_erase_min := emin\<rparr>\<rparr>"
    using u unfolding rl_update_agent_def Let_def bind_Some_iff
    by (clarsimp simp: bind_Some_iff split: prod.splits)
  have r2: "r2 = ?r\<lparr>q_table := (q_table ?r)[?s := (q_table ?r ! ?s)[?a := v]]\<rparr>"
    using q A(1,3,4) A(2) [OF A(3)] by (auto simp: q_write_def)
  have f': "rl f' = (?r\<lparr>q_table := (q_table ?r)[?s := (q_table ?r ! ?s)[?a := v]]\<rparr>)
      \<lparr>epsilon := (if epsilon ?r * RL_EPSILON_DECAY div 1000 < RL_EPSILON_MIN then RL_EPSILON_MIN
          else epsilon ?r * RL_EPSILON_DECAY div 1000),
        total_episodes := total_episodes ?r + 1, total_reward := total_reward ?r + x,
        prev_copied_pages := gc_copied_pages f, prev_erase_max := emax, prev_erase_min := emin\<rparr>"
    by (simp add: f'0 r2)
  have rows: "length row = 20" if "row \<in> set ((q_table ?r)[?s := (q_table ?r ! ?s)[?a := v]])" for row
    using that A(1,3) A(2) [OF A(3)] A(2) by (auto simp: in_set_conv_nth nth_list_update split: if_splits)
  note E = epsilon_decay [OF A(5,6)]
  have "agent_ok (rl f')"
    using E(1,2) A(1,3,4) rows unfolding agent_ok_def f'
    by (simp add: RL_NUM_STATES_def RL_NUM_S1_def RL_NUM_S2_def RL_NUM_S3_def RL_NUM_S4_def RL_NUM_S5_def RL_NUM_S6_def
        RL_NUM_ACTIONS_def RL_NUM_A1_def RL_NUM_A2_def)
  moreover have "q_table (rl f') ! s ! a = q_table ?r ! s ! a" if "s < 1728" "a < 20" "s \<noteq> ?s \<or> a \<noteq> ?a" for s a
    using that A(1) A(2) [OF A(3)] by (cases "s = ?s") (auto simp: f' nth_list_update)
  ultimately show ?thesis using E(3) by (simp add: f')
qed

end
