(* ===== verification/Device_Props.thy ===== *)
theory Device_Props
  imports Conv_Props Policy Agent
begin

text \<open>Properties of the parts of the conventional FTL and of the device below it.\<close>

text \<open>The instances of \<open>demo_ns\<close> start without victims.\<close>

lemma demo_ftl_pgs: "pgs_per_line (spp_of demo_ftl) = 48" "tt_lines (spp_of demo_ftl) = 2048"
  using demo_ns(9,10) by (simp_all add: demo_ftl_def)


subsection \<open>Victim selection\<close>

text \<open>
  C15: on an instance with the invariant the greedy policy returns; it takes a line with the fewest
  valid pages out of the victim queue, one without a free page and not wholly valid, or changes
  nothing, and when it is forced it finds a victim whenever the queue is not empty.
\<close>

theorem greedy_takes_minimum:
  assumes inv: "ftl_inv ftl"
  shows "\<exists>ftl' v. select_victim_greedy ftl force = Some (ftl', v) \<and>
    (case v of
       None \<Rightarrow> ftl' = ftl \<and> (force \<longrightarrow> pq_items (victim_line_pq (lm ftl)) = {})
     | Some x \<Rightarrow> x \<in> pq_items (victim_line_pq (lm ftl)) \<and> x \<notin> pq_items (victim_line_pq (lm ftl')) \<and>
         (\<forall>b \<in> pq_items (victim_line_pq (lm ftl)). line_vpc (lines (lm ftl) ! x) \<le> line_vpc (lines (lm ftl) ! b)) \<and>
         (\<forall>a \<in> lpages (spp_of ftl) x. pst (cf_ssd ftl) a \<noteq> PG_FREE) \<and>
         (\<exists>a \<in> lpages (spp_of ftl) x. pst (cf_ssd ftl) a \<noteq> PG_VALID))"
proof -
  have dv: "cm_wf (pcie tiny_dev)" using tiny_pcie(2) by (simp add: tiny_dev_def)
  obtain ftl' v where g: "select_victim_greedy ftl force = Some (ftl', v)" "victim_post ftl tiny_dev (ftl', tiny_dev, v)"
      "\<forall>x. v = Some x \<longrightarrow> (\<forall>b \<in> pq_items (victim_line_pq (lm ftl)).
         line_vpc (lines (lm ftl) ! x) \<le> line_vpc (lines (lm ftl) ! b))"
      "force \<longrightarrow> v = None \<longrightarrow> pq_items (victim_line_pq (lm ftl)) = {}"
    using greedy_contract [OF inv dv, of force] by blast
  show ?thesis
  proof (cases v)
    case None
    then have "ftl' = ftl"
      using g(1) by (auto simp: select_victim_greedy_def bind_Some_iff Let_def split: option.splits if_splits prod.splits)
    then show ?thesis using g(1,4) None by auto
  next
    case (Some x)
    obtain m a where m: "ftl' = ftl\<lparr>lm := m, rl := a\<rparr>" "x \<in> pq_items (victim_line_pq (lm ftl))"
        "lines_ok (spp_of ftl) (pst (cf_ssd ftl)) m (fills ftl) [x]"
        "\<forall>a \<in> lpages (spp_of ftl) x. pst (cf_ssd ftl) a \<noteq> PG_FREE"
        "npg (pst (cf_ssd ftl)) PG_VALID (lpages (spp_of ftl) x) < pgs_per_line (spp_of ftl)"
      using g(2) Some by (auto simp: victim_post_def)
    have "x \<notin> pq_items (victim_line_pq m)" using m(3) by (auto simp: lines_ok_def part_ok_def places_def)
    moreover have "\<exists>a \<in> lpages (spp_of ftl) x. pst (cf_ssd ftl) a \<noteq> PG_VALID"
    proof (rule ccontr)
      assume "\<not> ?thesis"
      then have "npg (pst (cf_ssd ftl)) PG_VALID (lpages (spp_of ftl) x) = card (lpages (spp_of ftl) x)"
        by (simp add: npg_full)
      then show False using m(5) card_lpages [OF ftl_inv_lines(2) [OF inv]] by simp
    qed
    moreover have "lm ftl' = m" by (simp add: m(1))
    ultimately show ?thesis
      using g(1,3) m(2,4) unfolding Some by (intro exI [of _ ftl'] exI [of _ "Some x"]) simp
  qed
qed

theorem greedy_takes_minimum_witness:
  "\<exists>ftl' v. select_victim_greedy demo_ftl True = Some (ftl', v) \<and>
     (v = None \<longrightarrow> pq_items (victim_line_pq (lm demo_ftl)) = {})"
proof -
  obtain ftl' v where g: "select_victim_greedy demo_ftl True = Some (ftl', v)"
      "v = None \<longrightarrow> pq_items (victim_line_pq (lm demo_ftl)) = {}"
    using greedy_takes_minimum [OF demo_ftl(1), of True] by (fastforce split: option.splits)
  then show ?thesis by blast
qed



subsection \<open>The agent\<close>

text \<open>
  An instance whose two victims, at the head of the queue, differ in valid pages and in erasures:
  what the agent sees and how it learns.
\<close>

definition two_lines :: conv_ftl where
  "two_lines = demo_ftl\<lparr>rl := init_rl, lm := (lm demo_ftl)\<lparr>lm_tt_lines := 2,
     lines := [\<lparr>line_id = 0, line_ipc = 40, line_vpc = 8, line_pos = 1, last_modified_time = 0, line_erase_cnt = 9\<rparr>,
               \<lparr>line_id = 1, line_ipc = 30, line_vpc = 18, line_pos = 2, last_modified_time = 0, line_erase_cnt = 0\<rparr>],
     victim_line_pq := (victim_line_pq (lm demo_ftl))\<lparr>pq_size := 3, pq_d := (\<lambda>i. i - 1)\<rparr>\<rparr>\<rparr>"

lemma two_lines_state: "rl_get_state two_lines tiny_dev = Some (tiny_dev\<lparr>ticks := Suc 1\<rparr>, 335)"
  by (simp add: rl_get_state_def two_lines_def tiny_dev_def read_clock_def upt_rec scan_rl_def scan_init_def
      get_line_at_def compute_victim_score_def get_age_weight_def apply_alpha_def apply_delta_def elapsed_since_def
      init_rl_def vpc_gap_def bucket4_def hot_pct_of_def demo_ftl_pgs cdefs)

lemma two_lines_update: "\<exists>f'. rl_update_agent two_lines 335 = Some f'"
proof -
  obtain a q where "argmax_q init_rl 335 = Some (a, q)" using argmax_q_spec [OF init_rl_ok, of 335] by auto
  then show ?thesis
    by (simp add: rl_update_agent_def collect_erase_stats_def two_lines_def get_line_at_def wear_penalty_of_def
      q_read_def q_write_def modify_def wr_def rd_def init_rl_def upt_rec demo_ftl_pgs cdefs)
qed

text \<open>
  C18: the Q-learning agent never leaves its table: observed states are below 1728; in a well-formed
  agent the chosen action is below 20 and, unless it explores, has the greatest Q value of the
  state; it decodes to an age level below 4 and a wear level below 5 that determine it.
\<close>

theorem agent_choice_in_table:
  assumes st: "rl_get_state f dv = Some (dv1, st)" and ok: "agent_ok r" and dv: "cm_wf (pcie dv1)"
  shows "unat st < 1728 \<and> (\<exists>dv2 a. rl_select_action r dv1 st = Some (dv2, a) \<and> unat a < 20 \<and>
    (fst (get_random_u32 dv1) mod 1000 < epsilon r \<or>
      (\<forall>b < 20. q_table r ! unat st ! b \<le> q_table r ! unat st ! unat a)) \<and>
    unat (alpha_level (rl_decode_action r a)) < 4 \<and> unat (delta_level (rl_decode_action r a)) < 5 \<and>
    unat (alpha_level (rl_decode_action r a)) * 5 + unat (delta_level (rl_decode_action r a)) = unat a)"
  using rl_get_state_less [OF st] rl_select_action_spec [OF ok rl_get_state_less [OF st] dv] decode_levels(1-3)
  by blast

theorem agent_choice_in_table_witness:
  "\<exists>dv2 a. rl_select_action init_rl (tiny_dev\<lparr>ticks := Suc 1\<rparr>) 335 = Some (dv2, a) \<and> unat a < 20 \<and>
     (\<forall>b < 20. q_table init_rl ! 335 ! b \<le> q_table init_rl ! 335 ! unat a)"
proof -
  have dv: "cm_wf (pcie (tiny_dev\<lparr>ticks := Suc 1\<rparr>))" using tiny_pcie(2) by (simp add: tiny_dev_def)
  have x: "\<not> fst (get_random_u32 (tiny_dev\<lparr>ticks := Suc 1\<rparr>)) mod 1000 < epsilon init_rl"
    by (simp add: get_random_u32_def tiny_dev_def init_rl_def cdefs)
  show ?thesis using agent_choice_in_table [OF two_lines_state init_rl_ok dv] x by auto
qed

text \<open>
  C19: an update of the agent keeps it well formed, changes no Q value but that of the state and
  action it learns from, never raises the exploration rate and never lowers it below its minimum.
\<close>

theorem agent_update_local:
  assumes ok: "agent_ok (rl f)" and u: "rl_update_agent f ns = Some f'"
  shows "agent_ok (rl f') \<and> RL_EPSILON_MIN \<le> epsilon (rl f') \<and> epsilon (rl f') \<le> epsilon (rl f) \<and>
    (\<forall>s a. s < 1728 \<and> a < 20 \<and> (s \<noteq> unat (cur_state (rl f)) \<or> a \<noteq> unat (cur_action (rl f))) \<longrightarrow>
      q_table (rl f') ! s ! a = q_table (rl f) ! s ! a)"
  using rl_update_spec [OF assms] by (auto simp: agent_ok_def)

theorem agent_update_local_witness:
  "\<exists>f'. rl_update_agent two_lines 335 = Some f' \<and> epsilon (rl f') \<le> 300 \<and> q_table (rl f') ! 5 ! 3 = 0"
proof -
  have ok: "agent_ok (rl two_lines)" by (simp add: two_lines_def init_rl_ok)
  obtain f' where u: "rl_update_agent two_lines 335 = Some f'" using two_lines_update by blast
  have z: "rl two_lines = init_rl" "q_table init_rl ! 5 ! 3 = 0" "cur_state init_rl = 0" "epsilon init_rl = 300"
    by (simp_all add: two_lines_def init_rl_def cdefs)
  show ?thesis using agent_update_local [OF ok u] u z by fastforce
qed

subsection \<open>Addresses and write pointers\<close>

text \<open>
  C20: the 64-bit word of a physical address and its fields determine each other, and the
  block view of an address tells two addresses apart exactly when they differ in channel, LUN, plane or
  block.
\<close>

theorem ppa_word_roundtrip:
  "ppa_word (ppa_of_word w) = w \<and> ppa_of_word (ppa_word p) = p \<and>
    (blk_in_ssd p = blk_in_ssd q \<longleftrightarrow> g_blk p = g_blk q \<and> g_pl p = g_pl q \<and> g_lun p = g_lun q \<and> g_ch p = g_ch q)"
  using blk_in_ssd_fields [of p q] by (cases p; cases q) auto

text \<open>A fresh write pointer of a line, moved on a number of times inside it.\<close>

definition fresh_wp :: "nat \<Rightarrow> write_pointer" where
  "fresh_wp c = \<lparr>curline = c, wp_ch = 0, wp_lun = 0, wp_pg = 0, wp_blk = c, wp_pl = 0\<rparr>"

fun wp_walk :: "ssdparams \<Rightarrow> write_pointer \<Rightarrow> nat \<Rightarrow> write_pointer option" where
  "wp_walk spp w 0 = Some w"
| "wp_walk spp w (Suc k) = do {
     w \<leftarrow> wp_walk spp w k;
     r \<leftarrow> wp_step spp w;
     case r of Inl w' \<Rightarrow> Some w' | Inr _ \<Rightarrow> None
   }"

lemma wp_walk_at:
  assumes geo: "geometry spp" and c: "c < blks_per_pl spp"
  shows "k < pgs_per_line spp \<Longrightarrow>
    \<exists>w. wp_walk spp (fresh_wp c) k = Some w \<and> wp_wf spp w \<and> curline w = c \<and> wp_idx spp w = k"
proof (induction k)
  case 0
  have "wp_wf spp (fresh_wp c)" using c geometryD(2,4,7) [OF geo] by (simp add: wp_wf_def fresh_wp_def)
  then show ?case by (simp add: fresh_wp_def wp_idx_def pidx_def)
next
  case (Suc k)
  then obtain w where w: "wp_walk spp (fresh_wp c) k = Some w" "wp_wf spp w" "curline w = c" "wp_idx spp w = k" by auto
  obtain r where r: "wp_step spp w = Some r" "wp_next spp w r" using wp_step_next [OF geo w(2)] by blast
  show ?case
    using Suc.prems w r by (cases r) (auto simp: wp_next_def)
qed

text \<open>
  C14: the write pointer visits the pages of its line exactly once each, striping over channels and
  LUNs: within a line it moves on one page less than the line has, its positions are a bijection
  onto the line's pages, and then the line is full.
\<close>

theorem write_pointer_covers_line:
  assumes geo: "geometry spp" and c: "c < blks_per_pl spp"
  shows "(\<forall>k < pgs_per_line spp. wp_walk spp (fresh_wp c) k \<noteq> None) \<and>
    bij_betw (\<lambda>k. wp_at (the (wp_walk spp (fresh_wp c) k))) {..<pgs_per_line spp} (lpages spp c) \<and>
    wp_walk spp (fresh_wp c) (pgs_per_line spp) = None"
proof (intro conjI)
  let ?f = "\<lambda>k. wp_at (the (wp_walk spp (fresh_wp c) k))"
  note W = wp_walk_at [OF geo c]
  show "\<forall>k < pgs_per_line spp. wp_walk spp (fresh_wp c) k \<noteq> None" using W by fastforce
  have at: "?f k \<in> lpages spp c \<and> pidx_of spp (?f k) = k" if "k < pgs_per_line spp" for k
    using W [OF that] wp_at_lpages by auto
  have inj: "inj_on ?f {..<pgs_per_line spp}"
    by (rule inj_on_inverseI [where g = "pidx_of spp"]) (use at in auto)
  have "?f ` {..<pgs_per_line spp} = lpages spp c"
    by (rule card_subset_eq) (use at card_image [OF inj] card_lpages [OF geo] in auto)
  then show "bij_betw ?f {..<pgs_per_line spp} (lpages spp c)" using inj by (simp add: bij_betw_def)
  have p: "0 < pgs_per_line spp" using geometryD(2,4,7,17) [OF geo] by simp
  obtain w where w: "wp_walk spp (fresh_wp c) (pgs_per_line spp - 1) = Some w" "wp_wf spp w"
      "wp_idx spp w = pgs_per_line spp - 1" using W [of "pgs_per_line spp - 1"] p by auto
  obtain r where r: "wp_step spp w = Some r" "wp_next spp w r" using wp_step_next [OF geo w(2)] by blast
  have "\<exists>w'. r = Inr w'"
  proof (cases r)
    case (Inl w')
    then have "wp_idx spp w' = pgs_per_line spp" "wp_wf spp w'" using r(2) w(3) p by (simp_all add: wp_next_def)
    then show ?thesis using wp_idx_less [OF geo] by (metis less_irrefl)
  qed simp
  then have "wp_walk spp (fresh_wp c) (Suc (pgs_per_line spp - 1)) = None" using w(1) r(1) by auto
  then show "wp_walk spp (fresh_wp c) (pgs_per_line spp) = None" using p by simp
qed

theorem write_pointer_covers_line_witness:
  "geometry tiny_spp \<and> bij_betw (\<lambda>k. wp_at (the (wp_walk tiny_spp (fresh_wp 5) k))) {..<4} (lpages tiny_spp 5)"
proof -
  have g: "geometry tiny_spp" by (simp add: geometry_def)
  have c: "5 < blks_per_pl tiny_spp" by simp
  show ?thesis using write_pointer_covers_line [OF g c] g by simp
qed

subsection \<open>Timing and arithmetic\<close>

text \<open>
  C17: a NAND command to an address on the chip always completes: it leaves page states and counts
  alone, moves time forward only on the device, and faults neither in the LUN arithmetic nor in
  the channel and PCIe models, for every command code, provided a read transfers something.
\<close>

theorem nand_command_total:
  assumes ok: "ssd_ok ssd" and on: "vpa (sp ssd) (pa_of (nc_ppa cmd))" "g_pl (nc_ppa cmd) = 0"
    and dv: "cm_wf (pcie dv)" and x: "nc_cmd cmd = NAND_READ \<longrightarrow> nc_xfer_size cmd \<noteq> 0"
  shows "\<exists>ssd' dv' t. ssd_advance_nand ssd dv cmd = Some (ssd', dv', t) \<and> ssd_ok ssd' \<and> sp ssd' = sp ssd \<and>
    pst ssd' = pst ssd \<and> bcnt ssd' = bcnt ssd \<and> cm_wf (pcie dv') \<and> write_buffer dv' = write_buffer dv"
  using ssd_advance_nand_spec [OF ok _ dv refl, of cmd] on x dev_timed_wf dev_timed_fields
  by (fastforce simp: same_view_def)

theorem nand_command_total_witness:
  "\<exists>ssd' dv' t. ssd_advance_nand (cf_ssd demo_ftl) tiny_dev
     \<lparr>nc_cmd = NAND_ERASE, nc_xfer_size = 0, nc_stime = 0, nc_interleave_pci_dma = False, nc_ppa = ppa_of (0, 0, 0, 0)\<rparr> =
     Some (ssd', dv', t) \<and> ssd_ok ssd' \<and> pst ssd' = pst (cf_ssd demo_ftl)"
proof -
  let ?c = "\<lparr>nc_cmd = NAND_ERASE, nc_xfer_size = 0, nc_stime = 0, nc_interleave_pci_dma = False, nc_ppa = ppa_of (0, 0, 0, 0)\<rparr>"
  have ok: "ssd_ok (cf_ssd demo_ftl)" using demo_ftl(1) by (simp add: ftl_inv_def ftl_ok_def)
  note G = geometryD(2,4,7,16,19) [OF ssd_ok_geometry [OF ok]]
  have on: "vpa (spp_of demo_ftl) (pa_of (nc_ppa ?c))" "g_pl (nc_ppa ?c) = 0"
    using G three_lines [OF demo_ftl(1)] by (simp_all add: ppa_of_def pa_of_def)
  have "cm_wf (pcie tiny_dev)" "nc_cmd ?c = NAND_READ \<longrightarrow> nc_xfer_size ?c \<noteq> 0"
    using tiny_pcie(2) by (simp_all add: tiny_dev_def cdefs)
  from nand_command_total [OF ok on this] show ?thesis by blast
qed

text \<open>
  C21: the integer square root is exact for every 64-bit argument but the largest, for which its
  Newton iteration divides by zero.
\<close>

theorem isqrt_exact:
  "(n \<noteq> ULL_MAX \<longrightarrow> (\<exists>r. isqrt_u64 n = Some r \<and> (unat r)\<^sup>2 \<le> unat n \<and> unat n < (unat r + 1)\<^sup>2)) \<and>
    isqrt_u64 ULL_MAX = None"
  using isqrt_u64_spec [of n] isqrt_u64_max by blast

theorem isqrt_exact_witness: "\<exists>r. isqrt_u64 (10 ^ 12 + 1) = Some r \<and> unat r = 10 ^ 6"
proof -
  have n: "(10 ^ 12 + 1 :: u64) \<noteq> ULL_MAX" by (simp add: cdefs)
  obtain r where r: "isqrt_u64 (10 ^ 12 + 1) = Some r" "(unat r)\<^sup>2 \<le> 10 ^ 12 + 1" "10 ^ 12 + 1 < (unat r + 1)\<^sup>2"
    using isqrt_exact [of "10 ^ 12 + 1"] n by auto
  have "unat r \<le> 10 ^ 6" using r(2) by (rule_tac ccontr) (use power_mono [of "10 ^ 6 + 1" "unat r" 2] in simp)
  moreover have "10 ^ 6 \<le> unat r" using r(3) by (rule_tac ccontr) (use power_mono [of "unat r + 1" "10 ^ 6" 2] in simp)
  ultimately show ?thesis using r(1) by auto
qed

end
