(* ===== verification/Io_Units.thy ===== *)
theory Io_Units
  imports Conv_Ftl
begin

text \<open>
  The simple namespace (\<open>simple_ftl.c\<close>) and the IO units it schedules on, which the key-value
  namespace (\<open>kv_ftl.c\<close>) has a copy of: each unit has the time at which it is idle again, and a
  command of several units of data occupies consecutive IO units one after the other.
\<close>

subsection \<open>Configuration and state\<close>

record nvmev_config =
  memmap_start :: u64
  memmap_size :: u64
  storage_start :: u64
  storage_size :: u64
  cpu_nr_dispatcher :: u32
  cpu_nr_io_workers :: "u32 list"
  nr_io_units :: u32
  io_unit_shift :: u32
  read_delay :: u32
  read_time :: u32
  read_trailing :: u32
  write_delay :: u32
  write_time :: u32
  write_trailing :: u32

definition nvme_cmd_kv_store :: u8 where [cdefs]: "nvme_cmd_kv_store = 0x81"
definition nvme_cmd_kv_batch :: u8 where [cdefs]: "nvme_cmd_kv_batch = 0x85"
definition nvme_cmd_kv_retrieve :: u8 where [cdefs]: "nvme_cmd_kv_retrieve = 0x90"

text \<open>Delay, time per unit and trailing time of the opcodes that write and that read.\<close>

definition io_latencies :: "nvmev_config \<Rightarrow> u8 set \<Rightarrow> u8 set \<Rightarrow> u8 \<Rightarrow> u32 \<times> u32 \<times> u32" where
  "io_latencies cfg ws rs opcode =
     (if opcode \<in> ws then (write_delay cfg, write_time cfg, write_trailing cfg)
      else if opcode \<in> rs then (read_delay cfg, read_time cfg, read_trailing cfg)
      else (0, 0, 0))"

text \<open>
  The do-while loop: \<open>n\<close> is the signed counter \<open>nr_io_units\<close>, \<open>u\<close> the unit, \<open>latest\<close> the time
  of completion so far.
\<close>

partial_function (option) io_unit_loop ::
  "nvmev_config \<Rightarrow> u32 \<Rightarrow> u32 \<Rightarrow> u32 \<Rightarrow> u32 \<Rightarrow> u32 \<Rightarrow> u64 \<Rightarrow> u32 \<Rightarrow> u64 list \<Rightarrow> (u64 list \<times> u64) option" where
  "io_unit_loop cfg latency trailing usz u n latest len stat = do {
     let latest = latest + ucast latency;
     stat \<leftarrow> wr stat (unat u) (if 0 < sint n then latest + ucast trailing else latest);
     let n = n - 1;
     let len = len - min len usz;
     let u = (if nr_io_units cfg \<le> u + 1 then 0 else u + 1);
     if 0 < len then io_unit_loop cfg latency trailing usz u n latest len stat
     else Some (stat, latest)
   }"

declare io_unit_loop.simps [code]

definition io_unit_of :: "nvmev_config \<Rightarrow> u64 \<Rightarrow> u32 option" where
  "io_unit_of cfg lba = do {
     NVMEV_ASSERT (unat (io_unit_shift cfg - 9) < 64);
     q \<leftarrow> umod (drop_bit (unat (io_unit_shift cfg - 9)) lba) (ucast (nr_io_units cfg));
     Some (ucast q)
   }"

text \<open>
  \<open>__schedule_io_units\<close> over the sets of opcodes that write and read; the shifts are undefined
  beyond the width of their operand.
\<close>

definition schedule_io_units ::
  "u8 set \<Rightarrow> u8 set \<Rightarrow> nvmev_config \<Rightarrow> u64 list \<Rightarrow> u8 \<Rightarrow> u64 \<Rightarrow> u32 \<Rightarrow> u64 \<Rightarrow> (u64 list \<times> u64) option" where
  "schedule_io_units ws rs cfg stat opcode lba len nsecs_start = do {
     NVMEV_ASSERT (unat (io_unit_shift cfg) < 32);
     let usz = push_bit (unat (io_unit_shift cfg)) (1 :: u32);
     u \<leftarrow> io_unit_of cfg lba;
     let n = min (nr_io_units cfg) ((len + usz - 1) div usz);
     let (delay, latency, trailing) = io_latencies cfg ws rs opcode;
     busy \<leftarrow> rd stat (unat u);
     io_unit_loop cfg latency trailing usz u n (max nsecs_start busy + ucast delay) len stat
   }"

definition schedule_flush :: "nvmev_config \<Rightarrow> u64 list \<Rightarrow> u64 option" where
  "schedule_flush cfg stat =
     fold_opt (\<lambda>i latest. do { t \<leftarrow> rd stat i; Some (max latest t) }) [0..<unat (nr_io_units cfg)] 0"

subsection \<open>The simple namespace\<close>

record simple_ns =
  s_id :: u32
  s_csi :: nat
  s_size :: u64

definition simple_init_namespace :: "u32 \<Rightarrow> u64 \<Rightarrow> simple_ns" where
  "simple_init_namespace i sz = \<lparr>s_id = i, s_csi = NVME_CSI_NVM, s_size = sz\<rparr>"

definition INTEL_OPTANE :: nat where [cdefs]: "INTEL_OPTANE = 0"

definition cmd_io_size :: "nvme_rw_command \<Rightarrow> u64" where
  "cmd_io_size cmd = push_bit 9 (ucast (rw_length cmd) + 1)"

definition simple_schedule_io_units ::
  "nvmev_config \<Rightarrow> u64 list \<Rightarrow> u8 \<Rightarrow> u64 \<Rightarrow> u32 \<Rightarrow> u64 \<Rightarrow> (u64 list \<times> u64) option" where
  "simple_schedule_io_units = schedule_io_units {nvme_cmd_write} {nvme_cmd_read}"

text \<open>\<open>base_ssd\<close> is the build's \<open>BASE_SSD\<close>, \<open>now\<close> the wall clock; the command always succeeds.\<close>

definition simple_proc_nvme_io_cmd ::
  "nat \<Rightarrow> nvmev_config \<Rightarrow> simple_ns \<Rightarrow> u64 list \<Rightarrow> u64 \<Rightarrow> nvmev_request \<Rightarrow> nvmev_result
     \<Rightarrow> (u64 list \<times> nvmev_result \<times> bool) option" where
  "simple_proc_nvme_io_cmd base_ssd cfg ns stat now req ret = do {
     NVMEV_ASSERT (s_csi ns = NVME_CSI_NVM);
     NVMEV_ASSERT (base_ssd = INTEL_OPTANE);
     let cmd = req_cmd req;
     if rw_opcode cmd \<in> {nvme_cmd_write, nvme_cmd_read} then do {
       (stat, t) \<leftarrow> simple_schedule_io_units cfg stat (rw_opcode cmd) (rw_slba cmd) (ucast (cmd_io_size cmd)) now;
       Some (stat, ret\<lparr>ret_nsecs_target := t\<rparr>, True)
     }
     else if rw_opcode cmd = nvme_cmd_flush then do {
       t \<leftarrow> schedule_flush cfg stat;
       Some (stat, ret\<lparr>ret_nsecs_target := t\<rparr>, True)
     }
     else Some (stat, ret, True)
   }"

subsection \<open>Closed form of the schedule\<close>

text \<open>The state of the IO units after \<open>k\<close> rounds of the loop from unit \<open>u\<close> and time \<open>t\<close>.\<close>

definition unit_times :: "nat \<Rightarrow> nat \<Rightarrow> nat \<Rightarrow> (nat \<Rightarrow> u64) \<Rightarrow> u64 list \<Rightarrow> u64 list \<Rightarrow> bool" where
  "unit_times N u k t stat stat' \<longleftrightarrow> length stat' = N \<and>
     (\<forall>j < k. k \<le> j + N \<longrightarrow> stat' ! ((u + j) mod N) = t j) \<and>
     (\<forall>i < N. (\<forall>j < k. i \<noteq> (u + j) mod N) \<longrightarrow> stat' ! i = stat ! i)"

lemma unit_times_Suc:
  assumes u: "u < N" and len: "length stat = N"
    and step: "unit_times N (Suc u mod N) k (\<lambda>j. t (Suc j)) (stat[u := t 0]) stat'"
  shows "unit_times N u (Suc k) t stat stat'"
proof -
  have pos: "(Suc u mod N + j) mod N = (u + Suc j) mod N" for j by (simp add: mod_add_left_eq)
  note S = step [unfolded unit_times_def pos]
  have away: "(u + Suc j) mod N \<noteq> u" if "Suc j < N" for j
  proof (cases "u + Suc j < N")
    case False
    then have "(u + Suc j) mod N = u + Suc j - N" using u that by (subst le_mod_geq) simp_all
    then show ?thesis using that u False by linarith
  qed simp
  have "stat' ! ((u + j) mod N) = t j" if j: "j < Suc k" "Suc k \<le> j + N" for j
  proof (cases j)
    case 0
    then have "u \<noteq> (u + Suc i) mod N" if "i < k" for i using away [of i] that j(2) by simp
    then show ?thesis using S u len 0 by simp
  next
    case (Suc i)
    then show ?thesis using S j by auto
  qed
  moreover have "stat' ! i = stat ! i" if i: "i < N" "\<forall>j < Suc k. i \<noteq> (u + j) mod N" for i
  proof -
    have "\<forall>j < k. i \<noteq> (u + Suc j) mod N" "i \<noteq> u" using i u by (blast, auto)
    then show ?thesis using S i(1) by simp
  qed
  ultimately show ?thesis using S by (simp add: unit_times_def)
qed

lemma unit_times_1:
  assumes u: "u < N" and len: "length stat = N"
  shows "unit_times N u (Suc 0) t stat (stat[u := t 0])"
  unfolding unit_times_def
proof (intro conjI allI impI)
  show "length (stat[u := t 0]) = N" using len by simp
  show "stat[u := t 0] ! ((u + j) mod N) = t j" if "j < Suc 0" for j using that u len by simp
  fix i assume "i < N" "\<forall>j < Suc 0. i \<noteq> (u + j) mod N"
  then have "i \<noteq> u" using u by simp
  then show "stat[u := t 0] ! i = stat ! i" by simp
qed

lemma div_round_up_step:
  assumes "0 < d" "d < n"
  shows "div_round_up n d = Suc (div_round_up (n - d) d)"
proof -
  obtain m where n: "n = d + m" "0 < m" using assms by (metis less_imp_add_positive)
  have "n + d - 1 = (m + d - 1) + d" using n by simp
  then show ?thesis using assms(1) n(1) unfolding div_round_up_def by (metis Suc_eq_plus1 add_diff_cancel_left' div_add_self2 less_irrefl)
qed

lemma io_unit_loop_spec:
  assumes cfg: "unat (nr_io_units cfg) = N" and usz: "0 < usz"
  shows "unat u < N \<Longrightarrow> length stat = N \<Longrightarrow> k = max 1 (div_round_up (unat len) (unat usz)) \<Longrightarrow>
    \<exists>stat'. io_unit_loop cfg latency trailing usz u n latest len stat = Some (stat', latest + of_nat k * ucast latency) \<and>
      unit_times N (unat u) k (\<lambda>j. latest + of_nat (Suc j) * ucast latency +
        (if 0 < sint (n - of_nat j) then ucast trailing else 0)) stat stat'"
proof (induction k arbitrary: u n latest len stat)
  case 0
  then show ?case by simp
next
  case (Suc k)
  let ?t = "\<lambda>j. latest + of_nat (Suc j) * ucast latency + (if 0 < sint (n - of_nat j) then ucast trailing else 0)"
  let ?stat = "stat[unat u := ?t 0]"
  let ?u = "if nr_io_units cfg \<le> u + 1 then 0 else u + 1"
  have wr: "wr stat (unat u) (if 0 < sint n then latest + ucast latency + ucast trailing else latest + ucast latency) = Some ?stat"
    using Suc.prems by (simp add: wr_def algebra_simps)
  have lt: "unat u + 1 \<le> N" using Suc.prems by simp
  have u1: "unat (u + 1) = unat u + 1"
    using lt cfg unat_less_pow [of "nr_io_units cfg"] by (subst unat_add_nowrap) simp_all
  have u': "unat ?u = Suc (unat u) mod N" "unat ?u < N"
    using u1 lt cfg by (auto simp: word_le_nat_alt not_le)
  have us: "0 < unat usz" using usz by (simp add: word_less_nat_alt)
  show ?case
  proof (cases "usz < len")
    case True
    have le: "usz \<le> len" using True by simp
    have m: "min len usz = usz" "unat (len - usz) = unat len - unat usz" "0 < len - usz"
      using True le unat_sub_le [OF le] by (simp_all add: min_def word_less_nat_alt)
    have "unat usz < unat len" using True by (simp add: word_less_nat_alt)
    then have "div_round_up (unat len) (unat usz) = Suc (div_round_up (unat (len - usz)) (unat usz))"
      using div_round_up_step [OF us] m(2) by simp
    moreover have "0 < div_round_up (unat (len - usz)) (unat usz)"
      using div_round_up_ge [OF us, of "unat (len - usz)"] m(3) by (cases "div_round_up (unat (len - usz)) (unat usz)") (simp_all add: word_less_nat_alt)
    ultimately have k: "k = max 1 (div_round_up (unat (len - usz)) (unat usz))" using Suc.prems(3) by simp
    have sl: "length ?stat = N" using Suc.prems by simp
    obtain stat' where s: "io_unit_loop cfg latency trailing usz ?u (n - 1) (latest + ucast latency) (len - usz) ?stat =
        Some (stat', latest + ucast latency + of_nat k * ucast latency)"
      "unit_times N (unat ?u) k (\<lambda>j. latest + ucast latency + of_nat (Suc j) * ucast latency +
        (if 0 < sint (n - 1 - of_nat j) then ucast trailing else 0)) ?stat stat'"
      using Suc.IH [OF u'(2) sl k] by blast
    have "io_unit_loop cfg latency trailing usz u n latest len stat = Some (stat', latest + of_nat (Suc k) * ucast latency)"
      by (subst io_unit_loop.simps)
        (simp only: Let_def wr bind.bind_lunit m(1,3) if_True s(1), simp add: algebra_simps)
    moreover have "unit_times N (unat u) (Suc k) ?t stat stat'"
      using unit_times_Suc [of "unat u" N stat k ?t stat'] s(2) Suc.prems unfolding u'(1) by (simp add: algebra_simps)
    ultimately show ?thesis by blast
  next
    case False
    then have "min len usz = len" unfolding not_less by (rule min_absorb1)
    moreover have "k = 0"
    proof -
      have "unat len \<le> unat usz" using False by (simp add: word_less_nat_alt)
      then have "div_round_up (unat len) (unat usz) \<le> 1" using us
        by (simp add: div_round_up_def less_Suc_eq_le [symmetric] less_mult_imp_div_less)
      then show ?thesis using Suc.prems(3) by simp
    qed
    ultimately have "io_unit_loop cfg latency trailing usz u n latest len stat = Some (?stat, latest + of_nat (Suc k) * ucast latency)"
      by (subst io_unit_loop.simps) (simp add: wr Let_def)
    then show ?thesis using unit_times_1 [of "unat u" N stat ?t] Suc.prems \<open>k = 0\<close> by blast
  qed
qed

end
