(* ===== verification/Simple_Props.thy ===== *)
theory Simple_Props
  imports Io_Units
begin

text \<open>Properties of the simple namespace; the witnesses run on four units of 4 KB.\<close>

definition units_ok :: "nvmev_config \<Rightarrow> u64 list \<Rightarrow> bool" where
  "units_ok cfg stat \<longleftrightarrow> 9 \<le> unat (io_unit_shift cfg) \<and> unat (io_unit_shift cfg) < 32 \<and>
     0 < unat (nr_io_units cfg) \<and> unat (nr_io_units cfg) < 2 ^ 31 \<and> length stat = unat (nr_io_units cfg)"

lemma sint_pos_iff: "k \<le> j + N \<Longrightarrow> j < k \<Longrightarrow> N < 2 ^ 31 \<Longrightarrow> k < 2 ^ 31 \<Longrightarrow>
    0 < sint (of_nat (min N k) - of_nat j :: u32) \<longleftrightarrow> j < N"
proof -
  assume a: "k \<le> j + N" "j < k" "N < 2 ^ 31" "k < 2 ^ 31"
  have "(of_nat (min N k) - of_nat j :: u32) = word_of_int (int (min N k) - int j)" by simp
  then have "sint (of_nat (min N k) - of_nat j :: u32) = signed_take_bit 31 (int (min N k) - int j)"
    by (simp only: sint_sbintrunc' len_num1) simp
  also have "\<dots> = int (min N k) - int j" using a by (intro signed_take_bit_int_eq_self) auto
  finally show ?thesis using a by auto
qed


lemma io_unit_of_spec:
  assumes "units_ok cfg stat"
  shows "\<exists>u. io_unit_of cfg lba = Some u \<and>
    unat u = unat lba div 2 ^ (unat (io_unit_shift cfg) - 9) mod unat (nr_io_units cfg)"
proof -
  let ?s = "unat (io_unit_shift cfg)" and ?n = "nr_io_units cfg"
  have s: "9 \<le> ?s" "?s < 32" "0 < unat ?n" using assms by (simp_all add: units_ok_def)
  have "unat (io_unit_shift cfg - 9) = ?s - 9" using s by (simp add: unat_sub_le word_le_nat_alt)
  moreover have "ucast ?n \<noteq> (0 :: u64)"
    using s(3) unat_ucast_up [of ?n, where ?'b = 64] by auto
  moreover have "unat (ucast (drop_bit (?s - 9) lba mod ucast ?n :: u64) :: u32) = unat lba div 2 ^ (?s - 9) mod unat ?n"
  proof -
    have e: "unat (drop_bit (?s - 9) lba mod ucast ?n :: u64) = unat lba div 2 ^ (?s - 9) mod unat ?n"
      unfolding unat_mod unat_drop_bit_eq by (simp add: drop_bit_eq_div unat_ucast_up)
    have "unat lba div 2 ^ (?s - 9) mod unat ?n < unat ?n" using s(3) by simp
    then have "unat (drop_bit (?s - 9) lba mod ucast ?n :: u64) < 2 ^ 32" unfolding e
      using unat_less_pow [of ?n] by simp
    then show ?thesis using e by (simp add: unat_ucast_less)
  qed
  moreover have "?s - 9 < 64" using s by simp
  ultimately show ?thesis by (simp add: io_unit_of_def umod_def)
qed

lemma unat_bit: "s < 32 \<Longrightarrow> unat (push_bit s 1 :: u32) = 2 ^ s"
  unfolding unsigned_push_bit_eq by (simp add: push_bit_eq_mult take_bit_nat_eq_self)

lemma units_of_length:
  assumes s: "s < 32" and len: "unat len + 2 ^ s \<le> 2 ^ 32"
  shows "unat ((len + push_bit s (1 :: u32) - 1) div push_bit s 1) = div_round_up (unat len) (2 ^ s)"
proof -
  note p = unat_bit [OF s]
  have "len + push_bit s (1 :: u32) - 1 = len + (push_bit s 1 - 1)" by simp
  moreover have "unat (push_bit s 1 - 1 :: u32) = 2 ^ s - 1" using p by (subst unat_sub_le) (simp_all add: word_le_nat_alt)
  ultimately have "unat (len + push_bit s (1 :: u32) - 1) = unat len + (2 ^ s - 1)"
    using len by (simp only:, subst unat_add_nowrap) simp_all
  then show ?thesis unfolding unat_div p div_round_up_def by simp
qed

lemma schedule_io_units_spec:
  fixes now :: u64 and ws rs :: "u8 set" and opcode :: u8 and lba :: u64
  assumes ok: "units_ok cfg stat" and len: "unat len + 2 ^ unat (io_unit_shift cfg) \<le> 2 ^ 32"
  defines "N \<equiv> unat (nr_io_units cfg)" and "usz \<equiv> 2 ^ unat (io_unit_shift cfg)"
    and "lat \<equiv> io_latencies cfg ws rs opcode"
  defines "u \<equiv> unat lba div 2 ^ (unat (io_unit_shift cfg) - 9) mod N"
    and "k \<equiv> max 1 (div_round_up (unat len) usz)"
  defines "t \<equiv> max now (stat ! u) + ucast (fst lat)"
  shows "\<exists>stat'. schedule_io_units ws rs cfg stat opcode lba len now = Some (stat', t + of_nat k * ucast (fst (snd lat))) \<and>
    unit_times N u k (\<lambda>j. t + of_nat (Suc j) * ucast (fst (snd lat)) + (if j < N \<and> 0 < len then ucast (snd (snd lat)) else 0)) stat stat'"
proof -
  let ?s = "unat (io_unit_shift cfg)"
  have s: "9 \<le> ?s" "?s < 32" "0 < N" "N < 2 ^ 31" "length stat = N" using ok by (simp_all add: units_ok_def N_def)
  obtain d l r where lt: "lat = (d, l, r)" by (cases lat)
  obtain v where v: "io_unit_of cfg lba = Some v" "unat v = u"
    using io_unit_of_spec [OF ok] by (auto simp: u_def N_def)
  have un: "u < N" using s(3) by (simp add: u_def)
  let ?c = "(len + push_bit ?s (1 :: u32) - 1) div push_bit ?s 1"
  have c: "unat ?c = div_round_up (unat len) usz" unfolding usz_def by (rule units_of_length [OF s(2) len])
  have usz: "unat (push_bit ?s 1 :: u32) = usz" "512 \<le> usz"
    using unat_bit [OF s(2)] power_increasing [OF s(1), of "2 :: nat"] by (simp_all add: usz_def)
  have k: "k < 2 ^ 31"
  proof -
    have "div_round_up (unat len) usz * usz < unat len + usz" using usz(2) by (intro div_round_up_less) simp
    then have "div_round_up (unat len) usz * usz < 2 ^ 32" using len by (simp add: usz_def)
    then have "div_round_up (unat len) usz * 512 < 2 ^ 32" using usz(2) by (meson le_less_trans mult_le_mono2)
    then show ?thesis by (simp add: k_def)
  qed
  obtain stat' where l: "io_unit_loop cfg l r (push_bit ?s 1) v (min (nr_io_units cfg) ?c) t len stat = Some (stat', t + of_nat k * ucast l)"
      "unit_times N (unat v) k (\<lambda>j. t + of_nat (Suc j) * ucast l + (if 0 < sint (min (nr_io_units cfg) ?c - of_nat j) then ucast r else 0)) stat stat'"
    using io_unit_loop_spec [of cfg N "push_bit ?s 1" v stat k len l r "min (nr_io_units cfg) ?c" t] un v(2) s usz
    by (auto simp: k_def N_def word_less_nat_alt)
  have mn: "min (nr_io_units cfg) ?c = of_nat (min N (div_round_up (unat len) usz))"
    by (rule word_unat_eq_iff [THEN iffD2]) (use c unat_less_pow [of "nr_io_units cfg"] in
      \<open>auto simp: min_def N_def word_le_nat_alt unat_of_nat_small\<close>)
  have trail: "0 < sint (min (nr_io_units cfg) ?c - of_nat j) \<longleftrightarrow> j < N \<and> 0 < len" if "j < k" "k \<le> j + N" for j
  proof (cases "len = 0")
    case True
    then have "div_round_up (unat len) usz = 0" using usz(2) by (simp add: div_round_up_def)
    moreover have "j = 0" using that(1) calculation by (simp add: k_def)
    ultimately show ?thesis unfolding mn using True by simp
  next
    case False
    then have "0 < unat len" by (simp add: unat_gt_0)
    then have "k = div_round_up (unat len) usz"
      using div_round_up_ge [of usz "unat len"] usz(2) by (cases "div_round_up (unat len) usz") (auto simp: k_def)
    then show ?thesis using sint_pos_iff [OF that(2,1) s(4) k] False unfolding mn by (simp add: word_neq_0_conv)
  qed
  have "schedule_io_units ws rs cfg stat opcode lba len now = Some (stat', t + of_nat k * ucast l)"
    using s un v l(1) by (simp add: schedule_io_units_def Let_def lt [unfolded lat_def] t_def rd_def lt)
  moreover have "unit_times N u k (\<lambda>j. t + of_nat (Suc j) * ucast l + (if j < N \<and> 0 < len then ucast r else 0)) stat stat'"
    using l(2) trail unfolding unit_times_def v(2) by simp
  ultimately show ?thesis unfolding lt fst_conv snd_conv by blast
qed

subsection \<open>Commands\<close>

text \<open>
  C29: a read or write of the simple namespace never faults on a configuration with at least one IO
  unit of 512 bytes to 2^30 bytes: it completes at the later of now and the time its first unit is
  idle, plus the delay, plus one latency per IO unit of data, and marks the units it runs over
  busy in turn until their share is done, the others unchanged.
\<close>

theorem simple_io_time:
  fixes now :: u64
  assumes ok: "units_ok cfg stat" and shift: "unat (io_unit_shift cfg) < 31"
    and ns: "s_csi ns = NVME_CSI_NVM" and op: "rw_opcode (req_cmd req) \<in> {nvme_cmd_write, nvme_cmd_read}"
  defines "N \<equiv> unat (nr_io_units cfg)" and "usz \<equiv> 2 ^ unat (io_unit_shift cfg)"
    and "lat \<equiv> io_latencies cfg {nvme_cmd_write} {nvme_cmd_read} (rw_opcode (req_cmd req))"
  defines "u \<equiv> unat (rw_slba (req_cmd req)) div 2 ^ (unat (io_unit_shift cfg) - 9) mod N"
    and "k \<equiv> div_round_up (512 * (unat (rw_length (req_cmd req)) + 1)) usz"
  defines "t \<equiv> max now (stat ! u) + ucast (fst lat)"
  shows "\<exists>stat'. simple_proc_nvme_io_cmd INTEL_OPTANE cfg ns stat now req ret =
      Some (stat', ret\<lparr>ret_nsecs_target := t + of_nat k * ucast (fst (snd lat))\<rparr>, True) \<and>
    unit_times N u k (\<lambda>j. t + of_nat (Suc j) * ucast (fst (snd lat)) + (if j < N then ucast (snd (snd lat)) else 0)) stat stat'"
proof -
  let ?cmd = "req_cmd req" and ?len = "ucast (cmd_io_size (req_cmd req)) :: u32"
  have b: "unat (rw_length ?cmd) < 2 ^ 16" using unat_less_pow [of "rw_length ?cmd"] by simp
  have "unat (ucast (rw_length ?cmd) + 1 :: u64) = unat (rw_length ?cmd) + 1"
    using b by (subst unat_add_nowrap) (simp_all add: unat_ucast_up)
  then have "unat (cmd_io_size ?cmd) = 512 * (unat (rw_length ?cmd) + 1)"
    using b unfolding cmd_io_size_def unsigned_push_bit_eq by (simp add: push_bit_eq_mult take_bit_nat_eq_self)
  then have len: "unat ?len = 512 * (unat (rw_length ?cmd) + 1)" using b by (subst unat_ucast_less) simp_all
  have "(2 :: nat) ^ unat (io_unit_shift cfg) \<le> 2 ^ 30" using shift by (intro power_increasing) simp_all
  then have fits: "unat ?len + 2 ^ unat (io_unit_shift cfg) \<le> 2 ^ 32" using len b by simp
  have pos: "0 < ?len" using len by (simp add: word_less_nat_alt)
  have "1 \<le> k" unfolding k_def usz_def
    using div_round_up_ge [of "2 ^ unat (io_unit_shift cfg)" "unat ?len"] len
    by (cases "div_round_up (512 * (unat (rw_length ?cmd) + 1)) (2 ^ unat (io_unit_shift cfg))") simp_all
  then have k: "max 1 (div_round_up (unat ?len) usz) = k" by (simp add: k_def len)
  obtain stat' where s: "schedule_io_units {nvme_cmd_write} {nvme_cmd_read} cfg stat (rw_opcode ?cmd) (rw_slba ?cmd) ?len now =
        Some (stat', t + of_nat k * ucast (fst (snd lat)))"
      "unit_times N u k (\<lambda>j. t + of_nat (Suc j) * ucast (fst (snd lat)) +
        (if j < N \<and> 0 < ?len then ucast (snd (snd lat)) else 0)) stat stat'"
    using schedule_io_units_spec [OF ok fits, where now = now and lba = "rw_slba ?cmd" and ws = "{nvme_cmd_write}" and
          rs = "{nvme_cmd_read}" and opcode = "rw_opcode ?cmd",
        folded N_def usz_def, folded u_def lat_def, folded t_def, unfolded k] by blast
  have "simple_proc_nvme_io_cmd INTEL_OPTANE cfg ns stat now req ret =
      Some (stat', ret\<lparr>ret_nsecs_target := t + of_nat k * ucast (fst (snd lat))\<rparr>, True)"
    unfolding simple_proc_nvme_io_cmd_def simple_schedule_io_units_def Let_def s(1) using ns op by simp
  then show ?thesis using s(2) pos by auto
qed

definition small_config :: nvmev_config where
  "small_config = \<lparr>memmap_start = 0x100000000, memmap_size = 0x10000000, storage_start = 0x100100000,
     storage_size = 0xFF00000, cpu_nr_dispatcher = 0, cpu_nr_io_workers = [1], nr_io_units = 4, io_unit_shift = 12,
     read_delay = 5, read_time = 100, read_trailing = 1, write_delay = 7, write_time = 200, write_trailing = 3\<rparr>"

definition small_write :: nvmev_request where
  "small_write = \<lparr>req_cmd = \<lparr>rw_opcode = nvme_cmd_write, rw_slba = 24, rw_length = 15, rw_control = 0\<rparr>,
     req_sq_id = 1, req_nsecs_start = 100\<rparr>"

lemma small_eqs:
  "unat (nr_io_units small_config) = 4" "unat (rw_slba (req_cmd small_write)) = 24"
  "unat (rw_length (req_cmd small_write)) = 15" "unat (io_unit_shift small_config) = 12"
  "io_latencies small_config {nvme_cmd_write} {nvme_cmd_read} (rw_opcode (req_cmd small_write)) = (7, 200, 3)"
  "max 600 ([0, 900, 0, 500] ! (24 div 2 ^ (12 - 9) mod 4)) = (600 :: u64)" "div_round_up (512 * (15 + 1)) (2 ^ 12) = 2"
  by (simp_all add: small_config_def small_write_def io_latencies_def div_round_up_def max_def word_le_nat_alt)

theorem simple_io_time_witness:
  "\<exists>stat'. simple_proc_nvme_io_cmd INTEL_OPTANE small_config (simple_init_namespace 0 0xFF00000) [0, 900, 0, 500] 600 small_write
     \<lparr>ret_status = 0, ret_nsecs_target = 0\<rparr> = Some (stat', \<lparr>ret_status = 0, ret_nsecs_target = 1007\<rparr>, True) \<and>
     stat' ! 3 = 810 \<and> stat' ! 0 = 1010 \<and> stat' ! 1 = 900"
proof -
  have 1: "units_ok small_config [0, 900, 0, 500]" "unat (io_unit_shift small_config) < 31"
    "s_csi (simple_init_namespace 0 0xFF00000) = NVME_CSI_NVM" "rw_opcode (req_cmd small_write) \<in> {nvme_cmd_write, nvme_cmd_read}"
    by (simp_all add: units_ok_def small_config_def simple_init_namespace_def small_write_def)
  obtain stat' where s: "simple_proc_nvme_io_cmd INTEL_OPTANE small_config (simple_init_namespace 0 0xFF00000) [0, 900, 0, 500] 600 small_write
     \<lparr>ret_status = 0, ret_nsecs_target = 0\<rparr> = Some (stat', \<lparr>ret_status = 0, ret_nsecs_target = 1007\<rparr>, True)"
    "unit_times 4 3 2 (\<lambda>j. 607 + of_nat (Suc j) * 200 + (if j < 4 then 3 else 0)) [0, 900, 0, 500] stat'"
    using simple_io_time [OF 1, of 600 "\<lparr>ret_status = 0, ret_nsecs_target = 0\<rparr>"]
    unfolding small_eqs fst_conv snd_conv by (auto cong: if_cong)
  have t: "stat' ! ((3 + j) mod 4) = 607 + of_nat (Suc j) * 200 + (if j < 4 then 3 else 0)" if "j < 2" for j
    using s(2) that unfolding unit_times_def by simp
  have "stat' ! 3 = 810" "stat' ! 0 = 1010" using t [of 0] t [of 1] by simp_all
  moreover have "stat' ! 1 = 900" using s(2) unfolding unit_times_def by (simp add: less_Suc_eq numeral_2_eq_2)
  ultimately show ?thesis using s(1) by simp
qed

text \<open>
  A flush of the simple namespace returns the greatest of the times at which its IO units are
  idle again, and changes nothing.
\<close>

theorem simple_flush_waits:
  fixes now :: u64
  assumes len: "length stat = unat (nr_io_units cfg)" and ns: "s_csi ns = NVME_CSI_NVM"
    and op: "rw_opcode (req_cmd req) = nvme_cmd_flush"
  shows "\<exists>t. simple_proc_nvme_io_cmd INTEL_OPTANE cfg ns stat now req ret = Some (stat, ret\<lparr>ret_nsecs_target := t\<rparr>, True) \<and>
    (\<forall>b \<in> set stat. b \<le> t) \<and> (t \<in> set stat \<or> t = 0)"
proof -
  let ?f = "\<lambda>i (latest :: u64). do { t \<leftarrow> rd stat i; Some (max latest t) }"
  have "\<exists>t. fold_opt ?f [0..<n] 0 = Some t \<and> (\<forall>i < n. stat ! i \<le> t) \<and> (t = 0 \<or> (\<exists>i < n. t = stat ! i))"
    if "n \<le> length stat" for n
    using that
  proof (induction n)
    case (Suc n)
    then obtain t where t: "fold_opt ?f [0..<n] 0 = Some t" "\<forall>i < n. stat ! i \<le> t" "t = 0 \<or> (\<exists>i < n. t = stat ! i)" by auto
    have "fold_opt ?f [0..<Suc n] 0 = Some (max t (stat ! n))" using t(1) Suc.prems by (simp add: fold_opt_append)
    moreover have "\<forall>i < Suc n. stat ! i \<le> max t (stat ! n)" using t(2) by (auto simp: less_Suc_eq le_max_iff_disj)
    moreover have "max t (stat ! n) = 0 \<or> (\<exists>i < Suc n. max t (stat ! n) = stat ! i)"
      using t(3) by (cases "t \<le> stat ! n") (auto simp: max_def less_Suc_eq)
    ultimately show ?case by blast
  qed simp
  then obtain t where t: "schedule_flush cfg stat = Some t" "\<forall>i < length stat. stat ! i \<le> t" "t = 0 \<or> (\<exists>i < length stat. t = stat ! i)"
    unfolding schedule_flush_def len [symmetric] by blast
  have "simple_proc_nvme_io_cmd INTEL_OPTANE cfg ns stat now req ret = Some (stat, ret\<lparr>ret_nsecs_target := t\<rparr>, True)"
    using ns op by (simp add: simple_proc_nvme_io_cmd_def t(1) cdefs)
  moreover have "\<forall>b \<in> set stat. b \<le> t" using t(2) by (auto simp: in_set_conv_nth)
  moreover have "t \<in> set stat \<or> t = 0" using t(3) by auto
  ultimately show ?thesis by blast
qed

theorem simple_flush_waits_witness:
  "simple_proc_nvme_io_cmd INTEL_OPTANE small_config (simple_init_namespace 0 0xFF00000) [0, 900, 0, 500] 600
     (small_write\<lparr>req_cmd := (req_cmd small_write)\<lparr>rw_opcode := nvme_cmd_flush\<rparr>\<rparr>) \<lparr>ret_status = 0, ret_nsecs_target = 0\<rparr> =
     Some ([0, 900, 0, 500], \<lparr>ret_status = 0, ret_nsecs_target = 900\<rparr>, True)"
proof -
  have 1: "length [0, 900, 0, 500 :: u64] = unat (nr_io_units small_config)" by (simp add: small_config_def)
  have 2: "s_csi (simple_init_namespace 0 0xFF00000) = NVME_CSI_NVM" by (simp add: simple_init_namespace_def)
  have 3: "rw_opcode (req_cmd (small_write\<lparr>req_cmd := (req_cmd small_write)\<lparr>rw_opcode := nvme_cmd_flush\<rparr>\<rparr>)) = nvme_cmd_flush" by simp
  obtain t where t: "simple_proc_nvme_io_cmd INTEL_OPTANE small_config (simple_init_namespace 0 0xFF00000) [0, 900, 0, 500] 600
     (small_write\<lparr>req_cmd := (req_cmd small_write)\<lparr>rw_opcode := nvme_cmd_flush\<rparr>\<rparr>) \<lparr>ret_status = 0, ret_nsecs_target = 0\<rparr> =
     Some ([0, 900, 0, 500], \<lparr>ret_status = 0, ret_nsecs_target = t\<rparr>, True)"
    and b: "\<forall>b \<in> {0, 900, 500}. b \<le> t" "t \<in> {0, 900, 500}"
    using simple_flush_waits [OF 1 2 3, of 600 "\<lparr>ret_status = 0, ret_nsecs_target = 0\<rparr>"] by auto
  then have "t = 900" by (auto simp: word_le_nat_alt)
  then show ?thesis using t by blast
qed

end
