(* ===== verification/Kv_Alloc.thy ===== *)
theory Kv_Alloc
  imports Prelude
begin

text \<open>
  The allocators of the key-value namespace (\<open>append_only.c\<close>, \<open>bitmap.c\<close>): where the bytes of
  a new value go in the storage area. Neither ever frees.
\<close>

subsection \<open>The append-only allocator\<close>

record append_only =
  ao_latest :: u64
  ao_dev_size :: u64
  ao_total_written :: u64

definition append_only_allocator_init :: "u64 \<Rightarrow> append_only" where
  "append_only_allocator_init sz = \<lparr>ao_latest = 0, ao_dev_size = sz, ao_total_written = 0\<rparr>"

text \<open>A nearly full pool is only logged; the offset is handed out all the same.\<close>

definition append_only_allocate :: "u64 \<Rightarrow> append_only \<Rightarrow> append_only \<times> u64" where
  "append_only_allocate len a =
     (a\<lparr>ao_latest := ao_latest a + len, ao_total_written := ao_total_written a + len\<rparr>, ao_latest a)"

subsection \<open>The bitmap allocator\<close>

text \<open>
  One bit per slot of 1024 bytes in the first half of the device and of 4096 bytes in the second.
  The bitmaps are static arrays of 600000 and 300000 64-bit words; writing past them is a fault.
\<close>

definition SMALL_LENGTH :: u64 where [cdefs]: "SMALL_LENGTH = 1024"
definition LARGE_LENGTH :: u64 where [cdefs]: "LARGE_LENGTH = 4096"

record slot_pool =
  sl_words :: nat
  sl_nbits :: nat
  sl_bits :: "nat \<Rightarrow> bool"
  sl_last_pos :: nat
  sl_capacity :: nat

record bitmap_alloc =
  small_pool :: slot_pool
  large_pool :: slot_pool
  bm_dev_size :: u64
  bm_total_written :: u64

definition bitmap_zero :: "nat \<Rightarrow> slot_pool \<Rightarrow> slot_pool option" where
  "bitmap_zero nbits p = do {
     NVMEV_ASSERT (div_round_up nbits 64 \<le> sl_words p);
     Some (p\<lparr>sl_nbits := nbits, sl_bits := (\<lambda>i. if i < 64 * div_round_up nbits 64 then False else sl_bits p i)\<rparr>)
   }"

text \<open>Of the state before, initialisation keeps the search positions and the counts.\<close>

definition bitmap_allocator_init :: "u64 \<Rightarrow> bitmap_alloc \<Rightarrow> bitmap_alloc option" where
  "bitmap_allocator_init sz b = do {
     s \<leftarrow> bitmap_zero (unat (sz div 2 div SMALL_LENGTH)) (small_pool b);
     l \<leftarrow> bitmap_zero (unat (sz div 2 div LARGE_LENGTH)) (large_pool b);
     Some (b\<lparr>small_pool := s, large_pool := l, bm_dev_size := sz\<rparr>)
   }"

text \<open>
  The search for a free slot is the kernel's \<open>bitmap_find_next_zero_area\<close>, a parameter: from a
  bitmap, its number of bits and the position to start at, it gives the next free position, or one
  that is not below the number of bits.
\<close>

type_synonym find_zero = "(nat \<Rightarrow> bool) \<Rightarrow> nat \<Rightarrow> nat \<Rightarrow> nat"

definition find_zero_ok :: "find_zero \<Rightarrow> bool" where
  "find_zero_ok fz \<longleftrightarrow> (\<forall>bits n s. (fz bits n s < n \<longrightarrow> s \<le> fz bits n s \<and> \<not> bits (fz bits n s)) \<and>
     ((\<exists>i. s \<le> i \<and> i < n \<and> \<not> bits i) \<longrightarrow> fz bits n s < n))"

definition pool_take :: "find_zero \<Rightarrow> slot_pool \<Rightarrow> (slot_pool \<times> nat) option" where
  "pool_take fz p = do {
     let off = fz (sl_bits p) (sl_nbits p) (sl_last_pos p);
     NVMEV_ASSERT (off < 64 * sl_words p);
     Some (p\<lparr>sl_bits := (sl_bits p)(off := True),
             sl_last_pos := (if sl_nbits p < off + 1 then 0 else off + 1),
             sl_capacity := sl_capacity p + 1\<rparr>, off)
   }"

definition bitmap_allocate :: "find_zero \<Rightarrow> u64 \<Rightarrow> bitmap_alloc \<Rightarrow> (bitmap_alloc \<times> u64) option" where
  "bitmap_allocate fz len b = do {
     let b = b\<lparr>bm_total_written := bm_total_written b + len\<rparr>;
     if SMALL_LENGTH < len then do {
       (p, off) \<leftarrow> pool_take fz (large_pool b);
       Some (b\<lparr>large_pool := p\<rparr>, bm_dev_size b div 2 + of_nat off * LARGE_LENGTH)
     }
     else do {
       (p, off) \<leftarrow> pool_take fz (small_pool b);
       Some (b\<lparr>small_pool := p\<rparr>, of_nat off * SMALL_LENGTH)
     }
   }"

subsection \<open>The choice of allocator\<close>

datatype allocator = Append_Only append_only | Bitmap bitmap_alloc

fun allocate :: "find_zero \<Rightarrow> u64 \<Rightarrow> allocator \<Rightarrow> (allocator \<times> u64) option" where
  "allocate fz len (Append_Only a) = (let (a, off) = append_only_allocate len a in Some (Append_Only a, off))"
| "allocate fz len (Bitmap b) = map_option (\<lambda>(b, off). (Bitmap b, off)) (bitmap_allocate fz len b)"

text \<open>A slot taken while one is free is in range, was free, and is not handed out again.\<close>

lemma pool_take_spec:
  assumes fz: "find_zero_ok fz" and r: "pool_take fz p = Some (p', off)"
  shows "sl_bits p' = (sl_bits p)(off := True) \<and> sl_nbits p' = sl_nbits p \<and>
    (off < sl_nbits p \<longrightarrow> \<not> sl_bits p off) \<and>
    ((\<exists>i. sl_last_pos p \<le> i \<and> i < sl_nbits p \<and> \<not> sl_bits p i) \<longrightarrow> off < sl_nbits p)"
proof -
  have o: "off = fz (sl_bits p) (sl_nbits p) (sl_last_pos p)"
    and p': "sl_bits p' = (sl_bits p)(off := True)" "sl_nbits p' = sl_nbits p"
    using r by (auto simp: pool_take_def Let_def split: if_splits)
  show ?thesis using fz p' unfolding find_zero_ok_def o by blast
qed

end
