(* ===== verification/Kv_Map.thy ===== *)
theory Kv_Map
  imports Kv_Alloc
begin

text \<open>
  The mapping table of the key-value namespace (\<open>kv_ftl.c\<close>): a hash table of fixed size in which
  colliding entries are chained through \<open>next_slot\<close>. A memory offset of all ones marks a free
  slot, a next slot of all ones the end of a chain. An access outside the table or the 18 key
  bytes of an entry is a fault.
\<close>

record mapping_entry =
  me_key :: "u8 list"
  mem_offset :: u64
  me_length :: u64
  next_slot :: u32

definition no_entry :: mapping_entry where
  "no_entry = \<lparr>me_key = replicate 18 (- 1), mem_offset = - 1, me_length = - 1, next_slot = - 1\<rparr>"

type_synonym kv_table = "mapping_entry list"

subsection \<open>Hashing\<close>

definition hash_step :: "u8 \<Rightarrow> u32 \<Rightarrow> u32" where
  "hash_step p h = (h * 16777619) XOR ucast p"

definition hash_function :: "u8 list \<Rightarrow> u32" where
  "hash_function key = fold hash_step key 2166136261"

text \<open>The remainder is taken in 64 bits; \<open>slots\<close> is \<open>hash_slots\<close>.\<close>

definition get_hash_slot :: "u64 \<Rightarrow> u8 list \<Rightarrow> u32 option" where
  "get_hash_slot slots key = do { r \<leftarrow> umod (ucast (hash_function key)) slots; Some (ucast r) }"

subsection \<open>Search\<close>

definition entry_key :: "mapping_entry \<Rightarrow> nat \<Rightarrow> u8 list option" where
  "entry_key e n = (if n \<le> length (me_key e) then Some (take n (me_key e)) else None)"

text \<open>
  The loop that the lookup, the update and the deletion share: the slot with these key bytes on the
  chain from \<open>slot\<close>, or none. A chain that runs in a circle is a loop that does not end.
\<close>

partial_function (option) chain_search :: "kv_table \<Rightarrow> u8 list \<Rightarrow> u32 \<Rightarrow> u32 option option" where
  "chain_search t key slot = do {
     e \<leftarrow> rd t (unat slot);
     if mem_offset e = - 1 then Some None
     else do {
       k \<leftarrow> entry_key e (length key);
       if k = key then Some (Some slot)
       else if next_slot e = - 1 then Some None
       else chain_search t key (next_slot e)
     }
   }"

declare chain_search.simps [code]

definition find_slot :: "u64 \<Rightarrow> kv_table \<Rightarrow> u8 list \<Rightarrow> u32 option option" where
  "find_slot slots t key = do { s \<leftarrow> get_hash_slot slots key; chain_search t key s }"

text \<open>The result of a lookup is a copy of the entry, all ones if there is none.\<close>

definition get_mapping_entry_by_key :: "u64 \<Rightarrow> kv_table \<Rightarrow> u8 list \<Rightarrow> mapping_entry option" where
  "get_mapping_entry_by_key slots t key = do {
     f \<leftarrow> find_slot slots t key;
     case f of
       None \<Rightarrow> Some no_entry
     | Some s \<Rightarrow> do {
         e \<leftarrow> rd t (unat s);
         Some (no_entry\<lparr>me_key := take (length key) (me_key e) @ drop (length key) (me_key no_entry),
                        mem_offset := mem_offset e, me_length := me_length e, next_slot := next_slot e\<rparr>)
       }
   }"

subsection \<open>Insertion\<close>

text \<open>The last occupied slot of the chain through \<open>tail\<close>; \<open>prevs\<close> is the slot before it.\<close>

partial_function (option) find_tail :: "kv_table \<Rightarrow> u32 \<Rightarrow> u32 \<Rightarrow> u32 option" where
  "find_tail t tail prevs = do {
     e \<leftarrow> rd t (unat tail);
     if mem_offset e = - 1 then Some prevs
     else if next_slot e = - 1 then Some tail
     else find_tail t (next_slot e) tail
   }"

text \<open>Linear probing; it does not end when no slot is free.\<close>

partial_function (option) find_free :: "u64 \<Rightarrow> kv_table \<Rightarrow> u32 \<Rightarrow> u32 option" where
  "find_free slots t r = do {
     e \<leftarrow> rd t (unat r);
     if mem_offset e = - 1 then Some r
     else find_free slots t (if slots \<le> ucast (r + 1) then 0 else r + 1)
   }"

declare find_tail.simps [code] find_free.simps [code]

text \<open>The new slot and the slot to chain it to.\<close>

definition find_next_slot :: "u64 \<Rightarrow> kv_table \<Rightarrow> u32 \<Rightarrow> (u32 \<times> u32) option" where
  "find_next_slot slots t original_slot = do {
     prevs \<leftarrow> find_tail t original_slot (- 1);
     r \<leftarrow> find_free slots t prevs;
     Some (r, prevs)
   }"

definition chain_mapping :: "kv_table \<Rightarrow> u32 \<Rightarrow> u32 \<Rightarrow> kv_table option" where
  "chain_mapping t prev slot = modify t (unat prev) (\<lambda>e. Some (e\<lparr>next_slot := slot\<rparr>))"

text \<open>The key bytes overwrite the start of the entry's key; its next slot is left as it was.\<close>

definition fill_entry :: "u8 list \<Rightarrow> u64 \<Rightarrow> u64 \<Rightarrow> mapping_entry \<Rightarrow> mapping_entry option" where
  "fill_entry key off len e = do {
     NVMEV_ASSERT (length key \<le> length (me_key e));
     Some (e\<lparr>me_key := key @ drop (length key) (me_key e), mem_offset := off, me_length := len\<rparr>)
   }"

definition new_mapping_entry_by_key ::
  "u64 \<Rightarrow> u64 \<Rightarrow> kv_table \<Rightarrow> u8 list \<Rightarrow> u64 \<Rightarrow> u64 \<Rightarrow> kv_table option" where
  "new_mapping_entry_by_key storage_sz slots t key len off = do {
     NVMEV_ASSERT (off < storage_sz);
     h \<leftarrow> get_hash_slot slots key;
     e \<leftarrow> rd t (unat h);
     (slot, prev) \<leftarrow> (if mem_offset e \<noteq> - 1 then find_next_slot slots t h else Some (h, - 1));
     t \<leftarrow> modify t (unat slot) (fill_entry key off len);
     if prev \<noteq> - 1 then chain_mapping t prev slot else Some t
   }"

subsection \<open>Update and deletion\<close>

text \<open>The second result is the return value: 1 when the key has no entry.\<close>

definition update_mapping_entry_by_key :: "u64 \<Rightarrow> kv_table \<Rightarrow> u8 list \<Rightarrow> u64 \<Rightarrow> (kv_table \<times> u32) option" where
  "update_mapping_entry_by_key slots t key len = do {
     f \<leftarrow> find_slot slots t key;
     case f of
       None \<Rightarrow> Some (t, 1)
     | Some s \<Rightarrow> do { t \<leftarrow> modify t (unat s) (\<lambda>e. Some (e\<lparr>me_length := len\<rparr>)); Some (t, 0) }
   }"

definition delete_mapping_entry_by_key :: "u64 \<Rightarrow> kv_table \<Rightarrow> u8 list \<Rightarrow> kv_table option" where
  "delete_mapping_entry_by_key slots t key = do {
     f \<leftarrow> find_slot slots t key;
     case f of None \<Rightarrow> Some t | Some s \<Rightarrow> wr t (unat s) no_entry
   }"

end
