(* ===== verification/Kv_Table.thy ===== *)
theory Kv_Table
  imports Kv_Map
begin

text \<open>
  The invariant of the mapping table and what its operations do to the partial map that lookups
  see: chains end, a lookup of a key finds an occupied slot with these key bytes, an insertion adds
  one key to the map, an update changes the length of one, a deletion never adds or changes any.
\<close>

subsection \<open>The invariant\<close>

text \<open>The links, from a slot to the slot before it on a chain.\<close>

definition links :: "kv_table \<Rightarrow> (nat \<times> nat) set" where
  "links t = {(unat (next_slot (t ! i)), i) | i. i < length t \<and> next_slot (t ! i) \<noteq> - 1}"

definition free_at :: "kv_table \<Rightarrow> nat \<Rightarrow> bool" where
  "free_at t i \<longleftrightarrow> mem_offset (t ! i) = - 1"

definition table_ok :: "u64 \<Rightarrow> kv_table \<Rightarrow> bool" where
  "table_ok slots t \<longleftrightarrow> length t = unat slots \<and> 0 < unat slots \<and> unat slots < 2 ^ 32 \<and>
     (\<forall>i < length t. length (me_key (t ! i)) = 18 \<and> (free_at t i \<longrightarrow> next_slot (t ! i) = - 1) \<and>
       (next_slot (t ! i) \<noteq> - 1 \<longrightarrow> unat (next_slot (t ! i)) < length t)) \<and> wf (links t)"

lemma table_okD:
  assumes "table_ok slots t"
  shows "length t = unat slots" "0 < unat slots" "unat slots < 2 ^ 32" "wf (links t)"
    "i < unat slots \<Longrightarrow> length (me_key (t ! i)) = 18"
    "i < unat slots \<Longrightarrow> free_at t i \<Longrightarrow> next_slot (t ! i) = - 1"
    "i < unat slots \<Longrightarrow> next_slot (t ! i) \<noteq> - 1 \<Longrightarrow> unat (next_slot (t ! i)) < unat slots"
  using assms unfolding table_ok_def by auto

lemma get_hash_slot_total:
  assumes "0 < unat slots" "unat slots < 2 ^ 32"
  shows "\<exists>h. get_hash_slot slots key = Some h \<and> unat h < unat slots"
proof -
  let ?r = "ucast (hash_function key) mod slots"
  have "unat ?r < unat slots" using assms(1) by (simp add: unat_mod)
  moreover have "unat (ucast ?r :: u32) = unat ?r" using calculation assms(2) by (intro unat_ucast_less) simp
  moreover have "slots \<noteq> 0" using assms(1) by auto
  ultimately show ?thesis by (simp add: get_hash_slot_def umod_def)
qed

lemma unat_minus_1: "unat (- 1 :: u32) = 2 ^ 32 - 1"
  by (simp add: unsigned_minus_1_eq_mask mask_eq_exp_minus_1)

lemma slot_neq: "table_ok slots t \<Longrightarrow> unat s < unat slots \<Longrightarrow> s \<noteq> (- 1 :: u32)"
  using table_okD(3) [of slots t] unat_minus_1 by force

subsection \<open>Lookups\<close>

lemma chain_search_total:
  assumes ok: "table_ok slots t" and key: "length key \<le> 18"
  shows "unat s < unat slots \<Longrightarrow> \<exists>r. chain_search t key s = Some r \<and>
    (\<forall>v. r = Some v \<longrightarrow> unat v < unat slots \<and> \<not> free_at t (unat v) \<and> take (length key) (me_key (t ! unat v)) = key)"
proof (induction "unat s" arbitrary: s rule: wf_induct_rule [OF table_okD(4) [OF ok]])
  case 1
  note T = table_okD [OF ok]
  have e: "rd t (unat s) = Some (t ! unat s)" using 1(2) T(1) by simp
  have k: "entry_key (t ! unat s) (length key) = Some (take (length key) (me_key (t ! unat s)))"
    using T(5) [OF 1(2)] key by (simp add: entry_key_def)
  show ?case
  proof (cases "free_at t (unat s) \<or> take (length key) (me_key (t ! unat s)) = key \<or> next_slot (t ! unat s) = - 1")
    case True
    then show ?thesis using 1(2) by (subst chain_search.simps) (auto simp: e k free_at_def)
  next
    case False
    then have "unat (next_slot (t ! unat s)) < unat slots" using T(7) [OF 1(2)] by simp
    moreover have "(unat (next_slot (t ! unat s)), unat s) \<in> links t"
      using False 1(2) T(1) unfolding links_def by auto
    ultimately show ?thesis using 1(1) [of "next_slot (t ! unat s)"] False
      by (subst chain_search.simps) (simp add: e k free_at_def)
  qed
qed

text \<open>The step equation of a search in a table with the invariant.\<close>

lemma chain_search_step:
  assumes ok: "table_ok slots t" and key: "length key \<le> 18" and s: "unat s < unat slots"
  shows "chain_search t key s =
    (if free_at t (unat s) then Some None
     else if take (length key) (me_key (t ! unat s)) = key then Some (Some s)
     else if next_slot (t ! unat s) = - 1 then Some None else chain_search t key (next_slot (t ! unat s)))"
  using table_okD(1,5) [OF ok] key s
  by (subst chain_search.simps) (simp add: entry_key_def free_at_def)

text \<open>What a lookup sees: offset and length of the value of a key.\<close>

definition kv_lookup :: "u64 \<Rightarrow> kv_table \<Rightarrow> u8 list \<Rightarrow> (u64 \<times> u64) option" where
  "kv_lookup slots t key =
     (case find_slot slots t key of
        Some (Some s) \<Rightarrow> Some (mem_offset (t ! unat s), me_length (t ! unat s))
      | _ \<Rightarrow> None)"

lemma find_slot_total:
  assumes ok: "table_ok slots t" and key: "length key \<le> 18"
  shows "\<exists>r. find_slot slots t key = Some r \<and>
    (\<forall>v. r = Some v \<longrightarrow> unat v < unat slots \<and> \<not> free_at t (unat v) \<and> take (length key) (me_key (t ! unat v)) = key)"
  using get_hash_slot_total [OF table_okD(2,3) [OF ok], of key] chain_search_total [OF assms]
  by (auto simp: find_slot_def)

lemma kv_lookup_Some:
  assumes ok: "table_ok slots t" and key: "length key \<le> 18"
  shows "kv_lookup slots t key = Some (off, len) \<longleftrightarrow>
    (\<exists>v. find_slot slots t key = Some (Some v) \<and> mem_offset (t ! unat v) = off \<and> me_length (t ! unat v) = len)"
  using find_slot_total [OF assms] by (auto simp: kv_lookup_def split: option.splits)

text \<open>The code's lookup returns what \<open>kv_lookup\<close> says; an absent key has offset all ones.\<close>

lemma get_mapping_entry_spec:
  assumes ok: "table_ok slots t" and key: "length key \<le> 18"
  shows "\<exists>e. get_mapping_entry_by_key slots t key = Some e \<and>
    (case kv_lookup slots t key of
       None \<Rightarrow> e = no_entry
     | Some (off, len) \<Rightarrow> mem_offset e = off \<and> me_length e = len \<and> off \<noteq> - 1)"
proof -
  obtain r where r: "find_slot slots t key = Some r"
    "\<forall>v. r = Some v \<longrightarrow> unat v < unat slots \<and> \<not> free_at t (unat v) \<and> take (length key) (me_key (t ! unat v)) = key"
    using find_slot_total [OF assms] by blast
  then show ?thesis using table_okD(1) [OF ok]
    by (cases r) (auto simp: get_mapping_entry_by_key_def kv_lookup_def free_at_def)
qed

subsection \<open>The end of a chain and a free slot\<close>

definition ends_at :: "kv_table \<Rightarrow> nat \<Rightarrow> bool" where
  "ends_at t p \<longleftrightarrow> next_slot (t ! p) = - 1 \<or> free_at t (unat (next_slot (t ! p)))"

lemma find_tail_spec:
  assumes ok: "table_ok slots t"
  shows "unat s < unat slots \<Longrightarrow> \<not> free_at t (unat s) \<Longrightarrow>
    \<exists>p. find_tail t s q = Some p \<and> unat p < unat slots \<and> \<not> free_at t (unat p) \<and> ends_at t (unat p)"
proof (induction "unat s" arbitrary: s q rule: wf_induct_rule [OF table_okD(4) [OF ok]])
  case 1
  note T = table_okD [OF ok]
  let ?n = "next_slot (t ! unat s)"
  show ?case
  proof (cases "?n = - 1")
    case True
    then show ?thesis using 1(2,3) T(1) by (subst find_tail.simps) (auto simp: free_at_def ends_at_def)
  next
    case False
    then have n: "unat ?n < unat slots" "(unat ?n, unat s) \<in> links t"
      using T(1) T(7) [OF 1(2)] 1(2) by (auto simp: links_def)
    show ?thesis
    proof (cases "free_at t (unat ?n)")
      case True
      then have "find_tail t ?n s = Some s" using n(1) T(1) by (subst find_tail.simps) (simp add: free_at_def)
      then show ?thesis using 1(2,3) False True T(1)
        by (subst find_tail.simps) (auto simp: free_at_def ends_at_def)
    next
      case nf: False
      show ?thesis using 1(1) [OF n(2) n(1) nf, of s] 1(2,3) False T(1)
        by (subst find_tail.simps) (auto simp: free_at_def)
    qed
  qed
qed

lemma find_free_spec:
  assumes ok: "table_ok slots t"
  shows "unat r < unat slots \<Longrightarrow> free_at t ((unat r + d) mod unat slots) \<Longrightarrow>
    \<exists>v. find_free slots t r = Some v \<and> unat v < unat slots \<and> free_at t (unat v)"
proof (induction d arbitrary: r)
  case 0
  then show ?case using table_okD(1) [OF ok] by (subst find_free.simps) (auto simp: free_at_def)
next
  case (Suc d)
  note T = table_okD [OF ok]
  let ?r = "if slots \<le> ucast (r + 1) then 0 else r + 1"
  have r1: "unat (r + 1) = unat r + 1" using Suc.prems(1) T(3) by (subst unat_add_nowrap) simp_all
  then have "slots \<le> ucast (r + 1) \<longleftrightarrow> unat slots \<le> unat r + 1"
    using unat_ucast_up [of "r + 1", where ?'b = 64] by (simp add: word_le_nat_alt)
  then have r': "unat ?r = (unat r + 1) mod unat slots" using r1 Suc.prems(1)
    by (cases "unat slots = unat r + 1") auto
  show ?case
  proof (cases "free_at t (unat r)")
    case True
    then show ?thesis using Suc.prems(1) T(1) by (subst find_free.simps) (auto simp: free_at_def)
  next
    case False
    have "unat ?r < unat slots" using r' T(2) by simp
    moreover have "free_at t ((unat ?r + d) mod unat slots)" using Suc.prems(2) by (simp add: r' mod_add_left_eq)
    ultimately show ?thesis using Suc.IH False Suc.prems(1) T(1)
      by (subst find_free.simps) (simp add: free_at_def)
  qed
qed

lemma free_ahead: "r < (N :: nat) \<Longrightarrow> i < N \<Longrightarrow> \<exists>d. (r + d) mod N = i"
  by (rule exI [of _ "N - r + i"]) simp

lemma find_next_slot_spec:
  assumes ok: "table_ok slots t" and s: "unat s < unat slots" "\<not> free_at t (unat s)"
    and free: "i < unat slots" "free_at t i"
  shows "\<exists>v p. find_next_slot slots t s = Some (v, p) \<and> find_tail t s (- 1) = Some p \<and> unat v < unat slots \<and> free_at t (unat v) \<and>
    unat p < unat slots \<and> \<not> free_at t (unat p) \<and> ends_at t (unat p)"
proof -
  obtain p where p: "find_tail t s (- 1) = Some p" "unat p < unat slots" "\<not> free_at t (unat p)" "ends_at t (unat p)"
    using find_tail_spec [OF ok s] by blast
  obtain d where "(unat p + d) mod unat slots = i" using free_ahead [OF p(2) free(1)] by blast
  then obtain v where "find_free slots t p = Some v" "unat v < unat slots" "free_at t (unat v)"
    using find_free_spec [OF ok p(2), of d] free(2) by auto
  then show ?thesis using p by (simp add: find_next_slot_def)
qed

subsection \<open>Insertion\<close>

text \<open>
  A table with one more entry: \<open>v\<close> was free and holds the new one, and if it was not the hash slot
  then \<open>p\<close>, at which a chain ended, now links to it.
\<close>

definition entry_added :: "kv_table \<Rightarrow> nat \<Rightarrow> u32 option \<Rightarrow> u32 \<Rightarrow> mapping_entry \<Rightarrow> kv_table \<Rightarrow> bool" where
  "entry_added t N p v e t' \<longleftrightarrow> length t' = N \<and> unat v < N \<and> free_at t (unat v) \<and> t' ! unat v = e \<and>
     mem_offset e \<noteq> - 1 \<and> next_slot e = - 1 \<and> length (me_key e) = 18 \<and>
     (\<forall>q. p = Some q \<longrightarrow> unat q < N \<and> \<not> free_at t (unat q) \<and> ends_at t (unat q) \<and>
        t' ! unat q = (t ! unat q)\<lparr>next_slot := v\<rparr>) \<and>
     (\<forall>i < N. i \<noteq> unat v \<and> (\<forall>q. p = Some q \<longrightarrow> i \<noteq> unat q) \<longrightarrow> t' ! i = t ! i)"

lemma entry_addedD:
  assumes "entry_added t N p v e t'"
  shows "length t' = N" "unat v < N" "free_at t (unat v)" "t' ! unat v = e" "mem_offset e \<noteq> - 1" "next_slot e = - 1"
    "length (me_key e) = 18"
    "p = Some q \<Longrightarrow> unat q < N" "p = Some q \<Longrightarrow> \<not> free_at t (unat q)" "p = Some q \<Longrightarrow> ends_at t (unat q)"
    "p = Some q \<Longrightarrow> t' ! unat q = (t ! unat q)\<lparr>next_slot := v\<rparr>"
    "i < N \<Longrightarrow> i \<noteq> unat v \<Longrightarrow> \<forall>q. p = Some q \<longrightarrow> i \<noteq> unat q \<Longrightarrow> t' ! i = t ! i"
  using assms by (simp_all add: entry_added_def)

lemma entry_added_cases:
  obtains (new) "i = unat v" | (prev) q where "p = Some q" "i = unat q" "i \<noteq> unat v"
    | (other) "i \<noteq> unat v" "\<forall>q. p = Some q \<longrightarrow> i \<noteq> unat q"
  by blast

lemma entry_added_free:
  assumes "entry_added t N p v e t'" "i < N"
  shows "free_at t' i \<longleftrightarrow> free_at t i \<and> i \<noteq> unat v"
proof -
  note A = entry_addedD [OF assms(1)]
  show ?thesis
    by (rule entry_added_cases [where i = i and v = v and p = p]) (use A assms(2) in \<open>auto simp: free_at_def\<close>)
qed

lemma entry_added_ok:
  assumes ok: "table_ok slots t" and A: "entry_added t (unat slots) p v e t'"
  shows "table_ok slots t'"
proof -
  note T = table_okD [OF ok] and A' = entry_addedD [OF A]
  let ?N = "unat slots"
  have v: "v \<noteq> - 1" using slot_neq [OF ok A'(2)] .
  have fields: "length (me_key (t' ! i)) = 18 \<and> (free_at t' i \<longrightarrow> next_slot (t' ! i) = - 1) \<and>
      (next_slot (t' ! i) \<noteq> - 1 \<longrightarrow> unat (next_slot (t' ! i)) < ?N)" if i: "i < ?N" for i
  proof (rule entry_added_cases [where i = i and v = v and p = p])
    assume "i = unat v" then show ?thesis using A' by auto
  next
    fix q assume "p = Some q" "i = unat q" "i \<noteq> unat v"
    then show ?thesis using A' T(5) [OF i] entry_added_free [OF A i] by auto
  next
    assume "i \<noteq> unat v" "\<forall>q. p = Some q \<longrightarrow> i \<noteq> unat q"
    then show ?thesis using A'(12) [OF i] T(5-7) [OF i] entry_added_free [OF A i] by auto
  qed
  have sink: "(j, unat v) \<notin> links t" for j using T(6) [OF A'(2,3)] by (auto simp: links_def)
  have wf': "wf (insert (unat v, unat q) (links t))" if q: "p = Some q" for q
  proof -
    have "(unat q, unat v) \<notin> (links t)\<^sup>*"
    proof
      assume "(unat q, unat v) \<in> (links t)\<^sup>*"
      then show False
        by (cases rule: rtranclE) (use sink A'(3) A'(9) [OF q] in auto)
    qed
    then show ?thesis using T(4) by (simp add: wf_insert)
  qed
  have "links t' \<subseteq> (case p of None \<Rightarrow> links t | Some q \<Rightarrow> insert (unat v, unat q) (links t))"
  proof
    fix x assume "x \<in> links t'"
    then obtain i where i: "i < ?N" "next_slot (t' ! i) \<noteq> - 1" "x = (unat (next_slot (t' ! i)), i)"
      using A'(1) by (auto simp: links_def)
    show "x \<in> (case p of None \<Rightarrow> links t | Some q \<Rightarrow> insert (unat v, unat q) (links t))"
    proof (rule entry_added_cases [where i = i and v = v and p = p])
      assume "i = unat v" then show ?thesis using i A' by simp
    next
      fix q assume "p = Some q" "i = unat q" "i \<noteq> unat v"
      then show ?thesis using i(3) A'(11) by simp
    next
      assume "i \<noteq> unat v" "\<forall>q. p = Some q \<longrightarrow> i \<noteq> unat q"
      then have "x \<in> links t" using A'(12) [OF i(1)] i T(1) by (auto simp: links_def)
      then show ?thesis by (cases p) simp_all
    qed
  qed
  then have "wf (links t')"
    using wf' T(4) by (cases p) (auto intro: wf_subset simp del: wf_insert)
  then show ?thesis using A'(1) T(2,3) fields by (simp add: table_ok_def)
qed

text \<open>Other keys of the same length are found, or not, as before.\<close>

lemma search_other:
  assumes ok: "table_ok slots t" and A: "entry_added t (unat slots) p v e t'"
    and k: "length k \<le> 18" "take (length k) (me_key e) \<noteq> k"
  shows "unat s < unat slots \<Longrightarrow> chain_search t' k s = chain_search t k s"
proof (induction "unat s" arbitrary: s rule: wf_induct_rule [OF table_okD(4) [OF ok]])
  case 1
  note T = table_okD [OF ok] and A' = entry_addedD [OF A] and s = 1(2)
  have ok': "table_ok slots t'" by (rule entry_added_ok [OF ok A])
  note S = chain_search_step [OF ok k(1) s] and S' = chain_search_step [OF ok' k(1) s]
  have vnew: "chain_search t' k v = Some None"
    using chain_search_step [OF ok' k(1) A'(2)] A' k(2) entry_added_free [OF A A'(2)] by simp
  show ?case
  proof (rule entry_added_cases [where i = "unat s" and v = v and p = p])
    assume "unat s = unat v"
    then show ?thesis using S vnew A'(3) by (simp add: word_unat_eq_iff [symmetric])
  next
    fix q assume q: "p = Some q" "unat s = unat q" "unat s \<noteq> unat v"
    have e: "t' ! unat s = (t ! unat s)\<lparr>next_slot := v\<rparr>" using A'(11) [OF q(1)] q(2) by simp
    have nf: "\<not> free_at t (unat s)" "\<not> free_at t' (unat s)"
      using A'(9) [OF q(1)] q(2) entry_added_free [OF A s] by simp_all
    have "chain_search t k (next_slot (t ! unat s)) = Some None" if "next_slot (t ! unat s) \<noteq> - 1"
      using chain_search_step [OF ok k(1) T(7) [OF s that]] A'(10) [OF q(1)] q(2) that by (simp add: ends_at_def)
    then show ?thesis using S S' e nf vnew slot_neq [OF ok A'(2)] by simp
  next
    assume o: "unat s \<noteq> unat v" "\<forall>q. p = Some q \<longrightarrow> unat s \<noteq> unat q"
    have e: "t' ! unat s = t ! unat s" "free_at t' (unat s) = free_at t (unat s)"
      using A'(12) [OF s o] entry_added_free [OF A s] o(1) by simp_all
    have "chain_search t' k (next_slot (t ! unat s)) = chain_search t k (next_slot (t ! unat s))"
      if "next_slot (t ! unat s) \<noteq> - 1"
      using 1(1) [of "next_slot (t ! unat s)"] T(7) [OF s that] that s T(1) by (auto simp: links_def)
    then show ?thesis using S S' e by simp
  qed
qed

text \<open>The new key is found on every chain that ended at \<open>p\<close> without it.\<close>

lemma search_new:
  assumes ok: "table_ok slots t" and A: "entry_added t (unat slots) (Some p) v e t'"
    and k: "length k \<le> 18" "take (length k) (me_key e) = k"
  shows "unat s < unat slots \<Longrightarrow> \<not> free_at t (unat s) \<Longrightarrow> chain_search t k s = Some None \<Longrightarrow> find_tail t s q = Some p \<Longrightarrow>
    chain_search t' k s = Some (Some v)"
proof (induction "unat s" arbitrary: s q rule: wf_induct_rule [OF table_okD(4) [OF ok]])
  case 1
  note T = table_okD [OF ok] and A' = entry_addedD [OF A] and s = 1(2)
  have ok': "table_ok slots t'" by (rule entry_added_ok [OF ok A])
  note S = chain_search_step [OF ok k(1) s] and S' = chain_search_step [OF ok' k(1) s]
  have vnew: "chain_search t' k v = Some (Some v)"
    using chain_search_step [OF ok' k(1) A'(2)] A' k(2) entry_added_free [OF A A'(2)] by simp
  have nm: "take (length k) (me_key (t ! unat s)) \<noteq> k" using S 1(3,4) by (auto split: if_splits)
  have nf': "\<not> free_at t' (unat s)" using entry_added_free [OF A s] 1(3) by simp
  have sv: "unat s \<noteq> unat v" using 1(3) A'(3) by auto
  let ?n = "next_slot (t ! unat s)"
  have tail: "find_tail t s q = (if ?n = - 1 then Some s else find_tail t ?n s)"
    using 1(3) s T(1) by (subst find_tail.simps) (simp add: free_at_def)
  show ?case
  proof (cases "s = p")
    case True
    then have "t' ! unat s = (t ! unat s)\<lparr>next_slot := v\<rparr>" using A'(11) [of p] by simp
    then show ?thesis using S' nf' nm vnew slot_neq [OF ok A'(2)] by simp
  next
    case False
    then have n: "?n \<noteq> - 1" using tail 1(5) by auto
    have nN: "unat ?n < unat slots" by (rule T(7) [OF s n])
    have nfree: "\<not> free_at t (unat ?n)"
    proof
      assume "free_at t (unat ?n)"
      then have "find_tail t ?n s = Some s" using nN T(1) by (subst find_tail.simps) (simp add: free_at_def)
      then show False using tail n 1(5) False by simp
    qed
    have "chain_search t k ?n = Some None" using S 1(3,4) nm n by simp
    moreover have "find_tail t ?n s = Some p" using tail n 1(5) by simp
    moreover have "(unat ?n, unat s) \<in> links t" using n s T(1) by (auto simp: links_def)
    ultimately have "chain_search t' k ?n = Some (Some v)" using 1(1) nN nfree by blast
    moreover have "t' ! unat s = t ! unat s" using A'(12) [OF s sv] False by (simp add: word_unat_eq_iff)
    ultimately show ?thesis using S' nf' nm n by simp
  qed
qed

lemma lookup_by_search:
  assumes ok: "table_ok slots t" "table_ok slots t'" and key: "length k \<le> 18"
    and s: "\<And>s. unat s < unat slots \<Longrightarrow> chain_search t' k s = chain_search t k s"
    and e: "\<And>i. i < unat slots \<Longrightarrow> \<not> free_at t i \<Longrightarrow> mem_offset (t' ! i) = mem_offset (t ! i) \<and> me_length (t' ! i) = me_length (t ! i)"
  shows "kv_lookup slots t' k = kv_lookup slots t k"
proof -
  obtain h where h: "get_hash_slot slots k = Some h" "unat h < unat slots"
    using get_hash_slot_total [OF table_okD(2,3) [OF ok(1)]] by blast
  obtain r where r: "chain_search t k h = Some r" "\<forall>v. r = Some v \<longrightarrow> unat v < unat slots \<and> \<not> free_at t (unat v)"
    using chain_search_total [OF ok(1) key h(2)] by blast
  have "find_slot slots t' k = Some r" "find_slot slots t k = Some r" using h s r(1) by (simp_all add: find_slot_def)
  then show ?thesis using r(2) e by (cases r) (simp_all add: kv_lookup_def)
qed

lemma new_mapping_entry_spec:
  assumes ok: "table_ok slots t" and key: "length key \<le> 18" and new: "kv_lookup slots t key = None"
    and off: "off < sz" "off \<noteq> - 1" and free: "i < unat slots" "free_at t i"
  shows "\<exists>t'. new_mapping_entry_by_key sz slots t key len off = Some t' \<and> table_ok slots t' \<and>
    (\<forall>k. length k = length key \<longrightarrow> kv_lookup slots t' k = ((kv_lookup slots t)(key \<mapsto> (off, len))) k) \<and>
    (\<exists>v < unat slots. free_at t v \<and> mem_offset (t' ! v) = off \<and> me_length (t' ! v) = len \<and>
      (\<forall>i < unat slots. i \<noteq> v \<longrightarrow> mem_offset (t' ! i) = mem_offset (t ! i) \<and> me_length (t' ! i) = me_length (t ! i)))"
proof -
  note T = table_okD [OF ok]
  obtain h where h: "get_hash_slot slots key = Some h" "unat h < unat slots"
    using get_hash_slot_total [OF T(2,3)] by blast
  have none: "chain_search t key h = Some None"
    using new find_slot_total [OF ok key] h by (auto simp: kv_lookup_def find_slot_def split: option.splits)
  let ?fill = "\<lambda>e. e\<lparr>me_key := key @ drop (length key) (me_key e), mem_offset := off, me_length := len\<rparr>"
  obtain v p t' where t': "new_mapping_entry_by_key sz slots t key len off = Some t'"
    and A: "entry_added t (unat slots) p v (?fill (t ! unat v)) t'"
    and found: "chain_search t' key h = Some (Some v)"
  proof (cases "free_at t (unat h)")
    case True
    let ?t = "t[unat h := ?fill (t ! unat h)]"
    have A: "entry_added t (unat slots) None h (?fill (t ! unat h)) ?t"
      using True h(2) T(1) T(5,6) [OF h(2)] off key by (simp add: entry_added_def)
    have "new_mapping_entry_by_key sz slots t key len off = Some ?t"
      using True h T(1) T(5) [OF h(2)] off key
      by (simp add: new_mapping_entry_by_key_def fill_entry_def free_at_def modify_def)
    moreover have "chain_search ?t key h = Some (Some h)"
      using chain_search_step [OF entry_added_ok [OF ok A] key h(2)] h(2) T(1) off by (simp add: free_at_def)
    ultimately show ?thesis using that A by blast
  next
    case False
    obtain v q where n: "find_next_slot slots t h = Some (v, q)" "find_tail t h (- 1) = Some q" "unat v < unat slots"
        "free_at t (unat v)" "unat q < unat slots" "\<not> free_at t (unat q)" "ends_at t (unat q)"
      using find_next_slot_spec [OF ok h(2) False free] by blast
    let ?t1 = "t[unat v := ?fill (t ! unat v)]"
    let ?t = "?t1[unat q := (t ! unat q)\<lparr>next_slot := v\<rparr>]"
    have vq: "unat v \<noteq> unat q" using n(4,6) by auto
    have A: "entry_added t (unat slots) (Some q) v (?fill (t ! unat v)) ?t"
      using n vq T(1) T(5,6) [OF n(3)] off key by (simp add: entry_added_def)
    have "new_mapping_entry_by_key sz slots t key len off = Some ?t"
      using False h n(1,3,5) vq T(1) T(5) [OF n(3)] off key slot_neq [OF ok n(5)]
      by (simp add: new_mapping_entry_by_key_def fill_entry_def free_at_def modify_def chain_mapping_def)
    moreover have "chain_search ?t key h = Some (Some v)"
      by (rule search_new [OF ok A key _ h(2) False none n(2)]) simp
    ultimately show ?thesis using that A by blast
  qed
  note A' = entry_addedD [OF A]
  have ok': "table_ok slots t'" by (rule entry_added_ok [OF ok A])
  have fields: "mem_offset (t' ! i) = mem_offset (t ! i) \<and> me_length (t' ! i) = me_length (t ! i)"
    if i: "i < unat slots" "i \<noteq> unat v" for i
    by (rule entry_added_cases [where i = i and v = v and p = p]) (use A'(3) A'(8-12) i in auto)
  have "kv_lookup slots t' k = ((kv_lookup slots t)(key \<mapsto> (off, len))) k" if k: "length k = length key" for k
  proof (cases "k = key")
    case True
    have "find_slot slots t' key = Some (Some v)" using h found by (simp add: find_slot_def)
    then show ?thesis using True A'(4) by (simp add: kv_lookup_def)
  next
    case False
    have k18: "length k \<le> 18" using k key by simp
    have "take (length k) (me_key (?fill (t ! unat v))) \<noteq> k" using False k by simp
    note s = search_other [OF ok A k18 this]
    have "kv_lookup slots t' k = kv_lookup slots t k"
    proof (rule lookup_by_search [OF ok ok' k18 s])
      fix i assume i: "i < unat slots" "\<not> free_at t i"
      show "mem_offset (t' ! i) = mem_offset (t ! i) \<and> me_length (t' ! i) = me_length (t ! i)"
        using fields [OF i(1)] i(2) A'(3) by blast
    qed
    then show ?thesis using False by simp
  qed
  moreover have "mem_offset (t' ! unat v) = off" "me_length (t' ! unat v) = len" using A'(4) by simp_all
  ultimately show ?thesis using t' ok' A'(2,3) fields by blast
qed

subsection \<open>Update and deletion\<close>

lemma search_same:
  assumes ok: "table_ok slots t" "table_ok slots t'" and k: "length k \<le> 18"
    and e: "\<And>i. i < unat slots \<Longrightarrow> free_at t' i = free_at t i \<and> me_key (t' ! i) = me_key (t ! i) \<and> next_slot (t' ! i) = next_slot (t ! i)"
  shows "unat s < unat slots \<Longrightarrow> chain_search t' k s = chain_search t k s"
proof (induction "unat s" arbitrary: s rule: wf_induct_rule [OF table_okD(4) [OF ok(1)]])
  case 1
  have "chain_search t' k (next_slot (t ! unat s)) = chain_search t k (next_slot (t ! unat s))"
    if "next_slot (t ! unat s) \<noteq> - 1"
    using 1 that table_okD(1,7) [OF ok(1)] by (auto simp: links_def)
  then show ?case using chain_search_step [OF ok(1) k 1(2)] chain_search_step [OF ok(2) k 1(2)] e [OF 1(2)] by simp
qed

lemma update_mapping_entry_spec:
  assumes ok: "table_ok slots t" and key: "length key \<le> 18"
  shows "\<exists>t' r. update_mapping_entry_by_key slots t key len = Some (t', r) \<and> table_ok slots t' \<and>
    (case kv_lookup slots t key of
       None \<Rightarrow> r = 1 \<and> t' = t
     | Some (off, _) \<Rightarrow> r = 0 \<and> (\<forall>k. length k = length key \<longrightarrow>
         kv_lookup slots t' k = ((kv_lookup slots t)(key \<mapsto> (off, len))) k))"
proof -
  obtain r where r: "find_slot slots t key = Some r"
    "\<forall>v. r = Some v \<longrightarrow> unat v < unat slots \<and> \<not> free_at t (unat v) \<and> take (length key) (me_key (t ! unat v)) = key"
    using find_slot_total [OF assms] by blast
  note T = table_okD [OF ok]
  show ?thesis
  proof (cases r)
    case None
    then show ?thesis using r(1) ok by (simp add: update_mapping_entry_by_key_def kv_lookup_def)
  next
    case (Some v)
    let ?t = "t[unat v := (t ! unat v)\<lparr>me_length := len\<rparr>]"
    have v: "unat v < unat slots" "\<not> free_at t (unat v)" "take (length key) (me_key (t ! unat v)) = key" using r(2) Some by auto
    have same: "free_at ?t i = free_at t i \<and> me_key (?t ! i) = me_key (t ! i) \<and> next_slot (?t ! i) = next_slot (t ! i)"
      if "i < unat slots" for i using that T(1) by (cases "i = unat v") (simp_all add: free_at_def)
    have "links ?t = links t" using same T(1) by (auto simp: links_def)
    then have ok': "table_ok slots ?t" using T same by (simp add: table_ok_def)
    have u: "update_mapping_entry_by_key slots t key len = Some (?t, 0)"
      using r(1) Some v(1) T(1) by (simp add: update_mapping_entry_by_key_def modify_def)
    have "kv_lookup slots ?t k = ((kv_lookup slots t)(key \<mapsto> (mem_offset (t ! unat v), len))) k" if k: "length k = length key" for k
    proof -
      have k18: "length k \<le> 18" using k key by simp
      obtain h where h: "get_hash_slot slots k = Some h" "unat h < unat slots"
        using get_hash_slot_total [OF T(2,3)] by blast
      have f: "find_slot slots ?t k = find_slot slots t k"
        using search_same [OF ok ok' k18 same h(2)] h by (simp add: find_slot_def)
      show ?thesis
      proof (cases "k = key")
        case True
        then show ?thesis using f r(1) Some v(1) T(1) by (simp add: kv_lookup_def)
      next
        case False
        obtain r' where r': "find_slot slots t k = Some r'" "\<forall>w. r' = Some w \<longrightarrow> take (length k) (me_key (t ! unat w)) = k"
          using find_slot_total [OF ok k18] by blast
        have "unat w \<noteq> unat v" if "r' = Some w" for w using r'(2) that v(3) False k by auto
        then show ?thesis using f r'(1) False by (cases r') (simp_all add: kv_lookup_def)
      qed
    qed
    then show ?thesis using u ok' r(1) Some by (auto simp: kv_lookup_def)
  qed
qed

lemma delete_mapping_entry_spec:
  assumes ok: "table_ok slots t" and key: "length key \<le> 18"
  shows "\<exists>t'. delete_mapping_entry_by_key slots t key = Some t' \<and> table_ok slots t' \<and> kv_lookup slots t' key = None \<and>
    (\<forall>k. length k \<le> 18 \<longrightarrow> kv_lookup slots t' k = kv_lookup slots t k \<or> kv_lookup slots t' k = None)"
proof -
  obtain h where h: "get_hash_slot slots key = Some h" "unat h < unat slots"
    using get_hash_slot_total [OF table_okD(2,3) [OF ok]] by blast
  obtain r where r: "find_slot slots t key = Some r"
    "\<forall>v. r = Some v \<longrightarrow> unat v < unat slots \<and> \<not> free_at t (unat v) \<and> take (length key) (me_key (t ! unat v)) = key"
    using find_slot_total [OF assms] by blast
  note T = table_okD [OF ok]
  show ?thesis
  proof (cases r)
    case None
    then show ?thesis using r(1) ok by (simp add: delete_mapping_entry_by_key_def kv_lookup_def)
  next
    case (Some v)
    let ?t = "t[unat v := no_entry]"
    have v: "unat v < unat slots" using r(2) Some by auto
    have at: "?t ! i = (if i = unat v then no_entry else t ! i)" if "i < unat slots" for i using that T(1) by simp
    have "links ?t \<subseteq> links t"
    proof
      fix x assume "x \<in> links ?t"
      then obtain i where i: "i < unat slots" "next_slot (?t ! i) \<noteq> - 1" "x = (unat (next_slot (?t ! i)), i)"
        using T(1) by (auto simp: links_def)
      have "next_slot no_entry = - 1" by (simp add: no_entry_def)
      then have "?t ! i = t ! i" using i(2) unfolding at [OF i(1)] by metis
      then show "x \<in> links t" using i T(1) unfolding links_def by auto
    qed
    then have "wf (links ?t)" using T(4) wf_subset by blast
    moreover have "length (me_key (?t ! i)) = 18 \<and> (free_at ?t i \<longrightarrow> next_slot (?t ! i) = - 1) \<and>
        (next_slot (?t ! i) \<noteq> - 1 \<longrightarrow> unat (next_slot (?t ! i)) < unat slots)" if i: "i < unat slots" for i
      unfolding free_at_def at [OF i] using T(5-7) [OF i] by (simp add: no_entry_def free_at_def)
    ultimately have ok': "table_ok slots ?t" using T(1-3) by (simp add: table_ok_def)
    have hit: "free_at ?t (unat v)" using v T(1) by (simp add: free_at_def no_entry_def)
    have rest: "?t ! i = t ! i" "free_at ?t i = free_at t i" if "i \<noteq> unat v" for i using that by (simp_all add: free_at_def)
    have s: "chain_search ?t k x = Some None \<or> chain_search ?t k x = chain_search t k x \<and> chain_search t k x \<noteq> Some (Some v)"
      if k: "length k \<le> 18" and x: "unat x < unat slots" for k x
      using x
    proof (induction "unat x" arbitrary: x rule: wf_induct_rule [OF table_okD(4) [OF ok]])
      case 1
      have IH: "chain_search ?t k (next_slot (t ! unat x)) = Some None \<or>
          chain_search ?t k (next_slot (t ! unat x)) = chain_search t k (next_slot (t ! unat x)) \<and>
          chain_search t k (next_slot (t ! unat x)) \<noteq> Some (Some v)" if "next_slot (t ! unat x) \<noteq> - 1"
        using 1 that T(1,7) by (auto simp: links_def)
      show ?case
      proof (cases "unat x = unat v")
        case True
        then show ?thesis using chain_search_step [OF ok' k 1(2)] hit by simp
      next
        case False
        then show ?thesis using chain_search_step [OF ok k 1(2)] chain_search_step [OF ok' k 1(2)] rest [OF False] IH by auto
      qed
    qed
    have d: "delete_mapping_entry_by_key slots t key = Some ?t"
      using r(1) Some v T(1) by (simp add: delete_mapping_entry_by_key_def)
    have "chain_search ?t key h = Some None" using s [OF key h(2)] r(1) h(1) Some by (auto simp: find_slot_def)
    then have "kv_lookup slots ?t key = None" using h by (simp add: kv_lookup_def find_slot_def)
    moreover have "kv_lookup slots ?t k = kv_lookup slots t k \<or> kv_lookup slots ?t k = None" if k: "length k \<le> 18" for k
    proof -
      obtain g where g: "get_hash_slot slots k = Some g" "unat g < unat slots"
        using get_hash_slot_total [OF T(2,3)] by blast
      obtain r' where r': "chain_search t k g = Some r'" using chain_search_total [OF ok k g(2)] by blast
      have "unat w \<noteq> unat v" if "r' = Some w" "r' \<noteq> Some v" for w using that by (auto simp: word_unat_eq_iff)
      then show ?thesis using s [OF k g(2)] g(1) r'
        by (cases r') (auto simp: kv_lookup_def find_slot_def)
    qed
    ultimately show ?thesis using d ok' by blast
  qed
qed

end
