(* ===== verification/Prp.thy ===== *)
theory Prp
  imports Prelude
begin

text \<open>
  Transfers between the storage area and host memory. A command names its pages by two physical
  region pages: the first page directly, the second either directly or, when more than a page is
  left, as the list of all further pages. The loop over them appears in \<open>io.c\<close> and three times
  in \<open>kv_ftl.c\<close>. Host memory is a map of bytes; an access past the mapped page of the list, or to
  a list that was never mapped, is a fault.
\<close>

subsection \<open>Memory\<close>

type_synonym host_mem = "u64 \<Rightarrow> u8"

record storage =
  st_size :: nat
  st_bytes :: "nat \<Rightarrow> u8"

definition read_host :: "host_mem \<Rightarrow> u64 \<Rightarrow> nat \<Rightarrow> u8 list" where
  "read_host m a n = map (\<lambda>j. m (a + of_nat j)) [0..<n]"

definition write_host :: "host_mem \<Rightarrow> u64 \<Rightarrow> u8 list \<Rightarrow> host_mem" where
  "write_host m a bs = (\<lambda>x. if unat (x - a) < length bs then bs ! unat (x - a) else m x)"

definition read_storage :: "storage \<Rightarrow> nat \<Rightarrow> nat \<Rightarrow> u8 list option" where
  "read_storage st off n =
     (if off + n \<le> st_size st then Some (map (\<lambda>j. st_bytes st (off + j)) [0..<n]) else None)"

definition write_storage :: "storage \<Rightarrow> nat \<Rightarrow> u8 list \<Rightarrow> storage option" where
  "write_storage st off bs =
     (if off + length bs \<le> st_size st
      then Some (st\<lparr>st_bytes := (\<lambda>i. if off \<le> i \<and> i < off + length bs then bs ! (i - off) else st_bytes st i)\<rparr>)
      else None)"

text \<open>A little-endian 64-bit word.\<close>

definition le64_at :: "host_mem \<Rightarrow> u64 \<Rightarrow> u64" where
  "le64_at m a = foldr (\<lambda>b w. ucast b + 256 * w) (read_host m a 8) 0"

subsection \<open>The loop\<close>

definition page_off :: "u64 \<Rightarrow> nat" where
  "page_off a = unat (a AND 4095)"

lemma page_off_less: "page_off a < 4096"
proof -
  have "a AND 4095 \<le> 4095" by (rule word_and_le1)
  then show ?thesis by (simp add: page_off_def word_le_nat_alt)
qed

text \<open>
  Entry \<open>i\<close> of the list at \<open>p\<close>. \<open>pv\<close> says which pages the kernel has a page structure for; the
  others are mapped from \<open>p\<close> itself, and the offset in the page is then added to a pointer to
  64-bit words.
\<close>

definition prp_list_entry :: "(u64 \<Rightarrow> bool) \<Rightarrow> host_mem \<Rightarrow> u64 \<Rightarrow> nat \<Rightarrow> u64 option" where
  "prp_list_entry pv m p i = do {
     let off = (if pv p then page_off p + 8 * i else 8 * page_off p + 8 * i);
     NVMEV_ASSERT (off + 8 \<le> 4096);
     Some (le64_at m ((if pv p then p - of_nat (page_off p) else p) + of_nat off))
   }"

text \<open>The address of the \<open>i\<close>th page, and whether the list is mapped from then on.\<close>

definition prp_addr :: "(u64 \<Rightarrow> bool) \<Rightarrow> host_mem \<Rightarrow> u64 \<Rightarrow> u64 \<Rightarrow> nat \<Rightarrow> bool \<Rightarrow> nat \<Rightarrow> (u64 \<times> bool) option" where
  "prp_addr pv m prp1 prp2 i listed remaining =
     (if i = 0 then Some (prp1, listed)
      else if i = 1 \<and> remaining \<le> 4096 then Some (prp2, listed)
      else if i = 1 \<or> listed then map_option (\<lambda>a. (a, True)) (prp_list_entry pv m prp2 (i - 1))
      else None)"

definition prp_io_size :: "u64 \<Rightarrow> nat \<Rightarrow> nat" where
  "prp_io_size paddr remaining =
     (let io = min remaining 4096
      in if page_off paddr \<noteq> 0 \<and> 4096 < io + page_off paddr then 4096 - page_off paddr else io)"

lemma prp_io_size_bounds:
  "0 < remaining \<Longrightarrow> 0 < prp_io_size p remaining"
  "prp_io_size p remaining \<le> remaining" "page_off p + prp_io_size p remaining \<le> 4096"
  using page_off_less [of p] by (auto simp: prp_io_size_def Let_def)

text \<open>
  \<open>copy a n d\<close> moves \<open>n\<close> bytes between host address \<open>a\<close> and position \<open>d\<close> of the transfer. In a
  page mapped from its own address the offset counts twice.
\<close>

definition prp_target :: "(u64 \<Rightarrow> bool) \<Rightarrow> u64 \<Rightarrow> u64" where
  "prp_target pv paddr = (if pv paddr then paddr else paddr + of_nat (page_off paddr))"

function prp_loop ::
  "(u64 \<Rightarrow> bool) \<Rightarrow> ('s \<Rightarrow> host_mem) \<Rightarrow> (u64 \<Rightarrow> nat \<Rightarrow> nat \<Rightarrow> 's \<Rightarrow> 's option) \<Rightarrow> u64 \<Rightarrow> u64 \<Rightarrow> nat \<Rightarrow> bool
     \<Rightarrow> nat \<Rightarrow> nat \<Rightarrow> 's \<Rightarrow> 's option" where
  "prp_loop pv mem copy prp1 prp2 i listed pos remaining s =
     (if remaining = 0 then Some s
      else do {
        (paddr, listed) \<leftarrow> prp_addr pv (mem s) prp1 prp2 i listed remaining;
        let n = prp_io_size paddr remaining;
        s \<leftarrow> copy (prp_target pv paddr) n pos s;
        prp_loop pv mem copy prp1 prp2 (i + 1) listed (pos + n) (remaining - n) s
      })"
  by pat_completeness auto
termination
  by (relation "measure (\<lambda>(_, _, _, _, _, _, _, _, remaining, _). remaining)")
    (simp_all add: prp_io_size_bounds(1))

declare prp_loop.simps [simp del]

definition prp_transfer ::
  "(u64 \<Rightarrow> bool) \<Rightarrow> ('s \<Rightarrow> host_mem) \<Rightarrow> (u64 \<Rightarrow> nat \<Rightarrow> nat \<Rightarrow> 's \<Rightarrow> 's option) \<Rightarrow> u64 \<Rightarrow> u64 \<Rightarrow> nat \<Rightarrow> 's \<Rightarrow> 's option" where
  "prp_transfer pv mem copy prp1 prp2 len s = prp_loop pv mem copy prp1 prp2 0 False 0 len s"

text \<open>The copies: from host memory to storage at \<open>base\<close>, back, and to or from a buffer of bytes.\<close>

definition to_storage :: "nat \<Rightarrow> u64 \<Rightarrow> nat \<Rightarrow> nat \<Rightarrow> host_mem \<times> storage \<Rightarrow> (host_mem \<times> storage) option" where
  "to_storage base a n pos s =
     (let (m, st) = s in map_option (\<lambda>st. (m, st)) (write_storage st (base + pos) (read_host m a n)))"

definition to_host :: "nat \<Rightarrow> u64 \<Rightarrow> nat \<Rightarrow> nat \<Rightarrow> host_mem \<times> storage \<Rightarrow> (host_mem \<times> storage) option" where
  "to_host base a n pos s =
     (let (m, st) = s in map_option (\<lambda>bs. (write_host m a bs, st)) (read_storage st (base + pos) n))"

subsection \<open>The pages of a transfer\<close>

text \<open>The same loop over unchanging memory, as the list of its pieces.\<close>

function prp_segs :: "(u64 \<Rightarrow> bool) \<Rightarrow> host_mem \<Rightarrow> u64 \<Rightarrow> u64 \<Rightarrow> nat \<Rightarrow> bool \<Rightarrow> nat \<Rightarrow> (u64 \<times> nat) list option" where
  "prp_segs pv m prp1 prp2 i listed remaining =
     (if remaining = 0 then Some []
      else do {
        (paddr, listed) \<leftarrow> prp_addr pv m prp1 prp2 i listed remaining;
        let n = prp_io_size paddr remaining;
        rest \<leftarrow> prp_segs pv m prp1 prp2 (i + 1) listed (remaining - n);
        Some ((prp_target pv paddr, n) # rest)
      })"
  by pat_completeness auto
termination
  by (relation "measure (\<lambda>(_, _, _, _, _, _, remaining). remaining)") (simp_all add: prp_io_size_bounds(1))

declare prp_segs.simps [simp del]

definition total :: "(u64 \<times> nat) list \<Rightarrow> nat" where
  "total segs = sum_list (map snd segs)"

lemma total_simps [simp]: "total [] = 0" "total (x # xs) = snd x + total xs"
  by (simp_all add: total_def)

lemma prp_segs_total: "prp_segs pv m prp1 prp2 i listed r = Some segs \<Longrightarrow> total segs = r"
proof (induction pv m prp1 prp2 i listed r arbitrary: segs rule: prp_segs.induct)
  case (1 pv m prp1 prp2 i listed r)
  show ?case
  proof (cases "r = 0")
    case True
    then show ?thesis using 1(2) by (simp add: prp_segs.simps)
  next
    case False
    then obtain p l rest where p: "prp_addr pv m prp1 prp2 i listed r = Some (p, l)"
      and rest: "prp_segs pv m prp1 prp2 (i + 1) l (r - prp_io_size p r) = Some rest"
      and segs: "segs = (prp_target pv p, prp_io_size p r) # rest"
      using 1(2) by (subst (asm) prp_segs.simps) (auto simp: bind_Some_iff Let_def split: if_splits)
    have "total rest = r - prp_io_size p r" using 1(1) [OF False p refl refl rest] .
    then show ?thesis using segs prp_io_size_bounds(2) [of p r] by simp
  qed
qed

subsection \<open>What a transfer moves\<close>

definition gather :: "host_mem \<Rightarrow> (u64 \<times> nat) list \<Rightarrow> u8 list" where
  "gather m segs = concat (map (\<lambda>(a, n). read_host m a n) segs)"

lemma gather_simps [simp]: "gather m [] = []" "gather m ((a, n) # xs) = read_host m a n @ gather m xs"
  by (simp_all add: gather_def)

lemma length_read_host [simp]: "length (read_host m a n) = n"
  by (simp add: read_host_def)

lemma length_gather [simp]: "length (gather m segs) = total segs"
  by (induction segs) auto

text \<open>One round of the loop.\<close>

lemma prp_round:
  assumes "0 < r" "prp_segs pv m prp1 prp2 i listed r = Some segs"
  obtains p l rest where "prp_addr pv m prp1 prp2 i listed r = Some (p, l)"
    "prp_segs pv m prp1 prp2 (i + 1) l (r - prp_io_size p r) = Some rest"
    "segs = (prp_target pv p, prp_io_size p r) # rest"
  using assms by (subst (asm) prp_segs.simps) (auto simp: bind_Some_iff Let_def split: if_splits)

lemma prp_round_None:
  assumes "0 < r" "prp_segs pv m prp1 prp2 i listed r = None"
  shows "prp_addr pv m prp1 prp2 i listed r = None \<or> (\<exists>p l. prp_addr pv m prp1 prp2 i listed r = Some (p, l) \<and>
    prp_segs pv m prp1 prp2 (i + 1) l (r - prp_io_size p r) = None)"
  using assms by (subst (asm) prp_segs.simps) (auto simp: Let_def split: if_splits bind_splits)

definition stored :: "storage \<Rightarrow> nat \<Rightarrow> u8 list \<Rightarrow> storage \<Rightarrow> bool" where
  "stored st off bs st' \<longleftrightarrow> st_size st' = st_size st \<and>
     (\<forall>j. st_bytes st' j = (if off \<le> j \<and> j < off + length bs then bs ! (j - off) else st_bytes st j))"

lemma stored_nil [simp]: "stored st off [] st"
  by (auto simp: stored_def)

lemma stored_append:
  assumes "stored st off xs st1" "stored st1 (off + length xs) ys st2"
  shows "stored st off (xs @ ys) st2"
  using assms by (auto simp: stored_def nth_append)

lemma write_storage_stored: "off + length bs \<le> st_size st \<Longrightarrow> \<exists>st'. write_storage st off bs = Some st' \<and> stored st off bs st'"
  by (simp add: write_storage_def stored_def)

lemma store_loop:
  "prp_segs pv m prp1 prp2 i listed r = Some segs \<Longrightarrow> base + pos + r \<le> st_size st \<Longrightarrow>
    \<exists>st'. prp_loop pv fst (to_storage base) prp1 prp2 i listed pos r (m, st) = Some (m, st') \<and>
      stored st (base + pos) (gather m segs) st'"
proof (induction pv m prp1 prp2 i listed r arbitrary: segs pos st rule: prp_segs.induct)
  case (1 pv m prp1 prp2 i listed r)
  show ?case
  proof (cases "r = 0")
    case True
    then show ?thesis using 1(2) by (simp add: prp_segs.simps [of _ _ _ _ _ _ 0] prp_loop.simps [of _ _ _ _ _ _ _ _ 0])
  next
    case False
    then obtain p l rest where p: "prp_addr pv m prp1 prp2 i listed r = Some (p, l)"
      and rest: "prp_segs pv m prp1 prp2 (i + 1) l (r - prp_io_size p r) = Some rest"
      and segs: "segs = (prp_target pv p, prp_io_size p r) # rest"
      using prp_round [OF _ 1(2)] by blast
    let ?n = "prp_io_size p r" and ?bs = "read_host m (prp_target pv p) (prp_io_size p r)"
    have n: "?n \<le> r" by (rule prp_io_size_bounds(2))
    obtain st1 where st1: "write_storage st (base + pos) ?bs = Some st1" "stored st (base + pos) ?bs st1"
      using write_storage_stored [of "base + pos" ?bs st] 1(3) n by auto
    have "base + (pos + ?n) + (r - ?n) \<le> st_size st1" using 1(3) n st1(2) by (simp add: stored_def)
    from 1(1) [OF False p refl refl rest this] obtain st2
      where st2: "prp_loop pv fst (to_storage base) prp1 prp2 (i + 1) l (pos + ?n) (r - ?n) (m, st1) = Some (m, st2)"
        "stored st1 (base + (pos + ?n)) (gather m rest) st2" by blast
    have "prp_loop pv fst (to_storage base) prp1 prp2 i listed pos r (m, st) = Some (m, st2)"
      using False by (subst prp_loop.simps) (simp add: p Let_def to_storage_def st1(1) st2(1) [simplified])
    moreover have "stored st (base + pos) (gather m segs) st2"
      using stored_append [OF st1(2)] st2(2) by (simp add: segs add.assoc)
    ultimately show ?thesis by blast
  qed
qed

text \<open>A transfer that would leave the storage area, or follow a list that is not there, faults.\<close>

lemma store_loop_None:
  "0 < r \<Longrightarrow> prp_segs pv m prp1 prp2 i listed r = None \<or> st_size st < base + pos + r \<Longrightarrow>
    prp_loop pv fst (to_storage base) prp1 prp2 i listed pos r (m, st) = None"
proof (induction pv m prp1 prp2 i listed r arbitrary: pos st rule: prp_segs.induct)
  case (1 pv m prp1 prp2 i listed r)
  show ?case
  proof (cases "prp_addr pv m prp1 prp2 i listed r")
    case None
    then show ?thesis using 1(2) by (subst prp_loop.simps) simp
  next
    case (Some pl)
    obtain p l where p: "prp_addr pv m prp1 prp2 i listed r = Some (p, l)" using Some by (cases pl) simp
    let ?n = "prp_io_size p r" and ?bs = "read_host m (prp_target pv p) (prp_io_size p r)"
    have n: "0 < ?n" "?n \<le> r" using prp_io_size_bounds 1(2) by simp_all
    show ?thesis
    proof (cases "write_storage st (base + pos) ?bs")
      case None
      then show ?thesis using 1(2) by (subst prp_loop.simps) (simp add: p Let_def to_storage_def)
    next
      case (Some st1)
      have fits: "base + pos + ?n \<le> st_size st" "st_size st1 = st_size st"
        using Some by (auto simp: write_storage_def split: if_splits)
      have no: "prp_segs pv m prp1 prp2 (i + 1) l (r - ?n) = None \<or> st_size st < base + (pos + ?n) + (r - ?n)"
        using 1(2,3) p n by (subst (asm) prp_segs.simps) (auto simp: Let_def split: bind_splits)
      have "0 < r - ?n"
      proof (rule ccontr)
        assume "\<not> ?thesis"
        then have "r = ?n" using n by simp
        then show False using no fits by (simp add: prp_segs.simps [of _ _ _ _ _ _ 0])
      qed
      then have "prp_loop pv fst (to_storage base) prp1 prp2 (i + 1) l (pos + ?n) (r - ?n) (m, st1) = None"
        using 1(1) [OF _ p refl refl] no fits(2) 1(2) by simp
      then show ?thesis using 1(2) by (subst prp_loop.simps) (simp add: p Let_def to_storage_def Some)
    qed
  qed
qed

subsection \<open>Transfers to the host\<close>

definition seg_addrs :: "u64 \<Rightarrow> nat \<Rightarrow> u64 set" where
  "seg_addrs a n = (\<lambda>j. a + of_nat j) ` {..<n}"

text \<open>The bytes that the list is read from.\<close>

definition list_addrs :: "(u64 \<Rightarrow> bool) \<Rightarrow> u64 \<Rightarrow> u64 set" where
  "list_addrs pv p = seg_addrs (if pv p then p - of_nat (page_off p) else p) 4096"

fun apart :: "(u64 \<times> nat) list \<Rightarrow> u64 set \<Rightarrow> bool" where
  "apart [] S \<longleftrightarrow> True"
| "apart ((a, n) # xs) S \<longleftrightarrow> seg_addrs a n \<inter> S = {} \<and> (\<forall>(b, k) \<in> set xs. seg_addrs a n \<inter> seg_addrs b k = {}) \<and> apart xs S"

lemma seg_addrs_unat: "n \<le> 2 ^ 64 \<Longrightarrow> x \<in> seg_addrs a n \<longleftrightarrow> unat (x - a) < n"
proof
  assume n: "n \<le> 2 ^ 64" and "x \<in> seg_addrs a n"
  then obtain j where j: "j < n" "x = a + of_nat j" by (auto simp: seg_addrs_def)
  then have "unat (x - a) = j" using n by (simp add: unat_of_nat_small)
  then show "unat (x - a) < n" using j(1) by simp
next
  assume "unat (x - a) < n"
  then show "x \<in> seg_addrs a n" unfolding seg_addrs_def by (intro image_eqI [of _ _ "unat (x - a)"]) simp_all
qed

lemma write_host_other: "x \<notin> seg_addrs a (length bs) \<Longrightarrow> length bs \<le> 2 ^ 64 \<Longrightarrow> write_host m a bs x = m x"
  by (simp add: write_host_def seg_addrs_unat)

lemma read_write_host: "length bs \<le> 2 ^ 64 \<Longrightarrow> read_host (write_host m a bs) a (length bs) = bs"
  by (rule nth_equalityI) (simp_all add: read_host_def write_host_def unat_of_nat_small)

lemma read_host_cong: "(\<And>x. x \<in> seg_addrs a n \<Longrightarrow> m' x = m x) \<Longrightarrow> read_host m' a n = read_host m a n"
  by (simp add: read_host_def seg_addrs_def)

lemma gather_cong:
  "\<forall>(a, n) \<in> set segs. \<forall>x \<in> seg_addrs a n. m' x = m x \<Longrightarrow> gather m' segs = gather m segs"
proof (induction segs)
  case (Cons s segs)
  obtain a n where s: "s = (a, n)" by (cases s)
  have "read_host m' a n = read_host m a n" using Cons.prems s by (intro read_host_cong) auto
  moreover have "gather m' segs = gather m segs" using Cons by simp
  ultimately show ?case by (simp add: s)
qed simp

lemma prp_list_entry_cong:
  assumes "\<And>x. x \<in> list_addrs pv p \<Longrightarrow> m' x = m x"
  shows "prp_list_entry pv m' p i = prp_list_entry pv m p i"
proof -
  let ?b = "if pv p then p - of_nat (page_off p) else p" and ?o = "if pv p then page_off p + 8 * i else 8 * page_off p + 8 * i"
  have "le64_at m' (?b + of_nat ?o) = le64_at m (?b + of_nat ?o)" if "?o + 8 \<le> 4096"
  proof -
    have "m' x = m x" if x: "x \<in> seg_addrs (?b + of_nat ?o) 8" for x
    proof -
      obtain j where "j < 8" "x = ?b + of_nat (?o + j)" using x by (auto simp: seg_addrs_def add.assoc)
      then have "x \<in> list_addrs pv p" using \<open>?o + 8 \<le> 4096\<close> unfolding list_addrs_def seg_addrs_def
        by (intro image_eqI [of _ _ "?o + j"]) simp_all
      then show ?thesis by (rule assms)
    qed
    then show ?thesis unfolding le64_at_def using read_host_cong [of "?b + of_nat ?o" 8 m' m] by simp
  qed
  then show ?thesis by (simp add: prp_list_entry_def Let_def)
qed

lemma prp_addr_cong:
  assumes "\<And>x. x \<in> list_addrs pv prp2 \<Longrightarrow> m' x = m x"
  shows "prp_addr pv m' prp1 prp2 i l r = prp_addr pv m prp1 prp2 i l r"
proof -
  have "prp_list_entry pv m' prp2 j = prp_list_entry pv m prp2 j" for j
    by (rule prp_list_entry_cong) (rule assms)
  then show ?thesis by (simp add: prp_addr_def)
qed

lemma prp_segs_cong:
  assumes "\<And>x. x \<in> list_addrs pv prp2 \<Longrightarrow> m' x = m x"
  shows "prp_segs pv m' prp1 prp2 i l r = prp_segs pv m prp1 prp2 i l r"
  using assms
proof (induction pv m prp1 prp2 i l r rule: prp_segs.induct)
  case (1 pv m prp1 prp2 i l r)
  note a = prp_addr_cong [OF 1(2), where ?prp1.0 = prp1 and i = i and l = l and r = r]
  show ?case
  proof (cases "r = 0")
    case True
    then show ?thesis by (simp add: prp_segs.simps [of _ _ _ _ _ _ 0])
  next
    case False
    show ?thesis
    proof (cases "prp_addr pv m prp1 prp2 i l r")
      case None
      then show ?thesis using False a by (subst (1 2) prp_segs.simps) simp
    next
      case (Some pl)
      obtain p k where p: "prp_addr pv m prp1 prp2 i l r = Some (p, k)" using Some by (cases pl) simp
      have "prp_segs pv m' prp1 prp2 (i + 1) k (r - prp_io_size p r) = prp_segs pv m prp1 prp2 (i + 1) k (r - prp_io_size p r)"
        using 1(1) [OF False p refl refl] 1(2) by blast
      then show ?thesis using False a p by (subst (1 2) prp_segs.simps) (simp add: Let_def)
    qed
  qed
qed

text \<open>
  When the pages of the transfer do not overlap one another or the list, reading from storage
  leaves the bytes in them and the rest of host memory as it was.
\<close>

lemma retrieve_loop:
  "prp_segs pv m prp1 prp2 i listed r = Some segs \<Longrightarrow> base + pos + r \<le> st_size st \<Longrightarrow> apart segs (list_addrs pv prp2) \<Longrightarrow>
    \<exists>m'. prp_loop pv fst (to_host base) prp1 prp2 i listed pos r (m, st) = Some (m', st) \<and>
      gather m' segs = map (\<lambda>j. st_bytes st (base + pos + j)) [0..<r] \<and>
      (\<forall>x. (\<forall>(a, n) \<in> set segs. x \<notin> seg_addrs a n) \<longrightarrow> m' x = m x)"
proof (induction r arbitrary: i listed segs pos m rule: less_induct)
  case (less r)
  show ?case
  proof (cases "r = 0")
    case True
    then show ?thesis using less(2)
      by (simp add: prp_segs.simps [of _ _ _ _ _ _ 0] prp_loop.simps [of _ _ _ _ _ _ _ _ 0])
  next
    case False
    then obtain p l rest where p: "prp_addr pv m prp1 prp2 i listed r = Some (p, l)"
      and rest: "prp_segs pv m prp1 prp2 (i + 1) l (r - prp_io_size p r) = Some rest"
      and segs: "segs = (prp_target pv p, prp_io_size p r) # rest"
      using prp_round [OF _ less(2)] by blast
    let ?a = "prp_target pv p" and ?n = "prp_io_size p r"
    define bs where "bs = map (\<lambda>j. st_bytes st (base + pos + j)) [0..<?n]"
    define m1 where "m1 = write_host m ?a bs"
    have n: "?n \<le> r" "0 < ?n" "?n \<le> 4096" using prp_io_size_bounds [where remaining = r and p = p] False by simp_all
    have len: "length bs = ?n" "length bs \<le> 2 ^ 64" using n(3) by (simp_all add: bs_def)
    have ap: "seg_addrs ?a ?n \<inter> list_addrs pv prp2 = {}" "apart rest (list_addrs pv prp2)"
      "\<forall>(b, k) \<in> set rest. seg_addrs ?a ?n \<inter> seg_addrs b k = {}"
      using less(4) by (simp_all add: segs)
    have other: "m1 x = m x" if "x \<notin> seg_addrs ?a ?n" for x
      using that len by (simp add: m1_def write_host_other)
    have "prp_segs pv m1 prp1 prp2 (i + 1) l (r - ?n) = Some rest"
    proof -
      have "m1 x = m x" if "x \<in> list_addrs pv prp2" for x using other ap(1) that by blast
      then show ?thesis using prp_segs_cong [of pv prp2 m1 m] rest by simp
    qed
    moreover have "base + (pos + ?n) + (r - ?n) \<le> st_size st" using less(3) n by simp
    moreover have "r - ?n < r" using n by simp
    ultimately obtain m' where m': "prp_loop pv fst (to_host base) prp1 prp2 (i + 1) l (pos + ?n) (r - ?n) (m1, st) = Some (m', st)"
        "gather m' rest = map (\<lambda>j. st_bytes st (base + (pos + ?n) + j)) [0..<r - ?n]"
        "\<forall>x. (\<forall>(a, n) \<in> set rest. x \<notin> seg_addrs a n) \<longrightarrow> m' x = m1 x"
      using less(1) ap(2) by blast
    have "read_storage st (base + pos) ?n = Some bs" using less(3) n by (simp add: read_storage_def bs_def)
    then have "prp_loop pv fst (to_host base) prp1 prp2 i listed pos r (m, st) = Some (m', st)"
      using False by (subst prp_loop.simps) (simp add: p Let_def to_host_def m'(1) [simplified] flip: m1_def)
    moreover have "read_host m' ?a ?n = bs"
    proof -
      have "m' x = m1 x" if "x \<in> seg_addrs ?a ?n" for x using m'(3) ap(3) that by blast
      then have "read_host m' ?a ?n = read_host m1 ?a ?n" by (rule read_host_cong)
      then show ?thesis using read_write_host [OF len(2), of m ?a] by (simp add: m1_def len(1))
    qed
    moreover have "bs @ map (\<lambda>j. st_bytes st (base + (pos + ?n) + j)) [0..<r - ?n] = map (\<lambda>j. st_bytes st (base + pos + j)) [0..<r]"
    proof -
      have "[0..<r] = [0..<?n] @ [?n..<r]" using n(1) upt_add_eq_append [of 0 ?n "r - ?n"] by simp
      moreover have "[?n..<r] = map (\<lambda>j. ?n + j) [0..<r - ?n]" using n(1) by (simp add: map_add_upt add.commute)
      ultimately show ?thesis by (simp add: bs_def add.assoc o_def)
    qed
    moreover have "m' x = m x" if "\<forall>(a, n) \<in> set segs. x \<notin> seg_addrs a n" for x
      using that m'(3) other by (simp add: segs)
    ultimately show ?thesis using m'(2) by (simp add: segs)
  qed
qed

end
