(* ===== verification/Kv_Cmd.thy ===== *)
theory Kv_Cmd
  imports Kv_Map Prp Io_Units
begin

text \<open>
  The commands of the key-value namespace (\<open>kv_ftl.c\<close>): store, retrieve, exist, delete, the
  batch of stores, and the iterators; their schedule, and the initialisation.
\<close>

subsection \<open>Commands and state\<close>

text \<open>
  The 64 bytes of a command, read through overlapping structures: \<open>kv_key_len\<close> is also the
  iterator handle, the first eight key bytes are also the iterator's value and bit mask.
\<close>

record nvme_kv_command =
  kv_opcode :: u8
  kv_prp1 :: u64
  kv_prp2 :: u64
  kv_value_len :: u32
  kv_key_len :: u8
  kv_option :: u8
  kv_rsvd4 :: u8
  kv_key :: "u8 list"

definition le32 :: "u8 list \<Rightarrow> u32" where
  "le32 bs = foldr (\<lambda>b w. ucast b + 256 * w) bs 0"

definition le32_bytes :: "u32 \<Rightarrow> u8 list" where
  "le32_bytes w = map (\<lambda>i. ucast (drop_bit (8 * i) w)) [0..<4]"

definition iter_val :: "nvme_kv_command \<Rightarrow> u32" where "iter_val cmd = le32 (take 4 (kv_key cmd))"

definition iter_bitmask :: "nvme_kv_command \<Rightarrow> u32" where "iter_bitmask cmd = le32 (take 4 (drop 4 (kv_key cmd)))"

text \<open>What is kept of an iterator between two reads; its buffer is filled anew by each.\<close>

record kv_iter_context =
  it_prefix :: u32
  it_bitmask :: u32
  it_current_pos :: nat

record kv_ftl =
  kv_mapping_table :: kv_table
  hash_slots :: u64
  kv_allocator :: allocator
  iter_handle :: "kv_iter_context option list"

record kv_state =
  kvs_ftl :: kv_ftl
  kvs_mem :: host_mem
  kvs_storage :: storage

definition nvme_cmd_kv_append :: u8 where [cdefs]: "nvme_cmd_kv_append = 0x83"
definition nvme_cmd_kv_delete :: u8 where [cdefs]: "nvme_cmd_kv_delete = 0xA1"
definition nvme_cmd_kv_iter_req :: u8 where [cdefs]: "nvme_cmd_kv_iter_req = 0xB1"
definition nvme_cmd_kv_iter_read :: u8 where [cdefs]: "nvme_cmd_kv_iter_read = 0xB2"
definition nvme_cmd_kv_exist :: u8 where [cdefs]: "nvme_cmd_kv_exist = 0xB3"

definition KV_ERR_KEY_NOT_EXIST :: u32 where [cdefs]: "KV_ERR_KEY_NOT_EXIST = 0x310"
definition ITER_OPTION_OPEN :: u8 where [cdefs]: "ITER_OPTION_OPEN = 1"
definition ITER_OPTION_CLOSE :: u8 where [cdefs]: "ITER_OPTION_CLOSE = 2"

definition is_kv_cmd :: "u8 \<Rightarrow> bool" where
  "is_kv_cmd opcode \<longleftrightarrow> opcode \<in> {nvme_cmd_kv_append, nvme_cmd_kv_store, nvme_cmd_kv_retrieve, nvme_cmd_kv_delete,
     nvme_cmd_kv_iter_req, nvme_cmd_kv_iter_read, nvme_cmd_kv_exist, nvme_cmd_kv_batch}"

definition cmd_key_length :: "nvme_kv_command \<Rightarrow> nat" where
  "cmd_key_length cmd = unat (kv_key_len cmd) + 1"

definition cmd_value_length :: "nvme_kv_command \<Rightarrow> u32" where
  "cmd_value_length cmd = push_bit 2 (kv_value_len cmd)"

text \<open>The key of a command; a length of more than its 16 bytes reads past the command.\<close>

definition cmd_key :: "nvme_kv_command \<Rightarrow> u8 list option" where
  "cmd_key cmd = (if cmd_key_length cmd \<le> length (kv_key cmd) then Some (take (cmd_key_length cmd) (kv_key cmd)) else None)"

subsection \<open>Mapping entries of a command\<close>

definition get_mapping_entry :: "kv_ftl \<Rightarrow> nvme_kv_command \<Rightarrow> mapping_entry option" where
  "get_mapping_entry f cmd = do {
     key \<leftarrow> cmd_key cmd;
     get_mapping_entry_by_key (hash_slots f) (kv_mapping_table f) key
   }"

definition new_mapping_entry :: "nat \<Rightarrow> kv_ftl \<Rightarrow> nvme_kv_command \<Rightarrow> u64 \<Rightarrow> kv_ftl option" where
  "new_mapping_entry storage_sz f cmd val_offset = do {
     key \<leftarrow> cmd_key cmd;
     t \<leftarrow> new_mapping_entry_by_key (of_nat storage_sz) (hash_slots f) (kv_mapping_table f) key
            (ucast (cmd_value_length cmd)) val_offset;
     Some (f\<lparr>kv_mapping_table := t\<rparr>)
   }"

definition update_mapping_entry :: "kv_ftl \<Rightarrow> nvme_kv_command \<Rightarrow> (kv_ftl \<times> u32) option" where
  "update_mapping_entry f cmd = do {
     key \<leftarrow> cmd_key cmd;
     (t, r) \<leftarrow> update_mapping_entry_by_key (hash_slots f) (kv_mapping_table f) key (ucast (cmd_value_length cmd));
     Some (f\<lparr>kv_mapping_table := t\<rparr>, r)
   }"

definition delete_mapping_entry :: "kv_ftl \<Rightarrow> nvme_kv_command \<Rightarrow> kv_ftl option" where
  "delete_mapping_entry f cmd = do {
     key \<leftarrow> cmd_key cmd;
     t \<leftarrow> delete_mapping_entry_by_key (hash_slots f) (kv_mapping_table f) key;
     Some (f\<lparr>kv_mapping_table := t\<rparr>)
   }"

text \<open>An allocation that fails with all ones gives offset 0.\<close>

definition allocate_mem_offset_by_length :: "find_zero \<Rightarrow> kv_ftl \<Rightarrow> u64 \<Rightarrow> (kv_ftl \<times> u64) option" where
  "allocate_mem_offset_by_length fz f len = do {
     (a, off) \<leftarrow> allocate fz len (kv_allocator f);
     Some (f\<lparr>kv_allocator := a\<rparr>, if off = - 1 then 0 else off)
   }"

definition allocate_mem_offset :: "find_zero \<Rightarrow> kv_ftl \<Rightarrow> nvme_kv_command \<Rightarrow> (kv_ftl \<times> u64) option" where
  "allocate_mem_offset fz f cmd =
     (if kv_opcode cmd = nvme_cmd_kv_store
      then allocate_mem_offset_by_length fz f (ucast (cmd_value_length cmd)) else Some (f, 0))"

subsection \<open>Store, retrieve, exist, delete\<close>

text \<open>The pages of the value; the kernel has page structures for all of host memory here.\<close>

definition kv_transfer ::
  "(u64 \<Rightarrow> nat \<Rightarrow> nat \<Rightarrow> 's \<Rightarrow> 's option) \<Rightarrow> ('s \<Rightarrow> host_mem) \<Rightarrow> nvme_kv_command \<Rightarrow> nat \<Rightarrow> 's \<Rightarrow> 's option" where
  "kv_transfer copy mem cmd len s = prp_transfer (\<lambda>_. True) mem copy (kv_prp1 cmd) (kv_prp2 cmd) len s"

text \<open>A store: where the value goes, and whether the mapping is made (1), updated (2) or kept (0).\<close>

definition store_place :: "find_zero \<Rightarrow> kv_ftl \<Rightarrow> nvme_kv_command \<Rightarrow> mapping_entry \<Rightarrow> (kv_ftl \<times> u64 \<times> nat) option" where
  "store_place fz f cmd e =
     (if mem_offset e = - 1 then do {
        (f, off) \<leftarrow> allocate_mem_offset fz f cmd;
        Some (f, off, 1)
      }
      else let len = ucast (cmd_value_length cmd) in
        Some (f, mem_offset e,
              if len \<noteq> me_length e \<and> len \<le> SMALL_LENGTH \<and> me_length e \<le> SMALL_LENGTH then 2 else 0))"

definition kv_store :: "find_zero \<Rightarrow> kv_state \<Rightarrow> nvme_kv_command \<Rightarrow> mapping_entry \<Rightarrow> kv_state option" where
  "kv_store fz s cmd e = do {
     (f, off, is_insert) \<leftarrow> store_place fz (kvs_ftl s) cmd e;
     (m, st) \<leftarrow> kv_transfer (to_storage (unat off)) fst cmd (unat (cmd_value_length cmd)) (kvs_mem s, kvs_storage s);
     f \<leftarrow> (if is_insert = 1 then new_mapping_entry (st_size st) f cmd off
           else if is_insert = 2 then map_option fst (update_mapping_entry f cmd)
           else Some f);
     Some (s\<lparr>kvs_ftl := f, kvs_mem := m, kvs_storage := st\<rparr>)
   }"

definition kv_retrieve :: "kv_state \<Rightarrow> nvme_kv_command \<Rightarrow> mapping_entry \<Rightarrow> (kv_state \<times> u32) option" where
  "kv_retrieve s cmd e = do {
     let len = min (me_length e) (ucast (cmd_value_length cmd));
     (m, st) \<leftarrow> kv_transfer (to_host (unat (mem_offset e))) fst cmd (unat len) (kvs_mem s, kvs_storage s);
     Some (s\<lparr>kvs_mem := m, kvs_storage := st\<rparr>, ucast len)
   }"

text \<open>The results are the state, the status and the value of the completion.\<close>

definition do_perform_kv_io :: "find_zero \<Rightarrow> kv_state \<Rightarrow> nvme_kv_command \<Rightarrow> u32 \<Rightarrow> (kv_state \<times> u32 \<times> u32) option" where
  "do_perform_kv_io fz s cmd status = do {
     e \<leftarrow> get_mapping_entry (kvs_ftl s) cmd;
     let absent = (mem_offset e = - 1);
     if kv_opcode cmd = nvme_cmd_kv_store then do {
       s \<leftarrow> kv_store fz s cmd e;
       Some (s, status, 0)
     }
     else if kv_opcode cmd = nvme_cmd_kv_retrieve then
       if absent then Some (s, KV_ERR_KEY_NOT_EXIST, 0)
       else do { (s, r) \<leftarrow> kv_retrieve s cmd e; Some (s, status, r) }
     else if kv_opcode cmd = nvme_cmd_kv_exist then
       Some (s, if absent then KV_ERR_KEY_NOT_EXIST else status, 0)
     else if kv_opcode cmd = nvme_cmd_kv_delete then
       if absent then Some (s, KV_ERR_KEY_NOT_EXIST, 0)
       else do {
         f \<leftarrow> delete_mapping_entry (kvs_ftl s) cmd;
         Some (s\<lparr>kvs_ftl := f\<rparr>, status, 0)
       }
     else Some (s, status, 0)
   }"

subsection \<open>Batches\<close>

text \<open>One store of a batch. A value of another length keeps the old mapping.\<close>

definition do_perform_kv_batched_io ::
  "find_zero \<Rightarrow> kv_ftl \<times> storage \<Rightarrow> u8 \<Rightarrow> u8 list \<Rightarrow> u8 list \<Rightarrow> (kv_ftl \<times> storage) option" where
  "do_perform_kv_batched_io fz s opcode key val = do {
     let (f, st) = s;
     e \<leftarrow> get_mapping_entry_by_key (hash_slots f) (kv_mapping_table f) key;
     if opcode = nvme_cmd_kv_store then
       if mem_offset e = - 1 then do {
         (f, off) \<leftarrow> allocate_mem_offset_by_length fz f (of_nat (length val));
         st \<leftarrow> write_storage st (unat off) val;
         t \<leftarrow> new_mapping_entry_by_key (of_nat (st_size st)) (hash_slots f) (kv_mapping_table f) key (of_nat (length val)) off;
         Some (f\<lparr>kv_mapping_table := t\<rparr>, st)
       }
       else do {
         st \<leftarrow> write_storage st (unat (mem_offset e)) val;
         Some (f, st)
       }
     else Some (f, st)
   }"

definition ALIGN_LEN :: nat where [cdefs]: "ALIGN_LEN = 64"

text \<open>\<open>((n - 1) / ALIGN_LEN + 1) * ALIGN_LEN\<close> in signed integers.\<close>

definition align_len :: "nat \<Rightarrow> nat" where
  "align_len n = ((n - 1) div ALIGN_LEN + 1) * ALIGN_LEN"

text \<open>
  Command \<open>i\<close> of the payload: eight attributes of 16 bytes, and from byte 512 the keys and values,
  each aligned to 64 bytes. The key goes to an array of 20 bytes, the value to one of 4097.
\<close>

definition buffer_read :: "u8 list \<Rightarrow> nat \<Rightarrow> nat \<Rightarrow> u8 list option" where
  "buffer_read buf off n = (if off + n \<le> length buf then Some (take n (drop off buf)) else None)"

definition batch_step ::
  "find_zero \<Rightarrow> u8 list \<Rightarrow> nat \<Rightarrow> (kv_ftl \<times> storage) \<times> nat \<Rightarrow> ((kv_ftl \<times> storage) \<times> nat) option" where
  "batch_step fz buf i x = do {
     let (s, off) = x;
     NVMEV_ASSERT (i < 8);
     attr \<leftarrow> buffer_read buf (16 * i) 16;
     let key_len = unat (attr ! 1);
     let val_len = unat (le32 (take 4 (drop 4 attr)));
     NVMEV_ASSERT (key_len \<le> 20 \<and> val_len \<le> 4097);
     key \<leftarrow> buffer_read buf (512 + off) key_len;
     val \<leftarrow> buffer_read buf (512 + off + align_len key_len) val_len;
     s \<leftarrow> do_perform_kv_batched_io fz s (attr ! 0) key val;
     Some (s, off + align_len key_len + align_len val_len + ALIGN_LEN)
   }"

definition to_buffer :: "u64 \<Rightarrow> nat \<Rightarrow> nat \<Rightarrow> host_mem \<times> u8 list \<Rightarrow> (host_mem \<times> u8 list) option" where
  "to_buffer a n pos s = Some (fst s, snd s @ read_host (fst s) a n)"

definition do_perform_kv_batch :: "find_zero \<Rightarrow> kv_state \<Rightarrow> nvme_kv_command \<Rightarrow> kv_state option" where
  "do_perform_kv_batch fz s cmd = do {
     (_, buf) \<leftarrow> kv_transfer to_buffer fst cmd (unat (cmd_value_length cmd)) (kvs_mem s, []);
     ((f, st), _) \<leftarrow> fold_opt (batch_step fz buf) [0..<unat (kv_rsvd4 cmd)] ((kvs_ftl s, kvs_storage s), ALIGN_LEN);
     Some (s\<lparr>kvs_ftl := f, kvs_storage := st\<rparr>)
   }"

subsection \<open>Iterators\<close>

text \<open>The first free handle from 1 to 16; without one, the command returns 1 and leaves the status.\<close>

definition kv_iter_open :: "kv_ftl \<Rightarrow> nvme_kv_command \<Rightarrow> u32 \<Rightarrow> (kv_ftl \<times> u32 \<times> u32) option" where
  "kv_iter_open f cmd status = (
     case filter (\<lambda>i. iter_handle f ! i = None) [1..<17] of
       [] \<Rightarrow> Some (f, status, 1)
     | iter # _ \<Rightarrow> Some (f\<lparr>iter_handle := (iter_handle f)[iter :=
           Some \<lparr>it_prefix = iter_val cmd, it_bitmask = iter_bitmask cmd, it_current_pos = 0\<rparr>]\<rparr>, 0, of_nat iter))"

definition kv_iter_close :: "kv_ftl \<Rightarrow> nvme_kv_command \<Rightarrow> (kv_ftl \<times> u32 \<times> u32) option" where
  "kv_iter_close f cmd = do {
     h \<leftarrow> wr (iter_handle f) (unat (kv_key_len cmd)) None;
     Some (f\<lparr>iter_handle := h\<rparr>, 0, 0)
   }"

text \<open>
  The scan of a read from slot \<open>pos\<close>: the bytes after the count, the number of keys, the slot
  reached and whether it is the end of the table. At most 1024 bytes are filled.
\<close>

function iter_scan ::
  "kv_table \<Rightarrow> nat \<Rightarrow> kv_iter_context \<Rightarrow> nat \<Rightarrow> u8 list \<Rightarrow> nat \<Rightarrow> (u8 list \<times> nat \<times> nat \<times> bool) option" where
  "iter_scan t slots h pos buf nr =
     (if slots \<le> pos then Some (buf, nr, pos, False)
      else do {
        e \<leftarrow> rd t pos;
        if mem_offset e \<noteq> - 1 \<and> le32 (take 4 (me_key e)) AND it_bitmask h = it_prefix h AND it_bitmask h then
          if 1024 < 4 + length buf + 4 + 16 then Some (buf, nr, pos, False)
          else let buf = buf @ le32_bytes 16 @ take 16 (me_key e) in
            if pos + 1 = slots then Some (buf, nr + 1, pos + 1, True)
            else iter_scan t slots h (pos + 1) buf (nr + 1)
        else if pos + 1 = slots then Some (buf, nr, pos + 1, True)
        else iter_scan t slots h (pos + 1) buf nr
      })"
  by pat_completeness auto
termination by (relation "measure (\<lambda>(_, slots, _, pos, _, _). slots - pos)") simp_all

declare iter_scan.simps [simp del]

definition from_buffer :: "u8 list \<Rightarrow> u64 \<Rightarrow> nat \<Rightarrow> nat \<Rightarrow> host_mem \<Rightarrow> host_mem option" where
  "from_buffer buf a n pos m = map_option (write_host m a) (buffer_read buf pos n)"

definition kv_iter_read :: "kv_state \<Rightarrow> nvme_kv_command \<Rightarrow> u32 \<Rightarrow> (kv_state \<times> u32 \<times> u32) option" where
  "kv_iter_read s cmd status = do {
     let f = kvs_ftl s;
     let iter = unat (kv_key_len cmd);
     handle \<leftarrow> rd (iter_handle f) iter;
     case handle of
       None \<Rightarrow> Some (s, status, 0)
     | Some h \<Rightarrow> do {
         (keys, nr_keys, pos, the_end) \<leftarrow>
           iter_scan (kv_mapping_table f) (unat (hash_slots f)) h (it_current_pos h) [] 0;
         let buf = le32_bytes (of_nat nr_keys) @ keys;
         m \<leftarrow> kv_transfer (from_buffer buf) (\<lambda>m. m) cmd (length buf) (kvs_mem s);
         let f = f\<lparr>iter_handle := (iter_handle f)[iter := Some (h\<lparr>it_current_pos := pos\<rparr>)]\<rparr>;
         Some (s\<lparr>kvs_ftl := f, kvs_mem := m\<rparr>, if the_end then 0x393 else 0, of_nat (length buf))
       }
   }"

definition do_perform_kv_iter_io :: "kv_state \<Rightarrow> nvme_kv_command \<Rightarrow> u32 \<Rightarrow> (kv_state \<times> u32 \<times> u32) option" where
  "do_perform_kv_iter_io s cmd status =
     (if kv_opcode cmd = nvme_cmd_kv_iter_req then
        if kv_option cmd AND ITER_OPTION_OPEN \<noteq> 0 then
          map_option (\<lambda>(f, r). (s\<lparr>kvs_ftl := f\<rparr>, r)) (kv_iter_open (kvs_ftl s) cmd status)
        else if kv_option cmd AND ITER_OPTION_CLOSE \<noteq> 0 then
          map_option (\<lambda>(f, r). (s\<lparr>kvs_ftl := f\<rparr>, r)) (kv_iter_close (kvs_ftl s) cmd)
        else Some (s, status, 0)
      else if kv_opcode cmd = nvme_cmd_kv_iter_read then kv_iter_read s cmd status
      else Some (s, status, 0))"

subsection \<open>Dispatch and schedule\<close>

definition kv_perform_nvme_io_cmd :: "find_zero \<Rightarrow> kv_state \<Rightarrow> nvme_kv_command \<Rightarrow> u32 \<Rightarrow> (kv_state \<times> u32 \<times> u32) option" where
  "kv_perform_nvme_io_cmd fz s cmd status =
     (if kv_opcode cmd = nvme_cmd_kv_batch then map_option (\<lambda>s. (s, status, 0)) (do_perform_kv_batch fz s cmd)
      else if kv_opcode cmd \<in> {nvme_cmd_kv_iter_req, nvme_cmd_kv_iter_read} then do_perform_kv_iter_io s cmd status
      else do_perform_kv_io fz s cmd status)"

definition kv_schedule_io_units ::
  "nvmev_config \<Rightarrow> u64 list \<Rightarrow> u8 \<Rightarrow> u64 \<Rightarrow> u32 \<Rightarrow> u64 \<Rightarrow> (u64 list \<times> u64) option" where
  "kv_schedule_io_units = schedule_io_units {nvme_cmd_write, nvme_cmd_kv_store, nvme_cmd_kv_batch}
     {nvme_cmd_read, nvme_cmd_kv_retrieve}"

definition kv_schedule_flush :: "nvmev_config \<Rightarrow> u64 list \<Rightarrow> u64 option" where
  "kv_schedule_flush = schedule_flush"

text \<open>A command of the block or of the key-value command set, as the dispatcher sees it.\<close>

datatype kv_request = Block_Command nvme_rw_command | Kv_Command nvme_kv_command

fun request_opcode :: "kv_request \<Rightarrow> u8" where
  "request_opcode (Block_Command c) = rw_opcode c"
| "request_opcode (Kv_Command c) = kv_opcode c"

definition kv_proc_nvme_io_cmd ::
  "nvmev_config \<Rightarrow> u64 list \<Rightarrow> u64 \<Rightarrow> kv_request \<Rightarrow> nvmev_result \<Rightarrow> (u64 list \<times> nvmev_result \<times> bool) option" where
  "kv_proc_nvme_io_cmd cfg stat now cmd ret = (
     case cmd of
       Block_Command c \<Rightarrow>
         if rw_opcode c \<in> {nvme_cmd_write, nvme_cmd_read} then do {
           (stat, t) \<leftarrow> kv_schedule_io_units cfg stat (rw_opcode c) (rw_slba c) (ucast (cmd_io_size c)) now;
           Some (stat, ret\<lparr>ret_nsecs_target := t\<rparr>, True)
         }
         else if rw_opcode c = nvme_cmd_flush then do {
           t \<leftarrow> kv_schedule_flush cfg stat;
           Some (stat, ret\<lparr>ret_nsecs_target := t\<rparr>, True)
         }
         else Some (stat, ret, True)
     | Kv_Command c \<Rightarrow>
         if kv_opcode c \<in> {nvme_cmd_kv_store, nvme_cmd_kv_retrieve, nvme_cmd_kv_batch} then do {
           (stat, t) \<leftarrow> kv_schedule_io_units cfg stat (kv_opcode c) 0 (cmd_value_length c) now;
           Some (stat, ret\<lparr>ret_nsecs_target := t\<rparr>, True)
         }
         else Some (stat, ret, True))"

definition kv_identify_nvme_io_cmd :: "kv_request \<Rightarrow> bool" where
  "kv_identify_nvme_io_cmd cmd = is_kv_cmd (request_opcode cmd)"

subsection \<open>Initialisation\<close>

text \<open>
  The build reserves 1 GB for the table. Handle 16 of the iterators is left as allocated. The
  allocator type is a constant of the build: 0 for the bitmaps, over their static state.
\<close>

definition KV_MAPPING_TABLE_SIZE :: u64 where [cdefs]: "KV_MAPPING_TABLE_SIZE = 0x40000000"
definition KV_MAPPING_ENTRY_SIZE :: u64 where [cdefs]: "KV_MAPPING_ENTRY_SIZE = 48"
definition ALLOCATOR_TYPE :: nat where [cdefs]: "ALLOCATOR_TYPE = 1"

definition empty_slot :: mapping_entry where
  "empty_slot = \<lparr>me_key = replicate 18 0, mem_offset = - 1, me_length = - 1, next_slot = - 1\<rparr>"

definition kv_init_namespace ::
  "u64 \<Rightarrow> nat \<Rightarrow> bitmap_alloc \<Rightarrow> kv_iter_context option \<Rightarrow> u64 \<Rightarrow> kv_ftl option" where
  "kv_init_namespace table_sz alloc_type statics junk storage_sz = do {
     a \<leftarrow> (if alloc_type = 0 then map_option Bitmap (bitmap_allocator_init storage_sz statics)
           else Some (Append_Only (append_only_allocator_init storage_sz)));
     let slots = table_sz div KV_MAPPING_ENTRY_SIZE;
     Some \<lparr>kv_mapping_table = replicate (unat slots) empty_slot, hash_slots = slots, kv_allocator = a,
           iter_handle = replicate 16 None @ [junk]\<rparr>
   }"

end
