(* ===== verification/Kv_Props.thy ===== *)
theory Kv_Props
  imports Kv_Table Kv_Cmd
begin

text \<open>The properties of the key-value namespace with the append-only allocator of the build.\<close>

subsection \<open>Stores and retrieves\<close>

text \<open>The offset and length of the value of a key, as the commands see it.\<close>

definition kv_get :: "kv_ftl \<Rightarrow> u8 list \<Rightarrow> (u64 \<times> u64) option" where
  "kv_get f = kv_lookup (hash_slots f) (kv_mapping_table f)"

definition kv_latest :: "kv_ftl \<Rightarrow> nat" where
  "kv_latest f = (case kv_allocator f of Append_Only a \<Rightarrow> unat (ao_latest a) | _ \<Rightarrow> 0)"

text \<open>Every value lies in the part of the storage that has been handed out.\<close>

definition kv_ok :: "kv_state \<Rightarrow> bool" where
  "kv_ok s \<longleftrightarrow> (let f = kvs_ftl s in table_ok (hash_slots f) (kv_mapping_table f) \<and> length (iter_handle f) = 17 \<and>
     (\<exists>a. kv_allocator f = Append_Only a) \<and> kv_latest f \<le> st_size (kvs_storage s) \<and> st_size (kvs_storage s) < 2 ^ 64 \<and>
     (\<forall>i < unat (hash_slots f). \<not> free_at (kv_mapping_table f) i \<longrightarrow>
        unat (mem_offset (kv_mapping_table f ! i)) + unat (me_length (kv_mapping_table f ! i)) \<le> kv_latest f))"

lemma kv_okD:
  assumes "kv_ok s"
  shows "table_ok (hash_slots (kvs_ftl s)) (kv_mapping_table (kvs_ftl s))" "length (iter_handle (kvs_ftl s)) = 17"
    "kv_latest (kvs_ftl s) \<le> st_size (kvs_storage s)" "st_size (kvs_storage s) < 2 ^ 64"
    "\<exists>a. kv_allocator (kvs_ftl s) = Append_Only a"
  using assms by (simp_all add: kv_ok_def Let_def)

lemma kv_get_bounds:
  assumes ok: "kv_ok s" and key: "length key \<le> 18" and g: "kv_get (kvs_ftl s) key = Some (off, len)"
  shows "unat off + unat len \<le> kv_latest (kvs_ftl s)" "off \<noteq> - 1"
proof -
  let ?f = "kvs_ftl s"
  obtain v where v: "find_slot (hash_slots ?f) (kv_mapping_table ?f) key = Some (Some v)"
      "mem_offset (kv_mapping_table ?f ! unat v) = off" "me_length (kv_mapping_table ?f ! unat v) = len"
    using g kv_lookup_Some [OF kv_okD(1) [OF ok] key] unfolding kv_get_def by blast
  moreover have "unat v < unat (hash_slots ?f)" "\<not> free_at (kv_mapping_table ?f) (unat v)"
    using find_slot_total [OF kv_okD(1) [OF ok] key] v(1) by auto
  ultimately show "unat off + unat len \<le> kv_latest ?f" "off \<noteq> - 1"
    using ok by (auto simp: kv_ok_def Let_def free_at_def)
qed

text \<open>The pieces of host memory that a command names for a value of \<open>len\<close> bytes.\<close>

definition value_segs :: "host_mem \<Rightarrow> nvme_kv_command \<Rightarrow> nat \<Rightarrow> (u64 \<times> nat) list option" where
  "value_segs m cmd len = prp_segs (\<lambda>_. True) m (kv_prp1 cmd) (kv_prp2 cmd) 0 False len"

definition value_bytes :: "nvme_kv_command \<Rightarrow> nat" where
  "value_bytes cmd = unat (cmd_value_length cmd)"

lemma cmd_key_length: "cmd_key cmd = Some key \<Longrightarrow> length (kv_key cmd) = 16 \<Longrightarrow> length key \<le> 16"
  by (auto simp: cmd_key_def split: if_splits)

lemma kv_store_new_spec:
  assumes ok: "kv_ok s" and op: "kv_opcode cmd = nvme_cmd_kv_store" and key: "cmd_key cmd = Some key" "length (kv_key cmd) = 16"
    and absent: "kv_get (kvs_ftl s) key = None"
    and room: "kv_latest (kvs_ftl s) + value_bytes cmd \<le> st_size (kvs_storage s)" "kv_latest (kvs_ftl s) < st_size (kvs_storage s)"
    and free: "i < unat (hash_slots (kvs_ftl s))" "free_at (kv_mapping_table (kvs_ftl s)) i"
    and segs: "value_segs (kvs_mem s) cmd (value_bytes cmd) = Some segs"
  shows "\<exists>s'. do_perform_kv_io fz s cmd status = Some (s', status, 0) \<and> kv_ok s' \<and> kvs_mem s' = kvs_mem s \<and>
    hash_slots (kvs_ftl s') = hash_slots (kvs_ftl s) \<and>
    (\<forall>k. length k = length key \<longrightarrow> kv_get (kvs_ftl s') k =
       ((kv_get (kvs_ftl s))(key \<mapsto> (of_nat (kv_latest (kvs_ftl s)), ucast (cmd_value_length cmd)))) k) \<and>
    kv_latest (kvs_ftl s') = kv_latest (kvs_ftl s) + value_bytes cmd \<and>
    stored (kvs_storage s) (kv_latest (kvs_ftl s)) (gather (kvs_mem s) segs) (kvs_storage s') \<and>
    (\<exists>v < unat (hash_slots (kvs_ftl s)). \<forall>i < unat (hash_slots (kvs_ftl s)). i \<noteq> v \<longrightarrow>
       free_at (kv_mapping_table (kvs_ftl s')) i = free_at (kv_mapping_table (kvs_ftl s)) i)"
proof -
  let ?f = "kvs_ftl s" and ?st = "kvs_storage s"
  note K = kv_okD [OF ok]
  have k18: "length key \<le> 18" using cmd_key_length [OF key] by simp
  obtain a where a: "kv_allocator ?f = Append_Only a" using K(5) by blast
  have lat: "kv_latest ?f = unat (ao_latest a)" by (simp add: kv_latest_def a)
  let ?len = "ucast (cmd_value_length cmd) :: u64" and ?off = "ao_latest a"
  have len: "unat ?len = value_bytes cmd" by (simp add: value_bytes_def unat_ucast_up)
  have off: "?off \<noteq> - 1"
  proof
    assume "?off = - 1"
    then have "kv_latest ?f = 2 ^ 64 - 1" by (simp add: lat unat_ULL_MAX)
    then show False using room(2) K(4) by simp
  qed
  obtain e where e: "get_mapping_entry ?f cmd = Some e" "mem_offset e = - 1"
    using get_mapping_entry_spec [OF K(1) k18] absent key(1)
    by (auto simp: get_mapping_entry_def kv_get_def no_entry_def)
  let ?a = "a\<lparr>ao_latest := ao_latest a + ?len, ao_total_written := ao_total_written a + ?len\<rparr>"
  let ?f1 = "?f\<lparr>kv_allocator := Append_Only ?a\<rparr>"
  have place: "store_place fz ?f cmd e = Some (?f1, ?off, 1)"
    using e(2) op off a
    by (simp add: store_place_def allocate_mem_offset_def allocate_mem_offset_by_length_def append_only_allocate_def)
  obtain st' where st': "kv_transfer (to_storage (unat ?off)) fst cmd (value_bytes cmd) (kvs_mem s, ?st) = Some (kvs_mem s, st')"
      "stored ?st (unat ?off) (gather (kvs_mem s) segs) st'"
    using store_loop [OF segs [unfolded value_segs_def], of "unat ?off" 0 ?st] room(1)
    by (auto simp: kv_transfer_def prp_transfer_def lat)
  have sz: "st_size st' = st_size ?st" using st'(2) by (simp add: stored_def)
  have less: "?off < of_nat (st_size st')"
    using room(2) K(4) by (simp add: word_less_nat_alt unat_of_nat_small sz lat)
  obtain t' v where t': "new_mapping_entry_by_key (of_nat (st_size st')) (hash_slots ?f) (kv_mapping_table ?f) key ?len ?off = Some t'"
      "table_ok (hash_slots ?f) t'"
      "\<forall>k. length k = length key \<longrightarrow> kv_lookup (hash_slots ?f) t' k = ((kv_lookup (hash_slots ?f) (kv_mapping_table ?f))(key \<mapsto> (?off, ?len))) k"
      "v < unat (hash_slots ?f)" "mem_offset (t' ! v) = ?off" "me_length (t' ! v) = ?len"
      "\<forall>i < unat (hash_slots ?f). i \<noteq> v \<longrightarrow> mem_offset (t' ! i) = mem_offset (kv_mapping_table ?f ! i) \<and>
         me_length (t' ! i) = me_length (kv_mapping_table ?f ! i)"
    using new_mapping_entry_spec [OF K(1) k18 absent [unfolded kv_get_def] less off free] by blast
  let ?f2 = "?f1\<lparr>kv_mapping_table := t'\<rparr>"
  let ?s = "s\<lparr>kvs_ftl := ?f2, kvs_mem := kvs_mem s, kvs_storage := st'\<rparr>"
  have nle: "kv_latest ?f2 = kv_latest ?f + value_bytes cmd"
    using room(1) K(4) by (simp add: kv_latest_def a len unat_add_nowrap)
  have "do_perform_kv_io fz s cmd status = Some (?s, status, 0)"
    using e op place st'(1) t'(1) key(1)
    by (simp add: do_perform_kv_io_def kv_store_def new_mapping_entry_def Let_def value_bytes_def)
  moreover have "unat (mem_offset (t' ! i)) + unat (me_length (t' ! i)) \<le> kv_latest ?f2"
    if i: "i < unat (hash_slots ?f)" "\<not> free_at t' i" for i
  proof (cases "i = v")
    case True
    then show ?thesis using t'(5,6) by (simp add: nle len lat)
  next
    case False
    then have "\<not> free_at (kv_mapping_table ?f) i" using i t'(7) by (simp add: free_at_def)
    then have "unat (mem_offset (kv_mapping_table ?f ! i)) + unat (me_length (kv_mapping_table ?f ! i)) \<le> kv_latest ?f"
      using ok i(1) by (simp add: kv_ok_def Let_def)
    then show ?thesis using False i(1) t'(7) by (simp add: nle)
  qed
  then have "kv_ok ?s" using t'(2) K(2-4) room(1) nle sz by (simp add: kv_ok_def Let_def)
  moreover have "of_nat (kv_latest ?f) = ?off" by (simp add: lat)
  moreover have "\<exists>v < unat (hash_slots ?f). \<forall>i < unat (hash_slots ?f). i \<noteq> v \<longrightarrow> free_at t' i = free_at (kv_mapping_table ?f) i"
    using t'(4,7) by (auto simp: free_at_def)
  ultimately show ?thesis using t'(3) nle st'(2) lat
    by (intro exI [of _ ?s]) (simp add: kv_get_def)
qed

lemma kv_retrieve_spec:
  assumes ok: "kv_ok s" and op: "kv_opcode cmd = nvme_cmd_kv_retrieve" and key: "cmd_key cmd = Some key" "length (kv_key cmd) = 16"
    and got: "kv_get (kvs_ftl s) key = Some (off, len)"
    and segs: "value_segs (kvs_mem s) cmd (min (unat len) (value_bytes cmd)) = Some segs"
      "apart segs (list_addrs (\<lambda>_. True) (kv_prp2 cmd))"
  shows "\<exists>m'. do_perform_kv_io fz s cmd status = Some (s\<lparr>kvs_mem := m'\<rparr>, status, of_nat (min (unat len) (value_bytes cmd))) \<and>
    gather m' segs = map (\<lambda>j. st_bytes (kvs_storage s) (unat off + j)) [0..<min (unat len) (value_bytes cmd)] \<and>
    (\<forall>x. (\<forall>(a, n) \<in> set segs. x \<notin> seg_addrs a n) \<longrightarrow> m' x = kvs_mem s x)"
proof -
  let ?f = "kvs_ftl s" and ?n = "min (unat len) (value_bytes cmd)"
  note K = kv_okD [OF ok]
  have k18: "length key \<le> 18" using cmd_key_length [OF key] by simp
  obtain e where e: "get_mapping_entry ?f cmd = Some e" "mem_offset e = off" "me_length e = len" "off \<noteq> - 1"
    using get_mapping_entry_spec [OF K(1) k18] got key(1) by (auto simp: get_mapping_entry_def kv_get_def)
  have "unat off + unat len \<le> kv_latest ?f" by (rule kv_get_bounds(1) [OF ok k18 got])
  then have fits: "unat off + 0 + ?n \<le> st_size (kvs_storage s)" using K(3) by linarith
  obtain m' where m': "kv_transfer (to_host (unat off)) fst cmd ?n (kvs_mem s, kvs_storage s) = Some (m', kvs_storage s)"
      "gather m' segs = map (\<lambda>j. st_bytes (kvs_storage s) (unat off + j)) [0..<?n]"
      "\<forall>x. (\<forall>(a, n) \<in> set segs. x \<notin> seg_addrs a n) \<longrightarrow> m' x = kvs_mem s x"
    using retrieve_loop [OF segs(1) [unfolded value_segs_def] fits segs(2)] by (auto simp: kv_transfer_def prp_transfer_def)
  have n: "unat (min len (ucast (cmd_value_length cmd))) = ?n"
    by (simp add: min_def word_le_nat_alt unat_ucast_up value_bytes_def)
  then have "ucast (min len (ucast (cmd_value_length cmd))) = (of_nat ?n :: u32)"
    by (simp flip: n)
  then have "do_perform_kv_io fz s cmd status = Some (s\<lparr>kvs_mem := m'\<rparr>, status, of_nat ?n)"
    using e op m'(1) n by (simp add: do_perform_kv_io_def kv_retrieve_def Let_def cdefs)
  then show ?thesis using m'(2,3) by blast
qed

text \<open>A fresh namespace with the append-only allocator.\<close>

lemma kv_init_spec:
  assumes sl: "0 < unat (table_sz div KV_MAPPING_ENTRY_SIZE)" "unat (table_sz div KV_MAPPING_ENTRY_SIZE) < 2 ^ 32"
    and sz: "unat sz = st_size st"
  shows "\<exists>f. kv_init_namespace table_sz 1 statics junk sz = Some f \<and> kv_ok \<lparr>kvs_ftl = f, kvs_mem = m, kvs_storage = st\<rparr> \<and>
    hash_slots f = table_sz div KV_MAPPING_ENTRY_SIZE \<and> kv_latest f = 0 \<and> (\<forall>i < unat (hash_slots f). free_at (kv_mapping_table f) i) \<and>
    (\<forall>k. length k \<le> 18 \<longrightarrow> kv_get f k = None)"
proof -
  let ?s = "table_sz div KV_MAPPING_ENTRY_SIZE"
  let ?t = "replicate (unat ?s) empty_slot"
  have fr: "free_at ?t i" if "i < unat ?s" for i using that by (simp add: free_at_def empty_slot_def)
  have "links ?t = {}" by (auto simp: links_def empty_slot_def)
  then have ok: "table_ok ?s ?t" using sl by (simp add: table_ok_def empty_slot_def)
  have "kv_lookup ?s ?t k = None" if k: "length k \<le> 18" for k
  proof -
    obtain r where "find_slot ?s ?t k = Some r" "\<forall>v. r = Some v \<longrightarrow> unat v < unat ?s \<and> \<not> free_at ?t (unat v)"
      using find_slot_total [OF ok k] by blast
    then show ?thesis using fr by (cases r) (auto simp: kv_lookup_def)
  qed
  moreover have "st_size st < 2 ^ 64" using unat_less_pow [of sz] by (simp add: sz)
  ultimately show ?thesis using ok fr
    by (simp add: kv_init_namespace_def Let_def kv_ok_def kv_latest_def append_only_allocator_init_def kv_get_def)
qed

text \<open>
  C23: a value stored under a new key can be read back: the store allocates the next bytes of the
  storage area, copies the host's pages there without touching earlier values, and adds exactly
  this key to the mapping; a later retrieve of the key, whatever is in host memory by then,
  completes with the stored length (or the shorter one asked for) and leaves exactly the stored
  bytes in the pages it names, provided these overlap neither one another nor their list.
\<close>

theorem kv_store_retrieve:
  assumes ok: "kv_ok s" and op: "kv_opcode cmd = nvme_cmd_kv_store" and key: "cmd_key cmd = Some key" "length (kv_key cmd) = 16"
    and absent: "kv_get (kvs_ftl s) key = None"
    and room: "kv_latest (kvs_ftl s) + value_bytes cmd \<le> st_size (kvs_storage s)" "kv_latest (kvs_ftl s) < st_size (kvs_storage s)"
    and free: "i < unat (hash_slots (kvs_ftl s))" "free_at (kv_mapping_table (kvs_ftl s)) i"
    and segs: "value_segs (kvs_mem s) cmd (value_bytes cmd) = Some segs"
  shows "\<exists>s'. do_perform_kv_io fz s cmd status = Some (s', status, 0) \<and> kv_ok s' \<and>
    (\<forall>k. length k = length key \<longrightarrow> kv_get (kvs_ftl s') k =
       ((kv_get (kvs_ftl s))(key \<mapsto> (of_nat (kv_latest (kvs_ftl s)), ucast (cmd_value_length cmd)))) k) \<and>
    (\<forall>j < kv_latest (kvs_ftl s). st_bytes (kvs_storage s') j = st_bytes (kvs_storage s) j) \<and>
    (\<forall>m rd segs' status'. kv_opcode rd = nvme_cmd_kv_retrieve \<and> cmd_key rd = Some key \<and> length (kv_key rd) = 16 \<and>
       value_segs m rd (min (value_bytes cmd) (value_bytes rd)) = Some segs' \<and>
       apart segs' (list_addrs (\<lambda>_. True) (kv_prp2 rd)) \<longrightarrow>
       (\<exists>m'. do_perform_kv_io fz (s'\<lparr>kvs_mem := m\<rparr>) rd status' =
            Some (s'\<lparr>kvs_mem := m'\<rparr>, status', of_nat (min (value_bytes cmd) (value_bytes rd))) \<and>
          gather m' segs' = take (min (value_bytes cmd) (value_bytes rd)) (gather (kvs_mem s) segs) \<and>
          (\<forall>x. (\<forall>(a, n) \<in> set segs'. x \<notin> seg_addrs a n) \<longrightarrow> m' x = m x)))"
proof -
  obtain s' where s': "do_perform_kv_io fz s cmd status = Some (s', status, 0)" "kv_ok s'"
      "\<forall>k. length k = length key \<longrightarrow> kv_get (kvs_ftl s') k =
         ((kv_get (kvs_ftl s))(key \<mapsto> (of_nat (kv_latest (kvs_ftl s)), ucast (cmd_value_length cmd)))) k"
      "stored (kvs_storage s) (kv_latest (kvs_ftl s)) (gather (kvs_mem s) segs) (kvs_storage s')"
    using kv_store_new_spec [OF assms] by blast
  let ?l = "kv_latest (kvs_ftl s)"
  have len: "unat (ucast (cmd_value_length cmd) :: u64) = value_bytes cmd" by (simp add: value_bytes_def unat_ucast_up)
  have off: "unat (of_nat ?l :: u64) = ?l" using kv_okD(3,4) [OF ok] by (intro unat_of_nat_small) simp
  have tot: "total segs = value_bytes cmd" using prp_segs_total segs by (simp add: value_segs_def)
  have "\<exists>m'. do_perform_kv_io fz (s'\<lparr>kvs_mem := m\<rparr>) rd status' =
            Some (s'\<lparr>kvs_mem := m'\<rparr>, status', of_nat (min (value_bytes cmd) (value_bytes rd))) \<and>
          gather m' segs' = take (min (value_bytes cmd) (value_bytes rd)) (gather (kvs_mem s) segs) \<and>
          (\<forall>x. (\<forall>(a, n) \<in> set segs'. x \<notin> seg_addrs a n) \<longrightarrow> m' x = m x)"
    if r: "kv_opcode rd = nvme_cmd_kv_retrieve" "cmd_key rd = Some key" "length (kv_key rd) = 16"
      "value_segs m rd (min (value_bytes cmd) (value_bytes rd)) = Some segs'" "apart segs' (list_addrs (\<lambda>_. True) (kv_prp2 rd))"
    for m rd segs' status'
  proof -
    let ?s = "s'\<lparr>kvs_mem := m\<rparr>"
    have ok2: "kv_ok ?s" using s'(2) by (simp add: kv_ok_def)
    have g: "kv_get (kvs_ftl ?s) key = Some (of_nat ?l, ucast (cmd_value_length cmd))" using s'(3) by simp
    obtain m' where m': "do_perform_kv_io fz ?s rd status' = Some (?s\<lparr>kvs_mem := m'\<rparr>, status', of_nat (min (value_bytes cmd) (value_bytes rd)))"
        "gather m' segs' = map (\<lambda>j. st_bytes (kvs_storage s') (?l + j)) [0..<min (value_bytes cmd) (value_bytes rd)]"
        "\<forall>x. (\<forall>(a, n) \<in> set segs'. x \<notin> seg_addrs a n) \<longrightarrow> m' x = m x"
      using kv_retrieve_spec [OF ok2 r(1-3) g, of segs' fz status'] r(4,5) by (simp add: len off) blast
    moreover have "map (\<lambda>j. st_bytes (kvs_storage s') (?l + j)) [0..<min (value_bytes cmd) (value_bytes rd)] =
        take (min (value_bytes cmd) (value_bytes rd)) (gather (kvs_mem s) segs)"
      using s'(4) tot by (intro nth_equalityI) (simp_all add: stored_def)
    ultimately show ?thesis by auto
  qed
  moreover have "st_bytes (kvs_storage s') j = st_bytes (kvs_storage s) j" if "j < ?l" for j
    using s'(4) that by (simp add: stored_def)
  ultimately show ?thesis using s'(1-3) by blast
qed

text \<open>Four slots and a page of storage; a store of eight bytes under a key of four.\<close>

definition demo_statics :: bitmap_alloc where
  "demo_statics = (let p = \<lparr>sl_words = 1, sl_nbits = 0, sl_bits = (\<lambda>_. False), sl_last_pos = 0, sl_capacity = 0\<rparr>
     in \<lparr>small_pool = p, large_pool = p, bm_dev_size = 0, bm_total_written = 0\<rparr>)"

definition demo_kv :: kv_state where
  "demo_kv = \<lparr>kvs_ftl = the (kv_init_namespace 192 1 demo_statics None 4096), kvs_mem = (\<lambda>a. ucast a),
     kvs_storage = \<lparr>st_size = 4096, st_bytes = (\<lambda>_. 0)\<rparr>\<rparr>"

definition demo_cmd :: "u8 \<Rightarrow> u64 \<Rightarrow> nvme_kv_command" where
  "demo_cmd opcode page = \<lparr>kv_opcode = opcode, kv_prp1 = page, kv_prp2 = 0, kv_value_len = 2, kv_key_len = 3, kv_option = 0,
     kv_rsvd4 = 0, kv_key = [1, 2, 3, 4, 0, 0, 0, 0, 0, 0, 0, 0, 0, 0, 0, 0]\<rparr>"

lemma demo_kv:
  "kv_ok demo_kv" "unat (hash_slots (kvs_ftl demo_kv)) = 4" "kv_latest (kvs_ftl demo_kv) = 0"
  "i < 4 \<Longrightarrow> free_at (kv_mapping_table (kvs_ftl demo_kv)) i" "length k \<le> 18 \<Longrightarrow> kv_get (kvs_ftl demo_kv) k = None"
  "st_size (kvs_storage demo_kv) = 4096"
proof -
  have s: "unat (192 div KV_MAPPING_ENTRY_SIZE) = 4" by (simp add: cdefs)
  obtain f where "kv_init_namespace 192 1 demo_statics None 4096 = Some f"
    "kv_ok \<lparr>kvs_ftl = f, kvs_mem = (\<lambda>a. ucast a), kvs_storage = \<lparr>st_size = 4096, st_bytes = (\<lambda>_. 0)\<rparr>\<rparr>"
    "hash_slots f = 192 div KV_MAPPING_ENTRY_SIZE" "kv_latest f = 0" "\<forall>i < unat (hash_slots f). free_at (kv_mapping_table f) i"
    "\<forall>k. length k \<le> 18 \<longrightarrow> kv_get f k = None"
    using kv_init_spec [of 192 4096 "\<lparr>st_size = 4096, st_bytes = (\<lambda>_. 0)\<rparr>" demo_statics None "\<lambda>a. ucast a"] s by auto
  then show "kv_ok demo_kv" "unat (hash_slots (kvs_ftl demo_kv)) = 4" "kv_latest (kvs_ftl demo_kv) = 0"
    "i < 4 \<Longrightarrow> free_at (kv_mapping_table (kvs_ftl demo_kv)) i" "length k \<le> 18 \<Longrightarrow> kv_get (kvs_ftl demo_kv) k = None"
    "st_size (kvs_storage demo_kv) = 4096"
    using s by (simp_all add: demo_kv_def)
qed

lemma demo_cmd:
  "cmd_key (demo_cmd opcode page) = Some [1, 2, 3, 4]" "length (kv_key (demo_cmd opcode page)) = 16"
  "value_bytes (demo_cmd opcode page) = 8" "kv_opcode (demo_cmd opcode page) = opcode"
  "value_segs m (demo_cmd opcode 0x10000) 8 = Some [(0x10000, 8)]" "value_segs m (demo_cmd opcode 0x20000) 8 = Some [(0x20000, 8)]"
  by (simp_all add: demo_cmd_def cmd_key_def cmd_key_length_def value_bytes_def cmd_value_length_def value_segs_def
    prp_segs.simps [of _ _ _ _ 0] prp_segs.simps [of _ _ _ _ "Suc 0" _ 0] prp_addr_def prp_io_size_def page_off_def prp_target_def)

lemma seg_addrs_above: "n \<le> 2 ^ 64 - unat a \<Longrightarrow> x \<in> seg_addrs a n \<Longrightarrow> unat a \<le> unat x"
proof -
  assume n: "n \<le> 2 ^ 64 - unat a" and "x \<in> seg_addrs a n"
  then obtain j where x: "j < n" "x = a + of_nat j" by (auto simp: seg_addrs_def)
  then have j: "unat a + j < 2 ^ 64" "x = a + of_nat j" using n unat_less_pow [of a] by simp_all
  then have "unat x = unat a + j" by (simp add: unat_add_nowrap unat_of_nat_small)
  then show ?thesis by simp
qed

theorem kv_store_retrieve_witness:
  "\<exists>s' m'. do_perform_kv_io (\<lambda>_ _ s. s) demo_kv (demo_cmd nvme_cmd_kv_store 0x10000) 0 = Some (s', 0, 0) \<and>
     do_perform_kv_io (\<lambda>_ _ s. s) (s'\<lparr>kvs_mem := (\<lambda>_. 0)\<rparr>) (demo_cmd nvme_cmd_kv_retrieve 0x20000) 0 =
       Some (s'\<lparr>kvs_mem := m'\<rparr>, 0, 8) \<and>
     read_host m' 0x20000 8 = read_host (kvs_mem demo_kv) 0x10000 8"
proof -
  have room: "kv_latest (kvs_ftl demo_kv) + value_bytes (demo_cmd nvme_cmd_kv_store 0x10000) \<le> st_size (kvs_storage demo_kv)"
    "kv_latest (kvs_ftl demo_kv) < st_size (kvs_storage demo_kv)" by (simp_all add: demo_kv demo_cmd)
  have free: "0 < unat (hash_slots (kvs_ftl demo_kv))" "free_at (kv_mapping_table (kvs_ftl demo_kv)) 0" by (simp_all add: demo_kv)
  have absent: "kv_get (kvs_ftl demo_kv) [1, 2, 3, 4] = None" by (simp add: demo_kv)
  have segs: "value_segs (kvs_mem demo_kv) (demo_cmd nvme_cmd_kv_store 0x10000) (value_bytes (demo_cmd nvme_cmd_kv_store 0x10000)) =
    Some [(0x10000, 8)]" by (simp add: demo_cmd)
  have ap: "apart [(0x20000, 8)] (list_addrs (\<lambda>_. True) (kv_prp2 (demo_cmd nvme_cmd_kv_retrieve 0x20000)))"
    using seg_addrs_above [of 8 "0x20000"] by (fastforce simp: list_addrs_def demo_cmd_def page_off_def seg_addrs_unat)
  obtain s' where s': "do_perform_kv_io (\<lambda>_ _ s. s) demo_kv (demo_cmd nvme_cmd_kv_store 0x10000) 0 = Some (s', 0, 0)"
    and r: "\<forall>m rd segs' status'. kv_opcode rd = nvme_cmd_kv_retrieve \<and> cmd_key rd = Some [1, 2, 3, 4] \<and> length (kv_key rd) = 16 \<and>
       value_segs m rd (min 8 (value_bytes rd)) = Some segs' \<and> apart segs' (list_addrs (\<lambda>_. True) (kv_prp2 rd)) \<longrightarrow>
       (\<exists>m'. do_perform_kv_io (\<lambda>_ _ s. s) (s'\<lparr>kvs_mem := m\<rparr>) rd status' =
            Some (s'\<lparr>kvs_mem := m'\<rparr>, status', of_nat (min 8 (value_bytes rd))) \<and>
          gather m' segs' = take (min 8 (value_bytes rd)) (gather (kvs_mem demo_kv) [(0x10000, 8)]))"
    using kv_store_retrieve [OF demo_kv(1) demo_cmd(4,1,2) absent room free segs, of "\<lambda>_ _ s. s" 0, unfolded demo_cmd(3)] by blast
  have b: "value_segs (\<lambda>_. 0) (demo_cmd nvme_cmd_kv_retrieve 0x20000) (min 8 (value_bytes (demo_cmd nvme_cmd_kv_retrieve 0x20000))) =
    Some [(0x20000, 8)]" by (simp add: demo_cmd)
  obtain m' where "do_perform_kv_io (\<lambda>_ _ s. s) (s'\<lparr>kvs_mem := (\<lambda>_. 0)\<rparr>) (demo_cmd nvme_cmd_kv_retrieve 0x20000) 0 =
       Some (s'\<lparr>kvs_mem := m'\<rparr>, 0, 8)" "gather m' [(0x20000, 8)] = take 8 (gather (kvs_mem demo_kv) [(0x10000, 8)])"
    using r [rule_format, of "demo_cmd nvme_cmd_kv_retrieve 0x20000" "\<lambda>_. 0" "[(0x20000, 8)]" 0] demo_cmd(1-4) b ap by auto
  then show ?thesis using s' by auto
qed

subsection \<open>The mapping table\<close>

text \<open>
  C24: over a table with the invariant the four operations implement a partial map from keys of one
  length to offset and length: a lookup returns the map's entry or all ones, an insertion of an
  absent key into a table with a free slot adds it and nothing else, an update changes the length
  of one key or reports that it is absent, a deletion removes its key and adds or changes none. All
  keep the invariant, so chains always end.
\<close>

theorem kv_mapping_refines:
  assumes ok: "table_ok slots t" and key: "length key \<le> 18"
  shows "(\<exists>e. get_mapping_entry_by_key slots t key = Some e \<and>
      (case kv_lookup slots t key of None \<Rightarrow> e = no_entry | Some (off, len) \<Rightarrow> mem_offset e = off \<and> me_length e = len)) \<and>
    (kv_lookup slots t key = None \<and> off < sz \<and> off \<noteq> - 1 \<and> (\<exists>i < unat slots. free_at t i) \<longrightarrow>
      (\<exists>t'. new_mapping_entry_by_key sz slots t key len off = Some t' \<and> table_ok slots t' \<and>
        (\<forall>k. length k = length key \<longrightarrow> kv_lookup slots t' k = ((kv_lookup slots t)(key \<mapsto> (off, len))) k))) \<and>
    (\<exists>t' r. update_mapping_entry_by_key slots t key len = Some (t', r) \<and> table_ok slots t' \<and>
      (case kv_lookup slots t key of None \<Rightarrow> r = 1 \<and> t' = t
       | Some (o', _) \<Rightarrow> r = 0 \<and> (\<forall>k. length k = length key \<longrightarrow>
           kv_lookup slots t' k = ((kv_lookup slots t)(key \<mapsto> (o', len))) k))) \<and>
    (\<exists>t'. delete_mapping_entry_by_key slots t key = Some t' \<and> table_ok slots t' \<and> kv_lookup slots t' key = None \<and>
      (\<forall>k. length k \<le> 18 \<longrightarrow> kv_lookup slots t' k = kv_lookup slots t k \<or> kv_lookup slots t' k = None))"
proof (intro conjI impI)
  show "\<exists>e. get_mapping_entry_by_key slots t key = Some e \<and>
      (case kv_lookup slots t key of None \<Rightarrow> e = no_entry | Some (off, len) \<Rightarrow> mem_offset e = off \<and> me_length e = len)"
    using get_mapping_entry_spec [OF assms] by (fastforce split: option.splits)
next
  assume "kv_lookup slots t key = None \<and> off < sz \<and> off \<noteq> - 1 \<and> (\<exists>i < unat slots. free_at t i)"
  then show "\<exists>t'. new_mapping_entry_by_key sz slots t key len off = Some t' \<and> table_ok slots t' \<and>
      (\<forall>k. length k = length key \<longrightarrow> kv_lookup slots t' k = ((kv_lookup slots t)(key \<mapsto> (off, len))) k)"
    using new_mapping_entry_spec [OF assms] by blast
qed (use update_mapping_entry_spec [OF assms] delete_mapping_entry_spec [OF assms] in blast)+

text \<open>The table of four slots, and one-byte keys that fall in the same slot.\<close>

definition four_slots :: kv_table where "four_slots = replicate 4 empty_slot"


lemma four_slots: "table_ok 4 four_slots" "free_at four_slots 0"
proof -
  have "links four_slots = {}" by (auto simp: links_def four_slots_def empty_slot_def)
  then show "table_ok 4 four_slots" "free_at four_slots 0"
    by (simp_all add: table_ok_def four_slots_def empty_slot_def free_at_def)
qed

theorem kv_mapping_refines_witness:
  "\<exists>t. new_mapping_entry_by_key 1000 4 four_slots [7] 10 20 = Some t \<and> table_ok 4 t \<and> kv_lookup 4 t [7] = Some (20, 10)"
proof -
  have k: "length [7 :: u8] \<le> 18" by simp
  have "kv_lookup 4 four_slots [7] = None" by code_simp
  moreover have "(20 :: u64) < 1000" "(20 :: u64) \<noteq> - 1" by (simp_all add: word_less_nat_alt)
  moreover have "\<exists>i < unat (4 :: u64). free_at four_slots i" using four_slots(2) by (intro exI [of _ 0]) simp
  ultimately show ?thesis
    using kv_mapping_refines [OF four_slots(1) k, of 20 1000 10] by fastforce
qed


subsection \<open>Updates\<close>

text \<open>
  C26: a store under an existing key writes at the old offset, for a length of up to 1024 bytes
  however short the old value was: when the next value starts where the old one ended, as the
  append-only allocator places them, its first byte becomes a byte of the new value.
\<close>

theorem kv_update_overruns:
  assumes ok: "kv_ok s" and op: "kv_opcode cmd = nvme_cmd_kv_store" and key: "cmd_key cmd = Some key" "length (kv_key cmd) = 16"
    and old: "kv_get (kvs_ftl s) key = Some (off, len)" and longer: "unat len < value_bytes cmd" "value_bytes cmd \<le> 1024"
    and fits: "unat off + value_bytes cmd \<le> st_size (kvs_storage s)"
    and segs: "value_segs (kvs_mem s) cmd (value_bytes cmd) = Some segs"
    and other: "kv_get (kvs_ftl s) key' = Some (off + len, len')" "length key' = length key" "key' \<noteq> key"
  shows "\<exists>s'. do_perform_kv_io fz s cmd status = Some (s', status, 0) \<and>
    kv_get (kvs_ftl s') key = Some (off, ucast (cmd_value_length cmd)) \<and> kv_get (kvs_ftl s') key' = Some (off + len, len') \<and>
    st_bytes (kvs_storage s') (unat (off + len)) = gather (kvs_mem s) segs ! unat len"
proof -
  let ?f = "kvs_ftl s" and ?st = "kvs_storage s" and ?len = "ucast (cmd_value_length cmd) :: u64"
  note K = kv_okD [OF ok]
  have k18: "length key \<le> 18" using cmd_key_length [OF key] by simp
  have lv: "unat ?len = value_bytes cmd" by (simp add: value_bytes_def unat_ucast_up)
  obtain e where e: "get_mapping_entry ?f cmd = Some e" "mem_offset e = off" "me_length e = len" "off \<noteq> - 1"
    using get_mapping_entry_spec [OF K(1) k18] old key(1) by (auto simp: get_mapping_entry_def kv_get_def)
  have place: "store_place fz ?f cmd e = Some (?f, off, 2)"
    using e longer lv by (auto simp: store_place_def Let_def SMALL_LENGTH_def word_le_nat_alt)
  obtain st' where st': "kv_transfer (to_storage (unat off)) fst cmd (value_bytes cmd) (kvs_mem s, ?st) = Some (kvs_mem s, st')"
      "stored ?st (unat off) (gather (kvs_mem s) segs) st'"
    using store_loop [OF segs [unfolded value_segs_def], of "unat off" 0 ?st] fits by (auto simp: kv_transfer_def prp_transfer_def)
  obtain t' where t': "update_mapping_entry_by_key (hash_slots ?f) (kv_mapping_table ?f) key ?len = Some (t', 0)"
      "\<forall>k. length k = length key \<longrightarrow> kv_lookup (hash_slots ?f) t' k = ((kv_lookup (hash_slots ?f) (kv_mapping_table ?f))(key \<mapsto> (off, ?len))) k"
    using update_mapping_entry_spec [OF K(1) k18, of ?len] old by (auto simp: kv_get_def)
  have "unat off + unat len \<le> kv_latest ?f" by (rule kv_get_bounds(1) [OF ok k18 old])
  then have ol: "unat (off + len) = unat off + unat len" using K(3,4) by (intro unat_add_nowrap) simp
  let ?s = "s\<lparr>kvs_ftl := ?f\<lparr>kv_mapping_table := t'\<rparr>, kvs_mem := kvs_mem s, kvs_storage := st'\<rparr>"
  have "do_perform_kv_io fz s cmd status = Some (?s, status, 0)"
    using e op place st'(1) t'(1) key(1)
    by (simp add: do_perform_kv_io_def kv_store_def update_mapping_entry_def Let_def value_bytes_def)
  moreover have "kv_get (kvs_ftl ?s) key = Some (off, ?len)" "kv_get (kvs_ftl ?s) key' = Some (off + len, len')"
    using t'(2) other by (simp_all add: kv_get_def)
  moreover have "total segs = value_bytes cmd" using prp_segs_total segs by (simp add: value_segs_def)
  then have "st_bytes st' (unat (off + len)) = gather (kvs_mem s) segs ! unat len"
    using st'(2) longer(1) ol by (simp add: stored_def)
  ultimately show ?thesis by (intro exI [of _ ?s]) simp
qed

definition demo_put :: "u8 \<Rightarrow> u32 \<Rightarrow> nvme_kv_command" where
  "demo_put k n = (demo_cmd nvme_cmd_kv_store 0x10000)\<lparr>kv_value_len := n, kv_key := [1, 2, 3, k, 0, 0, 0, 0, 0, 0, 0, 0, 0, 0, 0, 0]\<rparr>"

lemma demo_put:
  "cmd_key (demo_put k n) = Some [1, 2, 3, k]" "length (kv_key (demo_put k n)) = 16" "kv_opcode (demo_put k n) = nvme_cmd_kv_store"
  "cmd_value_length (demo_put k n) = push_bit 2 n" "value_bytes (demo_put k n) = unat (push_bit 2 n)"
  by (simp_all add: demo_put_def demo_cmd_def cmd_key_def cmd_key_length_def value_bytes_def cmd_value_length_def)

lemma demo_put_segs:
  assumes "0 < n" "n \<le> 4096"
  shows "value_segs m (demo_put k v) n = Some [(0x10000, n)]"
  using assms by (simp add: demo_put_def demo_cmd_def value_segs_def prp_segs.simps [of _ _ _ _ 0]
    prp_segs.simps [of _ _ _ _ "Suc 0" _ 0] prp_addr_def prp_io_size_def page_off_def prp_target_def)

lemma two_values:
  "\<exists>s. kv_ok s \<and> kv_get (kvs_ftl s) [1, 2, 3, 4] = Some (0, 8) \<and> kv_get (kvs_ftl s) [1, 2, 3, 5] = Some (8, 8) \<and>
     kvs_mem s = kvs_mem demo_kv \<and> st_size (kvs_storage s) = 4096"
proof -
  let ?c1 = "demo_put 4 2" and ?c2 = "demo_put 5 2"
  have v: "value_bytes (demo_put k 2) = 8" for k by (simp add: demo_put)
  have segs: "value_segs m (demo_put k 2) (value_bytes (demo_put k 2)) = Some [(0x10000, 8)]" for m k
    by (simp add: v demo_put_segs)
  have l: "ucast (cmd_value_length (demo_put k 2)) = (8 :: u64)" for k by (simp add: demo_put)
  have room1: "kv_latest (kvs_ftl demo_kv) + value_bytes ?c1 \<le> st_size (kvs_storage demo_kv)"
    "kv_latest (kvs_ftl demo_kv) < st_size (kvs_storage demo_kv)" by (simp_all add: demo_kv v)
  have free1: "0 < unat (hash_slots (kvs_ftl demo_kv))" "free_at (kv_mapping_table (kvs_ftl demo_kv)) 0" by (simp_all add: demo_kv)
  have abs1: "kv_get (kvs_ftl demo_kv) [1, 2, 3, 4] = None" by (simp add: demo_kv)
  obtain s1 where s1: "kv_ok s1" "kvs_mem s1 = kvs_mem demo_kv" "hash_slots (kvs_ftl s1) = hash_slots (kvs_ftl demo_kv)"
      "\<forall>k. length k = length [1, 2, 3, 4 :: u8] \<longrightarrow> kv_get (kvs_ftl s1) k =
         ((kv_get (kvs_ftl demo_kv))([1, 2, 3, 4] \<mapsto> (of_nat (kv_latest (kvs_ftl demo_kv)), ucast (cmd_value_length ?c1)))) k"
      "kv_latest (kvs_ftl s1) = kv_latest (kvs_ftl demo_kv) + value_bytes ?c1"
      "stored (kvs_storage demo_kv) (kv_latest (kvs_ftl demo_kv)) (gather (kvs_mem demo_kv) [(0x10000, 8)]) (kvs_storage s1)"
      "\<exists>v < unat (hash_slots (kvs_ftl demo_kv)). \<forall>i < unat (hash_slots (kvs_ftl demo_kv)). i \<noteq> v \<longrightarrow>
         free_at (kv_mapping_table (kvs_ftl s1)) i = free_at (kv_mapping_table (kvs_ftl demo_kv)) i"
    using kv_store_new_spec [OF demo_kv(1) demo_put(3,1,2) abs1 room1 free1 segs, of "\<lambda>_ _ s. s" 0] by blast
  have g1: "kv_get (kvs_ftl s1) [1, 2, 3, 4] = Some (0, 8)" "kv_get (kvs_ftl s1) [1, 2, 3, 5] = None"
    using s1(4) by (simp_all add: l demo_kv)
  have lat: "kv_latest (kvs_ftl s1) = 8" "st_size (kvs_storage s1) = 4096" using s1(5,6) by (simp_all add: demo_kv v stored_def)
  obtain i where i: "i < unat (hash_slots (kvs_ftl s1))" "free_at (kv_mapping_table (kvs_ftl s1)) i"
  proof -
    obtain w where "\<forall>i < 4. i \<noteq> w \<longrightarrow> free_at (kv_mapping_table (kvs_ftl s1)) i" using s1(7) by (auto simp: demo_kv)
    then show thesis using that [of 0] that [of 1] s1(3) by (cases "w = 0") (auto simp: demo_kv)
  qed
  have room2: "kv_latest (kvs_ftl s1) + value_bytes ?c2 \<le> st_size (kvs_storage s1)" "kv_latest (kvs_ftl s1) < st_size (kvs_storage s1)"
    by (simp_all add: lat v)
  obtain s2 where s2: "kv_ok s2" "kvs_mem s2 = kvs_mem s1"
      "\<forall>k. length k = length [1, 2, 3, 5 :: u8] \<longrightarrow> kv_get (kvs_ftl s2) k =
         ((kv_get (kvs_ftl s1))([1, 2, 3, 5] \<mapsto> (of_nat (kv_latest (kvs_ftl s1)), ucast (cmd_value_length ?c2)))) k"
      "stored (kvs_storage s1) (kv_latest (kvs_ftl s1)) (gather (kvs_mem s1) [(0x10000, 8)]) (kvs_storage s2)"
    using kv_store_new_spec [OF s1(1) demo_put(3,1,2) g1(2) room2 i segs, of "\<lambda>_ _ s. s" 0] by blast
  have "kv_get (kvs_ftl s2) [1, 2, 3, 4] = Some (0, 8)" "kv_get (kvs_ftl s2) [1, 2, 3, 5] = Some (8, 8)"
    using s2(3) g1 by (simp_all add: l lat)
  then show ?thesis using s2(1,2,4) s1(2) lat(2) by (intro exI [of _ s2]) (simp add: stored_def)
qed

theorem kv_update_overruns_witness:
  "\<exists>s s'. kv_get (kvs_ftl s) [1, 2, 3, 5] = Some (8, 8) \<and> do_perform_kv_io (\<lambda>_ _ s. s) s (demo_put 4 3) 0 = Some (s', 0, 0) \<and>
     kv_get (kvs_ftl s') [1, 2, 3, 5] = Some (8, 8) \<and> st_bytes (kvs_storage s') 8 = 8"
proof -
  obtain s where s: "kv_ok s" "kv_get (kvs_ftl s) [1, 2, 3, 4] = Some (0, 8)" "kv_get (kvs_ftl s) [1, 2, 3, 5] = Some (0 + 8, 8)"
      "kvs_mem s = kvs_mem demo_kv" "st_size (kvs_storage s) = 4096" using two_values by auto
  have v: "value_bytes (demo_put 4 3) = 12" by (simp add: demo_put)
  have l: "unat (8 :: u64) < value_bytes (demo_put 4 3)" "value_bytes (demo_put 4 3) \<le> 1024"
    "unat (0 :: u64) + value_bytes (demo_put 4 3) \<le> st_size (kvs_storage s)" by (simp_all add: v s(5))
  have segs: "value_segs (kvs_mem s) (demo_put 4 3) (value_bytes (demo_put 4 3)) = Some [(0x10000, 12)]" by (simp add: v demo_put_segs)
  have o: "length [1, 2, 3, 5 :: u8] = length [1, 2, 3, 4 :: u8]" "[1, 2, 3, 5 :: u8] \<noteq> [1, 2, 3, 4]" by simp_all
  have b: "gather (kvs_mem s) [(0x10000, 12)] ! 8 = 8" by (simp add: s(4) demo_kv_def read_host_def)
  show ?thesis
    using kv_update_overruns [OF s(1) demo_put(3,1,2) s(2) l segs s(3) o, of "\<lambda>_ _ s. s" 0] s(3) b by auto
qed

subsection \<open>Iterators\<close>

definition iter_match :: "kv_table \<Rightarrow> kv_iter_context \<Rightarrow> nat \<Rightarrow> bool" where
  "iter_match t h i \<longleftrightarrow> \<not> free_at t i \<and> le32 (take 4 (me_key (t ! i))) AND it_bitmask h = it_prefix h AND it_bitmask h"

definition iter_record :: "kv_table \<Rightarrow> nat \<Rightarrow> u8 list" where
  "iter_record t i = le32_bytes 16 @ take 16 (me_key (t ! i))"

lemma length_le32_bytes: "length (le32_bytes w) = 4"
  by (simp add: le32_bytes_def)

lemma length_iter_records:
  assumes "\<forall>i \<in> set is. length (me_key (t ! i)) = 18"
  shows "length (concat (map (iter_record t) is)) = 20 * length is"
  using assms by (induction "is") (simp_all add: iter_record_def le32_bytes_def)

lemma iter_scan_spec:
  assumes t: "length t = N" "\<forall>i < N. length (me_key (t ! i)) = 18"
  shows "pos \<le> N \<Longrightarrow> length buf \<le> 1020 \<Longrightarrow> \<exists>buf' nr' pos' fin. iter_scan t N h pos buf nr = Some (buf', nr', pos', fin) \<and>
    (let found = filter (iter_match t h) [pos..<pos'] in
       buf' = buf @ concat (map (iter_record t) found) \<and> nr' = nr + length found) \<and>
    pos \<le> pos' \<and> pos' \<le> N \<and> length buf' \<le> 1020 \<and> (fin \<longleftrightarrow> pos < N \<and> pos' = N) \<and>
    (pos < N \<and> \<not> fin \<longrightarrow> 1000 < length buf' \<and> iter_match t h pos')"
proof (induction "N - pos" arbitrary: pos buf nr)
  case 0
  then show ?case
    by (intro exI [of _ buf] exI [of _ nr] exI [of _ pos] exI [of _ False]) (subst iter_scan.simps, simp add: Let_def)
next
  case (Suc d)
  then have N: "pos < N" "d = N - (pos + 1)" "pos + 1 \<le> N" by simp_all
  have r: "rd t pos = Some (t ! pos)" using N(1) t(1) by simp
  have up: "filter (iter_match t h) [pos..<pos'] =
      (if iter_match t h pos then pos # filter (iter_match t h) [pos + 1..<pos'] else filter (iter_match t h) [pos + 1..<pos'])"
    if "pos + 1 \<le> pos'" for pos' using that by (simp add: upt_conv_Cons)
  have m: "mem_offset (t ! pos) \<noteq> - 1 \<and> le32 (take 4 (me_key (t ! pos))) AND it_bitmask h = it_prefix h AND it_bitmask h \<longleftrightarrow> iter_match t h pos"
    by (simp add: iter_match_def free_at_def)
  have lr: "length (iter_record t pos) = 20" using N(1) t(2) by (simp add: iter_record_def le32_bytes_def)
  note step = iter_scan.simps [of t N h pos buf nr, unfolded r bind.bind_lunit m]
  consider (full) "iter_match t h pos" "1000 < length buf" | (hit) "iter_match t h pos" "length buf \<le> 1000" | (miss) "\<not> iter_match t h pos"
    by linarith
  then show ?case
  proof cases
    case full
    then have "iter_scan t N h pos buf nr = Some (buf, nr, pos, False)" using step N(1) by simp
    then show ?thesis using full Suc.prems by (simp add: Let_def)
  next
    case hit
    let ?buf = "buf @ iter_record t pos"
    have s: "iter_scan t N h pos buf nr = (if pos + 1 = N then Some (?buf, nr + 1, pos + 1, True) else iter_scan t N h (pos + 1) ?buf (nr + 1))"
      using step N(1) hit by (simp add: iter_record_def)
    show ?thesis
    proof (cases "pos + 1 = N")
      case True
      then show ?thesis using s hit lr by (simp add: up Let_def)
    next
      case False
      obtain buf' nr' pos' fin where IH: "iter_scan t N h (pos + 1) ?buf (nr + 1) = Some (buf', nr', pos', fin)"
          "buf' = ?buf @ concat (map (iter_record t) (filter (iter_match t h) [pos + 1..<pos']))"
          "nr' = nr + 1 + length (filter (iter_match t h) [pos + 1..<pos'])" "pos + 1 \<le> pos'" "pos' \<le> N" "length buf' \<le> 1020"
          "fin \<longleftrightarrow> pos + 1 < N \<and> pos' = N" "pos + 1 < N \<and> \<not> fin \<longrightarrow> 1000 < length buf' \<and> iter_match t h pos'"
        using Suc.hyps(1) [OF N(2,3), of ?buf "nr + 1"] hit lr by (auto simp: Let_def)
      then show ?thesis using s False hit N by (auto simp: up Let_def)
    qed
  next
    case miss
    have s: "iter_scan t N h pos buf nr = (if pos + 1 = N then Some (buf, nr, pos + 1, True) else iter_scan t N h (pos + 1) buf nr)"
      using step N(1) miss by simp
    show ?thesis
    proof (cases "pos + 1 = N")
      case True
      then show ?thesis using s miss Suc.prems by (simp add: up Let_def)
    next
      case False
      obtain buf' nr' pos' fin where IH: "iter_scan t N h (pos + 1) buf nr = Some (buf', nr', pos', fin)"
          "buf' = buf @ concat (map (iter_record t) (filter (iter_match t h) [pos + 1..<pos']))"
          "nr' = nr + length (filter (iter_match t h) [pos + 1..<pos'])" "pos + 1 \<le> pos'" "pos' \<le> N" "length buf' \<le> 1020"
          "fin \<longleftrightarrow> pos + 1 < N \<and> pos' = N" "pos + 1 < N \<and> \<not> fin \<longrightarrow> 1000 < length buf' \<and> iter_match t h pos'"
        using Suc.hyps(1) [OF N(2,3) Suc.prems(2), of nr] by (auto simp: Let_def)
      then show ?thesis using s False miss N by (auto simp: up Let_def)
    qed
  qed
qed

text \<open>
  C27: a read through an open iterator, into a page-aligned buffer, never faults: it returns the
  number of keys found and each of them once, in table order, from the occupied slots whose first
  four key bytes match the iterator's prefix under its mask, at most 51 keys and 1024 bytes; it
  goes on behind the last slot it looked at, always at least one slot further, stops short of the
  end of the table only before a 52nd match, and says so when it has reached the end (but reading
  on from the end is not reported as the end).
\<close>

theorem kv_iter_read_next:
  assumes ok: "kv_ok s" and op: "kv_opcode cmd = nvme_cmd_kv_iter_read" and page: "page_off (kv_prp1 cmd) = 0"
    and handle: "unat (kv_key_len cmd) < 17" "iter_handle (kvs_ftl s) ! unat (kv_key_len cmd) = Some h"
    and pos: "it_current_pos h \<le> unat (hash_slots (kvs_ftl s))"
  shows "\<exists>pos'. let t = kv_mapping_table (kvs_ftl s); N = unat (hash_slots (kvs_ftl s));
        found = filter (iter_match t h) [it_current_pos h..<pos'];
        out = le32_bytes (of_nat (length found)) @ concat (map (iter_record t) found) in
      kv_perform_nvme_io_cmd fz s cmd status =
        Some (s\<lparr>kvs_ftl := (kvs_ftl s)\<lparr>iter_handle := (iter_handle (kvs_ftl s))[unat (kv_key_len cmd) := Some (h\<lparr>it_current_pos := pos'\<rparr>)]\<rparr>,
                kvs_mem := write_host (kvs_mem s) (kv_prp1 cmd) out\<rparr>,
              if it_current_pos h < N \<and> pos' = N then 0x393 else 0, of_nat (4 + 20 * length found)) \<and>
      length found \<le> 51 \<and> it_current_pos h \<le> pos' \<and> pos' \<le> N \<and> (it_current_pos h < N \<longrightarrow> it_current_pos h < pos') \<and>
      (pos' < N \<longrightarrow> length found = 51 \<and> iter_match t h pos')"
proof -
  let ?f = "kvs_ftl s" let ?t = "kv_mapping_table ?f" and ?N = "unat (hash_slots ?f)" and ?it = "unat (kv_key_len cmd)"
  note T = table_okD [OF kv_okD(1) [OF ok]]
  have keys: "\<forall>i < ?N. length (me_key (?t ! i)) = 18" using T(5) by blast
  obtain buf nr pos' fin where sc: "iter_scan ?t ?N h (it_current_pos h) [] 0 = Some (buf, nr, pos', fin)"
      "buf = concat (map (iter_record ?t) (filter (iter_match ?t h) [it_current_pos h..<pos']))"
      "nr = length (filter (iter_match ?t h) [it_current_pos h..<pos'])"
      "it_current_pos h \<le> pos'" "pos' \<le> ?N" "length buf \<le> 1020" "fin \<longleftrightarrow> it_current_pos h < ?N \<and> pos' = ?N"
      "it_current_pos h < ?N \<and> \<not> fin \<longrightarrow> 1000 < length buf \<and> iter_match ?t h pos'"
    using iter_scan_spec [OF T(1) keys pos, of "[]" h 0] by (auto simp: Let_def)
  define found where "found = filter (iter_match ?t h) [it_current_pos h..<pos']"
  have "\<forall>i \<in> set found. length (me_key (?t ! i)) = 18" using keys sc(5) by (auto simp: found_def)
  then have lb: "length buf = 20 * length found" unfolding sc(2) found_def [symmetric] by (rule length_iter_records)
  define out where "out = le32_bytes (of_nat (length found)) @ concat (map (iter_record ?t) found)"
  have lo: "length out = 4 + 20 * length found" using lb sc(2) by (simp add: out_def found_def le32_bytes_def)
  have o: "le32_bytes (of_nat nr) @ buf = out" using sc(2,3) by (simp add: out_def found_def)
  have lo': "length out \<le> 4096" "0 < length out" using lo lb sc(6) by simp_all
  have fit: "prp_io_size (kv_prp1 cmd) (length out) = length out" using page lo' by (simp add: prp_io_size_def Let_def)
  have tr: "kv_transfer (from_buffer out) (\<lambda>m. m) cmd (length out) (kvs_mem s) = Some (write_host (kvs_mem s) (kv_prp1 cmd) out)"
    unfolding kv_transfer_def prp_transfer_def using lo' fit
    by (subst prp_loop.simps) (simp add: prp_addr_def prp_target_def from_buffer_def buffer_read_def
      prp_loop.simps [of _ _ _ _ _ _ _ _ 0])
  have h: "rd (iter_handle ?f) ?it = Some (Some h)" using handle kv_okD(2) [OF ok] by simp
  have "kv_perform_nvme_io_cmd fz s cmd status = Some (s\<lparr>kvs_ftl := ?f\<lparr>iter_handle := (iter_handle ?f)[?it := Some (h\<lparr>it_current_pos := pos'\<rparr>)]\<rparr>,
      kvs_mem := write_host (kvs_mem s) (kv_prp1 cmd) out\<rparr>, if fin then 0x393 else 0, of_nat (4 + 20 * length found))"
    using op h sc(1) tr lo lb length_le32_bytes [of "of_nat nr"]
    by (simp add: kv_perform_nvme_io_cmd_def do_perform_kv_iter_io_def kv_iter_read_def Let_def o cdefs)
  moreover have "length found \<le> 51" using lb sc(6) by simp
  moreover have "it_current_pos h < pos'" if "it_current_pos h < ?N"
  proof (rule ccontr)
    assume "\<not> ?thesis"
    then have "pos' = it_current_pos h" using sc(4) by simp
    then have "buf = []" "\<not> fin" using sc(2,7) that by simp_all
    then show False using sc(8) that by simp
  qed
  moreover have "length found = 51 \<and> iter_match ?t h pos'" if "pos' < ?N" using sc(4,6,7,8) that lb by simp
  ultimately show ?thesis unfolding Let_def found_def [symmetric] out_def [symmetric]
    using sc(4,5,7) by (intro exI [of _ pos']) (simp add: found_def out_def)
qed

definition demo_iter :: kv_state where
  "demo_iter = \<lparr>kvs_ftl = \<lparr>kv_mapping_table = four_slots[2 := \<lparr>me_key = [1, 2, 3, 4, 0, 0, 0, 0, 0, 0, 0, 0, 0, 0, 0, 0, 0, 0],
       mem_offset = 0, me_length = 8, next_slot = - 1\<rparr>], hash_slots = 4,
     kv_allocator = Append_Only \<lparr>ao_latest = 8, ao_dev_size = 4096, ao_total_written = 8\<rparr>,
     iter_handle = (replicate 17 None)[1 := Some \<lparr>it_prefix = 0x00000201, it_bitmask = 0x0000FFFF, it_current_pos = 0\<rparr>]\<rparr>,
     kvs_mem = (\<lambda>_. 0), kvs_storage = \<lparr>st_size = 4096, st_bytes = (\<lambda>_. 0)\<rparr>\<rparr>"

lemma demo_iter: "kv_ok demo_iter"
proof -
  let ?t = "kv_mapping_table (kvs_ftl demo_iter)"
  have four: "i = 0 \<or> i = 1 \<or> i = 2 \<or> i = 3" if "i < 4" for i :: nat using that by arith
  have "links ?t = {}" using four by (fastforce simp: links_def demo_iter_def four_slots_def empty_slot_def eval_nat_numeral)
  moreover have "length (me_key (?t ! i)) = 18 \<and> next_slot (?t ! i) = - 1" if "i < 4" for i
    using four [OF that] by (auto simp: demo_iter_def four_slots_def empty_slot_def eval_nat_numeral)
  ultimately have "table_ok 4 ?t" by (simp add: table_ok_def demo_iter_def four_slots_def)
  moreover have "free_at ?t i \<or> unat (mem_offset (?t ! i)) + unat (me_length (?t ! i)) \<le> 8" if "i < 4" for i
    using four [OF that] by (auto simp: free_at_def demo_iter_def four_slots_def empty_slot_def eval_nat_numeral)
  ultimately show ?thesis by (auto simp: kv_ok_def Let_def demo_iter_def kv_latest_def)
qed

theorem kv_iter_read_next_witness:
  "\<exists>s'. kv_perform_nvme_io_cmd (\<lambda>_ _ s. s) demo_iter ((demo_cmd nvme_cmd_kv_iter_read 0x10000)\<lparr>kv_key_len := 1\<rparr>) 0 = Some (s', 0x393, 24)"
proof -
  let ?h = "\<lparr>it_prefix = 0x00000201, it_bitmask = 0x0000FFFF, it_current_pos = 0\<rparr>" and ?t = "kv_mapping_table (kvs_ftl demo_iter)"
  let ?c = "(demo_cmd nvme_cmd_kv_iter_read 0x10000)\<lparr>kv_key_len := 1\<rparr>"
  have c: "kv_opcode ?c = nvme_cmd_kv_iter_read" "page_off (kv_prp1 ?c) = 0" "unat (kv_key_len ?c) < 17"
    "iter_handle (kvs_ftl demo_iter) ! unat (kv_key_len ?c) = Some ?h"
    "it_current_pos ?h \<le> unat (hash_slots (kvs_ftl demo_iter))"
    by (simp_all add: demo_cmd_def page_off_def demo_iter_def)
  have n: "unat (hash_slots (kvs_ftl demo_iter)) = 4" by (simp add: demo_iter_def)
  obtain pos' where r: "kv_perform_nvme_io_cmd (\<lambda>_ _ s. s) demo_iter ?c 0 = Some (demo_iter\<lparr>kvs_ftl := (kvs_ftl demo_iter)\<lparr>iter_handle :=
      (iter_handle (kvs_ftl demo_iter))[unat (kv_key_len ?c) := Some (?h\<lparr>it_current_pos := pos'\<rparr>)]\<rparr>,
      kvs_mem := write_host (kvs_mem demo_iter) (kv_prp1 ?c) (le32_bytes (of_nat (length (filter (iter_match ?t ?h) [0..<pos']))) @
        concat (map (iter_record ?t) (filter (iter_match ?t ?h) [0..<pos'])))\<rparr>,
      if 0 < (4 :: nat) \<and> pos' = 4 then 0x393 else 0, of_nat (4 + 20 * length (filter (iter_match ?t ?h) [0..<pos'])))"
    and p: "pos' \<le> 4" "pos' < 4 \<longrightarrow> length (filter (iter_match ?t ?h) [0..<pos']) = 51"
    using kv_iter_read_next [OF demo_iter c, of "\<lambda>_ _ s. s" 0] by (auto simp: Let_def n)
  have "length (filter (iter_match ?t ?h) [0..<pos']) \<le> pos'" using length_filter_le [of "iter_match ?t ?h" "[0..<pos']"] by simp
  then have 4: "pos' = 4" using p by linarith
  have "filter (iter_match ?t ?h) [0, 1, 2, 3] = [2]"
    by code_simp
  moreover have "[0..<4] = [0, 1, 2, 3 :: nat]" by (simp add: upt_rec)
  ultimately show ?thesis using r unfolding 4 by simp
qed

subsection \<open>The bitmap allocator\<close>





end
