(* ===== verification/Work_Queue.thy ===== *)
theory Work_Queue
  imports Nand
begin

text \<open>
  The work queue of an IO worker (\<open>io.c\<close>): a static array of entries in which two lists are
  chained by index, the free entries and the requests in the order of their target times. The
  dispatcher takes a free entry, fills it and inserts it, and gives completed requests back; the
  worker walks over the requests, copies their data and completes them at their time. The index of
  all ones ends a list; an index outside the array is a fault.
\<close>

subsection \<open>State\<close>

record nvmev_io_work =
  w_sqid :: int
  w_cqid :: int
  w_sq_entry :: int
  w_command_id :: u32
  w_nsecs_start :: u64
  w_nsecs_target :: u64
  w_nsecs_enqueue :: u64
  is_copied :: bool
  is_completed :: bool
  w_status :: u32
  w_result0 :: u32
  w_result1 :: u32
  is_internal :: bool
  w_write_buffer :: buf_ref
  buffs_to_release :: u64
  w_next :: u32
  w_prev :: u32

record nvmev_io_worker =
  work_queue :: "nvmev_io_work list"
  free_seq :: u32
  free_seq_end :: u32
  io_seq :: u32
  io_seq_end :: u32
  latest_nsecs :: u64
  worker_id :: u32

definition NR_MAX_PARALLEL_IO :: nat where "NR_MAX_PARALLEL_IO = 16384"

subsection \<open>Initialisation\<close>

definition fresh_work :: nvmev_io_work where
  "fresh_work = \<lparr>w_sqid = 0, w_cqid = 0, w_sq_entry = 0, w_command_id = 0, w_nsecs_start = 0, w_nsecs_target = 0,
     w_nsecs_enqueue = 0, is_copied = False, is_completed = False, w_status = 0, w_result0 = 0, w_result1 = 0,
     is_internal = False, w_write_buffer = DEV_BUFFER, buffs_to_release = 0, w_next = 0, w_prev = 0\<rparr>"

text \<open>The entries are chained one after the other; the last one ends the list.\<close>

definition init_worker :: "u32 \<Rightarrow> nvmev_io_worker" where
  "init_worker i = \<lparr>work_queue = map (\<lambda>k. fresh_work\<lparr>w_next := (if k = NR_MAX_PARALLEL_IO - 1 then - 1 else of_nat k + 1),
       w_prev := of_nat k - 1\<rparr>) [0..<NR_MAX_PARALLEL_IO],
     free_seq = 0, free_seq_end = of_nat NR_MAX_PARALLEL_IO - 1, io_seq = - 1, io_seq_end = - 1, latest_nsecs = 0, worker_id = i\<rparr>"

definition NVMEV_IO_WORKER_INIT :: "nat \<Rightarrow> nvmev_io_worker list" where
  "NVMEV_IO_WORKER_INIT nr_io_workers = map (\<lambda>i. init_worker (of_nat i)) [0..<nr_io_workers]"

subsection \<open>Insertion\<close>

text \<open>From the end of the list: the last request that is due, or no later than the new one.\<close>

partial_function (option) insert_pos :: "nvmev_io_work list \<Rightarrow> u64 \<Rightarrow> u64 \<Rightarrow> u32 \<Rightarrow> u32 option" where
  "insert_pos q latest nsecs_target cur =
     (if cur = - 1 then Some (- 1)
      else do {
        w \<leftarrow> rd q (unat cur);
        if w_nsecs_target w \<le> latest then Some cur
        else if w_nsecs_target w \<le> nsecs_target then Some cur
        else insert_pos q latest nsecs_target (w_prev w)
      })"

declare insert_pos.simps [code]

definition set_next :: "u32 \<Rightarrow> u32 \<Rightarrow> nvmev_io_work list \<Rightarrow> nvmev_io_work list option" where
  "set_next i n q = modify q (unat i) (\<lambda>w. Some (w\<lparr>w_next := n\<rparr>))"

definition set_prev :: "u32 \<Rightarrow> u32 \<Rightarrow> nvmev_io_work list \<Rightarrow> nvmev_io_work list option" where
  "set_prev i p q = modify q (unat i) (\<lambda>w. Some (w\<lparr>w_prev := p\<rparr>))"

definition insert_req_sorted :: "u32 \<Rightarrow> u64 \<Rightarrow> nvmev_io_worker \<Rightarrow> nvmev_io_worker option" where
  "insert_req_sorted entry nsecs_target wk =
     (if io_seq wk = - 1 then Some (wk\<lparr>io_seq := entry, io_seq_end := entry\<rparr>)
      else do {
        let q = work_queue wk;
        pos \<leftarrow> insert_pos q (latest_nsecs wk) nsecs_target (io_seq_end wk);
        if pos = - 1 then do {
          q \<leftarrow> set_prev (io_seq wk) entry q;
          q \<leftarrow> set_next entry (io_seq wk) q;
          Some (wk\<lparr>work_queue := q, io_seq := entry\<rparr>)
        }
        else do {
          w \<leftarrow> rd q (unat pos);
          if w_next w = - 1 then do {
            q \<leftarrow> set_prev entry pos q;
            q \<leftarrow> set_next pos entry q;
            Some (wk\<lparr>work_queue := q, io_seq_end := entry\<rparr>)
          }
          else do {
            q \<leftarrow> set_prev entry pos q;
            q \<leftarrow> set_next entry (w_next w) q;
            q \<leftarrow> set_prev (w_next w) entry q;
            q \<leftarrow> set_next pos entry q;
            Some (wk\<lparr>work_queue := q\<rparr>)
          }
        }
      })"

subsection \<open>Requests\<close>

text \<open>The next free entry, kept back when it is the last one. The result is the entry, if any.\<close>

definition allocate_work_queue_entry :: "nvmev_io_worker \<Rightarrow> (nvmev_io_worker \<times> u32 option) option" where
  "allocate_work_queue_entry wk = do {
     w \<leftarrow> rd (work_queue wk) (unat (free_seq wk));
     if NR_MAX_PARALLEL_IO \<le> unat (w_next w) then Some (wk, None)
     else Some (wk\<lparr>free_seq := w_next w\<rparr>, Some (free_seq wk))
   }"

text \<open>What the dispatcher puts in an entry; \<open>fill\<close> says so of the rest of its fields.\<close>

definition enqueue_work ::
  "(nvmev_io_work \<Rightarrow> nvmev_io_work) \<Rightarrow> u64 \<Rightarrow> nvmev_io_worker \<Rightarrow> nvmev_io_worker option" where
  "enqueue_work fill nsecs_target wk = do {
     (wk, r) \<leftarrow> allocate_work_queue_entry wk;
     case r of
       None \<Rightarrow> Some wk
     | Some entry \<Rightarrow> do {
         q \<leftarrow> modify (work_queue wk) (unat entry) (\<lambda>w. Some ((fill w)\<lparr>w_nsecs_target := nsecs_target,
                is_completed := False, w_prev := - 1, w_next := - 1\<rparr>));
         insert_req_sorted entry nsecs_target (wk\<lparr>work_queue := q\<rparr>)
       }
   }"

definition fill_io_req :: "int \<Rightarrow> int \<Rightarrow> int \<Rightarrow> u32 \<Rightarrow> u64 \<Rightarrow> u64 \<Rightarrow> u32 \<Rightarrow> nvmev_io_work \<Rightarrow> nvmev_io_work" where
  "fill_io_req sqid cqid sq_entry command_id nsecs_start now status w =
     w\<lparr>w_sqid := sqid, w_cqid := cqid, w_sq_entry := sq_entry, w_command_id := command_id, w_nsecs_start := nsecs_start,
       w_nsecs_enqueue := now, w_status := status, is_copied := False, is_internal := False\<rparr>"

definition fill_internal :: "int \<Rightarrow> u64 \<Rightarrow> buf_ref \<Rightarrow> u64 \<Rightarrow> nvmev_io_work \<Rightarrow> nvmev_io_work" where
  "fill_internal sqid now buf n w =
     w\<lparr>w_sqid := sqid, w_nsecs_start := now, w_nsecs_enqueue := now, is_copied := True, is_internal := True,
       w_write_buffer := buf, buffs_to_release := n\<rparr>"

text \<open>\<open>now\<close> is the local clock.\<close>

definition enqueue_io_req ::
  "int \<Rightarrow> int \<Rightarrow> int \<Rightarrow> u32 \<Rightarrow> u64 \<Rightarrow> u64 \<Rightarrow> u32 \<Rightarrow> u64 \<Rightarrow> nvmev_io_worker \<Rightarrow> nvmev_io_worker option" where
  "enqueue_io_req sqid cqid sq_entry command_id nsecs_start now status nsecs_target =
     enqueue_work (fill_io_req sqid cqid sq_entry command_id nsecs_start now status) nsecs_target"

definition enqueue_internal :: "int \<Rightarrow> u64 \<Rightarrow> u64 \<Rightarrow> buf_ref \<Rightarrow> u64 \<Rightarrow> nvmev_io_worker \<Rightarrow> nvmev_io_worker option" where
  "enqueue_internal sqid now nsecs_target buf n = enqueue_work (fill_internal sqid now buf n) nsecs_target"

subsection \<open>Reclaiming\<close>

text \<open>The last of the leading requests that are completed and due.\<close>

partial_function (option) scan_completed :: "nvmev_io_work list \<Rightarrow> u64 \<Rightarrow> u32 \<Rightarrow> u32 \<Rightarrow> u32 option" where
  "scan_completed q latest cur last_entry =
     (if cur = - 1 then Some last_entry
      else do {
        w \<leftarrow> rd q (unat cur);
        if is_completed w \<and> is_copied w \<and> w_nsecs_target w \<le> latest then scan_completed q latest (w_next w) cur
        else Some last_entry
      })"

declare scan_completed.simps [code]

definition reclaim_worker :: "nvmev_io_worker \<Rightarrow> nvmev_io_worker option" where
  "reclaim_worker wk = do {
     let q = work_queue wk;
     let first_entry = io_seq wk;
     last_entry \<leftarrow> scan_completed q (latest_nsecs wk) first_entry (- 1);
     if last_entry \<noteq> - 1 then do {
       w \<leftarrow> rd q (unat last_entry);
       q \<leftarrow> (if w_next w \<noteq> - 1 then set_prev (w_next w) (- 1) q else Some q);
       q \<leftarrow> set_next last_entry (- 1) q;
       q \<leftarrow> set_prev first_entry (free_seq_end wk) q;
       q \<leftarrow> set_next (free_seq_end wk) first_entry q;
       Some (wk\<lparr>work_queue := q, io_seq := w_next w, free_seq_end := last_entry\<rparr>)
     }
     else Some wk
   }"

definition reclaim_completed_reqs :: "nvmev_io_worker list \<Rightarrow> nvmev_io_worker list option" where
  "reclaim_completed_reqs wks = fold_opt (\<lambda>turn wks. modify wks turn reclaim_worker) [0..<length wks] wks"

subsection \<open>The worker\<close>

text \<open>
  One round of the worker's inner loop at entry \<open>cur\<close> and time \<open>now\<close>. \<open>perform\<close> copies the data of
  a command and \<open>complete\<close> posts the completion of a command or releases the buffer of an internal
  operation, on the state \<open>d\<close> they work on. The first result is the next entry.
\<close>

definition worker_visit ::
  "(nvmev_io_work \<Rightarrow> 'd \<Rightarrow> (nvmev_io_work \<times> 'd) option) \<Rightarrow> (nvmev_io_work \<Rightarrow> 'd \<Rightarrow> 'd option) \<Rightarrow> u64 \<Rightarrow> u32
     \<Rightarrow> nvmev_io_worker \<times> 'd \<Rightarrow> (u32 \<times> nvmev_io_worker \<times> 'd) option" where
  "worker_visit perform complete now entry s = do {
     let (wk, d) = s;
     w \<leftarrow> rd (work_queue wk) (unat entry);
     let wk = wk\<lparr>latest_nsecs := now\<rparr>;
     if is_completed w then Some (w_next w, wk, d)
     else do {
       (w, d) \<leftarrow> (if is_copied w then Some (w, d) else if is_internal w then Some (w\<lparr>is_copied := True\<rparr>, d)
                  else map_option (\<lambda>(w, d). (w\<lparr>is_copied := True\<rparr>, d)) (perform w d));
       (w, d) \<leftarrow> (if w_nsecs_target w \<le> now then map_option (\<lambda>d. (w\<lparr>is_completed := True\<rparr>, d)) (complete w d)
                  else Some (w, d));
       q \<leftarrow> wr (work_queue wk) (unat entry) w;
       Some (w_next w, wk\<lparr>work_queue := q\<rparr>, d)
     }
   }"

text \<open>A pass from \<open>cur\<close> to the end of the list; \<open>now_at k\<close> is the time of its round \<open>k\<close>.\<close>

partial_function (option) worker_pass ::
  "(nvmev_io_work \<Rightarrow> 'd \<Rightarrow> (nvmev_io_work \<times> 'd) option) \<Rightarrow> (nvmev_io_work \<Rightarrow> 'd \<Rightarrow> 'd option) \<Rightarrow> (nat \<Rightarrow> u64)
     \<Rightarrow> nat \<Rightarrow> u32 \<Rightarrow> nvmev_io_worker \<times> 'd \<Rightarrow> (nvmev_io_worker \<times> 'd) option" where
  "worker_pass perform complete now_at k entry s =
     (if entry = - 1 then Some s
      else do {
        (entry, s) \<leftarrow> worker_visit perform complete (now_at k) entry s;
        worker_pass perform complete now_at (k + 1) entry s
      })"

declare worker_pass.simps [code]

end
