(* ===== verification/Wq_Lists.thy ===== *)
theory Wq_Lists
  imports Work_Queue
begin

text \<open>
  The two lists of a work queue as lists of indices: chains through \<open>w_next\<close> and \<open>w_prev\<close>, what
  the insertion, the reclaiming and the worker do to them, and the invariant that they partition
  the entries and that the requests are in order.
\<close>

subsection \<open>Chains\<close>

text \<open>The index of the first and of the last element of a list, or a default.\<close>

definition front :: "u32 \<Rightarrow> nat list \<Rightarrow> u32" where
  "front n xs = (case xs of [] \<Rightarrow> n | x # _ \<Rightarrow> of_nat x)"

definition rear :: "u32 \<Rightarrow> nat list \<Rightarrow> u32" where
  "rear p xs = (if xs = [] then p else of_nat (last xs))"

primrec nexts :: "nvmev_io_work list \<Rightarrow> nat list \<Rightarrow> u32 \<Rightarrow> bool" where
  "nexts q [] n = True"
| "nexts q (x # xs) n = (w_next (q ! x) = front n xs \<and> nexts q xs n)"

primrec prevs :: "nvmev_io_work list \<Rightarrow> u32 \<Rightarrow> nat list \<Rightarrow> bool" where
  "prevs q p [] = True"
| "prevs q p (x # xs) = (w_prev (q ! x) = p \<and> prevs q (of_nat x) xs)"

named_theorems chain_simps \<open>chains of appended lists\<close>

lemma front_simps [simp]: "front n [] = n" "front n (x # xs) = of_nat x"
  by (simp_all add: front_def)

lemma rear_simps [simp]: "rear p [] = p" "rear p (xs @ [x]) = of_nat x"
  by (simp_all add: rear_def)

lemma rear_Cons [simp]: "rear p (x # xs) = rear (of_nat x) xs"
  by (simp add: rear_def)

lemma front_append [chain_simps]: "front n (xs @ ys) = front (front n ys) xs"
  by (cases xs) simp_all

lemma rear_append [chain_simps]: "rear p (xs @ ys) = rear (rear p xs) ys"
  by (simp add: rear_def)

lemma nexts_append [chain_simps]: "nexts q (xs @ ys) n \<longleftrightarrow> nexts q xs (front n ys) \<and> nexts q ys n"
  by (induction xs) (auto simp: front_append)

lemma prevs_append [chain_simps]: "prevs q p (xs @ ys) \<longleftrightarrow> prevs q p xs \<and> prevs q (rear p xs) ys"
  by (induction xs arbitrary: p) auto

lemma nexts_cong: "(\<And>x. x \<in> set xs \<Longrightarrow> w_next (q' ! x) = w_next (q ! x)) \<Longrightarrow> nexts q' xs n = nexts q xs n"
  by (induction xs) auto

lemma prevs_cong: "(\<And>x. x \<in> set xs \<Longrightarrow> w_prev (q' ! x) = w_prev (q ! x)) \<Longrightarrow> prevs q' p xs = prevs q p xs"
  by (induction xs arbitrary: p) auto

text \<open>Replacing what a chain ends in, or what it comes from.\<close>

lemma nexts_retarget:
  assumes "nexts q xs n" "xs \<noteq> []" "distinct xs"
    and "w_next (q' ! last xs) = n'" "\<And>x. x \<in> set xs \<Longrightarrow> x \<noteq> last xs \<Longrightarrow> w_next (q' ! x) = w_next (q ! x)"
  shows "nexts q' xs n'"
proof -
  obtain ys z where xs: "xs = ys @ [z]" using assms(2) by (metis append_butlast_last_id)
  have "w_next (q' ! x) = w_next (q ! x)" if "x \<in> set ys" for x using assms(3,5) that xs by auto
  then have "nexts q' ys (of_nat z)" using nexts_cong [of ys q' q] assms(1) xs by (simp add: chain_simps)
  then show ?thesis using assms(4) xs by (simp add: chain_simps)
qed

lemma prevs_retarget:
  assumes "prevs q p (x # xs)" "distinct (x # xs)"
    and "w_prev (q' ! x) = p'" "\<And>y. y \<in> set xs \<Longrightarrow> w_prev (q' ! y) = w_prev (q ! y)"
  shows "prevs q' p' (x # xs)"
proof -
  have "prevs q' (of_nat x) xs = prevs q (of_nat x) xs" by (rule prevs_cong) (rule assms(4))
  then show ?thesis using assms(1,3) by simp
qed

lemma chain_insert:
  assumes dist: "distinct (us @ e # vs)" and chain: "nexts q (us @ vs) (- 1)" "prevs q (- 1) (us @ vs)"
    and n: "\<And>x. x \<in> set (us @ e # vs) \<Longrightarrow> w_next (q' ! x) =
      (if x = e then front (- 1) vs else if us \<noteq> [] \<and> x = last us then of_nat e else w_next (q ! x))"
    and p: "\<And>x. x \<in> set (us @ e # vs) \<Longrightarrow> w_prev (q' ! x) =
      (if x = e then rear (- 1) us else if vs \<noteq> [] \<and> x = hd vs then of_nat e else w_prev (q ! x))"
  shows "nexts q' (us @ e # vs) (- 1) \<and> prevs q' (- 1) (us @ e # vs)"
proof -
  have d: "e \<notin> set us" "e \<notin> set vs" "set us \<inter> set vs = {}" "distinct us" "distinct vs" using dist by auto
  have nu: "w_next (q' ! x) = w_next (q ! x)" if "x \<in> set us" "x \<noteq> last us" for x
  proof -
    have "x \<noteq> e" using that d(1) by blast
    then show ?thesis using n [of x] that by (auto split: if_splits)
  qed
  have nv: "w_next (q' ! x) = w_next (q ! x)" if "x \<in> set vs" for x
  proof -
    have "x \<noteq> e" "\<not> (us \<noteq> [] \<and> x = last us)" using that d last_in_set by blast+
    then show ?thesis using n [of x] that by (auto split: if_splits)
  qed
  have pu: "w_prev (q' ! x) = w_prev (q ! x)" if "x \<in> set us" for x
  proof -
    have "x \<noteq> e" "\<not> (vs \<noteq> [] \<and> x = hd vs)" using that d hd_in_set by blast+
    then show ?thesis using p [of x] that by (auto split: if_splits)
  qed
  have pv: "w_prev (q' ! x) = w_prev (q ! x)" if "x \<in> set vs" "x \<noteq> hd vs" for x
  proof -
    have "x \<noteq> e" using that d(2) by blast
    then show ?thesis using p [of x] that by (auto split: if_splits)
  qed
  have C: "nexts q us (front (- 1) vs)" "nexts q vs (- 1)" "prevs q (- 1) us" "prevs q (rear (- 1) us) vs"
    using chain by (simp_all add: chain_simps)
  have "nexts q' us (of_nat e)"
  proof (cases "us = []")
    case False
    then have "last us \<noteq> e" "last us \<in> set us" using d(1) last_in_set by blast+
    then have "w_next (q' ! last us) = of_nat e" using n [of "last us"] False by simp
    then show ?thesis using nexts_retarget [OF C(1) False d(4)] nu by blast
  qed simp
  moreover have "nexts q' vs (- 1)" using C(2) nexts_cong [of vs q' q] nv by blast
  moreover have "prevs q' (- 1) us" using C(3) prevs_cong [of us q' q] pu by blast
  moreover have "prevs q' (of_nat e) vs"
  proof (cases vs)
    case (Cons v ws)
    have "v \<noteq> e" "\<And>y. y \<in> set ws \<Longrightarrow> y \<noteq> v" using d(2,5) Cons by auto
    moreover have "w_prev (q' ! v) = of_nat e" using p [of v] Cons calculation(1) by simp
    moreover have "w_prev (q' ! y) = w_prev (q ! y)" if "y \<in> set ws" for y using pv [of y] calculation(2) that Cons by simp
    ultimately show ?thesis
      using prevs_retarget [of q "rear (- 1) us" v ws q' "of_nat e"] C(4) d(5) unfolding Cons by blast
  qed simp
  ultimately show ?thesis using n [of e] p [of e] by (simp add: chain_simps)
qed

subsection \<open>Indices\<close>

lemma unat_index: "x < NR_MAX_PARALLEL_IO \<Longrightarrow> unat (of_nat x :: u32) = x"
  by (intro unat_of_nat_small) (simp add: NR_MAX_PARALLEL_IO_def)

lemma index_not_end: "x < NR_MAX_PARALLEL_IO \<Longrightarrow> (of_nat x :: u32) \<noteq> - 1"
proof
  assume x: "x < NR_MAX_PARALLEL_IO" and "(of_nat x :: u32) = - 1"
  then have "unat (of_nat x :: u32) = unat (- 1 :: u32)" by simp
  then show False using x by (simp add: unat_index unsigned_minus_1_eq_mask mask_eq_exp_minus_1 NR_MAX_PARALLEL_IO_def)
qed

lemma front_end: "set xs \<subseteq> {..<NR_MAX_PARALLEL_IO} \<Longrightarrow> front (- 1) xs = - 1 \<longleftrightarrow> xs = []"
  using index_not_end by (cases xs) auto

lemma rear_end: "set xs \<subseteq> {..<NR_MAX_PARALLEL_IO} \<Longrightarrow> rear (- 1) xs = - 1 \<longleftrightarrow> xs = []"
  using index_not_end by (auto simp: rear_def dest: last_in_set)

lemma set_next_in: "x < length q \<Longrightarrow> length q = NR_MAX_PARALLEL_IO \<Longrightarrow> set_next (of_nat x) n q = Some (q[x := (q ! x)\<lparr>w_next := n\<rparr>])"
  by (simp add: set_next_def unat_index)

lemma set_prev_in: "x < length q \<Longrightarrow> length q = NR_MAX_PARALLEL_IO \<Longrightarrow> set_prev (of_nat x) p q = Some (q[x := (q ! x)\<lparr>w_prev := p\<rparr>])"
  by (simp add: set_prev_def unat_index)

subsection \<open>The place of a request\<close>

text \<open>The requests after which a new one is not put: those neither due nor earlier.\<close>

definition late :: "nvmev_io_work list \<Rightarrow> u64 \<Rightarrow> u64 \<Rightarrow> nat \<Rightarrow> bool" where
  "late q latest t x \<longleftrightarrow> \<not> (w_nsecs_target (q ! x) \<le> latest \<or> w_nsecs_target (q ! x) \<le> t)"

definition earlier :: "nvmev_io_work list \<Rightarrow> u64 \<Rightarrow> u64 \<Rightarrow> nat list \<Rightarrow> nat list" where
  "earlier q latest t xs = rev (dropWhile (late q latest t) (rev xs))"

definition later :: "nvmev_io_work list \<Rightarrow> u64 \<Rightarrow> u64 \<Rightarrow> nat list \<Rightarrow> nat list" where
  "later q latest t xs = rev (takeWhile (late q latest t) (rev xs))"

lemma earlier_later: "earlier q latest t xs @ later q latest t xs = xs"
  by (simp add: earlier_def later_def flip: rev_append)

lemma later_late: "x \<in> set (later q latest t xs) \<Longrightarrow> late q latest t x"
  by (auto simp: later_def dest: set_takeWhileD)

lemma earlier_last: "earlier q latest t xs \<noteq> [] \<Longrightarrow> \<not> late q latest t (last (earlier q latest t xs))"
  by (metis earlier_def hd_dropWhile last_rev rev_is_Nil_conv)

lemma insert_pos_spec:
  assumes "set xs \<subseteq> {..<NR_MAX_PARALLEL_IO}" "length q = NR_MAX_PARALLEL_IO" "prevs q (- 1) xs"
  shows "insert_pos q latest t (rear (- 1) xs) = Some (rear (- 1) (earlier q latest t xs))"
  using assms
proof (induction xs rule: rev_induct)
  case Nil
  then show ?case by (subst insert_pos.simps) (simp add: earlier_def)
next
  case (snoc x xs)
  have x: "x < length q" "x < NR_MAX_PARALLEL_IO" using snoc.prems by auto
  have "w_prev (q ! x) = rear (- 1) xs" using snoc.prems(3) by (simp add: chain_simps)
  then show ?case
    using snoc x index_not_end [OF x(2)]
    by (subst insert_pos.simps) (simp add: unat_index late_def earlier_def chain_simps)
qed

end
