(* ===== verification/Wq_Inv.thy ===== *)
theory Wq_Inv
  imports Wq_Lists
begin

text \<open>
  The invariant of a work queue and the contracts of its operations against two lists of indices:
  requests \<open>xs\<close> and free entries \<open>fs\<close>.
\<close>

subsection \<open>The invariant\<close>

abbreviation target_of :: "nvmev_io_worker \<Rightarrow> nat \<Rightarrow> u64" where
  "target_of wk x \<equiv> w_nsecs_target (work_queue wk ! x)"

definition io_chain :: "nvmev_io_worker \<Rightarrow> nat list \<Rightarrow> bool" where
  "io_chain wk xs \<longleftrightarrow> nexts (work_queue wk) xs (- 1) \<and> prevs (work_queue wk) (- 1) xs \<and>
     io_seq wk = front (- 1) xs \<and> (xs \<noteq> [] \<longrightarrow> io_seq_end wk = rear (- 1) xs)"

definition free_chain :: "nvmev_io_worker \<Rightarrow> nat list \<Rightarrow> bool" where
  "free_chain wk fs \<longleftrightarrow> fs \<noteq> [] \<and> nexts (work_queue wk) fs (- 1) \<and>
     free_seq wk = front (- 1) fs \<and> free_seq_end wk = rear (- 1) fs"

text \<open>Requests are in the order of their targets, except that those already due come in any order.\<close>

definition in_order :: "nvmev_io_worker \<Rightarrow> nat list \<Rightarrow> bool" where
  "in_order wk xs \<longleftrightarrow> sorted_wrt (\<lambda>x y. target_of wk x \<le> target_of wk y \<or> target_of wk x \<le> latest_nsecs wk) xs"

lemma in_orderI:
  assumes "\<And>x. x \<in> set xs \<Longrightarrow> target_of wk x = T x"
    and "sorted_wrt (\<lambda>x y. T x \<le> T y \<or> T x \<le> latest_nsecs wk) xs"
  shows "in_order wk xs"
  unfolding in_order_def by (rule sorted_wrt_mono_rel [OF _ assms(2)]) (simp add: assms(1))

definition wq_rep :: "nvmev_io_worker \<Rightarrow> nat list \<Rightarrow> nat list \<Rightarrow> bool" where
  "wq_rep wk xs fs \<longleftrightarrow> length (work_queue wk) = NR_MAX_PARALLEL_IO \<and> distinct (xs @ fs) \<and>
     set (xs @ fs) = {..<NR_MAX_PARALLEL_IO} \<and> io_chain wk xs \<and> free_chain wk fs \<and> in_order wk xs"

lemma wq_repD:
  assumes "wq_rep wk xs fs"
  shows "length (work_queue wk) = NR_MAX_PARALLEL_IO" "distinct xs" "distinct fs" "set xs \<inter> set fs = {}"
    "set xs \<subseteq> {..<NR_MAX_PARALLEL_IO}" "set fs \<subseteq> {..<NR_MAX_PARALLEL_IO}" "io_chain wk xs" "free_chain wk fs" "in_order wk xs"
  using assms by (auto simp: wq_rep_def)

lemma chain_upt:
  assumes "\<And>k. k < n \<Longrightarrow> w_next (q ! k) = (if k = n - 1 then z else of_nat k + 1)"
  shows "m \<le> n \<Longrightarrow> nexts q [m..<n] z"
proof (induction "n - m" arbitrary: m)
  case (Suc d)
  then have "[m..<n] = m # [Suc m..<n]" by (simp add: upt_rec)
  moreover have "w_next (q ! m) = front z [Suc m..<n]" using assms [of m] Suc by (auto simp: upt_rec)
  ultimately show ?case using Suc by simp
qed simp

lemma PARALLEL_IO_pos: "0 < NR_MAX_PARALLEL_IO"
  by (simp add: NR_MAX_PARALLEL_IO_def)

lemma init_worker_rep: "wq_rep (init_worker i) [] [0..<NR_MAX_PARALLEL_IO]"
proof -
  let ?N = NR_MAX_PARALLEL_IO and ?q = "work_queue (init_worker i)"
  have q: "length ?q = ?N" "\<And>k. k < ?N \<Longrightarrow> w_next (?q ! k) = (if k = ?N - 1 then - 1 else of_nat k + 1)"
    by (simp_all add: init_worker_def)
  have "nexts ?q [0..<?N] (- 1)" by (rule chain_upt [OF q(2)]) simp_all
  moreover have "front (- 1) [0..<?N] = 0" using PARALLEL_IO_pos by (simp add: upt_conv_Cons)
  moreover have "rear (- 1) [0..<?N] = of_nat ?N - 1" using PARALLEL_IO_pos by (simp add: rear_def of_nat_diff)
  moreover have "free_seq (init_worker i) = 0" "free_seq_end (init_worker i) = of_nat ?N - 1" "io_seq (init_worker i) = - 1"
    by (simp_all add: init_worker_def)
  ultimately show ?thesis using q(1) PARALLEL_IO_pos
    by (simp add: wq_rep_def io_chain_def free_chain_def in_order_def lessThan_atLeast0)
qed

subsection \<open>Insertion\<close>

definition relink :: "nvmev_io_work list \<Rightarrow> nat list \<Rightarrow> nat \<Rightarrow> nat list \<Rightarrow> nvmev_io_work list" where
  "relink q us e vs = map (\<lambda>x. (q ! x)\<lparr>
     w_next := (if x = e then front (- 1) vs else if us \<noteq> [] \<and> x = last us then of_nat e else w_next (q ! x)),
     w_prev := (if x = e then rear (- 1) us else if vs \<noteq> [] \<and> x = hd vs then of_nat e else w_prev (q ! x))\<rparr>) [0..<length q]"

lemma length_relink [simp]: "length (relink q us e vs) = length q"
  by (simp add: relink_def)

lemma insert_req_sorted_spec:
  fixes t :: u64
  assumes len: "length (work_queue wk) = NR_MAX_PARALLEL_IO" and chain: "io_chain wk xs"
    and dist: "distinct (e # xs)" and sub: "set (e # xs) \<subseteq> {..<NR_MAX_PARALLEL_IO}"
    and fresh: "w_next (work_queue wk ! e) = - 1" "w_prev (work_queue wk ! e) = - 1"
  defines "us \<equiv> earlier (work_queue wk) (latest_nsecs wk) t xs" and "vs \<equiv> later (work_queue wk) (latest_nsecs wk) t xs"
  shows "insert_req_sorted (of_nat e) t wk = Some (wk\<lparr>work_queue := relink (work_queue wk) us e vs,
    io_seq := front (of_nat e) us, io_seq_end := rear (of_nat e) vs\<rparr>)"
proof -
  let ?q = "work_queue wk"
  have xs: "us @ vs = xs" by (simp add: us_def vs_def earlier_later)
  have e: "e < length ?q" "e < NR_MAX_PARALLEL_IO" using sub len by auto
  have D: "distinct us" "distinct vs" "e \<notin> set us" "e \<notin> set vs" "set us \<inter> set vs = {}" using dist xs by auto
  have S: "set us \<subseteq> {..<NR_MAX_PARALLEL_IO}" "set vs \<subseteq> {..<NR_MAX_PARALLEL_IO}" using sub xs by auto
  have pos: "insert_pos ?q (latest_nsecs wk) t (io_seq_end wk) = Some (rear (- 1) us)" if "xs \<noteq> []"
    using insert_pos_spec [of xs ?q] chain len sub that by (simp add: io_chain_def us_def)
  show ?thesis
  proof (cases "xs = []")
    case True
    then have "us = []" "vs = []" using xs by simp_all
    moreover have "relink ?q [] e [] = ?q"
      using fresh by (intro nth_equalityI) (auto simp: relink_def)
    ultimately show ?thesis using True chain by (simp add: insert_req_sorted_def io_chain_def)
  next
    case False
    note P = pos [OF False]
    have seq: "io_seq wk \<noteq> - 1" "io_seq wk = front (- 1) xs" "io_seq_end wk = rear (- 1) xs"
      using False chain front_end [of xs] sub by (auto simp: io_chain_def)
    show ?thesis
    proof (cases "us = []")
      case True
      then obtain v ws where v: "vs = v # ws" "xs = v # ws" using False xs by (cases vs) auto
      have "v < length ?q" "v \<noteq> e" using S(2) len v D(4) by auto
      moreover have "relink ?q [] e vs = ?q[v := (?q ! v)\<lparr>w_prev := of_nat e\<rparr>, e := (?q ! e)\<lparr>w_next := of_nat v\<rparr>]"
        using calculation e v fresh by (intro nth_equalityI) (auto simp: relink_def nth_list_update)
      ultimately show ?thesis
        using P seq True v e len by (simp add: insert_req_sorted_def Let_def set_next_in set_prev_in)
    next
      case us: False
      let ?l = "last us"
      have l: "?l < length ?q" "?l < NR_MAX_PARALLEL_IO" "?l \<noteq> e" "rear (- 1) us = of_nat ?l"
        using us len D(3) last_in_set [OF us] subsetD [OF S(1) last_in_set [OF us]] by (auto simp: rear_def)
      have nx: "w_next (?q ! ?l) = front (- 1) vs"
      proof -
        obtain ys where "us = ys @ [?l]" using us by (metis append_butlast_last_id)
        then have "nexts ?q (ys @ [?l] @ vs) (- 1)" using chain xs by (metis append.assoc io_chain_def)
        then show ?thesis by (simp add: chain_simps)
      qed
      have ne: "rear (- 1) us \<noteq> - 1" using rear_end [OF S(1)] us by simp
      have fu: "front (of_nat e) us = io_seq wk" using us seq(2) xs by (cases us) auto
      show ?thesis
      proof (cases vs)
        case Nil
        have "relink ?q us e [] = ?q[e := (?q ! e)\<lparr>w_prev := of_nat ?l\<rparr>, ?l := (?q ! ?l)\<lparr>w_next := of_nat e\<rparr>]"
          using l e us fresh by (intro nth_equalityI) (auto simp: relink_def nth_list_update)
        then show ?thesis
          using P seq(1) ne l e len nx Nil fu by (simp add: insert_req_sorted_def Let_def set_next_in set_prev_in unat_index)
      next
        case (Cons v ws)
        have v: "v < length ?q" "v < NR_MAX_PARALLEL_IO" "v \<noteq> e" "v \<noteq> ?l" "front (- 1) vs = of_nat v"
          using S(2) len Cons D(4,5) last_in_set [OF us] by auto
        have "relink ?q us e vs = ?q[e := (?q ! e)\<lparr>w_prev := of_nat ?l, w_next := of_nat v\<rparr>,
            v := (?q ! v)\<lparr>w_prev := of_nat e\<rparr>, ?l := (?q ! ?l)\<lparr>w_next := of_nat e\<rparr>]"
          using l e v us Cons by (intro nth_equalityI) (auto simp: relink_def nth_list_update)
        moreover have "rear (of_nat e) vs = io_seq_end wk" using Cons seq(3) xs by (auto simp: chain_simps simp flip: xs)
        ultimately show ?thesis
          using P seq(1) ne l e len nx v fu index_not_end [OF v(2)]
          by (simp add: insert_req_sorted_def Let_def set_next_in set_prev_in unat_index nth_list_update)
      qed
    qed
  qed
qed

text \<open>Two entries that differ only in their links.\<close>

definition same_job :: "nvmev_io_work \<Rightarrow> nvmev_io_work \<Rightarrow> bool" where
  "same_job w w' \<longleftrightarrow> w'\<lparr>w_next := 0, w_prev := 0\<rparr> = w\<lparr>w_next := 0, w_prev := 0\<rparr>"

lemma same_job_refl [simp]: "same_job w w"
  by (simp add: same_job_def)

lemma same_job_trans: "same_job w w' \<Longrightarrow> same_job w' w'' \<Longrightarrow> same_job w w''"
  by (simp add: same_job_def)

lemma same_job_links [simp]: "same_job w (w'\<lparr>w_next := n\<rparr>) = same_job w w'" "same_job w (w'\<lparr>w_prev := p\<rparr>) = same_job w w'"
  "same_job (w\<lparr>w_next := n\<rparr>) w' = same_job w w'" "same_job (w\<lparr>w_prev := p\<rparr>) w' = same_job w w'"
  by (simp_all add: same_job_def)

lemma same_jobD:
  assumes "same_job w w'"
  shows "w_nsecs_target w' = w_nsecs_target w" "is_completed w' = is_completed w" "is_copied w' = is_copied w"
proof -
  note eq = assms [unfolded same_job_def]
  show "w_nsecs_target w' = w_nsecs_target w" "is_completed w' = is_completed w" "is_copied w' = is_copied w"
    using arg_cong [OF eq, of w_nsecs_target] arg_cong [OF eq, of is_completed] arg_cong [OF eq, of is_copied] by simp_all
qed

lemma relink_job: "x < length q \<Longrightarrow> same_job (q ! x) (relink q us e vs ! x)"
  by (simp add: relink_def)

lemma relink_other: "x < length q \<Longrightarrow> x \<noteq> e \<Longrightarrow> x \<notin> set us \<Longrightarrow> x \<notin> set vs \<Longrightarrow> relink q us e vs ! x = q ! x"
proof -
  assume x: "x < length q" "x \<noteq> e" "x \<notin> set us" "x \<notin> set vs"
  have "us = [] \<or> x \<noteq> last us" "vs = [] \<or> x \<noteq> hd vs"
    using x(3,4) last_in_set [of us] hd_in_set [of vs] by metis+
  then have n: "(if x = e then front (- 1) vs else if us \<noteq> [] \<and> x = last us then of_nat e else w_next (q ! x)) = w_next (q ! x)"
    and p: "(if x = e then rear (- 1) us else if vs \<noteq> [] \<and> x = hd vs then of_nat e else w_prev (q ! x)) = w_prev (q ! x)"
    using x(2) by (auto split: if_splits)
  have "relink q us e vs ! x = (q ! x)\<lparr>w_next := w_next (q ! x), w_prev := w_prev (q ! x)\<rparr>"
    unfolding relink_def using x(1) by (subst nth_map) (simp, simp only: nth_upt add_0 n p)
  then show ?thesis by simp
qed

lemma relink_chain:
  assumes "distinct (us @ e # vs)" "set (us @ e # vs) \<subseteq> {..<length q}" "nexts q (us @ vs) (- 1)" "prevs q (- 1) (us @ vs)"
  shows "nexts (relink q us e vs) (us @ e # vs) (- 1) \<and> prevs (relink q us e vs) (- 1) (us @ e # vs)"
proof (rule chain_insert [OF assms(1,3,4)])
  fix x assume "x \<in> set (us @ e # vs)"
  then have "x < length q" using assms(2) by blast
  then show "w_next (relink q us e vs ! x) = (if x = e then front (- 1) vs else if us \<noteq> [] \<and> x = last us then of_nat e else w_next (q ! x))"
    "w_prev (relink q us e vs ! x) = (if x = e then rear (- 1) us else if vs \<noteq> [] \<and> x = hd vs then of_nat e else w_prev (q ! x))"
    by (simp_all add: relink_def)
qed

text \<open>The order after an insertion at the place the code finds.\<close>

lemma insert_in_order:
  assumes sorted: "sorted_wrt (\<lambda>x y. T x \<le> T y \<or> T x \<le> latest) (us @ vs)"
    and early: "us \<noteq> [] \<Longrightarrow> T (last us) \<le> latest \<or> T (last us) \<le> t" and late: "\<forall>x \<in> set vs. t < T x" and e: "T e = (t :: u64)"
  shows "sorted_wrt (\<lambda>x y. T x \<le> T y \<or> T x \<le> latest) (us @ e # vs)"
proof -
  have "T x \<le> t \<or> T x \<le> latest" if x: "x \<in> set us" for x
  proof (cases us rule: rev_cases)
    case Nil
    then show ?thesis using x by simp
  next
    case (snoc ys z)
    have z: "T z \<le> latest \<or> T z \<le> t" using early snoc by simp
    have "\<forall>y \<in> set ys. T y \<le> T z \<or> T y \<le> latest" using sorted unfolding snoc sorted_wrt_append by auto
    then have "x = z \<or> T x \<le> T z \<or> T x \<le> latest" using x snoc by auto
    moreover have "T x \<le> T z \<Longrightarrow> T z \<le> b \<Longrightarrow> T x \<le> b" for b by (rule order_trans)
    ultimately show ?thesis using z by blast
  qed
  moreover have "t \<le> T x" if "x \<in> set vs" for x using late that by (simp add: less_imp_le)
  ultimately show ?thesis using sorted unfolding sorted_wrt_append sorted_wrt.simps by (auto simp: e)
qed

definition filled :: "(nvmev_io_work \<Rightarrow> nvmev_io_work) \<Rightarrow> u64 \<Rightarrow> nvmev_io_work \<Rightarrow> nvmev_io_work" where
  "filled fill t w = (fill w)\<lparr>w_nsecs_target := t, is_completed := False, w_prev := - 1, w_next := - 1\<rparr>"

lemma enqueue_work_full:
  assumes "wq_rep wk xs [e]"
  shows "enqueue_work fill t wk = Some wk"
proof -
  note R = wq_repD [OF assms]
  have "w_next (work_queue wk ! e) = - 1" "free_seq wk = of_nat e" "e < NR_MAX_PARALLEL_IO"
    using R(6,8) by (simp_all add: free_chain_def)
  then show ?thesis using R(1)
    by (simp add: enqueue_work_def allocate_work_queue_entry_def unat_index unsigned_minus_1_eq_mask mask_eq_exp_minus_1)
      (simp add: NR_MAX_PARALLEL_IO_def)
qed

lemma enqueue_work_spec:
  fixes t :: u64
  assumes rep: "wq_rep wk xs (e # f # fs)"
  defines "us \<equiv> earlier (work_queue wk) (latest_nsecs wk) t xs" and "vs \<equiv> later (work_queue wk) (latest_nsecs wk) t xs"
  shows "\<exists>wk'. enqueue_work fill t wk = Some wk' \<and> wq_rep wk' (us @ e # vs) (f # fs) \<and>
    same_job (filled fill t (work_queue wk ! e)) (work_queue wk' ! e) \<and>
    (\<forall>x < NR_MAX_PARALLEL_IO. x \<noteq> e \<longrightarrow> same_job (work_queue wk ! x) (work_queue wk' ! x)) \<and>
    (\<forall>x \<in> set (f # fs). work_queue wk' ! x = work_queue wk ! x) \<and> latest_nsecs wk' = latest_nsecs wk"
proof -
  let ?q = "work_queue wk" let ?q1 = "?q[e := filled fill t (?q ! e)]"
  note R = wq_repD [OF rep]
  have xs: "us @ vs = xs" by (simp add: us_def vs_def earlier_later)
  have e: "e < length ?q" "e < NR_MAX_PARALLEL_IO" "f < NR_MAX_PARALLEL_IO" "e \<notin> set xs" "e \<notin> set (f # fs)" using R by auto
  have F: "free_seq wk = of_nat e" "w_next (?q ! e) = of_nat f" "nexts ?q (f # fs) (- 1)" "free_seq_end wk = rear (- 1) (f # fs)"
    using R(8) by (simp_all add: free_chain_def)
  let ?wk1 = "wk\<lparr>free_seq := of_nat f, work_queue := ?q1\<rparr>"
  have same: "?q1 ! x = ?q ! x" if "x \<in> set xs" for x
  proof -
    have "x \<noteq> e" using that e(4) by blast
    then show ?thesis by simp
  qed
  have chain1: "nexts ?q1 xs (- 1)" "prevs ?q1 (- 1) xs" using R(7) nexts_cong [of xs ?q1 ?q] prevs_cong [of xs ?q1 ?q] same
    by (auto simp: io_chain_def)
  have io1: "io_chain ?wk1 xs" using R(7) chain1 by (simp add: io_chain_def)
  have eq: "earlier ?q1 l t xs = earlier ?q l t xs" "later ?q1 l t xs = later ?q l t xs" for l
  proof -
    have L: "late ?q1 l t x = late ?q l t x" if "x \<in> set (rev xs)" for x using same [of x] that by (simp add: late_def)
    show "earlier ?q1 l t xs = earlier ?q l t xs"
      unfolding earlier_def by (intro arg_cong [where f = rev] dropWhile_cong [OF refl L])
    show "later ?q1 l t xs = later ?q l t xs"
      unfolding later_def by (intro arg_cong [where f = rev] takeWhile_cong [OF refl L])
  qed
  let ?wk' = "?wk1\<lparr>work_queue := relink ?q1 us e vs, io_seq := front (of_nat e) us, io_seq_end := rear (of_nat e) vs\<rparr>"
  have ins: "insert_req_sorted (of_nat e) t ?wk1 = Some ?wk'"
    using insert_req_sorted_spec [of ?wk1 xs e t] R(1,2,5) e io1 eq by (simp add: us_def vs_def filled_def)
  have enq: "enqueue_work fill t wk = Some ?wk'"
    using ins R(1) e F(1,2)
    by (simp add: enqueue_work_def allocate_work_queue_entry_def unat_index filled_def not_le [symmetric])
  have len: "length (relink ?q1 us e vs) = NR_MAX_PARALLEL_IO" using R(1) by simp
  have dist: "distinct (us @ e # vs)" using R(2) e(4) xs by auto
  have sub: "set (us @ e # vs) \<subseteq> {..<length ?q1}" using R(1,5) e(1) xs by auto
  have chain: "nexts (relink ?q1 us e vs) (us @ e # vs) (- 1) \<and> prevs (relink ?q1 us e vs) (- 1) (us @ e # vs)"
    using relink_chain [OF dist sub] chain1 xs by simp
  have front: "front (of_nat e) us = front (- 1) (us @ e # vs)" "rear (of_nat e) vs = rear (- 1) (us @ e # vs)"
    by (simp_all add: chain_simps)
  have free: "relink ?q1 us e vs ! x = ?q ! x" if "x \<in> set (f # fs)" for x
  proof -
    have "x \<noteq> e" "x \<notin> set us" "x \<notin> set vs" "x < length ?q" using that e(5) R(1,4,6) xs by auto
    then show ?thesis by (simp add: relink_other)
  qed
  have fchain: "nexts (relink ?q1 us e vs) (f # fs) (- 1)"
    using F(3) nexts_cong [of "f # fs" "relink ?q1 us e vs" ?q "- 1"] by (simp only: free)
  have jobs: "same_job (?q1 ! x) (relink ?q1 us e vs ! x)" if "x < NR_MAX_PARALLEL_IO" for x
    using that R(1) by (intro relink_job) simp
  have T: "w_nsecs_target (relink ?q1 us e vs ! x) = (if x = e then t else w_nsecs_target (?q ! x))" if "x < NR_MAX_PARALLEL_IO" for x
    using same_jobD(1) [OF jobs [OF that]] e(1) by (auto simp: filled_def nth_list_update)
  have order: "in_order ?wk' (us @ e # vs)"
  proof -
    let ?T = "\<lambda>x. if x = e then t else w_nsecs_target (?q ! x)"
    have "sorted_wrt (\<lambda>x y. ?T x \<le> ?T y \<or> ?T x \<le> latest_nsecs wk) xs"
      by (rule sorted_wrt_mono_rel [OF _ R(9) [unfolded in_order_def]]) (use e(4) in auto)
    then have "sorted_wrt (\<lambda>x y. ?T x \<le> ?T y \<or> ?T x \<le> latest_nsecs wk) (us @ vs)" by (simp only: xs)
    moreover have "?T (last us) \<le> latest_nsecs wk \<or> ?T (last us) \<le> t" if "us \<noteq> []"
      using earlier_last [of ?q "latest_nsecs wk" t xs] that by (auto simp: us_def late_def)
    moreover have "\<forall>x \<in> set vs. t < ?T x"
    proof
      fix x assume x: "x \<in> set vs"
      then have "x \<noteq> e" using e(4) xs by auto
      moreover have "late ?q (latest_nsecs wk) t x" using x later_late unfolding vs_def by blast
      ultimately show "t < ?T x" by (simp add: late_def not_le)
    qed
    ultimately have "sorted_wrt (\<lambda>x y. ?T x \<le> ?T y \<or> ?T x \<le> latest_nsecs wk) (us @ e # vs)"
      by (rule insert_in_order) (assumption | rule if_P [OF refl])+
    moreover have "target_of ?wk' x = ?T x" if "x \<in> set (us @ e # vs)" for x
      using T [of x] subsetD [OF sub that] R(1) by simp
    ultimately show ?thesis using in_orderI [of "us @ e # vs" ?wk' ?T] by simp
  qed
  have all: "set ((us @ e # vs) @ f # fs) = {..<NR_MAX_PARALLEL_IO}"
  proof -
    have "set (xs @ e # f # fs) = {..<NR_MAX_PARALLEL_IO}" using rep by (simp add: wq_rep_def)
    then show ?thesis unfolding xs [symmetric] by auto
  qed
  have dist2: "distinct ((us @ e # vs) @ f # fs)"
  proof -
    have "distinct (xs @ e # f # fs)" using rep by (simp add: wq_rep_def)
    then show ?thesis unfolding xs [symmetric] by auto
  qed
  have io: "io_chain ?wk' (us @ e # vs)" using chain front by (simp add: io_chain_def)
  have fr: "free_chain ?wk' (f # fs)" using fchain F(4) by (simp add: free_chain_def)
  have "wq_rep ?wk' (us @ e # vs) (f # fs)"
    unfolding wq_rep_def using len dist2 all io fr order by (intro conjI) simp_all
  moreover have "same_job (filled fill t (?q ! e)) (work_queue ?wk' ! e)" using jobs [OF e(2)] e(1) by simp
  moreover have "same_job (?q ! x) (work_queue ?wk' ! x)" if "x < NR_MAX_PARALLEL_IO" "x \<noteq> e" for x
    using jobs [OF that(1)] that(2) by simp
  moreover have "work_queue ?wk' ! x = ?q ! x" if "x \<in> set (f # fs)" for x using free [OF that] by simp
  moreover have "latest_nsecs ?wk' = latest_nsecs wk" by simp
  ultimately show ?thesis using enq by blast
qed

end
