(* ===== verification/Wq_Steps.thy ===== *)
theory Wq_Steps
  imports Wq_Inv "HOL-Library.Multiset"
begin

text \<open>
  Contracts of the reclaiming and of the worker's rounds, and the dispatcher and a worker running
  against each other as a step relation: any order of enqueuing, reclaiming and rounds of the
  worker, each taken as one step.
\<close>

subsection \<open>Reclaiming\<close>

definition reclaimable :: "nvmev_io_worker \<Rightarrow> nat \<Rightarrow> bool" where
  "reclaimable wk x \<longleftrightarrow> is_completed (work_queue wk ! x) \<and> is_copied (work_queue wk ! x) \<and> target_of wk x \<le> latest_nsecs wk"

lemma scan_completed_spec:
  assumes "set xs \<subseteq> {..<NR_MAX_PARALLEL_IO}" "length (work_queue wk) = NR_MAX_PARALLEL_IO" "nexts (work_queue wk) xs (- 1)"
  shows "scan_completed (work_queue wk) (latest_nsecs wk) (front (- 1) xs) l = Some (rear l (takeWhile (reclaimable wk) xs))"
  using assms
proof (induction xs arbitrary: l)
  case Nil
  then show ?case by (subst scan_completed.simps) simp
next
  case (Cons x xs)
  then have x: "x < NR_MAX_PARALLEL_IO" "w_next (work_queue wk ! x) = front (- 1) xs" by simp_all
  show ?case using Cons x index_not_end [OF x(1)]
    by (subst scan_completed.simps) (simp add: unat_index flip: reclaimable_def)
qed

lemma reclaim_chains:
  assumes dist: "distinct (ds @ rs @ fs)" and ne: "ds \<noteq> []" "fs \<noteq> []"
    and chain: "nexts q (ds @ rs) (- 1)" "prevs q (- 1) (ds @ rs)" "nexts q fs (- 1)"
    and n: "\<And>x. x \<in> set (ds @ rs @ fs) \<Longrightarrow> w_next (q' ! x) =
      (if x = last ds then - 1 else if x = last fs then of_nat (hd ds) else w_next (q ! x))"
    and p: "\<And>x. x \<in> set rs \<Longrightarrow> w_prev (q' ! x) = (if x = hd rs then - 1 else w_prev (q ! x))"
  shows "nexts q' rs (- 1)" "prevs q' (- 1) rs" "nexts q' (fs @ ds) (- 1)"
proof -
  have D: "distinct ds" "distinct fs" "distinct rs" "set ds \<inter> set rs = {}" "set ds \<inter> set fs = {}" "set rs \<inter> set fs = {}"
    using dist by auto
  have L: "last ds \<in> set ds" "last fs \<in> set fs" using ne by simp_all
  have C: "nexts q ds (front (- 1) rs)" "nexts q rs (- 1)" "prevs q (rear (- 1) ds) rs" using chain by (simp_all add: chain_simps)
  have nr: "w_next (q' ! x) = w_next (q ! x)" if "x \<in> set rs" for x
  proof -
    have "x \<noteq> last ds" "x \<noteq> last fs" using that L D by auto
    then show ?thesis using n [of x] that by simp
  qed
  show "nexts q' rs (- 1)" using C(2) nexts_cong [of rs q' q] nr by blast
  show "prevs q' (- 1) rs"
  proof (cases rs)
    case (Cons r ws)
    have "w_prev (q' ! y) = w_prev (q ! y)" if "y \<in> set ws" for y
    proof -
      have "y \<noteq> r" using that D(3) Cons by auto
      then show ?thesis using p [of y] that Cons by simp
    qed
    moreover have "w_prev (q' ! r) = - 1" using p [of r] Cons by simp
    ultimately show ?thesis using prevs_retarget [of q "rear (- 1) ds" r ws q' "- 1"] C(3) D(3) unfolding Cons by blast
  qed simp
  have "nexts q' fs (of_nat (hd ds))"
  proof (rule nexts_retarget [OF chain(3) ne(2) D(2)])
    have "last fs \<noteq> last ds" using L D(5) by auto
    then show "w_next (q' ! last fs) = of_nat (hd ds)" using n [of "last fs"] L(2) by simp
    fix x assume x: "x \<in> set fs" "x \<noteq> last fs"
    then have "x \<noteq> last ds" using L(1) D(5) by auto
    then show "w_next (q' ! x) = w_next (q ! x)" using n [of x] x by simp
  qed
  moreover have "nexts q' ds (- 1)"
  proof (rule nexts_retarget [OF C(1) ne(1) D(1)])
    show "w_next (q' ! last ds) = - 1" using n [of "last ds"] L(1) by simp
    fix x assume x: "x \<in> set ds" "x \<noteq> last ds"
    then have "x \<noteq> last fs" using L(2) D(5) by auto
    then show "w_next (q' ! x) = w_next (q ! x)" using n [of x] x by simp
  qed
  moreover have "front (- 1) ds = of_nat (hd ds)" using ne(1) by (cases ds) simp_all
  ultimately show "nexts q' (fs @ ds) (- 1)" by (simp add: chain_simps)
qed

lemma reclaim_worker_spec:
  assumes rep: "wq_rep wk xs fs"
  defines "ds \<equiv> takeWhile (reclaimable wk) xs" and "rs \<equiv> dropWhile (reclaimable wk) xs"
  shows "\<exists>wk'. reclaim_worker wk = Some wk' \<and> wq_rep wk' rs (fs @ ds) \<and>
    (\<forall>x < NR_MAX_PARALLEL_IO. same_job (work_queue wk ! x) (work_queue wk' ! x)) \<and> latest_nsecs wk' = latest_nsecs wk"
proof -
  let ?q = "work_queue wk"
  note R = wq_repD [OF rep]
  have xs: "ds @ rs = xs" by (simp add: ds_def rs_def)
  have scan: "scan_completed ?q (latest_nsecs wk) (io_seq wk) (- 1) = Some (rear (- 1) ds)"
    using scan_completed_spec [OF R(5,1)] R(7) by (simp add: io_chain_def ds_def)
  have dsub: "set ds \<subseteq> {..<NR_MAX_PARALLEL_IO}" "set rs \<subseteq> {..<NR_MAX_PARALLEL_IO}" using R(5) xs by auto
  show ?thesis
  proof (cases "ds = []")
    case True
    then have "reclaim_worker wk = Some wk" using scan by (simp add: reclaim_worker_def Let_def)
    then show ?thesis using rep True xs by (intro exI [of _ wk]) simp
  next
    case False
    have F: "fs \<noteq> []" "nexts ?q fs (- 1)" "free_seq wk = front (- 1) fs" "free_seq_end wk = of_nat (last fs)"
      using R(8) by (simp_all add: free_chain_def rear_def)
    let ?d = "last ds" and ?h = "hd ds" and ?f = "last fs"
    have in_q: "?d < NR_MAX_PARALLEL_IO" "?h < NR_MAX_PARALLEL_IO" "?f < NR_MAX_PARALLEL_IO"
      using False F(1) dsub R(6) last_in_set [of ds] hd_in_set [of ds] last_in_set [of fs] by blast+
    have chain: "nexts ?q (ds @ rs) (- 1)" "prevs ?q (- 1) (ds @ rs)" using R(7) xs by (simp_all add: io_chain_def)
    have seq: "io_seq wk = of_nat ?h" using R(7) xs False by (cases ds) (auto simp: io_chain_def)
    have nd: "w_next (?q ! ?d) = front (- 1) rs"
    proof -
      obtain ys where "ds = ys @ [?d]" using False by (metis append_butlast_last_id)
      then have "nexts ?q (ys @ [?d] @ rs) (- 1)" using chain(1) by (metis append.assoc)
      then show ?thesis by (simp add: chain_simps)
    qed
    define q1 where "q1 = (if rs = [] then ?q else ?q[hd rs := (?q ! hd rs)\<lparr>w_prev := - 1\<rparr>])"
    define q2 where "q2 = q1[?d := (q1 ! ?d)\<lparr>w_next := - 1\<rparr>]"
    define q3 where "q3 = q2[?h := (q2 ! ?h)\<lparr>w_prev := of_nat ?f\<rparr>]"
    define q4 where "q4 = q3[?f := (q3 ! ?f)\<lparr>w_next := of_nat ?h\<rparr>]"
    define wk' where "wk' = wk\<lparr>work_queue := q4, io_seq := front (- 1) rs, free_seq_end := of_nat ?d\<rparr>"
    have len: "length q1 = NR_MAX_PARALLEL_IO" "length q2 = NR_MAX_PARALLEL_IO" "length q3 = NR_MAX_PARALLEL_IO"
      "length q4 = NR_MAX_PARALLEL_IO" using R(1) by (simp_all add: q1_def q2_def q3_def q4_def)
    have res: "reclaim_worker wk = Some wk'"
    proof -
      have d: "rear (- 1) ds = of_nat ?d" "of_nat ?d \<noteq> (- 1 :: u32)" using False index_not_end [OF in_q(1)] by (simp_all add: rear_def)
      have "rd ?q ?d = Some (?q ! ?d)" using in_q(1) R(1) by simp
      moreover have "set_next (of_nat ?d) (- 1) q1 = Some q2" using in_q(1) len(1) by (simp add: set_next_in q2_def)
      moreover have "set_prev (of_nat ?h) (of_nat ?f) q2 = Some q3" using in_q(2) len(2) by (simp add: set_prev_in q3_def)
      moreover have "set_next (of_nat ?f) (of_nat ?h) q3 = Some q4" using in_q(3) len(3) by (simp add: set_next_in q4_def)
      moreover note steps = calculation
      show ?thesis
      proof (cases rs)
        case Nil
        then have "q1 = ?q" "w_next (?q ! ?d) = - 1" using nd by (simp_all add: q1_def)
        with steps show ?thesis
          by (simp add: reclaim_worker_def Let_def scan [unfolded seq] d unat_index [OF in_q(1)] F(4) seq wk'_def Nil)
      next
        case (Cons r ws)
        then have r: "r < NR_MAX_PARALLEL_IO" using dsub(2) by simp
        have "w_next (?q ! ?d) = of_nat r" using nd Cons by simp
        moreover have "set_prev (of_nat r) (- 1) ?q = Some q1" using r R(1) Cons by (simp add: set_prev_in q1_def)
        ultimately show ?thesis using steps index_not_end [OF r]
          by (simp add: reclaim_worker_def Let_def scan [unfolded seq] d unat_index [OF in_q(1)] F(4) seq wk'_def Cons)
      qed
    qed
    have dist: "distinct (ds @ rs @ fs)"
      using R(2,3,4) unfolding xs [symmetric] append_assoc [symmetric] distinct_append [of "ds @ rs"] by blast
    have hr: "rs \<noteq> [] \<Longrightarrow> hd rs \<in> set rs" by simp
    have step1: "w_next (q1 ! x) = w_next (?q ! x)" "w_prev (q1 ! x) = (if rs \<noteq> [] \<and> x = hd rs then - 1 else w_prev (?q ! x))"
      "same_job (?q ! x) (q1 ! x)" if "x < NR_MAX_PARALLEL_IO" for x
      using that R(1) by (cases "x = hd rs"; simp add: q1_def)+
    have step2: "w_next (q2 ! x) = (if x = ?d then - 1 else w_next (q1 ! x))" "w_prev (q2 ! x) = w_prev (q1 ! x)"
      "same_job (q1 ! x) (q2 ! x)" if "x < NR_MAX_PARALLEL_IO" for x
      using that len(1) by (cases "x = ?d"; simp add: q2_def)+
    have step3: "w_next (q3 ! x) = w_next (q2 ! x)" "w_prev (q3 ! x) = (if x = ?h then of_nat ?f else w_prev (q2 ! x))"
      "same_job (q2 ! x) (q3 ! x)" if "x < NR_MAX_PARALLEL_IO" for x
      using that len(2) by (cases "x = ?h"; simp add: q3_def)+
    have step4: "w_next (q4 ! x) = (if x = ?f then of_nat ?h else w_next (q3 ! x))" "w_prev (q4 ! x) = w_prev (q3 ! x)"
      "same_job (q3 ! x) (q4 ! x)" if "x < NR_MAX_PARALLEL_IO" for x
      using that len(3) by (cases "x = ?f"; simp add: q4_def)+
    note step = step1(1,2) step2(1,2) step3(1,2) step4(1,2)
    have next4: "w_next (q4 ! x) = (if x = ?d then - 1 else if x = ?f then of_nat ?h else w_next (?q ! x))"
      if "x \<in> set (ds @ rs @ fs)" for x
    proof -
      have "x < NR_MAX_PARALLEL_IO" using that dsub R(6) by auto
      moreover have "?d \<noteq> ?f"
      proof
        assume "?d = ?f"
        then have "?d \<in> set ds \<inter> set fs" using last_in_set [OF False] last_in_set [OF F(1)] by simp
        then show False using dist by auto
      qed
      ultimately show ?thesis by (simp add: step)
    qed
    have prev4: "w_prev (q4 ! x) = (if x = hd rs then - 1 else w_prev (?q ! x))" if "x \<in> set rs" for x
    proof -
      have "x \<noteq> ?h" using that dist hd_in_set [OF False] by auto
      moreover have "x < NR_MAX_PARALLEL_IO" "rs \<noteq> []" using that dsub(2) by auto
      ultimately show ?thesis by (simp add: step)
    qed
    note C4 = reclaim_chains [OF dist False F(1) chain F(2) next4 prev4]
    have jobs: "same_job (?q ! x) (q4 ! x)" if "x < NR_MAX_PARALLEL_IO" for x
      by (rule same_job_trans [OF same_job_trans [OF same_job_trans]]) (rule step1(3) step2(3) step3(3) step4(3), rule that)+
    have io: "io_chain wk' rs"
    proof -
      have "rs \<noteq> [] \<Longrightarrow> io_seq_end wk = rear (- 1) rs" using R(7) xs False by (auto simp: io_chain_def rear_def)
      then show ?thesis using C4(1,2) by (simp add: io_chain_def wk'_def)
    qed
    have fr: "free_chain wk' (fs @ ds)"
      using C4(3) F(1,3) False by (cases fs) (simp_all add: free_chain_def rear_def wk'_def)
    have "in_order wk' rs"
    proof (rule in_orderI)
      show "target_of wk' x = target_of wk x" if "x \<in> set rs" for x
        using same_jobD(1) [OF jobs [of x]] subsetD [OF dsub(2) that] by (simp add: wk'_def)
      show "sorted_wrt (\<lambda>x y. target_of wk x \<le> target_of wk y \<or> target_of wk x \<le> latest_nsecs wk') rs"
        using R(9) unfolding in_order_def xs [symmetric] by (simp add: sorted_wrt_append wk'_def)
    qed
    moreover have "set (rs @ fs @ ds) = {..<NR_MAX_PARALLEL_IO}"
    proof -
      have "set (xs @ fs) = {..<NR_MAX_PARALLEL_IO}" using rep by (simp add: wq_rep_def)
      then show ?thesis unfolding xs [symmetric] by auto
    qed
    moreover have "distinct (rs @ fs @ ds)" using dist by auto
    ultimately have "wq_rep wk' rs (fs @ ds)"
      unfolding wq_rep_def using len io fr by (intro conjI) (simp_all add: wk'_def)
    then show ?thesis using res jobs by (intro exI [of _ wk']) (simp add: wk'_def)
  qed
qed

end
