(* ===== verification/Wq_System.thy ===== *)
theory Wq_System
  imports Wq_Steps
begin

text \<open>
  The dispatcher and a worker on one work queue. What a worker needs of the copying of data is an
  interface: it may set the status and the result of the request and nothing else of it.
\<close>

subsection \<open>Requests\<close>

text \<open>What an entry asks for: the completion of a command, or the release of buffer space, at a time.\<close>

datatype io_request = Completion int int int u32 u64 | Buffer_Release buf_ref u64 u64

fun request_time :: "io_request \<Rightarrow> u64" where
  "request_time (Completion _ _ _ _ t) = t"
| "request_time (Buffer_Release _ _ t) = t"

definition request_of :: "nvmev_io_work \<Rightarrow> io_request" where
  "request_of w = (if is_internal w then Buffer_Release (w_write_buffer w) (buffs_to_release w) (w_nsecs_target w)
     else Completion (w_sqid w) (w_cqid w) (w_sq_entry w) (w_command_id w) (w_nsecs_target w))"

lemma request_time_of [simp]: "request_time (request_of w) = w_nsecs_target w"
  by (simp add: request_of_def)

lemma request_of_links [simp]:
  "request_of (w\<lparr>w_next := n\<rparr>) = request_of w" "request_of (w\<lparr>w_prev := p\<rparr>) = request_of w"
  "request_of (w\<lparr>is_copied := c\<rparr>) = request_of w" "request_of (w\<lparr>is_completed := b\<rparr>) = request_of w"
  "request_of (w\<lparr>w_status := st\<rparr>) = request_of w" "request_of (w\<lparr>w_result0 := r\<rparr>) = request_of w"
  by (simp_all add: request_of_def cong: if_cong)

lemma same_job_request: "same_job w w' \<Longrightarrow> request_of w' = request_of w"
  using arg_cong [of _ _ request_of] unfolding same_job_def by (metis request_of_links(1,2))

definition keeps_request :: "nvmev_io_work \<Rightarrow> nvmev_io_work \<Rightarrow> bool" where
  "keeps_request w w' \<longleftrightarrow> (\<exists>s r. w' = w\<lparr>w_status := s, w_result0 := r\<rparr>)"

locale io_backend =
  fixes perform :: "nvmev_io_work \<Rightarrow> 'd \<Rightarrow> (nvmev_io_work \<times> 'd) option"
    and complete :: "nvmev_io_work \<Rightarrow> 'd \<Rightarrow> 'd option"
  assumes perform_keeps: "perform w d = Some (w', d') \<Longrightarrow> keeps_request w w'"

subsection \<open>Rounds of the worker\<close>

text \<open>What a round at an entry makes of it.\<close>

definition visited :: "u64 \<Rightarrow> nvmev_io_work \<Rightarrow> nvmev_io_work \<Rightarrow> bool" where
  "visited now w w' \<longleftrightarrow> (if is_completed w then w' = w
     else is_copied w' \<and> (is_completed w' \<longleftrightarrow> w_nsecs_target w \<le> now) \<and> request_of w' = request_of w) \<and>
     w_next w' = w_next w \<and> w_prev w' = w_prev w \<and> w_nsecs_target w' = w_nsecs_target w"

context io_backend begin

lemma visit_spec:
  assumes rep: "wq_rep wk xs fs" and x: "x < NR_MAX_PARALLEL_IO" and now: "latest_nsecs wk \<le> now"
    and r: "worker_visit perform complete now (of_nat x) (wk, d) = Some (n, wk', d')"
  shows "wq_rep wk' xs fs \<and> n = w_next (work_queue wk ! x) \<and> latest_nsecs wk' = now \<and>
    visited now (work_queue wk ! x) (work_queue wk' ! x) \<and> (\<forall>y. y \<noteq> x \<longrightarrow> work_queue wk' ! y = work_queue wk ! y)"
proof -
  let ?q = "work_queue wk" and ?w = "work_queue wk ! x"
  note R = wq_repD [OF rep]
  have rd: "rd ?q (unat (of_nat x :: u32)) = Some ?w" using x R(1) by (simp add: unat_index)
  obtain w' where w': "visited now ?w w'" "n = w_next w'" "wk' = wk\<lparr>latest_nsecs := now, work_queue := ?q[x := w']\<rparr>"
  proof (cases "is_completed ?w")
    case True
    then have "visited now ?w ?w" by (simp add: visited_def)
    moreover have "n = w_next ?w" "wk' = wk\<lparr>latest_nsecs := now\<rparr>"
      using r rd True by (simp_all add: worker_visit_def)
    ultimately show ?thesis using that [of ?w] by simp
  next
    case False
    obtain w1 d1 where c: "(if is_copied ?w then Some (?w, d) else if is_internal ?w then Some (?w\<lparr>is_copied := True\<rparr>, d)
        else map_option (\<lambda>(w, d). (w\<lparr>is_copied := True\<rparr>, d)) (perform ?w d)) = Some (w1, d1)"
      and rest: "(if w_nsecs_target w1 \<le> now then map_option (\<lambda>d. (w1\<lparr>is_completed := True\<rparr>, d)) (complete w1 d1) else Some (w1, d1)) \<bind>
        (\<lambda>(w, d). wr ?q (unat (of_nat x :: u32)) w \<bind> (\<lambda>q. Some (w_next w, wk\<lparr>latest_nsecs := now, work_queue := q\<rparr>, d))) = Some (n, wk', d')"
      using r rd False by (auto simp: worker_visit_def Let_def bind_Some_iff split: prod.splits)
    have w1: "is_copied w1" "is_completed w1 = is_completed ?w" "request_of w1 = request_of ?w" "w_next w1 = w_next ?w"
      "w_prev w1 = w_prev ?w" "w_nsecs_target w1 = w_nsecs_target ?w"
      using c perform_keeps [of ?w d] by (auto simp: keeps_request_def split: if_splits)
    obtain w2 d2 where f: "(if w_nsecs_target w1 \<le> now then map_option (\<lambda>d. (w1\<lparr>is_completed := True\<rparr>, d)) (complete w1 d1) else Some (w1, d1)) = Some (w2, d2)"
      using rest by (cases "if w_nsecs_target w1 \<le> now then map_option (\<lambda>d. (w1\<lparr>is_completed := True\<rparr>, d)) (complete w1 d1) else Some (w1, d1)") auto
    have "visited now ?w w2" using f w1 False by (auto simp: visited_def split: if_splits)
    moreover have "n = w_next w2" "wk' = wk\<lparr>latest_nsecs := now, work_queue := ?q[x := w2]\<rparr>"
      using rest x R(1) unfolding f by (simp_all add: unat_index)
    ultimately show ?thesis using that by blast
  qed
  let ?q' = "?q[x := w']"
  have links: "w_next (?q' ! y) = w_next (?q ! y)" "w_prev (?q' ! y) = w_prev (?q ! y)"
    "w_nsecs_target (?q' ! y) = w_nsecs_target (?q ! y)" for y
    using w'(1) x R(1) by (cases "y = x"; simp add: visited_def)+
  have N: "nexts ?q' zs n = nexts ?q zs n" and P: "prevs ?q' p zs = prevs ?q p zs" for zs n p
    using nexts_cong [of zs ?q' ?q] prevs_cong [of zs ?q' ?q] links by simp_all
  have "in_order wk' xs"
  proof (rule in_orderI)
    show "target_of wk' y = target_of wk y" for y using links(3) w'(3) by simp
    show "sorted_wrt (\<lambda>x y. target_of wk x \<le> target_of wk y \<or> target_of wk x \<le> latest_nsecs wk') xs"
      by (rule sorted_wrt_mono_rel [OF _ R(9) [unfolded in_order_def]]) (use now w'(3) order_trans in auto)
  qed
  then have "wq_rep wk' xs fs"
    using rep w'(3) by (simp add: wq_rep_def io_chain_def free_chain_def N P)
  then show ?thesis using w' x R(1) links(1) by (simp add: visited_def)
qed

end

subsection \<open>The system\<close>

text \<open>
  A worker's queue, the entry its pass has reached (all ones between two passes), the state its
  requests work on, and two histories: the requests that got an entry, and those that the worker
  completed, with the times.
\<close>

record 'd wq_sys =
  sys_worker :: nvmev_io_worker
  sys_cursor :: u32
  sys_data :: 'd
  sys_accepted :: "io_request list"
  sys_posted :: "(u64 \<times> io_request) list"

definition wq_start :: "u32 \<Rightarrow> 'd \<Rightarrow> 'd wq_sys" where
  "wq_start i d = \<lparr>sys_worker = init_worker i, sys_cursor = - 1, sys_data = d, sys_accepted = [], sys_posted = []\<rparr>"

definition has_room :: "nvmev_io_worker \<Rightarrow> bool" where
  "has_room wk \<longleftrightarrow> (case allocate_work_queue_entry wk of Some (_, Some _) \<Rightarrow> True | _ \<Rightarrow> False)"

text \<open>Anyone may change the data between two steps: the host, the dispatcher, other workers.\<close>

inductive wq_step ::
  "(nvmev_io_work \<Rightarrow> 'd \<Rightarrow> (nvmev_io_work \<times> 'd) option) \<Rightarrow> (nvmev_io_work \<Rightarrow> 'd \<Rightarrow> 'd option) \<Rightarrow> 'd wq_sys \<Rightarrow> 'd wq_sys \<Rightarrow> bool"
  for perform complete where
  command: "enqueue_io_req sqid cqid sq_entry command_id nsecs_start now status t (sys_worker s) = Some wk \<Longrightarrow>
    wq_step perform complete s (s\<lparr>sys_worker := wk, sys_accepted := sys_accepted s @
      (if has_room (sys_worker s) then [Completion sqid cqid sq_entry command_id t] else [])\<rparr>)"
| internal: "enqueue_internal sqid now t buf n (sys_worker s) = Some wk \<Longrightarrow>
    wq_step perform complete s (s\<lparr>sys_worker := wk, sys_accepted := sys_accepted s @
      (if has_room (sys_worker s) then [Buffer_Release buf n t] else [])\<rparr>)"
| reclaim: "reclaim_worker (sys_worker s) = Some wk \<Longrightarrow> wq_step perform complete s (s\<lparr>sys_worker := wk\<rparr>)"
| restart: "sys_cursor s = - 1 \<Longrightarrow> wq_step perform complete s (s\<lparr>sys_cursor := io_seq (sys_worker s)\<rparr>)"
| visit: "sys_cursor s \<noteq> - 1 \<Longrightarrow> latest_nsecs (sys_worker s) \<le> now \<Longrightarrow>
    worker_visit perform complete now (sys_cursor s) (sys_worker s, sys_data s) = Some (n, wk, d) \<Longrightarrow>
    w = work_queue (sys_worker s) ! unat (sys_cursor s) \<Longrightarrow>
    wq_step perform complete s (s\<lparr>sys_worker := wk, sys_cursor := n, sys_data := d, sys_posted := sys_posted s @
      (if \<not> is_completed w \<and> w_nsecs_target w \<le> now then [(now, request_of w)] else [])\<rparr>)"
| outside: "wq_step perform complete s (s\<lparr>sys_data := d\<rparr>)"

inductive wq_reachable ::
  "(nvmev_io_work \<Rightarrow> 'd \<Rightarrow> (nvmev_io_work \<times> 'd) option) \<Rightarrow> (nvmev_io_work \<Rightarrow> 'd \<Rightarrow> 'd option) \<Rightarrow> 'd wq_sys \<Rightarrow> bool"
  for perform complete where
  start: "wq_reachable perform complete (wq_start i d)"
| step: "wq_reachable perform complete s \<Longrightarrow> wq_step perform complete s s' \<Longrightarrow> wq_reachable perform complete s'"

subsection \<open>Its invariant\<close>

text \<open>The requests in the list that are still to be completed.\<close>

definition pending :: "nvmev_io_worker \<Rightarrow> nat list \<Rightarrow> io_request list" where
  "pending wk xs = map (\<lambda>x. request_of (work_queue wk ! x)) (filter (\<lambda>x. \<not> is_completed (work_queue wk ! x)) xs)"

text \<open>
  A pass stands at a request, or at an entry that was given back under its feet: from there to the
  end of the free list all entries are completed.
\<close>

definition cursor_ok :: "nvmev_io_work list \<Rightarrow> u32 \<Rightarrow> nat list \<Rightarrow> nat list \<Rightarrow> bool" where
  "cursor_ok q c xs fs \<longleftrightarrow> c = - 1 \<or> (\<exists>x. c = of_nat x \<and> (x \<in> set xs \<or>
     (\<exists>f1 f2. fs = f1 @ x # f2 \<and> (\<forall>y \<in> set (x # f2). is_completed (q ! y)))))"

definition sys_rep :: "'d wq_sys \<Rightarrow> nat list \<Rightarrow> nat list \<Rightarrow> bool" where
  "sys_rep s xs fs \<longleftrightarrow> wq_rep (sys_worker s) xs fs \<and> cursor_ok (work_queue (sys_worker s)) (sys_cursor s) xs fs \<and>
     (\<forall>x \<in> set xs. is_completed (work_queue (sys_worker s) ! x) \<longrightarrow> is_copied (work_queue (sys_worker s) ! x) \<and>
        target_of (sys_worker s) x \<le> latest_nsecs (sys_worker s)) \<and>
     mset (sys_accepted s) = mset (map snd (sys_posted s)) + mset (pending (sys_worker s) xs) \<and>
     (\<forall>(t, r) \<in> set (sys_posted s). request_time r \<le> t)"

lemma pending_append [simp]: "pending wk (xs @ ys) = pending wk xs @ pending wk ys"
  by (simp add: pending_def)

lemma pending_cong:
  "(\<And>x. x \<in> set xs \<Longrightarrow> is_completed (work_queue wk' ! x) = is_completed (work_queue wk ! x) \<and>
      request_of (work_queue wk' ! x) = request_of (work_queue wk ! x)) \<Longrightarrow> pending wk' xs = pending wk xs"
  unfolding pending_def by (induction xs) auto

lemma start_rep: "sys_rep (wq_start i d) [] [0..<NR_MAX_PARALLEL_IO]"
  using init_worker_rep by (simp add: sys_rep_def wq_start_def cursor_ok_def pending_def)

lemma has_room_iff:
  assumes "wq_rep wk xs fs"
  shows "has_room wk \<longleftrightarrow> 1 < length fs"
proof -
  note R = wq_repD [OF assms]
  obtain e es where fs: "fs = e # es" using R(8) by (cases fs) (simp_all add: free_chain_def)
  have e: "e < NR_MAX_PARALLEL_IO" "free_seq wk = of_nat e" "w_next (work_queue wk ! e) = front (- 1) es"
    using R(6,8) fs by (simp_all add: free_chain_def)
  show ?thesis
  proof (cases es)
    case Nil
    then show ?thesis using e R(1) fs
      by (simp add: has_room_def allocate_work_queue_entry_def unat_index unsigned_minus_1_eq_mask mask_eq_exp_minus_1)
        (simp add: NR_MAX_PARALLEL_IO_def)
  next
    case (Cons f gs)
    then have "f < NR_MAX_PARALLEL_IO" using R(6) fs by simp
    then show ?thesis using e R(1) fs Cons
      by (simp add: has_room_def allocate_work_queue_entry_def unat_index not_le [symmetric])
  qed
qed

text \<open>Enqueuing, for commands and internal operations alike.\<close>

lemma enqueue_rep:
  assumes rep: "sys_rep s xs fs" and enq: "enqueue_work fill t (sys_worker s) = Some wk"
    and r: "\<And>w. request_of (filled fill t w) = r"
  shows "\<exists>xs' fs'. sys_rep (s\<lparr>sys_worker := wk, sys_accepted := sys_accepted s @ (if has_room (sys_worker s) then [r] else [])\<rparr>) xs' fs'"
proof -
  let ?wk = "sys_worker s" let ?q = "work_queue ?wk"
  have W: "wq_rep ?wk xs fs" using rep by (simp add: sys_rep_def)
  note room = has_room_iff [OF W]
  consider (full) e where "fs = [e]" | (room) e f gs where "fs = e # f # gs"
    using wq_repD(8) [OF W] by (metis free_chain_def neq_Nil_conv)
  then show ?thesis
  proof cases
    case full
    then have "wk = ?wk" "\<not> has_room ?wk" using enqueue_work_full W enq room by auto
    then show ?thesis using rep by (intro exI [of _ xs] exI [of _ fs]) (simp add: sys_rep_def)
  next
    case room': room
    then have hr: "has_room ?wk" using room by simp
    define us vs where "us = earlier ?q (latest_nsecs ?wk) t xs" and "vs = later ?q (latest_nsecs ?wk) t xs"
    have xs: "us @ vs = xs" by (simp add: us_def vs_def earlier_later)
    have E: "wq_rep wk (us @ e # vs) (f # gs)" "same_job (filled fill t (?q ! e)) (work_queue wk ! e)"
      "\<forall>x < NR_MAX_PARALLEL_IO. x \<noteq> e \<longrightarrow> same_job (?q ! x) (work_queue wk ! x)"
      "\<forall>x \<in> set (f # gs). work_queue wk ! x = ?q ! x" "latest_nsecs wk = latest_nsecs ?wk"
      using enqueue_work_spec [OF W [unfolded room'], of fill t] enq by (auto simp: us_def vs_def)
    have sub: "x < NR_MAX_PARALLEL_IO \<and> x \<noteq> e" if "x \<in> set xs" for x
      using wq_repD(4,5) [OF W] that room' by auto
    have J: "same_job (?q ! x) (work_queue wk ! x)" if "x \<in> set xs" for x using E(3) sub [OF that] by blast
    have e: "\<not> is_completed (work_queue wk ! e)" "request_of (work_queue wk ! e) = r"
      using same_jobD(2) [OF E(2)] same_job_request [OF E(2)] r by (simp_all add: filled_def)
    have P: "pending wk zs = pending ?wk zs" if "set zs \<subseteq> set xs" for zs
      using J that same_jobD(2) same_job_request by (intro pending_cong) blast
    have "mset (pending wk (us @ e # vs)) = mset (pending ?wk xs) + {#r#}"
    proof -
      have "pending wk (us @ e # vs) = pending wk us @ r # pending wk vs" using e by (simp add: pending_def)
      moreover have "pending wk us = pending ?wk us" "pending wk vs = pending ?wk vs" using P xs by auto
      ultimately show ?thesis by (simp flip: xs)
    qed
    moreover have "cursor_ok (work_queue wk) (sys_cursor s) (us @ e # vs) (f # gs)"
    proof -
      consider "sys_cursor s = - 1" | x where "sys_cursor s = of_nat x" "x \<in> set xs"
        | x f1 f2 where "sys_cursor s = of_nat x" "fs = f1 @ x # f2" "\<forall>y \<in> set (x # f2). is_completed (?q ! y)"
        using rep by (auto simp: sys_rep_def cursor_ok_def)
      then show ?thesis
      proof cases
        case 2
        then have "x \<in> set (us @ e # vs)" using xs by auto
        then show ?thesis using 2(1) unfolding cursor_ok_def by blast
      next
        case 3
        show ?thesis
        proof (cases f1)
          case Nil
          then show ?thesis using 3(1,2) room' unfolding cursor_ok_def by auto
        next
          case (Cons g f1')
          then have "f # gs = f1' @ x # f2" using 3(2) room' by simp
          moreover have "\<forall>y \<in> set (x # f2). is_completed (work_queue wk ! y)"
            using 3(3) E(4) unfolding calculation by simp
          ultimately show ?thesis using 3(1) unfolding cursor_ok_def by blast
        qed
      qed (simp add: cursor_ok_def)
    qed
    moreover have "\<forall>x \<in> set (us @ e # vs). is_completed (work_queue wk ! x) \<longrightarrow> is_copied (work_queue wk ! x) \<and>
        target_of wk x \<le> latest_nsecs wk"
    proof
      fix x assume "x \<in> set (us @ e # vs)"
      then have "x = e \<or> x \<in> set xs" using xs by auto
      then show "is_completed (work_queue wk ! x) \<longrightarrow> is_copied (work_queue wk ! x) \<and> target_of wk x \<le> latest_nsecs wk"
        using e(1) rep E(5) J [of x] same_jobD [of "?q ! x" "work_queue wk ! x"] by (auto simp: sys_rep_def)
    qed
    ultimately have "sys_rep (s\<lparr>sys_worker := wk, sys_accepted := sys_accepted s @ [r]\<rparr>) (us @ e # vs) (f # gs)"
      using E(1) rep by (simp add: sys_rep_def)
    then show ?thesis using hr by auto
  qed
qed

lemma reclaim_rep:
  assumes rep: "sys_rep s xs fs" and rc: "reclaim_worker (sys_worker s) = Some wk"
  shows "\<exists>xs' fs'. sys_rep (s\<lparr>sys_worker := wk\<rparr>) xs' fs'"
proof -
  let ?wk = "sys_worker s" let ?q = "work_queue ?wk"
  have W: "wq_rep ?wk xs fs" using rep by (simp add: sys_rep_def)
  define ds rs where "ds = takeWhile (reclaimable ?wk) xs" and "rs = dropWhile (reclaimable ?wk) xs"
  have xs: "ds @ rs = xs" by (simp add: ds_def rs_def)
  have E: "wq_rep wk rs (fs @ ds)" "\<forall>x < NR_MAX_PARALLEL_IO. same_job (?q ! x) (work_queue wk ! x)"
    "latest_nsecs wk = latest_nsecs ?wk"
    using reclaim_worker_spec [OF W] rc by (auto simp: ds_def rs_def)
  have J: "is_completed (work_queue wk ! x) = is_completed (?q ! x)" "is_copied (work_queue wk ! x) = is_copied (?q ! x)"
    "target_of wk x = target_of ?wk x" "request_of (work_queue wk ! x) = request_of (?q ! x)" if "x \<in> set (xs @ fs)" for x
  proof -
    have "x < NR_MAX_PARALLEL_IO" using that wq_repD(5,6) [OF W] by auto
    then have "same_job (?q ! x) (work_queue wk ! x)" using E(2) by blast
    then show "is_completed (work_queue wk ! x) = is_completed (?q ! x)" "is_copied (work_queue wk ! x) = is_copied (?q ! x)"
      "target_of wk x = target_of ?wk x" "request_of (work_queue wk ! x) = request_of (?q ! x)"
      using same_jobD same_job_request by blast+
  qed
  have ds: "is_completed (?q ! x)" if "x \<in> set ds" for x using that by (auto simp: ds_def reclaimable_def dest: set_takeWhileD)
  then have "pending ?wk ds = []" by (simp add: pending_def)
  moreover have "pending wk rs = pending ?wk rs" using J xs by (intro pending_cong) auto
  ultimately have "pending wk rs = pending ?wk xs" by (simp flip: xs)
  moreover have "cursor_ok (work_queue wk) (sys_cursor s) rs (fs @ ds)"
  proof -
    consider "sys_cursor s = - 1" | x where "sys_cursor s = of_nat x" "x \<in> set rs"
      | x where "sys_cursor s = of_nat x" "x \<in> set ds"
      | x f1 f2 where "sys_cursor s = of_nat x" "fs = f1 @ x # f2" "\<forall>y \<in> set (x # f2). is_completed (?q ! y)"
      using rep xs by (fastforce simp: sys_rep_def cursor_ok_def)
    then show ?thesis
    proof cases
      case 3
      then obtain d1 d2 where d: "ds = d1 @ x # d2" by (meson split_list)
      have "\<forall>y \<in> set (x # d2). is_completed (work_queue wk ! y)" using ds J(1) d xs by auto
      moreover have "fs @ ds = (fs @ d1) @ x # d2" using d by simp
      ultimately show ?thesis using 3(1) unfolding cursor_ok_def by blast
    next
      case 4
      have "\<forall>y \<in> set (x # f2 @ ds). is_completed (work_queue wk ! y)"
      proof
        fix y assume "y \<in> set (x # f2 @ ds)"
        then have "is_completed (?q ! y)" "y \<in> set (xs @ fs)" using 4(2,3) ds xs by auto
        then show "is_completed (work_queue wk ! y)" using J(1) by blast
      qed
      moreover have "fs @ ds = f1 @ x # (f2 @ ds)" using 4(2) by simp
      ultimately show ?thesis using 4(1) unfolding cursor_ok_def by blast
    qed (auto simp: cursor_ok_def)
  qed
  moreover have "\<forall>x \<in> set rs. is_completed (work_queue wk ! x) \<longrightarrow> is_copied (work_queue wk ! x) \<and> target_of wk x \<le> latest_nsecs wk"
    using rep J E(3) xs by (auto simp: sys_rep_def)
  ultimately have "sys_rep (s\<lparr>sys_worker := wk\<rparr>) rs (fs @ ds)" using E(1) rep by (simp add: sys_rep_def)
  then show ?thesis by blast
qed

text \<open>The entry a pass stands at, and the one it goes on to.\<close>

lemma nexts_member:
  assumes "nexts q (us @ x # vs) (- 1)"
  shows "w_next (q ! x) = front (- 1) vs"
  using assms by (simp add: chain_simps)

lemma cursor_next:
  assumes rep: "wq_rep wk xs fs" and cur: "cursor_ok (work_queue wk) c xs fs" and c: "c \<noteq> - 1"
  obtains x where "c = of_nat x" "x < NR_MAX_PARALLEL_IO" "x \<in> set xs \<or> is_completed (work_queue wk ! x)"
    "cursor_ok (work_queue wk) (w_next (work_queue wk ! x)) xs fs"
proof -
  let ?q = "work_queue wk"
  note R = wq_repD [OF rep]
  consider x where "c = of_nat x" "x \<in> set xs"
    | x f1 f2 where "c = of_nat x" "fs = f1 @ x # f2" "\<forall>y \<in> set (x # f2). is_completed (?q ! y)"
    using cur c by (auto simp: cursor_ok_def)
  then show ?thesis
  proof cases
    case (1 x)
    then obtain us vs where xs: "xs = us @ x # vs" by (meson split_list)
    have "nexts ?q (us @ x # vs) (- 1)" using R(7) xs by (simp add: io_chain_def)
    then have "w_next (?q ! x) = front (- 1) vs" by (rule nexts_member)
    then have "cursor_ok ?q (w_next (?q ! x)) xs fs" using xs by (cases vs) (auto simp: cursor_ok_def)
    moreover have "x < NR_MAX_PARALLEL_IO" using 1(2) R(5) by auto
    ultimately show ?thesis using that [of x] 1 by blast
  next
    case (2 x f1 f2)
    have "nexts ?q (f1 @ x # f2) (- 1)" using R(8) 2(2) by (simp add: free_chain_def)
    then have n: "w_next (?q ! x) = front (- 1) f2" by (rule nexts_member)
    have "cursor_ok ?q (w_next (?q ! x)) xs fs"
    proof (cases f2)
      case (Cons y f3)
      then have "fs = (f1 @ [x]) @ y # f3" "\<forall>z \<in> set (y # f3). is_completed (?q ! z)" using 2 by simp_all
      then show ?thesis using n Cons unfolding cursor_ok_def by (metis front_simps(2))
    qed (use n in \<open>simp add: cursor_ok_def\<close>)
    moreover have "x < NR_MAX_PARALLEL_IO" using 2(2) R(6) by auto
    ultimately show ?thesis using that [of x] 2(1,3) by simp
  qed
qed

lemma pending_complete:
  assumes "x \<in> set xs" "distinct xs" "\<not> is_completed (work_queue wk ! x)" "is_completed (work_queue wk' ! x)"
    and "\<And>y. y \<noteq> x \<Longrightarrow> work_queue wk' ! y = work_queue wk ! y"
  shows "mset (pending wk xs) = mset (pending wk' xs) + {#request_of (work_queue wk ! x)#}"
proof -
  obtain us vs where xs: "xs = us @ x # vs" using assms(1) by (meson split_list)
  then have "y \<noteq> x" if "y \<in> set us \<union> set vs" for y using that assms(2) by auto
  then have "pending wk' us = pending wk us" "pending wk' vs = pending wk vs"
    using assms(5) by (auto intro!: pending_cong)
  moreover have "pending wk (x # vs) = request_of (work_queue wk ! x) # pending wk vs" "pending wk' (x # vs) = pending wk' vs"
    using assms(3,4) by (simp_all add: pending_def)
  ultimately show ?thesis unfolding xs by simp
qed

context io_backend begin

lemma visit_rep:
  assumes rep: "sys_rep s xs fs" and c: "sys_cursor s \<noteq> - 1" and now: "latest_nsecs (sys_worker s) \<le> now"
    and v: "worker_visit perform complete now (sys_cursor s) (sys_worker s, sys_data s) = Some (n, wk, d)"
    and w: "w = work_queue (sys_worker s) ! unat (sys_cursor s)"
  shows "sys_rep (s\<lparr>sys_worker := wk, sys_cursor := n, sys_data := d, sys_posted := sys_posted s @
    (if \<not> is_completed w \<and> w_nsecs_target w \<le> now then [(now, request_of w)] else [])\<rparr>) xs fs"
proof -
  let ?wk = "sys_worker s" let ?q = "work_queue ?wk"
  have W: "wq_rep ?wk xs fs" using rep by (simp add: sys_rep_def)
  obtain x where x: "sys_cursor s = of_nat x" "x < NR_MAX_PARALLEL_IO" "x \<in> set xs \<or> is_completed (?q ! x)"
    "cursor_ok ?q (w_next (?q ! x)) xs fs"
    using cursor_next [OF W _ c] rep by (auto simp: sys_rep_def)
  have w': "w = ?q ! x" using w x by (simp add: unat_index)
  have V: "wq_rep wk xs fs" "n = w_next (?q ! x)" "latest_nsecs wk = now" "visited now (?q ! x) (work_queue wk ! x)"
    "\<And>y. y \<noteq> x \<Longrightarrow> work_queue wk ! y = ?q ! y"
    using visit_spec [OF W x(2) now v [unfolded x(1)]] by blast+
  have mono: "is_completed (work_queue wk ! y)" if "is_completed (?q ! y)" for y
    using V(4,5) that by (cases "y = x") (auto simp: visited_def)
  have cur: "cursor_ok (work_queue wk) n xs fs"
    using x(4) mono unfolding V(2) cursor_ok_def by blast
  have copied: "\<forall>y \<in> set xs. is_completed (work_queue wk ! y) \<longrightarrow> is_copied (work_queue wk ! y) \<and> target_of wk y \<le> latest_nsecs wk"
  proof (intro ballI impI)
    fix y assume y: "y \<in> set xs" "is_completed (work_queue wk ! y)"
    have old: "is_completed (?q ! y) \<longrightarrow> is_copied (?q ! y) \<and> target_of ?wk y \<le> now"
      using rep y(1) now order_trans unfolding sys_rep_def by blast
    show "is_copied (work_queue wk ! y) \<and> target_of wk y \<le> latest_nsecs wk"
    proof (cases "y = x")
      case True
      then show ?thesis using old V(3,4) y(2) by (auto simp: visited_def split: if_splits)
    next
      case False
      then show ?thesis using old V(3,5) y(2) by simp
    qed
  qed
  have hist: "mset (sys_accepted s) = mset (map snd (sys_posted s)) + mset (pending ?wk xs)"
    "\<forall>(t, r) \<in> set (sys_posted s). request_time r \<le> t" using rep by (simp_all add: sys_rep_def)
  show ?thesis
  proof (cases "\<not> is_completed w \<and> w_nsecs_target w \<le> now")
    case True
    then have "x \<in> set xs" "\<not> is_completed (?q ! x)" "is_completed (work_queue wk ! x)" using x(3) w' V(4) by (auto simp: visited_def)
    then have "mset (pending ?wk xs) = mset (pending wk xs) + {#request_of w#}"
      using pending_complete [of x xs ?wk wk] V(5) wq_repD(2) [OF W] w' by simp
    then show ?thesis using True V(1) cur copied hist by (simp add: sys_rep_def)
  next
    case False
    have "pending wk xs = pending ?wk xs"
    proof (rule pending_cong)
      fix y
      show "is_completed (work_queue wk ! y) = is_completed (?q ! y) \<and> request_of (work_queue wk ! y) = request_of (?q ! y)"
        using V(4,5) False w' by (cases "y = x") (auto simp: visited_def split: if_splits)
    qed
    then show ?thesis using V(1) cur copied hist unfolding if_not_P [OF False] by (simp add: sys_rep_def)
  qed
qed

lemma step_rep:
  assumes "wq_step perform complete s s'" "sys_rep s xs fs"
  shows "\<exists>xs' fs'. sys_rep s' xs' fs'"
  using assms(1)
proof cases
  case (command sqid cqid sq_entry command_id nsecs_start now status t wk)
  then show ?thesis
    using enqueue_rep [OF assms(2) command(2) [unfolded enqueue_io_req_def]] by (simp add: filled_def fill_io_req_def request_of_def)
next
  case (internal sqid now t buf n wk)
  then show ?thesis
    using enqueue_rep [OF assms(2) internal(2) [unfolded enqueue_internal_def]] by (simp add: filled_def fill_internal_def request_of_def)
next
  case (reclaim wk)
  then show ?thesis using reclaim_rep [OF assms(2)] by simp
next
  case restart
  have W: "wq_rep (sys_worker s) xs fs" using assms(2) by (simp add: sys_rep_def)
  have "cursor_ok (work_queue (sys_worker s)) (io_seq (sys_worker s)) xs fs"
    using wq_repD(7) [OF W] by (cases xs) (auto simp: io_chain_def cursor_ok_def)
  then have "sys_rep s' xs fs" using restart assms(2) by (simp add: sys_rep_def)
  then show ?thesis by blast
next
  case (visit now n wk d w)
  then show ?thesis using visit_rep [OF assms(2)] by blast
next
  case (outside d)
  then have "sys_rep s' xs fs" using assms(2) by (simp add: sys_rep_def)
  then show ?thesis by blast
qed

lemma reachable_rep: "wq_reachable perform complete s \<Longrightarrow> \<exists>xs fs. sys_rep s xs fs"
proof (induction rule: wq_reachable.induct)
  case (start i d)
  show ?case by (intro exI, rule start_rep)
next
  case (step s s')
  then show ?case using step_rep by blast
qed

subsection \<open>A whole pass\<close>

text \<open>
  A pass over requests that neither copying nor completing faults for reaches the end and completes
  every request that is due when it comes by.
\<close>

lemma pass_spec:
  assumes total: "\<And>w d. \<exists>r. perform w d = Some r" "\<And>w d. \<exists>d'. complete w d = Some d'"
    and mono: "\<And>i j. i \<le> j \<Longrightarrow> now_at i \<le> (now_at j :: u64)"
  shows "wq_rep wk (us @ vs) fs \<Longrightarrow> latest_nsecs wk \<le> now_at k \<Longrightarrow>
    \<exists>wk' d'. worker_pass perform complete now_at k (front (- 1) vs) (wk, d) = Some (wk', d') \<and> wq_rep wk' (us @ vs) fs \<and>
      (\<forall>i < length vs. visited (now_at (k + i)) (work_queue wk ! (vs ! i)) (work_queue wk' ! (vs ! i))) \<and>
      (\<forall>y. y \<notin> set vs \<longrightarrow> work_queue wk' ! y = work_queue wk ! y) \<and>
      latest_nsecs wk \<le> latest_nsecs wk' \<and> (vs \<noteq> [] \<longrightarrow> now_at k \<le> latest_nsecs wk')"
proof (induction vs arbitrary: us k wk d)
  case Nil
  then show ?case by (intro exI [of _ wk] exI [of _ d]) (subst worker_pass.simps, simp)
next
  case (Cons x vs)
  let ?q = "work_queue wk" and ?now = "now_at k"
  note R = wq_repD [OF Cons.prems(1)]
  have x: "x < NR_MAX_PARALLEL_IO" using R(5) by simp
  have rd: "rd ?q (unat (of_nat x :: u32)) = Some (?q ! x)" using x R(1) by (simp add: unat_index)
  have "\<exists>n wk1 d1. worker_visit perform complete ?now (of_nat x) (wk, d) = Some (n, wk1, d1)"
  proof -
    let ?w = "?q ! x"
    obtain w1 d1 where "(if is_copied ?w then Some (?w, d) else if is_internal ?w then Some (?w\<lparr>is_copied := True\<rparr>, d)
        else map_option (\<lambda>(w, d). (w\<lparr>is_copied := True\<rparr>, d)) (perform ?w d)) = Some (w1, d1)"
      using total(1) [of ?w d] by (cases "is_copied ?w"; cases "is_internal ?w") auto
    moreover obtain w2 d2 where "(if w_nsecs_target w1 \<le> ?now then map_option (\<lambda>d. (w1\<lparr>is_completed := True\<rparr>, d)) (complete w1 d1)
        else Some (w1, d1)) = Some (w2, d2)"
      using total(2) [of w1 d1] by (cases "w_nsecs_target w1 \<le> ?now") auto
    moreover have "wr ?q (unat (of_nat x :: u32)) w2 = Some (?q[x := w2])" using x R(1) by (simp add: unat_index)
    ultimately show ?thesis using rd by (simp add: worker_visit_def Let_def)
  qed
  then obtain n wk1 d1 where v: "worker_visit perform complete ?now (of_nat x) (wk, d) = Some (n, wk1, d1)" by blast
  have V: "wq_rep wk1 (us @ x # vs) fs" "n = w_next (?q ! x)" "latest_nsecs wk1 = ?now"
    "visited ?now (?q ! x) (work_queue wk1 ! x)" "\<And>y. y \<noteq> x \<Longrightarrow> work_queue wk1 ! y = ?q ! y"
    using visit_spec [OF Cons.prems(1) x Cons.prems(2) v] by blast+
  have n: "n = front (- 1) vs" unfolding V(2) by (rule nexts_member [of _ us]) (use R(7) in \<open>simp add: io_chain_def\<close>)
  have "wq_rep wk1 ((us @ [x]) @ vs) fs" "latest_nsecs wk1 \<le> now_at (k + 1)" using V(1,3) mono [of k "k + 1"] by simp_all
  from Cons.IH [OF this] obtain wk' d' where I: "worker_pass perform complete now_at (k + 1) (front (- 1) vs) (wk1, d1) = Some (wk', d')"
    "wq_rep wk' ((us @ [x]) @ vs) fs"
    "\<And>i. i < length vs \<Longrightarrow> visited (now_at (k + 1 + i)) (work_queue wk1 ! (vs ! i)) (work_queue wk' ! (vs ! i))"
    "\<And>y. y \<notin> set vs \<Longrightarrow> work_queue wk' ! y = work_queue wk1 ! y" "latest_nsecs wk1 \<le> latest_nsecs wk'" by blast
  have out: "x \<notin> set vs" using R(2) by simp
  have "worker_pass perform complete now_at k (of_nat x) (wk, d) = Some (wk', d')"
    using I(1) v index_not_end [OF x] n by (subst worker_pass.simps) simp
  moreover have "visited (now_at (k + i)) (?q ! ((x # vs) ! i)) (work_queue wk' ! ((x # vs) ! i))" if i: "i < length (x # vs)" for i
  proof (cases i)
    case 0
    then show ?thesis using V(4) I(4) [OF out] by simp
  next
    case (Suc j)
    then have "vs ! j \<noteq> x" using i out nth_mem by fastforce
    then show ?thesis using I(3) [of j] V(5) Suc i by simp
  qed
  moreover have "work_queue wk' ! y = ?q ! y" if "y \<notin> set (x # vs)" for y using that V(5) I(4) by simp
  moreover have "now_at k \<le> latest_nsecs wk'" "latest_nsecs wk \<le> latest_nsecs wk'"
    using I(5) V(3) Cons.prems(2) order_trans by auto
  ultimately show ?case using I(2) by (intro exI [of _ wk'] exI [of _ d']) simp
qed

text \<open>The effect of a whole pass on the queue of a reachable system.\<close>

lemma pass_completes:
  assumes total: "\<And>w d. \<exists>r. perform w d = Some r" "\<And>w d. \<exists>d'. complete w d = Some d'"
    and mono: "\<And>i j. i \<le> j \<Longrightarrow> now_at i \<le> (now_at j :: u64)"
    and s: "wq_reachable perform complete s" and now: "latest_nsecs (sys_worker s) \<le> now_at 0"
  shows "\<exists>wk d xs fs. worker_pass perform complete now_at 0 (io_seq (sys_worker s)) (sys_worker s, sys_data s) = Some (wk, d) \<and>
    wq_rep (sys_worker s) xs fs \<and> wq_rep wk xs fs \<and>
    (\<forall>x \<in> set xs. is_copied (work_queue wk ! x) \<and> request_of (work_queue wk ! x) = request_of (work_queue (sys_worker s) ! x) \<and>
      (target_of (sys_worker s) x \<le> now_at 0 \<longrightarrow> is_completed (work_queue wk ! x)) \<and>
      (is_completed (work_queue wk ! x) \<longrightarrow> target_of wk x \<le> now_at (length xs))) \<and>
    ((\<forall>x \<in> set xs. target_of (sys_worker s) x \<le> now_at 0) \<longrightarrow>
      (\<exists>wk'. reclaim_worker wk = Some wk' \<and> io_seq wk' = - 1))"
proof -
  obtain xs fs where rep: "sys_rep s xs fs" using reachable_rep [OF s] by blast
  let ?wk = "sys_worker s"
  have W: "wq_rep ?wk ([] @ xs) fs" using rep by (simp add: sys_rep_def)
  have "\<exists>wk d. worker_pass perform complete now_at 0 (front (- 1) xs) (?wk, sys_data s) = Some (wk, d) \<and>
      wq_rep wk ([] @ xs) fs \<and>
      (\<forall>i < length xs. visited (now_at (0 + i)) (work_queue ?wk ! (xs ! i)) (work_queue wk ! (xs ! i))) \<and>
      (\<forall>y. y \<notin> set xs \<longrightarrow> work_queue wk ! y = work_queue ?wk ! y) \<and>
      latest_nsecs ?wk \<le> latest_nsecs wk \<and> (xs \<noteq> [] \<longrightarrow> now_at 0 \<le> latest_nsecs wk)"
    by (rule pass_spec) (rule total W now, (erule mono)?)+
  then obtain wk d where pass: "worker_pass perform complete now_at 0 (front (- 1) xs) (?wk, sys_data s) = Some (wk, d)"
      "wq_rep wk ([] @ xs) fs"
    and V: "\<forall>i < length xs. visited (now_at (0 + i)) (work_queue ?wk ! (xs ! i)) (work_queue wk ! (xs ! i))"
    and L: "xs \<noteq> [] \<longrightarrow> now_at 0 \<le> latest_nsecs wk" by blast
  have seq: "io_seq ?wk = front (- 1) xs" using wq_repD(7) [OF W] by (simp add: io_chain_def)
  have each: "is_copied (work_queue wk ! x) \<and> request_of (work_queue wk ! x) = request_of (work_queue ?wk ! x) \<and>
      (target_of ?wk x \<le> now_at 0 \<longrightarrow> is_completed (work_queue wk ! x)) \<and>
      (is_completed (work_queue wk ! x) \<longrightarrow> target_of wk x \<le> now_at (length xs))" if "x \<in> set xs" for x
  proof -
    obtain i where i: "i < length xs" "x = xs ! i" using \<open>x \<in> set xs\<close> by (metis in_set_conv_nth)
    have v: "visited (now_at i) (work_queue ?wk ! x) (work_queue wk ! x)" using V i by simp
    have old: "is_completed (work_queue ?wk ! x) \<Longrightarrow> is_copied (work_queue ?wk ! x) \<and> target_of ?wk x \<le> latest_nsecs ?wk"
      using rep that by (simp add: sys_rep_def)
    have le: "now_at 0 \<le> now_at i" "now_at i \<le> now_at (length xs)" using mono i(1) by simp_all
    show ?thesis
    proof (cases "is_completed (work_queue ?wk ! x)")
      case True
      then have "target_of ?wk x \<le> now_at (length xs)" using old now le by (meson order_trans)
      then show ?thesis using True v old by (simp add: visited_def)
    next
      case False
      have "target_of ?wk x \<le> now_at 0 \<Longrightarrow> target_of ?wk x \<le> now_at i" "target_of ?wk x \<le> now_at i \<Longrightarrow> target_of ?wk x \<le> now_at (length xs)"
        using le order_trans by blast+
      then show ?thesis using False v by (simp add: visited_def)
    qed
  qed
  have same: "target_of wk x = target_of ?wk x" if "x \<in> set xs" for x
  proof -
    obtain i where "i < length xs" "x = xs ! i" using \<open>x \<in> set xs\<close> by (metis in_set_conv_nth)
    then show ?thesis using V by (simp add: visited_def)
  qed
  have "\<exists>wk'. reclaim_worker wk = Some wk' \<and> io_seq wk' = - 1"
    if all: "\<forall>x \<in> set xs. target_of ?wk x \<le> now_at 0"
  proof -
    have due: "target_of ?wk x \<le> latest_nsecs wk" if "x \<in> set xs" for x
    proof -
      have "xs \<noteq> []" using that by auto
      then show ?thesis using all that L order_trans by blast
    qed
    have R: "takeWhile (reclaimable wk) xs = xs" "dropWhile (reclaimable wk) xs = []"
      using each same all due by (simp_all add: reclaimable_def)
    have "wq_rep wk xs fs" using pass(2) by simp
    from reclaim_worker_spec [OF this, unfolded R]
    obtain wk' where "reclaim_worker wk = Some wk'" "wq_rep wk' [] (fs @ xs)" by blast
    then show ?thesis using wq_repD(7) [of wk' "[]" "fs @ xs"] by (simp add: io_chain_def)
  qed
  then show ?thesis using pass W each unfolding seq by (intro exI [of _ wk] exI [of _ d] exI [of _ xs] exI [of _ fs]) simp
qed

end

end
