(* ===== verification/Zns_Cmd.thy ===== *)
theory Zns_Cmd
  imports Zns_Io Prp Conv_Ftl
begin

text \<open>
  The zoned namespace as the dispatcher sees it: the report of the zones in bytes and its way to
  host memory (\<open>zns_mgmt_recv.c\<close>), and the switch over the commands (\<open>zns_ftl.c\<close>).
\<close>

subsection \<open>The bytes of a report\<close>

definition le64_bytes :: "u64 \<Rightarrow> u8 list" where
  "le64_bytes w = map (\<lambda>j. ucast (drop_bit (8 * j) w)) [0..<8]"

lemma length_le64_bytes [simp]: "length (le64_bytes w) = 8"
  by (simp add: le64_bytes_def)

fun zone_state_code :: "zone_state \<Rightarrow> u8" where
  "zone_state_code ZONE_STATE_EMPTY = 0x1"
| "zone_state_code ZONE_STATE_OPENED_IMPL = 0x2"
| "zone_state_code ZONE_STATE_OPENED_EXPL = 0x3"
| "zone_state_code ZONE_STATE_CLOSED = 0x4"
| "zone_state_code ZONE_STATE_READ_ONLY = 0xD"
| "zone_state_code ZONE_STATE_FULL = 0xE"
| "zone_state_code ZONE_STATE_OFFLINE = 0xF"

text \<open>The type is in the low half of the first byte, the state in the high half of the second.\<close>

definition zone_descriptor_bytes :: "zone_descriptor \<Rightarrow> u8 list" where
  "zone_descriptor_bytes d =
     [of_nat (zd_type d), push_bit 4 (zone_state_code (zd_state d)), if zd_zrwav d then 8 else 0, 0] @ replicate 4 0 @
     le64_bytes (zd_zone_capacity d) @ le64_bytes (zd_zslba d) @ le64_bytes (zd_wp d) @ replicate 32 0"

lemma length_zone_descriptor_bytes [simp]: "length (zone_descriptor_bytes d) = 64"
  by (simp add: zone_descriptor_bytes_def)

text \<open>A report over the old contents \<open>buf\<close> of the buffer: the reserved bytes and what follows are kept.\<close>

definition report_bytes :: "zone_report \<Rightarrow> u8 list \<Rightarrow> u8 list" where
  "report_bytes r buf = le64_bytes (zrep_nr_zones r) @ take 56 (drop 8 buf) @
     concat (map zone_descriptor_bytes (zrep_zd r)) @ drop (64 + 64 * length (zrep_zd r)) buf"

lemma length_descriptors: "length (concat (map zone_descriptor_bytes ds)) = 64 * length ds"
  by (induction ds) simp_all

lemma length_report_bytes: "64 + 64 * length (zrep_zd r) \<le> length buf \<Longrightarrow> length (report_bytes r buf) = length buf"
  by (simp add: report_bytes_def length_descriptors)

subsection \<open>Transfers\<close>

text \<open>A copy between host memory and a buffer; \<open>io\<close> of zero is towards the host.\<close>

definition buffer_copy :: "u32 \<Rightarrow> u64 \<Rightarrow> nat \<Rightarrow> nat \<Rightarrow> host_mem \<times> u8 list \<Rightarrow> (host_mem \<times> u8 list) option" where
  "buffer_copy io a n pos s = (let (m, buf) = s in do {
     NVMEV_ASSERT (pos + n \<le> length buf);
     Some (if io = 0 then (write_host m a (take n (drop pos buf)), buf)
           else (m, take pos buf @ read_host m a n @ drop (pos + n) buf))
   })"

definition prp_transfer_data :: "u64 \<Rightarrow> u64 \<Rightarrow> u64 \<Rightarrow> u32 \<Rightarrow> host_mem \<times> u8 list \<Rightarrow> (host_mem \<times> u8 list) option" where
  "prp_transfer_data prp1 prp2 len io = prp_transfer (\<lambda>_. True) fst (buffer_copy io) prp1 prp2 (unat len)"

subsection \<open>The namespace\<close>

text \<open>The buffer for reports has 128 bytes and 64 for each zone.\<close>

record zns_namespace =
  zn_csi :: nat
  zn_nr_parts :: nat
  zn_ftl :: zns_ftl
  zn_dev :: dev
  zn_report :: "u8 list"

definition zmgmt_recv_cmd ::
  "u64 \<Rightarrow> u64 \<Rightarrow> zone_mgmt_recv_cmd \<Rightarrow> zns_namespace \<times> host_mem \<Rightarrow> ((zns_namespace \<times> host_mem) \<times> u32) option" where
  "zmgmt_recv_cmd prp1 prp2 cmd s = (let (zn, m) = s in do {
     (rep, status) \<leftarrow> zns_zmgmt_recv (zn_ftl zn) cmd;
     case rep of
       None \<Rightarrow> Some ((zn, m), status)
     | Some r \<Rightarrow> do {
         let buf = report_bytes r (zn_report zn);
         (m, buf) \<leftarrow> prp_transfer_data prp1 prp2 (ucast (zr_nr_dw cmd + 1) * 4) 0 (m, buf);
         Some ((zn\<lparr>zn_report := buf\<rparr>, m), status)
       }
   })"

subsection \<open>Dispatch\<close>

definition nvme_cmd_zone_mgmt_send :: u8 where [cdefs]: "nvme_cmd_zone_mgmt_send = 0x79"
definition nvme_cmd_zone_mgmt_recv :: u8 where [cdefs]: "nvme_cmd_zone_mgmt_recv = 0x7a"
definition nvme_cmd_zone_append :: u8 where [cdefs]: "nvme_cmd_zone_append = 0x7d"

definition NVME_CSI_ZNS :: nat where [cdefs]: "NVME_CSI_ZNS = 2"

text \<open>A command with the views of the zoned command set. An append leaves its start in the command.\<close>

record zns_command =
  z_prp1 :: u64
  z_prp2 :: u64
  z_rw :: nvme_rw_command
  z_send :: zone_mgmt_send_cmd
  z_recv :: zone_mgmt_recv_cmd

definition zns_rw :: "nvme_rw_command \<Rightarrow> zns_rw_command" where
  "zns_rw c = \<lparr>zc_append = rw_opcode c = nvme_cmd_zone_append, zc_slba = rw_slba c, zc_length = rw_length c,
     zc_control = rw_control c\<rparr>"

definition to_zret :: "nvmev_result \<Rightarrow> zns_result" where
  "to_zret r = \<lparr>zret_status = ret_status r, zret_nsecs_target = ret_nsecs_target r\<rparr>"

definition of_zret :: "zns_result \<Rightarrow> nvmev_result" where
  "of_zret r = \<lparr>ret_status = zret_status r, ret_nsecs_target = zret_nsecs_target r\<rparr>"

text \<open>The results are the namespace and host memory, the command, the result, and whether it was taken.\<close>

definition zns_proc_nvme_io_cmd ::
  "u32 \<Rightarrow> zns_command \<Rightarrow> u32 \<Rightarrow> u64 \<Rightarrow> nvmev_result \<Rightarrow> zns_namespace \<times> host_mem
     \<Rightarrow> ((zns_namespace \<times> host_mem) \<times> zns_command \<times> nvmev_result \<times> bool) option" where
  "zns_proc_nvme_io_cmd junk cmd sq_id nsecs_start ret s = (let (zn, m) = s; rw = z_rw cmd; opc = rw_opcode rw in do {
     NVMEV_ASSERT (zn_csi zn = NVME_CSI_ZNS);
     NVMEV_ASSERT (zn_nr_parts zn = 1);
     if opc = nvme_cmd_write \<or> opc = nvme_cmd_zone_append then do {
       (z, dv, c, zret, ok) \<leftarrow> zns_write (zn_ftl zn) (zn_dev zn) sq_id nsecs_start (zns_rw rw) (to_zret ret);
       Some ((zn\<lparr>zn_ftl := z, zn_dev := dv\<rparr>, m), cmd\<lparr>z_rw := rw\<lparr>rw_slba := zc_slba c\<rparr>\<rparr>, of_zret zret, ok)
     }
     else if opc = nvme_cmd_read then do {
       (z, dv, zret) \<leftarrow> zns_read (zn_ftl zn) (zn_dev zn) nsecs_start (zns_rw rw);
       Some ((zn\<lparr>zn_ftl := z, zn_dev := dv\<rparr>, m), cmd, of_zret zret, True)
     }
     else if opc = nvme_cmd_flush then do {
       (dv, zret) \<leftarrow> zns_flush (zn_ftl zn) (zn_dev zn);
       Some ((zn\<lparr>zn_dev := dv\<rparr>, m), cmd, of_zret zret, True)
     }
     else if opc = nvme_cmd_zone_mgmt_send then do {
       (z, status) \<leftarrow> zns_zmgmt_send junk (zn_ftl zn) (z_send cmd);
       Some ((zn\<lparr>zn_ftl := z\<rparr>, m), cmd, \<lparr>ret_status = status, ret_nsecs_target = nsecs_start\<rparr>, True)
     }
     else if opc = nvme_cmd_zone_mgmt_recv then do {
       (s, status) \<leftarrow> zmgmt_recv_cmd (z_prp1 cmd) (z_prp2 cmd) (z_recv cmd) (zn, m);
       Some (s, cmd, \<lparr>ret_status = status, ret_nsecs_target = nsecs_start\<rparr>, True)
     }
     else Some ((zn, m), cmd, ret, True)
   })"

subsection \<open>Initialisation\<close>

text \<open>The report buffer is allocated but not cleared.\<close>

definition zns_init_namespace ::
  "ssd_config \<Rightarrow> zns_config \<Rightarrow> ssdparams \<Rightarrow> (nat \<Rightarrow> nat \<Rightarrow> u64) \<Rightarrow> (nat \<Rightarrow> u64) \<Rightarrow> (nat \<Rightarrow> u8) \<Rightarrow> (nat \<Rightarrow> u8) \<Rightarrow> u64
     \<Rightarrow> zns_namespace option" where
  "zns_init_namespace c zc spp0 junk clk rep storage sz = do {
     spp \<leftarrow> ssd_init_params c spp0 (unat sz) 1;
     (ssd, pcie, wbuf) \<leftarrow> ssd_init spp junk;
     zpp \<leftarrow> zns_init_params zc spp sz;
     Some \<lparr>zn_csi = NVME_CSI_ZNS, zn_nr_parts = 1, zn_ftl = zns_init_ftl zpp ssd storage,
           zn_dev = \<lparr>pcie = pcie, write_buffer = wbuf, clock = clk, ticks = 0, random = (\<lambda>_. 0), draws = 0, internal_ops = []\<rparr>,
           zn_report = map rep [0..<128 + 64 * unat (nr_zones zpp)]\<rparr>
   }"

end
