(* ===== verification/Io_Queues.thy ===== *)
theory Io_Queues
  imports Wq_System Kv_Cmd Zns_Cmd
begin

text \<open>
  The queue pairs of the device (\<open>nvmev.h\<close>, \<open>io.c\<close>, \<open>main.c\<close>): submission queues from which the
  dispatcher takes commands when their doorbell moves, completion queues into which the workers
  put results, and the copying of data that the workers do.
\<close>

subsection \<open>Queues\<close>

text \<open>
  A submission entry is 64 bytes that each command set reads through structures of its own: the
  common fields, and the views of a read or write, a key-value command and zone management.
\<close>

record sq_command =
  c_command_id :: u16
  c_nsid :: u32
  c_prp1 :: u64
  c_prp2 :: u64
  c_rw :: nvme_rw_command
  c_kv :: nvme_kv_command
  c_zone_send :: zone_mgmt_send_cmd
  c_zone_recv :: zone_mgmt_recv_cmd

record nvme_completion =
  e_result0 :: u32
  e_result1 :: u32
  e_sq_head :: u16
  e_sq_id :: u16
  e_command_id :: u16
  e_status :: u16

record nvmev_sq_stat =
  nr_dispatched :: u32
  nr_dispatch :: u32
  nr_in_flight :: u32
  max_nr_in_flight :: u32
  total_io :: u64

text \<open>The entries fill whole pages, so there may be more of them than the queue's size.\<close>

record nvmev_submission_queue =
  sq_qid :: int
  sq_cqid :: int
  sq_priority :: int
  sq_phys_contig :: bool
  sq_queue_size :: int
  sq_stat :: nvmev_sq_stat
  sq_entries :: "sq_command list"

record nvmev_completion_queue =
  cq_qid :: int
  irq_vector :: int
  irq_enabled :: bool
  interrupt_ready :: bool
  cq_phys_contig :: bool
  cq_queue_size :: int
  cq_phase :: int
  cq_head :: int
  cq_tail :: int
  cq_entries :: "nvme_completion list"

definition NR_MAX_IO_QUEUE :: nat where [cdefs]: "NR_MAX_IO_QUEUE = 72"

text \<open>An array indexed by a signed integer.\<close>

definition rd_int :: "'a list \<Rightarrow> int \<Rightarrow> 'a option" where
  "rd_int xs i = (if 0 \<le> i then rd xs (nat i) else None)"

definition wr_int :: "'a list \<Rightarrow> int \<Rightarrow> 'a \<Rightarrow> 'a list option" where
  "wr_int xs i v = (if 0 \<le> i then wr xs (nat i) v else None)"

lemma rd_int_Some [arr_simps]: "rd_int xs i = Some x \<longleftrightarrow> 0 \<le> i \<and> nat i < length xs \<and> xs ! nat i = x"
  by (auto simp: rd_int_def arr_simps)

lemma rd_int_in [simp]: "0 \<le> i \<Longrightarrow> nat i < length xs \<Longrightarrow> rd_int xs i = Some (xs ! nat i)"
  by (simp add: rd_int_def)

lemma wr_int_in [simp]: "0 \<le> i \<Longrightarrow> nat i < length xs \<Longrightarrow> wr_int xs i v = Some (xs[nat i := v])"
  by (simp add: wr_int_def)

subsection \<open>The device\<close>

text \<open>
  A namespace with the operations its initialisation registers. The handler of IO commands gets
  the state with host memory and the storage area, the command, the submission queue, the time and
  the result so far. It may change the command in its entry, and hands internal operations to the
  workers. \<open>nsp_release\<close> gives back buffer space.
\<close>

type_synonym internal_op = "u32 \<times> u64 \<times> buf_ref \<times> u64"

record 'n nvmev_namespace =
  nsp_csi :: nat
  nsp_size :: u64
  nsp_mapped :: nat
  nsp_state :: 'n
  proc_io_cmd :: "'n \<times> host_mem \<times> storage \<Rightarrow> sq_command \<Rightarrow> u32 \<Rightarrow> u64 \<Rightarrow> nvmev_result
    \<Rightarrow> (('n \<times> host_mem \<times> storage) \<times> sq_command \<times> nvmev_result \<times> bool \<times> internal_op list) option"
  identify_io_cmd :: "sq_command \<Rightarrow> bool"
  perform_io_cmd :: "sq_command \<Rightarrow> 'n \<Rightarrow> host_mem \<Rightarrow> storage \<Rightarrow> u32 \<Rightarrow> ('n \<times> host_mem \<times> storage \<times> u32 \<times> u32) option"
  nsp_release :: "buf_ref \<Rightarrow> u64 \<Rightarrow> 'n \<Rightarrow> 'n option"

record 'n nvmev_dev =
  sqes :: "nvmev_submission_queue option list"
  cqes :: "nvmev_completion_queue option list"
  nr_sq :: u32
  nr_cq :: u32
  dbs :: "u32 list"
  old_dbs :: "u32 list"
  nss :: "'n nvmev_namespace list"
  host :: host_mem
  stor :: storage

text \<open>Dereferencing the pointer to a queue: a fault when it is null.\<close>

definition the_sq :: "'n nvmev_dev \<Rightarrow> int \<Rightarrow> nvmev_submission_queue option" where
  "the_sq dev sqid = Option.bind (rd_int (sqes dev) sqid) (\<lambda>q. q)"

definition the_cq :: "'n nvmev_dev \<Rightarrow> int \<Rightarrow> nvmev_completion_queue option" where
  "the_cq dev cqid = Option.bind (rd_int (cqes dev) cqid) (\<lambda>q. q)"

definition put_sq :: "int \<Rightarrow> nvmev_submission_queue \<Rightarrow> 'n nvmev_dev \<Rightarrow> 'n nvmev_dev option" where
  "put_sq sqid sq dev = map_option (\<lambda>qs. dev\<lparr>sqes := qs\<rparr>) (wr_int (sqes dev) sqid (Some sq))"

definition put_cq :: "int \<Rightarrow> nvmev_completion_queue \<Rightarrow> 'n nvmev_dev \<Rightarrow> 'n nvmev_dev option" where
  "put_cq cqid cq dev = map_option (\<lambda>qs. dev\<lparr>cqes := qs\<rparr>) (wr_int (cqes dev) cqid (Some cq))"

subsection \<open>Completions\<close>

definition cq_put :: "nvme_completion \<Rightarrow> nvmev_completion_queue \<Rightarrow> nvmev_completion_queue option" where
  "cq_put cqe cq = do {
     es \<leftarrow> wr_int (cq_entries cq) (cq_head cq) cqe;
     Some (if cq_head cq + 1 = cq_queue_size cq
           then cq\<lparr>cq_entries := es, cq_head := 0, cq_phase := (if cq_phase cq = 0 then 1 else 0), interrupt_ready := True\<rparr>
           else cq\<lparr>cq_entries := es, cq_head := cq_head cq + 1, interrupt_ready := True\<rparr>)
   }"

definition cqe_of :: "int \<Rightarrow> nvmev_io_work \<Rightarrow> nvme_completion" where
  "cqe_of phase w = \<lparr>e_result0 = w_result0 w, e_result1 = w_result1 w, e_sq_head = of_int (w_sq_entry w),
     e_sq_id = of_int (w_sqid w), e_command_id = ucast (w_command_id w),
     e_status = ucast (of_int phase OR push_bit 1 (w_status w))\<rparr>"

definition fill_cq_result :: "nvmev_io_work \<Rightarrow> 'n nvmev_dev \<Rightarrow> 'n nvmev_dev option" where
  "fill_cq_result w dev = do {
     cq \<leftarrow> the_cq dev (w_cqid w);
     cq \<leftarrow> cq_put (cqe_of (cq_phase cq) w) cq;
     put_cq (w_cqid w) cq dev
   }"

text \<open>A completion doorbell: the entries the host has taken out are no longer in flight.\<close>

definition cq_taken :: "int \<Rightarrow> 'n nvmev_dev \<Rightarrow> 'n nvmev_dev option" where
  "cq_taken sqid dev = do {
     q \<leftarrow> rd_int (sqes dev) sqid;
     case q of
       None \<Rightarrow> Some dev
     | Some sq \<Rightarrow> put_sq sqid (sq\<lparr>sq_stat := (sq_stat sq)\<lparr>nr_in_flight := nr_in_flight (sq_stat sq) - 1\<rparr>\<rparr>) dev
   }"

text \<open>The loop reads the entry before it compares the index with the size of the queue.\<close>

partial_function (option) cq_loop :: "nvmev_completion_queue \<Rightarrow> int \<Rightarrow> int \<Rightarrow> 'n nvmev_dev \<Rightarrow> 'n nvmev_dev option" where
  "cq_loop cq new_db i dev =
     (if i = new_db then Some dev
      else do {
        cqe \<leftarrow> rd_int (cq_entries cq) i;
        if cq_queue_size cq \<le> i then cq_loop cq new_db 0 dev
        else do {
          dev \<leftarrow> cq_taken (uint (e_sq_id cqe)) dev;
          cq_loop cq new_db (i + 1) dev
        }
      })"

declare cq_loop.simps [code]

definition nvmev_proc_io_cq :: "int \<Rightarrow> int \<Rightarrow> int \<Rightarrow> 'n nvmev_dev \<Rightarrow> 'n nvmev_dev option" where
  "nvmev_proc_io_cq cqid new_db old_db dev = do {
     cq \<leftarrow> the_cq dev cqid;
     dev \<leftarrow> cq_loop cq new_db old_db dev;
     put_cq cqid (cq\<lparr>cq_tail := (if new_db = - 1 then cq_queue_size cq - 1 else new_db - 1)\<rparr>) dev
   }"

subsection \<open>Submissions\<close>

text \<open>Commands go to the worker of their queue.\<close>

definition get_io_worker :: "int \<Rightarrow> nat \<Rightarrow> nat option" where
  "get_io_worker sqid nr_io_workers = (if nr_io_workers = 0 then None else Some (unat (of_int (sqid - 1) :: u32) mod nr_io_workers))"

definition on_worker ::
  "int \<Rightarrow> (nvmev_io_worker \<Rightarrow> nvmev_io_worker option) \<Rightarrow> nvmev_io_worker list \<Rightarrow> nvmev_io_worker list option" where
  "on_worker sqid f wks = do { i \<leftarrow> get_io_worker sqid (length wks); modify wks i f }"

definition schedule_ops :: "u64 \<Rightarrow> internal_op list \<Rightarrow> nvmev_io_worker list \<Rightarrow> nvmev_io_worker list option" where
  "schedule_ops now = fold_opt (\<lambda>(sqid, t, buf, n). on_worker (uint sqid) (enqueue_internal (uint sqid) now t buf n))"

text \<open>
  One command: \<open>kv\<close> says that the build is the key-value prototype, which takes every command as
  one of namespace 0; \<open>wall\<close> and \<open>now\<close> are the wall and the local clock. The result is the number
  of bytes, or none when the handler refuses the command for now.
\<close>

definition io_bytes :: "sq_command \<Rightarrow> u64" where
  "io_bytes cmd = push_bit 9 (ucast (rw_length (c_rw cmd)) + 1)"

definition nvmev_proc_io ::
  "bool \<Rightarrow> u64 \<Rightarrow> u64 \<Rightarrow> int \<Rightarrow> int \<Rightarrow> 'n nvmev_dev \<times> nvmev_io_worker list
     \<Rightarrow> (('n nvmev_dev \<times> nvmev_io_worker list) \<times> u64 option) option" where
  "nvmev_proc_io kv wall now sqid sq_entry s = do {
     let (dev, wks) = s;
     sq \<leftarrow> the_sq dev sqid;
     cmd \<leftarrow> rd_int (sq_entries sq) sq_entry;
     let nsid = (if kv then 0 else unat (c_nsid cmd - 1));
     ns \<leftarrow> rd (nss dev) nsid;
     ((st, m, sto), cmd, ret, ok, ops) \<leftarrow> proc_io_cmd ns (nsp_state ns, host dev, stor dev) cmd (of_int sqid) wall
         \<lparr>ret_status = NVME_SC_SUCCESS, ret_nsecs_target = wall\<rparr>;
     es \<leftarrow> wr_int (sq_entries sq) sq_entry cmd;
     dev \<leftarrow> put_sq sqid (sq\<lparr>sq_entries := es\<rparr>) (dev\<lparr>nss := (nss dev)[nsid := ns\<lparr>nsp_state := st\<rparr>], host := m, stor := sto\<rparr>);
     wks \<leftarrow> schedule_ops now ops wks;
     if \<not> ok then Some ((dev, wks), None)
     else do {
       wks \<leftarrow> on_worker sqid (enqueue_io_req sqid (sq_cqid sq) sq_entry (ucast (c_command_id cmd)) wall now
                  (ret_status ret) (ret_nsecs_target ret)) wks;
       wks \<leftarrow> reclaim_completed_reqs wks;
       Some ((dev, wks), Some (io_bytes cmd))
     }
   }"

definition count_dispatched :: "u64 \<Rightarrow> nvmev_sq_stat \<Rightarrow> nvmev_sq_stat" where
  "count_dispatched n st = st\<lparr>nr_dispatched := nr_dispatched st + 1, nr_in_flight := nr_in_flight st + 1,
     total_io := total_io st + n\<rparr>"

definition upd_stat :: "int \<Rightarrow> (nvmev_sq_stat \<Rightarrow> nvmev_sq_stat) \<Rightarrow> 'n nvmev_dev \<Rightarrow> 'n nvmev_dev option" where
  "upd_stat sqid f dev = do { sq \<leftarrow> the_sq dev sqid; put_sq sqid (sq\<lparr>sq_stat := f (sq_stat sq)\<rparr>) dev }"

text \<open>
  The commands from the old to the new doorbell, at most \<open>n\<close> more of them, from entry \<open>e\<close>; the
  second result counts those that were taken. \<open>clk k\<close> are the clocks at command \<open>k\<close>.
\<close>

fun sq_loop ::
  "bool \<Rightarrow> (nat \<Rightarrow> u64 \<times> u64) \<Rightarrow> int \<Rightarrow> nat \<Rightarrow> nat \<Rightarrow> int \<Rightarrow> 'n nvmev_dev \<times> nvmev_io_worker list
     \<Rightarrow> (('n nvmev_dev \<times> nvmev_io_worker list) \<times> nat) option" where
  "sq_loop kv clk sqid 0 k e s = Some (s, k)"
| "sq_loop kv clk sqid (Suc n) k e s = do {
     (s, r) \<leftarrow> nvmev_proc_io kv (fst (clk k)) (snd (clk k)) sqid e s;
     case r of
       None \<Rightarrow> Some (s, k)
     | Some io_size \<Rightarrow> do {
         let (dev, wks) = s;
         sq \<leftarrow> the_sq dev sqid;
         dev \<leftarrow> upd_stat sqid (count_dispatched io_size) dev;
         sq_loop kv clk sqid n (k + 1) (if e + 1 = sq_queue_size sq then 0 else e + 1) (dev, wks)
       }
   }"

text \<open>The count of commands in flight is compared as a signed number.\<close>

definition end_dispatch :: "nvmev_sq_stat \<Rightarrow> nvmev_sq_stat" where
  "end_dispatch st = st\<lparr>nr_dispatch := nr_dispatch st + 1,
     max_nr_in_flight := of_int (max (sint (max_nr_in_flight st)) (sint (nr_in_flight st)))\<rparr>"

definition nvmev_proc_io_sq ::
  "bool \<Rightarrow> (nat \<Rightarrow> u64 \<times> u64) \<Rightarrow> int \<Rightarrow> int \<Rightarrow> int \<Rightarrow> 'n nvmev_dev \<times> nvmev_io_worker list
     \<Rightarrow> (('n nvmev_dev \<times> nvmev_io_worker list) \<times> int) option" where
  "nvmev_proc_io_sq kv clk sqid new_db old_db s = do {
     q \<leftarrow> rd_int (sqes (fst s)) sqid;
     case q of
       None \<Rightarrow> Some (s, old_db)
     | Some sq \<Rightarrow> do {
         let n = (if new_db - old_db < 0 then new_db - old_db + sq_queue_size sq else new_db - old_db);
         (s, taken) \<leftarrow> sq_loop kv clk sqid (nat n) 0 old_db s;
         dev \<leftarrow> upd_stat sqid end_dispatch (fst s);
         NVMEV_ASSERT (sq_queue_size sq \<noteq> 0);
         Some ((dev, snd s), tmod (old_db + int taken) (sq_queue_size sq))
       }
   }"

end
