(* ===== verification/Io_Worker.thy ===== *)
theory Io_Worker
  imports Io_Queues
begin

text \<open>
  What an IO worker does for a request (\<open>io.c\<close>): it copies the data of a command between host
  memory and the storage area, by hand or by the DMA engine, or lets the namespace perform the
  command; then it posts a completion or releases buffer space.
\<close>

subsection \<open>Copying by hand\<close>

definition cmd_io_offset :: "sq_command \<Rightarrow> u64" where
  "cmd_io_offset cmd = push_bit 9 (rw_slba (c_rw cmd))"

text \<open>The direction of the copy; other commands copy nothing.\<close>

definition io_copy :: "u8 \<Rightarrow> nat \<Rightarrow> u64 \<Rightarrow> nat \<Rightarrow> nat \<Rightarrow> host_mem \<times> storage \<Rightarrow> (host_mem \<times> storage) option" where
  "io_copy opcode base =
     (if opcode = nvme_cmd_write \<or> opcode = nvme_cmd_zone_append then to_storage base
      else if opcode = nvme_cmd_read then to_host base
      else (\<lambda>a n pos s. Some s))"

text \<open>\<open>pv\<close> says which pages the kernel has page structures for. The status of the command is not looked at.\<close>

definition do_perform_io :: "(u64 \<Rightarrow> bool) \<Rightarrow> int \<Rightarrow> int \<Rightarrow> 'n nvmev_dev \<Rightarrow> 'n nvmev_dev option" where
  "do_perform_io pv sqid sq_entry dev = do {
     sq \<leftarrow> the_sq dev sqid;
     cmd \<leftarrow> rd_int (sq_entries sq) sq_entry;
     ns \<leftarrow> rd (nss dev) (unat (c_nsid cmd - 1));
     (m, st) \<leftarrow> prp_transfer pv fst (io_copy (rw_opcode (c_rw cmd)) (nsp_mapped ns + unat (cmd_io_offset cmd)))
         (c_prp1 cmd) (c_prp2 cmd) (unat (io_bytes cmd)) (host dev, stor dev);
     Some (dev\<lparr>host := m, stor := st\<rparr>)
   }"

subsection \<open>Copying by the DMA engine\<close>

text \<open>
  First the addresses of the pages are collected, in a static array of 513 entries of which the
  first is not used; then runs of pages that follow one another are copied in one go.
\<close>

function dma_list :: "(u64 \<Rightarrow> bool) \<Rightarrow> host_mem \<Rightarrow> u64 \<Rightarrow> u64 \<Rightarrow> nat \<Rightarrow> bool \<Rightarrow> nat \<Rightarrow> u64 list option" where
  "dma_list pv m prp1 prp2 i listed remaining =
     (if remaining = 0 then Some []
      else do {
        NVMEV_ASSERT (i + 1 < 513);
        (paddr, listed) \<leftarrow> prp_addr pv m prp1 prp2 i listed remaining;
        rest \<leftarrow> dma_list pv m prp1 prp2 (i + 1) listed (remaining - prp_io_size paddr remaining);
        Some (paddr # rest)
      })"
  by pat_completeness auto
termination
  by (relation "measure (\<lambda>(_, _, _, _, _, _, remaining). remaining)") (simp_all add: prp_io_size_bounds(1))

declare dma_list.simps [simp del]

text \<open>The number of pages that continue the page at \<open>p\<close>.\<close>

fun run_pages :: "u64 \<Rightarrow> u64 list \<Rightarrow> nat" where
  "run_pages p [] = 0"
| "run_pages p (q # qs) = (if q = p + 4096 then 1 + run_pages q qs else 0)"

function dma_loop :: "(u64 \<Rightarrow> nat \<Rightarrow> nat \<Rightarrow> 's \<Rightarrow> 's option) \<Rightarrow> u64 list \<Rightarrow> nat \<Rightarrow> nat \<Rightarrow> 's \<Rightarrow> 's option" where
  "dma_loop copy ps pos remaining s =
     (if remaining = 0 then Some s
      else case ps of
        [] \<Rightarrow> None
      | p # rest \<Rightarrow> do {
          let k = run_pages p rest;
          let n = min remaining (prp_io_size p remaining + 4096 * k);
          s \<leftarrow> copy p n pos s;
          dma_loop copy (drop k rest) (pos + n) (remaining - n) s
        })"
  by pat_completeness auto
termination
  by (relation "measure (\<lambda>(_, _, _, remaining, _). remaining)") (simp_all add: prp_io_size_bounds(1))

declare dma_loop.simps [simp del]

text \<open>The engine copies to and from the storage area without regard to the namespace.\<close>

definition do_perform_io_using_dma :: "(u64 \<Rightarrow> bool) \<Rightarrow> int \<Rightarrow> int \<Rightarrow> 'n nvmev_dev \<Rightarrow> 'n nvmev_dev option" where
  "do_perform_io_using_dma pv sqid sq_entry dev = do {
     sq \<leftarrow> the_sq dev sqid;
     cmd \<leftarrow> rd_int (sq_entries sq) sq_entry;
     let len = unat (io_bytes cmd);
     ps \<leftarrow> dma_list pv (host dev) (c_prp1 cmd) (c_prp2 cmd) 0 False len;
     (m, st) \<leftarrow> dma_loop (io_copy (rw_opcode (c_rw cmd)) (unat (cmd_io_offset cmd))) ps 0 len (host dev, stor dev);
     Some (dev\<lparr>host := m, stor := st\<rparr>)
   }"

subsection \<open>Requests\<close>

text \<open>In the key-value build namespace 0 decides whether it performs the command itself.\<close>

definition perform_request ::
  "bool \<Rightarrow> bool \<Rightarrow> (u64 \<Rightarrow> bool) \<Rightarrow> nvmev_io_work \<Rightarrow> 'n nvmev_dev \<Rightarrow> (nvmev_io_work \<times> 'n nvmev_dev) option" where
  "perform_request kv io_using_dma pv w dev =
     (if io_using_dma then map_option (Pair w) (do_perform_io_using_dma pv (w_sqid w) (w_sq_entry w) dev)
      else if kv then do {
        sq \<leftarrow> the_sq dev (w_sqid w);
        cmd \<leftarrow> rd_int (sq_entries sq) (w_sq_entry w);
        ns \<leftarrow> rd (nss dev) 0;
        if identify_io_cmd ns cmd then do {
          (st, m, sto, status, result0) \<leftarrow> perform_io_cmd ns cmd (nsp_state ns) (host dev) (stor dev) (w_status w);
          Some (w\<lparr>w_status := status, w_result0 := result0\<rparr>,
                dev\<lparr>nss := (nss dev)[0 := ns\<lparr>nsp_state := st\<rparr>], host := m, stor := sto\<rparr>)
        }
        else map_option (Pair w) (do_perform_io pv (w_sqid w) (w_sq_entry w) dev)
      }
      else map_option (Pair w) (do_perform_io pv (w_sqid w) (w_sq_entry w) dev))"

definition complete_request :: "nvmev_io_work \<Rightarrow> 'n nvmev_dev \<Rightarrow> 'n nvmev_dev option" where
  "complete_request w dev =
     (if is_internal w then do {
        ns \<leftarrow> rd (nss dev) 0;
        st \<leftarrow> nsp_release ns (w_write_buffer w) (buffs_to_release w) (nsp_state ns);
        Some (dev\<lparr>nss := (nss dev)[0 := ns\<lparr>nsp_state := st\<rparr>]\<rparr>)
      }
      else fill_cq_result w dev)"

lemma perform_request_keeps: "perform_request kv dma pv w dev = Some (w', dev') \<Longrightarrow> keeps_request w w'"
proof -
  assume r: "perform_request kv dma pv w dev = Some (w', dev')"
  have "keeps_request w w" unfolding keeps_request_def by (intro exI [of _ "w_status w"] exI [of _ "w_result0 w"]) simp
  then show ?thesis using r
    by (auto simp: perform_request_def keeps_request_def bind_Some_iff split: if_splits)
qed

interpretation device: io_backend "perform_request kv io_using_dma pv" complete_request for kv io_using_dma pv
  by unfold_locales (rule perform_request_keeps)

subsection \<open>Interrupts\<close>

text \<open>
  After a pass the worker raises the interrupts of the queues that are its own and have new
  entries; the second result lists the vectors. The lock of a queue is free.
\<close>

definition signal_cq :: "nat \<Rightarrow> nat \<Rightarrow> nat \<Rightarrow> 'n nvmev_dev \<times> int list \<Rightarrow> ('n nvmev_dev \<times> int list) option" where
  "signal_cq nr_io_workers worker qidx s = do {
     let (dev, irqs) = s;
     q \<leftarrow> rd (cqes dev) qidx;
     owner \<leftarrow> get_io_worker (int qidx) nr_io_workers;
     case q of
       None \<Rightarrow> Some s
     | Some cq \<Rightarrow>
         if owner \<noteq> worker \<or> \<not> irq_enabled cq \<or> \<not> interrupt_ready cq then Some s
         else Some (dev\<lparr>cqes := (cqes dev)[qidx := Some (cq\<lparr>interrupt_ready := False\<rparr>)]\<rparr>, irqs @ [irq_vector cq])
   }"

definition signal_cqs :: "nat \<Rightarrow> nat \<Rightarrow> 'n nvmev_dev \<Rightarrow> ('n nvmev_dev \<times> int list) option" where
  "signal_cqs nr_io_workers worker dev =
     fold_opt (signal_cq nr_io_workers worker) [1..<Suc (unat (nr_cq dev))] (dev, [])"

text \<open>The outer loop of a worker, once: a pass over its requests and the interrupts.\<close>

definition io_worker_round ::
  "bool \<Rightarrow> bool \<Rightarrow> (u64 \<Rightarrow> bool) \<Rightarrow> (nat \<Rightarrow> u64) \<Rightarrow> nat \<Rightarrow> nat \<Rightarrow> nvmev_io_worker \<Rightarrow> 'n nvmev_dev
     \<Rightarrow> (nvmev_io_worker \<times> 'n nvmev_dev \<times> int list) option" where
  "io_worker_round kv io_using_dma pv now_at nr_io_workers worker wk dev = do {
     (wk, dev) \<leftarrow> worker_pass (perform_request kv io_using_dma pv) complete_request now_at 0 (io_seq wk) (wk, dev);
     (dev, irqs) \<leftarrow> signal_cqs nr_io_workers worker dev;
     Some (wk, dev, irqs)
   }"

end
