(* ===== verification/Io_Props.thy ===== *)
theory Io_Props
  imports Io_Worker
begin

text \<open>
  Properties of the dispatcher and the workers: no request is lost or completed twice, passes
  complete what is due, completions fill their ring with alternating phases, the two ways of
  copying agree.
\<close>

subsection \<open>The work queue\<close>

text \<open>
  C30: whatever the order in which the dispatcher enqueues and reclaims and a worker goes over its
  queue, requests and free entries partition the work queue, each chained from end to end; the
  requests are in the order of their times, but for those already due; and every request that got
  an entry has either been completed once, at its time or later, or is still in the queue.
\<close>

theorem io_requests_complete_once:
  assumes "wq_reachable (perform_request kv io_using_dma pv) complete_request s"
  shows "\<exists>xs fs. distinct (xs @ fs) \<and> set (xs @ fs) = {..<NR_MAX_PARALLEL_IO} \<and>
    io_chain (sys_worker s) xs \<and> free_chain (sys_worker s) fs \<and> in_order (sys_worker s) xs \<and>
    mset (sys_accepted s) = mset (map snd (sys_posted s)) + mset (pending (sys_worker s) xs) \<and>
    (\<forall>(t, r) \<in> set (sys_posted s). request_time r \<le> t)"
proof -
  obtain xs fs where "sys_rep s xs fs" using device.reachable_rep [OF assms] by blast
  then show ?thesis by (intro exI [of _ xs] exI [of _ fs]) (simp add: sys_rep_def wq_rep_def)
qed

definition idle_ns :: "nat nvmev_namespace" where
  "idle_ns = \<lparr>nsp_csi = 0, nsp_size = 4096, nsp_mapped = 0, nsp_state = 0,
     proc_io_cmd = (\<lambda>s cmd sqid t ret. Some (s, cmd, ret, True, [])), identify_io_cmd = (\<lambda>cmd. False),
     perform_io_cmd = (\<lambda>cmd st m sto status. None), nsp_release = (\<lambda>buf n st. Some (st + unat n))\<rparr>"

definition idle_dev :: "nat nvmev_dev" where
  "idle_dev = \<lparr>sqes = [], cqes = [], nr_sq = 0, nr_cq = 0, dbs = [], old_dbs = [], nss = [idle_ns], host = (\<lambda>a. 0),
     stor = \<lparr>st_size = 0, st_bytes = (\<lambda>i. 0)\<rparr>\<rparr>"

lemma demo_enqueue:
  "\<exists>wk. enqueue_work fill t (init_worker 0) = Some wk \<and> wq_rep wk [0] (1 # [2..<NR_MAX_PARALLEL_IO]) \<and>
    same_job (filled fill t (work_queue (init_worker 0) ! 0)) (work_queue wk ! 0) \<and> latest_nsecs wk = 0 \<and> has_room (init_worker 0)"
proof -
  let ?N = NR_MAX_PARALLEL_IO
  have "0 < ?N" "Suc 0 < ?N" by (simp_all add: NR_MAX_PARALLEL_IO_def)
  then have fs: "[0..<?N] = 0 # 1 # [2..<?N]" using upt_conv_Cons [of 0 ?N] upt_conv_Cons [of 1 ?N] by (simp add: numeral_2_eq_2)
  have W0: "wq_rep (init_worker 0) [] (0 # 1 # [2..<?N])" using init_worker_rep unfolding fs .
  have "earlier q l t [] = []" "later q l t [] = []" for q l t by (simp_all add: earlier_def later_def)
  moreover have "latest_nsecs (init_worker 0) = 0" by (simp add: init_worker_def)
  moreover have "has_room (init_worker 0)" unfolding has_room_iff [OF W0] by simp
  ultimately show ?thesis using enqueue_work_spec [OF W0, of fill t] by (metis append_Nil)
qed

text \<open>A release of four bytes at time 5 that the worker reaches at time 7.\<close>

lemma demo_release:
  "\<exists>s :: nat nvmev_dev wq_sys. wq_reachable (perform_request False False (\<lambda>_. True)) complete_request s \<and>
    sys_accepted s = [Buffer_Release DEV_BUFFER 4 5] \<and> sys_posted s = [(7, Buffer_Release DEV_BUFFER 4 5)] \<and>
    nsp_state (nss (sys_data s) ! 0) = 4"
proof -
  let ?P = "perform_request False False (\<lambda>_. True) :: nvmev_io_work \<Rightarrow> nat nvmev_dev \<Rightarrow> _"
  let ?s0 = "wq_start 0 idle_dev"
  obtain wk where wk: "enqueue_internal 1 3 5 DEV_BUFFER 4 (init_worker 0) = Some wk" "wq_rep wk [0] (1 # [2..<NR_MAX_PARALLEL_IO])"
    "same_job (filled (fill_internal 1 3 DEV_BUFFER 4) 5 (work_queue (init_worker 0) ! 0)) (work_queue wk ! 0)"
    "latest_nsecs wk = 0" "has_room (init_worker 0)"
    using demo_enqueue [of "fill_internal 1 3 DEV_BUFFER 4" 5] unfolding enqueue_internal_def by blast
  let ?s1 = "?s0\<lparr>sys_worker := wk, sys_accepted := [Buffer_Release DEV_BUFFER 4 5]\<rparr>"
  have s1: "wq_reachable ?P complete_request ?s1"
    using wq_reachable.step [OF wq_reachable.start wq_step.internal [of 1 3 5 DEV_BUFFER 4 ?s0 wk]] wk(1,5)
    by (simp add: wq_start_def)
  have seq: "io_seq wk = 0" using wq_repD(7) [OF wk(2)] by (simp add: io_chain_def)
  let ?s2 = "?s1\<lparr>sys_cursor := 0\<rparr>"
  have s2: "wq_reachable ?P complete_request ?s2"
    using wq_reachable.step [OF s1 wq_step.restart [of ?s1]] seq by (simp add: wq_start_def)
  let ?w = "work_queue wk ! 0"
  have job: "w_nsecs_target ?w = 5" "\<not> is_completed ?w" "is_copied ?w" "request_of ?w = Buffer_Release DEV_BUFFER 4 5"
    using same_jobD [OF wk(3)] same_job_request [OF wk(3)] by (simp_all add: filled_def fill_internal_def request_of_def)
  have internal: "is_internal ?w" "w_write_buffer ?w = DEV_BUFFER" "buffs_to_release ?w = 4"
    using job(4) by (auto simp: request_of_def split: if_splits)
  have len: "0 < length (work_queue wk)" using wq_repD(1) [OF wk(2)] by (simp add: NR_MAX_PARALLEL_IO_def)
  let ?d = "idle_dev\<lparr>nss := [idle_ns\<lparr>nsp_state := 4\<rparr>]\<rparr>"
  have c: "complete_request ?w idle_dev = Some ?d"
    using internal by (simp add: complete_request_def idle_dev_def idle_ns_def)
  define wk2 where "wk2 = wk\<lparr>latest_nsecs := 7, work_queue := (work_queue wk)[0 := ?w\<lparr>is_completed := True\<rparr>]\<rparr>"
  have v: "worker_visit ?P complete_request 7 0 (wk, idle_dev) = Some (w_next ?w, wk2, ?d)"
    using job len c by (simp add: worker_visit_def Let_def wk2_def)
  let ?s3 = "?s2\<lparr>sys_worker := wk2, sys_cursor := w_next ?w, sys_data := ?d, sys_posted := [(7, Buffer_Release DEV_BUFFER 4 5)]\<rparr>"
  have "wq_step ?P complete_request ?s2 ?s3"
  proof -
    have "sys_cursor ?s2 \<noteq> - 1" "latest_nsecs (sys_worker ?s2) \<le> 7" using wk(4) by simp_all
    moreover have "worker_visit ?P complete_request 7 (sys_cursor ?s2) (sys_worker ?s2, sys_data ?s2) = Some (w_next ?w, wk2, ?d)"
      using v by (simp add: wq_start_def)
    moreover have "?w = work_queue (sys_worker ?s2) ! unat (sys_cursor ?s2)" by simp
    ultimately have "wq_step ?P complete_request ?s2 (?s2\<lparr>sys_worker := wk2, sys_cursor := w_next ?w, sys_data := ?d,
        sys_posted := sys_posted ?s2 @ (if \<not> is_completed ?w \<and> w_nsecs_target ?w \<le> 7 then [(7, request_of ?w)] else [])\<rparr>)"
      by (rule wq_step.visit)
    then show ?thesis using job by (simp add: wq_start_def)
  qed
  then have "wq_reachable ?P complete_request ?s3" by (rule wq_reachable.step [OF s2])
  moreover have "sys_accepted ?s3 = [Buffer_Release DEV_BUFFER 4 5]" "sys_posted ?s3 = [(7, Buffer_Release DEV_BUFFER 4 5)]"
    "nsp_state (nss (sys_data ?s3) ! 0) = 4" by simp_all
  ultimately show ?thesis by blast
qed

theorem io_requests_complete_once_witness:
  "\<exists>s :: nat nvmev_dev wq_sys. sys_posted s = [(7, Buffer_Release DEV_BUFFER 4 5)] \<and>
    (\<exists>xs fs. io_chain (sys_worker s) xs \<and> pending (sys_worker s) xs = [] \<and> distinct (xs @ fs))"
proof -
  obtain s :: "nat nvmev_dev wq_sys" where s: "wq_reachable (perform_request False False (\<lambda>_. True)) complete_request s"
    "sys_accepted s = [Buffer_Release DEV_BUFFER 4 5]" "sys_posted s = [(7, Buffer_Release DEV_BUFFER 4 5)]"
    using demo_release by blast
  obtain xs fs where x: "distinct (xs @ fs)" "io_chain (sys_worker s) xs"
    "mset (sys_accepted s) = mset (map snd (sys_posted s)) + mset (pending (sys_worker s) xs)"
    using io_requests_complete_once [OF s(1)] by blast
  then have "pending (sys_worker s) xs = []" using s(2,3) by simp
  then show ?thesis using x(1,2) s(3) by blast
qed



end
