(* ===== verification/Namespaces.thy ===== *)
theory Namespaces
  imports Io_Worker
begin

text \<open>
  The four kinds of namespaces behind one interface: what their initialisations register with the
  device (\<open>conv_ftl.c\<close>, \<open>zns_ftl.c\<close>, \<open>simple_ftl.c\<close>, \<open>kv_ftl.c\<close>) and how \<open>main.c\<close> lays
  them out in the storage area.
\<close>

subsection \<open>States\<close>

text \<open>The key-value and the simple namespace keep the idle times of the IO units of the device.\<close>

datatype ns_state =
    Conv_State nvmev_ns
  | Zns_State zns_namespace
  | Simple_State simple_ns "u64 list"
  | Kv_State kv_ftl "u64 list"

text \<open>The internal operations that a handler scheduled are handed on.\<close>

definition take_ops :: "dev \<Rightarrow> dev \<times> internal_op list" where
  "take_ops dv = (dv\<lparr>internal_ops := []\<rparr>, internal_ops dv)"

subsection \<open>Conventional\<close>

definition conv_handler ::
  "int \<Rightarrow> ns_state \<times> host_mem \<times> storage \<Rightarrow> sq_command \<Rightarrow> u32 \<Rightarrow> u64 \<Rightarrow> nvmev_result
     \<Rightarrow> ((ns_state \<times> host_mem \<times> storage) \<times> sq_command \<times> nvmev_result \<times> bool \<times> internal_op list) option" where
  "conv_handler gc_mode s cmd sq_id wall ret = (case s of
     (Conv_State ns, m, sto) \<Rightarrow> do {
       (ns, ret, ok) \<leftarrow> conv_proc_nvme_io_cmd gc_mode ns
          \<lparr>req_cmd = c_rw cmd, req_sq_id = sq_id, req_nsecs_start = wall\<rparr> ret;
       let (dv, ops) = take_ops (ns_dev ns);
       Some ((Conv_State (ns\<lparr>ns_dev := dv\<rparr>), m, sto), cmd, ret, ok, ops)
     }
   | _ \<Rightarrow> None)"

subsection \<open>Zoned\<close>

text \<open>A reset clears bytes of the storage area from the namespace's base on.\<close>

definition zns_handler ::
  "u32 \<Rightarrow> nat \<Rightarrow> ns_state \<times> host_mem \<times> storage \<Rightarrow> sq_command \<Rightarrow> u32 \<Rightarrow> u64 \<Rightarrow> nvmev_result
     \<Rightarrow> ((ns_state \<times> host_mem \<times> storage) \<times> sq_command \<times> nvmev_result \<times> bool \<times> internal_op list) option" where
  "zns_handler junk base s cmd sq_id wall ret = (case s of
     (Zns_State zn, m, sto) \<Rightarrow> do {
       let zn = zn\<lparr>zn_ftl := (zn_ftl zn)\<lparr>zf_storage := (\<lambda>i. st_bytes sto (base + i))\<rparr>\<rparr>;
       ((zn, m), c, ret, ok) \<leftarrow> zns_proc_nvme_io_cmd junk
          \<lparr>z_prp1 = c_prp1 cmd, z_prp2 = c_prp2 cmd, z_rw = c_rw cmd, z_send = c_zone_send cmd, z_recv = c_zone_recv cmd\<rparr>
          sq_id wall ret (zn, m);
       let sto = sto\<lparr>st_bytes := (\<lambda>i. if base \<le> i then zf_storage (zn_ftl zn) (i - base) else st_bytes sto i)\<rparr>;
       let (dv, ops) = take_ops (zn_dev zn);
       Some ((Zns_State (zn\<lparr>zn_dev := dv\<rparr>), m, sto), cmd\<lparr>c_rw := z_rw c\<rparr>, ret, ok, ops)
     }
   | _ \<Rightarrow> None)"

subsection \<open>Simple and key-value\<close>

definition simple_handler ::
  "nat \<Rightarrow> nvmev_config \<Rightarrow> (u64 \<Rightarrow> u64) \<Rightarrow> ns_state \<times> host_mem \<times> storage \<Rightarrow> sq_command \<Rightarrow> u32 \<Rightarrow> u64 \<Rightarrow> nvmev_result
     \<Rightarrow> ((ns_state \<times> host_mem \<times> storage) \<times> sq_command \<times> nvmev_result \<times> bool \<times> internal_op list) option" where
  "simple_handler base_ssd cfg clk s cmd sq_id wall ret = (case s of
     (Simple_State ns stat, m, sto) \<Rightarrow> do {
       (stat, ret, ok) \<leftarrow> simple_proc_nvme_io_cmd base_ssd cfg ns stat (clk wall)
          \<lparr>req_cmd = c_rw cmd, req_sq_id = sq_id, req_nsecs_start = wall\<rparr> ret;
       Some ((Simple_State ns stat, m, sto), cmd, ret, ok, [])
     }
   | _ \<Rightarrow> None)"

text \<open>The opcode says which view of a command the key-value namespace takes.\<close>

definition kv_view :: "sq_command \<Rightarrow> kv_request" where
  "kv_view cmd = (if is_kv_cmd (rw_opcode (c_rw cmd)) then Kv_Command (c_kv cmd) else Block_Command (c_rw cmd))"

definition kv_handler ::
  "nvmev_config \<Rightarrow> (u64 \<Rightarrow> u64) \<Rightarrow> ns_state \<times> host_mem \<times> storage \<Rightarrow> sq_command \<Rightarrow> u32 \<Rightarrow> u64 \<Rightarrow> nvmev_result
     \<Rightarrow> ((ns_state \<times> host_mem \<times> storage) \<times> sq_command \<times> nvmev_result \<times> bool \<times> internal_op list) option" where
  "kv_handler cfg clk s cmd sq_id wall ret = (case s of
     (Kv_State f stat, m, sto) \<Rightarrow> do {
       (stat, ret, ok) \<leftarrow> kv_proc_nvme_io_cmd cfg stat (clk wall) (kv_view cmd) ret;
       Some ((Kv_State f stat, m, sto), cmd, ret, ok, [])
     }
   | _ \<Rightarrow> None)"

definition kv_performer ::
  "find_zero \<Rightarrow> sq_command \<Rightarrow> ns_state \<Rightarrow> host_mem \<Rightarrow> storage \<Rightarrow> u32
     \<Rightarrow> (ns_state \<times> host_mem \<times> storage \<times> u32 \<times> u32) option" where
  "kv_performer fz cmd s m sto status = (case s of
     Kv_State f stat \<Rightarrow> do {
       (k, status, result0) \<leftarrow> kv_perform_nvme_io_cmd fz \<lparr>kvs_ftl = f, kvs_mem = m, kvs_storage = sto\<rparr> (c_kv cmd) status;
       Some (Kv_State (kvs_ftl k) stat, kvs_mem k, kvs_storage k, status, result0)
     }
   | _ \<Rightarrow> None)"

subsection \<open>Releasing buffer space\<close>

definition release_buf :: "buf_ref \<Rightarrow> u64 \<Rightarrow> ns_state \<Rightarrow> ns_state option" where
  "release_buf b n s = (case s of
     Conv_State ns \<Rightarrow> Some (Conv_State (ns\<lparr>ns_dev := (ns_dev ns)\<lparr>write_buffer := fst (buffer_release (write_buffer (ns_dev ns)) n)\<rparr>\<rparr>))
   | Zns_State zn \<Rightarrow> do {
       v \<leftarrow> read_buf (zn_ftl zn) (zn_dev zn) b;
       (z, dv) \<leftarrow> write_buf (zn_ftl zn) (zn_dev zn) b (fst (buffer_release v n));
       Some (Zns_State (zn\<lparr>zn_ftl := z, zn_dev := dv\<rparr>))
     }
   | _ \<Rightarrow> Some s)"


subsection \<open>Initialisation\<close>

text \<open>
  The build and what initialisation starts from: configurations, and the contents of memory that
  is allocated but not cleared. \<open>env_wall\<close> is what the wall clock reads when a handler asks again.
\<close>

record ns_env =
  env_cfg :: nvmev_config
  env_base_ssd :: nat
  env_gc_mode :: int
  env_ssd_config :: ssd_config
  env_zns_config :: zns_config
  env_spp0 :: ssdparams
  env_junk :: "nat \<Rightarrow> nat \<Rightarrow> u64"
  env_d0 :: "nat \<Rightarrow> nat"
  env_w0 :: write_pointer
  env_clk :: "nat \<Rightarrow> u64"
  env_rnd :: "nat \<Rightarrow> u32"
  env_report :: "nat \<Rightarrow> u8"
  env_status :: u32
  env_wall :: "u64 \<Rightarrow> u64"
  env_bitmaps :: bitmap_alloc
  env_iter :: "kv_iter_context option"
  env_find_zero :: find_zero

definition SSD_TYPE_NVM :: nat where [cdefs]: "SSD_TYPE_NVM = 0"
definition SSD_TYPE_CONV :: nat where [cdefs]: "SSD_TYPE_CONV = 1"
definition SSD_TYPE_ZNS :: nat where [cdefs]: "SSD_TYPE_ZNS = 2"
definition SSD_TYPE_KV :: nat where [cdefs]: "SSD_TYPE_KV = 3"

text \<open>The idle times of the IO units, cleared when the storage area is set up.\<close>

definition io_unit_stat0 :: "nvmev_config \<Rightarrow> u64 list" where
  "io_unit_stat0 cfg = replicate (unat (nr_io_units cfg)) 0"

text \<open>
  What a kind of namespace registers; only the key-value namespace performs commands itself, the
  pointers of the others are not set.
\<close>

definition init_namespace ::
  "ns_env \<Rightarrow> storage \<Rightarrow> nat \<Rightarrow> nat \<Rightarrow> u64 \<Rightarrow> nat \<Rightarrow> ns_state nvmev_namespace option" where
  "init_namespace env sto ty i sz base = (
     let ns = \<lparr>nsp_csi = NVME_CSI_NVM, nsp_size = sz, nsp_mapped = base, nsp_state = Simple_State (simple_init_namespace (of_nat i) sz) [],
       proc_io_cmd = (\<lambda>_ _ _ _ _. None), identify_io_cmd = (\<lambda>_. False), perform_io_cmd = (\<lambda>_ _ _ _ _. None), nsp_release = release_buf\<rparr>
     in if ty = SSD_TYPE_NVM then
          Some (ns\<lparr>nsp_state := Simple_State (simple_init_namespace (of_nat i) sz) (io_unit_stat0 (env_cfg env)),
                  proc_io_cmd := simple_handler (env_base_ssd env) (env_cfg env) (env_wall env)\<rparr>)
        else if ty = SSD_TYPE_CONV then do {
          c \<leftarrow> conv_init_namespace (env_spp0 env) (env_junk env) (env_d0 env) (env_w0 env) (env_clk env) (env_rnd env) (of_nat i) sz;
          Some (ns\<lparr>nsp_size := ns_size c, nsp_state := Conv_State c, proc_io_cmd := conv_handler (env_gc_mode env)\<rparr>)
        }
        else if ty = SSD_TYPE_ZNS then do {
          z \<leftarrow> zns_init_namespace (env_ssd_config env) (env_zns_config env) (env_spp0 env) (env_junk env) (env_clk env) (env_report env)
                 (\<lambda>k. st_bytes sto (base + k)) sz;
          Some (ns\<lparr>nsp_csi := NVME_CSI_ZNS, nsp_state := Zns_State z, proc_io_cmd := zns_handler (env_status env) base\<rparr>)
        }
        else if ty = SSD_TYPE_KV then do {
          k \<leftarrow> kv_init_namespace KV_MAPPING_TABLE_SIZE ALLOCATOR_TYPE (env_bitmaps env) (env_iter env) (storage_size (env_cfg env));
          Some (ns\<lparr>nsp_state := Kv_State k (io_unit_stat0 (env_cfg env)), proc_io_cmd := kv_handler (env_cfg env) (env_wall env),
                  identify_io_cmd := (\<lambda>cmd. kv_identify_nvme_io_cmd (kv_view cmd)), perform_io_cmd := kv_performer (env_find_zero env)\<rparr>)
        }
        else None)"

text \<open>One namespace after the other; a capacity of 0 asks for all that is left.\<close>

fun init_namespaces ::
  "ns_env \<Rightarrow> storage \<Rightarrow> (nat \<times> u64) list \<Rightarrow> nat \<Rightarrow> u64 \<Rightarrow> nat \<Rightarrow> ns_state nvmev_namespace list option" where
  "init_namespaces env sto [] i remaining base = Some []"
| "init_namespaces env sto ((ty, cap) # tys) i remaining base = do {
     let sz = (if cap = 0 then remaining else min cap remaining);
     ns \<leftarrow> init_namespace env sto ty i sz base;
     rest \<leftarrow> init_namespaces env sto tys (i + 1) (remaining - sz) (base + unat sz);
     Some (ns # rest)
   }"

definition NVMEV_NAMESPACE_INIT ::
  "ns_env \<Rightarrow> (nat \<times> u64) list \<Rightarrow> u64 \<Rightarrow> storage \<Rightarrow> ns_state nvmev_namespace list option" where
  "NVMEV_NAMESPACE_INIT env tys sz sto = init_namespaces env sto tys 0 sz 0"

end
