(* ===== verification/Admin.thy ===== *)
theory Admin
  imports Namespaces
begin

text \<open>
  Admin commands (\<open>admin.c\<close>): creating and deleting IO queues, log pages, identification, features.
  The commands come from a submission queue of their own and each posts a completion, except an
  abort. Queue ids index arrays of 73 pointers without a check: an id of 73 or more is a fault here.
\<close>

subsection \<open>State\<close>

text \<open>The fields of an admin command that the code reads; the command words 10 and 11 have several views.\<close>

record admin_command =
  a_opcode :: u8
  a_command_id :: u16
  a_nsid :: u32
  a_prp1 :: u64
  a_cdw10 :: u32
  a_cdw11 :: u32

definition low16 :: "u32 \<Rightarrow> u16" where "low16 w = ucast w"
definition high16 :: "u32 \<Rightarrow> u16" where "high16 w = ucast (drop_bit 16 w)"

text \<open>The pointers to the entries are null until the host has set the base addresses.\<close>

record nvmev_admin_queue =
  aq_phase :: int
  aq_sq_depth :: int
  aq_cq_depth :: int
  aq_cq_head :: int
  aq_sq :: "admin_command list option"
  aq_cq :: "nvme_completion list option"

text \<open>
  The device with its admin queue, the types of its namespaces and the interrupts it has raised.
\<close>

record nvmev_ctrl =
  vdev :: "ns_state nvmev_dev"
  admin_q :: "nvmev_admin_queue option"
  mdts :: u8
  ns_ssd_type :: "nat list"
  irqs :: "int list"

text \<open>How entries of queues read at an address of host memory.\<close>

record entry_view =
  view_sq :: "u64 \<Rightarrow> sq_command"
  view_cq :: "u64 \<Rightarrow> nvme_completion"
  view_asq :: "u64 \<Rightarrow> admin_command"

definition nr_queue_entries :: "nat \<Rightarrow> nat \<Rightarrow> nat" where
  "nr_queue_entries entry_size n = div_round_up (n * entry_size) 4096 * (4096 div entry_size)"

definition entries_at :: "(u64 \<Rightarrow> 'a) \<Rightarrow> nat \<Rightarrow> u64 \<Rightarrow> nat \<Rightarrow> 'a list" where
  "entries_at view entry_size a n = map (\<lambda>i. view (a + of_nat (entry_size * i))) [0..<nr_queue_entries entry_size n]"

definition admin_cmd :: "nvmev_ctrl \<Rightarrow> int \<Rightarrow> admin_command option" where
  "admin_cmd c eid = do { q \<leftarrow> admin_q c; es \<leftarrow> aq_sq q; rd_int es eid }"

subsection \<open>Completions\<close>

definition admin_cqe :: "admin_command \<Rightarrow> int \<Rightarrow> int \<Rightarrow> u16 \<Rightarrow> u32 \<Rightarrow> u32 \<Rightarrow> nvme_completion" where
  "admin_cqe cmd eid phase ret result0 result1 =
     \<lparr>e_result0 = result0, e_result1 = result1, e_sq_head = of_int eid, e_sq_id = 0,
      e_command_id = a_command_id cmd, e_status = of_int phase OR push_bit 1 ret\<rparr>"

definition make_cq_entry_results :: "int \<Rightarrow> u16 \<Rightarrow> u32 \<Rightarrow> u32 \<Rightarrow> nvmev_ctrl \<Rightarrow> nvmev_ctrl option" where
  "make_cq_entry_results eid ret result0 result1 c = do {
     cmd \<leftarrow> admin_cmd c eid;
     q \<leftarrow> admin_q c;
     es \<leftarrow> aq_cq q;
     es \<leftarrow> wr_int es (aq_cq_head q) (admin_cqe cmd eid (aq_phase q) ret result0 result1);
     let q = q\<lparr>aq_cq := Some es\<rparr>;
     let q = (if aq_cq_head q + 1 = aq_cq_depth q
              then q\<lparr>aq_cq_head := 0, aq_phase := (if aq_phase q = 0 then 1 else 0)\<rparr>
              else q\<lparr>aq_cq_head := aq_cq_head q + 1\<rparr>);
     Some (c\<lparr>admin_q := Some q\<rparr>)
   }"

definition make_cq_entry :: "int \<Rightarrow> u16 \<Rightarrow> nvmev_ctrl \<Rightarrow> nvmev_ctrl option" where
  "make_cq_entry eid ret = make_cq_entry_results eid ret 0 0"

definition SC_OK :: u16 where [cdefs]: "SC_OK = 0"
definition SC_INVALID_OPCODE :: u16 where [cdefs]: "SC_INVALID_OPCODE = 1"

subsection \<open>Queues\<close>

text \<open>Setting both copies of a doorbell.\<close>

definition reset_db :: "nat \<Rightarrow> 'n nvmev_dev \<Rightarrow> 'n nvmev_dev option" where
  "reset_db i d = do { n \<leftarrow> wr (dbs d) i 0; old \<leftarrow> wr (old_dbs d) i 0; Some (d\<lparr>dbs := n, old_dbs := old\<rparr>) }"

definition new_cq :: "entry_view \<Rightarrow> admin_command \<Rightarrow> nvmev_completion_queue" where
  "new_cq v cmd = (
     let n = unat (high16 (a_cdw10 cmd)) + 1; flags = low16 (a_cdw11 cmd); irq = bit flags 1
     in \<lparr>cq_qid = uint (low16 (a_cdw10 cmd)), irq_vector = (if irq then uint (high16 (a_cdw11 cmd)) else 0), irq_enabled = irq,
         interrupt_ready = False, cq_phys_contig = bit flags 0, cq_queue_size = int n, cq_phase = 1, cq_head = 0, cq_tail = - 1,
         cq_entries = entries_at (view_cq v) 16 (a_prp1 cmd) n\<rparr>)"

definition new_sq :: "entry_view \<Rightarrow> admin_command \<Rightarrow> nvmev_submission_queue" where
  "new_sq v cmd = (
     let n = unat (high16 (a_cdw10 cmd)) + 1; flags = low16 (a_cdw11 cmd)
     in \<lparr>sq_qid = uint (low16 (a_cdw10 cmd)), sq_cqid = uint (high16 (a_cdw11 cmd)), sq_priority = uint (flags AND 0xFFFE),
         sq_phys_contig = bit flags 0, sq_queue_size = int n,
         sq_stat = \<lparr>nr_dispatched = 0, nr_dispatch = 0, nr_in_flight = 0, max_nr_in_flight = 0, total_io = 0\<rparr>,
         sq_entries = entries_at (view_sq v) 64 (a_prp1 cmd) n\<rparr>)"

definition admin_create_cq :: "entry_view \<Rightarrow> int \<Rightarrow> nvmev_ctrl \<Rightarrow> nvmev_ctrl option" where
  "admin_create_cq v eid c = do {
     cmd \<leftarrow> admin_cmd c eid;
     let qid = unat (low16 (a_cdw10 cmd));
     let d = vdev c;
     qs \<leftarrow> wr (cqes d) qid (Some (new_cq v cmd));
     d \<leftarrow> reset_db (qid * 2 + 1) (d\<lparr>cqes := qs\<rparr>);
     make_cq_entry eid SC_OK (c\<lparr>vdev := d\<rparr>)
   }"

definition admin_delete_cq :: "int \<Rightarrow> nvmev_ctrl \<Rightarrow> nvmev_ctrl option" where
  "admin_delete_cq eid c = do {
     cmd \<leftarrow> admin_cmd c eid;
     qs \<leftarrow> wr (cqes (vdev c)) (unat (low16 (a_cdw10 cmd))) None;
     make_cq_entry eid SC_OK (c\<lparr>vdev := (vdev c)\<lparr>cqes := qs\<rparr>\<rparr>)
   }"

definition admin_create_sq :: "entry_view \<Rightarrow> int \<Rightarrow> nvmev_ctrl \<Rightarrow> nvmev_ctrl option" where
  "admin_create_sq v eid c = do {
     cmd \<leftarrow> admin_cmd c eid;
     let qid = unat (low16 (a_cdw10 cmd));
     let d = vdev c;
     qs \<leftarrow> wr (sqes d) qid (Some (new_sq v cmd));
     d \<leftarrow> reset_db (qid * 2) (d\<lparr>sqes := qs\<rparr>);
     make_cq_entry eid SC_OK (c\<lparr>vdev := d\<rparr>)
   }"

definition admin_delete_sq :: "int \<Rightarrow> nvmev_ctrl \<Rightarrow> nvmev_ctrl option" where
  "admin_delete_sq eid c = do {
     cmd \<leftarrow> admin_cmd c eid;
     qs \<leftarrow> wr (sqes (vdev c)) (unat (low16 (a_cdw10 cmd))) None;
     make_cq_entry eid SC_OK (c\<lparr>vdev := (vdev c)\<lparr>sqes := qs\<rparr>\<rparr>)
   }"

subsection \<open>Pages for the host\<close>

text \<open>A structure of \<open>n\<close> zero bytes but for the given fields, each at its offset.\<close>

definition lay :: "nat \<Rightarrow> (nat \<times> u8 list) list \<Rightarrow> u8 list" where
  "lay n fs = fold (\<lambda>(off, bs) p. take off p @ bs @ drop (off + length bs) p) fs (replicate n 0)"

definition le16_bytes :: "u16 \<Rightarrow> u8 list" where
  "le16_bytes w = map (\<lambda>j. ucast (drop_bit (8 * j) w)) [0..<2]"

definition chars :: "string \<Rightarrow> u8 list" where
  "chars s = map of_char s"

definition put_page :: "u64 \<Rightarrow> u8 list \<Rightarrow> nvmev_ctrl \<Rightarrow> nvmev_ctrl" where
  "put_page a bs c = c\<lparr>vdev := (vdev c)\<lparr>host := write_host (host (vdev c)) a bs\<rparr>\<rparr>"

text \<open>Answering with a page at the command's first address.\<close>

definition answer_page :: "int \<Rightarrow> admin_command \<Rightarrow> u8 list \<Rightarrow> nvmev_ctrl \<Rightarrow> nvmev_ctrl option" where
  "answer_page eid cmd bs c = make_cq_entry eid SC_OK (put_page (a_prp1 cmd) bs c)"

subsection \<open>Log pages\<close>

definition NVME_LOG_SMART :: u8 where [cdefs]: "NVME_LOG_SMART = 2"
definition NVME_LOG_CMD_EFFECTS :: u8 where [cdefs]: "NVME_LOG_CMD_EFFECTS = 5"

definition smart_log :: "u8 list" where
  "smart_log = lay 512 [(4, [20])]"

text \<open>Supported admin commands, and the zoned commands where a namespace is zoned.\<close>

definition effects_log :: "bool \<Rightarrow> u8 list" where
  "effects_log zns = lay 4096 (map (\<lambda>i. (4 * i, le32_bytes 1)) [2, 6, 9, 10, 12] @
     (if zns then map (\<lambda>(i, w). (1024 + 4 * i, le32_bytes w)) [(0x7d, 1), (0x79, 3), (0x7a, 1)] else []))"

definition log_len :: "admin_command \<Rightarrow> u32" where
  "log_len cmd = push_bit 2 ((push_bit 16 (ucast (low16 (a_cdw11 cmd))) OR ucast (high16 (a_cdw10 cmd))) + 1)"

text \<open>The copy takes as many bytes of the page as the host asks for; a page is all there is to read.\<close>

definition admin_get_log_page :: "bool \<Rightarrow> int \<Rightarrow> nvmev_ctrl \<Rightarrow> nvmev_ctrl option" where
  "admin_get_log_page zns eid c = do {
     cmd \<leftarrow> admin_cmd c eid;
     let len = unat (log_len cmd);
     let lid = (ucast (a_cdw10 cmd) :: u8);
     if lid = NVME_LOG_SMART then do {
       NVMEV_ASSERT (len \<le> length smart_log);
       answer_page eid cmd (take len smart_log) c
     }
     else if lid = NVME_LOG_CMD_EFFECTS then do {
       NVMEV_ASSERT (len \<le> length (effects_log zns));
       answer_page eid cmd (take len (effects_log zns)) c
     }
     else answer_page eid cmd (replicate len 0) c
   }"

subsection \<open>Identification\<close>

text \<open>The seven formats: metadata size, power of the block size, performance.\<close>

definition lba_formats :: "(u16 \<times> u8 \<times> u8) list" where
  "lba_formats = [(0, 9, 2), (8, 9, 2), (16, 9, 2), (0, 12, 0), (8, 12, 0), (64, 12, 0), (128, 12, 0)]"

definition id_ns :: "u64 \<Rightarrow> u8 list" where
  "id_ns nsze = lay 4096 ([(0, le64_bytes nsze), (8, le64_bytes nsze), (16, le64_bytes nsze), (25, [6]), (26, [0])] @
     map (\<lambda>i. let (ms, ds, rp) = lba_formats ! i in (128 + 4 * i, le16_bytes ms @ [ds, rp])) [0..<7])"

definition admin_identify_namespace :: "int \<Rightarrow> nvmev_ctrl \<Rightarrow> nvmev_ctrl option" where
  "admin_identify_namespace eid c = do {
     cmd \<leftarrow> admin_cmd c eid;
     ns \<leftarrow> rd (nss (vdev c)) (unat (a_nsid cmd - 1));
     answer_page eid cmd (id_ns (drop_bit 9 (nsp_size ns))) c
   }"

text \<open>Two pages are cleared, then the ids above the given one are listed.\<close>

definition admin_identify_namespaces :: "int \<Rightarrow> nvmev_ctrl \<Rightarrow> nvmev_ctrl option" where
  "admin_identify_namespaces eid c = do {
     cmd \<leftarrow> admin_cmd c eid;
     let ids = filter (\<lambda>i. a_nsid cmd < i) (map of_nat [1..<Suc (length (nss (vdev c)))]);
     let bs = concat (map le32_bytes ids);
     answer_page eid cmd (bs @ replicate (8192 - length bs) 0) c
   }"

definition admin_identify_namespace_desc :: "int \<Rightarrow> nvmev_ctrl \<Rightarrow> nvmev_ctrl option" where
  "admin_identify_namespace_desc eid c = do {
     cmd \<leftarrow> admin_cmd c eid;
     ns \<leftarrow> rd (nss (vdev c)) (unat (a_nsid cmd - 1));
     answer_page eid cmd (lay 4096 [(0, [4]), (1, [1]), (4, [of_nat (nsp_csi ns)])]) c
   }"

definition id_zns_ns :: "znsparams \<Rightarrow> u8 list" where
  "id_zns_ns zpp = lay 4096 ([(4, le32_bytes (nr_active_zones zpp - 1)), (8, le32_bytes (nr_open_zones zpp - 1))] @
     (if 0 < nr_zrwa_zones zpp then
        [(2, le16_bytes 2), (44, le32_bytes (nr_zrwa_zones zpp - 1)), (48, le16_bytes (ucast (zrwafg_size zpp))),
         (50, le16_bytes (ucast (zrwa_size zpp))), (52, [1])] else []) @
     [(2816, le64_bytes (ucast (drop_bit 9 (zone_size zpp))))])"

definition admin_identify_zns_namespace :: "int \<Rightarrow> nvmev_ctrl \<Rightarrow> nvmev_ctrl option" where
  "admin_identify_zns_namespace eid c = do {
     cmd \<leftarrow> admin_cmd c eid;
     let nsid = unat (a_nsid cmd - 1);
     ns \<leftarrow> rd (nss (vdev c)) nsid;
     ty \<leftarrow> rd (ns_ssd_type c) nsid;
     if ty \<noteq> SSD_TYPE_ZNS then make_cq_entry eid SC_OK c
     else do {
       NVMEV_ASSERT (nsp_csi ns = NVME_CSI_ZNS);
       case nsp_state ns of
         Zns_State zn \<Rightarrow> answer_page eid cmd (id_zns_ns (zp (zn_ftl zn))) c
       | _ \<Rightarrow> None
     }
   }"

definition admin_identify_zns_ctrl :: "int \<Rightarrow> nvmev_ctrl \<Rightarrow> nvmev_ctrl option" where
  "admin_identify_zns_ctrl eid c = do { cmd \<leftarrow> admin_cmd c eid; answer_page eid cmd [0] c }"

definition id_ctrl :: "nat \<Rightarrow> u8 \<Rightarrow> u8 list" where
  "id_ctrl nr_ns m = lay 4096 [(4, chars ''CSL_Virt_SN_01''), (24, chars ''CSL_Virt_MN_01''), (64, chars ''CSL_002''),
     (77, [m]), (258, [3]), (512, [0x66]), (513, [0x44]), (516, le32_bytes (of_nat nr_ns)), (520, [0, 0]), (525, [0])]"

definition admin_identify_ctrl :: "int \<Rightarrow> nvmev_ctrl \<Rightarrow> nvmev_ctrl option" where
  "admin_identify_ctrl eid c = do {
     cmd \<leftarrow> admin_cmd c eid;
     answer_page eid cmd (id_ctrl (length (nss (vdev c))) (mdts c)) c
   }"

definition admin_identify :: "int \<Rightarrow> nvmev_ctrl \<Rightarrow> nvmev_ctrl option" where
  "admin_identify eid c = do {
     cmd \<leftarrow> admin_cmd c eid;
     let cns = a_cdw10 cmd;
     if cns = 0 then admin_identify_namespace eid c
     else if cns = 1 then admin_identify_ctrl eid c
     else if cns = 2 then admin_identify_namespaces eid c
     else if cns = 3 then admin_identify_namespace_desc eid c
     else if cns = 5 then admin_identify_zns_namespace eid c
     else if cns = 6 then admin_identify_zns_ctrl eid c
     else make_cq_entry eid SC_INVALID_OPCODE c
   }"

subsection \<open>Features\<close>

definition NVME_FEAT_NUM_QUEUES :: u32 where [cdefs]: "NVME_FEAT_NUM_QUEUES = 7"

definition queue_counts :: "'n nvmev_dev \<Rightarrow> u32" where
  "queue_counts d = push_bit 16 (nr_cq d - 1) OR (nr_sq d - 1)"

definition admin_set_features :: "int \<Rightarrow> nvmev_ctrl \<Rightarrow> nvmev_ctrl option" where
  "admin_set_features eid c = do {
     cmd \<leftarrow> admin_cmd c eid;
     if a_cdw10 cmd = NVME_FEAT_NUM_QUEUES then do {
       let sqs = unat (low16 (a_cdw11 cmd)) + 1;
       let cqs = unat (high16 (a_cdw11 cmd)) + 1;
       let d = (vdev c)\<lparr>nr_sq := of_nat (min sqs NR_MAX_IO_QUEUE), nr_cq := of_nat (min cqs NR_MAX_IO_QUEUE)\<rparr>;
       make_cq_entry_results eid SC_OK (queue_counts d) 0 (c\<lparr>vdev := d\<rparr>)
     }
     else make_cq_entry_results eid SC_OK 0 0 c
   }"

definition admin_get_features :: "int \<Rightarrow> nvmev_ctrl \<Rightarrow> nvmev_ctrl option" where
  "admin_get_features eid c = do {
     cmd \<leftarrow> admin_cmd c eid;
     make_cq_entry_results eid SC_OK (if a_cdw10 cmd = NVME_FEAT_NUM_QUEUES then queue_counts (vdev c) else 0) 0 c
   }"

subsection \<open>Dispatch\<close>

definition admin_async_event :: "int \<Rightarrow> nvmev_ctrl \<Rightarrow> nvmev_ctrl option" where
  "admin_async_event eid = make_cq_entry eid SC_OK"

definition nvme_admin_delete_sq :: u8 where [cdefs]: "nvme_admin_delete_sq = 0"
definition nvme_admin_create_sq :: u8 where [cdefs]: "nvme_admin_create_sq = 1"
definition nvme_admin_get_log_page :: u8 where [cdefs]: "nvme_admin_get_log_page = 2"
definition nvme_admin_delete_cq :: u8 where [cdefs]: "nvme_admin_delete_cq = 4"
definition nvme_admin_create_cq :: u8 where [cdefs]: "nvme_admin_create_cq = 5"
definition nvme_admin_identify :: u8 where [cdefs]: "nvme_admin_identify = 6"
definition nvme_admin_abort_cmd :: u8 where [cdefs]: "nvme_admin_abort_cmd = 8"
definition nvme_admin_set_features :: u8 where [cdefs]: "nvme_admin_set_features = 9"
definition nvme_admin_get_features :: u8 where [cdefs]: "nvme_admin_get_features = 0xa"
definition nvme_admin_async_event :: u8 where [cdefs]: "nvme_admin_async_event = 0xc"

definition proc_admin_req :: "bool \<Rightarrow> entry_view \<Rightarrow> int \<Rightarrow> nvmev_ctrl \<Rightarrow> nvmev_ctrl option" where
  "proc_admin_req zns v eid c = do {
     cmd \<leftarrow> admin_cmd c eid;
     let opc = a_opcode cmd;
     if opc = nvme_admin_delete_sq then admin_delete_sq eid c
     else if opc = nvme_admin_create_sq then admin_create_sq v eid c
     else if opc = nvme_admin_get_log_page then admin_get_log_page zns eid c
     else if opc = nvme_admin_delete_cq then admin_delete_cq eid c
     else if opc = nvme_admin_create_cq then admin_create_cq v eid c
     else if opc = nvme_admin_identify then admin_identify eid c
     else if opc = nvme_admin_abort_cmd then Some c
     else if opc = nvme_admin_set_features then admin_set_features eid c
     else if opc = nvme_admin_get_features then admin_get_features eid c
     else if opc = nvme_admin_async_event then admin_async_event eid c
     else make_cq_entry eid SC_INVALID_OPCODE c
   }"

fun admin_loop :: "bool \<Rightarrow> entry_view \<Rightarrow> nat \<Rightarrow> int \<Rightarrow> nvmev_ctrl \<Rightarrow> nvmev_ctrl option" where
  "admin_loop zns v 0 cur c = Some c"
| "admin_loop zns v (Suc n) cur c = do {
     c \<leftarrow> proc_admin_req zns v cur c;
     q \<leftarrow> admin_q c;
     admin_loop zns v n (if cur + 1 = aq_sq_depth q then 0 else cur + 1) c
   }"

definition nvmev_signal_irq :: "int \<Rightarrow> nvmev_ctrl \<Rightarrow> nvmev_ctrl" where
  "nvmev_signal_irq i c = c\<lparr>irqs := irqs c @ [i]\<rparr>"

definition nvmev_proc_admin_sq :: "bool \<Rightarrow> entry_view \<Rightarrow> int \<Rightarrow> int \<Rightarrow> nvmev_ctrl \<Rightarrow> nvmev_ctrl option" where
  "nvmev_proc_admin_sq zns v new_db old_db c = do {
     q \<leftarrow> admin_q c;
     let n = (if new_db - old_db < 0 then new_db - old_db + aq_sq_depth q else new_db - old_db);
     c \<leftarrow> admin_loop zns v (nat n) old_db c;
     Some (nvmev_signal_irq 0 c)
   }"

end
