(* ===== verification/Controller.thy ===== *)
theory Controller
  imports Admin
begin

text \<open>
  The controller (\<open>pci.c\<close>, \<open>main.c\<close>): the registers that the host sets and the dispatcher compares
  with their old values, the doorbells, and the configuration space.
\<close>

subsection \<open>Registers\<close>

record nvme_ctrl_regs =
  u_cap :: u64
  u_vs :: u32
  intms :: u32
  intmc :: u32
  u_cc :: u32
  rsvd1 :: u32
  u_csts :: u32
  nssr :: u32
  u_aqa :: u32
  u_asq :: u64
  u_acq :: u64
  u_cmbloc :: u32
  u_cmbsz :: u32

text \<open>The controller with its registers and the copy of those it has acted on.\<close>

record nvmev_pci =
  ctl :: nvmev_ctrl
  bar :: nvme_ctrl_regs
  old_bar :: nvme_ctrl_regs

definition asqs :: "u32 \<Rightarrow> int" where "asqs aqa = uint (aqa AND 0xFFF)"
definition acqs :: "u32 \<Rightarrow> int" where "acqs aqa = uint (drop_bit 16 aqa AND 0xFFF)"
definition cc_en :: "u32 \<Rightarrow> bool" where "cc_en cc = bit cc 0"
definition cc_shn :: "u32 \<Rightarrow> nat" where "cc_shn cc = unat (drop_bit 14 cc AND 3)"
definition set_rdy :: "bool \<Rightarrow> u32 \<Rightarrow> u32" where "set_rdy b csts = (if b then csts OR 1 else csts AND NOT 1)"
definition set_shst :: "u32 \<Rightarrow> u32 \<Rightarrow> u32" where "set_shst v csts = (csts AND NOT 0xC) OR push_bit 2 v"

definition with_dev :: "(ns_state nvmev_dev \<Rightarrow> ns_state nvmev_dev option) \<Rightarrow> nvmev_pci \<Rightarrow> nvmev_pci option" where
  "with_dev f p = map_option (\<lambda>d. p\<lparr>ctl := (ctl p)\<lparr>vdev := d\<rparr>\<rparr>) (f (vdev (ctl p)))"

definition set_admin_q :: "nvmev_admin_queue \<Rightarrow> nvmev_pci \<Rightarrow> nvmev_pci" where
  "set_admin_q q p = p\<lparr>ctl := (ctl p)\<lparr>admin_q := Some q\<rparr>\<rparr>"

subsection \<open>Initialisation\<close>

text \<open>
  Queues of 1024 entries, a timeout of 1, the command sets of a build with zones, version 1.0; the
  doorbells are a page of 1024 words.
\<close>

definition init_nvme_ctrl_regs :: "bool \<Rightarrow> nvme_ctrl_regs" where
  "init_nvme_ctrl_regs zns =
     \<lparr>u_cap = (1024 - 1) OR push_bit 24 1 OR (if zns then push_bit 37 64 else 0), u_vs = push_bit 16 1, intms = 0, intmc = 0,
      u_cc = 0, rsvd1 = 0, u_csts = 0, nssr = 0, u_aqa = 0, u_asq = 0, u_acq = 0, u_cmbloc = 0, u_cmbsz = 0\<rparr>"

definition VDEV_INIT :: "ns_state nvmev_namespace list \<Rightarrow> nat list \<Rightarrow> u8 \<Rightarrow> host_mem \<Rightarrow> storage \<Rightarrow> nvmev_ctrl" where
  "VDEV_INIT namespaces types m mem sto =
     \<lparr>vdev = \<lparr>sqes = replicate (NR_MAX_IO_QUEUE + 1) None, cqes = replicate (NR_MAX_IO_QUEUE + 1) None, nr_sq = 0, nr_cq = 0,
        dbs = replicate 1024 0, old_dbs = replicate 1024 0, nss = namespaces, host = mem, stor = sto\<rparr>,
      admin_q = None, mdts = m, ns_ssd_type = types, irqs = []\<rparr>"

definition create_pci_bus :: "bool \<Rightarrow> nvmev_ctrl \<Rightarrow> nvmev_pci" where
  "create_pci_bus zns c = \<lparr>ctl = c, bar = init_nvme_ctrl_regs zns, old_bar = init_nvme_ctrl_regs zns\<rparr>"

subsection \<open>Changes of the registers\<close>

definition reset_admin_dbs :: "nvmev_pci \<Rightarrow> nvmev_pci option" where
  "reset_admin_dbs p = do { p \<leftarrow> with_dev (reset_db 0) p; with_dev (reset_db 1) p }"

definition proc_aqa :: "nvmev_pci \<Rightarrow> nvmev_pci option" where
  "proc_aqa p = (
     let aqa = u_aqa (bar p);
         q = (case admin_q (ctl p) of
                None \<Rightarrow> \<lparr>aq_phase = 0, aq_sq_depth = 0, aq_cq_depth = 0, aq_cq_head = 0, aq_sq = None, aq_cq = None\<rparr>
              | Some q \<Rightarrow> q)
     in reset_admin_dbs (set_admin_q (q\<lparr>aq_cq_head := 0, aq_phase := 1, aq_sq_depth := asqs aqa + 1, aq_cq_depth := acqs aqa + 1\<rparr>)
          (p\<lparr>old_bar := (old_bar p)\<lparr>u_aqa := aqa\<rparr>\<rparr>)))"

definition proc_asq :: "entry_view \<Rightarrow> nvmev_admin_queue \<Rightarrow> nvmev_pci \<Rightarrow> nvmev_pci option" where
  "proc_asq v q p = (
     let depth = asqs (u_aqa (bar p)) + 1; a = u_asq (bar p); page = a AND NOT 0xFFF
     in with_dev (reset_db 0) (set_admin_q (q\<lparr>aq_sq_depth := depth, aq_sq := Some (entries_at (view_asq v) 64 page (nat depth))\<rparr>)
          (p\<lparr>old_bar := (old_bar p)\<lparr>u_asq := a\<rparr>\<rparr>)))"

definition proc_acq :: "entry_view \<Rightarrow> nvmev_admin_queue \<Rightarrow> nvmev_pci \<Rightarrow> nvmev_pci option" where
  "proc_acq v q p = (
     let depth = acqs (u_aqa (bar p)) + 1; a = u_acq (bar p); page = a AND NOT 0xFFF
     in with_dev (reset_db 1) (set_admin_q (q\<lparr>aq_cq_depth := depth, aq_cq_head := 0, aq_phase := 1,
            aq_cq := Some (entries_at (view_cq v) 16 page (nat depth))\<rparr>)
          (p\<lparr>old_bar := (old_bar p)\<lparr>u_acq := a\<rparr>\<rparr>)))"

text \<open>Enabling without an admin queue leaves the controller not ready; shutting it down without one is a fault.\<close>

definition proc_cc :: "nvmev_pci \<Rightarrow> nvmev_pci option" where
  "proc_cc p = do {
     let cc = u_cc (bar p);
     let p = (if cc_en cc then
                (case admin_q (ctl p) of
                   None \<Rightarrow> p
                 | Some _ \<Rightarrow> p\<lparr>bar := (bar p)\<lparr>u_csts := set_rdy True (u_csts (bar p))\<rparr>\<rparr>)
              else p\<lparr>bar := (bar p)\<lparr>u_csts := set_rdy False (u_csts (bar p))\<rparr>\<rparr>);
     p \<leftarrow> (if cc_shn cc = 1 then do {
             p \<leftarrow> reset_admin_dbs (p\<lparr>bar := (bar p)\<lparr>u_csts := set_shst 2 (u_csts (bar p))\<rparr>\<rparr>);
             q \<leftarrow> admin_q (ctl p);
             Some (set_admin_q (q\<lparr>aq_cq_head := 0\<rparr>) p)
           }
           else Some p);
     Some (p\<lparr>old_bar := (old_bar p)\<lparr>u_cc := cc\<rparr>\<rparr>)
   }"

text \<open>One change is processed, the first in this order; the second result says that there was one.\<close>

definition nvmev_proc_bars :: "entry_view \<Rightarrow> nvmev_pci \<Rightarrow> (nvmev_pci \<times> bool) option" where
  "nvmev_proc_bars v p = (
     let b = bar p; old = old_bar p; did = map_option (\<lambda>p. (p, True))
     in if u_aqa old \<noteq> u_aqa b then did (proc_aqa p)
        else if u_asq old \<noteq> u_asq b then
          (case admin_q (ctl p) of None \<Rightarrow> Some (p, True) | Some q \<Rightarrow> did (proc_asq v q p))
        else if u_acq old \<noteq> u_acq b then
          (case admin_q (ctl p) of None \<Rightarrow> Some (p, True) | Some q \<Rightarrow> did (proc_acq v q p))
        else if u_cc old \<noteq> u_cc b then did (proc_cc p)
        else Some (p, False))"

subsection \<open>Doorbells\<close>

text \<open>
  The admin queue first, then the submission and the completion queues with an id up to their
  count. \<open>clk qid k\<close> are the clocks at the command \<open>k\<close> of a queue.
\<close>

definition proc_sq_db ::
  "bool \<Rightarrow> (nat \<Rightarrow> nat \<Rightarrow> u64 \<times> u64) \<Rightarrow> nat \<Rightarrow> (ns_state nvmev_dev \<times> nvmev_io_worker list) \<times> bool
     \<Rightarrow> ((ns_state nvmev_dev \<times> nvmev_io_worker list) \<times> bool) option" where
  "proc_sq_db kv clk qid s = do {
     let ((d, wks), updated) = s;
     q \<leftarrow> rd (sqes d) qid;
     case q of
       None \<Rightarrow> Some s
     | Some _ \<Rightarrow> do {
         new_db \<leftarrow> rd (dbs d) (qid * 2);
         old_db \<leftarrow> rd (old_dbs d) (qid * 2);
         if new_db = old_db then Some s
         else do {
           ((d, wks), db) \<leftarrow> nvmev_proc_io_sq kv (clk qid) (int qid) (sint new_db) (sint old_db) (d, wks);
           old \<leftarrow> wr (old_dbs d) (qid * 2) (of_int db);
           Some ((d\<lparr>old_dbs := old\<rparr>, wks), True)
         }
       }
   }"

definition proc_cq_db ::
  "nat \<Rightarrow> ns_state nvmev_dev \<times> bool \<Rightarrow> (ns_state nvmev_dev \<times> bool) option" where
  "proc_cq_db qid s = do {
     let (d, updated) = s;
     q \<leftarrow> rd (cqes d) qid;
     case q of
       None \<Rightarrow> Some s
     | Some _ \<Rightarrow> do {
         new_db \<leftarrow> rd (dbs d) (qid * 2 + 1);
         old_db \<leftarrow> rd (old_dbs d) (qid * 2 + 1);
         if new_db = old_db then Some s
         else do {
           d \<leftarrow> nvmev_proc_io_cq (int qid) (sint new_db) (sint old_db) d;
           old \<leftarrow> wr (old_dbs d) (qid * 2 + 1) new_db;
           Some (d\<lparr>old_dbs := old\<rparr>, True)
         }
       }
   }"

text \<open>Doorbell 0 has commands processed, doorbell 1 only notes its value.\<close>

definition proc_admin_dbs :: "bool \<Rightarrow> entry_view \<Rightarrow> nvmev_ctrl \<Rightarrow> (nvmev_ctrl \<times> bool) option" where
  "proc_admin_dbs zns v c = do {
     new_db \<leftarrow> rd (dbs (vdev c)) 0;
     old_db \<leftarrow> rd (old_dbs (vdev c)) 0;
     (c, u) \<leftarrow> (if new_db = old_db then Some (c, False)
        else do {
          c \<leftarrow> nvmev_proc_admin_sq zns v (sint new_db) (sint old_db) c;
          old \<leftarrow> wr (old_dbs (vdev c)) 0 new_db;
          Some (c\<lparr>vdev := (vdev c)\<lparr>old_dbs := old\<rparr>\<rparr>, True)
        });
     new_db \<leftarrow> rd (dbs (vdev c)) 1;
     old_db \<leftarrow> rd (old_dbs (vdev c)) 1;
     if new_db = old_db then Some (c, u)
     else do {
       old \<leftarrow> wr (old_dbs (vdev c)) 1 new_db;
       Some (c\<lparr>vdev := (vdev c)\<lparr>old_dbs := old\<rparr>\<rparr>, True)
     }
   }"

definition nvmev_proc_dbs ::
  "bool \<Rightarrow> bool \<Rightarrow> entry_view \<Rightarrow> (nat \<Rightarrow> nat \<Rightarrow> u64 \<times> u64) \<Rightarrow> nvmev_ctrl \<times> nvmev_io_worker list
     \<Rightarrow> ((nvmev_ctrl \<times> nvmev_io_worker list) \<times> bool) option" where
  "nvmev_proc_dbs kv zns v clk s = do {
     let (c, wks) = s;
     (c, u) \<leftarrow> proc_admin_dbs zns v c;
     ((d, wks), u) \<leftarrow> fold_opt (proc_sq_db kv clk) [1..<Suc (unat (nr_sq (vdev c)))] ((vdev c, wks), u);
     (d, u) \<leftarrow> fold_opt proc_cq_db [1..<Suc (unat (nr_cq d))] (d, u);
     Some ((c\<lparr>vdev := d\<rparr>, wks), u)
   }"

text \<open>One round of the dispatcher.\<close>

definition nvmev_dispatcher ::
  "bool \<Rightarrow> bool \<Rightarrow> entry_view \<Rightarrow> (nat \<Rightarrow> nat \<Rightarrow> u64 \<times> u64) \<Rightarrow> nvmev_pci \<times> nvmev_io_worker list
     \<Rightarrow> (nvmev_pci \<times> nvmev_io_worker list) option" where
  "nvmev_dispatcher kv zns v clk s = do {
     let (p, wks) = s;
     (p, _) \<leftarrow> nvmev_proc_bars v p;
     ((c, wks), _) \<leftarrow> nvmev_proc_dbs kv zns v clk (ctl p, wks);
     Some (p\<lparr>ctl := c\<rparr>, wks)
   }"

end
