(* ===== verification/Config.thy ===== *)
theory Config
  imports Controller
begin

text \<open>
  Module parameters, configuration and the files under \<open>/proc/nvmev\<close> (\<open>main.c\<close>). The kernel's
  \<open>simple_strtol\<close> and \<open>sscanf\<close> and the memory map of the machine are parameters.
\<close>

subsection \<open>Parameters\<close>

record module_params =
  p_memmap_start :: u64
  p_memmap_size :: u64
  p_read_time :: u32
  p_read_delay :: u32
  p_read_trailing :: u32
  p_write_time :: u32
  p_write_delay :: u32
  p_write_trailing :: u32
  p_nr_io_units :: u32
  p_io_unit_shift :: u32
  p_cpus :: "string option"

definition MiB :: "nat \<Rightarrow> u64" where "MiB n = push_bit 20 (of_nat n)"

datatype e820_type = E820_TYPE_RAM | E820_TYPE_RESERVED_KERN | E820_TYPE_RESERVED

text \<open>\<open>mapped start end type\<close>: some of the range is of the type. The result is the error, 0 for none.\<close>

definition validate_configs_arch :: "(u64 \<Rightarrow> u64 \<Rightarrow> e820_type \<Rightarrow> bool) \<Rightarrow> module_params \<Rightarrow> int" where
  "validate_configs_arch mapped p = (
     let s = p_memmap_start p; e = s + p_memmap_size p - 1
     in if mapped s e E820_TYPE_RAM \<or> mapped s e E820_TYPE_RESERVED_KERN then -1
        else if \<not> mapped s e E820_TYPE_RESERVED then -1
        else 0)"

definition validate_configs :: "(u64 \<Rightarrow> u64 \<Rightarrow> e820_type \<Rightarrow> bool) \<Rightarrow> module_params \<Rightarrow> int" where
  "validate_configs mapped p =
     (if p_memmap_start p = 0 then -22
      else if p_memmap_size p = 0 then -22
      else if p_memmap_size p \<le> MiB 1 then -22
      else if validate_configs_arch mapped p \<noteq> 0 then -1
      else if p_nr_io_units p = 0 \<or> p_io_unit_shift p = 0 then -22
      else if p_read_time p = 0 then -22
      else if p_write_time p = 0 then -22
      else 0)"

text \<open>The list of CPUs: the pieces between commas, none when the parameter was not given.\<close>

fun pieces :: "string \<Rightarrow> string list" where
  "pieces [] = [[]]"
| "pieces (ch # s) = (if ch = CHR '','' then [] # pieces s
     else (case pieces s of [] \<Rightarrow> [[ch]] | t # ts \<Rightarrow> (ch # t) # ts))"

definition cpu_list :: "(string \<Rightarrow> int) \<Rightarrow> string option \<Rightarrow> u32 list" where
  "cpu_list strtol cpus = (case cpus of None \<Rightarrow> [] | Some s \<Rightarrow> map (\<lambda>t. of_int (strtol t)) (pieces s))"

text \<open>
  The first CPU is the dispatcher's; the others go to an array of 32 without a check. \<open>kv\<close>: the
  build for the key-value prototype takes space for its table off the end, after the validation.
  The result is none when the configuration was refused.
\<close>

definition load_configs ::
  "bool \<Rightarrow> (u64 \<Rightarrow> u64 \<Rightarrow> e820_type \<Rightarrow> bool) \<Rightarrow> (string \<Rightarrow> int) \<Rightarrow> module_params \<Rightarrow> nvmev_config option option" where
  "load_configs kv mapped strtol p =
     (if validate_configs mapped p < 0 then Some None
      else do {
        let sz = (if kv then p_memmap_size p - KV_MAPPING_TABLE_SIZE else p_memmap_size p);
        let cs = cpu_list strtol (p_cpus p);
        NVMEV_ASSERT (length (tl cs) \<le> 32);
        Some (Some \<lparr>memmap_start = p_memmap_start p, memmap_size = sz,
          storage_start = p_memmap_start p + MiB 1, storage_size = sz - MiB 1,
          cpu_nr_dispatcher = (case cs of [] \<Rightarrow> - 1 | x # _ \<Rightarrow> x), cpu_nr_io_workers = tl cs,
          nr_io_units = p_nr_io_units p, io_unit_shift = p_io_unit_shift p,
          read_delay = p_read_delay p, read_time = p_read_time p, read_trailing = p_read_trailing p,
          write_delay = p_write_delay p, write_time = p_write_time p, write_trailing = p_write_trailing p\<rparr>)
      })"

subsection \<open>Files\<close>

definition get_nr_entries :: "nat \<Rightarrow> int \<Rightarrow> 'n nvmev_dev \<Rightarrow> int option" where
  "get_nr_entries dbs_idx queue_size d = do {
     n \<leftarrow> rd (dbs d) dbs_idx;
     old \<leftarrow> rd (old_dbs d) dbs_idx;
     let diff = sint (n - old);
     Some (if diff < 0 then diff + queue_size else diff)
   }"

text \<open>What a read of \<open>stat\<close> prints of a queue; the maximum starts anew.\<close>

record stat_line =
  st_qid :: nat
  st_entries :: int
  st_stat :: nvmev_sq_stat

definition read_stat_line :: "nat \<Rightarrow> 'n nvmev_dev \<times> stat_line list \<Rightarrow> ('n nvmev_dev \<times> stat_line list) option" where
  "read_stat_line i s = do {
     let (d, ls) = s;
     q \<leftarrow> rd (sqes d) i;
     case q of
       None \<Rightarrow> Some s
     | Some sq \<Rightarrow> do {
         n \<leftarrow> get_nr_entries (i * 2) (sq_queue_size sq) d;
         d \<leftarrow> put_sq (int i) (sq\<lparr>sq_stat := (sq_stat sq)\<lparr>max_nr_in_flight := 0\<rparr>\<rparr>) d;
         Some (d, ls @ [\<lparr>st_qid = i, st_entries = n, st_stat = sq_stat sq\<rparr>])
       }
   }"

text \<open>The totals: in flight, dispatches, dispatched commands, bytes.\<close>

definition stat_totals :: "stat_line list \<Rightarrow> u32 \<times> u32 \<times> u32 \<times> u64" where
  "stat_totals ls = (sum_list (map (nr_in_flight \<circ> st_stat) ls), sum_list (map (nr_dispatch \<circ> st_stat) ls),
     sum_list (map (nr_dispatched \<circ> st_stat) ls), sum_list (map (total_io \<circ> st_stat) ls))"

definition proc_read_stat :: "'n nvmev_dev \<Rightarrow> ('n nvmev_dev \<times> stat_line list \<times> (u32 \<times> u32 \<times> u32 \<times> u64)) option" where
  "proc_read_stat d = do {
     (d, ls) \<leftarrow> fold_opt read_stat_line [1..<Suc (unat (nr_sq d))] (d, []);
     Some (d, ls, stat_totals ls)
   }"

datatype proc_file = Read_Times | Write_Times | Io_Units_File | Stat_File | Debug_File

text \<open>The numbers a read of one of the other files prints.\<close>

fun proc_read_numbers :: "proc_file \<Rightarrow> nvmev_config \<Rightarrow> u32 list" where
  "proc_read_numbers Read_Times cfg = [read_delay cfg, read_time cfg, read_trailing cfg]"
| "proc_read_numbers Write_Times cfg = [write_delay cfg, write_time cfg, write_trailing cfg]"
| "proc_read_numbers Io_Units_File cfg = [nr_io_units cfg, io_unit_shift cfg]"
| "proc_read_numbers _ cfg = []"

text \<open>The \<open>i\<close>th of the numbers that were scanned, or the old value.\<close>

definition scanned :: "u32 list \<Rightarrow> nat \<Rightarrow> u32 \<Rightarrow> u32" where
  "scanned ns i old = (if i < length ns then ns ! i else old)"

definition clear_stat :: "nat \<Rightarrow> 'n nvmev_dev \<Rightarrow> 'n nvmev_dev option" where
  "clear_stat i d = do {
     q \<leftarrow> rd (sqes d) i;
     case q of
       None \<Rightarrow> Some d
     | Some sq \<Rightarrow> put_sq (int i) (sq\<lparr>sq_stat := \<lparr>nr_dispatched = 0, nr_dispatch = 0, nr_in_flight = 0,
         max_nr_in_flight = 0, total_io = 0\<rparr>\<rparr>) d
   }"

text \<open>
  A write: the numbers scanned from the input, at most three, go to the configuration without a
  check. New IO units start with cleared times.
\<close>

definition proc_file_write ::
  "proc_file \<Rightarrow> u32 list \<Rightarrow> nvmev_config \<times> u64 list \<times> 'n nvmev_dev \<Rightarrow> (nvmev_config \<times> u64 list \<times> 'n nvmev_dev) option" where
  "proc_file_write f ns s = (let (cfg, stat, d) = s in
     case f of
       Read_Times \<Rightarrow> Some (cfg\<lparr>read_delay := scanned ns 0 (read_delay cfg), read_time := scanned ns 1 (read_time cfg),
         read_trailing := scanned ns 2 (read_trailing cfg)\<rparr>, stat, d)
     | Write_Times \<Rightarrow> Some (cfg\<lparr>write_delay := scanned ns 0 (write_delay cfg), write_time := scanned ns 1 (write_time cfg),
         write_trailing := scanned ns 2 (write_trailing cfg)\<rparr>, stat, d)
     | Io_Units_File \<Rightarrow>
         if ns = [] then Some (cfg, stat, d)
         else let cfg = cfg\<lparr>nr_io_units := scanned ns 0 (nr_io_units cfg), io_unit_shift := scanned ns 1 (io_unit_shift cfg)\<rparr>
           in Some (cfg, io_unit_stat0 cfg, d)
     | Stat_File \<Rightarrow> map_option (\<lambda>d. (cfg, stat, d)) (fold_opt clear_stat [1..<Suc (unat (nr_sq d))] d)
     | Debug_File \<Rightarrow> Some (cfg, stat, d))"

end
