(* ===== verification/Queue_Props.thy ===== *)
theory Queue_Props
  imports Config
begin

text \<open>
  The rings of completions: what the workers put into a completion queue, and what the dispatcher
  makes of the entries the host has taken out.
\<close>

subsection \<open>Posting completions\<close>

definition phase_at :: "nat \<Rightarrow> nat \<Rightarrow> int" where
  "phase_at N i = (if even (i div N) then 1 else 0)"

lemma phase_at_Suc:
  assumes "0 < N"
  shows "phase_at N (Suc i) = (if Suc (i mod N) = N then (if phase_at N i = 0 then 1 else 0) else phase_at N i)"
  using assms by (simp add: phase_at_def div_Suc mod_Suc)

lemma phase_tag: "bit (e_status (cqe_of (phase_at N i) w)) 0 \<longleftrightarrow> even (i div N)"
proof -
  have "\<not> bit (push_bit 1 (w_status w)) 0" by (simp only: bit_push_bit_iff) simp
  then show ?thesis by (simp add: cqe_of_def phase_at_def bit_simps del: push_bit_of_1 push_bit_Suc)
qed

lemma the_cq_put [simp]: "put_cq i cq d = Some d' \<Longrightarrow> the_cq d' i = Some cq"
  by (auto simp: put_cq_def the_cq_def wr_int_def rd_int_def arr_simps split: if_splits)

text \<open>A queue into which \<open>ws\<close> has been posted since it was empty.\<close>

definition holds :: "nat \<Rightarrow> nvmev_io_work list \<Rightarrow> nvmev_completion_queue \<Rightarrow> bool" where
  "holds N ws cq \<longleftrightarrow> cq_queue_size cq = int N \<and> N \<le> length (cq_entries cq) \<and>
     cq_head cq = int (length ws mod N) \<and> cq_phase cq = phase_at N (length ws) \<and>
     (\<forall>i < length ws. length ws \<le> i + N \<longrightarrow> cq_entries cq ! (i mod N) = cqe_of (phase_at N i) (ws ! i))"

lemma mod_eq_near:
  assumes "i < n" "n < i + N"
  shows "i mod N \<noteq> n mod (N :: nat)"
proof
  assume "i mod N = n mod N"
  then have "N dvd n - i" using assms(1) mod_eq_dvd_iff_nat [of i n N] by simp
  then show False using assms by (auto dest: dvd_imp_le)
qed

lemma post_holds:
  assumes h: "holds N ws cq" and N: "0 < N"
  shows "\<exists>cq'. cq_put (cqe_of (cq_phase cq) w) cq = Some cq' \<and> holds N (ws @ [w]) cq' \<and> interrupt_ready cq'"
proof -
  let ?n = "length ws" and ?e = "cqe_of (phase_at N (length ws)) w"
  let ?es = "(cq_entries cq)[?n mod N := ?e]"
  have lt: "?n mod N < N" using N by simp
  have len: "?n mod N < length (cq_entries cq)" using h lt by (simp add: holds_def)
  have wr: "wr_int (cq_entries cq) (cq_head cq) (cqe_of (cq_phase cq) w) = Some ?es"
    using h len by (simp add: holds_def)
  have slots: "?es ! (i mod N) = cqe_of (phase_at N i) ((ws @ [w]) ! i)" if i: "i < Suc ?n" "Suc ?n \<le> i + N" for i
  proof (cases "i = ?n")
    case True
    then show ?thesis using len by simp
  next
    case False
    then have "i < ?n" "i mod N \<noteq> ?n mod N" using i mod_eq_near [of i ?n N] by simp_all
    then show ?thesis using h i by (simp add: holds_def nth_append)
  qed
  have size: "cq_head cq + 1 = cq_queue_size cq \<longleftrightarrow> Suc (?n mod N) = N" using h by (auto simp: holds_def)
  show ?thesis
  proof (cases "Suc (?n mod N) = N")
    case True
    then have "cq_head cq + 1 = cq_queue_size cq" using size by simp
    then show ?thesis using h N True wr slots by (simp add: cq_put_def holds_def phase_at_Suc mod_Suc)
  next
    case False
    then have "cq_head cq + 1 \<noteq> cq_queue_size cq" using size by simp
    then show ?thesis using h N False wr slots by (simp add: cq_put_def holds_def phase_at_Suc mod_Suc)
  qed
qed

text \<open>Posting to the queue \<open>cqid\<close> of a device leaves the other queues alone.\<close>

lemma fill_cq_result_holds:
  assumes cq: "the_cq d cqid = Some cq" and h: "holds N ws cq" and N: "0 < N" and w: "w_cqid w = cqid"
  shows "\<exists>d' cq'. fill_cq_result w d = Some d' \<and> the_cq d' cqid = Some cq' \<and> holds N (ws @ [w]) cq' \<and> interrupt_ready cq' \<and>
    (\<forall>i. i \<noteq> cqid \<longrightarrow> the_cq d' i = the_cq d i) \<and> d' = d\<lparr>cqes := cqes d'\<rparr>"
proof -
  obtain cq' where p: "cq_put (cqe_of (cq_phase cq) w) cq = Some cq'" "holds N (ws @ [w]) cq'" "interrupt_ready cq'"
    using post_holds [OF h N] by blast
  have in_range: "0 \<le> cqid" "nat cqid < length (cqes d)" using cq by (auto simp: the_cq_def rd_int_Some bind_Some_iff)
  let ?d = "d\<lparr>cqes := (cqes d)[nat cqid := Some cq']\<rparr>"
  have "fill_cq_result w d = Some ?d" using cq w p(1) in_range by (simp add: fill_cq_result_def put_cq_def)
  moreover have "the_cq ?d cqid = Some cq'" using in_range by (simp add: the_cq_def)
  moreover have "the_cq ?d i = the_cq d i" if "i \<noteq> cqid" for i
    using that in_range by (auto simp: the_cq_def rd_int_def rd_def nat_eq_iff2 nth_list_update)
  ultimately show ?thesis using p(2,3) by (intro exI [of _ ?d] exI [of _ cq']) auto
qed

lemma post_all:
  assumes cq: "the_cq d cqid = Some cq" "holds N [] cq" and N: "0 < N"
  shows "\<forall>w \<in> set ws. w_cqid w = cqid \<Longrightarrow>
    \<exists>d' cq'. fold_opt fill_cq_result ws d = Some d' \<and> the_cq d' cqid = Some cq' \<and> holds N ws cq' \<and>
      (ws \<noteq> [] \<longrightarrow> interrupt_ready cq') \<and> (\<forall>i. i \<noteq> cqid \<longrightarrow> the_cq d' i = the_cq d i) \<and> d' = d\<lparr>cqes := cqes d'\<rparr>"
proof (induction ws rule: rev_induct)
  case Nil
  then show ?case using cq by simp
next
  case (snoc w ws)
  then obtain d1 cq1 where 1: "fold_opt fill_cq_result ws d = Some d1" "the_cq d1 cqid = Some cq1" "holds N ws cq1"
    "\<forall>i. i \<noteq> cqid \<longrightarrow> the_cq d1 i = the_cq d i" "d1 = d\<lparr>cqes := cqes d1\<rparr>" by auto
  obtain d2 cq2 where 2: "fill_cq_result w d1 = Some d2" "the_cq d2 cqid = Some cq2" "holds N (ws @ [w]) cq2" "interrupt_ready cq2"
    "\<forall>i. i \<noteq> cqid \<longrightarrow> the_cq d2 i = the_cq d1 i" "d2 = d1\<lparr>cqes := cqes d2\<rparr>"
    using fill_cq_result_holds [OF 1(2,3) N, of w] snoc.prems by simp blast
  have "d2 = d\<lparr>cqes := cqes d2\<rparr>" using 1(5) 2(6) by (metis nvmev_dev.update_convs(2) nvmev_dev.surjective)
  then show ?case using 1(1,4) 2 by (intro exI [of _ d2] exI [of _ cq2]) (simp add: fold_opt_append)
qed

text \<open>
  C32: completions posted to an empty queue of \<open>N\<close> entries go round it: the \<open>i\<close>th is in entry
  \<open>i mod N\<close> until the \<open>(i + N)\<close>th is posted, and its phase tag tells the rounds apart, being set in
  the even ones. Posting never faults, asks for an interrupt, and touches nothing but that queue.
\<close>

theorem completion_ring:
  assumes "the_cq dev cqid = Some cq" "cq_queue_size cq = int N" "0 < N" "N \<le> length (cq_entries cq)"
    and "cq_head cq = 0" "cq_phase cq = 1" and "\<forall>w \<in> set ws. w_cqid w = cqid"
  shows "\<exists>dev' cq'. fold_opt fill_cq_result ws dev = Some dev' \<and> the_cq dev' cqid = Some cq' \<and>
    cq_head cq' = int (length ws mod N) \<and> (ws \<noteq> [] \<longrightarrow> interrupt_ready cq') \<and>
    (\<forall>i < length ws. length ws \<le> i + N \<longrightarrow> cq_entries cq' ! (i mod N) = cqe_of (if even (i div N) then 1 else 0) (ws ! i) \<and>
      (bit (e_status (cq_entries cq' ! (i mod N))) 0 \<longleftrightarrow> even (i div N))) \<and>
    (\<forall>i. i \<noteq> cqid \<longrightarrow> the_cq dev' i = the_cq dev i) \<and> dev' = dev\<lparr>cqes := cqes dev'\<rparr>"
proof -
  have "holds N [] cq" using assms by (simp add: holds_def phase_at_def)
  from post_all [OF assms(1) this assms(3,7)] obtain d' cq' where
    p: "fold_opt fill_cq_result ws dev = Some d'" "the_cq d' cqid = Some cq'" "holds N ws cq'" "ws \<noteq> [] \<longrightarrow> interrupt_ready cq'"
      "\<forall>i. i \<noteq> cqid \<longrightarrow> the_cq d' i = the_cq dev i" "d' = dev\<lparr>cqes := cqes d'\<rparr>" by blast
  then show ?thesis using phase_tag [of N]
    by (intro exI [of _ d'] exI [of _ cq']) (simp add: holds_def phase_at_def cong: if_cong)
qed

text \<open>Three completions on a ring of two entries.\<close>

definition two_entries :: nvmev_completion_queue where
  "two_entries = \<lparr>cq_qid = 1, irq_vector = 1, irq_enabled = True, interrupt_ready = False, cq_phys_contig = True, cq_queue_size = 2,
     cq_phase = 1, cq_head = 0, cq_tail = - 1, cq_entries = replicate 2
       \<lparr>e_result0 = 0, e_result1 = 0, e_sq_head = 0, e_sq_id = 1, e_command_id = 0, e_status = 0\<rparr>\<rparr>"

definition one_flying :: nvmev_submission_queue where
  "one_flying = \<lparr>sq_qid = 1, sq_cqid = 1, sq_priority = 0, sq_phys_contig = True, sq_queue_size = 2,
     sq_stat = \<lparr>nr_dispatched = 1, nr_dispatch = 1, nr_in_flight = 1, max_nr_in_flight = 1, total_io = 512\<rparr>, sq_entries = []\<rparr>"

definition two_ring :: "nat nvmev_dev" where
  "two_ring = \<lparr>sqes = [None, Some one_flying], cqes = [None, Some two_entries], nr_sq = 1, nr_cq = 1, dbs = [], old_dbs = [], nss = [],
     host = (\<lambda>a. 0), stor = \<lparr>st_size = 0, st_bytes = (\<lambda>i. 0)\<rparr>\<rparr>"

lemma two_ring_cq: "the_cq two_ring 1 = Some two_entries"
  by (simp add: the_cq_def two_ring_def)

theorem completion_ring_witness:
  "\<exists>dev cq. fold_opt fill_cq_result (map (\<lambda>c. fresh_work\<lparr>w_cqid := 1, w_command_id := c\<rparr>) [5, 6, 7]) two_ring = Some dev \<and>
    the_cq dev 1 = Some cq \<and> cq_head cq = 1 \<and> cq_entries cq ! 0 = cqe_of 0 (fresh_work\<lparr>w_cqid := 1, w_command_id := 7\<rparr>) \<and>
    cq_entries cq ! 1 = cqe_of 1 (fresh_work\<lparr>w_cqid := 1, w_command_id := 6\<rparr>)"
proof -
  let ?ws = "map (\<lambda>c. fresh_work\<lparr>w_cqid := 1, w_command_id := c\<rparr>) [5, 6, 7]"
  have "\<exists>dev' cq'. fold_opt fill_cq_result ?ws two_ring = Some dev' \<and> the_cq dev' 1 = Some cq' \<and>
    cq_head cq' = int (length ?ws mod 2) \<and> (?ws \<noteq> [] \<longrightarrow> interrupt_ready cq') \<and>
    (\<forall>i < length ?ws. length ?ws \<le> i + 2 \<longrightarrow> cq_entries cq' ! (i mod 2) = cqe_of (if even (i div 2) then 1 else 0) (?ws ! i) \<and>
      (bit (e_status (cq_entries cq' ! (i mod 2))) 0 \<longleftrightarrow> even (i div 2))) \<and>
    (\<forall>i. i \<noteq> 1 \<longrightarrow> the_cq dev' i = the_cq two_ring i) \<and> dev' = two_ring\<lparr>cqes := cqes dev'\<rparr>"
    by (rule completion_ring [OF two_ring_cq]) (simp_all add: two_entries_def)
  then obtain d cq where p: "fold_opt fill_cq_result ?ws two_ring = Some d" "the_cq d 1 = Some cq" "cq_head cq = int (length ?ws mod 2)"
    "\<And>i. i < length ?ws \<Longrightarrow> length ?ws \<le> i + 2 \<Longrightarrow> cq_entries cq ! (i mod 2) = cqe_of (if even (i div 2) then 1 else 0) (?ws ! i)"
    by blast
  have "cq_entries cq ! 0 = cqe_of 0 (fresh_work\<lparr>w_cqid := 1, w_command_id := 7\<rparr>)" using p(4) [of 2] by simp
  moreover have "cq_entries cq ! 1 = cqe_of 1 (fresh_work\<lparr>w_cqid := 1, w_command_id := 6\<rparr>)" using p(4) [of 1] by simp
  moreover have "cq_head cq = 1" using p(3) by simp
  ultimately show ?thesis using p(1,2) by blast
qed

subsection \<open>Taking completions out\<close>

text \<open>\<open>n\<close> commands less in flight, and the entries of \<open>es\<close> that answer commands of queue \<open>q\<close>.\<close>

definition fewer :: "nat \<Rightarrow> nvmev_submission_queue \<Rightarrow> nvmev_submission_queue" where
  "fewer n sq = sq\<lparr>sq_stat := (sq_stat sq)\<lparr>nr_in_flight := nr_in_flight (sq_stat sq) - of_nat n\<rparr>\<rparr>"

definition answers :: "nvme_completion list \<Rightarrow> nat \<Rightarrow> nat" where
  "answers es q = length (filter (\<lambda>e. unat (e_sq_id e) = q) es)"

definition take_all :: "nvme_completion list \<Rightarrow> 'n nvmev_dev \<Rightarrow> 'n nvmev_dev option" where
  "take_all es = fold_opt (\<lambda>e. cq_taken (uint (e_sq_id e))) es"

lemma fewer_simps [simp]: "fewer 0 sq = sq" "fewer m (fewer n sq) = fewer (n + m) sq"
  by (simp_all add: fewer_def)

lemma cq_taken_eq:
  assumes "unat i < length (sqes d)"
  shows "cq_taken (uint i) d = Some (d\<lparr>sqes := (sqes d)[unat i := map_option (fewer 1) (sqes d ! unat i)]\<rparr>)"
proof (cases "sqes d ! unat i")
  case None
  then have "(sqes d)[unat i := None] = sqes d" by (metis list_update_id)
  then show ?thesis using assms None by (simp add: cq_taken_def flip: unat_eq_nat_uint)
next
  case (Some sq)
  then show ?thesis using assms by (simp add: cq_taken_def put_sq_def fewer_def flip: unat_eq_nat_uint)
qed

lemma answers_simps [simp]:
  "answers [] q = 0" "answers (e # es) q = answers es q + (if unat (e_sq_id e) = q then 1 else 0)"
  by (simp_all add: answers_def)

lemma take_one:
  assumes "q < length qs"
  shows "map_option (fewer n) (qs[i := map_option (fewer 1) (qs ! i)] ! q) = map_option (fewer (n + (if i = q then 1 else 0))) (qs ! q)"
proof (cases "i = q")
  case True
  then show ?thesis using assms by (cases "qs ! q") (simp_all add: add.commute)
qed simp

lemma take_all_eq:
  "\<forall>e \<in> set es. unat (e_sq_id e) < length (sqes d) \<Longrightarrow>
    take_all es d = Some (d\<lparr>sqes := map (\<lambda>q. map_option (fewer (answers es q)) (sqes d ! q)) [0..<length (sqes d)]\<rparr>)"
proof (induction es arbitrary: d)
  case Nil
  have "map (\<lambda>q. map_option (fewer 0) (sqes d ! q)) [0..<length (sqes d)] = sqes d"
  proof -
    have "fewer 0 = (\<lambda>sq. sq)" by (rule ext) simp
    then show ?thesis by (simp add: option.map_ident map_nth)
  qed
  then show ?case unfolding answers_simps by (simp only: take_all_def fold_opt.simps) simp
next
  case (Cons e es)
  let ?i = "unat (e_sq_id e)"
  let ?qs = "(sqes d)[?i := map_option (fewer 1) (sqes d ! ?i)]"
  have "cq_taken (uint (e_sq_id e)) d = Some (d\<lparr>sqes := ?qs\<rparr>)" by (rule cq_taken_eq) (use Cons.prems in simp)
  then have "take_all (e # es) d = take_all es (d\<lparr>sqes := ?qs\<rparr>)" by (simp only: take_all_def fold_opt.simps bind.bind_lunit)
  also have "\<dots> = Some (d\<lparr>sqes := ?qs\<rparr>\<lparr>sqes := map (\<lambda>q. map_option (fewer (answers es q)) (sqes (d\<lparr>sqes := ?qs\<rparr>) ! q))
      [0..<length (sqes (d\<lparr>sqes := ?qs\<rparr>))]\<rparr>)"
    by (rule Cons.IH) (use Cons.prems in simp)
  also have "map (\<lambda>q. map_option (fewer (answers es q)) (sqes (d\<lparr>sqes := ?qs\<rparr>) ! q)) [0..<length (sqes (d\<lparr>sqes := ?qs\<rparr>))] =
      map (\<lambda>q. map_option (fewer (answers (e # es) q)) (sqes d ! q)) [0..<length (sqes d)]"
  proof -
    have "map_option (fewer (answers es q)) (?qs ! q) = map_option (fewer (answers (e # es) q)) (sqes d ! q)" if "q < length (sqes d)" for q
      using take_one [OF that, of "answers es q" ?i] unfolding answers_simps .
    note pointwise = this
    have "sqes (d\<lparr>sqes := ?qs\<rparr>) = ?qs" by simp
    then show ?thesis unfolding length_list_update by (intro map_cong) (simp_all only: pointwise set_upt atLeastLessThan_iff length_list_update)
  qed
  finally show ?case by simp
qed

lemma answers_append: "answers (xs @ ys) q = answers xs q + answers ys q"
  by (simp add: answers_def)

definition entries_from :: "nvmev_completion_queue \<Rightarrow> nat \<Rightarrow> nat \<Rightarrow> nvme_completion list" where
  "entries_from cq i j = map (\<lambda>k. cq_entries cq ! k) [i..<j]"

lemma loop_straight:
  fixes d :: "'n nvmev_dev"
  assumes "new \<le> N" "N \<le> length (cq_entries cq)" "cq_queue_size cq = int N"
  shows "i \<le> new \<Longrightarrow> cq_loop cq (int new) (int i) d = take_all (entries_from cq i new) d"
proof (induction "new - i" arbitrary: i d)
  case 0
  then show ?case by (subst cq_loop.simps) (simp add: entries_from_def take_all_def)
next
  case (Suc k)
  have i: "i < new" "i < N" "i < length (cq_entries cq)" using Suc.hyps(2) assms by simp_all
  have es: "entries_from cq i new = cq_entries cq ! i # entries_from cq (Suc i) new"
    using i(1) by (simp add: entries_from_def upt_conv_Cons)
  have "(cq_loop cq (int new) (int (Suc i)) :: 'n nvmev_dev \<Rightarrow> _) = take_all (entries_from cq (Suc i) new)"
    by (rule ext, rule Suc.hyps(1)) (use Suc.hyps(2) i in simp_all)
  then show ?case unfolding es using i assms(3)
    by (subst cq_loop.simps) (simp add: take_all_def add.commute [of 1])
qed

lemma loop_round:
  fixes d :: "'n nvmev_dev"
  assumes "new < N" "N \<le> length (cq_entries cq)" "cq_queue_size cq = int N"
  shows "new < i \<Longrightarrow> i \<le> N \<Longrightarrow> cq_loop cq (int new) (int i) d = do {
    d \<leftarrow> take_all (entries_from cq i N) d;
    rd (cq_entries cq) N;
    take_all (entries_from cq 0 new) d }"
proof (induction "N - i" arbitrary: i d)
  case 0
  then have i: "i = N" by simp
  have "cq_loop cq (int new) (int N) d = do { rd (cq_entries cq) N; cq_loop cq (int new) 0 d }"
    using assms by (subst cq_loop.simps) (simp add: rd_int_def)
  moreover have "cq_loop cq (int new) 0 d = take_all (entries_from cq 0 new) d"
    using loop_straight [of new N cq 0] assms by simp
  ultimately show ?case using i by (simp add: entries_from_def take_all_def)
next
  case (Suc k)
  have i: "i < N" "i < length (cq_entries cq)" using Suc.hyps(2) assms by simp_all
  have es: "entries_from cq i N = cq_entries cq ! i # entries_from cq (Suc i) N"
    using i(1) by (simp add: entries_from_def upt_conv_Cons)
  have "(cq_loop cq (int new) (int (Suc i)) :: 'n nvmev_dev \<Rightarrow> _) = (\<lambda>d'. do {
    d \<leftarrow> take_all (entries_from cq (Suc i) N) d'; rd (cq_entries cq) N; take_all (entries_from cq 0 new) d })"
    by (rule ext, rule Suc.hyps(1)) (use Suc.hyps(2) Suc.prems i in simp_all)
  then show ?case unfolding es using i assms(3) Suc.prems
    by (subst cq_loop.simps) (simp add: take_all_def add.commute [of 1] Option.bind_assoc)
qed

text \<open>The entries between two positions of a ring.\<close>

definition between :: "nvmev_completion_queue \<Rightarrow> nat \<Rightarrow> nat \<Rightarrow> nat \<Rightarrow> nvme_completion list" where
  "between cq N old new = (if old \<le> new then entries_from cq old new else entries_from cq old N @ entries_from cq 0 new)"

text \<open>
  C33: when the host moves the doorbell of a completion queue, every submission queue has as many
  commands less in flight as it is answered by the entries passed; but going round the ring reads
  the entry after the last one, so the dispatcher faults there when the entries of the queue just
  fill their pages.
\<close>

theorem cq_doorbell:
  assumes "the_cq dev cqid = Some cq" "cq_queue_size cq = int N" "N \<le> length (cq_entries cq)" "old < N" "new < N"
    and "\<forall>e \<in> set (cq_entries cq). unat (e_sq_id e) < length (sqes dev)"
  shows "if new < old \<and> length (cq_entries cq) = N then nvmev_proc_io_cq cqid (int new) (int old) dev = None
    else \<exists>dev'. nvmev_proc_io_cq cqid (int new) (int old) dev = Some dev' \<and>
      (\<forall>q < length (sqes dev). sqes dev' ! q = map_option (fewer (answers (between cq N old new) q)) (sqes dev ! q)) \<and>
      the_cq dev' cqid = Some (cq\<lparr>cq_tail := int new - 1\<rparr>)"
proof -
  let ?es = "between cq N old new"
  have members: "\<forall>e \<in> set ?es. unat (e_sq_id e) < length (sqes dev)"
    using assms by (auto simp: between_def entries_from_def)
  have in_range: "0 \<le> cqid" "nat cqid < length (cqes dev)" using assms(1) by (auto simp: the_cq_def rd_int_Some bind_Some_iff)
  have loop: "cq_loop cq (int new) (int old) dev =
      (if new < old \<and> length (cq_entries cq) = N then None else take_all ?es dev)"
  proof (cases "old \<le> new")
    case True
    then show ?thesis using loop_straight [of new N cq old dev] assms by (simp add: between_def)
  next
    case False
    have split: "take_all ?es dev = take_all (entries_from cq old N) dev \<bind> take_all (entries_from cq 0 new)"
      using False by (simp add: between_def take_all_def fold_opt_append)
    then obtain d1 where d1: "take_all (entries_from cq old N) dev = Some d1"
      using take_all_eq [OF members] by (cases "take_all (entries_from cq old N) dev") auto
    then show ?thesis using loop_round [of new N cq old dev] assms False split by (simp add: rd_def)
  qed
  show ?thesis
  proof (cases "new < old \<and> length (cq_entries cq) = N")
    case True
    then show ?thesis using assms(1) loop by (simp add: nvmev_proc_io_cq_def)
  next
    case False
    let ?d = "dev\<lparr>sqes := map (\<lambda>q. map_option (fewer (answers ?es q)) (sqes dev ! q)) [0..<length (sqes dev)]\<rparr>"
    let ?d' = "?d\<lparr>cqes := (cqes dev)[nat cqid := Some (cq\<lparr>cq_tail := int new - 1\<rparr>)]\<rparr>"
    have "nvmev_proc_io_cq cqid (int new) (int old) dev = Some ?d'"
      using assms(1) take_all_eq [OF members] in_range loop unfolding if_not_P [OF False] by (simp add: nvmev_proc_io_cq_def put_cq_def)
    moreover have "the_cq ?d' cqid = Some (cq\<lparr>cq_tail := int new - 1\<rparr>)" using in_range by (simp add: the_cq_def)
    ultimately show ?thesis unfolding if_not_P [OF False] by (intro exI [of _ ?d']) simp
  qed
qed

text \<open>The same ring: passing its second entry works, going round it does not.\<close>

theorem cq_doorbell_witness:
  "nvmev_proc_io_cq 1 0 1 two_ring = None \<and>
    (\<exists>dev. nvmev_proc_io_cq 1 1 0 two_ring = Some dev \<and> sqes dev ! 1 = Some (fewer 1 one_flying) \<and> sqes dev ! 0 = None)"
proof -
  have q: "cq_queue_size two_entries = int 2" "2 \<le> length (cq_entries two_entries)" "length (cq_entries two_entries) = 2"
    by (simp_all add: two_entries_def)
  have ids: "\<forall>e \<in> set (cq_entries two_entries). unat (e_sq_id e) < length (sqes two_ring)"
    by (simp add: two_entries_def two_ring_def)
  have "nvmev_proc_io_cq 1 (int 0) (int 1) two_ring = None"
    using cq_doorbell [OF two_ring_cq q(1,2) _ _ ids, of 1 0] q(3) by simp
  moreover have "between two_entries 2 0 1 = [cq_entries two_entries ! 0]" by (simp add: between_def entries_from_def)
  then have "answers (between two_entries 2 0 1) 1 = 1" "answers (between two_entries 2 0 1) 0 = 0" by (simp_all add: two_entries_def)
  moreover have "\<exists>dev. nvmev_proc_io_cq 1 (int 1) (int 0) two_ring = Some dev \<and>
      (\<forall>q < length (sqes two_ring). sqes dev ! q = map_option (fewer (answers (between two_entries 2 0 1) q)) (sqes two_ring ! q))"
    using cq_doorbell [OF two_ring_cq q(1,2) _ _ ids, of 0 1] by auto
  ultimately show ?thesis by (auto simp: two_ring_def)
qed

end
