(* ===== verification/Dma_Props.thy ===== *)
theory Dma_Props
  imports Io_Worker
begin

text \<open>
  The two ways of copying the data of a command agree. A copy that can be made in two pieces is the
  interface between the loops and the directions of a transfer.
\<close>

subsection \<open>Copies that can be split\<close>

locale splittable =
  fixes copy :: "u64 \<Rightarrow> nat \<Rightarrow> nat \<Rightarrow> 's \<Rightarrow> 's option"
  assumes split: "k + n \<le> 2 ^ 64 \<Longrightarrow> copy a (k + n) pos s = Option.bind (copy a k pos s) (copy (a + of_nat k) n (pos + k))"

lemma read_host_add: "read_host m a (k + n) = read_host m a k @ read_host m (a + of_nat k) n"
proof -
  have "[0..<k + n] = [0..<k] @ map (\<lambda>j. k + j) [0..<n]" by (simp add: upt_add_eq_append [of 0 k n, simplified] map_add_upt add.commute)
  then show ?thesis by (simp add: read_host_def add.assoc)
qed

lemma write_host_append:
  assumes "length xs + length ys \<le> 2 ^ 64"
  shows "write_host m a (xs @ ys) = write_host (write_host m a xs) (a + of_nat (length xs)) ys"
proof
  fix x
  let ?k = "length xs"
  have un: "unat (x - (a + of_nat ?k)) = (if ?k \<le> unat (x - a) then unat (x - a) - ?k else unat (x - a) + 2 ^ 64 - ?k)" if "0 < length ys"
  proof -
    have "?k < 2 ^ 64" using assms that by linarith
    then have k: "unat (of_nat ?k :: u64) = ?k" by (simp add: unat_of_nat_small)
    have e: "x - (a + of_nat ?k) = (x - a) - of_nat ?k" by simp
    show ?thesis unfolding e unat_sub_if' [of "x - a"] k by simp
  qed
  show "write_host m a (xs @ ys) x = write_host (write_host m a xs) (a + of_nat ?k) ys x"
  proof (cases "ys = []")
    case False
    then show ?thesis using un assms by (auto simp: write_host_def nth_append)
  qed (simp add: write_host_def)
qed

lemma write_storage_append:
  "write_storage st off (xs @ ys) = Option.bind (write_storage st off xs) (\<lambda>st. write_storage st (off + length xs) ys)"
proof (cases "off + length (xs @ ys) \<le> st_size st")
  case True
  have "(\<lambda>i. if off \<le> i \<and> i < off + length (xs @ ys) then (xs @ ys) ! (i - off) else st_bytes st i) =
    (\<lambda>i. if off + length xs \<le> i \<and> i < off + length xs + length ys then ys ! (i - (off + length xs))
      else if off \<le> i \<and> i < off + length xs then xs ! (i - off) else st_bytes st i)"
    by (rule ext) (auto simp: nth_append)
  then have "st\<lparr>st_bytes := (\<lambda>i. if off \<le> i \<and> i < off + length (xs @ ys) then (xs @ ys) ! (i - off) else st_bytes st i)\<rparr> =
    st\<lparr>st_bytes := (\<lambda>i. if off + length xs \<le> i \<and> i < off + length xs + length ys then ys ! (i - (off + length xs))
      else if off \<le> i \<and> i < off + length xs then xs ! (i - off) else st_bytes st i)\<rparr>"
    by simp
  then show ?thesis using True by (simp add: write_storage_def add.assoc cong: if_cong)
next
  case False
  then show ?thesis by (simp add: write_storage_def add.assoc)
qed

lemma to_storage_split: "splittable (to_storage base)"
proof
  fix k n :: nat and a :: u64 and pos :: nat and s :: "host_mem \<times> storage"
  obtain m st where s: "s = (m, st)" by (cases s)
  have len: "length (read_host m a j) = j" for m a j by (simp add: read_host_def)
  show "to_storage base a (k + n) pos s = Option.bind (to_storage base a k pos s) (to_storage base (a + of_nat k) n (pos + k))"
    by (cases "write_storage st (base + pos) (read_host m a k)")
      (simp_all add: s to_storage_def read_host_add write_storage_append len add.assoc)
qed

lemma read_storage_add:
  "read_storage st off (k + n) = do { xs \<leftarrow> read_storage st off k; ys \<leftarrow> read_storage st (off + k) n; Some (xs @ ys) }"
proof -
  have "[0..<k + n] = [0..<k] @ map (\<lambda>j. k + j) [0..<n]" by (simp add: upt_add_eq_append [of 0 k n, simplified] map_add_upt add.commute)
  then show ?thesis by (simp add: read_storage_def add.assoc)
qed

lemma read_storage_length: "read_storage st off n = Some bs \<Longrightarrow> length bs = n"
  by (auto simp: read_storage_def split: if_splits)

lemma to_host_split: "splittable (to_host base)"
proof
  fix k n :: nat and a :: u64 and pos :: nat and s :: "host_mem \<times> storage"
  assume small: "k + n \<le> 2 ^ 64"
  obtain m st where s: "s = (m, st)" by (cases s)
  have "write_host m a (xs @ ys) = write_host (write_host m a xs) (a + of_nat k) ys"
    if "read_storage st off k = Some xs" "read_storage st off' n = Some ys" for off off' xs ys
    using write_host_append [of xs ys m a] small that [THEN read_storage_length] by simp
  then show "to_host base a (k + n) pos s = Option.bind (to_host base a k pos s) (to_host base (a + of_nat k) n (pos + k))"
    by (cases "read_storage st (base + pos) k"; cases "read_storage st (base + (pos + k)) n")
      (simp_all add: s to_host_def read_storage_add add.assoc)
qed

interpretation io: splittable "io_copy opcode base" for opcode base
proof (cases "opcode = nvme_cmd_write \<or> opcode = nvme_cmd_zone_append")
  case True
  then show "splittable (io_copy opcode base)" using to_storage_split by (simp add: io_copy_def)
next
  case False
  then show "splittable (io_copy opcode base)" using to_host_split by (auto simp: io_copy_def intro: splittable.intro)
qed

subsection \<open>The loops over the pages\<close>

text \<open>The copies of a list of pieces, one after the other.\<close>

fun copy_segs :: "(u64 \<Rightarrow> nat \<Rightarrow> nat \<Rightarrow> 's \<Rightarrow> 's option) \<Rightarrow> (u64 \<times> nat) list \<Rightarrow> nat \<Rightarrow> 's \<Rightarrow> 's option" where
  "copy_segs copy [] pos s = Some s"
| "copy_segs copy ((a, n) # segs) pos s = Option.bind (copy a n pos s) (copy_segs copy segs (pos + n))"

lemma prp_segs_0 [simp]: "prp_segs pv m prp1 prp2 i l 0 = Some []"
  by (subst prp_segs.simps) simp

lemma prp_segs_Nil: "prp_segs pv m prp1 prp2 i l r = Some [] \<Longrightarrow> r = 0"
  using prp_segs_total by fastforce

text \<open>Only a transfer of more than two pieces reads the list.\<close>

lemma prp_segs_unlisted:
  assumes "prp_segs pv m prp1 prp2 1 l r = Some [x]"
  shows "prp_segs pv m' prp1 prp2 1 l r = Some [x]"
proof -
  have r: "0 < r" using assms by (cases r) simp_all
  obtain p k rest where p: "prp_addr pv m prp1 prp2 1 l r = Some (p, k)"
    "prp_segs pv m prp1 prp2 (1 + 1) k (r - prp_io_size p r) = Some rest" "[x] = (prp_target pv p, prp_io_size p r) # rest"
    using prp_round [OF r assms] by blast
  have "rest = []" using p(3) by simp
  then have "r - prp_io_size p r = 0" using p(2) prp_segs_Nil by blast
  moreover have "prp_io_size p r \<le> 4096" using prp_io_size_bounds(3) [of p r] by simp
  ultimately have "r \<le> 4096" "r = prp_io_size p r" using prp_io_size_bounds(2) [of p r] by simp_all
  then show ?thesis using p r by (subst prp_segs.simps) (simp add: prp_addr_def Let_def)
qed

text \<open>\<open>W a n\<close> are the addresses that copying a piece may change.\<close>

lemma prp_loop_segs:
  assumes keeps: "\<And>a n pos s s' x. copy a n pos s = Some s' \<Longrightarrow> n \<le> 4096 \<Longrightarrow> x \<notin> W a n \<Longrightarrow> mem s' x = mem s x"
  shows "prp_segs pv (mem s) prp1 prp2 i l r = Some segs \<Longrightarrow>
    (2 < i + length segs \<Longrightarrow> \<forall>(a, n) \<in> set segs. W a n \<inter> list_addrs pv prp2 = {}) \<Longrightarrow>
    prp_loop pv mem copy prp1 prp2 i l pos r s = copy_segs copy segs pos s"
proof (induction segs arbitrary: s i l r pos)
  case Nil
  then show ?case using prp_segs_Nil [OF Nil.prems(1)] by (subst prp_loop.simps) simp
next
  case (Cons x segs)
  have r: "0 < r" using Cons.prems(1) by (cases r) simp_all
  obtain p k where p: "prp_addr pv (mem s) prp1 prp2 i l r = Some (p, k)"
    "prp_segs pv (mem s) prp1 prp2 (i + 1) k (r - prp_io_size p r) = Some segs" "x = (prp_target pv p, prp_io_size p r)"
    using prp_round [OF r Cons.prems(1)] by blast
  let ?a = "prp_target pv p" and ?n = "prp_io_size p r"
  have step: "prp_loop pv mem copy prp1 prp2 (i + 1) k (pos + ?n) (r - ?n) s' = copy_segs copy segs (pos + ?n) s'"
    if c: "copy ?a ?n pos s = Some s'" for s'
  proof (rule Cons.IH)
    have "?n \<le> 4096" using prp_io_size_bounds(3) [of p r] by simp
    then have m: "mem s' y = mem s y" if "y \<notin> W ?a ?n" for y using keeps [OF c] that by blast
    show "prp_segs pv (mem s') prp1 prp2 (i + 1) k (r - ?n) = Some segs"
    proof (cases "2 < i + length (x # segs)")
      case True
      then have "W ?a ?n \<inter> list_addrs pv prp2 = {}" using Cons.prems(2) p(3) by simp
      then have "mem s' y = mem s y" if "y \<in> list_addrs pv prp2" for y using m that by blast
      then show ?thesis using prp_segs_cong [of pv prp2 "mem s'" "mem s"] p(2) by simp
    next
      case False
      then consider "segs = []" | y where "segs = [y]" "i = 0" by (cases segs) auto
      then show ?thesis
      proof cases
        case 1
        then have "r - ?n = 0" using p(2) prp_segs_Nil by blast
        then show ?thesis using 1 by simp
      next
        case (2 y)
        have "prp_segs pv (mem s) prp1 prp2 1 k (r - ?n) = Some [y]" using p(2) 2 by simp
        then have "prp_segs pv (mem s') prp1 prp2 1 k (r - ?n) = Some [y]" by (rule prp_segs_unlisted)
        then show ?thesis using 2 by simp
      qed
    qed
    show "2 < i + 1 + length segs \<Longrightarrow> \<forall>(a, n) \<in> set segs. W a n \<inter> list_addrs pv prp2 = {}"
      using Cons.prems(2) by simp
  qed
  have "prp_loop pv mem copy prp1 prp2 i l pos r s =
      Option.bind (copy ?a ?n pos s) (prp_loop pv mem copy prp1 prp2 (i + 1) k (pos + ?n) (r - ?n))"
    using r p(1) by (subst prp_loop.simps) (simp add: Let_def)
  also have "\<dots> = Option.bind (copy ?a ?n pos s) (copy_segs copy segs (pos + ?n))"
    using step by (cases "copy ?a ?n pos s") simp_all
  finally show ?case by (simp add: p(3))
qed

text \<open>The pieces that belong to a list of pages.\<close>

fun segs_of :: "u64 list \<Rightarrow> nat \<Rightarrow> (u64 \<times> nat) list" where
  "segs_of [] r = []"
| "segs_of (p # ps) r = (p, prp_io_size p r) # segs_of ps (r - prp_io_size p r)"

fun pages_cover :: "u64 list \<Rightarrow> nat \<Rightarrow> bool" where
  "pages_cover [] r \<longleftrightarrow> r = 0"
| "pages_cover (p # ps) r \<longleftrightarrow> 0 < r \<and> pages_cover ps (r - prp_io_size p r)"

lemma dma_list_segs:
  "prp_segs pv m prp1 prp2 i l r = Some segs \<Longrightarrow> i + length segs \<le> 512 \<Longrightarrow> (\<And>p. prp_target pv p = p) \<Longrightarrow>
    \<exists>ps. dma_list pv m prp1 prp2 i l r = Some ps \<and> segs = segs_of ps r \<and> pages_cover ps r \<and> length ps = length segs"
proof (induction segs arbitrary: i l r)
  case Nil
  then show ?case using prp_segs_Nil by (subst dma_list.simps) auto
next
  case (Cons x segs)
  have r: "0 < r" using Cons.prems(1) by (cases r) simp_all
  obtain p k where p: "prp_addr pv m prp1 prp2 i l r = Some (p, k)"
    "prp_segs pv m prp1 prp2 (i + 1) k (r - prp_io_size p r) = Some segs" "x = (prp_target pv p, prp_io_size p r)"
    using prp_round [OF r Cons.prems(1)] by blast
  obtain ps where "dma_list pv m prp1 prp2 (i + 1) k (r - prp_io_size p r) = Some ps" "segs = segs_of ps (r - prp_io_size p r)"
    "pages_cover ps (r - prp_io_size p r)" "length ps = length segs"
    using Cons.IH [OF p(2)] Cons.prems(2,3) by auto
  then show ?case using r p(1,3) Cons.prems(2,3)
    by (intro exI [of _ "p # ps"]) (subst dma_list.simps, simp)
qed

text \<open>A run of pages that follow one another, in one copy.\<close>

definition aligned :: "u64 list \<Rightarrow> bool" where
  "aligned ps \<longleftrightarrow> (\<forall>p \<in> set ps. page_off p = 0)"

lemma prp_io_size_aligned: "page_off p = 0 \<Longrightarrow> prp_io_size p r = min r 4096"
  by (simp add: prp_io_size_def)

lemma page_off_mod: "page_off p = unat p mod 4096"
proof -
  have "p AND 4095 = take_bit 12 p" by (simp add: take_bit_eq_mask mask_eq_exp_minus_1)
  then have "page_off p = take_bit 12 (unat p)" by (simp add: page_off_def unsigned_take_bit_eq)
  then show ?thesis by (simp add: take_bit_eq_mod)
qed

lemma page_off_next: "page_off (p + 4096) = page_off p"
proof -
  have "unat (p + 4096) mod 4096 = (unat p + 4096) mod 2 ^ 64 mod 4096" by (simp add: unat_word_ariths)
  also have "\<dots> = (unat p + 4096) mod 4096" by (rule mod_mod_cancel) simp
  finally show ?thesis by (simp add: page_off_mod)
qed

lemma bind_copy_segs_Nil [simp]: "Option.bind x (copy_segs copy [] pos) = x"
  by (cases x) simp_all

lemma copy_segs_Cons: "copy_segs copy ((a, n) # segs) pos = (\<lambda>s. Option.bind (copy a n pos s) (copy_segs copy segs (pos + n)))"
  by (rule ext) simp

context splittable begin

lemma run_split:
  "aligned ps \<Longrightarrow> pages_cover (p # ps) r \<Longrightarrow> r \<le> 2 ^ 64 \<Longrightarrow> n = min r (prp_io_size p r + 4096 * run_pages p ps) \<Longrightarrow>
    copy_segs copy (segs_of (p # ps) r) pos s =
      Option.bind (copy p n pos s) (copy_segs copy (segs_of (drop (run_pages p ps) ps) (r - n)) (pos + n)) \<and>
    pages_cover (drop (run_pages p ps) ps) (r - n) \<and> aligned (drop (run_pages p ps) ps)"
proof (induction ps arbitrary: p r n pos s)
  case Nil
  then show ?case using prp_io_size_bounds(2) [of p r] by (simp add: min_absorb2)
next
  case (Cons q ps)
  show ?case
  proof (cases "q = p + 4096")
    case False
    have n: "n = prp_io_size p r" "run_pages p (q # ps) = 0"
      using False Cons.prems(4) prp_io_size_bounds(2) [of p r] by simp_all
    have "pages_cover (q # ps) (r - prp_io_size p r)" using Cons.prems(2) by (simp only: pages_cover.simps(2) [of p])
    then show ?thesis using Cons.prems(1) unfolding n by (simp add: copy_segs_Cons)
  next
    case True
    have al: "page_off p = 0" "page_off q = 0" using True Cons.prems(1) page_off_next [of p] by (simp_all add: aligned_def)
    let ?r = "r - 4096" and ?k = "run_pages q ps"
    have big: "4096 < r" using Cons.prems(2) al prp_io_size_aligned [of p r] by (auto simp: min_def split: if_splits)
    have io: "prp_io_size p r = 4096" using al(1) big by (simp add: prp_io_size_aligned)
    define k where "k = min ?r (prp_io_size q ?r + 4096 * ?k)"
    have n: "n = 4096 + k"
      using True big io al(2) Cons.prems(4) by (simp add: k_def prp_io_size_aligned)
    have IH: "copy_segs copy (segs_of (q # ps) ?r) pos' s' =
        Option.bind (copy q k pos' s') (copy_segs copy (segs_of (drop ?k ps) (?r - k)) (pos' + k)) \<and>
      pages_cover (drop ?k ps) (?r - k) \<and> aligned (drop ?k ps)" for pos' s'
      by (rule Cons.IH) (use Cons.prems io in \<open>simp_all add: aligned_def k_def\<close>)
    have "4096 + k \<le> 2 ^ 64" using Cons.prems(3) big by (simp add: k_def)
    then have two: "copy p (4096 + k) pos s = Option.bind (copy p 4096 pos s) (copy q k (pos + 4096))"
      using split [of 4096 k p pos s] True by simp
    let ?rest = "copy_segs copy (segs_of (drop ?k ps) (?r - k))"
    have rest: "copy_segs copy (segs_of (q # ps) ?r) (pos + 4096) = (\<lambda>s. Option.bind (copy q k (pos + 4096) s) (?rest (pos + 4096 + k)))"
      by (rule ext) (rule IH [THEN conjunct1])
    have "copy_segs copy (segs_of (p # q # ps) r) pos s =
        Option.bind (copy p 4096 pos s) (copy_segs copy (segs_of (q # ps) ?r) (pos + 4096))"
      by (simp only: segs_of.simps(2) [of p] copy_segs.simps(2) io)
    also have "\<dots> = Option.bind (copy p (4096 + k) pos s) (?rest (pos + (4096 + k)))"
      unfolding rest two by (simp add: add.assoc)
    finally have "copy_segs copy (segs_of (p # q # ps) r) pos s = Option.bind (copy p n pos s) (?rest (pos + n))"
      unfolding n .
    moreover have "r - n = ?r - k" using n by simp
    ultimately show ?thesis using IH True by simp
  qed
qed

lemma dma_loop_segs:
  "aligned (tl ps) \<Longrightarrow> pages_cover ps r \<Longrightarrow> r \<le> 2 ^ 64 \<Longrightarrow> dma_loop copy ps pos r s = copy_segs copy (segs_of ps r) pos s"
proof (induction "length ps" arbitrary: ps r pos s rule: less_induct)
  case less
  show ?case
  proof (cases ps)
    case Nil
    then show ?thesis using less.prems by (subst dma_loop.simps) simp
  next
    case (Cons p qs)
    have r: "0 < r" using less.prems(2) Cons by simp
    let ?k = "run_pages p qs"
    define n where "n = min r (prp_io_size p r + 4096 * ?k)"
    have run: "copy_segs copy (segs_of ps r) pos s = Option.bind (copy p n pos s) (copy_segs copy (segs_of (drop ?k qs) (r - n)) (pos + n))"
      "pages_cover (drop ?k qs) (r - n)" "aligned (drop ?k qs)"
      using run_split [of qs p r n pos s] less.prems Cons by (simp_all add: n_def)
    have "aligned (tl (drop ?k qs))" using run(3) by (cases "drop ?k qs") (simp_all add: aligned_def)
    then have "dma_loop copy (drop ?k qs) (pos + n) (r - n) = copy_segs copy (segs_of (drop ?k qs) (r - n)) (pos + n)"
      using less.hyps run(2) less.prems(3) Cons by (intro ext) simp
    moreover have "dma_loop copy ps pos r s = Option.bind (copy p n pos s) (dma_loop copy (drop ?k qs) (pos + n) (r - n))"
      using r Cons by (subst dma_loop.simps) (simp add: Let_def n_def)
    ultimately show ?thesis using run(1) by simp
  qed
qed

end

subsection \<open>The engine copies as the worker does\<close>

lemma io_copy_keeps:
  assumes "io_copy opcode base a n pos s = Some s'" "n \<le> 4096" "x \<notin> (if opcode = nvme_cmd_read then seg_addrs a n else {})"
  shows "fst s' x = fst s x"
proof (cases "opcode = nvme_cmd_read")
  case True
  have "nvme_cmd_read \<noteq> nvme_cmd_write" "nvme_cmd_read \<noteq> nvme_cmd_zone_append" by (simp_all add: cdefs)
  then obtain bs where "read_storage (snd s) (base + pos) n = Some bs" "s' = (write_host (fst s) a bs, snd s)"
    using assms(1) True by (auto simp: io_copy_def to_host_def split: prod.splits)
  then show ?thesis using assms(2,3) True read_storage_length by (auto intro!: write_host_other)
next
  case False
  then show ?thesis using assms(1) by (auto simp: io_copy_def to_storage_def split: if_splits prod.splits)
qed

lemma map_fst_segs_of [simp]: "map fst (segs_of ps r) = ps"
  by (induction ps arbitrary: r) simp_all

text \<open>
  C34: for a namespace at the start of the storage area, the DMA engine leaves the device as the
  copying by hand does, provided the kernel knows the pages of the transfer, there are at most 512
  of them, all but the first start on a page boundary, and a read does not overwrite its own list.
\<close>

theorem dma_equals_copy:
  assumes sq: "the_sq dev sqid = Some sq" "rd_int (sq_entries sq) e = Some cmd"
    and ns: "rd (nss dev) (unat (c_nsid cmd - 1)) = Some ns" "nsp_mapped ns = 0"
    and pages: "\<And>p. pv p" "prp_segs pv (host dev) (c_prp1 cmd) (c_prp2 cmd) 0 False (unat (io_bytes cmd)) = Some segs"
      "length segs \<le> 512" "\<forall>x \<in> set (tl segs). page_off (fst x) = 0"
    and apart: "rw_opcode (c_rw cmd) = nvme_cmd_read \<Longrightarrow> 2 < length segs \<Longrightarrow>
      \<forall>(a, n) \<in> set segs. seg_addrs a n \<inter> list_addrs pv (c_prp2 cmd) = {}"
  shows "do_perform_io_using_dma pv sqid e dev = do_perform_io pv sqid e dev"
proof -
  let ?op = "rw_opcode (c_rw cmd)" and ?len = "unat (io_bytes cmd)" and ?base = "unat (cmd_io_offset cmd)"
  let ?W = "\<lambda>a n. if ?op = nvme_cmd_read then seg_addrs a n else {}"
  have "prp_target pv p = p" for p using pages(1) by (simp add: prp_target_def)
  then obtain ps where ps: "dma_list pv (host dev) (c_prp1 cmd) (c_prp2 cmd) 0 False ?len = Some ps" "segs = segs_of ps ?len"
    "pages_cover ps ?len" "length ps = length segs"
    using dma_list_segs [OF pages(2)] pages(3) by auto
  have "ps = map fst segs" using ps(2) by simp
  then have "aligned (tl ps)" using pages(4) by (auto simp: aligned_def map_tl [symmetric])
  moreover have "?len < 2 ^ LENGTH(64)" by (rule unsigned_less)
  then have "?len \<le> 2 ^ 64" by simp
  ultimately have dma: "dma_loop (io_copy ?op ?base) ps 0 ?len s = copy_segs (io_copy ?op ?base) segs 0 s" for s
    using io.dma_loop_segs ps(2,3) by simp
  have "prp_loop pv fst (io_copy ?op ?base) (c_prp1 cmd) (c_prp2 cmd) 0 False 0 ?len (host dev, stor dev) =
      copy_segs (io_copy ?op ?base) segs 0 (host dev, stor dev)"
  proof (rule prp_loop_segs [where W = ?W])
    show "prp_segs pv (fst (host dev, stor dev)) (c_prp1 cmd) (c_prp2 cmd) 0 False ?len = Some segs" using pages(2) by simp
    show "2 < 0 + length segs \<Longrightarrow> \<forall>(a, n) \<in> set segs. ?W a n \<inter> list_addrs pv (c_prp2 cmd) = {}" using apart by auto
  qed (rule io_copy_keeps)
  then show ?thesis using sq ns ps(1) dma by (simp add: do_perform_io_using_dma_def do_perform_io_def prp_transfer_def)
qed

text \<open>A read of three pages, the first two of them adjacent, listed at address 36864.\<close>

definition three_pages :: sq_command where
  "three_pages = \<lparr>c_command_id = 1, c_nsid = 1, c_prp1 = 4096, c_prp2 = 36864,
     c_rw = \<lparr>rw_opcode = nvme_cmd_read, rw_slba = 0, rw_length = 23, rw_control = 0\<rparr>,
     c_kv = \<lparr>kv_opcode = 0, kv_prp1 = 0, kv_prp2 = 0, kv_value_len = 0, kv_key_len = 0, kv_option = 0, kv_rsvd4 = 0, kv_key = []\<rparr>,
     c_zone_send = \<lparr>zs_slba = 0, zs_zsa = 0, zs_select_all = False, zs_zsaso = 0\<rparr>,
     c_zone_recv = \<lparr>zr_slba = 0, zr_nr_dw = 0, zr_zra = 0, zr_zra_specific_field = 0, zr_partial = False\<rparr>\<rparr>"

definition page_list :: host_mem where
  "page_list = (\<lambda>a. if a = 36865 then 32 else if a = 36873 then 80 else 0)"

definition reading_dev :: "unit nvmev_dev" where
  "reading_dev = \<lparr>sqes = [None, Some \<lparr>sq_qid = 1, sq_cqid = 1, sq_priority = 0, sq_phys_contig = True, sq_queue_size = 1,
       sq_stat = \<lparr>nr_dispatched = 1, nr_dispatch = 1, nr_in_flight = 1, max_nr_in_flight = 1, total_io = 0\<rparr>, sq_entries = [three_pages]\<rparr>],
     cqes = [], nr_sq = 1, nr_cq = 0, dbs = [], old_dbs = [],
     nss = [\<lparr>nsp_csi = 0, nsp_size = 12288, nsp_mapped = 0, nsp_state = (),
       proc_io_cmd = (\<lambda>s cmd sqid t ret. Some (s, cmd, ret, True, [])), identify_io_cmd = (\<lambda>cmd. False),
       perform_io_cmd = (\<lambda>cmd st m sto status. None), nsp_release = (\<lambda>buf n st. Some st)\<rparr>],
     host = page_list, stor = \<lparr>st_size = 12288, st_bytes = (\<lambda>i. of_nat i)\<rparr>\<rparr>"

lemma page_list_entries: "le64_at page_list 36864 = 8192" "le64_at page_list 36872 = 20480"
  by (simp_all add: le64_at_def read_host_def page_list_def upt_rec [of _ 8] upt_rec [of _ "8 :: nat"])

lemma three_pages_segs:
  "prp_segs (\<lambda>_. True) page_list 4096 36864 0 False 12288 = Some [(4096, 4096), (8192, 4096), (20480, 4096)]"
proof -
  have "prp_io_size 4096 12288 = 4096" "prp_io_size 8192 8192 = 4096" "prp_io_size 20480 4096 = 4096"
    by (simp_all add: prp_io_size_def page_off_mod)
  moreover have "page_off 36864 = 0" by (simp add: page_off_mod)
  ultimately show ?thesis
    by (subst prp_segs.simps, simp add: prp_addr_def prp_target_def Let_def)
      (subst prp_segs.simps, simp add: prp_addr_def prp_target_def prp_list_entry_def page_list_entries Let_def,
       subst prp_segs.simps, simp add: prp_addr_def prp_target_def prp_list_entry_def page_list_entries Let_def)
qed

lemma seg_addrs_between: "x \<in> seg_addrs a n \<Longrightarrow> unat a + n \<le> 2 ^ 64 \<Longrightarrow> unat a \<le> unat x \<and> unat x < unat a + n"
  by (auto simp: seg_addrs_def unat_word_ariths unat_of_nat)

lemma three_pages_apart: "apart [(4096, 4096), (8192, 4096), (20480, 4096)] (list_addrs (\<lambda>_. True) 36864)"
proof -
  have "seg_addrs a 4096 \<inter> seg_addrs b 4096 = {}" if "unat a + 4096 \<le> unat b" "unat b + 4096 \<le> 2 ^ 64" for a b
    using seg_addrs_between [of _ a 4096] seg_addrs_between [of _ b 4096] that by fastforce
  moreover have "list_addrs (\<lambda>_. True) 36864 = seg_addrs 36864 4096" by (simp add: list_addrs_def page_off_mod)
  ultimately show ?thesis by simp
qed

theorem dma_equals_copy_witness:
  "\<exists>dev. do_perform_io_using_dma (\<lambda>_. True) 1 0 reading_dev = Some dev \<and> do_perform_io (\<lambda>_. True) 1 0 reading_dev = Some dev"
proof -
  let ?sq = "the (sqes reading_dev ! 1)" and ?ns = "nss reading_dev ! 0" and ?segs = "[(4096, 4096), (8192, 4096), (20480, 4096)] :: (u64 \<times> nat) list"
  have len: "unat (io_bytes three_pages) = 12288" by (simp add: io_bytes_def three_pages_def)
  have q: "the_sq reading_dev 1 = Some ?sq" "rd_int (sq_entries ?sq) 0 = Some three_pages" "rd (nss reading_dev) (unat (c_nsid three_pages - 1)) = Some ?ns"
    "nsp_mapped ?ns = 0" "c_prp1 three_pages = 4096" "c_prp2 three_pages = 36864" "host reading_dev = page_list"
    by (simp_all add: reading_dev_def the_sq_def three_pages_def)
  have segs: "prp_segs (\<lambda>_. True) (host reading_dev) (c_prp1 three_pages) (c_prp2 three_pages) 0 False (unat (io_bytes three_pages)) = Some ?segs"
    using three_pages_segs q(5-7) len by simp
  have apart: "\<forall>(a, n) \<in> set ?segs. seg_addrs a n \<inter> list_addrs (\<lambda>_. True) (c_prp2 three_pages) = {}"
    using three_pages_apart q(6) by simp
  have "do_perform_io_using_dma (\<lambda>_. True) 1 0 reading_dev = do_perform_io (\<lambda>_. True) 1 0 reading_dev"
    by (rule dma_equals_copy [OF q(1-4) _ segs _ _ apart]) (simp_all add: page_off_mod)
  moreover have "\<exists>dev. do_perform_io (\<lambda>_. True) 1 0 reading_dev = Some dev"
  proof -
    let ?st = "stor reading_dev"
    obtain m where "prp_loop (\<lambda>_. True) fst (to_host 0) 4096 36864 0 False 0 12288 (page_list, ?st) = Some (m, ?st)"
      using retrieve_loop [OF three_pages_segs _ three_pages_apart, of 0 0 ?st] by (auto simp: reading_dev_def)
    moreover have "rw_opcode (c_rw three_pages) = nvme_cmd_read" "unat (cmd_io_offset three_pages) = 0"
      by (simp_all add: three_pages_def cmd_io_offset_def)
    ultimately show ?thesis using q len by (simp add: do_perform_io_def prp_transfer_def io_copy_def cdefs)
  qed
  ultimately show ?thesis by auto
qed

end
