(* ===== verification/Queue_Inv.thy ===== *)
theory Queue_Inv
  imports Config
begin

text \<open>
  The shape of the device's state: what every queue and doorbell array keeps, and that taking
  commands, posting completions and taking them out keep it.
\<close>

subsection \<open>Queues\<close>

definition sq_ok :: "nat \<Rightarrow> nvmev_submission_queue \<Rightarrow> bool" where
  "sq_ok i sq \<longleftrightarrow> sq_qid sq = int i \<and> 1 \<le> sq_queue_size sq \<and> sq_queue_size sq \<le> 65536 \<and>
     sq_queue_size sq \<le> int (length (sq_entries sq))"

definition cq_ok :: "nat \<Rightarrow> nvmev_completion_queue \<Rightarrow> bool" where
  "cq_ok i cq \<longleftrightarrow> cq_qid cq = int i \<and> 1 \<le> cq_queue_size cq \<and> cq_queue_size cq \<le> 65536 \<and>
     cq_queue_size cq \<le> int (length (cq_entries cq)) \<and> 0 \<le> cq_head cq \<and> cq_head cq < cq_queue_size cq \<and> cq_phase cq \<in> {0, 1}"

text \<open>An array of pointers, each null or to something that suits its index.\<close>

definition slots_ok :: "(nat \<Rightarrow> 'a \<Rightarrow> bool) \<Rightarrow> 'a option list \<Rightarrow> bool" where
  "slots_ok P xs \<longleftrightarrow> (\<forall>i x. rd xs i = Some (Some x) \<longrightarrow> P i x)"

lemma slots_ok_update: "slots_ok P xs \<Longrightarrow> (\<And>x. y = Some x \<Longrightarrow> P i x) \<Longrightarrow> slots_ok P (xs[i := y])"
  unfolding slots_ok_def rd_Some by (metis length_list_update nth_list_update_eq nth_list_update_neq)

lemma slots_ok_None: "slots_ok P (replicate n None)"
  by (simp add: slots_ok_def rd_def)

lemma slots_ok_rd: "slots_ok P xs \<Longrightarrow> rd xs i = Some (Some x) \<Longrightarrow> P i x"
  by (simp add: slots_ok_def)

definition dev_ok :: "'n nvmev_dev \<Rightarrow> bool" where
  "dev_ok d \<longleftrightarrow> length (sqes d) = NR_MAX_IO_QUEUE + 1 \<and> length (cqes d) = NR_MAX_IO_QUEUE + 1 \<and>
     length (dbs d) = 1024 \<and> length (old_dbs d) = 1024 \<and> unat (nr_sq d) \<le> NR_MAX_IO_QUEUE \<and> unat (nr_cq d) \<le> NR_MAX_IO_QUEUE \<and>
     slots_ok sq_ok (sqes d) \<and> slots_ok cq_ok (cqes d)"

lemma dev_ok_data [simp]:
  "dev_ok (d\<lparr>host := m\<rparr>) = dev_ok d" "dev_ok (d\<lparr>stor := s\<rparr>) = dev_ok d" "dev_ok (d\<lparr>nss := ns\<rparr>) = dev_ok d"
  "length bells = 1024 \<Longrightarrow> dev_ok d \<Longrightarrow> dev_ok (d\<lparr>dbs := bells\<rparr>)"
  "length bells = 1024 \<Longrightarrow> dev_ok d \<Longrightarrow> dev_ok (d\<lparr>old_dbs := bells\<rparr>)"
  by (simp_all add: dev_ok_def)

lemma dev_ok_dbs: "dev_ok d \<Longrightarrow> length (dbs d) = 1024" "dev_ok d \<Longrightarrow> length (old_dbs d) = 1024"
  by (simp_all add: dev_ok_def)

lemma dev_ok_sqes: "dev_ok d \<Longrightarrow> (\<And>sq. q = Some sq \<Longrightarrow> sq_ok i sq) \<Longrightarrow> dev_ok (d\<lparr>sqes := (sqes d)[i := q]\<rparr>)"
  by (simp add: dev_ok_def slots_ok_update)

lemma dev_ok_cqes: "dev_ok d \<Longrightarrow> (\<And>cq. q = Some cq \<Longrightarrow> cq_ok i cq) \<Longrightarrow> dev_ok (d\<lparr>cqes := (cqes d)[i := q]\<rparr>)"
  by (simp add: dev_ok_def slots_ok_update)

lemma dev_ok_rd:
  "dev_ok d \<Longrightarrow> rd (sqes d) i = Some (Some sq) \<Longrightarrow> sq_ok i sq" "dev_ok d \<Longrightarrow> rd (cqes d) i = Some (Some cq) \<Longrightarrow> cq_ok i cq"
  unfolding dev_ok_def by (blast intro: slots_ok_rd)+

lemma dev_ok_sq: "dev_ok d \<Longrightarrow> the_sq d i = Some sq \<Longrightarrow> sq_ok (nat i) sq"
  by (auto simp: the_sq_def rd_int_def bind_Some_iff split: if_splits intro: dev_ok_rd(1))

lemma dev_ok_cq: "dev_ok d \<Longrightarrow> the_cq d i = Some cq \<Longrightarrow> cq_ok (nat i) cq"
  by (auto simp: the_cq_def rd_int_def bind_Some_iff split: if_splits intro: dev_ok_rd(2))

lemma wr_int_Some: "wr_int xs i v = Some ys \<Longrightarrow> ys = xs[nat i := v]"
  by (auto simp: wr_int_def arr_simps split: if_splits)

lemma put_sq_ok: "put_sq i sq d = Some d' \<Longrightarrow> dev_ok d \<Longrightarrow> sq_ok (nat i) sq \<Longrightarrow> dev_ok d'"
  by (auto simp: put_sq_def dest!: wr_int_Some intro: dev_ok_sqes)

lemma put_cq_ok: "put_cq i cq d = Some d' \<Longrightarrow> dev_ok d \<Longrightarrow> cq_ok (nat i) cq \<Longrightarrow> dev_ok d'"
  by (auto simp: put_cq_def dest!: wr_int_Some intro: dev_ok_cqes)

lemma sq_ok_stat [simp]: "sq_ok i (sq\<lparr>sq_stat := s\<rparr>) = sq_ok i sq"
  by (simp add: sq_ok_def)

lemma cq_ok_flags [simp]:
  "cq_ok i (cq\<lparr>cq_tail := t\<rparr>) = cq_ok i cq" "cq_ok i (cq\<lparr>interrupt_ready := b\<rparr>) = cq_ok i cq"
  by (simp_all add: cq_ok_def)

subsection \<open>Completions and submissions\<close>

lemma cq_put_ok: "cq_put e cq = Some cq' \<Longrightarrow> cq_ok i cq \<Longrightarrow> cq_ok i cq'"
  by (auto simp: cq_put_def cq_ok_def bind_Some_iff arr_simps split: if_splits)

lemma fill_cq_result_ok: "fill_cq_result w d = Some d' \<Longrightarrow> dev_ok d \<Longrightarrow> dev_ok d'"
  by (auto simp: fill_cq_result_def bind_Some_iff intro: put_cq_ok cq_put_ok dev_ok_cq)

lemma cq_taken_ok: "cq_taken i d = Some d' \<Longrightarrow> dev_ok d \<Longrightarrow> dev_ok d'"
proof -
  assume c: "cq_taken i d = Some d'" and d: "dev_ok d"
  obtain q where q: "rd_int (sqes d) i = Some q" using c by (auto simp: cq_taken_def bind_Some_iff)
  show ?thesis
  proof (cases q)
    case (Some sq)
    have "sq_ok (nat i) sq" using dev_ok_sq [OF d, of i sq] q Some by (simp add: the_sq_def)
    then show ?thesis using c q Some d by (auto simp: cq_taken_def intro: put_sq_ok)
  qed (use c q d in \<open>simp add: cq_taken_def\<close>)
qed

lemma cq_loop_ok: "cq_loop cq new i d = Some d' \<Longrightarrow> dev_ok d \<Longrightarrow> dev_ok d'"
proof -
  assume c: "cq_loop cq new i d = Some d'" and "dev_ok d"
  have "dev_ok d \<longrightarrow> dev_ok d'"
  proof (rule cq_loop.raw_induct [OF _ c])
    fix f cq new i d d'
    assume IH: "\<And>cq new i d d'. f cq new i d = Some d' \<Longrightarrow> dev_ok d \<longrightarrow> dev_ok d'"
      and "(if i = new then Some d
        else do {
          cqe \<leftarrow> rd_int (cq_entries cq) i;
          if cq_queue_size cq \<le> i then f cq new 0 d
          else do { d \<leftarrow> cq_taken (uint (e_sq_id cqe)) d; f cq new (i + 1) d }
        }) = Some d'"
    then show "dev_ok d \<longrightarrow> dev_ok d'" by (auto simp: bind_Some_iff split: if_splits dest: cq_taken_ok IH)
  qed
  then show ?thesis using \<open>dev_ok d\<close> by blast
qed

lemma nvmev_proc_io_cq_ok: "nvmev_proc_io_cq i new old d = Some d' \<Longrightarrow> dev_ok d \<Longrightarrow> dev_ok d'"
proof -
  assume c: "nvmev_proc_io_cq i new old d = Some d'" and d: "dev_ok d"
  obtain cq t d1 where "the_cq d i = Some cq" "cq_loop cq new old d = Some d1" "put_cq i (cq\<lparr>cq_tail := t\<rparr>) d1 = Some d'"
    using c by (auto simp: nvmev_proc_io_cq_def bind_Some_iff)
  then show ?thesis using d cq_loop_ok dev_ok_cq put_cq_ok cq_ok_flags(1) by metis
qed

lemma upd_stat_ok: "upd_stat i f d = Some d' \<Longrightarrow> dev_ok d \<Longrightarrow> dev_ok d'"
proof -
  assume c: "upd_stat i f d = Some d'" and d: "dev_ok d"
  obtain sq where "the_sq d i = Some sq" "put_sq i (sq\<lparr>sq_stat := f (sq_stat sq)\<rparr>) d = Some d'"
    using c by (auto simp: upd_stat_def bind_Some_iff)
  then show ?thesis using d dev_ok_sq put_sq_ok sq_ok_stat by metis
qed

lemma nvmev_proc_io_ok: "nvmev_proc_io kv wall now i e (d, wks) = Some ((d', wks'), r) \<Longrightarrow> dev_ok d \<Longrightarrow> dev_ok d'"
proof -
  assume c: "nvmev_proc_io kv wall now i e (d, wks) = Some ((d', wks'), r)" and d: "dev_ok d"
  obtain sq cmd es ns m sto where q: "the_sq d i = Some sq" "wr_int (sq_entries sq) e cmd = Some es"
      "put_sq i (sq\<lparr>sq_entries := es\<rparr>) (d\<lparr>nss := ns, host := m, stor := sto\<rparr>) = Some d'"
    using c by (auto simp: nvmev_proc_io_def bind_Some_iff Let_def split: if_splits)
  have "sq_ok (nat i) (sq\<lparr>sq_entries := es\<rparr>)" using dev_ok_sq [OF d q(1)] wr_int_Some [OF q(2)] by (simp add: sq_ok_def)
  then show ?thesis using put_sq_ok [OF q(3)] d by simp
qed

lemma sq_loop_ok: "sq_loop kv clk i n k e (d, wks) = Some ((d', wks'), r) \<Longrightarrow> dev_ok d \<Longrightarrow> dev_ok d'"
proof (induction n arbitrary: k e d wks)
  case (Suc n)
  obtain d1 wks1 r1 where s: "nvmev_proc_io kv (fst (clk k)) (snd (clk k)) i e (d, wks) = Some ((d1, wks1), r1)"
    using Suc.prems(1) by (auto simp: bind_Some_iff)
  have d1: "dev_ok d1" using nvmev_proc_io_ok [OF s Suc.prems(2)] .
  show ?case
  proof (cases r1)
    case None
    then show ?thesis using Suc.prems(1) s d1 by simp
  next
    case (Some sz)
    then obtain d2 e2 where "upd_stat i (count_dispatched sz) d1 = Some d2" "sq_loop kv clk i n (k + 1) e2 (d2, wks1) = Some ((d', wks'), r)"
      using Suc.prems(1) s by (auto simp: bind_Some_iff Let_def)
    then show ?thesis using Suc.IH upd_stat_ok d1 by blast
  qed
qed simp

lemma nvmev_proc_io_sq_ok: "nvmev_proc_io_sq kv clk i new old (d, wks) = Some ((d', wks'), r) \<Longrightarrow> dev_ok d \<Longrightarrow> dev_ok d'"
proof -
  assume c: "nvmev_proc_io_sq kv clk i new old (d, wks) = Some ((d', wks'), r)" and d: "dev_ok d"
  obtain q where q: "rd_int (sqes d) i = Some q" using c by (auto simp: nvmev_proc_io_sq_def bind_Some_iff)
  show ?thesis
  proof (cases q)
    case (Some sq)
    then obtain n d1 wks1 t where "sq_loop kv clk i n 0 old (d, wks) = Some ((d1, wks1), t)" "upd_stat i end_dispatch d1 = Some d'"
      using c q by (auto simp: nvmev_proc_io_sq_def bind_Some_iff Let_def split: if_splits)
    then show ?thesis using sq_loop_ok upd_stat_ok d by blast
  qed (use c q d in \<open>simp add: nvmev_proc_io_sq_def\<close>)
qed

subsection \<open>The workers\<close>

lemma perform_request_ok: "perform_request kv dma pv w d = Some (w', d') \<Longrightarrow> dev_ok d \<Longrightarrow> dev_ok d'"
  by (auto simp: perform_request_def do_perform_io_def do_perform_io_using_dma_def bind_Some_iff Let_def split: if_splits)

lemma complete_request_ok: "complete_request w d = Some d' \<Longrightarrow> dev_ok d \<Longrightarrow> dev_ok d'"
  by (auto simp: complete_request_def bind_Some_iff split: if_splits intro: fill_cq_result_ok)

context io_backend begin

lemma visit_data:
  assumes "worker_visit perform complete now e (wk, d) = Some (e', wk', d')" "P d"
    and "\<And>w w' d d'. perform w d = Some (w', d') \<Longrightarrow> P d \<Longrightarrow> P d'" "\<And>w d d'. complete w d = Some d' \<Longrightarrow> P d \<Longrightarrow> P d'"
  shows "P d'"
  using assms by (auto simp: worker_visit_def bind_Some_iff Let_def split: if_splits)

lemma pass_data:
  assumes pass: "worker_pass perform complete now_at k e s = Some s'" and "P (snd s)"
    and keep: "\<And>w w' d d'. perform w d = Some (w', d') \<Longrightarrow> P d \<Longrightarrow> P d'" "\<And>w d d'. complete w d = Some d' \<Longrightarrow> P d \<Longrightarrow> P d'"
  shows "P (snd s')"
proof -
  have "perform = perform \<longrightarrow> complete = complete \<longrightarrow> P (snd s) \<longrightarrow> P (snd s')"
  proof (rule worker_pass.raw_induct [where P = "\<lambda>pf cf na k e s s'. pf = perform \<longrightarrow> cf = complete \<longrightarrow> P (snd s) \<longrightarrow> P (snd s')", OF _ pass], intro impI)
    fix f pf cf na k e s s'
    assume IH: "\<And>pf cf na k e s s'. f pf cf na k e s = Some s' \<Longrightarrow> pf = perform \<longrightarrow> cf = complete \<longrightarrow> P (snd s) \<longrightarrow> P (snd s')"
      and body: "(if e = - 1 then Some s else do { (e, s) \<leftarrow> worker_visit pf cf (na k) e s; f pf cf na (k + 1) e s }) = Some s'"
      and pc: "pf = perform" "cf = complete" and s: "P (snd s)"
    show "P (snd s')"
    proof (cases "e = - 1")
      case False
      obtain wk d e1 wk1 d1 where v: "s = (wk, d)" "worker_visit perform complete (na k) e (wk, d) = Some (e1, wk1, d1)"
          "f pf cf na (k + 1) e1 (wk1, d1) = Some s'"
        using body pc False by (cases s) (auto simp: bind_Some_iff)
      have "P d1" using visit_data [OF v(2), of P] s v(1) keep by auto
      then show ?thesis using IH [OF v(3)] pc by simp
    qed (use body s in simp)
  qed
  then show ?thesis using assms(2) by blast
qed

end

lemma signal_cq_ok: "signal_cq n w i (d, is) = Some (d', is') \<Longrightarrow> dev_ok d \<Longrightarrow> dev_ok d'"
proof -
  assume s: "signal_cq n w i (d, is) = Some (d', is')" and d: "dev_ok d"
  obtain q owner where q: "rd (cqes d) i = Some q" "get_io_worker (int i) n = Some owner" using s by (auto simp: signal_cq_def bind_Some_iff)
  show ?thesis
  proof (cases q)
    case (Some cq)
    have "cq_ok i cq" using dev_ok_rd(2) [OF d] q(1) Some by simp
    then show ?thesis using s q Some d by (auto simp: signal_cq_def split: if_splits intro!: dev_ok_cqes)
  qed (use s q d in \<open>simp add: signal_cq_def\<close>)
qed

lemma worker_round_ok:
  assumes "io_worker_round kv dma pv now_at n i wk d = Some (wk', d', is)" "dev_ok d"
  shows "dev_ok d'"
proof -
  obtain wk1 d1 where r: "worker_pass (perform_request kv dma pv) complete_request now_at 0 (io_seq wk) (wk, d) = Some (wk1, d1)"
      "signal_cqs n i d1 = Some (d', is)"
    using assms(1) by (auto simp: io_worker_round_def bind_Some_iff)
  have "dev_ok (snd (wk1, d1))"
    by (rule device.pass_data [OF r(1)]) (use assms(2) perform_request_ok complete_request_ok in auto)
  then have "dev_ok (fst (d1, [] :: int list))" by simp
  then have "dev_ok (fst (d', is))"
  proof (rule fold_opt_invariant [where I = "\<lambda>s. dev_ok (fst s)", OF r(2) [unfolded signal_cqs_def]])
    show "dev_ok (fst s')" if "dev_ok (fst s)" "signal_cq n i x s = Some s'" for x s s'
      using that by (cases s; cases s') (auto dest: signal_cq_ok)
  qed
  then show ?thesis by simp
qed

end
