(* ===== verification/Ctrl_Inv.thy ===== *)
theory Ctrl_Inv
  imports Queue_Inv
begin

text \<open>
  The shape of the controller's state: the admin queue beside the device, kept by the admin commands,
  by changes of the registers and by whole rounds of the dispatcher.
\<close>

definition aq_ok :: "nvmev_admin_queue \<Rightarrow> bool" where
  "aq_ok q \<longleftrightarrow> 1 \<le> aq_sq_depth q \<and> aq_sq_depth q \<le> 4096 \<and> 1 \<le> aq_cq_depth q \<and> aq_cq_depth q \<le> 4096 \<and>
     0 \<le> aq_cq_head q \<and> aq_cq_head q < aq_cq_depth q \<and> aq_phase q \<in> {0, 1}"

definition ctrl_ok :: "nvmev_ctrl \<Rightarrow> bool" where
  "ctrl_ok c \<longleftrightarrow> dev_ok (vdev c) \<and> (\<forall>q. admin_q c = Some q \<longrightarrow> aq_ok q)"

subsection \<open>Doorbells and admin commands\<close>

lemma reset_db_ok: "reset_db i d = Some d' \<Longrightarrow> dev_ok d \<Longrightarrow> dev_ok d'"
proof -
  assume r: "reset_db i d = Some d'" and d: "dev_ok d"
  have "d' = d\<lparr>dbs := (dbs d)[i := 0], old_dbs := (old_dbs d)[i := 0]\<rparr>" using r by (auto simp: reset_db_def bind_Some_iff arr_simps)
  then show ?thesis using d dev_ok_dbs [OF d] by simp
qed

lemma entries_at_length: "entry_size dvd 4096 \<Longrightarrow> 0 < entry_size \<Longrightarrow> n \<le> length (entries_at view entry_size a n)"
proof -
  assume e: "entry_size dvd 4096" "0 < entry_size"
  then obtain k where k: "4096 = entry_size * k" by blast
  have "n * entry_size \<le> div_round_up (n * entry_size) 4096 * 4096" by (rule div_round_up_ge) simp
  also have "\<dots> = div_round_up (n * entry_size) 4096 * k * entry_size" unfolding k by simp
  finally have "n \<le> div_round_up (n * entry_size) 4096 * k" using e(2) by simp
  moreover have "4096 div entry_size = k" using e(2) by (simp add: k)
  ultimately show ?thesis by (simp add: entries_at_def nr_queue_entries_def)
qed

lemma new_cq_ok: "cq_ok (unat (low16 (a_cdw10 cmd))) (new_cq v cmd)"
proof -
  let ?n = "unat (high16 (a_cdw10 cmd)) + 1"
  have "?n \<le> length (entries_at (view_cq v) 16 (a_prp1 cmd) ?n)" by (rule entries_at_length) simp_all
  moreover have "unat (high16 (a_cdw10 cmd)) < 2 ^ LENGTH(16)" by (rule unsigned_less)
  ultimately show ?thesis unfolding cq_ok_def new_cq_def Let_def by (simp add: uint_nat del: of_nat_unat)
qed

lemma new_sq_ok: "sq_ok (unat (low16 (a_cdw10 cmd))) (new_sq v cmd)"
proof -
  let ?n = "unat (high16 (a_cdw10 cmd)) + 1"
  have "?n \<le> length (entries_at (view_sq v) 64 (a_prp1 cmd) ?n)" by (rule entries_at_length) simp_all
  moreover have "unat (high16 (a_cdw10 cmd)) < 2 ^ LENGTH(16)" by (rule unsigned_less)
  ultimately show ?thesis unfolding sq_ok_def new_sq_def Let_def by (simp add: uint_nat del: of_nat_unat)
qed

text \<open>A handler changes the device, keeps its shape, and posts one completion.\<close>

definition answers_with :: "int \<Rightarrow> nvmev_ctrl \<Rightarrow> nvmev_ctrl \<Rightarrow> bool" where
  "answers_with eid c c' \<longleftrightarrow> (\<exists>d ret r0 r1. (dev_ok (vdev c) \<longrightarrow> dev_ok d) \<and> ret \<in> {SC_OK, SC_INVALID_OPCODE} \<and>
     make_cq_entry_results eid ret r0 r1 (c\<lparr>vdev := d\<rparr>) = Some c')"

lemma aw_results:
  "make_cq_entry_results eid SC_OK r0 r1 (c\<lparr>vdev := d\<rparr>) = Some c' \<Longrightarrow> (dev_ok (vdev c) \<Longrightarrow> dev_ok d) \<Longrightarrow> answers_with eid c c'"
  unfolding answers_with_def by blast

lemma aw_entry: "make_cq_entry eid ret c = Some c' \<Longrightarrow> ret \<in> {SC_OK, SC_INVALID_OPCODE} \<Longrightarrow> answers_with eid c c'"
  unfolding answers_with_def make_cq_entry_def by (intro exI [of _ "vdev c"] exI [of _ ret] exI [of _ 0]) simp

lemma aw_page: "answer_page eid cmd bs c = Some c' \<Longrightarrow> answers_with eid c c'"
  unfolding answer_page_def make_cq_entry_def put_page_def by (drule aw_results) simp_all

lemmas aw = aw_page aw_entry

lemma queue_handlers:
  "admin_create_cq v eid c = Some c' \<Longrightarrow> answers_with eid c c'" "admin_create_sq v eid c = Some c' \<Longrightarrow> answers_with eid c c'"
  "admin_delete_cq eid c = Some c' \<Longrightarrow> answers_with eid c c'" "admin_delete_sq eid c = Some c' \<Longrightarrow> answers_with eid c c'"
proof -
  assume "admin_create_cq v eid c = Some c'"
  then obtain cmd d where d: "reset_db (unat (low16 (a_cdw10 cmd)) * 2 + 1)
      ((vdev c)\<lparr>cqes := (cqes (vdev c))[unat (low16 (a_cdw10 cmd)) := Some (new_cq v cmd)]\<rparr>) = Some d"
    "make_cq_entry eid SC_OK (c\<lparr>vdev := d\<rparr>) = Some c'"
    by (auto simp: admin_create_cq_def bind_Some_iff Let_def arr_simps)
  have "dev_ok d" if "dev_ok (vdev c)"
    by (rule reset_db_ok [OF d(1) dev_ok_cqes [OF that]]) (use new_cq_ok in auto)
  then show "answers_with eid c c'" using d(2) aw_results unfolding make_cq_entry_def by blast
next
  assume "admin_create_sq v eid c = Some c'"
  then obtain cmd d where d: "reset_db (unat (low16 (a_cdw10 cmd)) * 2)
      ((vdev c)\<lparr>sqes := (sqes (vdev c))[unat (low16 (a_cdw10 cmd)) := Some (new_sq v cmd)]\<rparr>) = Some d"
    "make_cq_entry eid SC_OK (c\<lparr>vdev := d\<rparr>) = Some c'"
    by (auto simp: admin_create_sq_def bind_Some_iff Let_def arr_simps)
  have "dev_ok d" if "dev_ok (vdev c)"
    by (rule reset_db_ok [OF d(1) dev_ok_sqes [OF that]]) (use new_sq_ok in auto)
  then show "answers_with eid c c'" using d(2) aw_results unfolding make_cq_entry_def by blast
next
  assume "admin_delete_cq eid c = Some c'"
  then obtain i where "make_cq_entry eid SC_OK (c\<lparr>vdev := (vdev c)\<lparr>cqes := (cqes (vdev c))[i := None]\<rparr>\<rparr>) = Some c'"
    by (auto simp: admin_delete_cq_def bind_Some_iff arr_simps)
  then show "answers_with eid c c'" unfolding make_cq_entry_def by (rule aw_results) (rule dev_ok_cqes, simp_all)
next
  assume "admin_delete_sq eid c = Some c'"
  then obtain i where "make_cq_entry eid SC_OK (c\<lparr>vdev := (vdev c)\<lparr>sqes := (sqes (vdev c))[i := None]\<rparr>\<rparr>) = Some c'"
    by (auto simp: admin_delete_sq_def bind_Some_iff arr_simps)
  then show "answers_with eid c c'" unfolding make_cq_entry_def by (rule aw_results) (rule dev_ok_sqes, simp_all)
qed

lemma log_page_answers: "admin_get_log_page zns eid c = Some c' \<Longrightarrow> answers_with eid c c'"
  by (auto simp: admin_get_log_page_def bind_Some_iff Let_def split: if_splits intro: aw_page)

lemma identify_answers: "admin_identify eid c = Some c' \<Longrightarrow> answers_with eid c c'"
  by (auto simp: admin_identify_def bind_Some_iff Let_def admin_identify_namespace_def admin_identify_ctrl_def
      admin_identify_namespaces_def admin_identify_namespace_desc_def admin_identify_zns_namespace_def admin_identify_zns_ctrl_def
      split: if_splits ns_state.splits intro: aw)

lemma feature_handlers:
  "admin_set_features eid c = Some c' \<Longrightarrow> answers_with eid c c'" "admin_get_features eid c = Some c' \<Longrightarrow> answers_with eid c c'"
  "admin_async_event eid c = Some c' \<Longrightarrow> answers_with eid c c'"
proof -
  have small: "unat (of_nat (min n NR_MAX_IO_QUEUE) :: u32) \<le> NR_MAX_IO_QUEUE" for n
    by (simp add: NR_MAX_IO_QUEUE_def unat_of_nat_small)
  have shrink: "dev_ok d \<Longrightarrow> dev_ok (d\<lparr>nr_sq := of_nat (min m NR_MAX_IO_QUEUE), nr_cq := of_nat (min n NR_MAX_IO_QUEUE)\<rparr>)"
    for d :: "ns_state nvmev_dev" and m n using small by (simp add: dev_ok_def)
  have same: "make_cq_entry_results eid SC_OK r0 r1 c = Some c' \<Longrightarrow> answers_with eid c c'" for r0 r1
    using aw_results [where c = c and d = "vdev c"] by simp
  show "admin_set_features eid c = Some c' \<Longrightarrow> answers_with eid c c'"
    by (auto simp: admin_set_features_def bind_Some_iff Let_def split: if_splits intro: same aw_results [OF _ shrink])
  show "admin_get_features eid c = Some c' \<Longrightarrow> answers_with eid c c'"
    unfolding admin_get_features_def bind_Some_iff by (blast intro: same)
  show "admin_async_event eid c = Some c' \<Longrightarrow> answers_with eid c c'"
    by (auto simp: admin_async_event_def intro: aw)
qed

lemma admin_req_answers:
  assumes "proc_admin_req zns v eid c = Some c'"
  obtains cmd where "admin_cmd c eid = Some cmd" "a_opcode cmd = nvme_admin_abort_cmd" "c' = c"
  | cmd where "admin_cmd c eid = Some cmd" "a_opcode cmd \<noteq> nvme_admin_abort_cmd" "answers_with eid c c'"
proof -
  obtain cmd where cmd: "admin_cmd c eid = Some cmd" using assms by (auto simp: proc_admin_req_def bind_Some_iff)
  show thesis
  proof (cases "a_opcode cmd = nvme_admin_abort_cmd")
    case True
    then have "c' = c" using assms cmd by (simp add: proc_admin_req_def cdefs)
    then show ?thesis using that(1) cmd True by blast
  next
    case False
    then have "answers_with eid c c'" using assms cmd
      by (auto simp: proc_admin_req_def Let_def split: if_splits
          intro: queue_handlers log_page_answers identify_answers feature_handlers aw_entry)
    then show ?thesis using that(2) cmd False by blast
  qed
qed

subsection \<open>The admin queue\<close>

definition aq_posted :: "nvme_completion \<Rightarrow> nvmev_admin_queue \<Rightarrow> nvmev_admin_queue" where
  "aq_posted cqe q = (
     let q' = q\<lparr>aq_cq := map_option (\<lambda>es. es[nat (aq_cq_head q) := cqe]) (aq_cq q)\<rparr>
     in if aq_cq_head q + 1 = aq_cq_depth q then q'\<lparr>aq_cq_head := 0, aq_phase := (if aq_phase q = 0 then 1 else 0)\<rparr>
        else q'\<lparr>aq_cq_head := aq_cq_head q + 1\<rparr>)"

lemma posted:
  assumes "make_cq_entry_results eid ret r0 r1 c = Some c'"
  obtains cmd q es where "admin_cmd c eid = Some cmd" "admin_q c = Some q" "aq_cq q = Some es"
    "0 \<le> aq_cq_head q" "nat (aq_cq_head q) < length es"
    "c' = c\<lparr>admin_q := Some (aq_posted (admin_cqe cmd eid (aq_phase q) ret r0 r1) q)\<rparr>"
proof -
  obtain cmd q es where q: "admin_cmd c eid = Some cmd" "admin_q c = Some q" "aq_cq q = Some es"
    using assms by (auto simp: make_cq_entry_results_def bind_Some_iff)
  moreover have "0 \<le> aq_cq_head q" "nat (aq_cq_head q) < length es"
    using assms q by (auto simp: make_cq_entry_results_def bind_Some_iff wr_int_def arr_simps split: if_splits)
  moreover have "c' = c\<lparr>admin_q := Some (aq_posted (admin_cqe cmd eid (aq_phase q) ret r0 r1) q)\<rparr>"
    using assms q calculation(4,5) by (simp add: make_cq_entry_results_def aq_posted_def Let_def cong: if_cong)
  ultimately show thesis by (rule that)
qed

lemma aq_posted_ok: "aq_ok q \<Longrightarrow> aq_ok (aq_posted cqe q)"
  by (auto simp: aq_posted_def aq_ok_def Let_def)

lemma answers_with_ok: "answers_with eid c c' \<Longrightarrow> ctrl_ok c \<Longrightarrow> ctrl_ok c'"
proof -
  assume "answers_with eid c c'" and c: "ctrl_ok c"
  then obtain d ret r0 r1 where d: "dev_ok d" "make_cq_entry_results eid ret r0 r1 (c\<lparr>vdev := d\<rparr>) = Some c'"
    by (auto simp: answers_with_def ctrl_ok_def)
  from d(2) obtain q cqe where "admin_q c = Some q" "c' = c\<lparr>vdev := d, admin_q := Some (aq_posted cqe q)\<rparr>"
    by (rule posted) simp
  then show ?thesis using c d(1) aq_posted_ok by (simp add: ctrl_ok_def)
qed

lemma admin_req_ok: "proc_admin_req zns v eid c = Some c' \<Longrightarrow> ctrl_ok c \<Longrightarrow> ctrl_ok c'"
  by (erule admin_req_answers) (simp_all add: answers_with_ok)

lemma admin_loop_ok: "admin_loop zns v n cur c = Some c' \<Longrightarrow> ctrl_ok c \<Longrightarrow> ctrl_ok c'"
  by (induction n arbitrary: cur c) (auto simp: bind_Some_iff dest: admin_req_ok)

lemma admin_sq_ok: "nvmev_proc_admin_sq zns v new old c = Some c' \<Longrightarrow> ctrl_ok c \<Longrightarrow> ctrl_ok c'"
  by (auto simp: nvmev_proc_admin_sq_def bind_Some_iff Let_def nvmev_signal_irq_def ctrl_ok_def dest!: admin_loop_ok [unfolded ctrl_ok_def])

subsection \<open>The dispatcher\<close>

lemma old_dbs_ok: "wr (old_dbs d) i x = Some old \<Longrightarrow> dev_ok d \<Longrightarrow> dev_ok (d\<lparr>old_dbs := old\<rparr>)"
  by (simp add: wr_Some dev_ok_dbs)

lemma ctrl_ok_dbs: "ctrl_ok c \<Longrightarrow> length (dbs (vdev c)) = 1024" "ctrl_ok c \<Longrightarrow> length (old_dbs (vdev c)) = 1024"
  by (simp_all add: ctrl_ok_def dev_ok_dbs)

lemma note_db: "ctrl_ok c \<Longrightarrow> length old = 1024 \<Longrightarrow> ctrl_ok (c\<lparr>vdev := (vdev c)\<lparr>old_dbs := old\<rparr>\<rparr>)"
  by (simp add: ctrl_ok_def)

lemma admin_dbs_ok: "proc_admin_dbs zns v c = Some (c', u) \<Longrightarrow> ctrl_ok c \<Longrightarrow> ctrl_ok c'"
  by (auto simp: proc_admin_dbs_def bind_Some_iff wr_Some ctrl_ok_dbs split: if_splits intro!: note_db dest!: admin_sq_ok)

lemma proc_sq_db_ok: "proc_sq_db kv clk qid ((d, wks), u) = Some ((d', wks'), u') \<Longrightarrow> dev_ok d \<Longrightarrow> dev_ok d'"
proof -
  assume p: "proc_sq_db kv clk qid ((d, wks), u) = Some ((d', wks'), u')" and d: "dev_ok d"
  show ?thesis
  proof (cases "d' = d")
    case False
    obtain new old d1 db t old' wks1 where "nvmev_proc_io_sq kv (clk qid) (int qid) new old (d, wks) = Some ((d1, wks1), db)"
      "wr (old_dbs d1) (qid * 2) t = Some old'" "d' = d1\<lparr>old_dbs := old'\<rparr>"
      using p False by (auto simp: proc_sq_db_def bind_Some_iff split: option.splits if_splits)
    then show ?thesis using nvmev_proc_io_sq_ok old_dbs_ok d by blast
  qed (use d in simp)
qed

lemma proc_cq_db_ok: "proc_cq_db qid (d, u) = Some (d', u') \<Longrightarrow> dev_ok d \<Longrightarrow> dev_ok d'"
proof -
  assume p: "proc_cq_db qid (d, u) = Some (d', u')" and d: "dev_ok d"
  show ?thesis
  proof (cases "d' = d")
    case False
    obtain new old d1 t old' where "nvmev_proc_io_cq (int qid) new old d = Some d1"
      "wr (old_dbs d1) (qid * 2 + 1) t = Some old'" "d' = d1\<lparr>old_dbs := old'\<rparr>"
      using p False by (auto simp: proc_cq_db_def bind_Some_iff split: option.splits if_splits)
    then show ?thesis using nvmev_proc_io_cq_ok old_dbs_ok d by blast
  qed (use d in simp)
qed

lemma proc_dbs_ok: "nvmev_proc_dbs kv zns v clk (c, wks) = Some ((c', wks'), u) \<Longrightarrow> ctrl_ok c \<Longrightarrow> ctrl_ok c'"
proof -
  assume p: "nvmev_proc_dbs kv zns v clk (c, wks) = Some ((c', wks'), u)" and c: "ctrl_ok c"
  obtain c1 u1 d1 wks1 u2 d2 xs ys where r: "proc_admin_dbs zns v c = Some (c1, u1)"
      "fold_opt (proc_sq_db kv clk) xs ((vdev c1, wks), u1) = Some ((d1, wks1), u2)"
      "fold_opt proc_cq_db ys (d1, u2) = Some (d2, u)" "c' = c1\<lparr>vdev := d2\<rparr>"
    using p by (auto simp: nvmev_proc_dbs_def bind_Some_iff)
  have c1: "ctrl_ok c1" using admin_dbs_ok [OF r(1) c] .
  have "dev_ok (fst (fst ((d1, wks1), u2)))"
  proof (rule fold_opt_invariant [where I = "\<lambda>s. dev_ok (fst (fst s))", OF r(2)])
    show "dev_ok (fst (fst s'))" if "dev_ok (fst (fst s))" "proc_sq_db kv clk qid s = Some s'" for qid s s'
      using that by (cases s; cases s') (auto dest: proc_sq_db_ok)
  qed (use c1 in \<open>simp add: ctrl_ok_def\<close>)
  then have d1: "dev_ok d1" by simp
  have "dev_ok (fst (d2, u))"
  proof (rule fold_opt_invariant [where I = "\<lambda>s. dev_ok (fst s)", OF r(3)])
    show "dev_ok (fst s')" if "dev_ok (fst s)" "proc_cq_db qid s = Some s'" for qid s s'
      using that by (cases s; cases s') (auto dest: proc_cq_db_ok)
  qed (use d1 in simp)
  then show ?thesis using c1 r(4) by (simp add: ctrl_ok_def)
qed

lemma asqs_range: "0 \<le> asqs w" "asqs w < 4096" "0 \<le> acqs w" "acqs w < 4096"
proof -
  have "uint (x AND 0xFFF :: u32) < 4096" for x
  proof -
    have "x AND 0xFFF \<le> 0xFFF" by (rule word_and_le1)
    then have "unat (x AND 0xFFF) \<le> unat (0xFFF :: u32)" by (simp only: word_le_nat_alt)
    then show ?thesis by (simp add: uint_nat del: of_nat_unat)
  qed
  then show "0 \<le> asqs w" "asqs w < 4096" "0 \<le> acqs w" "acqs w < 4096" unfolding asqs_def acqs_def by (simp_all only: uint_ge_0)
qed

lemma with_dev_ok: "with_dev f p = Some p' \<Longrightarrow> (\<And>d. f (vdev (ctl p)) = Some d \<Longrightarrow> dev_ok d) \<Longrightarrow> ctrl_ok (ctl p) \<Longrightarrow> ctrl_ok (ctl p')"
  by (auto simp: with_dev_def ctrl_ok_def)

lemma reset_dbs_ok: "with_dev (reset_db i) p = Some p' \<Longrightarrow> ctrl_ok (ctl p) \<Longrightarrow> ctrl_ok (ctl p')"
  by (erule with_dev_ok) (auto simp: ctrl_ok_def intro: reset_db_ok)

lemma reset_admin_dbs_ok: "reset_admin_dbs p = Some p' \<Longrightarrow> ctrl_ok (ctl p) \<Longrightarrow> ctrl_ok (ctl p')"
  by (auto simp: reset_admin_dbs_def bind_Some_iff dest: reset_dbs_ok)

lemma set_admin_q_ok: "ctrl_ok (ctl p) \<Longrightarrow> aq_ok q \<Longrightarrow> ctrl_ok (ctl (set_admin_q q p))"
  by (simp add: set_admin_q_def ctrl_ok_def)

lemma proc_aqa_ok: "proc_aqa p = Some p' \<Longrightarrow> ctrl_ok (ctl p) \<Longrightarrow> ctrl_ok (ctl p')"
proof -
  assume p: "proc_aqa p = Some p'" and c: "ctrl_ok (ctl p)"
  obtain q where q: "reset_admin_dbs (set_admin_q (q\<lparr>aq_cq_head := 0, aq_phase := 1, aq_sq_depth := asqs (u_aqa (bar p)) + 1,
      aq_cq_depth := acqs (u_aqa (bar p)) + 1\<rparr>) (p\<lparr>old_bar := (old_bar p)\<lparr>u_aqa := u_aqa (bar p)\<rparr>\<rparr>)) = Some p'"
    using p unfolding proc_aqa_def Let_def by blast
  show ?thesis
    by (rule reset_admin_dbs_ok [OF q set_admin_q_ok]) (use c asqs_range [of "u_aqa (bar p)"] in \<open>simp_all add: aq_ok_def\<close>)
qed

lemma proc_asq_ok:
  assumes "proc_asq v q p = Some p'" "aq_ok q" "ctrl_ok (ctl p)"
  shows "ctrl_ok (ctl p')"
  by (rule reset_dbs_ok [OF assms(1) [unfolded proc_asq_def Let_def] set_admin_q_ok])
    (use assms(2,3) asqs_range [of "u_aqa (bar p)"] in \<open>simp_all add: aq_ok_def\<close>)

lemma proc_acq_ok:
  assumes "proc_acq v q p = Some p'" "aq_ok q" "ctrl_ok (ctl p)"
  shows "ctrl_ok (ctl p')"
  by (rule reset_dbs_ok [OF assms(1) [unfolded proc_acq_def Let_def] set_admin_q_ok])
    (use assms(2,3) asqs_range [of "u_aqa (bar p)"] in \<open>simp_all add: aq_ok_def\<close>)

lemma shut_down_ok:
  assumes "do { p \<leftarrow> reset_admin_dbs p1; q \<leftarrow> admin_q (ctl p); Some (set_admin_q (q\<lparr>aq_cq_head := 0\<rparr>) p) } = Some p2" "ctrl_ok (ctl p1)"
  shows "ctrl_ok (ctl p2)"
proof -
  obtain p q where q: "reset_admin_dbs p1 = Some p" "admin_q (ctl p) = Some q" "p2 = set_admin_q (q\<lparr>aq_cq_head := 0\<rparr>) p"
    using assms(1) by (auto simp: bind_Some_iff)
  have p: "ctrl_ok (ctl p)" using reset_admin_dbs_ok [OF q(1) assms(2)] .
  then have "aq_ok (q\<lparr>aq_cq_head := 0\<rparr>)" using q(2) by (simp add: ctrl_ok_def aq_ok_def)
  then show ?thesis using set_admin_q_ok [OF p] q(3) by blast
qed

lemma proc_cc_ok: "proc_cc p = Some p' \<Longrightarrow> ctrl_ok (ctl p) \<Longrightarrow> ctrl_ok (ctl p')"
proof -
  assume p: "proc_cc p = Some p'" and c: "ctrl_ok (ctl p)"
  obtain p1 p2 where "ctl p1 = ctl p" "p' = p2\<lparr>old_bar := (old_bar p2)\<lparr>u_cc := u_cc (bar p)\<rparr>\<rparr>"
      "p2 = p1 \<or> do { p \<leftarrow> reset_admin_dbs (p1\<lparr>bar := (bar p1)\<lparr>u_csts := set_shst 2 (u_csts (bar p1))\<rparr>\<rparr>);
          q \<leftarrow> admin_q (ctl p); Some (set_admin_q (q\<lparr>aq_cq_head := 0\<rparr>) p) } = Some p2"
  proof (rule that)
    let ?p1 = "if cc_en (u_cc (bar p)) then
        (case admin_q (ctl p) of None \<Rightarrow> p | Some _ \<Rightarrow> p\<lparr>bar := (bar p)\<lparr>u_csts := set_rdy True (u_csts (bar p))\<rparr>\<rparr>)
      else p\<lparr>bar := (bar p)\<lparr>u_csts := set_rdy False (u_csts (bar p))\<rparr>\<rparr>"
    let ?p2 = "if cc_shn (u_cc (bar p)) = 1 then do {
         p \<leftarrow> reset_admin_dbs (?p1\<lparr>bar := (bar ?p1)\<lparr>u_csts := set_shst 2 (u_csts (bar ?p1))\<rparr>\<rparr>);
         q \<leftarrow> admin_q (ctl p);
         Some (set_admin_q (q\<lparr>aq_cq_head := 0\<rparr>) p) } else Some ?p1"
    show "ctl ?p1 = ctl p" by (simp split: option.split)
    have e: "Option.bind ?p2 (\<lambda>p2. Some (p2\<lparr>old_bar := (old_bar p2)\<lparr>u_cc := u_cc (bar p)\<rparr>\<rparr>)) = Some p'"
      using p unfolding proc_cc_def Let_def .
    then obtain p2 where p2: "?p2 = Some p2" by (auto simp: bind_Some_iff)
    show "p' = (the ?p2)\<lparr>old_bar := (old_bar (the ?p2))\<lparr>u_cc := u_cc (bar p)\<rparr>\<rparr>" using e unfolding p2 by simp
    show "the ?p2 = ?p1 \<or> do { p \<leftarrow> reset_admin_dbs (?p1\<lparr>bar := (bar ?p1)\<lparr>u_csts := set_shst 2 (u_csts (bar ?p1))\<rparr>\<rparr>);
          q \<leftarrow> admin_q (ctl p); Some (set_admin_q (q\<lparr>aq_cq_head := 0\<rparr>) p) } = Some (the ?p2)"
    proof (cases "cc_shn (u_cc (bar p)) = 1")
      case True
      then show ?thesis using p2 by simp
    qed simp
  qed
  then show ?thesis using c shut_down_ok by fastforce
qed

lemma proc_bars_ok: "nvmev_proc_bars v p = Some (p', b) \<Longrightarrow> ctrl_ok (ctl p) \<Longrightarrow> ctrl_ok (ctl p')"
proof -
  assume p: "nvmev_proc_bars v p = Some (p', b)" and c: "ctrl_ok (ctl p)"
  have q: "admin_q (ctl p) = Some q \<Longrightarrow> aq_ok q" for q using c by (simp add: ctrl_ok_def)
  show ?thesis using p c q proc_aqa_ok proc_cc_ok proc_asq_ok proc_acq_ok
    by (auto simp: nvmev_proc_bars_def Let_def split: if_splits option.splits)
qed

lemma dispatcher_ok: "nvmev_dispatcher kv zns v clk (p, wks) = Some (p', wks') \<Longrightarrow> ctrl_ok (ctl p) \<Longrightarrow> ctrl_ok (ctl p')"
  by (auto simp: nvmev_dispatcher_def bind_Some_iff dest!: proc_bars_ok proc_dbs_ok)

end
