(* ===== verification/Ctrl_Props.thy ===== *)
theory Ctrl_Props
  imports Ctrl_Inv
begin

text \<open>
  The controller with the host: the system of dispatcher, workers and host as a step relation, the
  shape its states keep, what an admin command answers, and how the registers settle.
\<close>

subsection \<open>The system\<close>

text \<open>The host writes commands into the queues, doorbells and its memory.\<close>

definition sq_written :: "nvmev_submission_queue \<Rightarrow> nvmev_submission_queue \<Rightarrow> bool" where
  "sq_written sq sq' \<longleftrightarrow> sq' = sq\<lparr>sq_entries := sq_entries sq'\<rparr> \<and> length (sq_entries sq') = length (sq_entries sq)"

definition aq_written :: "nvmev_admin_queue \<Rightarrow> nvmev_admin_queue \<Rightarrow> bool" where
  "aq_written q q' \<longleftrightarrow> q' = q\<lparr>aq_sq := aq_sq q'\<rparr> \<and> rel_option (\<lambda>es es'. length es' = length es) (aq_sq q) (aq_sq q')"

definition host_writes :: "nvmev_ctrl \<Rightarrow> nvmev_ctrl \<Rightarrow> bool" where
  "host_writes c c' \<longleftrightarrow> (let d = vdev c; d' = vdev c' in
     list_all2 (rel_option sq_written) (sqes d) (sqes d') \<and> length (dbs d') = length (dbs d) \<and>
     d' = d\<lparr>sqes := sqes d', dbs := dbs d', host := host d'\<rparr> \<and>
     rel_option aq_written (admin_q c) (admin_q c') \<and> c' = c\<lparr>vdev := d', admin_q := admin_q c'\<rparr>)"

text \<open>
  The controller after the module was loaded, the host's writes to the registers too, rounds of the
  dispatcher and rounds of the workers, in any order. \<open>kv\<close>, \<open>zns\<close> and \<open>v\<close> stand for the build and
  how entries are laid out.
\<close>

inductive ctrl_reachable :: "bool \<Rightarrow> bool \<Rightarrow> entry_view \<Rightarrow> nvmev_pci \<times> nvmev_io_worker list \<Rightarrow> bool" for kv zns v where
  start: "ctrl_reachable kv zns v (create_pci_bus zns (VDEV_INIT namespaces types m mem sto), wks)"
| host: "ctrl_reachable kv zns v (p, wks) \<Longrightarrow> host_writes (ctl p) c \<Longrightarrow> ctrl_reachable kv zns v (p\<lparr>ctl := c, bar := b\<rparr>, wks)"
| dispatch: "ctrl_reachable kv zns v s \<Longrightarrow> nvmev_dispatcher kv zns v clk s = Some s' \<Longrightarrow> ctrl_reachable kv zns v s'"
| work: "ctrl_reachable kv zns v (p, wks) \<Longrightarrow> i < length wks \<Longrightarrow>
    io_worker_round kv dma pv now_at (length wks) i (wks ! i) (vdev (ctl p)) = Some (wk, d, vectors) \<Longrightarrow>
    ctrl_reachable kv zns v (p\<lparr>ctl := (ctl p)\<lparr>vdev := d, irqs := irqs (ctl p) @ vectors\<rparr>\<rparr>, wks[i := wk])"

lemma host_writes_ok: "host_writes c c' \<Longrightarrow> ctrl_ok c \<Longrightarrow> ctrl_ok c'"
proof -
  assume h: "host_writes c c'" and c: "ctrl_ok c"
  define d where "d = vdev c"
  define d' where "d' = vdev c'"
  have w: "list_all2 (rel_option sq_written) (sqes d) (sqes d')" "length (dbs d') = length (dbs d)"
      "d' = d\<lparr>sqes := sqes d', dbs := dbs d', host := host d'\<rparr>" "rel_option aq_written (admin_q c) (admin_q c')"
    using h unfolding host_writes_def Let_def d_def d'_def by blast+
  have ok: "dev_ok d" using c by (simp add: ctrl_ok_def d_def)
  have "sq_ok i sq'" if "rd (sqes d') i = Some (Some sq')" for i sq'
  proof -
    have i: "i < length (sqes d')" "sqes d' ! i = Some sq'" using that by (simp_all add: rd_Some)
    then have "rel_option sq_written (sqes d ! i) (Some sq')" "i < length (sqes d)"
      using list_all2_nthD2 [OF w(1) i(1)] list_all2_lengthD [OF w(1)] by simp_all
    then obtain sq where sq: "sqes d ! i = Some sq" "sq_written sq sq'" by (auto simp: option_rel_Some2)
    have "sq_ok i sq" using dev_ok_rd(1) [OF ok] \<open>i < length (sqes d)\<close> sq(1) by simp
    moreover have "sq_qid sq' = sq_qid sq" "sq_queue_size sq' = sq_queue_size sq"
    proof -
      obtain es where "sq' = sq\<lparr>sq_entries := es\<rparr>" using sq(2) unfolding sq_written_def by blast
      then show "sq_qid sq' = sq_qid sq" "sq_queue_size sq' = sq_queue_size sq" by simp_all
    qed
    ultimately show ?thesis using sq(2) by (simp add: sq_ok_def sq_written_def)
  qed
  then have "slots_ok sq_ok (sqes d')" by (simp add: slots_ok_def)
  then have "dev_ok (d\<lparr>sqes := sqes d', dbs := dbs d', host := host d'\<rparr>)"
    using ok w(2) list_all2_lengthD [OF w(1)] by (simp add: dev_ok_def)
  then have "dev_ok d'" using w(3) by simp
  moreover have "aq_ok q'" if q': "admin_q c' = Some q'" for q'
  proof -
    obtain q where q: "admin_q c = Some q" "aq_written q q'" using w(4) q' by (auto simp: option_rel_Some2)
    then obtain es where "q' = q\<lparr>aq_sq := es\<rparr>" unfolding aq_written_def by blast
    then show ?thesis using c q(1) by (simp add: ctrl_ok_def aq_ok_def)
  qed
  ultimately show ?thesis by (simp add: ctrl_ok_def d'_def)
qed

lemma reachable_ok: "ctrl_reachable kv zns v s \<Longrightarrow> ctrl_ok (ctl (fst s))"
proof (induction rule: ctrl_reachable.induct)
  case (start namespaces types m mem sto wks)
  show ?case by (simp add: create_pci_bus_def VDEV_INIT_def ctrl_ok_def dev_ok_def slots_ok_None del: replicate_Suc)
next
  case (host p wks c b)
  then show ?case using host_writes_ok by simp
next
  case (dispatch s clk s')
  then show ?case using dispatcher_ok by (cases s; cases s') fastforce
next
  case (work p wks i dma pv now_at wk d vectors)
  then show ?case using worker_round_ok [OF work.hyps(3)] by (simp add: ctrl_ok_def)
qed

text \<open>
  C35: in every state the controller reaches, the arrays of queues have 73 pointers and the doorbells
  1024 words; every queue stands at its own id, has between 1 and 65536 entries and memory for all
  of them; completion queues write inside the queue with a phase of 0 or 1; the counts of queues
  stay below the length of the arrays; and the admin queue's head stays inside its depth.
\<close>

theorem controller_shape:
  assumes "ctrl_reachable kv zns v (p, wks)"
  shows "length (sqes (vdev (ctl p))) = 73 \<and> length (cqes (vdev (ctl p))) = 73 \<and>
    length (dbs (vdev (ctl p))) = 1024 \<and> length (old_dbs (vdev (ctl p))) = 1024 \<and>
    unat (nr_sq (vdev (ctl p))) \<le> 72 \<and> unat (nr_cq (vdev (ctl p))) \<le> 72 \<and>
    (\<forall>i sq. the_sq (vdev (ctl p)) i = Some sq \<longrightarrow>
      sq_qid sq = i \<and> 1 \<le> sq_queue_size sq \<and> sq_queue_size sq \<le> min 65536 (int (length (sq_entries sq)))) \<and>
    (\<forall>i cq. the_cq (vdev (ctl p)) i = Some cq \<longrightarrow>
      cq_qid cq = i \<and> cq_queue_size cq \<le> min 65536 (int (length (cq_entries cq))) \<and>
      0 \<le> cq_head cq \<and> cq_head cq < cq_queue_size cq \<and> cq_phase cq \<in> {0, 1}) \<and>
    (\<forall>q. admin_q (ctl p) = Some q \<longrightarrow> 0 \<le> aq_cq_head q \<and> aq_cq_head q < aq_cq_depth q \<and> 1 \<le> aq_sq_depth q \<and> aq_phase q \<in> {0, 1})"
proof -
  let ?d = "vdev (ctl p)"
  have c: "ctrl_ok (ctl p)" using reachable_ok [OF assms] by simp
  then have d: "dev_ok ?d" by (simp add: ctrl_ok_def)
  have "sq_ok (nat i) sq \<and> 0 \<le> i" if "the_sq ?d i = Some sq" for i sq
    using dev_ok_sq [OF d that] that by (auto simp: the_sq_def rd_int_def split: if_splits)
  then have "\<forall>i sq. the_sq ?d i = Some sq \<longrightarrow>
      sq_qid sq = i \<and> 1 \<le> sq_queue_size sq \<and> sq_queue_size sq \<le> min 65536 (int (length (sq_entries sq)))"
    by (fastforce simp: sq_ok_def)
  moreover have "cq_ok (nat i) cq \<and> 0 \<le> i" if "the_cq ?d i = Some cq" for i cq
    using dev_ok_cq [OF d that] that by (auto simp: the_cq_def rd_int_def split: if_splits)
  then have "\<forall>i cq. the_cq ?d i = Some cq \<longrightarrow> cq_qid cq = i \<and> cq_queue_size cq \<le> min 65536 (int (length (cq_entries cq))) \<and>
      0 \<le> cq_head cq \<and> cq_head cq < cq_queue_size cq \<and> cq_phase cq \<in> {0, 1}"
    by (fastforce simp: cq_ok_def)
  moreover have "\<forall>q. admin_q (ctl p) = Some q \<longrightarrow>
      0 \<le> aq_cq_head q \<and> aq_cq_head q < aq_cq_depth q \<and> 1 \<le> aq_sq_depth q \<and> aq_phase q \<in> {0, 1}"
    using c by (simp add: ctrl_ok_def aq_ok_def)
  ultimately show ?thesis using d by (simp add: dev_ok_def NR_MAX_IO_QUEUE_def)
qed

text \<open>The host sets the depths of the admin queue and the dispatcher takes note.\<close>

definition loaded :: nvmev_pci where
  "loaded = create_pci_bus False (VDEV_INIT [] [] 0 (\<lambda>a. 0) \<lparr>st_size = 0, st_bytes = (\<lambda>i. 0)\<rparr>)"

definition host_sets :: "u32 \<Rightarrow> nvmev_pci \<Rightarrow> nvmev_pci" where
  "host_sets aqa p = p\<lparr>bar := (bar p)\<lparr>u_aqa := aqa\<rparr>\<rparr>"

lemma host_writes_refl: "host_writes c c"
proof -
  have "rel_option sq_written q q" for q by (cases q) (simp_all add: sq_written_def)
  moreover have "rel_option aq_written q q" for q
    by (cases q) (simp_all add: aq_written_def option.rel_refl)
  ultimately show ?thesis by (simp add: host_writes_def list_all2_same)
qed

lemma host_sets_reachable: "ctrl_reachable False False v (host_sets aqa loaded, [])"
proof -
  have "ctrl_reachable False False v (loaded, [])" unfolding loaded_def by (rule ctrl_reachable.start)
  then have "ctrl_reachable False False v (loaded\<lparr>ctl := ctl loaded, bar := (bar loaded)\<lparr>u_aqa := aqa\<rparr>\<rparr>, [])"
    using host_writes_refl by (rule ctrl_reachable.host)
  moreover have "x\<lparr>ctl := ctl x, bar := b\<rparr> = x\<lparr>bar := b\<rparr>" for x :: nvmev_pci and b by (cases x) simp
  ultimately show ?thesis by (simp only: host_sets_def)
qed

lemma first_round:
  "\<exists>p. nvmev_dispatcher False False v clk (host_sets 0x1F001F loaded, []) = Some (p, []) \<and>
    (\<exists>q. admin_q (ctl p) = Some q \<and> aq_sq_depth q = 32 \<and> aq_cq_depth q = 32)"
proof -
  have "asqs 0x1F001F = 31" "acqs 0x1F001F = 31" by (simp_all add: asqs_def acqs_def)
  moreover have "0 < NR_MAX_IO_QUEUE + 1" by simp
  ultimately show ?thesis
    by (simp add: nvmev_dispatcher_def nvmev_proc_bars_def host_sets_def loaded_def create_pci_bus_def init_nvme_ctrl_regs_def VDEV_INIT_def
        proc_aqa_def reset_admin_dbs_def with_dev_def reset_db_def set_admin_q_def nvmev_proc_dbs_def proc_admin_dbs_def Let_def)
qed

theorem controller_shape_witness:
  "\<forall>v. \<exists>p. ctrl_reachable False False v (p, []) \<and> length (sqes (vdev (ctl p))) = 73 \<and>
    (\<exists>q. admin_q (ctl p) = Some q \<and> aq_cq_depth q = 32 \<and> 0 \<le> aq_cq_head q \<and> aq_cq_head q < 32)"
proof
  fix v
  obtain p q where p: "nvmev_dispatcher False False v (\<lambda>_ _. (0, 0)) (host_sets 0x1F001F loaded, []) = Some (p, [])"
    "admin_q (ctl p) = Some q" "aq_cq_depth q = 32" using first_round by blast
  have r: "ctrl_reachable False False v (p, [])" using host_sets_reachable p(1) by (rule ctrl_reachable.dispatch)
  note shape = controller_shape [OF r]
  have "length (sqes (vdev (ctl p))) = 73" by (rule shape [THEN conjunct1])
  moreover have "0 \<le> aq_cq_head q \<and> aq_cq_head q < 32" using shape p(2,3) by auto
  ultimately show "\<exists>p. ctrl_reachable False False v (p, []) \<and> length (sqes (vdev (ctl p))) = 73 \<and>
    (\<exists>q. admin_q (ctl p) = Some q \<and> aq_cq_depth q = 32 \<and> 0 \<le> aq_cq_head q \<and> aq_cq_head q < 32)"
    using r p(2,3) by blast
qed

subsection \<open>Admin commands\<close>




subsection \<open>Registers\<close>











lemma csts_bits [simp]: "bit (set_rdy b w) 0 = b" "bit (set_shst x w) 0 = bit w 0"
  by (simp_all add: set_rdy_def set_shst_def bit_simps)









end
