(* ===== verification/Dispatch_Props.thy ===== *)
theory Dispatch_Props
  imports Conv_Props Config
begin

text \<open>
  What the dispatcher does with a command that a namespace refuses: it keeps the doorbell where it
  is and offers the same command again in every round.
\<close>

lemma conv_refuses:
  assumes inv: "ns_inv ns" and csi: "ns_csi ns = NVME_CSI_NVM" and out: "\<not> in_range ns req"
    and op: "rw_opcode (req_cmd req) \<in> {nvme_cmd_read, nvme_cmd_write}"
  shows "conv_proc_nvme_io_cmd gc_mode ns req ret = Some (ns, ret\<lparr>ret_status := NVME_SC_LBA_RANGE OR NVME_SC_DNR\<rparr>, False)"
proof -
  note R = ns_invD(3) [OF inv ns_inv_fields(1) [OF inv]] lpn_range_eq [OF inv] last_local [OF inv, of req]
  have "conv_read ns req ret = Some (ns, ret\<lparr>ret_status := NVME_SC_LBA_RANGE OR NVME_SC_DNR\<rparr>, False)"
    "conv_write gc_mode ns req ret = Some (ns, ret\<lparr>ret_status := NVME_SC_LBA_RANGE OR NVME_SC_DNR\<rparr>, False)"
    using R out by (simp_all add: conv_read_def conv_write_def Let_def)
  then show ?thesis using op csi by (auto simp: conv_proc_nvme_io_cmd_def Let_def)
qed

lemma dispatch_refused:
  assumes q: "the_sq dev sqid = Some sq" "rd_int (sq_entries sq) e = Some cmd"
    and ns: "rd (nss dev) (unat (c_nsid cmd - 1)) = Some ns"
    and refuses: "\<And>ret. \<exists>ret'. proc_io_cmd ns (nsp_state ns, host dev, stor dev) cmd (of_int sqid) wall ret =
      Some ((nsp_state ns, host dev, stor dev), cmd, ret', False, [])"
  shows "nvmev_proc_io False wall now sqid e (dev, wks) = Some ((dev, wks), None)"
proof -
  obtain ret' where r: "proc_io_cmd ns (nsp_state ns, host dev, stor dev) cmd (of_int sqid) wall
      \<lparr>ret_status = NVME_SC_SUCCESS, ret_nsecs_target = wall\<rparr> = Some ((nsp_state ns, host dev, stor dev), cmd, ret', False, [])"
    using refuses by blast
  have i: "0 \<le> sqid" "nat sqid < length (sqes dev)" "sqes dev ! nat sqid = Some sq" "0 \<le> e" "nat e < length (sq_entries sq)"
      "sq_entries sq ! nat e = cmd" "unat (c_nsid cmd - 1) < length (nss dev)" "nss dev ! unat (c_nsid cmd - 1) = ns"
    using q ns by (auto simp: the_sq_def rd_int_def rd_Some bind_Some_iff split: if_splits)
  have es: "wr_int (sq_entries sq) e cmd = Some (sq_entries sq)" using i list_update_id [of "sq_entries sq" "nat e"] by simp
  have nss': "(nss dev)[unat (c_nsid cmd - 1) := ns\<lparr>nsp_state := nsp_state ns\<rparr>] = nss dev"
    using i(8) list_update_id [of "nss dev" "unat (c_nsid cmd - 1)"] by simp
  have "dev\<lparr>nss := nss dev, host := host dev, stor := stor dev\<rparr> = dev" by (cases dev) simp
  moreover have "put_sq sqid (sq\<lparr>sq_entries := sq_entries sq\<rparr>) dev = Some dev"
    using i(1-3) list_update_id [of "sqes dev" "nat sqid"] by (cases dev) (simp add: put_sq_def)
  ultimately show ?thesis using q ns r es nss' by (simp add: nvmev_proc_io_def schedule_ops_def Let_def)
qed

text \<open>
  C38: a read or write out of the range of a conventional namespace is never completed: the dispatcher
  takes none of the commands between the old and the new doorbell, returns the old one, and leaves
  everything but the statistics of the queue as it was, so that the next round does the same.
\<close>

theorem out_of_range_blocks:
  assumes q: "the_sq dev sqid = Some sq" "rd_int (sq_entries sq) old = Some cmd"
    and db: "0 \<le> old" "old < sq_queue_size sq" "0 \<le> new" "new < sq_queue_size sq" "new \<noteq> old"
    and ns: "rd (nss dev) (unat (c_nsid cmd - 1)) = Some ns" "proc_io_cmd ns = conv_handler gc_mode" "nsp_state ns = Conv_State cn"
    and cn: "ns_inv cn" "ns_csi cn = NVME_CSI_NVM" "internal_ops (ns_dev cn) = []"
    and cmd: "rw_opcode (c_rw cmd) \<in> {nvme_cmd_read, nvme_cmd_write}" "\<not> in_range cn \<lparr>req_cmd = c_rw cmd, req_sq_id = 0, req_nsecs_start = 0\<rparr>"
  shows "nvmev_proc_io_sq False clk sqid new old (dev, wks) =
    Some ((dev\<lparr>sqes := (sqes dev)[nat sqid := Some (sq\<lparr>sq_stat := end_dispatch (sq_stat sq)\<rparr>)]\<rparr>, wks), old)"
proof -
  have refuse: "\<exists>ret'. proc_io_cmd ns (nsp_state ns, host dev, stor dev) cmd i wall ret = Some ((nsp_state ns, host dev, stor dev), cmd, ret', False, [])"
    for i wall ret
  proof -
    have "\<not> in_range cn \<lparr>req_cmd = c_rw cmd, req_sq_id = i, req_nsecs_start = wall\<rparr>" using cmd(2) by (simp add: in_range_def cmd_last_def)
    then have "conv_proc_nvme_io_cmd gc_mode cn \<lparr>req_cmd = c_rw cmd, req_sq_id = i, req_nsecs_start = wall\<rparr> ret =
        Some (cn, ret\<lparr>ret_status := NVME_SC_LBA_RANGE OR NVME_SC_DNR\<rparr>, False)"
      using conv_refuses [OF cn(1,2)] cmd(1) by simp
    moreover have "cn\<lparr>ns_dev := (ns_dev cn)\<lparr>internal_ops := []\<rparr>\<rparr> = cn" using cn(3) by simp
    ultimately show ?thesis using ns(2,3) cn(3) by (simp add: conv_handler_def take_ops_def)
  qed
  define n where "n = nat (if new - old < 0 then new - old + sq_queue_size sq else new - old)"
  have "0 < n" using db by (auto simp: n_def)
  then obtain m where m: "n = Suc m" by (cases n) simp_all
  have i: "0 \<le> sqid" "nat sqid < length (sqes dev)" "sqes dev ! nat sqid = Some sq" "rd_int (sqes dev) sqid = Some (Some sq)"
    using q(1) by (auto simp: the_sq_def rd_int_def rd_Some bind_Some_iff split: if_splits)
  have "sq_loop False clk sqid n 0 old (dev, wks) = Some ((dev, wks), 0)"
    using dispatch_refused [OF q ns(1) refuse] by (simp add: m)
  moreover have "upd_stat sqid end_dispatch dev = Some (dev\<lparr>sqes := (sqes dev)[nat sqid := Some (sq\<lparr>sq_stat := end_dispatch (sq_stat sq)\<rparr>)]\<rparr>)"
    using q(1) i by (simp add: upd_stat_def put_sq_def)
  moreover have "tmod old (sq_queue_size sq) = old" using db by (simp add: tmod_def tdiv_nonneg)
  ultimately show ?thesis using i db unfolding nvmev_proc_io_sq_def n_def by (simp add: Let_def)
qed

text \<open>A read past the end of a device of a gigabyte.\<close>

definition far_read :: sq_command where
  "far_read = \<lparr>c_command_id = 1, c_nsid = 1, c_prp1 = 0, c_prp2 = 0,
     c_rw = \<lparr>rw_opcode = nvme_cmd_read, rw_slba = 2 ^ 50, rw_length = 0, rw_control = 0\<rparr>,
     c_kv = \<lparr>kv_opcode = 0, kv_prp1 = 0, kv_prp2 = 0, kv_value_len = 0, kv_key_len = 0, kv_option = 0, kv_rsvd4 = 0, kv_key = []\<rparr>,
     c_zone_send = \<lparr>zs_slba = 0, zs_zsa = 0, zs_select_all = False, zs_zsaso = 0\<rparr>,
     c_zone_recv = \<lparr>zr_slba = 0, zr_nr_dw = 0, zr_zra = 0, zr_zra_specific_field = 0, zr_partial = False\<rparr>\<rparr>"

definition far_queue :: nvmev_submission_queue where
  "far_queue = \<lparr>sq_qid = 1, sq_cqid = 1, sq_priority = 0, sq_phys_contig = True, sq_queue_size = 2,
     sq_stat = \<lparr>nr_dispatched = 0, nr_dispatch = 0, nr_in_flight = 0, max_nr_in_flight = 0, total_io = 0\<rparr>,
     sq_entries = replicate 64 far_read\<rparr>"

definition far_dev :: "ns_state nvmev_dev" where
  "far_dev = \<lparr>sqes = [None, Some far_queue], cqes = [], nr_sq = 1, nr_cq = 0, dbs = [], old_dbs = [],
     nss = [\<lparr>nsp_csi = 0, nsp_size = 0, nsp_mapped = 0, nsp_state = Conv_State demo_ns, proc_io_cmd = conv_handler GC_MODE_CB,
       identify_io_cmd = (\<lambda>_. False), perform_io_cmd = (\<lambda>_ _ _ _ _. None), nsp_release = release_buf\<rparr>],
     host = (\<lambda>a. 0), stor = \<lparr>st_size = 0, st_bytes = (\<lambda>i. 0)\<rparr>\<rparr>"

lemma conv_init_idle:
  "conv_init_namespace spp0 junk d0 w0 clk rnd nsid sz = Some ns \<Longrightarrow> ns_csi ns = NVME_CSI_NVM \<and> internal_ops (ns_dev ns) = []"
  by (auto simp: conv_init_namespace_def bind_Some_iff Let_def)

lemmas demo_ns_idle = conv_init_idle [OF demo_ns(1), THEN conjunct1] conv_init_idle [OF demo_ns(1), THEN conjunct2]

theorem out_of_range_blocks_witness:
  "\<exists>dev. nvmev_proc_io_sq False (\<lambda>_. (0, 0)) 1 1 0 (far_dev, []) = Some ((dev, []), 0) \<and> nss dev = nss far_dev"
proof -
  have "unat (2 ^ 50 div 8 :: u64) = 2 ^ 47" by simp
  moreover have "geometry (ns_spp demo_ns)"
    using ftl_ok_geometry demo_ftl(1) unfolding ftl_inv_def demo_ftl_def by blast
  then have "tt_pgs (ns_spp demo_ns) = tt_lines (ns_spp demo_ns) * pgs_per_line (ns_spp demo_ns)"
    by (simp only: geometryD(16,17,19)) (simp add: mult_ac)
  ultimately have out: "\<not> in_range demo_ns \<lparr>req_cmd = c_rw far_read, req_sq_id = 0, req_nsecs_start = 0\<rparr>"
    by (simp add: in_range_def cmd_last_def far_read_def demo_ns(3,8-10))
  have "nvmev_proc_io_sq False (\<lambda>_. (0, 0)) 1 1 0 (far_dev, []) =
    Some ((far_dev\<lparr>sqes := (sqes far_dev)[nat 1 := Some (far_queue\<lparr>sq_stat := end_dispatch (sq_stat far_queue)\<rparr>)]\<rparr>, []), 0)"
    by (rule out_of_range_blocks [where cmd = far_read and ns = "nss far_dev ! 0" and cn = demo_ns and gc_mode = GC_MODE_CB])
      (use out demo_ns(2) demo_ns_idle in \<open>simp_all add: far_dev_def far_queue_def far_read_def the_sq_def\<close>)
  then show ?thesis by simp
qed

end
