(* ===== verification/Layout_Props.thy ===== *)
theory Layout_Props
  imports Config
begin

text \<open>
  Where the configuration and the initialisation of the namespaces put them: inside the reserved
  memory, one after the other.
\<close>

lemma conv_size_le:
  assumes "conv_init_namespace spp0 junk d0 w0 clk rnd nsid sz = Some c"
  shows "unat (ns_size c) \<le> unat sz"
proof -
  obtain spp where "udiv (sz * 100) (of_nat (pba_pcent (conv_init_params spp))) = Some (ns_size c)"
    using assms by (auto simp: conv_init_namespace_def bind_Some_iff Let_def)
  moreover have "pba_pcent (conv_init_params spp) = 128" for spp by (simp add: conv_init_params_def)
  ultimately have "ns_size c = (sz * 100) div 128" by (simp add: udiv_def split: if_splits)
  then have "unat (ns_size c) = (unat sz * 100) mod 2 ^ 64 div 128" by (simp add: unat_div unat_word_ariths)
  moreover have "(unat sz * 100) mod 2 ^ 64 \<le> unat sz * 100" by (rule mod_less_eq_dividend)
  ultimately show ?thesis by linarith
qed

lemma init_namespace_place:
  assumes "init_namespace env sto ty i sz base = Some ns"
  shows "nsp_mapped ns = base" "unat (nsp_size ns) \<le> unat sz"
  using assms by (auto simp: init_namespace_def Let_def bind_Some_iff split: if_splits dest: conv_size_le)

lemma init_namespaces_place:
  "init_namespaces env sto tys i remaining base = Some xs \<Longrightarrow>
    (\<forall>k < length xs. nsp_mapped (xs ! k) + unat (nsp_size (xs ! k)) \<le>
      (if Suc k < length xs then nsp_mapped (xs ! Suc k) else base + unat remaining)) \<and>
    (xs \<noteq> [] \<longrightarrow> nsp_mapped (xs ! 0) = base) \<and> length xs = length tys"
proof (induction env sto tys i remaining base arbitrary: xs rule: init_namespaces.induct)
  case (2 env sto ty cap tys i remaining base)
  define sz where "sz = (if cap = 0 then remaining else min cap remaining)"
  obtain ns rest where r: "init_namespace env sto ty i sz base = Some ns"
      "init_namespaces env sto tys (i + 1) (remaining - sz) (base + unat sz) = Some rest" "xs = ns # rest"
    using 2(2) by (auto simp: sz_def bind_Some_iff Let_def)
  have le: "sz \<le> remaining" by (simp add: sz_def)
  have rem: "base + unat sz + unat (remaining - sz) = base + unat remaining"
    using le by (simp add: unat_sub word_le_nat_alt)
  note IH = 2(1) [OF sz_def r(1)] 
  have rest: "(\<forall>k < length rest. nsp_mapped (rest ! k) + unat (nsp_size (rest ! k)) \<le>
      (if Suc k < length rest then nsp_mapped (rest ! Suc k) else base + unat sz + unat (remaining - sz))) \<and>
    (rest \<noteq> [] \<longrightarrow> nsp_mapped (rest ! 0) = base + unat sz) \<and> length rest = length tys"
    using IH r(2) by blast
  have first: "nsp_mapped ns + unat (nsp_size ns) \<le> base + unat sz" using init_namespace_place [OF r(1)] by simp
  have "nsp_mapped (xs ! k) + unat (nsp_size (xs ! k)) \<le> (if Suc k < length xs then nsp_mapped (xs ! Suc k) else base + unat remaining)"
    if k: "k < length xs" for k
  proof (cases k)
    case 0
    have "base + unat sz \<le> base + unat remaining" using le by (simp add: word_le_nat_alt)
    then show ?thesis using first rest r(3) 0 by auto
  next
    case (Suc j)
    have "j < length rest" using k Suc r(3) by simp
    with rest have "nsp_mapped (rest ! j) + unat (nsp_size (rest ! j)) \<le>
        (if Suc j < length rest then nsp_mapped (rest ! Suc j) else base + unat sz + unat (remaining - sz))" by blast
    then show ?thesis using Suc rem r(3) by (simp split: if_splits)
  qed
  then show ?case using rest r(3) init_namespace_place(1) [OF r(1)] by simp
qed simp

text \<open>
  C39: a configuration that passed validation leaves a megabyte in front of the storage area, and the
  namespaces lie in it one after the other without overlap, whatever their kinds and capacities. The
  key-value build takes the space of its table after the validation: with less memory than that the
  size of the storage area wraps round to more than there is.
\<close>

theorem namespaces_fit:
  assumes cfg: "load_configs kv mapped strtol p = Some (Some cfg)"
    and ns: "NVMEV_NAMESPACE_INIT env tys (storage_size cfg) sto = Some xs"
  shows "storage_start cfg = p_memmap_start p + 2 ^ 20 \<and> length xs = length tys \<and>
    (if kv \<and> p_memmap_size p < KV_MAPPING_TABLE_SIZE + 2 ^ 20 then p_memmap_size p < storage_size cfg
     else 2 ^ 20 + unat (storage_size cfg) \<le> unat (p_memmap_size p)) \<and>
    (\<forall>k < length xs. nsp_mapped (xs ! k) + unat (nsp_size (xs ! k)) \<le>
      (if Suc k < length xs then nsp_mapped (xs ! Suc k) else unat (storage_size cfg)))"
proof -
  let ?m = "p_memmap_size p"
  have valid: "\<not> validate_configs mapped p < 0" and c: "storage_start cfg = p_memmap_start p + MiB 1"
      "storage_size cfg = (if kv then ?m - KV_MAPPING_TABLE_SIZE else ?m) - MiB 1"
    using cfg by (auto simp: load_configs_def Let_def split: if_splits)
  have mib: "MiB 1 = 2 ^ 20" by (simp add: MiB_def)
  have big: "2 ^ 20 < unat ?m" using valid unfolding validate_configs_def mib by (simp add: word_le_nat_alt split: if_splits)
  let ?t = "KV_MAPPING_TABLE_SIZE + 2 ^ 20"
  have t: "unat ?t = 2 ^ 30 + 2 ^ 20" by (simp add: KV_MAPPING_TABLE_SIZE_def)
  have "unat (?m - ?t) = (if unat ?t \<le> unat ?m then unat ?m - unat ?t else unat ?m + 2 ^ 64 - unat ?t)"
    using unat_sub_if' [of ?m ?t] by simp
  then have kv_size: "if ?m < ?t then ?m < ?m - ?t else 2 ^ 20 + unat (?m - ?t) \<le> unat ?m"
    using t by (auto simp: word_less_nat_alt)
  have plain: "unat (?m - 2 ^ 20) = unat ?m - 2 ^ 20" using big unat_sub [of "2 ^ 20" ?m] by (simp add: word_le_nat_alt)
  have "if kv \<and> ?m < KV_MAPPING_TABLE_SIZE + 2 ^ 20 then ?m < storage_size cfg else 2 ^ 20 + unat (storage_size cfg) \<le> unat ?m"
    using kv_size plain big c(2) [unfolded mib] by (cases kv) (simp_all add: diff_diff_eq split: if_splits)
  moreover have "\<forall>k < length xs. nsp_mapped (xs ! k) + unat (nsp_size (xs ! k)) \<le>
      (if Suc k < length xs then nsp_mapped (xs ! Suc k) else unat (storage_size cfg))" "length xs = length tys"
    using init_namespaces_place [OF ns [unfolded NVMEV_NAMESPACE_INIT_def]] unfolding add_0_left by blast+
  moreover have "storage_start cfg = p_memmap_start p + 2 ^ 20" unfolding c(1) mib ..
  ultimately show ?thesis by blast
qed

text \<open>Two simple namespaces in the memory from four to eight gigabytes, the first of one gigabyte.\<close>

definition four_gig :: module_params where
  "four_gig = \<lparr>p_memmap_start = 2 ^ 32, p_memmap_size = 2 ^ 32, p_read_time = 1, p_read_delay = 1, p_read_trailing = 0,
     p_write_time = 1, p_write_delay = 1, p_write_trailing = 0, p_nr_io_units = 8, p_io_unit_shift = 12, p_cpus = Some ''1,2''\<rparr>"

theorem namespaces_fit_witness:
  "\<forall>env sto. \<exists>cfg a b. load_configs False (\<lambda>_ _ t. t = E820_TYPE_RESERVED) (\<lambda>s. 1) four_gig = Some (Some cfg) \<and>
    NVMEV_NAMESPACE_INIT env [(SSD_TYPE_NVM, 2 ^ 30), (SSD_TYPE_NVM, 0)] (storage_size cfg) sto = Some [a, b] \<and>
    nsp_mapped a + unat (nsp_size a) \<le> nsp_mapped b \<and> nsp_mapped b + unat (nsp_size b) \<le> 2 ^ 32 - 2 ^ 20"
proof (intro allI)
  fix env sto
  have valid: "validate_configs (\<lambda>_ _ t. t = E820_TYPE_RESERVED) four_gig = 0"
    by (simp add: validate_configs_def validate_configs_arch_def four_gig_def MiB_def Let_def)
  obtain cfg where cfg: "load_configs False (\<lambda>_ _ t. t = E820_TYPE_RESERVED) (\<lambda>s. 1) four_gig = Some (Some cfg)"
    "storage_size cfg = 2 ^ 32 - 2 ^ 20"
    by (simp add: load_configs_def valid cpu_list_def Let_def) (simp add: four_gig_def MiB_def)
  obtain a b where ab: "NVMEV_NAMESPACE_INIT env [(SSD_TYPE_NVM, 2 ^ 30), (SSD_TYPE_NVM, 0)] (storage_size cfg) sto = Some [a, b]"
    by (simp add: NVMEV_NAMESPACE_INIT_def init_namespace_def Let_def)
  from namespaces_fit [OF cfg(1) ab]
  have fit: "\<forall>k < length [a, b]. nsp_mapped ([a, b] ! k) + unat (nsp_size ([a, b] ! k)) \<le>
      (if Suc k < length [a, b] then nsp_mapped ([a, b] ! Suc k) else unat (storage_size cfg))" by blast
  have "nsp_mapped a + unat (nsp_size a) \<le> nsp_mapped b" using fit [THEN spec, of 0] by simp
  moreover have "nsp_mapped b + unat (nsp_size b) \<le> 2 ^ 32 - 2 ^ 20" using fit [THEN spec, of 1] cfg(2) by simp
  ultimately show "\<exists>cfg a b. load_configs False (\<lambda>_ _ t. t = E820_TYPE_RESERVED) (\<lambda>s. 1) four_gig = Some (Some cfg) \<and>
    NVMEV_NAMESPACE_INIT env [(SSD_TYPE_NVM, 2 ^ 30), (SSD_TYPE_NVM, 0)] (storage_size cfg) sto = Some [a, b] \<and>
    nsp_mapped a + unat (nsp_size a) \<le> nsp_mapped b \<and> nsp_mapped b + unat (nsp_size b) \<le> 2 ^ 32 - 2 ^ 20"
    using cfg(1) ab by blast
qed

end
