(* ===== verification/Pci_Config.thy ===== *)
theory Pci_Config
  imports Prelude
begin

text \<open>
  The configuration space of the PCI device (\<open>pci.c\<close>, \<open>pci.h\<close>): a page that the initialisation fills
  with a header and two chains of capabilities, and that the host reads and writes. The constants of
  the kernel's headers are a parameter; \<open>linux_pci\<close> has their documented values.
\<close>

subsection \<open>Constants\<close>

record pci_consts =
  PCI_COMMAND :: nat
  PCI_STATUS :: nat
  PCI_BIST :: nat
  PCI_BASE_ADDRESS_0 :: nat
  PCI_INTERRUPT_LINE :: nat
  PCI_MSIX_FLAGS :: nat
  PCI_CFG_SPACE_SIZE :: nat
  PCI_COMMAND_INTX_DISABLE :: u32
  PCI_BIST_START :: u32
  PCI_MSIX_FLAGS_MASKALL :: u32
  PCI_MSIX_FLAGS_ENABLE :: u32
  PCI_HEADER_TYPE_NORMAL :: u32
  PCI_BASE_CLASS_STORAGE :: u32
  PCI_BASE_ADDRESS_MEM_TYPE_64 :: u32
  PCI_CAP_ID_PM :: u32
  PCI_CAP_ID_MSIX :: u32
  PCI_CAP_ID_EXP :: u32
  PCI_PM_CAP_PME_D0 :: u32
  PCI_EXP_FLAGS :: u32
  PCI_EXP_TYPE_ENDPOINT :: u32
  PCI_EXT_CAP_ID_ERR :: u32
  PCI_EXT_CAP_ID_VC :: u32
  PCI_EXT_CAP_ID_PWR :: u32
  PCI_EXT_CAP_ID_ARI :: u32
  PCI_EXT_CAP_ID_DSN :: u32
  PCI_EXT_CAP_ID_SECPCI :: u32

definition linux_pci :: pci_consts where
  "linux_pci = \<lparr>PCI_COMMAND = 4, PCI_STATUS = 6, PCI_BIST = 15, PCI_BASE_ADDRESS_0 = 16, PCI_INTERRUPT_LINE = 60, PCI_MSIX_FLAGS = 2,
     PCI_CFG_SPACE_SIZE = 256, PCI_COMMAND_INTX_DISABLE = 0x400, PCI_BIST_START = 0x40, PCI_MSIX_FLAGS_MASKALL = 0x4000,
     PCI_MSIX_FLAGS_ENABLE = 0x8000, PCI_HEADER_TYPE_NORMAL = 0, PCI_BASE_CLASS_STORAGE = 1, PCI_BASE_ADDRESS_MEM_TYPE_64 = 4,
     PCI_CAP_ID_PM = 1, PCI_CAP_ID_MSIX = 0x11, PCI_CAP_ID_EXP = 0x10, PCI_PM_CAP_PME_D0 = 0x800, PCI_EXP_FLAGS = 2,
     PCI_EXP_TYPE_ENDPOINT = 0, PCI_EXT_CAP_ID_ERR = 1, PCI_EXT_CAP_ID_VC = 2, PCI_EXT_CAP_ID_PWR = 4, PCI_EXT_CAP_ID_ARI = 0xE,
     PCI_EXT_CAP_ID_DSN = 3, PCI_EXT_CAP_ID_SECPCI = 0x19\<rparr>"

definition OFFS_PCI_PM_CAP :: nat where [cdefs]: "OFFS_PCI_PM_CAP = 0x40"
definition OFFS_PCI_MSIX_CAP :: nat where [cdefs]: "OFFS_PCI_MSIX_CAP = 0x50"
definition OFFS_PCIE_CAP :: nat where [cdefs]: "OFFS_PCIE_CAP = 0x60"
definition NVMEV_DEVICE_ID :: u32 where [cdefs]: "NVMEV_DEVICE_ID = 0x110"
definition NVMEV_VENDOR_ID :: u32 where [cdefs]: "NVMEV_VENDOR_ID = 0xC51"
definition NVMEV_SUBSYSTEM_ID :: u32 where [cdefs]: "NVMEV_SUBSYSTEM_ID = 0x370D"
definition NVMEV_SUBSYSTEM_VENDOR_ID :: u32 where [cdefs]: "NVMEV_SUBSYSTEM_VENDOR_ID = NVMEV_VENDOR_ID"
definition NVMEV_INTX_IRQ :: u32 where [cdefs]: "NVMEV_INTX_IRQ = 15"

subsection \<open>Bytes and bit fields\<close>

type_synonym cfg_space = "nat \<Rightarrow> u8"

definition cfg_get :: "cfg_space \<Rightarrow> nat \<Rightarrow> nat \<Rightarrow> u32" where
  "cfg_get m a n = foldr (\<lambda>j w. ucast (m (a + j)) OR push_bit 8 w) [0..<n] 0"

definition cfg_put :: "nat \<Rightarrow> nat \<Rightarrow> u32 \<Rightarrow> cfg_space \<Rightarrow> cfg_space" where
  "cfg_put a n w m = (\<lambda>i. if a \<le> i \<and> i < a + n then ucast (drop_bit (8 * (i - a)) w) else m i)"

text \<open>A bit field: \<open>w\<close> bits from bit \<open>lo\<close> of the little-endian word at \<open>a\<close>.\<close>

definition set_field :: "nat \<times> nat \<times> nat \<times> u32 \<Rightarrow> cfg_space \<Rightarrow> cfg_space" where
  "set_field f m = (let (a, lo, w, v) = f; x = cfg_get m a 4
     in cfg_put a 4 ((x AND NOT (push_bit lo (mask w))) OR push_bit lo (take_bit w v)) m)"

definition set_fields :: "(nat \<times> nat \<times> nat \<times> u32) list \<Rightarrow> cfg_space \<Rightarrow> cfg_space" where
  "set_fields fs m = fold set_field fs m"

subsection \<open>Structures\<close>

text \<open>
  A structure of the header file as its fields in order: name, bits of the integer type, bits of the
  field. A field starts where the last one ended, unless it would cross the end of an integer of its
  type; then it starts at the next one. An entry of width 0 goes to the next multiple of its type: it
  stands where an inner structure ends in padding or the next one has to be aligned.
\<close>

type_synonym layout = "(string \<times> nat \<times> nat) list"

definition bit_start :: "nat \<Rightarrow> nat \<Rightarrow> nat \<Rightarrow> nat" where
  "bit_start p c w = (if p mod c + w \<le> c \<and> (0 < w \<or> p mod c = 0) then p else (p div c + 1) * c)"

text \<open>The place of a field: its first bit and its width.\<close>

fun place :: "layout \<Rightarrow> nat \<Rightarrow> string \<Rightarrow> (nat \<times> nat) option" where
  "place [] p name = None"
| "place ((n, c, w) # fs) p name = (if n = name then Some (bit_start p c w, w) else place fs (bit_start p c w + w) name)"

text \<open>A field of a structure at \<open>a\<close>, in terms of aligned words, and the value for it.\<close>

definition field :: "layout \<Rightarrow> nat \<Rightarrow> string \<Rightarrow> u32 \<Rightarrow> nat \<times> nat \<times> nat \<times> u32" where
  "field s a name v = (let (q, w) = the (place s 0 name) in (a + 4 * (q div 32), q mod 32, w, v))"

definition pci_header :: layout where
  "pci_header =
     [(''id.vid'', 16, 16), (''id.did'', 16, 16), (''cmd.iose'', 8, 1), (''cmd.mse'', 8, 1), (''cmd.bme'', 8, 1),
      (''cmd.sce'', 8, 1), (''cmd.mwie'', 8, 1), (''cmd.vga'', 8, 1), (''cmd.pee'', 8, 1), (''cmd.fixed'', 8, 1),
      (''cmd.see'', 8, 1), (''cmd.fbe'', 8, 1), (''cmd.id'', 8, 1), (''cmd.rsvd'', 8, 5), (''sts.rsvd1'', 8, 3),
      (''sts.is'', 8, 1), (''sts.cl'', 8, 1), (''sts.c66'', 8, 1), (''sts.rsvd2'', 8, 1), (''sts.fbc'', 8, 1),
      (''sts.dpd'', 8, 1), (''sts.devt'', 8, 2), (''sts.sta'', 8, 1), (''sts.rta'', 8, 1), (''sts.rma'', 8, 1),
      (''sts.sse'', 8, 1), (''sts.dpe'', 8, 1), (''rid'', 8, 8), (''cc.pi'', 8, 8), (''cc.scc'', 8, 8),
      (''cc.bcc'', 8, 8), (''cls'', 8, 8), (''mlt'', 8, 8), (''htype.hl'', 8, 7), (''htype.mfd'', 8, 1),
      (''bist.cc'', 8, 4), (''bist.rsvd'', 8, 2), (''bist.sb'', 8, 1), (''bist.bc'', 8, 1), (''mlbar.rte'', 32, 1),
      (''mlbar.tp'', 32, 2), (''mlbar.pf'', 32, 1), (''mlbar.rsvd'', 32, 10), (''mlbar.ba'', 32, 18),
      (''mulbar'', 32, 32), (''idbar'', 32, 32), (''bar3'', 32, 32), (''bar4'', 32, 32), (''bar5'', 32, 32),
      (''ccptr'', 32, 32), (''ss.ssvid'', 16, 16), (''ss.ssid'', 16, 16), (''erom'', 32, 32), (''cap'', 8, 8),
      (''rsvd'', 8, 8), (''rsvd'', 8, 8), (''rsvd'', 8, 8), (''rsvd'', 8, 8), (''rsvd'', 8, 8), (''rsvd'', 8, 8),
      (''rsvd'', 8, 8), (''intr.iline'', 8, 8), (''intr.ipin'', 8, 8), (''mgnt'', 8, 8), (''mlat'', 8, 8)]"

definition pci_pm_cap :: layout where
  "pci_pm_cap =
     [(''pid.cid'', 8, 8), (''pid.next'', 8, 8), (''pc.vs'', 16, 3), (''pc.pmec'', 16, 1), (''pc.resv'', 16, 1),
      (''pc.dsi'', 16, 1), (''pc.auxc'', 16, 3), (''pc.d1s'', 16, 1), (''pc.d2s'', 16, 1), (''pc.psup'', 16, 5),
      (''pmcs.ps'', 16, 2), (''pmcs.rsvd01'', 16, 1), (''pmcs.nsfrst'', 16, 1), (''pmcs.rsvd02'', 16, 4),
      (''pmcs.pmee'', 16, 1), (''pmcs.dse'', 16, 4), (''pmcs.dsc'', 16, 2), (''pmcs.pmes'', 16, 1), (''ext'', 8, 8),
      (''ext'', 8, 8)]"

definition pci_msix_cap :: layout where
  "pci_msix_cap =
     [(''mxid.cid'', 8, 8), (''mxid.next'', 8, 8), (''mxc.ts'', 16, 11), (''mxc.rsvd'', 16, 3), (''mxc.fm'', 16, 1),
      (''mxc.mxe'', 16, 1), (''mtab.tbir'', 32, 3), (''mtab.to'', 32, 29), (''mpba.pbir'', 32, 3),
      (''mpba.pbao'', 32, 29)]"

definition pcie_cap :: layout where
  "pcie_cap =
     [(''pxid.cid'', 8, 8), (''pxid.next'', 8, 8), (''pxcap.ver'', 8, 4), (''pxcap.dpt'', 8, 4),
      (''pxcap.si'', 8, 1), (''pxcap.imn'', 8, 5), (''pxcap.rsvd'', 8, 2), (''pxdcap.mps'', 32, 3),
      (''pxdcap.pfs'', 32, 2), (''pxdcap.etfs'', 32, 1), (''pxdcap.l0sl'', 32, 3), (''pxdcap.l1l'', 32, 3),
      (''pxdcap.rsvd'', 32, 3), (''pxdcap.rer'', 32, 1), (''pxdcap.rsvd2'', 32, 2), (''pxdcap.csplv'', 32, 8),
      (''pxdcap.cspls'', 32, 2), (''pxdcap.flrc'', 32, 1), (''pxdcap.rsvd3'', 32, 3), (''pxdc.cere'', 16, 1),
      (''pxdc.nfere'', 16, 1), (''pxdc.fere'', 16, 2), (''pxdc.urre'', 16, 1), (''pxdc.ero'', 16, 1),
      (''pxdc.mps'', 16, 3), (''pxdc.ete'', 16, 1), (''pxdc.pfe'', 16, 1), (''pxdc.appme'', 16, 1),
      (''pxdc.ens'', 16, 1), (''pxdc.mrrs'', 16, 3), (''pxdc.iflr'', 16, 1), (''pxds'', 16, 0), (''pxds.ced'', 16, 1),
      (''pxds.nfed'', 16, 1), (''pxds.fed'', 16, 1), (''pxds.urd'', 16, 1), (''pxds.apd'', 16, 1),
      (''pxds.tp'', 16, 1), (''pxds.rsvd'', 16, 10), (''pxlcap'', 32, 0), (''pxlcap.sls'', 32, 4), (''pxlcap.mlw'', 32, 6),
      (''pxlcap.aspms'', 32, 2), (''pxlcap.l0sel'', 32, 3), (''pxlcap.l1el'', 32, 3), (''pxlcap.cpm'', 32, 1),
      (''pxlcap.sderc'', 32, 1), (''pxlcap.dllla'', 32, 20), (''pxlcap.lbnc'', 32, 1), (''pxlcap.aoc'', 32, 1),
      (''pxlcap.rsvd'', 32, 1), (''pxlcap.pn'', 32, 8), (''pxlc'', 32, 0), (''pxlc.aspmc'', 16, 2), (''pxlc.rsvd'', 16, 1),
      (''pxlc.rcb'', 16, 1), (''pxlc.rsvd2'', 16, 2), (''pxlc.ccc'', 16, 1), (''pxlc.es'', 16, 1),
      (''pxlc.ecpm'', 16, 1), (''pxlc.hawd'', 16, 1), (''pxlc.rsvd3'', 16, 6), (''pxls.clc'', 16, 4),
      (''pxls.nlw'', 16, 6), (''pxls.rsvd'', 16, 2), (''pxls.scc'', 16, 1), (''pxls.rsvd2'', 16, 3),
      (''pxdcap2.ctrs'', 32, 4), (''pxdcap2.ctds'', 32, 1), (''pxdcap2.arifs'', 32, 1), (''pxdcap2.aors'', 32, 1),
      (''pxdcap2.aocs32'', 32, 1), (''pxdcap2.aocs'', 32, 1), (''pxdcap2.ccs128'', 32, 1),
      (''pxdcap2.nprpr'', 32, 1), (''pxdcap2.ltrs'', 32, 1), (''pxdcap2.tphcs'', 32, 2), (''pxdcap2.rsvd'', 32, 4),
      (''pxdcap2.obffs'', 32, 2), (''pxdcap2.effs'', 32, 1), (''pxdcap2.eetps'', 32, 1), (''pxdcap2.meetp'', 32, 2),
      (''pxdcap2.rsvd2'', 32, 8), (''pxdc2.ctv'', 32, 4), (''pxdc2.ctd'', 32, 1), (''pxdc2.rsvd'', 32, 5),
      (''pxdc2.ltrme'', 32, 1), (''pxdc2.rsvd2'', 32, 2), (''pxdc2.obffe'', 32, 2), (''pxdc2.rsvd3'', 32, 17)]"

definition pci_ext_cap :: layout where
  "pci_ext_cap =
     [(''cid'', 16, 16), (''cver'', 16, 4), (''next'', 16, 12)]"

subsection \<open>Initialisation\<close>

text \<open>Vendor and device, memory enabled, the chain of capabilities, storage of class NVMe, the 64-bit
  base address in units of 16 KB, subsystem and interrupt.\<close>

definition PCI_HEADER_SETTINGS :: "pci_consts \<Rightarrow> u64 \<Rightarrow> cfg_space \<Rightarrow> cfg_space" where
  "PCI_HEADER_SETTINGS k base_pa = (let f = field pci_header 0 in set_fields
     [f ''id.did'' NVMEV_DEVICE_ID, f ''id.vid'' NVMEV_VENDOR_ID, f ''cmd.mse'' 1, f ''sts.cl'' 1, f ''htype.mfd'' 0,
      f ''htype.hl'' (PCI_HEADER_TYPE_NORMAL k), f ''rid'' 1, f ''cc.bcc'' (PCI_BASE_CLASS_STORAGE k), f ''cc.scc'' 8, f ''cc.pi'' 2,
      f ''mlbar.tp'' (drop_bit 1 (PCI_BASE_ADDRESS_MEM_TYPE_64 k)), f ''mlbar.ba'' (ucast (drop_bit 14 (base_pa AND 0xFFFFFFFF))),
      f ''mulbar'' (ucast (drop_bit 32 base_pa)), f ''ss.ssid'' NVMEV_SUBSYSTEM_ID, f ''ss.ssvid'' NVMEV_SUBSYSTEM_VENDOR_ID,
      f ''erom'' 0, f ''cap'' (of_nat OFFS_PCI_PM_CAP), f ''intr.ipin'' 0, f ''intr.iline'' NVMEV_INTX_IRQ])"

definition PCI_PMCAP_SETTINGS :: "pci_consts \<Rightarrow> cfg_space \<Rightarrow> cfg_space" where
  "PCI_PMCAP_SETTINGS k = (let f = field pci_pm_cap OFFS_PCI_PM_CAP in set_fields
     [f ''pid.cid'' (PCI_CAP_ID_PM k), f ''pid.next'' (of_nat OFFS_PCI_MSIX_CAP), f ''pc.vs'' 3, f ''pmcs.nsfrst'' 1,
      f ''pmcs.ps'' (drop_bit 16 (PCI_PM_CAP_PME_D0 k))])"

definition PCI_MSIXCAP_SETTINGS :: "pci_consts \<Rightarrow> cfg_space \<Rightarrow> cfg_space" where
  "PCI_MSIXCAP_SETTINGS k = (let f = field pci_msix_cap OFFS_PCI_MSIX_CAP in set_fields
     [f ''mxid.cid'' (PCI_CAP_ID_MSIX k), f ''mxid.next'' (of_nat OFFS_PCIE_CAP), f ''mxc.mxe'' 1, f ''mxc.ts'' 127,
      f ''mtab.tbir'' 0, f ''mtab.to'' 0x400, f ''mpba.pbao'' 0x1000, f ''mpba.pbir'' 0])"

definition PCI_PCIECAP_SETTINGS :: "pci_consts \<Rightarrow> cfg_space \<Rightarrow> cfg_space" where
  "PCI_PCIECAP_SETTINGS k = (let f = field pcie_cap OFFS_PCIE_CAP in set_fields
     [f ''pxid.cid'' (PCI_CAP_ID_EXP k), f ''pxid.next'' 0, f ''pxcap.ver'' (PCI_EXP_FLAGS k), f ''pxcap.imn'' 0,
      f ''pxcap.dpt'' (PCI_EXP_TYPE_ENDPOINT k), f ''pxdcap.mps'' 1, f ''pxdcap.pfs'' 0, f ''pxdcap.etfs'' 1, f ''pxdcap.l0sl'' 6,
      f ''pxdcap.l1l'' 2, f ''pxdcap.rer'' 1, f ''pxdcap.csplv'' 0, f ''pxdcap.cspls'' 0, f ''pxdcap.flrc'' 1])"

definition ext_cap :: "nat \<Rightarrow> u32 \<Rightarrow> nat \<Rightarrow> (nat \<times> nat \<times> nat \<times> u32) list" where
  "ext_cap a cid nxt = (let f = field pci_ext_cap a in [f ''cid'' cid, f ''cver'' 1, f ''next'' (of_nat nxt)])"

definition PCI_EXTCAP_SETTINGS :: "pci_consts \<Rightarrow> cfg_space \<Rightarrow> cfg_space" where
  "PCI_EXTCAP_SETTINGS k = set_fields (let b = PCI_CFG_SPACE_SIZE k in
     ext_cap b (PCI_EXT_CAP_ID_ERR k) (b + 0x50) @ ext_cap (b + 0x50) (PCI_EXT_CAP_ID_VC k) (b + 0x80) @
     ext_cap (b + 0x80) (PCI_EXT_CAP_ID_PWR k) (b + 0x90) @ ext_cap (b + 0x90) (PCI_EXT_CAP_ID_ARI k) (b + 0x170) @
     ext_cap (b + 0x170) (PCI_EXT_CAP_ID_DSN k) (b + 0x1A0) @ ext_cap (b + 0x1A0) (PCI_EXT_CAP_ID_SECPCI k) 0)"

text \<open>The device: its page, whether it was probed, and what the host chose for interrupts.\<close>

record pci_conf =
  virtDev :: cfg_space
  probed :: bool
  msix_enabled :: bool
  intx_disabled :: bool

text \<open>Up to the creation of the bus, which \<open>create_pci_bus\<close> of the controller models.\<close>

definition NVMEV_PCI_INIT :: "pci_consts \<Rightarrow> u64 \<Rightarrow> pci_conf \<Rightarrow> pci_conf" where
  "NVMEV_PCI_INIT k memmap_start c = c\<lparr>virtDev := PCI_EXTCAP_SETTINGS k (PCI_PCIECAP_SETTINGS k (PCI_MSIXCAP_SETTINGS k
     (PCI_PMCAP_SETTINGS k (PCI_HEADER_SETTINGS k memmap_start (virtDev c))))), intx_disabled := False\<rparr>"

subsection \<open>Reads and writes of the host\<close>

text \<open>The first \<open>n\<close> bytes of the result are replaced; past the page, or past the word, is a fault.\<close>

definition low_bytes :: "nat \<Rightarrow> u32 \<Rightarrow> u32 \<Rightarrow> u32" where
  "low_bytes n w old = (old AND NOT (mask (8 * n))) OR (w AND mask (8 * n))"

definition nvmev_pci_read :: "pci_conf \<Rightarrow> nat \<Rightarrow> nat \<Rightarrow> nat \<Rightarrow> u32 \<Rightarrow> (int \<times> u32) option" where
  "nvmev_pci_read c devfn pos n val =
     (if devfn \<noteq> 0 then Some (1, val)
      else do {
        NVMEV_ASSERT (n \<le> 4 \<and> pos + n \<le> 4096);
        Some (0, low_bytes n (cfg_get (virtDev c) pos n) val)
      })"

text \<open>Bits of the header that can be written; the capabilities can be written whole but for that of MSI-X.\<close>

definition write_mask :: "pci_consts \<Rightarrow> nat \<Rightarrow> u32" where
  "write_mask k pos =
     (if pos < OFFS_PCI_PM_CAP then
        (if pos = PCI_COMMAND k then PCI_COMMAND_INTX_DISABLE k
         else if pos = PCI_STATUS k then 0xF200
         else if pos = PCI_BIST k then PCI_BIST_START k
         else if pos = PCI_BASE_ADDRESS_0 k then 0xFFFFC000
         else if pos = PCI_INTERRUPT_LINE k then 0xFF
         else 0)
      else if pos < OFFS_PCI_MSIX_CAP then - 1
      else if pos < OFFS_PCIE_CAP then
        (if pos - OFFS_PCI_MSIX_CAP = PCI_MSIX_FLAGS k then PCI_MSIX_FLAGS_MASKALL k OR PCI_MSIX_FLAGS_ENABLE k else 0)
      else - 1)"

definition clear_intx :: "cfg_space \<Rightarrow> cfg_space" where
  "clear_intx = set_field (field pci_header 0 ''sts.is'' 0)"

definition note_write :: "pci_consts \<Rightarrow> nat \<Rightarrow> u32 \<Rightarrow> u32 \<Rightarrow> pci_conf \<Rightarrow> pci_conf" where
  "note_write k pos val new c =
     (if pos < OFFS_PCI_PM_CAP then
        (if pos = PCI_COMMAND k \<and> (val XOR new) AND PCI_COMMAND_INTX_DISABLE k \<noteq> 0 then
           (if new AND PCI_COMMAND_INTX_DISABLE k \<noteq> 0 then c\<lparr>intx_disabled := True\<rparr>
            else c\<lparr>intx_disabled := False, virtDev := clear_intx (virtDev c)\<rparr>)
         else c)
      else if OFFS_PCI_MSIX_CAP \<le> pos \<and> pos < OFFS_PCIE_CAP \<and> pos - OFFS_PCI_MSIX_CAP = PCI_MSIX_FLAGS k \<and> probed c \<and>
          (val XOR new) AND PCI_MSIX_FLAGS_ENABLE k \<noteq> 0 then
        c\<lparr>msix_enabled := (new AND PCI_MSIX_FLAGS_ENABLE k \<noteq> 0)\<rparr>
      else c)"

definition nvmev_pci_write :: "pci_consts \<Rightarrow> pci_conf \<Rightarrow> nat \<Rightarrow> nat \<Rightarrow> u32 \<Rightarrow> pci_conf option" where
  "nvmev_pci_write k c pos n new = do {
     NVMEV_ASSERT (n \<le> 4 \<and> pos + n \<le> 4096);
     let val = cfg_get (virtDev c) pos n;
     let c = note_write k pos val new c;
     let m = write_mask k pos;
     Some (c\<lparr>virtDev := cfg_put pos n ((val AND NOT m) OR (new AND m)) (virtDev c)\<rparr>)
   }"

text \<open>Raising an interrupt: the message's index, or the line, which the status register shows.\<close>

datatype raised = Msi int | Intx

definition signal_irq :: "int \<Rightarrow> pci_conf \<Rightarrow> pci_conf \<times> raised" where
  "signal_irq msi_index c =
     (if msix_enabled c then (c, Msi msi_index) else (c\<lparr>virtDev := set_field (field pci_header 0 ''sts.is'' 1) (virtDev c)\<rparr>, Intx))"

end
