(* ===== verification/Pci_Props.thy ===== *)
theory Pci_Props
  imports Pci_Config
begin

text \<open>
  What the host finds in the configuration space. A bit field is read byte by byte, so that the
  space after initialisation can be evaluated at any address.
\<close>

subsection \<open>Bytes of a field\<close>

definition byte_of :: "nat \<Rightarrow> u32 \<Rightarrow> u8" where
  "byte_of k w = ucast (drop_bit (8 * k) w)"

lemma bit_byte_of: "bit (byte_of k w) n \<longleftrightarrow> n < 8 \<and> bit w (8 * k + n)"
  by (auto simp: byte_of_def bit_simps)

lemma four: "k < 4 \<Longrightarrow> k = 0 \<or> k = 1 \<or> k = 2 \<or> k = (3 :: nat)"
  by auto

lemma cfg_get_4: "cfg_get m a 4 = ucast (m a) OR push_bit 8 (ucast (m (a + 1)) OR push_bit 8 (ucast (m (a + 2)) OR push_bit 8 (ucast (m (a + 3)))))"
  by (simp add: cfg_get_def upt_rec [of _ 4] numeral_3_eq_3)

lemma byte_of_get: "k < 4 \<Longrightarrow> byte_of k (cfg_get m a 4) = m (a + k)"
  by (rule bit_eqI, drule four) (auto simp: cfg_get_4 bit_byte_of bit_simps dest: bit_imp_le_length)

lemma set_field_byte:
  "set_field (a, lo, w, v) m i = (if a \<le> i \<and> i < a + 4
    then (m i AND NOT (byte_of (i - a) (push_bit lo (mask w)))) OR byte_of (i - a) (push_bit lo (take_bit w v)) else m i)"
proof (cases "a \<le> i \<and> i < a + 4")
  case True
  let ?k = "i - a" and ?M = "push_bit lo (mask w) :: u32" and ?V = "push_bit lo (take_bit w v)"
  have "byte_of ?k ((cfg_get m a 4 AND NOT ?M) OR ?V) = (byte_of ?k (cfg_get m a 4) AND NOT (byte_of ?k ?M)) OR byte_of ?k ?V"
    using True by (intro bit_eqI) (auto simp: bit_byte_of bit_simps)
  moreover have "byte_of ?k (cfg_get m a 4) = m i" using True by (subst byte_of_get) auto
  ultimately show ?thesis using True by (simp add: set_field_def cfg_put_def Let_def byte_of_def)
qed (auto simp: set_field_def cfg_put_def Let_def)

subsection \<open>The initial space\<close>

definition fresh_conf :: pci_conf where
  "fresh_conf = \<lparr>virtDev = (\<lambda>i. 0), probed = False, msix_enabled = False, intx_disabled = False\<rparr>"

definition space :: "u64 \<Rightarrow> cfg_space" where
  "space base = virtDev (NVMEV_PCI_INIT linux_pci base fresh_conf)"

text \<open>Where the fields are.\<close>

lemma header_fields:
  "field pci_header 0 ''id.did'' v = (0, 16, 16, v)" "field pci_header 0 ''id.vid'' v = (0, 0, 16, v)"
  "field pci_header 0 ''cmd.mse'' v = (4, 1, 1, v)" "field pci_header 0 ''sts.cl'' v = (4, 20, 1, v)"
  "field pci_header 0 ''htype.mfd'' v = (12, 23, 1, v)" "field pci_header 0 ''htype.hl'' v = (12, 16, 7, v)"
  "field pci_header 0 ''rid'' v = (8, 0, 8, v)" "field pci_header 0 ''cc.bcc'' v = (8, 24, 8, v)"
  "field pci_header 0 ''cc.scc'' v = (8, 16, 8, v)" "field pci_header 0 ''cc.pi'' v = (8, 8, 8, v)"
  "field pci_header 0 ''mlbar.tp'' v = (16, 1, 2, v)" "field pci_header 0 ''mlbar.ba'' v = (16, 14, 18, v)"
  "field pci_header 0 ''mulbar'' v = (20, 0, 32, v)" "field pci_header 0 ''ss.ssid'' v = (44, 16, 16, v)"
  "field pci_header 0 ''ss.ssvid'' v = (44, 0, 16, v)" "field pci_header 0 ''erom'' v = (48, 0, 32, v)"
  "field pci_header 0 ''cap'' v = (52, 0, 8, v)" "field pci_header 0 ''intr.ipin'' v = (60, 8, 8, v)"
  "field pci_header 0 ''intr.iline'' v = (60, 0, 8, v)"
  by (simp_all add: field_def pci_header_def bit_start_def)

lemma pm_fields:
  "field pci_pm_cap a ''pid.cid'' v = (a, 0, 8, v)" "field pci_pm_cap a ''pid.next'' v = (a, 8, 8, v)"
  "field pci_pm_cap a ''pc.vs'' v = (a, 16, 3, v)" "field pci_pm_cap a ''pmcs.nsfrst'' v = (a + 4, 3, 1, v)"
  "field pci_pm_cap a ''pmcs.ps'' v = (a + 4, 0, 2, v)"
  by (simp_all add: field_def pci_pm_cap_def bit_start_def)

lemma msix_fields:
  "field pci_msix_cap a ''mxid.cid'' v = (a, 0, 8, v)" "field pci_msix_cap a ''mxid.next'' v = (a, 8, 8, v)"
  "field pci_msix_cap a ''mxc.mxe'' v = (a, 31, 1, v)" "field pci_msix_cap a ''mxc.ts'' v = (a, 16, 11, v)"
  "field pci_msix_cap a ''mtab.tbir'' v = (a + 4, 0, 3, v)" "field pci_msix_cap a ''mtab.to'' v = (a + 4, 3, 29, v)"
  "field pci_msix_cap a ''mpba.pbao'' v = (a + 8, 3, 29, v)" "field pci_msix_cap a ''mpba.pbir'' v = (a + 8, 0, 3, v)"
  by (simp_all add: field_def pci_msix_cap_def bit_start_def)

lemma pcie_fields:
  "field pcie_cap a ''pxid.cid'' v = (a, 0, 8, v)" "field pcie_cap a ''pxid.next'' v = (a, 8, 8, v)"
  "field pcie_cap a ''pxcap.ver'' v = (a, 16, 4, v)" "field pcie_cap a ''pxcap.imn'' v = (a, 25, 5, v)"
  "field pcie_cap a ''pxcap.dpt'' v = (a, 20, 4, v)" "field pcie_cap a ''pxdcap.mps'' v = (a + 4, 0, 3, v)"
  "field pcie_cap a ''pxdcap.pfs'' v = (a + 4, 3, 2, v)" "field pcie_cap a ''pxdcap.etfs'' v = (a + 4, 5, 1, v)"
  "field pcie_cap a ''pxdcap.l0sl'' v = (a + 4, 6, 3, v)" "field pcie_cap a ''pxdcap.l1l'' v = (a + 4, 9, 3, v)"
  "field pcie_cap a ''pxdcap.rer'' v = (a + 4, 15, 1, v)" "field pcie_cap a ''pxdcap.csplv'' v = (a + 4, 18, 8, v)"
  "field pcie_cap a ''pxdcap.cspls'' v = (a + 4, 26, 2, v)" "field pcie_cap a ''pxdcap.flrc'' v = (a + 4, 28, 1, v)"
  by (simp_all add: field_def pcie_cap_def bit_start_def)

lemma ext_fields:
  "field pci_ext_cap a ''cid'' v = (a, 0, 16, v)" "field pci_ext_cap a ''cver'' v = (a, 16, 4, v)"
  "field pci_ext_cap a ''next'' v = (a, 20, 12, v)"
  by (simp_all add: field_def pci_ext_cap_def bit_start_def)

lemmas settings = space_def NVMEV_PCI_INIT_def fresh_conf_def PCI_EXTCAP_SETTINGS_def PCI_PCIECAP_SETTINGS_def PCI_MSIXCAP_SETTINGS_def
  PCI_PMCAP_SETTINGS_def PCI_HEADER_SETTINGS_def set_fields_def ext_cap_def linux_pci_def cdefs Let_def
  header_fields pm_fields msix_fields pcie_fields ext_fields

lemmas eval_bytes = settings set_field_byte byte_of_def mask_eq_exp_minus_1

lemma chain_bytes:
  "space base 0x34 = 0x40" "space base 0x40 = 1" "space base 0x41 = 0x50" "space base 0x50 = 0x11" "space base 0x51 = 0x60"
  "space base 0x60 = 0x10" "space base 0x61 = 0"
  by (simp_all add: eval_bytes)

lemma ext_bytes:
  "space base 0x100 = 1" "space base 0x101 = 0" "space base 0x102 = 1" "space base 0x103 = 0x15"
  "space base 0x150 = 2" "space base 0x151 = 0" "space base 0x152 = 1" "space base 0x153 = 0x18"
  "space base 0x180 = 4" "space base 0x181 = 0" "space base 0x182 = 1" "space base 0x183 = 0x19"
  "space base 0x190 = 0xE" "space base 0x191 = 0" "space base 0x192 = 1" "space base 0x193 = 0x27"
  "space base 0x270 = 3" "space base 0x271 = 0" "space base 0x272 = 1" "space base 0x273 = 0x2A"
  "space base 0x2A0 = 0x19" "space base 0x2A1 = 0" "space base 0x2A2 = 1" "space base 0x2A3 = 0"
  by (simp_all add: eval_bytes)

lemma take_bit_whole [simp]: "take_bit 32 (w :: u32) = w"
  by (simp add: take_bit_word_eq_self)

definition bar_bits :: "u64 \<Rightarrow> u32" where
  "bar_bits base = push_bit 14 (take_bit 18 (ucast (drop_bit 14 (base AND 0xFFFFFFFF))))"

lemma bar_bytes:
  "space base 0x10 = 4 OR byte_of 0 (bar_bits base)" "space base 0x11 = byte_of 1 (bar_bits base)"
  "space base 0x12 = byte_of 2 (bar_bits base)" "space base 0x13 = byte_of 3 (bar_bits base)"
  "space base 0x14 = byte_of 0 (ucast (drop_bit 32 base))" "space base 0x15 = byte_of 1 (ucast (drop_bit 32 base))"
  "space base 0x16 = byte_of 2 (ucast (drop_bit 32 base))" "space base 0x17 = byte_of 3 (ucast (drop_bit 32 base))"
  by (simp_all add: eval_bytes bar_bits_def)

lemma get_from_bytes:
  assumes "m a = byte_of 0 w" "m (a + 1) = byte_of 1 w" "m (a + 2) = byte_of 2 w" "m (a + 3) = byte_of 3 w"
  shows "cfg_get m a 4 = w"
proof (rule bit_word_eqI)
  fix n
  assume n: "n < LENGTH(32)"
  consider "n < 8" | k where "n = 8 + k" "k < 8" | k where "n = 16 + k" "k < 8" | k where "n = 24 + k" "k < 8"
  proof -
    have "n < 8 \<or> (\<exists>k < 8. n = 8 + k) \<or> (\<exists>k < 8. n = 16 + k) \<or> (\<exists>k < 8. n = 24 + k)" using n by (simp add: less_iff_Suc_add) presburger
    then show thesis using that by blast
  qed
  then show "bit (cfg_get m a 4) n = bit w n" unfolding cfg_get_4
    using assms by cases (auto simp: bit_simps bit_byte_of dest: bit_imp_le_length)
qed

lemma bar_bits_eq: "bar_bits base = ucast base AND 0xFFFFC000"
proof -
  have m: "(0xFFFFC000 :: u32) = NOT (mask 14)" by (simp add: mask_eq_exp_minus_1)
  have t: "base AND 0xFFFFFFFF = take_bit 32 base" by (simp add: take_bit_eq_mask mask_eq_exp_minus_1)
  show ?thesis unfolding bar_bits_def m t
    by (rule bit_eqI) (auto simp: bit_simps dest: bit_imp_le_length)
qed

lemma bars: "cfg_get (space base) 0x10 4 = 4 OR (ucast base AND 0xFFFFC000)" "cfg_get (space base) 0x14 4 = ucast (drop_bit 32 base)"
proof -
  have or: "byte_of k (4 OR w) = byte_of k 4 OR byte_of k w" for k w by (rule bit_eqI) (auto simp: bit_byte_of bit_simps)
  have four: "byte_of 0 4 = 4" "byte_of (Suc 0) 4 = 0" "byte_of 2 4 = 0" "byte_of 3 4 = 0" by (simp_all add: byte_of_def)
  show "cfg_get (space base) 0x10 4 = 4 OR (ucast base AND 0xFFFFC000)" unfolding bar_bits_eq [symmetric]
    by (rule get_from_bytes) (simp_all add: bar_bytes or four)
  show "cfg_get (space base) 0x14 4 = ucast (drop_bit 32 base)" by (rule get_from_bytes) (simp_all add: bar_bytes)
qed

subsection \<open>Probing\<close>

text \<open>The capabilities as a host finds them: position and id of each, along the chain.\<close>

fun cap_chain :: "nat \<Rightarrow> cfg_space \<Rightarrow> nat \<Rightarrow> (nat \<times> u8) list" where
  "cap_chain 0 m p = []"
| "cap_chain (Suc n) m p = (if p = 0 then [] else (p, m p) # cap_chain n m (unat (m (p + 1))))"

fun ext_chain :: "nat \<Rightarrow> cfg_space \<Rightarrow> nat \<Rightarrow> (nat \<times> u32) list" where
  "ext_chain 0 m p = []"
| "ext_chain (Suc n) m p = (if p = 0 then [] else (p, cfg_get m p 2) # ext_chain n m (unat (drop_bit 4 (cfg_get m (p + 2) 2))))"

lemma chain_numeral:
  "cap_chain (numeral k) m p = (if p = 0 then [] else (p, m p) # cap_chain (pred_numeral k) m (unat (m (p + 1))))"
  "ext_chain (numeral k) m p =
    (if p = 0 then [] else (p, cfg_get m p 2) # ext_chain (pred_numeral k) m (unat (drop_bit 4 (cfg_get m (p + 2) 2))))"
  by (simp_all add: numeral_eq_Suc)

lemma cfg_get_2: "cfg_get m a 2 = ucast (m a) OR push_bit 8 (ucast (m (a + 1)))"
  by (simp add: cfg_get_def upt_rec [of _ 2])

lemma cfg_get_put: "cfg_get (cfg_put a 4 w m) a 4 = w"
  by (rule get_from_bytes) (simp_all add: cfg_put_def byte_of_def)

text \<open>
  C40: after initialisation the host finds power management, MSI-X and PCI Express in the chain of
  capabilities and six extended capabilities, each chain ending; a 64-bit memory base address that
  is the start of the reserved memory rounded down to 16 KB; and whatever it writes to the lower half
  of it, it reads back the address bits it wrote with the type bits unchanged, all ones telling it
  that the region has 16 KB.
\<close>

theorem pci_probe:
  fixes base :: u64
  shows "let c = NVMEV_PCI_INIT linux_pci base fresh_conf in
    cap_chain 48 (virtDev c) (unat (virtDev c 0x34)) = [(0x40, 1), (0x50, 0x11), (0x60, 0x10)] \<and>
    ext_chain 960 (virtDev c) 0x100 = [(0x100, 1), (0x150, 2), (0x180, 4), (0x190, 0xE), (0x270, 3), (0x2A0, 0x19)] \<and>
    cfg_get (virtDev c) 0x10 4 = 4 OR (ucast base AND 0xFFFFC000) \<and> cfg_get (virtDev c) 0x14 4 = ucast (drop_bit 32 base) \<and>
    (\<forall>x old. \<exists>c'. nvmev_pci_write linux_pci c 0x10 4 x = Some c' \<and>
      nvmev_pci_read c' 0 0x10 4 old = Some (0, 4 OR (x AND 0xFFFFC000)))"
proof -
  let ?c = "NVMEV_PCI_INIT linux_pci base fresh_conf"
  have c: "virtDev ?c = space base" by (simp add: space_def)
  have chain: "cap_chain 48 (space base) (unat (space base 0x34)) = [(0x40, 1), (0x50, 0x11), (0x60, 0x10)]"
    by (simp add: chain_numeral chain_bytes)
  have ext: "ext_chain 960 (space base) 0x100 = [(0x100, 1), (0x150, 2), (0x180, 4), (0x190, 0xE), (0x270, 3), (0x2A0, 0x19)]"
    by (simp add: chain_numeral cfg_get_2 ext_bytes)
  have "(4 :: u32) AND NOT 0xFFFFC000 = 4" "(y AND 0xFFFFC000) AND NOT 0xFFFFC000 = (0 :: u32)" for y by (simp_all add: and.assoc)
  then have "(4 OR (ucast base AND 0xFFFFC000)) AND NOT 0xFFFFC000 = (4 :: u32)" by (simp only: bit.conj_disj_distrib2 or.right_neutral)
  then have "(cfg_get (space base) 0x10 4 AND NOT 0xFFFFC000) OR (x AND 0xFFFFC000) = 4 OR (x AND 0xFFFFC000)" for x
    by (simp only: bars)
  then have "\<exists>c'. nvmev_pci_write linux_pci c 0x10 4 x = Some c' \<and> virtDev c' = cfg_put 0x10 4 (4 OR (x AND 0xFFFFC000)) (space base)"
    if "virtDev c = space base" for c x
    by (simp add: nvmev_pci_write_def that note_write_def write_mask_def linux_pci_def cdefs Let_def)
  note this [OF c]
  moreover have "low_bytes 4 w old = w" for w old unfolding low_bytes_def by (rule bit_word_eqI) (auto simp: bit_simps)
  ultimately have "\<exists>c'. nvmev_pci_write linux_pci ?c 0x10 4 x = Some c' \<and> nvmev_pci_read c' 0 0x10 4 old = Some (0, 4 OR (x AND 0xFFFFC000))" for x old
    by (fastforce simp: nvmev_pci_read_def cfg_get_put)
  then show ?thesis using chain ext bars unfolding Let_def c by blast
qed

end
