(* ===== verification/Spec2Isabelle.thy ===== *)
theory Spec2Isabelle
  imports Zns_Props Conv_Props Device_Props Simple_Props Kv_Props Io_Props Queue_Props Dma_Props Ctrl_Props Dispatch_Props Layout_Props Pci_Props
begin

text \<open>
  A model and verification of NVMeVirt as kept in this repository: a Linux kernel module that
  emulates an NVMe device in host memory. This text says what the program's parts are, which theory
  models which part, what is proved, and what is left out.

  \<^bold>\<open>The program.\<close> A reserved range of host memory is the storage area. The host's NVMe driver sees
  a PCI device with registers, doorbells and queues. One kernel thread, the dispatcher (\<open>main.c\<close>),
  polls the registers (\<open>pci.c\<close>) and the doorbells; it answers admin commands itself (\<open>admin.c\<close>) and
  hands each IO command (\<open>io.c\<close>) to the handler of its namespace, which only computes when the
  command would be finished on the emulated device: conventional (\<open>conv_ftl.c\<close>), zoned (\<open>zns_ftl.c\<close>,
  \<open>zns_read_write.c\<close>, \<open>zns_mgmt_send.c\<close>, \<open>zns_mgmt_recv.c\<close>), simple (\<open>simple_ftl.c\<close>) or key-value
  (\<open>kv_ftl.c\<close>). The request then goes, ordered by that time, into the work queue of an IO worker,
  which copies the data at once and posts the completion when the time has come. Conventional and
  zoned namespaces run on a timed model of NAND flash (\<open>ssd.c\<close>) whose channels share bandwidth
  (\<open>channel_model.c\<close>); the conventional one has a flash translation layer with garbage collection,
  whose victims come from a heap (\<open>pqueue.c\<close>), a cost-benefit score or a Q-learning agent.

  \<^bold>\<open>Conventions\<close> (\<^verbatim>\<open>Prelude\<close>). C integers are words of their width where they wrap, \<open>int\<close> or \<open>nat\<close>
  where the code keeps them small; a pointer is an index or an optional value; structures are
  records with the fields the code reads. Every operation is a function from the state to an
  option of the new state: \<open>None\<close> is a fault, that is a failed assertion, an array access out of
  bounds, a null pointer, a division by zero or the use of an uninitialised value. Errors that the
  code reports are values: a status or a boolean, as in the code. Loops are structural recursion,
  folds that stop at a fault (\<open>fold_opt\<close>), \<open>function\<close> with a measure, or \<open>partial_function (option)\<close>
  where the code's loop may not end; for those it is proved that they return. Clocks, random numbers
  and memory that is allocated but not cleared are arguments or streams in the state.

  \<^bold>\<open>Theories and what they model.\<close>

  \<^item> \<^verbatim>\<open>Channel_Model\<close>: credits of a channel over time (\<open>channel_model.c\<close>), with the invariant of its
    ring. \<^verbatim>\<open>Ssd\<close>: parameters derived from a capacity (\<open>ssd_init_params\<close>). \<^verbatim>\<open>Nand\<close>: addresses, the
    hierarchy of channels, LUNs, blocks and pages, the write buffer, the times of commands.
  \<^item> \<^verbatim>\<open>Pqueue\<close>, \<^verbatim>\<open>Pqueue_Ops\<close>: the heap of \<open>pqueue.c\<close> with positions kept by callbacks; the callbacks
    are the locale \<open>pq_store\<close>, interpreted for the lines of the translation layer in \<^verbatim>\<open>Victim_Queue\<close>.
  \<^item> \<^verbatim>\<open>Score\<close>, \<^verbatim>\<open>Ftl_State\<close>, \<^verbatim>\<open>Victim\<close>, \<^verbatim>\<open>Lines\<close>, \<^verbatim>\<open>Gc\<close>, \<^verbatim>\<open>Conv_Ftl\<close>: the conventional namespace in the
    order of \<open>conv_ftl.c\<close>. \<^verbatim>\<open>Outcome\<close>, \<^verbatim>\<open>Geometry\<close>, \<^verbatim>\<open>Nand_View\<close>, \<^verbatim>\<open>Nand_Timing\<close>, \<^verbatim>\<open>Line_Inv\<close>,
    \<^verbatim>\<open>Line_Ops\<close>, \<^verbatim>\<open>Ftl_Inv\<close>, \<^verbatim>\<open>Ftl_Pages\<close>, \<^verbatim>\<open>Ftl_Gc\<close>, \<^verbatim>\<open>Ftl_Collect\<close>, \<^verbatim>\<open>Ftl_Select\<close>, \<^verbatim>\<open>Ftl_Cycle\<close>,
    \<^verbatim>\<open>Ftl_Write\<close>, \<^verbatim>\<open>Addresses\<close>, \<^verbatim>\<open>Ftl_Init\<close>, \<^verbatim>\<open>Conv_Ns\<close>, \<^verbatim>\<open>Conv_Reach\<close>: its invariant (mapping table and
    reverse map inverse to each other, counts of blocks and lines, every line in exactly one
    place, open lines filled up to their write pointers) and its preservation by every operation,
    up to whole lives of a namespace. \<^verbatim>\<open>Policy\<close>, \<^verbatim>\<open>Agent\<close>: what the scored policies and the agent
    choose. \<^verbatim>\<open>Examples\<close>: small devices on which hypotheses are evaluated.
  \<^item> \<^verbatim>\<open>Zns\<close>, \<^verbatim>\<open>Zns_Io\<close>, \<^verbatim>\<open>Zns_Cmd\<close>: zones, their resources and management, reads and writes, reports
    and the switch over the commands; \<^verbatim>\<open>Zns_Inv\<close>: the accounting and placement invariants.
  \<^item> \<^verbatim>\<open>Io_Units\<close>: the simple namespace. \<^verbatim>\<open>Kv_Alloc\<close>, \<^verbatim>\<open>Kv_Map\<close>, \<^verbatim>\<open>Kv_Cmd\<close>: allocators, hash table and
    commands of the key-value namespace; \<^verbatim>\<open>Kv_Table\<close>: the table as a partial map. \<^verbatim>\<open>Prp\<close>: the walk
    over the pages of a command, as \<open>io.c\<close> and \<open>kv_ftl.c\<close> have it, and what it moves.
  \<^item> \<^verbatim>\<open>Work_Queue\<close>: the work queue of a worker, two lists chained in an array; \<^verbatim>\<open>Wq_Lists\<close>, \<^verbatim>\<open>Wq_Inv\<close>,
    \<^verbatim>\<open>Wq_Steps\<close>, \<^verbatim>\<open>Wq_System\<close>: the array as two lists of indices, contracts of the operations, and the
    dispatcher and a worker as a step relation. What a worker does for a request is the locale
    \<open>io_backend\<close>, interpreted in \<^verbatim>\<open>Io_Worker\<close> by copying and completing on the device.
  \<^item> \<^verbatim>\<open>Io_Queues\<close>, \<^verbatim>\<open>Io_Worker\<close>: submission and completion queues, the dispatch of IO commands, data
    copies by hand and by the DMA engine, completions. \<^verbatim>\<open>Namespaces\<close>: the four kinds of namespaces
    behind the pointers that their initialisations register, and their layout. \<^verbatim>\<open>Admin\<close>,
    \<^verbatim>\<open>Controller\<close>, \<^verbatim>\<open>Config\<close>: admin commands, registers and doorbells, the round of the dispatcher,
    parameters and proc files. \<^verbatim>\<open>Pci_Config\<close>: the configuration space, its structures as bit fields of
    a page.
  \<^bold>\<open>What is proved.\<close> The theorems named C1 to C40 stand in the \<^verbatim>\<open>_Props\<close> theories and in \<^verbatim>\<open>Pqueue_Ops\<close>;
  where a theorem has hypotheses, the theorem after it applies it to a concrete state.

  \<^item> \<^verbatim>\<open>Conv_Props\<close>: in every state of a conventional namespace the FTL invariant holds and the mapped
    pages are those of the accepted writes; garbage collection keeps them; reads, writes and flushes
    never fault while lines are left; initialisation of a fresh device.
  \<^item> \<^verbatim>\<open>Device_Props\<close>: write pointers, victim selection, NAND times, the agent, address words, the
    square root. \<^verbatim>\<open>Pqueue_Ops\<close>: the heap and its self-check.
  \<^item> \<^verbatim>\<open>Zns_Props\<close>: zones follow their state machine, resources are counted exactly, writes land at
    the write pointer. \<^verbatim>\<open>Simple_Props\<close>: times of the simple namespace.
  \<^item> \<^verbatim>\<open>Kv_Props\<close>: a stored value is read back through the page lists of two commands, the hash table
    refines a partial map, iterators advance; deletion and update lose data.
  \<^item> \<^verbatim>\<open>Io_Props\<close>: requests of a work queue are completed exactly once and not early, a pass ends.
    \<^verbatim>\<open>Queue_Props\<close>: the ring of completions and its doorbell. \<^verbatim>\<open>Dma_Props\<close>: the DMA engine copies as the
    worker does. \<^verbatim>\<open>Dispatch_Props\<close>: a refused command blocks its queue. \<^verbatim>\<open>Layout_Props\<close>: namespaces fit
    in the storage area. \<^verbatim>\<open>Pci_Props\<close>: the chains of capabilities and the base address that a host finds.
  \<^item> \<^verbatim>\<open>Queue_Inv\<close>, \<^verbatim>\<open>Ctrl_Inv\<close>, \<^verbatim>\<open>Ctrl_Props\<close>: host, dispatcher and workers as one step relation, the shape
    of the controller's state in all its states, admin completions, and the registers settling.

  \<^bold>\<open>Bounds.\<close> Arithmetic is that of the code; a theorem that needs values to be small says so (lines of
  at most 2^17 pages and 2^20 erasures for the scores, capacities of 4 to 4 * 10^12 bytes for the
  conventional device of the build). No fuel is used except in the number of commands between two
  doorbells, which the code computes.

  \<^bold>\<open>Not modelled.\<close> Registration with the kernel: the PCI bus, the interrupt chip and the delivery of
  interrupts (an interrupt is a number in a list), threads and the loading and unloading of the
  module; mapping and freeing of memory; \<open>dma.c\<close>, which drives a DMA engine of the kernel; printed
  text and the measurements under \<^verbatim>\<open>PERF_DEBUG\<close>. Concurrency: a step of the dispatcher or of a
  worker's visit to a request is atomic, and they interleave between such steps; memory barriers
  and torn reads are not seen. The scanning of numbers, the machine's memory map and the search for
  free bits are parameters (\<open>sscanf\<close>, \<open>simple_strtol\<close>, \<open>e820__mapped_any\<close>,
  \<open>bitmap_find_next_zero_area\<close>), and so are the entries of queues in host memory.
\<close>

end
